(* ===== verification/PyPrelude.thy ===== *)
theory PyPrelude
  imports Main "HOL-Library.AList"
begin

text \<open>
  What every component of the model shares: results that may be an exception, Python's
  insertion-ordered dictionaries, bounded deques, and the list lemmas about them.

  \<^item> A call that may raise returns a sum: \<open>Inl e\<close> for the exception, \<open>Inr v\<close> for the value;
    \<open>rbind\<close> sequences two such calls and \<open>rmap\<close> runs one over a list, stopping at the first
    exception as a loop without \<open>try\<close> does.
  \<^item> A dictionary is an association list in insertion order. Storing under a present key keeps
    its place and storing under a new key appends it, as Python's \<open>dict\<close> does; this is
    \<open>AList.update\<close> of the library.
  \<^item> \<open>collections.deque(maxlen=n)\<close> is a list of at most \<open>n\<close> elements; appending to a full one
    drops the oldest.
\<close>

section \<open>Collections of rules\<close>

named_theorems res_simps \<open>equations that evaluate results with exceptions\<close>
named_theorems dict_simps \<open>equations of dictionary lookups and key lists\<close>
named_theorems inv_intros \<open>operations that keep a component's invariant\<close>

section \<open>Exceptions and results\<close>

text \<open>
  The exceptions of Python the sources raise or catch by name, and \<open>AppError\<close>, an exception of
  the program itself (\<open>gcode.error\<close>, \<open>config.error\<close>, \<open>server.error\<close>, \<open>msgproto.error\<close>) with its
  message.
\<close>

datatype exc =
    IndexError
  | KeyError
  | ValueError
  | TypeError
  | ZeroDivisionError
  | AttributeError
  | AssertionError
  | AppError string

type_synonym 'a res = "exc + 'a"

definition rbind :: "'e + 'a \<Rightarrow> ('a \<Rightarrow> 'e + 'b) \<Rightarrow> 'e + 'b" where
  "rbind r f = (case r of Inl e \<Rightarrow> Inl e | Inr x \<Rightarrow> f x)"

lemma rbind_Inl [simp, res_simps]: "rbind (Inl e) f = Inl e"
  and rbind_Inr [simp, res_simps]: "rbind (Inr x) f = f x"
  by (simp_all add: rbind_def)

lemma rbind_eq_Inr: "rbind r f = Inr y \<longleftrightarrow> (\<exists>x. r = Inr x \<and> f x = Inr y)"
  by (cases r) auto

lemma rbind_eq_Inl: "rbind r f = Inl e \<longleftrightarrow> r = Inl e \<or> (\<exists>x. r = Inr x \<and> f x = Inl e)"
  by (cases r) auto

lemma rbind_assoc: "rbind (rbind r f) g = rbind r (\<lambda>x. rbind (f x) g)"
  by (cases r) auto

lemma rbind_cong [fundef_cong]:
  "r = r' \<Longrightarrow> (\<And>x. r' = Inr x \<Longrightarrow> f x = g x) \<Longrightarrow> rbind r f = rbind r' g"
  by (cases r') auto

fun rmap :: "('a \<Rightarrow> 'e + 'b) \<Rightarrow> 'a list \<Rightarrow> 'e + 'b list" where
  "rmap f [] = Inr []"
| "rmap f (x # xs) = rbind (f x) (\<lambda>y. rbind (rmap f xs) (\<lambda>ys. Inr (y # ys)))"

lemma rmap_total: "(\<And>x. x \<in> set xs \<Longrightarrow> f x = Inr (g x)) \<Longrightarrow> rmap f xs = Inr (map g xs)"
  by (induction xs) auto

lemma rmap_length: "rmap f xs = Inr ys \<Longrightarrow> length ys = length xs"
  by (induction xs arbitrary: ys) (auto simp: rbind_eq_Inr)

fun rfold :: "('s \<Rightarrow> 'a \<Rightarrow> 'e + 's) \<Rightarrow> 's \<Rightarrow> 'a list \<Rightarrow> 'e + 's" where
  "rfold f s [] = Inr s"
| "rfold f s (x # xs) = rbind (f s x) (\<lambda>s'. rfold f s' xs)"

text \<open>An invariant every successful step keeps is kept by the whole loop.\<close>

lemma rfold_invariant:
  assumes "rfold f s xs = Inr t" and "P s"
    and "\<And>u x v. x \<in> set xs \<Longrightarrow> P u \<Longrightarrow> f u x = Inr v \<Longrightarrow> P v"
  shows "P t"
  using assms
proof (induction xs arbitrary: s)
  case (Cons x xs)
  from Cons.prems(1) obtain u where u: "f s x = Inr u" "rfold f u xs = Inr t"
    by (auto simp: rbind_eq_Inr)
  from Cons.prems(2) u(1) have "P u"
    by (rule Cons.prems(3) [rotated]) simp
  with u(2) Cons.prems(3) show ?case by (intro Cons.IH) auto
qed simp

definition res_of :: "'e \<Rightarrow> 'a option \<Rightarrow> 'e + 'a" where
  "res_of e r = (case r of None \<Rightarrow> Inl e | Some x \<Rightarrow> Inr x)"

lemma res_of_simps [simp, res_simps]: "res_of e None = Inl e" "res_of e (Some x) = Inr x"
  by (simp_all add: res_of_def)

lemma res_of_eq_Inr [simp]: "res_of e r = Inr x \<longleftrightarrow> r = Some x"
  by (cases r) auto

text \<open>Python's \<open>xs[i]\<close> for an index that is not negative.\<close>

definition nth_res :: "'a list \<Rightarrow> nat \<Rightarrow> 'a res" where
  "nth_res xs i = (if i < length xs then Inr (xs ! i) else Inl IndexError)"

lemma nth_res_Inr: "nth_res xs i = Inr x \<longleftrightarrow> i < length xs \<and> x = xs ! i"
  by (auto simp: nth_res_def)

section \<open>Dictionaries\<close>

type_synonym ('k, 'v) dict = "('k \<times> 'v) list"

abbreviation dget :: "('k, 'v) dict \<Rightarrow> 'k \<Rightarrow> 'v option" where
  "dget d k \<equiv> map_of d k"

abbreviation dset :: "'k \<Rightarrow> 'v \<Rightarrow> ('k, 'v) dict \<Rightarrow> ('k, 'v) dict" where
  "dset k v d \<equiv> AList.update k v d"

abbreviation ddel :: "'k \<Rightarrow> ('k, 'v) dict \<Rightarrow> ('k, 'v) dict" where
  "ddel k d \<equiv> AList.delete k d"

abbreviation dkeys :: "('k, 'v) dict \<Rightarrow> 'k list" where
  "dkeys d \<equiv> map fst d"

abbreviation dvals :: "('k, 'v) dict \<Rightarrow> 'v list" where
  "dvals d \<equiv> map snd d"

definition din :: "'k \<Rightarrow> ('k, 'v) dict \<Rightarrow> bool" where
  "din k d \<longleftrightarrow> map_of d k \<noteq> None"

definition dget_or :: "('k, 'v) dict \<Rightarrow> 'k \<Rightarrow> 'v \<Rightarrow> 'v" where
  "dget_or d k v = (case dget d k of None \<Rightarrow> v | Some x \<Rightarrow> x)"

definition dset_all :: "('k \<times> 'v) list \<Rightarrow> ('k, 'v) dict \<Rightarrow> ('k, 'v) dict" where
  "dset_all kvs d = fold (\<lambda>(k, v). AList.update k v) kvs d"

definition dict_of :: "('k \<times> 'v) list \<Rightarrow> ('k, 'v) dict" where
  "dict_of kvs = dset_all kvs []"

abbreviation dwf :: "('k, 'v) dict \<Rightarrow> bool" where
  "dwf d \<equiv> distinct (map fst d)"

lemma dget_dset [simp, dict_simps]: "dget (dset k v d) = (dget d)(k \<mapsto> v)"
  by (rule update_conv')

lemma dget_ddel [simp, dict_simps]: "dget (ddel k d) = (dget d)(k := None)"
  by (rule delete_conv')

lemma dwf_dset [simp, intro]: "dwf d \<Longrightarrow> dwf (dset k v d)"
  by (simp add: distinct_update)

lemma dwf_ddel [simp, intro]: "dwf d \<Longrightarrow> dwf (ddel k d)"
  by (simp add: distinct_delete)

lemma din_iff: "din k d \<longleftrightarrow> k \<in> fst ` set d"
  by (simp add: din_def map_of_eq_None_iff)

lemma din_dset [simp, dict_simps]: "din k' (dset k v d) \<longleftrightarrow> k' = k \<or> din k' d"
  by (auto simp: din_def)

lemma din_ddel [simp, dict_simps]: "din k' (ddel k d) \<longleftrightarrow> k' \<noteq> k \<and> din k' d"
  by (auto simp: din_def)

lemma dkeys_dset: "dkeys (dset k v d) = (if din k d then dkeys d else dkeys d @ [k])"
  by (induction d) (auto simp: din_iff)

lemma dset_absent: "\<not> din k d \<Longrightarrow> dset k v d = d @ [(k, v)]"
  by (induction d) (auto simp: din_iff)

lemma set_dset_subset: "set (dset k v d) \<subseteq> insert (k, v) (set d)"
  by (induction d) auto

lemma set_ddel_subset: "set (ddel k d) \<subseteq> set d"
  by (induction d) (auto simp: AList.delete_eq)

lemma ddel_absent: "\<not> din k d \<Longrightarrow> ddel k d = d"
  by (induction d) (auto simp: din_iff AList.delete_eq)

lemma length_ddel:
  "dwf d \<Longrightarrow> din k d \<Longrightarrow> Suc (length (ddel k d)) = length d"
proof (induction d)
  case (Cons p d)
  show ?case
  proof (cases "fst p = k")
    case True
    with Cons.prems have "\<not> din k d" by (simp add: din_iff)
    with True show ?thesis by (simp add: ddel_absent delete_simps prod.split_sel)
  next
    case False
    with Cons show ?thesis by (auto simp: din_iff)
  qed
qed (simp add: din_def)

lemma dset_all_Nil [simp]: "dset_all [] d = d"
  and dset_all_Cons [simp]: "dset_all ((k, v) # kvs) d = dset_all kvs (dset k v d)"
  by (simp_all add: dset_all_def)

lemma dwf_dset_all [simp, intro]: "dwf d \<Longrightarrow> dwf (dset_all kvs d)"
  by (induction kvs arbitrary: d) (auto simp: split_paired_all)

lemma dget_dset_all: "dget (dset_all kvs d) k = (case map_of (rev kvs) k of None \<Rightarrow> dget d k | Some v \<Rightarrow> Some v)"
  by (induction kvs arbitrary: d) (auto simp: map_add_def split: option.splits)

lemma dwf_dict_of [simp, intro]: "dwf (dict_of kvs)"
  by (simp add: dict_of_def dwf_dset_all)

lemma dset_all_distinct:
  "distinct (map fst kvs) \<Longrightarrow> fst ` set kvs \<inter> fst ` set d = {} \<Longrightarrow> dset_all kvs d = d @ kvs"
  by (induction kvs arbitrary: d) (auto simp: dset_absent din_iff)

lemma dict_of_distinct: "distinct (map fst kvs) \<Longrightarrow> dict_of kvs = kvs"
  by (simp add: dict_of_def dset_all_distinct)

section \<open>The mapping interface\<close>

text \<open>
  What a client relies on when it keeps a table: a lookup after an insert, a delete, and the
  well-formedness they keep. The tables of the components are interpreted below on the
  dictionaries of the model.
\<close>

locale table =
  fixes lookup :: "'t \<Rightarrow> 'k \<Rightarrow> 'v option"
    and store :: "'k \<Rightarrow> 'v \<Rightarrow> 't \<Rightarrow> 't"
    and discard :: "'k \<Rightarrow> 't \<Rightarrow> 't"
    and wf_table :: "'t \<Rightarrow> bool"
  assumes lookup_store: "wf_table t \<Longrightarrow> lookup (store k v t) = (lookup t)(k \<mapsto> v)"
    and lookup_discard: "wf_table t \<Longrightarrow> lookup (discard k t) = (lookup t)(k := None)"
    and wf_store: "wf_table t \<Longrightarrow> wf_table (store k v t)"
    and wf_discard: "wf_table t \<Longrightarrow> wf_table (discard k t)"
begin

lemma store_other: "wf_table t \<Longrightarrow> k \<noteq> k' \<Longrightarrow> lookup (store k v t) k' = lookup t k'"
  by (simp add: lookup_store)

lemma store_then_discard: "wf_table t \<Longrightarrow> lookup (discard k (store k v t)) = (lookup t)(k := None)"
  by (simp add: lookup_store lookup_discard wf_store)

lemma wf_store_all: "wf_table t \<Longrightarrow> wf_table (fold (\<lambda>(k, v). store k v) kvs t)"
  by (induction kvs arbitrary: t) (auto simp: wf_store)

lemma lookup_store_all:
  "wf_table t \<Longrightarrow> lookup (fold (\<lambda>(k, v). store k v) kvs t) k =
    (case map_of (rev kvs) k of None \<Rightarrow> lookup t k | Some v \<Rightarrow> Some v)"
  by (induction kvs arbitrary: t)
    (auto simp: lookup_store wf_store map_add_def split: option.splits)

lemma dom_store_all:
  "wf_table t \<Longrightarrow> dom (lookup (fold (\<lambda>(k, v). store k v) kvs t)) = dom (lookup t) \<union> fst ` set kvs"
proof (induction kvs arbitrary: t)
  case (Cons p kvs)
  obtain k v where "p = (k, v)" by (cases p)
  with Cons show ?case by (simp add: lookup_store wf_store) auto
qed simp

lemma discard_all:
  "wf_table t \<Longrightarrow>
    wf_table (fold discard ks t) \<and> lookup (fold discard ks t) k = (if k \<in> set ks then None else lookup t k)"
  by (induction ks arbitrary: t) (auto simp: lookup_discard wf_discard)

end

interpretation py_dict: table map_of AList.update AList.delete "\<lambda>d. distinct (map fst d)"
  by unfold_locales (auto simp: distinct_update distinct_delete)

section \<open>Bounded deques\<close>

text \<open>\<open>deque(maxlen=n)\<close>: \<open>append\<close> and \<open>extend\<close> keep the newest \<open>n\<close> elements.\<close>

definition lastn :: "nat \<Rightarrow> 'a list \<Rightarrow> 'a list" where
  "lastn n xs = drop (length xs - n) xs"

definition deque_append :: "nat \<Rightarrow> 'a list \<Rightarrow> 'a \<Rightarrow> 'a list" where
  "deque_append n q x = lastn n (q @ [x])"

definition deque_extend :: "nat \<Rightarrow> 'a list \<Rightarrow> 'a list \<Rightarrow> 'a list" where
  "deque_extend n q xs = foldl (deque_append n) q xs"

lemma length_lastn [simp]: "length (lastn n xs) = min n (length xs)"
  by (simp add: lastn_def)

lemma lastn_id [simp]: "length xs \<le> n \<Longrightarrow> lastn n xs = xs"
  by (simp add: lastn_def)

lemma lastn_rev: "lastn n xs = rev (take n (rev xs))"
  by (simp add: lastn_def rev_take)

lemma lastn_lastn [simp]: "lastn n (lastn m xs) = lastn (min n m) xs"
  by (simp add: lastn_rev min.commute)

lemma lastn_append: "lastn n (xs @ ys) = lastn (n - length ys) xs @ lastn n ys"
  by (simp add: lastn_rev)

lemma lastn_append_lastn: "lastn n (lastn n xs @ ys) = lastn n (xs @ ys)"
  by (simp add: lastn_append)

lemma set_lastn: "set (lastn n xs) \<subseteq> set xs"
  by (simp add: lastn_def set_drop_subset)

locale bounded_queue =
  fixes cap :: nat
    and push :: "'q \<Rightarrow> 'a \<Rightarrow> 'q"
    and items :: "'q \<Rightarrow> 'a list"
  assumes items_push: "items (push q x) = lastn cap (items q @ [x])"
begin

lemma push_bounded: "length (items (push q x)) \<le> cap"
  by (simp add: items_push)

lemma items_push_all:
  "length (items q) \<le> cap \<Longrightarrow> items (foldl push q xs) = lastn cap (items q @ xs)"
proof (induction xs arbitrary: q)
  case (Cons x xs)
  then have "items (foldl push (push q x) xs) = lastn cap (lastn cap (items q @ [x]) @ xs)"
    by (simp add: items_push push_bounded)
  also have "\<dots> = lastn cap ((items q @ [x]) @ xs)"
    by (rule lastn_append_lastn)
  finally show ?case by simp
qed simp

lemma push_all_bounded: "length (items q) \<le> cap \<Longrightarrow> length (items (foldl push q xs)) \<le> cap"
  by (simp add: items_push_all)

lemma push_newest: "0 < cap \<Longrightarrow> items (push q x) \<noteq> [] \<and> last (items (push q x)) = x"
  by (simp add: items_push lastn_append)

lemma push_all_newest:
  "length (items q) \<le> cap \<Longrightarrow> length xs \<le> cap \<Longrightarrow>
    items (foldl push q xs) = lastn (cap - length xs) (items q) @ xs"
  by (simp add: items_push_all lastn_append)

end

interpretation deque: bounded_queue n "deque_append n" "\<lambda>q. q" for n
  by unfold_locales (simp add: deque_append_def)

section \<open>Lists\<close>

text \<open>\<open>list.remove(x)\<close>: the first occurrence, \<open>ValueError\<close> when there is none.\<close>

definition list_remove :: "'a \<Rightarrow> 'a list \<Rightarrow> 'a list res" where
  "list_remove x xs = (if x \<in> set xs then Inr (remove1 x xs) else Inl ValueError)"

lemma list_remove_Inr: "list_remove x xs = Inr ys \<longleftrightarrow> x \<in> set xs \<and> ys = remove1 x xs"
  by (auto simp: list_remove_def)

section \<open>Components that hand something out\<close>

text \<open>A component takes operations one after the other; each gives what it hands out and the new state.\<close>

fun run_ops :: "('op \<Rightarrow> 's \<Rightarrow> 'out list \<times> 's) \<Rightarrow> 'op list \<Rightarrow> 's \<Rightarrow> 'out list \<times> 's" where
  "run_ops step [] s = ([], s)"
| "run_ops step (e # es) s = (let (out, s1) = step e s; (outs, s2) = run_ops step es s1 in (out @ outs, s2))"

text \<open>The contract of such a component towards who uses what it hands out: allowed operations keep its invariant, and all that is
  handed out is good.\<close>

locale supplier =
  fixes step :: "'op \<Rightarrow> 's \<Rightarrow> 'out list \<times> 's" and ok :: "'op \<Rightarrow> bool" and inv :: "'s \<Rightarrow> bool" and good :: "'out \<Rightarrow> bool"
  assumes step_keeps: "ok e \<Longrightarrow> inv s \<Longrightarrow> step e s = (out, s') \<Longrightarrow> inv s' \<and> (\<forall>x \<in> set out. good x)"
begin

lemma run_keeps:
  assumes "\<forall>e \<in> set es. ok e" "inv s" "run_ops step es s = (out, s')"
  shows "inv s'" "\<forall>x \<in> set out. good x"
proof -
  have "inv s' \<and> (\<forall>x \<in> set out. good x)"
    using assms
  proof (induction es arbitrary: s out)
    case (Cons e es)
    obtain o1 s1 o2 where s: "step e s = (o1, s1)" "run_ops step es s1 = (o2, s')" "out = o1 @ o2"
      using Cons.prems(3) by (auto simp: Let_def split: prod.splits)
    have "inv s1 \<and> (\<forall>x \<in> set o1. good x)" using step_keeps[OF _ Cons.prems(2) s(1)] Cons.prems(1) by simp
    then show ?case using Cons.IH[OF _ _ s(2)] Cons.prems(1) s(3) by auto
  qed simp
  then show "inv s'" "\<forall>x \<in> set out. good x" by simp_all
qed

lemma run_from_good:
  assumes "\<forall>e \<in> set es. ok e" "inv s"
  shows "inv (snd (run_ops step es s))" "\<forall>x \<in> set (fst (run_ops step es s)). good x"
  using run_keeps[OF assms, of "fst (run_ops step es s)" "snd (run_ops step es s)"] by simp_all

end

end
