(* ===== verification/PyStrings.thy ===== *)
theory PyStrings
  imports PyPrelude
begin

text \<open>
  Python's string operations on \<open>string\<close> (a list of characters): stripping and splitting on
  white space or on a separator, searching, case, joining, and the parsing and printing of
  integers. A character is a code point below 256; case is changed for ASCII letters only, and a
  digit is one of \<open>0\<close> to \<open>9\<close>, as the inputs of the modelled code (configuration names, g-code,
  protocol text) use them.
\<close>

section \<open>Characters\<close>

abbreviation ccode :: "char \<Rightarrow> nat" where
  "ccode c \<equiv> of_char c"

abbreviation cchar :: "nat \<Rightarrow> char" where
  "cchar n \<equiv> char_of n"

abbreviation newline_char :: char where
  "newline_char \<equiv> CHR 0x0A"

definition is_space :: "char \<Rightarrow> bool" where
  "is_space c \<longleftrightarrow> ccode c = 32 \<or> (9 \<le> ccode c \<and> ccode c \<le> 13) \<or>
     (28 \<le> ccode c \<and> ccode c \<le> 31) \<or> ccode c = 133 \<or> ccode c = 160"

definition is_digit :: "char \<Rightarrow> bool" where
  "is_digit c \<longleftrightarrow> 48 \<le> ccode c \<and> ccode c \<le> 57"

definition is_upper :: "char \<Rightarrow> bool" where
  "is_upper c \<longleftrightarrow> 65 \<le> ccode c \<and> ccode c \<le> 90"

definition is_lower :: "char \<Rightarrow> bool" where
  "is_lower c \<longleftrightarrow> 97 \<le> ccode c \<and> ccode c \<le> 122"

definition upper_char :: "char \<Rightarrow> char" where
  "upper_char c = (if is_lower c then cchar (ccode c - 32) else c)"

definition lower_char :: "char \<Rightarrow> char" where
  "lower_char c = (if is_upper c then cchar (ccode c + 32) else c)"

definition upper :: "string \<Rightarrow> string" where
  "upper s = map upper_char s"

definition lower :: "string \<Rightarrow> string" where
  "lower s = map lower_char s"

lemma length_upper [simp]: "length (upper s) = length s"
  by (simp add: upper_def)

lemma upper_append [simp]: "upper (s @ t) = upper s @ upper t"
  by (simp add: upper_def)

lemma ccode_cchar: "n < 256 \<Longrightarrow> ccode (cchar n) = n"
  by (simp add: of_char_of)

lemma ccode_upper_char: "is_lower c \<Longrightarrow> ccode (upper_char c) = ccode c - 32"
proof -
  assume l: "is_lower c"
  then have "ccode c - 32 < 256" by (auto simp: is_lower_def)
  with l show ?thesis by (simp add: upper_char_def)
qed

lemma not_lower_upper_char [simp]: "\<not> is_lower (upper_char c)"
proof (cases "is_lower c")
  case True
  then have "ccode (upper_char c) = ccode c - 32" by (rule ccode_upper_char)
  with True show ?thesis by (auto simp: is_lower_def)
qed (simp add: upper_char_def)

lemma upper_idem [simp]: "upper (upper s) = upper s"
  by (simp add: upper_def upper_char_def [of "upper_char _"])

section \<open>Stripping and splitting\<close>

definition lstrip :: "string \<Rightarrow> string" where
  "lstrip s = dropWhile is_space s"

definition rstrip :: "string \<Rightarrow> string" where
  "rstrip s = rev (dropWhile is_space (rev s))"

definition strip :: "string \<Rightarrow> string" where
  "strip s = rstrip (lstrip s)"

text \<open>\<open>s.split()\<close>: the maximal runs of characters that are not white space.\<close>

fun split_ws_aux :: "string \<Rightarrow> string \<Rightarrow> string list" where
  "split_ws_aux acc [] = (if acc = [] then [] else [acc])"
| "split_ws_aux acc (c # s) =
     (if is_space c then (if acc = [] then split_ws_aux [] s else acc # split_ws_aux [] s)
      else split_ws_aux (acc @ [c]) s)"

definition split_ws :: "string \<Rightarrow> string list" where
  "split_ws s = split_ws_aux [] s"

text \<open>\<open>s.split(sep)\<close> for a separator of one character; never empty.\<close>

fun split_on_aux :: "char \<Rightarrow> string \<Rightarrow> string \<Rightarrow> string list" where
  "split_on_aux d acc [] = [acc]"
| "split_on_aux d acc (c # s) =
     (if c = d then acc # split_on_aux d [] s else split_on_aux d (acc @ [c]) s)"

definition split_on :: "char \<Rightarrow> string \<Rightarrow> string list" where
  "split_on d s = split_on_aux d [] s"

text \<open>\<open>s.split(sep, 1)\<close>: at most one split, at the first separator.\<close>

definition split_once :: "char \<Rightarrow> string \<Rightarrow> string list" where
  "split_once d s =
     (if d \<in> set s then [takeWhile (\<lambda>c. c \<noteq> d) s, tl (dropWhile (\<lambda>c. c \<noteq> d) s)] else [s])"

fun join :: "string \<Rightarrow> string list \<Rightarrow> string" where
  "join sep [] = []"
| "join sep [s] = s"
| "join sep (s # t # ss) = s @ sep @ join sep (t # ss)"

text \<open>A string between apostrophes, as the error messages show names.\<close>

definition quoted :: "string \<Rightarrow> string" where
  "quoted s = CHR 0x27 # s @ [CHR 0x27]"

definition startswith :: "string \<Rightarrow> string \<Rightarrow> bool" where
  "startswith s p \<longleftrightarrow> take (length p) s = p"

definition endswith :: "string \<Rightarrow> string \<Rightarrow> bool" where
  "endswith s p \<longleftrightarrow> length p \<le> length s \<and> drop (length s - length p) s = p"

text \<open>\<open>s.find(c)\<close> and \<open>s.rfind(c)\<close>; \<open>None\<close> stands for Python's \<open>-1\<close>.\<close>

fun find_char :: "char \<Rightarrow> string \<Rightarrow> nat option" where
  "find_char d [] = None"
| "find_char d (c # s) = (if c = d then Some 0 else map_option Suc (find_char d s))"

definition rfind_char :: "char \<Rightarrow> string \<Rightarrow> nat option" where
  "rfind_char d s = map_option (\<lambda>i. length s - 1 - i) (find_char d (rev s))"

text \<open>\<open>s.find(t)\<close> for a string.\<close>

fun find_str :: "string \<Rightarrow> string \<Rightarrow> nat option" where
  "find_str t [] = (if t = [] then Some 0 else None)"
| "find_str t (c # s) = (if startswith (c # s) t then Some 0 else map_option Suc (find_str t s))"

definition contains_str :: "string \<Rightarrow> string \<Rightarrow> bool" where
  "contains_str s t \<longleftrightarrow> find_str t s \<noteq> None"

text \<open>\<open>s.replace(p, r)\<close> for a pattern that is not empty: left to right, without overlaps.\<close>

function replace_str :: "string \<Rightarrow> string \<Rightarrow> string \<Rightarrow> string" where
  "replace_str p r [] = []"
| "replace_str p r (c # s) =
     (if p \<noteq> [] \<and> startswith (c # s) p then r @ replace_str p r (drop (length p) (c # s))
      else c # replace_str p r s)"
  by pat_completeness auto
termination
  by (relation "measure (\<lambda>(p, r, s). length s)") (auto simp: Suc_le_eq)

lemma startswith_append [simp]: "startswith (p @ s) p"
  by (simp add: startswith_def)

lemma startswith_iff: "startswith s p \<longleftrightarrow> (\<exists>t. s = p @ t)"
proof
  assume "startswith s p"
  then have "s = p @ drop (length p) s"
    using append_take_drop_id [of "length p" s] by (simp add: startswith_def)
  then show "\<exists>t. s = p @ t" ..
qed (auto simp: startswith_def)

lemma find_char_Some:
  "find_char d s = Some i \<Longrightarrow> i < length s \<and> s ! i = d \<and> d \<notin> set (take i s)"
  by (induction s arbitrary: i) (auto split: if_splits)

lemma find_char_None: "find_char d s = None \<longleftrightarrow> d \<notin> set s"
  by (induction s) auto

lemma find_char_append: "d \<notin> set s \<Longrightarrow> find_char d (s @ d # t) = Some (length s)"
  by (induction s) auto

lemma dropWhile_hd: "dropWhile P xs \<noteq> [] \<Longrightarrow> \<not> P (hd (dropWhile P xs))"
  by (induction xs) auto

lemma strip_id: "s = [] \<or> (\<not> is_space (hd s) \<and> \<not> is_space (last s)) \<Longrightarrow> strip s = s"
  by (cases s rule: rev_cases) (auto simp: strip_def lstrip_def rstrip_def hd_append split: if_splits
      intro: list.exhaust [of "butlast s"] simp: neq_Nil_conv)

lemma split_on_aux_absent: "d \<notin> set s \<Longrightarrow> split_on_aux d acc s = [acc @ s]"
  by (induction s arbitrary: acc) auto

lemma split_on_aux_sep:
  "d \<notin> set s \<Longrightarrow> split_on_aux d acc (s @ d # t) = (acc @ s) # split_on_aux d [] t"
  by (induction s arbitrary: acc) auto

lemma split_on_absent: "d \<notin> set s \<Longrightarrow> split_on d s = [s]"
  by (simp add: split_on_def split_on_aux_absent)

lemma split_on_sep: "d \<notin> set s \<Longrightarrow> split_on d (s @ d # t) = s # split_on d t"
  by (simp add: split_on_def split_on_aux_sep)

lemma split_on_nonempty [simp]: "split_on d s \<noteq> []"
proof -
  have "split_on_aux d acc s \<noteq> []" for acc
    by (induction s arbitrary: acc) auto
  then show ?thesis by (simp add: split_on_def)
qed

lemma split_on_join:
  "ss \<noteq> [] \<Longrightarrow> (\<And>s. s \<in> set ss \<Longrightarrow> d \<notin> set s) \<Longrightarrow> split_on d (join [d] ss) = ss"
  by (induction "[d]" ss rule: join.induct) (auto simp: split_on_absent split_on_sep)

lemma join_split_on_aux: "join [d] (split_on_aux d acc s) = acc @ s"
proof (induction s arbitrary: acc)
  case (Cons c s)
  have ne: "split_on_aux d [] s \<noteq> []"
    using split_on_nonempty [of d s] by (simp add: split_on_def)
  then obtain t ts where "split_on_aux d [] s = t # ts"
    by (cases "split_on_aux d [] s") auto
  with Cons.IH [of "[]"] Cons.IH [of "acc @ [c]"] show ?case by simp
qed simp

lemma join_split_on [simp]: "join [d] (split_on d s) = s"
  by (simp add: split_on_def join_split_on_aux)

lemma split_once_sep: "d \<notin> set s \<Longrightarrow> split_once d (s @ d # t) = [s, t]"
  by (auto simp: split_once_def takeWhile_append dropWhile_append)

lemma split_ws_aux_word:
  "(\<And>c. c \<in> set w \<Longrightarrow> \<not> is_space c) \<Longrightarrow> split_ws_aux acc (w @ s) = split_ws_aux (acc @ w) s"
  by (induction w arbitrary: acc) auto

lemma split_ws_words:
  "(\<And>w. w \<in> set ws \<Longrightarrow> w \<noteq> [] \<and> (\<forall>c \<in> set w. \<not> is_space c)) \<Longrightarrow> split_ws (join '' '' ws) = ws"
proof (induction "'' '' :: string" ws rule: join.induct)
  case (2 s)
  then show ?case
    using split_ws_aux_word [of s "[]" "[]"] by (simp add: split_ws_def)
next
  case (3 s t ss)
  have "split_ws_aux [] (s @ '' '' @ join '' '' (t # ss)) = s # split_ws_aux [] (join '' '' (t # ss))"
    using 3(2) [of s] split_ws_aux_word [of s "[]" "'' '' @ join '' '' (t # ss)"]
    by (simp add: is_space_def)
  moreover have "split_ws (join '' '' (t # ss)) = t # ss"
    using 3(2) by (intro 3(1)) auto
  ultimately show ?case by (simp add: split_ws_def)
qed (simp add: split_ws_def)

section \<open>Integers\<close>

definition digit_val :: "char \<Rightarrow> nat option" where
  "digit_val c = (if is_digit c then Some (ccode c - 48)
     else if is_lower c then Some (ccode c - 87)
     else if is_upper c then Some (ccode c - 55) else None)"

text \<open>The digits of \<open>int(s, base)\<close>; one underscore may stand between two digits.\<close>

fun digits_val :: "nat \<Rightarrow> nat \<Rightarrow> string \<Rightarrow> nat option" where
  "digits_val b acc [] = Some acc"
| "digits_val b acc (c # s) =
     (if c = CHR ''_'' then
        (case s of [] \<Rightarrow> None | c' # s' \<Rightarrow>
          (case digit_val c' of Some v \<Rightarrow> if v < b then digits_val b (acc * b + v) s' else None
           | None \<Rightarrow> None))
      else (case digit_val c of Some v \<Rightarrow> if v < b then digits_val b (acc * b + v) s else None
           | None \<Rightarrow> None))"

definition nat_of_digits :: "nat \<Rightarrow> string \<Rightarrow> nat option" where
  "nat_of_digits b s =
     (case s of [] \<Rightarrow> None | c # s' \<Rightarrow>
       (case digit_val c of Some v \<Rightarrow> if v < b then digits_val b v s' else None | None \<Rightarrow> None))"

definition skip_prefix :: "string \<Rightarrow> string \<Rightarrow> string \<Rightarrow> string" where
  "skip_prefix p q s = (if startswith s p \<or> startswith s q then
     (let r = drop 2 s in if r \<noteq> [] \<and> hd r = CHR ''_'' then tl r else r) else s)"

text \<open>
  \<open>int(s, base)\<close> for the bases the sources use: 10, 16 (an \<open>0x\<close> prefix is allowed) and 0, which
  reads the base from the prefix and refuses a leading zero in a decimal number that is not zero.
\<close>

definition parse_nat :: "nat \<Rightarrow> string \<Rightarrow> nat option" where
  "parse_nat b s =
     (if b = 16 then nat_of_digits 16 (skip_prefix ''0x'' ''0X'' s)
      else if b = 0 then
        (if startswith s ''0x'' \<or> startswith s ''0X'' then nat_of_digits 16 (skip_prefix ''0x'' ''0X'' s)
         else if startswith s ''0o'' \<or> startswith s ''0O'' then nat_of_digits 8 (skip_prefix ''0o'' ''0O'' s)
         else if startswith s ''0b'' \<or> startswith s ''0B'' then nat_of_digits 2 (skip_prefix ''0b'' ''0B'' s)
         else if startswith s ''0'' then (case nat_of_digits 10 s of Some 0 \<Rightarrow> Some 0 | _ \<Rightarrow> None)
         else nat_of_digits 10 s)
      else nat_of_digits b s)"

definition parse_int :: "nat \<Rightarrow> string \<Rightarrow> int option" where
  "parse_int b s =
     (case strip s of
        [] \<Rightarrow> None
      | c # t \<Rightarrow>
          if c = CHR ''-'' then map_option (\<lambda>n. - int n) (parse_nat b t)
          else if c = CHR ''+'' then map_option int (parse_nat b t)
          else map_option int (parse_nat b (c # t)))"

definition digit_char :: "nat \<Rightarrow> char" where
  "digit_char d = (if d < 10 then cchar (48 + d) else cchar (55 + d))"

fun digits_of :: "nat \<Rightarrow> nat \<Rightarrow> string" where
  "digits_of b n = (if n < b \<or> b < 2 then [digit_char n] else digits_of b (n div b) @ [digit_char (n mod b)])"

declare digits_of.simps [simp del]

definition str_nat :: "nat \<Rightarrow> string" where
  "str_nat n = digits_of 10 n"

definition str_int :: "int \<Rightarrow> string" where
  "str_int i = (if i < 0 then CHR ''-'' # str_nat (nat (- i)) else str_nat (nat i))"

text \<open>\<open>f"{n:06X}"\<close> and its kin: upper-case hexadecimal, padded with zeros on the left.\<close>

definition hex_pad :: "nat \<Rightarrow> nat \<Rightarrow> string" where
  "hex_pad w n = (let s = digits_of 16 n in replicate (w - length s) (CHR ''0'') @ s)"

lemma ccode_digit_char: "d < 10 \<Longrightarrow> ccode (digit_char d) = 48 + d"
  "10 \<le> d \<Longrightarrow> d < 36 \<Longrightarrow> ccode (digit_char d) = 55 + d"
  by (simp_all add: digit_char_def ccode_cchar)

lemma digit_val_digit_char [simp]: "d < 36 \<Longrightarrow> digit_val (digit_char d) = Some d"
  by (cases "d < 10")
    (auto simp: digit_val_def is_digit_def is_lower_def is_upper_def ccode_digit_char)

lemma digit_char_not_underscore: "d < 36 \<Longrightarrow> digit_char d \<noteq> CHR ''_''"
proof
  assume "d < 36" "digit_char d = CHR ''_''"
  then have "ccode (digit_char d) = 95" by simp
  with \<open>d < 36\<close> show False by (cases "d < 10") (auto simp: ccode_digit_char)
qed

lemma digits_of_nonempty [simp]: "digits_of b n \<noteq> []"
  by (subst digits_of.simps) simp

lemma digits_of_digit:
  "2 \<le> b \<Longrightarrow> b \<le> 36 \<Longrightarrow> c \<in> set (digits_of b n) \<Longrightarrow> \<exists>d < b. c = digit_char d"
proof (induction b n rule: digits_of.induct)
  case (1 b n)
  show ?case
  proof (cases "n < b")
    case True
    with "1.prems" show ?thesis by (subst (asm) digits_of.simps) auto
  next
    case False
    with "1.prems" have "c \<in> set (digits_of b (n div b)) \<or> c = digit_char (n mod b)"
      by (subst (asm) digits_of.simps) auto
    then show ?thesis
    proof
      assume "c \<in> set (digits_of b (n div b))"
      with "1.IH" "1.prems" False show ?thesis by simp
    next
      assume "c = digit_char (n mod b)"
      with "1.prems" show ?thesis by (intro exI [of _ "n mod b"]) simp
    qed
  qed
qed

lemma digits_val_append:
  assumes "2 \<le> b" "b \<le> 36" "\<And>c. c \<in> set s \<Longrightarrow> \<exists>d < b. c = digit_char d"
  shows "digits_val b acc (s @ t) = Option.bind (digits_val b acc s) (\<lambda>a. digits_val b a t)"
  using assms(3)
proof (induction s arbitrary: acc)
  case (Cons c s)
  then obtain d where d: "d < b" "c = digit_char d" by auto
  with assms(2) have "c \<noteq> CHR ''_''" "digit_val c = Some d"
    by (simp_all add: digit_char_not_underscore)
  with Cons d show ?case by simp
qed simp

lemma digits_val_digits_of:
  "2 \<le> b \<Longrightarrow> b \<le> 36 \<Longrightarrow> digits_val b 0 (digits_of b n) = Some n"
proof (induction b n rule: digits_of.induct)
  case (1 b n)
  show ?case
  proof (cases "n < b")
    case True
    with "1.prems" show ?thesis
      by (subst digits_of.simps) (simp add: digit_char_not_underscore)
  next
    case False
    have IH: "digits_val b 0 (digits_of b (n div b)) = Some (n div b)"
      using "1.IH" "1.prems" False by simp
    have "n mod b < 36" using "1.prems" mod_less_divisor [of b n] by linarith
    then have one: "digits_val b (n div b) [digit_char (n mod b)] = Some n"
      using "1.prems" by (simp add: digit_char_not_underscore)
    have "digits_val b 0 (digits_of b (n div b) @ [digit_char (n mod b)]) =
        Option.bind (Some (n div b)) (\<lambda>a. digits_val b a [digit_char (n mod b)])"
      using digits_val_append [OF "1.prems" digits_of_digit [OF "1.prems"]] IH by simp
    with one False "1.prems" show ?thesis by (subst digits_of.simps) simp
  qed
qed

lemma nat_of_digits_digits_of:
  assumes "2 \<le> b" "b \<le> 36"
  shows "nat_of_digits b (digits_of b n) = Some n"
proof -
  obtain c s where cs: "digits_of b n = c # s" by (cases "digits_of b n") auto
  then obtain d where d: "d < b" "c = digit_char d"
    using digits_of_digit [OF assms, of c n] by auto
  with assms have "c \<noteq> CHR ''_''" "digit_val c = Some d"
    by (simp_all add: digit_char_not_underscore)
  with digits_val_digits_of [OF assms, of n] d show ?thesis
    by (simp add: nat_of_digits_def cs)
qed

lemma digit_char_not_space: "d < 36 \<Longrightarrow> \<not> is_space (digit_char d)"
  by (cases "d < 10") (auto simp: is_space_def ccode_digit_char)

lemma str_nat_no_space: "c \<in> set (str_nat n) \<Longrightarrow> \<not> is_space c"
  using digits_of_digit [of 10 c n] by (auto simp: str_nat_def digit_char_not_space)

lemma str_nat_digit: "c \<in> set (str_nat n) \<Longrightarrow> is_digit c"
  using digits_of_digit [of 10 c n] by (auto simp: str_nat_def is_digit_def ccode_digit_char)

lemma str_nat_nonempty [simp]: "str_nat n \<noteq> []"
  by (simp add: str_nat_def)

text \<open>Printing an integer and parsing it back gives the integer.\<close>

lemma parse_int_str_int: "parse_int 10 (str_int i) = Some i"
proof -
  have nospace: "\<And>c. c \<in> set (str_int i) \<Longrightarrow> \<not> is_space c"
    using str_nat_no_space by (auto simp: str_int_def is_space_def [of "CHR ''-''"] split: if_splits)
  then have "strip (str_int i) = str_int i"
    by (intro strip_id) (auto simp: str_int_def)
  then show ?thesis
  proof (cases "i < 0")
    case True
    with \<open>strip (str_int i) = str_int i\<close> show ?thesis
      using nat_of_digits_digits_of [of 10 "nat (- i)"]
      by (simp add: parse_int_def parse_nat_def str_int_def str_nat_def)
  next
    case False
    obtain c t where ct: "str_nat (nat i) = c # t" by (cases "str_nat (nat i)") auto
    then have "is_digit c" by (intro str_nat_digit [of _ "nat i"]) simp
    then have "c \<noteq> CHR ''-''" "c \<noteq> CHR ''+''" by (auto simp: is_digit_def)
    moreover have "parse_nat 10 (c # t) = Some (nat i)"
      using nat_of_digits_digits_of [of 10 "nat i"] by (simp add: parse_nat_def flip: ct str_nat_def)
    ultimately show ?thesis
      using \<open>strip (str_int i) = str_int i\<close> False ct by (simp add: parse_int_def str_int_def)
  qed
qed

section \<open>Order and sorting\<close>

text \<open>Strings compare by their code points; \<open>sorted\<close> is stable, with the order as a parameter.\<close>

fun str_le :: "string \<Rightarrow> string \<Rightarrow> bool" where
  "str_le [] t = True"
| "str_le (c # s) [] = False"
| "str_le (c # s) (d # t) = (if c = d then str_le s t else ccode c < ccode d)"

fun insert_by :: "('a \<Rightarrow> 'a \<Rightarrow> bool) \<Rightarrow> 'a \<Rightarrow> 'a list \<Rightarrow> 'a list" where
  "insert_by le x [] = [x]"
| "insert_by le x (y # ys) = (if le x y then x # y # ys else y # insert_by le x ys)"

definition sort_by :: "('a \<Rightarrow> 'a \<Rightarrow> bool) \<Rightarrow> 'a list \<Rightarrow> 'a list" where
  "sort_by le xs = foldr (insert_by le) xs []"

lemma set_insert_by [simp]: "set (insert_by le x ys) = insert x (set ys)"
  by (induction ys) auto

lemma set_sort_by [simp]: "set (sort_by le xs) = set xs"
  by (induction xs) (simp_all add: sort_by_def)

lemma length_insert_by [simp]: "length (insert_by le x ys) = Suc (length ys)"
  by (induction ys) simp_all

lemma length_sort_by [simp]: "length (sort_by le xs) = length xs"
  by (induction xs) (simp_all add: sort_by_def)

lemma str_le_total: "str_le s t \<or> str_le t s"
proof (induction s t rule: str_le.induct)
  case (3 c s d t)
  have "c \<noteq> d \<Longrightarrow> ccode c < ccode d \<or> ccode d < ccode c" by (simp add: linorder_neq_iff [symmetric])
  with 3 show ?case by auto
qed auto

lemma str_le_refl [simp]: "str_le s s"
  using str_le_total by blast

lemma str_le_trans: "str_le s t \<Longrightarrow> str_le t u \<Longrightarrow> str_le s u"
proof (induction s t arbitrary: u rule: str_le.induct)
  case (3 c s d t)
  then show ?case by (cases u) (auto split: if_splits)
qed (auto elim: str_le.elims)

text \<open>Sorting by a total order sorts and keeps the elements, each as often as before.\<close>

lemma distinct_map_insert_by: "distinct (map f (insert_by le x ys)) \<longleftrightarrow> f x \<notin> f ` set ys \<and> distinct (map f ys)"
  by (induction ys) auto

lemma distinct_map_sort_by [simp]: "distinct (map f (sort_by le xs)) \<longleftrightarrow> distinct (map f xs)"
proof (induction xs)
  case (Cons x xs)
  have "sort_by le (x # xs) = insert_by le x (sort_by le xs)" by (simp add: sort_by_def)
  with Cons show ?case by (simp add: distinct_map_insert_by)
qed (simp add: sort_by_def)

lemma distinct_sort_by [simp]: "distinct (sort_by le xs) \<longleftrightarrow> distinct xs"
  using distinct_map_sort_by [of "\<lambda>x. x" le xs] by simp

lemma sorted_sort_by:
  assumes "\<And>x y. le x y \<or> le y x" "\<And>x y z. le x y \<Longrightarrow> le y z \<Longrightarrow> le x z"
  shows "sorted_wrt le (sort_by le xs)"
proof -
  have "sorted_wrt le ys \<Longrightarrow> sorted_wrt le (insert_by le x ys)" for x ys
    using assms by (induction ys) auto
  then show ?thesis by (induction xs) (simp_all add: sort_by_def)
qed

end
