(* ===== verification/PyRegex.thy ===== *)
theory PyRegex
  imports PyStrings
begin

text \<open>
  The part of Python's \<open>re\<close> the sources use: character classes, sequence, ordered choice, greedy
  and lazy repetition, optional parts, named groups and the end anchor. A match is the list of all
  ways to match a prefix, in the order the backtracking matcher tries them; the first is the match
  \<open>re\<close> reports. A repetition stops when an iteration consumes nothing, as \<open>re\<close> does.
\<close>

section \<open>Patterns and their matches\<close>

datatype regex =
    Eps
  | Cls "char \<Rightarrow> bool"
  | Seq regex regex
  | Alt regex regex
  | Opt regex
  | Star regex
  | LazyStar regex
  | Grp string regex
  | EndAnchor

type_synonym caps = "(string, string) dict"

fun star_greedy :: "(string \<Rightarrow> caps \<Rightarrow> (string \<times> caps) list) \<Rightarrow> nat \<Rightarrow> string \<Rightarrow> caps \<Rightarrow> (string \<times> caps) list" where
  "star_greedy f 0 s c = [(s, c)]"
| "star_greedy f (Suc n) s c =
     concat (map (\<lambda>(t, d). if length t < length s then star_greedy f n t d else []) (f s c)) @ [(s, c)]"

fun star_lazy :: "(string \<Rightarrow> caps \<Rightarrow> (string \<times> caps) list) \<Rightarrow> nat \<Rightarrow> string \<Rightarrow> caps \<Rightarrow> (string \<times> caps) list" where
  "star_lazy f 0 s c = [(s, c)]"
| "star_lazy f (Suc n) s c =
     (s, c) # concat (map (\<lambda>(t, d). if length t < length s then star_lazy f n t d else []) (f s c))"

primrec rx :: "regex \<Rightarrow> string \<Rightarrow> caps \<Rightarrow> (string \<times> caps) list" where
  "rx Eps s c = [(s, c)]"
| "rx (Cls p) s c = (case s of [] \<Rightarrow> [] | x # t \<Rightarrow> if p x then [(t, c)] else [])"
| "rx (Seq a b) s c = concat (map (\<lambda>(t, d). rx b t d) (rx a s c))"
| "rx (Alt a b) s c = rx a s c @ rx b s c"
| "rx (Opt a) s c = rx a s c @ [(s, c)]"
| "rx (Star a) s c = star_greedy (rx a) (length s) s c"
| "rx (LazyStar a) s c = star_lazy (rx a) (length s) s c"
| "rx (Grp n a) s c = map (\<lambda>(t, d). (t, dset n (take (length s - length t) s) d)) (rx a s c)"
| "rx EndAnchor s c = (if s = [] \<or> s = [newline_char] then [(s, c)] else [])"

text \<open>\<open>re.match\<close>: the rest of the string after the match and the groups.\<close>

definition rx_match :: "regex \<Rightarrow> string \<Rightarrow> (string \<times> caps) option" where
  "rx_match r s = (case rx r s [] of [] \<Rightarrow> None | m # _ \<Rightarrow> Some m)"

definition rx_groups :: "regex \<Rightarrow> string \<Rightarrow> caps option" where
  "rx_groups r s = map_option snd (rx_match r s)"

section \<open>Building patterns\<close>

definition Lit :: "string \<Rightarrow> regex" where
  "Lit s = foldr (\<lambda>c r. Seq (Cls (\<lambda>x. x = c)) r) s Eps"

text \<open>A literal under \<open>re.IGNORECASE\<close>.\<close>

definition LitI :: "string \<Rightarrow> regex" where
  "LitI s = foldr (\<lambda>c r. Seq (Cls (\<lambda>x. lower_char x = lower_char c)) r) s Eps"

definition AltL :: "regex list \<Rightarrow> regex" where
  "AltL rs = foldr Alt (butlast rs) (last rs)"

definition SeqL :: "regex list \<Rightarrow> regex" where
  "SeqL rs = foldr Seq rs Eps"

definition Plus :: "regex \<Rightarrow> regex" where
  "Plus r = Seq r (Star r)"

definition one_of :: "string \<Rightarrow> regex" where
  "one_of cs = Cls (\<lambda>x. x \<in> set cs)"

definition Digit :: regex where
  "Digit = Cls is_digit"

definition Spaces :: regex where
  "Spaces = Star (Cls is_space)"

section \<open>Splitting and substitution\<close>

text \<open>
  \<open>pattern.split(s)\<close> where the whole pattern is one capturing group and never matches the empty
  string: text, match, text, match, \<dots>, text.
\<close>

function rx_split_aux :: "regex \<Rightarrow> string \<Rightarrow> string \<Rightarrow> string list" where
  "rx_split_aux r acc [] = [acc]"
| "rx_split_aux r acc (x # s) =
     (case rx_match r (x # s) of
        Some (t, _) \<Rightarrow>
          if length t < length (x # s)
          then acc # take (length (x # s) - length t) (x # s) # rx_split_aux r [] t
          else rx_split_aux r (acc @ [x]) s
      | None \<Rightarrow> rx_split_aux r (acc @ [x]) s)"
  by pat_completeness auto
termination
  by (relation "measure (\<lambda>(r, acc, s). length s)") auto

definition rx_split :: "regex \<Rightarrow> string \<Rightarrow> string list" where
  "rx_split r s = rx_split_aux r [] s"

text \<open>
  \<open>pattern.sub(f, s)\<close> for a replacement function that may raise and that threads a state, as a
  closure over an object does.
\<close>

function rx_sub :: "regex \<Rightarrow> ('s \<Rightarrow> caps \<Rightarrow> 'e + ('s \<times> string)) \<Rightarrow> 's \<Rightarrow> string \<Rightarrow> 'e + ('s \<times> string)" where
  "rx_sub r f st [] = Inr (st, [])"
| "rx_sub r f st (x # s) =
     (case rx_match r (x # s) of
        Some (t, c) \<Rightarrow>
          if length t < length (x # s)
          then rbind (f st c) (\<lambda>(st', out). rbind (rx_sub r f st' t) (\<lambda>(st'', rest). Inr (st'', out @ rest)))
          else rbind (rx_sub r f st s) (\<lambda>(st', rest). Inr (st', x # rest))
      | None \<Rightarrow> rbind (rx_sub r f st s) (\<lambda>(st', rest). Inr (st', x # rest)))"
  by pat_completeness auto
termination
  by (relation "measure (\<lambda>(r, f, st, s). length s)") auto

section \<open>What a match consumes\<close>

text \<open>Every way to match leaves a suffix of the string.\<close>

definition suffix_of :: "string \<Rightarrow> string \<Rightarrow> bool" where
  "suffix_of t s \<longleftrightarrow> (\<exists>u. s = u @ t)"

lemma suffix_of_refl [simp]: "suffix_of s s"
  by (auto simp: suffix_of_def)

lemma suffix_of_Cons: "suffix_of t s \<Longrightarrow> suffix_of t (x # s)"
  unfolding suffix_of_def by (metis append_Cons)

lemma suffix_of_trans: "suffix_of t s \<Longrightarrow> suffix_of u t \<Longrightarrow> suffix_of u s"
  by (auto simp: suffix_of_def)

lemma suffix_of_split: "suffix_of t s \<Longrightarrow> take (length s - length t) s @ t = s"
  by (auto simp: suffix_of_def)

lemma star_greedy_suffix:
  "(\<And>s c t d. (t, d) \<in> set (f s c) \<Longrightarrow> suffix_of t s) \<Longrightarrow>
    (t, d) \<in> set (star_greedy f n s c) \<Longrightarrow> suffix_of t s"
proof (induction n arbitrary: s c)
  case (Suc n)
  then show ?case by (fastforce split: if_splits intro: suffix_of_trans)
qed simp

lemma star_lazy_suffix:
  "(\<And>s c t d. (t, d) \<in> set (f s c) \<Longrightarrow> suffix_of t s) \<Longrightarrow>
    (t, d) \<in> set (star_lazy f n s c) \<Longrightarrow> suffix_of t s"
proof (induction n arbitrary: s c)
  case (Suc n)
  then show ?case by (fastforce split: if_splits intro: suffix_of_trans)
qed simp

lemma rx_suffix: "(t, d) \<in> set (rx r s c) \<Longrightarrow> suffix_of t s"
proof (induction r arbitrary: s c t d)
  case (Cls p)
  then show ?case by (auto split: list.splits if_splits intro: suffix_of_Cons)
next
  case (Seq a b)
  then obtain t' d' where "(t', d') \<in> set (rx a s c)" "(t, d) \<in> set (rx b t' d')" by auto
  with Seq.IH show ?case by (blast intro: suffix_of_trans)
next
  case (Star a)
  then show ?case by (auto intro: star_greedy_suffix [of "rx a"])
next
  case (LazyStar a)
  then show ?case by (auto intro: star_lazy_suffix [of "rx a"])
qed (auto split: if_splits)

lemma rx_match_suffix: "rx_match r s = Some (t, d) \<Longrightarrow> suffix_of t s"
  by (auto simp: rx_match_def split: list.splits intro: rx_suffix [of _ d r s "[]"])

text \<open>The pieces of a split, put together again, are the string: nothing is lost.\<close>

lemma concat_rx_split_aux: "concat (rx_split_aux r acc s) = acc @ s"
proof (induction r acc s rule: rx_split_aux.induct)
  case (2 r acc x s)
  show ?case
  proof (cases "rx_match r (x # s)")
    case None
    with 2 show ?thesis by simp
  next
    case (Some m)
    obtain t d where m: "m = (t, d)" by (cases m)
    with Some have "suffix_of t (x # s)" by (auto dest: rx_match_suffix)
    then have "take (length (x # s) - length t) (x # s) @ t = x # s" by (rule suffix_of_split)
    with 2 Some m show ?thesis by auto
  qed
qed simp

lemma concat_rx_split: "concat (rx_split r s) = s"
  by (simp add: rx_split_def concat_rx_split_aux)

text \<open>A split has an odd number of pieces: a text before each match and one after the last.\<close>

lemma odd_length_rx_split: "odd (length (rx_split r s))"
proof -
  have "odd (length (rx_split_aux r acc s))" for acc
  proof (induction r acc s rule: rx_split_aux.induct)
    case (2 r acc x s)
    show ?case
    proof (cases "rx_match r (x # s)")
      case None
      with 2 show ?thesis by simp
    next
      case (Some m)
      obtain t d where "m = (t, d)" by (cases m)
      with Some 2 show ?thesis by (cases "length t < length (x # s)") simp_all
    qed
  qed simp
  then show ?thesis by (simp add: rx_split_def)
qed

lemma rx_Lit [simp]: "rx (Lit p) s c = (if startswith s p then [(drop (length p) s, c)] else [])"
  by (induction p arbitrary: s)
    (auto simp: Lit_def startswith_def split: list.splits)

section \<open>The first match\<close>

lemma rx_Cls_simps: "rx (Cls p) [] c = []" "rx (Cls p) (x # xs) c = (if p x then [(xs, c)] else [])"
  by simp_all

declare rx.simps(2) [simp del] rx_Cls_simps [simp]

lemma star_Cls_first:
  "length s \<le> n \<Longrightarrow> \<exists>ms. star_greedy (rx (Cls p)) n s c = (dropWhile p s, c) # ms"
proof (induction n arbitrary: s)
  case (Suc n)
  show ?case
  proof (cases s)
    case (Cons x xs)
    with Suc.IH [of xs] Suc.prems show ?thesis by (cases "p x") auto
  qed simp
qed simp

lemma star_Cls_all:
  "(u, d) \<in> set (star_greedy (rx (Cls p)) n s c) \<Longrightarrow> d = c \<and> (\<exists>v. s = v @ u \<and> list_all p v)"
proof (induction n arbitrary: s)
  case (Suc n)
  show ?case
  proof (cases s)
    case (Cons x xs)
    from Suc.prems Cons consider "(u, d) = (s, c)" | "p x" "(u, d) \<in> set (star_greedy (rx (Cls p)) n xs c)"
      by (auto split: if_splits)
    then show ?thesis
    proof cases
      case 2
      with Suc.IH [of xs] obtain v where "d = c" "xs = v @ u" "list_all p v" by auto
      with Cons 2(1) show ?thesis by (intro conjI exI [of _ "x # v"]) simp_all
    qed simp
  qed (use Suc.prems in simp)
qed simp

lemma star_lazy_Cls:
  "list_all p s \<Longrightarrow> length s \<le> n \<Longrightarrow>
    star_lazy (rx (Cls p)) n s c = map (\<lambda>i. (drop i s, c)) [0..<Suc (length s)]"
proof (induction n arbitrary: s)
  case (Suc n)
  show ?case
  proof (cases s)
    case (Cons x xs)
    with Suc have "star_lazy (rx (Cls p)) (Suc n) s c = (s, c) # map (\<lambda>i. (drop i xs, c)) [0..<Suc (length xs)]"
      by simp
    also have "\<dots> = map (\<lambda>i. (drop i s, c)) [0..<Suc (length s)]"
    proof -
      have "[0..<Suc (Suc (length xs))] = 0 # map Suc [0..<Suc (length xs)]"
        by (simp add: upt_conv_Cons map_Suc_upt del: upt_Suc)
      then show ?thesis unfolding Cons list.size by (simp add: comp_def del: upt_Suc)
    qed
    finally show ?thesis .
  qed simp
qed simp

lemma rx_Seq_first:
  "rx a s c = (t, d) # ms \<Longrightarrow> rx b t d = (u, e) # ns \<Longrightarrow> \<exists>ks. rx (Seq a b) s c = (u, e) # ks"
  by simp

text \<open>The match the backtracking reports, piece by piece.\<close>

definition rx_first :: "regex \<Rightarrow> string \<Rightarrow> caps \<Rightarrow> (string \<times> caps) option" where
  "rx_first r s c = (case rx r s c of [] \<Rightarrow> None | m # _ \<Rightarrow> Some m)"

named_theorems first_intros

lemma rx_match_first: "rx_match r s = rx_first r s []"
  by (simp add: rx_match_def rx_first_def)

lemma rx_first_None: "rx_first r s c = None \<longleftrightarrow> rx r s c = []"
  by (simp add: rx_first_def split: list.split)

lemma first_Eps [first_intros]: "rx_first Eps s c = Some (s, c)"
  by (simp add: rx_first_def)

lemma first_Cls [first_intros]: "p x \<Longrightarrow> rx_first (Cls p) (x # s) c = Some (s, c)"
  by (simp add: rx_first_def)

lemma first_Seq [first_intros]: "rx_first a s c = Some (t, d) \<Longrightarrow> rx_first b t d = Some m \<Longrightarrow> rx_first (Seq a b) s c = Some m"
  by (auto simp: rx_first_def split: list.splits)

lemma first_Alt1: "rx_first a s c = Some m \<Longrightarrow> rx_first (Alt a b) s c = Some m"
  by (auto simp: rx_first_def split: list.splits)

lemma first_Alt2: "rx a s c = [] \<Longrightarrow> rx_first b s c = Some m \<Longrightarrow> rx_first (Alt a b) s c = Some m"
  by (auto simp: rx_first_def split: list.splits)

lemma first_Opt: "rx_first a s c = Some m \<Longrightarrow> rx_first (Opt a) s c = Some m"
  by (auto simp: rx_first_def split: list.splits)

lemma first_Opt_none: "rx a s c = [] \<Longrightarrow> rx_first (Opt a) s c = Some (s, c)"
  by (simp add: rx_first_def)

lemma first_Grp: "rx_first a (u @ t) c = Some (t, d) \<Longrightarrow> rx_first (Grp n a) (u @ t) c = Some (t, dset n u d)"
  by (auto simp: rx_first_def split: list.splits)

lemma first_EndAnchor [first_intros]: "rx_first EndAnchor [] c = Some ([], c)"
  by (simp add: rx_first_def)

lemma first_Lit: "rx_first (Lit p) (p @ t) c = Some (t, c)"
  by (simp add: rx_first_def startswith_def)

lemma first_Star_Cls: "rx_first (Star (Cls p)) s c = Some (dropWhile p s, c)"
  using star_Cls_first [of s "length s" p c] by (auto simp: rx_first_def simp del: star_greedy.simps)

lemma first_Plus_Cls:
  "u \<noteq> [] \<Longrightarrow> list_all p u \<Longrightarrow> t = [] \<or> \<not> p (hd t) \<Longrightarrow> rx_first (Plus (Cls p)) (u @ t) c = Some (t, c)"
proof -
  assume u: "u \<noteq> []" "list_all p u" "t = [] \<or> \<not> p (hd t)"
  then obtain x v where x: "u = x # v" "p x" "list_all p v" by (cases u) auto
  have "dropWhile p (v @ t) = t" using x(3) u(3) by (cases t) (auto simp: dropWhile_append list_all_iff)
  with x first_Star_Cls [of p "v @ t" c] show ?thesis unfolding Plus_def by (auto intro: first_Seq first_Cls)
qed

text \<open>More fuel than the string is long changes nothing.\<close>

lemma star_greedy_fuel: "length s \<le> n \<Longrightarrow> star_greedy f n s c = star_greedy f (length s) s c"
proof (induction n arbitrary: s c rule: less_induct)
  case (less n)
  show ?case
  proof (cases n)
    case (Suc k)
    show ?thesis
    proof (cases "length s")
      case (Suc l)
      have e: "star_greedy f k t d = star_greedy f l t d" if "length t < length s" for t d
        using that less.IH [of k t d] less.IH [of l t d] \<open>n = Suc k\<close> Suc less.prems by simp
      have "map (\<lambda>(t, d). if length t < length s then star_greedy f k t d else []) (f s c) =
          map (\<lambda>(t, d). if length t < length s then star_greedy f l t d else []) (f s c)"
        by (rule map_cong) (auto simp: e)
      then show ?thesis unfolding \<open>n = Suc k\<close> Suc star_greedy.simps by (rule arg_cong)
    next
      case 0
      then show ?thesis using \<open>n = Suc k\<close> by (auto simp: concat_eq_Nil_conv)
    qed
  qed (use less.prems in simp)
qed

lemma first_Star_step:
  assumes "rx_first a s c = Some (t, d)" "length t < length s" "rx_first (Star a) t d = Some m"
  shows "rx_first (Star a) s c = Some m"
proof -
  obtain l where l: "length s = Suc l" using assms(2) by (cases "length s") auto
  obtain ms where "rx a s c = (t, d) # ms" using assms(1) by (auto simp: rx_first_def split: list.splits)
  moreover have "star_greedy (rx a) l t d = rx (Star a) t d" using star_greedy_fuel [of t l "rx a" d] assms(2) l by simp
  ultimately show ?thesis using assms(2,3) l by (auto simp: rx_first_def split: list.splits)
qed

lemma first_Star_stop: "rx a s c = [] \<Longrightarrow> rx_first (Star a) s c = Some (s, c)"
  by (cases "length s") (simp_all add: rx_first_def)

end
