(* ===== verification/PyBits.thy ===== *)
theory PyBits
  imports PyPrelude "HOL-Library.Word"
begin

unbundle bit_operations_syntax

text \<open>
  Facts about Python's bit operations on unbounded integers, which the protocol code uses on bytes
  and registers: masks as remainders, shifts as multiplications and divisions, disjoint \<open>|\<close> as
  addition, and cancellation of \<open>^\<close>.
\<close>

named_theorems bit_arith \<open>masks and shifts as arithmetic\<close>

lemma and_mask_mod: "(x::int) AND mask n = x mod 2 ^ n"
  by (simp add: take_bit_eq_mask [symmetric] take_bit_eq_mod)

lemma and_0x0f [bit_arith]: "(x::int) AND 15 = x mod 16"
  and and_0x7f [bit_arith]: "(x::int) AND 127 = x mod 128"
  and and_0xff [bit_arith]: "(x::int) AND 255 = x mod 256"
  and and_0xffffffff [bit_arith]: "(x::int) AND 4294967295 = x mod 4294967296"
  using and_mask_mod [of x 4] and_mask_mod [of x 7] and_mask_mod [of x 8] and_mask_mod [of x 32]
  by (simp_all add: mask_eq_exp_minus_1)

lemma and_15_take_bit: "(x::int) AND 15 = take_bit 4 x"
  by (simp add: take_bit_eq_mod and_0x0f)

lemma div_within:
  assumes "0 < (m::int)" "a * m \<le> v" "v < b * m"
  shows "a \<le> v div m" "v div m < b"
proof -
  have v: "v = v div m * m + v mod m" "0 \<le> v mod m" "v mod m < m"
    using assms(1) by simp_all
  show "a \<le> v div m"
  proof (rule ccontr)
    assume "\<not> a \<le> v div m"
    then have "(v div m + 1) * m \<le> a * m" using assms(1) by (intro mult_right_mono) simp_all
    then have "v div m * m + m \<le> a * m" by (simp add: distrib_right)
    with v assms(2) show False by linarith
  qed
  show "v div m < b"
  proof (rule ccontr)
    assume "\<not> v div m < b"
    then have "b * m \<le> v div m * m" using assms(1) by (intro mult_right_mono) simp_all
    with v assms(3) show False by linarith
  qed
qed

lemma push_or_add:
  assumes "0 \<le> b" "b < 2 ^ n"
  shows "push_bit n (a::int) OR b = a * 2 ^ n + b"
proof -
  have b: "b = take_bit n b" using assms by (simp add: take_bit_int_eq_self)
  have "push_bit n a AND b = 0"
    by (subst b) (auto simp: bit_eq_iff bit_simps)
  then show ?thesis by (simp add: disjunctive_add_eq_or [symmetric] push_bit_eq_mult)
qed

lemma or_push_add:
  "0 \<le> b \<Longrightarrow> b < 2 ^ n \<Longrightarrow> b OR push_bit n (a::int) = a * 2 ^ n + b"
  using push_or_add [of b n a] by (simp add: or.commute)

lemma xor_cancel_left [simp]: "(a::int) XOR b = a XOR c \<longleftrightarrow> b = c"
  by (metis xor_self_eq xor.assoc xor.left_neutral)

lemma xor_cancel_right [simp]: "(b::int) XOR a = c XOR a \<longleftrightarrow> b = c"
  by (metis xor_cancel_left xor.commute)

lemma bit_bounded: "0 \<le> (x::int) \<Longrightarrow> x < 2 ^ n \<Longrightarrow> n \<le> k \<Longrightarrow> \<not> bit x k"
  by (metis bit_take_bit_iff linorder_not_less take_bit_int_eq_self)

lemma bounded_eq_iff_bits:
  assumes "0 \<le> (x::int)" "x < 2 ^ n" "0 \<le> y" "y < 2 ^ n"
  shows "x = y \<longleftrightarrow> (\<forall>k < n. bit x k = bit y k)"
proof
  assume *: "\<forall>k < n. bit x k = bit y k"
  show "x = y"
  proof (rule bit_eqI)
    fix k
    show "bit x k = bit y k"
      using * bit_bounded [OF assms(1,2), of k] bit_bounded [OF assms(3,4), of k]
      by (cases "k < n") auto
  qed
qed simp

lemma bounded_or: "0 \<le> x \<Longrightarrow> x < 2 ^ n \<Longrightarrow> 0 \<le> y \<Longrightarrow> y < 2 ^ n \<Longrightarrow> (x::int) OR y < 2 ^ n"
  and bounded_xor: "0 \<le> x \<Longrightarrow> x < 2 ^ n \<Longrightarrow> 0 \<le> y \<Longrightarrow> y < 2 ^ n \<Longrightarrow> (x::int) XOR y < 2 ^ n"
  by (auto intro: OR_upper XOR_upper)

lemma bounded_and: "0 \<le> x \<Longrightarrow> (x::int) AND y \<le> x" and "0 \<le> y \<Longrightarrow> (x::int) AND y \<le> y"
  by (auto intro: AND_upper1 AND_upper2)

end
