(* ===== verification/MsgWire.thy ===== *)
theory MsgWire
  imports PyBits
begin

unbundle bit_operations_syntax

text \<open>
  The byte level of \<open>klippy/msgproto.py\<close>: framing (length, sequence, payload, CRC, sync) by
  \<open>crc16_ccitt\<close>, \<open>check_packet\<close> and \<open>mp_encode\<close> (the class's \<open>encode\<close>), and the variable-length
  integers of \<open>PT_uint32\<close> by \<open>vlq_encode\<close> and \<open>vlq_parse\<close>. A byte string or a list of bytes is an
  \<open>int list\<close>, as Python's integers are unbounded and the code shifts and masks them; \<open>is_byte\<close>
  says which are bytes.

  The lemmas show that an encoded integer parses back (\<open>vlq_roundtrip\<close>), that a step of the CRC is
  injective in the byte and in the old value, and that the accepted packets are exactly the
  encoded ones (\<open>check_packet_accepts\<close>).
\<close>

section \<open>Constants and framing\<close>

definition MESSAGE_MIN :: nat where "MESSAGE_MIN = 5"
definition MESSAGE_MAX :: nat where "MESSAGE_MAX = 64"
definition MESSAGE_HEADER_SIZE :: nat where "MESSAGE_HEADER_SIZE = 2"
definition MESSAGE_TRAILER_SIZE :: nat where "MESSAGE_TRAILER_SIZE = 3"
definition MESSAGE_POS_LEN :: nat where "MESSAGE_POS_LEN = 0"
definition MESSAGE_POS_SEQ :: nat where "MESSAGE_POS_SEQ = 1"
definition MESSAGE_TRAILER_CRC :: nat where "MESSAGE_TRAILER_CRC = 3"
definition MESSAGE_TRAILER_SYNC :: nat where "MESSAGE_TRAILER_SYNC = 1"
definition MESSAGE_PAYLOAD_MAX :: nat where "MESSAGE_PAYLOAD_MAX = MESSAGE_MAX - MESSAGE_MIN"
definition MESSAGE_SEQ_MASK :: int where "MESSAGE_SEQ_MASK = 0x0f"
definition MESSAGE_DEST :: int where "MESSAGE_DEST = 0x10"
definition MESSAGE_SYNC :: int where "MESSAGE_SYNC = 0x7E"

lemmas message_consts =
  MESSAGE_MIN_def MESSAGE_MAX_def MESSAGE_HEADER_SIZE_def MESSAGE_TRAILER_SIZE_def
  MESSAGE_POS_LEN_def MESSAGE_POS_SEQ_def MESSAGE_TRAILER_CRC_def MESSAGE_TRAILER_SYNC_def
  MESSAGE_PAYLOAD_MAX_def MESSAGE_SEQ_MASK_def MESSAGE_DEST_def MESSAGE_SYNC_def

definition is_byte :: "int \<Rightarrow> bool" where
  "is_byte b \<longleftrightarrow> 0 \<le> b \<and> b < 256"

definition crc16_step :: "int \<Rightarrow> int \<Rightarrow> int" where
  "crc16_step crc b =
     (let d1 = b XOR (crc AND 0xff);
          d2 = d1 XOR (push_bit 4 (d1 AND 0x0f))
      in ((push_bit 8 d2) OR (drop_bit 8 crc)) XOR (drop_bit 4 d2) XOR (push_bit 3 d2))"

definition crc16_value :: "int list \<Rightarrow> int" where
  "crc16_value buf = foldl crc16_step 0xffff buf"

definition crc16_ccitt :: "int list \<Rightarrow> int list" where
  "crc16_ccitt buf = (let crc = crc16_value buf in [drop_bit 8 crc, crc AND 0xff])"

definition check_packet :: "int list \<Rightarrow> int" where
  "check_packet s =
     (if length s < MESSAGE_MIN then 0
      else
        let msglen = s ! MESSAGE_POS_LEN in
        if msglen < int MESSAGE_MIN \<or> msglen > int MESSAGE_MAX then -1
        else
          let msgseq = s ! MESSAGE_POS_SEQ in
          if msgseq AND (NOT MESSAGE_SEQ_MASK) \<noteq> MESSAGE_DEST then -1
          else if int (length s) < msglen then 0
          else
            let n = nat msglen in
            if s ! (n - MESSAGE_TRAILER_SYNC) \<noteq> MESSAGE_SYNC then -1
            else
              let msgcrc = take 2 (drop (n - MESSAGE_TRAILER_CRC) s);
                  crc = crc16_ccitt (take (n - MESSAGE_TRAILER_SIZE) s)
              in if crc \<noteq> msgcrc then -1 else msglen)"

definition mp_encode :: "int \<Rightarrow> int list \<Rightarrow> int list" where
  "mp_encode seq cmd =
     (let msglen = int (MESSAGE_MIN + length cmd);
          seq' = (seq AND MESSAGE_SEQ_MASK) OR MESSAGE_DEST;
          out = [msglen, seq'] @ cmd
      in out @ crc16_ccitt out @ [MESSAGE_SYNC])"

section \<open>The CRC\<close>

text \<open>
  One step is a mixing of the byte with the low half of the CRC, spread over sixteen bits: both
  the mixing and the spreading undo themselves, so a step loses no information.
\<close>

lemma crc16_step_bound:
  assumes "0 \<le> c" "c < 2 ^ 16" "is_byte d"
  shows "0 \<le> crc16_step c d \<and> crc16_step c d < 2 ^ 16"
proof -
  have d: "0 \<le> d" "d < 2 ^ 8" using assms(3) by (simp_all add: is_byte_def)
  define d1 where "d1 = d XOR (c AND 255)"
  define d2 where "d2 = d1 XOR push_bit 4 (d1 AND 15)"
  have d1: "0 \<le> d1" "d1 < 2 ^ 8"
    using d bounded_xor [of d 8 "c AND 255"] by (simp_all add: d1_def and_0xff)
  have "push_bit 4 (d1 AND 15) < 2 ^ 8" by (simp add: and_0x0f push_bit_eq_mult)
  then have d2: "0 \<le> d2" "d2 < 2 ^ 8"
    using d1 bounded_xor [of d1 8 "push_bit 4 (d1 AND 15)"] by (simp_all add: d2_def and_0x0f push_bit_eq_mult)
  have p: "0 \<le> push_bit 8 d2" "push_bit 8 d2 < 2 ^ 16" using d2 by (simp_all add: push_bit_eq_mult)
  have q: "0 \<le> drop_bit 8 c" "drop_bit 8 c < 2 ^ 16"
    using assms by (simp_all add: drop_bit_eq_div)
  have r: "0 \<le> drop_bit 4 d2" "drop_bit 4 d2 < 2 ^ 16" "0 \<le> push_bit 3 d2" "push_bit 3 d2 < 2 ^ 16"
    using d2 by (simp_all add: drop_bit_eq_div push_bit_eq_mult)
  have "0 \<le> (push_bit 8 d2 OR drop_bit 8 c) XOR drop_bit 4 d2 XOR push_bit 3 d2"
    using p q r by simp
  moreover have "(push_bit 8 d2 OR drop_bit 8 c) XOR drop_bit 4 d2 XOR push_bit 3 d2 < 2 ^ 16"
    using p q r by (intro bounded_xor bounded_or) simp_all
  ultimately show ?thesis by (simp add: crc16_step_def Let_def d1_def d2_def)
qed

lemma byte_drop_bit: "is_byte b \<Longrightarrow> 8 \<le> n \<Longrightarrow> drop_bit n b = 0"
  by (rule bit_eqI) (simp add: bit_simps is_byte_def bit_bounded [of b 8])

lemma crc16_hi_involution: "is_byte b \<Longrightarrow> (b XOR drop_bit 5 b) XOR drop_bit 5 (b XOR drop_bit 5 b) = b"
  using byte_drop_bit [of b 10]
  by (simp add: drop_bit_xor xor.assoc xor.left_commute)

lemma crc16_lo_involution:
  "(a XOR push_bit 4 (a AND 15)) XOR push_bit 4 ((a XOR push_bit 4 (a AND 15)) AND 15) = (a::int)"
  by (simp add: and_15_take_bit take_bit_push_bit xor.assoc)

definition crc16_mix :: "int \<Rightarrow> int" where
  "crc16_mix a = a XOR push_bit 4 (a AND 15)"

lemma crc16_mix_inj: "crc16_mix a = crc16_mix a' \<Longrightarrow> a = a'"
  using crc16_lo_involution [of a] crc16_lo_involution [of a'] by (metis crc16_mix_def)

lemma crc16_mix_byte: "is_byte a \<Longrightarrow> is_byte (crc16_mix a)"
  using bounded_xor [of a 8 "push_bit 4 (a AND 15)"]
  by (simp add: crc16_mix_def is_byte_def and_0x0f push_bit_eq_mult)

lemma byte_xor: "is_byte a \<Longrightarrow> is_byte b \<Longrightarrow> is_byte (a XOR b)"
  using bounded_xor [of a 8 b] by (simp add: is_byte_def)

lemma is_byte_and_255 [simp]: "is_byte (c AND 255)"
  by (simp add: is_byte_def and_0xff)

lemma crc16_step_mix:
  assumes "0 \<le> c" "c < 2 ^ 16"
  shows "crc16_step c d =
    (let b = crc16_mix (d XOR (c AND 255)) in push_bit 8 b XOR drop_bit 4 b XOR push_bit 3 b XOR drop_bit 8 c)"
proof -
  have "push_bit 8 b OR drop_bit 8 c = push_bit 8 b XOR drop_bit 8 c" for b
  proof -
    have "push_bit 8 b AND drop_bit 8 c = 0"
      using bit_bounded [of c 16] assms by (auto simp: bit_eq_iff bit_simps)
    then show ?thesis by (simp add: disjunctive_add_eq_or [symmetric] disjunctive_add_eq_xor)
  qed
  then show ?thesis
    by (simp add: crc16_step_def crc16_mix_def Let_def xor.assoc xor.left_commute xor.commute)
qed

lemma crc16_step_high:
  assumes "0 \<le> c" "c < 2 ^ 16" "is_byte d"
  shows "drop_bit 8 (crc16_step c d) =
    (let b = crc16_mix (d XOR (c AND 255)) in b XOR drop_bit 5 b)"
proof -
  have b: "is_byte (crc16_mix (d XOR (c AND 255)))"
    using assms(3) by (intro crc16_mix_byte byte_xor) simp_all
  have "drop_bit 8 (drop_bit 8 c) = 0"
    by (rule bit_eqI) (use bit_bounded [of c 16] assms in \<open>simp add: bit_simps\<close>)
  moreover have "drop_bit 8 (push_bit 3 x) = drop_bit 5 x" for x :: int
    by (rule bit_eqI) (simp add: bit_simps)
  moreover have "drop_bit 8 (push_bit 8 x) = x" for x :: int
    by (rule bit_eqI) (simp add: bit_simps)
  ultimately show ?thesis
    using byte_drop_bit [OF b, of 12] by (simp add: crc16_step_mix [OF assms(1,2)] Let_def drop_bit_xor)
qed


definition is_u16 :: "int \<Rightarrow> bool" where
  "is_u16 c \<longleftrightarrow> 0 \<le> c \<and> c < 2 ^ 16"

lemma crc16_step_u16: "is_u16 c \<Longrightarrow> is_byte d \<Longrightarrow> is_u16 (crc16_step c d)"
  using crc16_step_bound [of c d] unfolding is_u16_def by blast

lemma crc16_step_eq:
  assumes c: "is_u16 c" and c': "is_u16 c'" and d: "is_byte d" "is_byte d'"
    and eq: "crc16_step c d = crc16_step c' d'"
  shows "d XOR (c AND 255) = d' XOR (c' AND 255)" "drop_bit 8 c = drop_bit 8 c'"
proof -
  note C = c [unfolded is_u16_def, THEN conjunct1] c [unfolded is_u16_def, THEN conjunct2]
  note C' = c' [unfolded is_u16_def, THEN conjunct1] c' [unfolded is_u16_def, THEN conjunct2]
  define b where "b = crc16_mix (d XOR (c AND 255))"
  define b' where "b' = crc16_mix (d' XOR (c' AND 255))"
  have byte: "is_byte b" "is_byte b'"
    unfolding b_def b'_def using d by (simp_all only: crc16_mix_byte byte_xor is_byte_and_255)
  have "b XOR drop_bit 5 b = b' XOR drop_bit 5 b'"
    using crc16_step_high [OF C d(1)] crc16_step_high [OF C' d(2)] eq
    by (simp only: Let_def b_def b'_def)
  then have b: "b = b'"
    using crc16_hi_involution [OF byte(1)] crc16_hi_involution [OF byte(2)] by metis
  then show "d XOR (c AND 255) = d' XOR (c' AND 255)"
    unfolding b_def b'_def by (rule crc16_mix_inj)
  have "crc16_step c d = push_bit 8 b XOR drop_bit 4 b XOR push_bit 3 b XOR drop_bit 8 c"
    by (simp only: crc16_step_mix [OF C] Let_def b_def)
  moreover have "crc16_step c' d' = push_bit 8 b' XOR drop_bit 4 b' XOR push_bit 3 b' XOR drop_bit 8 c'"
    by (simp only: crc16_step_mix [OF C'] Let_def b'_def)
  ultimately show "drop_bit 8 c = drop_bit 8 c'"
    using b eq by (simp only: xor_cancel_left)
qed

lemma crc16_step_inj_data:
  "is_u16 c \<Longrightarrow> is_byte d \<Longrightarrow> is_byte d' \<Longrightarrow> crc16_step c d = crc16_step c d' \<Longrightarrow> d = d'"
  using crc16_step_eq(1) [of c c d d'] by (simp only: xor_cancel_right)

lemma crc16_step_inj_crc:
  assumes "is_u16 c" "is_u16 c'" "is_byte d" "crc16_step c d = crc16_step c' d"
  shows "c = c'"
proof -
  have "c AND 255 = c' AND 255" "drop_bit 8 c = drop_bit 8 c'"
    using crc16_step_eq [OF assms(1,2,3,3,4)] by (simp_all only: xor_cancel_left)
  then have "c mod 256 = c' mod 256" "c div 256 = c' div 256"
    by (simp_all add: and_0xff drop_bit_eq_div)
  then show ?thesis by (metis div_mult_mod_eq)
qed

lemma crc16_fold_u16: "is_u16 c \<Longrightarrow> list_all is_byte buf \<Longrightarrow> is_u16 (foldl crc16_step c buf)"
  by (induction buf arbitrary: c) (simp_all add: crc16_step_u16)

lemma is_u16_start: "is_u16 0xffff"
  by (simp add: is_u16_def)

lemma crc16_value_u16: "list_all is_byte buf \<Longrightarrow> is_u16 (crc16_value buf)"
  unfolding crc16_value_def by (rule crc16_fold_u16 [OF is_u16_start])

lemma crc16_fold_inj:
  "is_u16 c \<Longrightarrow> is_u16 c' \<Longrightarrow> list_all is_byte buf \<Longrightarrow>
    foldl crc16_step c buf = foldl crc16_step c' buf \<Longrightarrow> c = c'"
proof (induction buf arbitrary: c c')
  case (Cons b buf)
  have b: "is_byte b" using Cons.prems(3) by simp
  have "crc16_step c b = crc16_step c' b"
    by (rule Cons.IH) (use Cons.prems crc16_step_u16 [OF _ b] in simp_all)
  with Cons.prems(1,2) b show ?case by (blast intro: crc16_step_inj_crc)
qed simp

text \<open>Changing one byte of a message changes its CRC.\<close>

lemma crc16_value_one_byte:
  assumes "list_all is_byte (p @ y # q)" "is_byte x" "crc16_value (p @ x # q) = crc16_value (p @ y # q)"
  shows "x = y"
proof -
  let ?c = "foldl crc16_step 0xffff p"
  have byte: "list_all is_byte p" "list_all is_byte q" "is_byte y"
    using assms(1) by simp_all
  have c: "is_u16 ?c" using crc16_fold_u16 [OF is_u16_start byte(1)] .
  have "foldl crc16_step (crc16_step ?c x) q = foldl crc16_step (crc16_step ?c y) q"
    using assms(3) by (simp only: crc16_value_def foldl_append foldl_Cons)
  then have "crc16_step ?c x = crc16_step ?c y"
    by (rule crc16_fold_inj [OF crc16_step_u16 [OF c assms(2)] crc16_step_u16 [OF c byte(3)] byte(2)])
  then show ?thesis by (rule crc16_step_inj_data [OF c assms(2) byte(3)])
qed
section \<open>Frames\<close>

lemma crc16_ccitt_bytes:
  assumes "list_all is_byte buf"
  shows "list_all is_byte (crc16_ccitt buf)"
proof -
  have "0 \<le> crc16_value buf div 256" "crc16_value buf div 256 < 256"
    using crc16_value_u16 [OF assms] div_within [of 256 0 "crc16_value buf" 256] by (simp_all add: is_u16_def)
  then show ?thesis by (simp add: crc16_ccitt_def Let_def is_byte_def and_0xff drop_bit_eq_div)
qed

lemma length_crc16_ccitt [simp]: "length (crc16_ccitt buf) = 2"
  by (simp add: crc16_ccitt_def Let_def)

lemma crc16_ccitt_inj:
  assumes "crc16_ccitt a = crc16_ccitt b"
  shows "crc16_value a = crc16_value b"
proof -
  have "crc16_value a div 256 = crc16_value b div 256" "crc16_value a mod 256 = crc16_value b mod 256"
    using assms by (simp_all add: crc16_ccitt_def Let_def and_0xff drop_bit_eq_div)
  then show ?thesis by (metis div_mult_mod_eq)
qed

text \<open>What the code emits around a body of header and payload.\<close>

definition sealed :: "int list \<Rightarrow> int list" where
  "sealed body = body @ crc16_ccitt body @ [MESSAGE_SYNC]"

definition seq_byte :: "int \<Rightarrow> int" where
  "seq_byte seq = (seq AND MESSAGE_SEQ_MASK) OR MESSAGE_DEST"

lemma mp_encode_sealed: "mp_encode seq cmd = sealed ([int (5 + length cmd), seq_byte seq] @ cmd)"
  by (simp add: mp_encode_def sealed_def seq_byte_def Let_def message_consts)

lemma length_mp_encode [simp]: "length (mp_encode seq cmd) = 5 + length cmd"
  by (simp add: mp_encode_sealed sealed_def)

lemma seq_byte_value: "seq_byte seq = seq mod 16 + 16"
proof -
  have "seq mod 16 OR push_bit 4 1 = 1 * 2 ^ 4 + seq mod 16"
    by (rule or_push_add) simp_all
  then show ?thesis by (simp add: seq_byte_def message_consts and_0x0f)
qed

lemma dest_nibble: "(b AND NOT MESSAGE_SEQ_MASK = MESSAGE_DEST) \<longleftrightarrow> b div 16 = 1"
proof -
  have "b AND NOT (mask 4) = push_bit 4 (drop_bit 4 b)"
    by (rule bit_eqI) (auto simp: bit_simps)
  then show ?thesis by (simp add: message_consts mask_eq_exp_minus_1 push_bit_eq_mult drop_bit_eq_div)
qed

lemma seq_byte_of_dest: "b div 16 = 1 \<Longrightarrow> seq_byte b = b"
  using div_mult_mod_eq [of b 16] by (simp add: seq_byte_value)

lemma seq_byte_dest: "seq_byte b div 16 = 1"
  by (simp add: seq_byte_value)

lemma sealed_prefix:
  assumes "5 \<le> n" "n \<le> length s"
  shows "s ! (n - 1) = MESSAGE_SYNC \<and> take 2 (drop (n - 3) s) = crc16_ccitt (take (n - 3) s) \<longleftrightarrow>
    take n s = sealed (take (n - 3) s)"
proof -
  have n3: "Suc (Suc (n - 3)) = n - 1" using assms(1) by simp
  have "take n s = take (n - 3) s @ take 2 (drop (n - 3) s) @ [s ! (n - 1)]"
  proof -
    have "take n s = take (n - 3) s @ take (2 + 1) (drop (n - 3) s)"
      using assms(1) take_add [of "n - 3" 3 s] by simp
    also have "take (2 + 1) (drop (n - 3) s) = take 2 (drop (n - 3) s) @ take 1 (drop (n - 1) s)"
      unfolding take_add drop_drop using n3 by simp
    also have "take 1 (drop (n - 1) s) = [s ! (n - 1)]"
      using assms by (simp add: take_Suc_conv_app_nth numeral_eq_Suc)
    finally show ?thesis .
  qed
  then show ?thesis by (auto simp: sealed_def)
qed

lemma check_packet_cases:
  assumes "5 \<le> length s" "s ! 0 = int n"
  shows "check_packet s =
    (if n < 5 \<or> 64 < n \<or> s ! 1 div 16 \<noteq> 1 then -1 else if length s < n then 0
     else if take n s = sealed (take (n - 3) s) then int n else -1)"
proof -
  have "check_packet s =
    (if n < 5 \<or> 64 < n \<or> s ! 1 div 16 \<noteq> 1 then -1 else if length s < n then 0
     else if s ! (n - 1) = MESSAGE_SYNC \<and> take 2 (drop (n - 3) s) = crc16_ccitt (take (n - 3) s)
       then int n else -1)"
    using assms
    by (auto simp: check_packet_def Let_def MESSAGE_MIN_def MESSAGE_MAX_def MESSAGE_POS_LEN_def MESSAGE_POS_SEQ_def
      dest_nibble MESSAGE_TRAILER_SYNC_def MESSAGE_TRAILER_CRC_def MESSAGE_TRAILER_SIZE_def
      split: if_splits)
  then show ?thesis
    using sealed_prefix [of n s] by (simp add: not_less)
qed

lemma check_packet_accepts:
  assumes "0 < n" "list_all is_byte s"
  shows "check_packet s = int n \<longleftrightarrow>
    (\<exists>seq cmd rest. s = mp_encode seq cmd @ rest \<and> length cmd \<le> 59 \<and> n = length (mp_encode seq cmd))"
    (is "?l \<longleftrightarrow> ?r")
proof
  assume l: ?l
  then have len: "5 \<le> length s"
    using assms(1) by (auto simp: check_packet_def message_consts split: if_splits)
  have "is_byte (s ! 0)" using assms(2) len by (cases s) simp_all
  then obtain m where m: "s ! 0 = int m" by (auto simp: is_byte_def intro: nonneg_int_cases)
  with l assms(1) len have n: "s ! 0 = int n" "5 \<le> n" "n \<le> 64" "s ! 1 div 16 = 1" "n \<le> length s"
      "take n s = sealed (take (n - 3) s)"
    by (simp_all add: check_packet_cases split: if_splits)
  obtain r where s: "s = s ! 0 # s ! 1 # r"
    using len by (cases s; cases "tl s") auto
  have lr: "length s = Suc (Suc (length r))" by (subst s) simp
  define cmd where "cmd = take (n - 5) r"
  have cmd: "length cmd = n - 5" using n(2,5) lr by (simp add: cmd_def)
  have "take (n - 3) s = take (Suc (Suc (n - 5))) (s ! 0 # s ! 1 # r)"
    using n(2) by (subst s) (simp add: numeral_eq_Suc Suc_diff_Suc)
  also have "\<dots> = [int (5 + length cmd), seq_byte (s ! 1)] @ cmd"
    using n(1,2,4) by (simp add: cmd_def [symmetric] cmd seq_byte_of_dest)
  finally have body: "take (n - 3) s = [int (5 + length cmd), seq_byte (s ! 1)] @ cmd" .
  have "s = mp_encode (s ! 1) cmd @ drop n s"
    using n(6) unfolding mp_encode_sealed body [symmetric] by (metis append_take_drop_id)
  moreover note cmd
  ultimately show ?r using n(2,3) by (intro exI [of _ "s ! 1"] exI [of _ cmd] exI [of _ "drop n s"]) simp
next
  assume ?r
  then obtain seq cmd rest where s: "s = mp_encode seq cmd @ rest" and c: "length cmd \<le> 59"
    and n: "n = 5 + length cmd" by auto
  have "take n s = mp_encode seq cmd" by (simp add: s n)
  moreover have "take (n - 3) s = [int (5 + length cmd), seq_byte seq] @ cmd"
    by (simp add: s n mp_encode_sealed sealed_def)
  ultimately have "take n s = sealed (take (n - 3) s)" by (simp add: mp_encode_sealed)
  moreover have "5 \<le> length s" "s ! 0 = int n" "s ! 1 = seq_byte seq"
    by (simp_all add: s n mp_encode_sealed sealed_def nth_append)
  ultimately show ?l using c n check_packet_cases [of s n] by (simp add: seq_byte_dest not_less) (simp add: s)
qed
section \<open>Integers on the wire\<close>

definition vlq_encode :: "int \<Rightarrow> int list" where
  "vlq_encode v =
     (if v \<ge> 0xc000000 \<or> v < -0x4000000 then [(drop_bit 28 v AND 0x7f) OR 0x80] else []) @
     (if v \<ge> 0x180000 \<or> v < -0x80000 then [(drop_bit 21 v AND 0x7f) OR 0x80] else []) @
     (if v \<ge> 0x3000 \<or> v < -0x1000 then [(drop_bit 14 v AND 0x7f) OR 0x80] else []) @
     (if v \<ge> 0x60 \<or> v < -0x20 then [(drop_bit 7 v AND 0x7f) OR 0x80] else []) @
     [v AND 0x7f]"

function vlq_loop :: "int list \<Rightarrow> nat \<Rightarrow> int \<Rightarrow> int \<Rightarrow> (int \<times> nat) res" where
  "vlq_loop s pos c v =
     (if c AND 0x80 \<noteq> 0 then
        (if pos < length s then vlq_loop s (pos + 1) (s ! pos) (push_bit 7 v OR (s ! pos AND 0x7f))
         else Inl IndexError)
      else Inr (v, pos))"
  by pat_completeness auto
termination
  by (relation "measure (\<lambda>(s, pos, c, v). length s - pos)") auto

declare vlq_loop.simps [simp del]

definition vlq_parse :: "bool \<Rightarrow> int list \<Rightarrow> nat \<Rightarrow> (int \<times> nat) res" where
  "vlq_parse is_signed s pos =
     rbind (nth_res s pos) (\<lambda>c.
       let v0 = c AND 0x7f;
           v1 = (if c AND 0x60 = 0x60 then v0 OR (-0x20) else v0)
       in rbind (vlq_loop s (pos + 1) c v1) (\<lambda>(v, pos').
            Inr (if is_signed then v else v AND 0xffffffff, pos')))"

subsection \<open>Encoded integers parse back\<close>

lemma septet_facts:
  assumes "0 \<le> d" "d < 128"
  shows "d OR 128 = d + (128::int)" "(d + 128) AND 128 \<noteq> 0" "d AND 128 = 0" 
    "(d + 128) AND 96 = d AND 96" "(d AND 96 = 96) \<longleftrightarrow> 96 \<le> d" "96 \<le> d \<Longrightarrow> d OR (-32) = d - 128"
proof -
  have "\<forall>d \<in> set [0..127::int]. d OR 128 = d + (128::int) \<and> (d + 128) AND 128 \<noteq> 0 \<and> d AND 128 = 0 \<and>
    (d + 128) AND 96 = d AND 96 \<and> ((d AND 96 = 96) \<longleftrightarrow> 96 \<le> d) \<and> (96 \<le> d \<longrightarrow> d OR (-32) = d - 128)"
    by code_simp
  moreover have "d \<in> set [0..127]" using assms by simp
  ultimately show "d OR 128 = d + (128::int)" "(d + 128) AND 128 \<noteq> 0" "d AND 128 = 0" 
    "(d + 128) AND 96 = d AND 96" "(d AND 96 = 96) \<longleftrightarrow> 96 \<le> d" "96 \<le> d \<Longrightarrow> d OR (-32) = d - 128" by blast+
qed

fun vlq_tail :: "int \<Rightarrow> nat \<Rightarrow> int list" where
  "vlq_tail v 0 = []"
| "vlq_tail v (Suc k) = (v div 2 ^ (7 * k) mod 128 + (if k = 0 then 0 else 128)) # vlq_tail v k"

lemma vlq_loop_tail:
  "((c AND 128 \<noteq> 0) = (0 < k)) \<Longrightarrow>
   vlq_loop (pre @ vlq_tail v k @ post) (length pre) c (v div 2 ^ (7 * k)) = Inr (v, length pre + k)"
proof (induction k arbitrary: pre c)
  case 0
  then show ?case by (simp add: vlq_loop.simps)
next
  case (Suc k)
  let ?d = "v div 2 ^ (7 * k) mod 128"
  let ?b = "?d + (if k = 0 then 0 else 128)"
  let ?s = "pre @ vlq_tail v (Suc k) @ post"
  have d: "0 \<le> ?d" "?d < 128" by simp_all
  have b: "?b AND 127 = ?d" by (simp add: and_0x7f)
  have "push_bit 7 (v div 2 ^ (7 * Suc k)) OR ?d = v div 2 ^ (7 * Suc k) * 2 ^ 7 + ?d"
    by (rule push_or_add) simp_all
  also have "\<dots> = v div 2 ^ (7 * k)"
    by (simp add: power_add mult.commute [of 128] zdiv_zmult2_eq)
  finally have step: "push_bit 7 (v div 2 ^ (7 * Suc k)) OR (?b AND 127) = v div 2 ^ (7 * k)"
    by (simp only: b)
  have flag: "(?b AND 128 \<noteq> 0) = (0 < k)"
  proof (cases "k = 0")
    case True
    with septet_facts(3) [OF d] show ?thesis by simp
  qed (use septet_facts(2) [OF d] in simp)
  have "vlq_loop ?s (length pre) c (v div 2 ^ (7 * Suc k)) =
      vlq_loop ((pre @ [?b]) @ vlq_tail v k @ post) (length (pre @ [?b])) ?b (v div 2 ^ (7 * k))"
    using Suc.prems step by (subst vlq_loop.simps) (simp add: nth_append)
  also have "\<dots> = Inr (v, length (pre @ [?b]) + k)"
    by (rule Suc.IH [OF flag])
  finally show ?case by simp
qed

lemma vlq_parse_septets:
  assumes "- 32 * 2 ^ (7 * n) \<le> v" "v < 96 * 2 ^ (7 * n)"
  shows "vlq_parse sg (pre @ vlq_tail v (Suc n) @ post) (length pre) =
    Inr (if sg then v else v mod 2 ^ 32, length pre + Suc n)"
proof -
  let ?q = "v div 2 ^ (7 * n)"
  let ?d = "?q mod 128"
  let ?b = "?d + (if n = 0 then 0 else 128)"
  have q: "-32 \<le> ?q" "?q < 96"
    using div_within [OF _ assms] by simp_all
  have d: "0 \<le> ?d" "?d < 128" by simp_all
  have b7: "?b AND 127 = ?d" by (simp add: and_0x7f)
  have b60: "?b AND 96 = ?d AND 96" using septet_facts(4) [OF d] by simp
  have v1: "(if ?b AND 96 = 96 then (?b AND 127) OR (-32) else ?b AND 127) = ?q"
  proof (cases "?q < 0")
    case True
    have "q mod 128 = q + 128" if "- 32 \<le> q" "q < 0" for q :: int
      using that by presburger
    with True q(1) have "?d = ?q + 128" by blast
    with True q septet_facts(5,6) [OF d] show ?thesis unfolding b7 b60 by simp
  next
    case False
    then have "?d = ?q" using q by simp
    with False q septet_facts(5) [OF d] show ?thesis unfolding b7 b60 by simp
  qed
  have flag: "(?b AND 128 \<noteq> 0) = (0 < n)"
  proof (cases "n = 0")
    case True
    with septet_facts(3) [OF d] show ?thesis by simp
  qed (use septet_facts(2) [OF d] in simp)
  have "vlq_loop ((pre @ [?b]) @ vlq_tail v n @ post) (length (pre @ [?b])) ?b ?q = Inr (v, length (pre @ [?b]) + n)"
    by (rule vlq_loop_tail [OF flag])
  then show ?thesis
    using v1 by (simp add: vlq_parse_def nth_res_def nth_append Let_def and_0xffffffff)
qed

lemma vlq_tail_numeral:
  "vlq_tail v 1 = [v mod 128]"
  "vlq_tail v 2 = [v div 2 ^ 7 mod 128 + 128, v mod 128]"
  "vlq_tail v 3 = [v div 2 ^ 14 mod 128 + 128, v div 2 ^ 7 mod 128 + 128, v mod 128]"
  "vlq_tail v 4 = [v div 2 ^ 21 mod 128 + 128, v div 2 ^ 14 mod 128 + 128, v div 2 ^ 7 mod 128 + 128, v mod 128]"
  "vlq_tail v 5 = [v div 2 ^ 28 mod 128 + 128, v div 2 ^ 21 mod 128 + 128, v div 2 ^ 14 mod 128 + 128,
     v div 2 ^ 7 mod 128 + 128, v mod 128]"
  by (simp_all add: numeral_eq_Suc)

definition vlq_length :: "int \<Rightarrow> nat" where
  "vlq_length v =
    (if v \<ge> 0xc000000 \<or> v < -0x4000000 then 5
     else if v \<ge> 0x180000 \<or> v < -0x80000 then 4
     else if v \<ge> 0x3000 \<or> v < -0x1000 then 3
     else if v \<ge> 0x60 \<or> v < -0x20 then 2 else 1)"

lemma vlq_encode_tail: "vlq_encode v = vlq_tail v (vlq_length v)"
proof -
  have s: "drop_bit k v mod 128 OR 128 = v div 2 ^ k mod 128 + 128" for k
    using septet_facts(1) [of "v div 2 ^ k mod 128"] by (simp add: drop_bit_eq_div)
  show ?thesis
    by (simp add: vlq_encode_def vlq_length_def s and_0x7f vlq_tail_numeral)
qed

lemma length_vlq_encode: "length (vlq_encode v) = vlq_length v"
proof -
  have "length (vlq_tail v k) = k" for k by (induction k) simp_all
  then show ?thesis by (simp add: vlq_encode_tail)
qed

lemma vlq_length_range:
  assumes "- 0x200000000 \<le> v" "v < 0x600000000"
  shows "\<exists>n. vlq_length v = Suc n \<and> - 32 * 2 ^ (7 * n) \<le> v \<and> v < 96 * 2 ^ (7 * n)"
  using assms
  by (intro exI [of _ "vlq_length v - 1"]) (simp add: vlq_length_def)

lemma vlq_roundtrip:
  assumes "- 0x200000000 \<le> v" "v < 0x600000000"
  shows "vlq_parse sg (pre @ vlq_encode v @ post) (length pre) =
    Inr (if sg then v else v mod 2 ^ 32, length pre + length (vlq_encode v))"
proof -
  obtain n where "vlq_length v = Suc n" "- 32 * 2 ^ (7 * n) \<le> v" "v < 96 * 2 ^ (7 * n)"
    using vlq_length_range [OF assms] by blast
  then show ?thesis
    using vlq_parse_septets [of n v sg pre post] vlq_encode_tail [of v] length_vlq_encode [of v] by simp
qed

lemma sealed_inj: "sealed a = sealed b \<Longrightarrow> a = b"
  using length_crc16_ccitt [of a] length_crc16_ccitt [of b] by (auto simp: sealed_def)

lemma mp_encode_inj:
  "mp_encode seq cmd = mp_encode seq' cmd' \<Longrightarrow> seq mod 16 = seq' mod 16 \<and> cmd = cmd'"
  by (auto simp: mp_encode_sealed seq_byte_value dest!: sealed_inj)

lemma list_all_mp_encode:
  assumes "list_all is_byte cmd" "length cmd \<le> 59"
  shows "list_all is_byte (mp_encode seq cmd)"
proof -
  have "list_all is_byte ([int (5 + length cmd), seq_byte seq] @ cmd)"
    using assms by (simp add: is_byte_def seq_byte_value)
  then show ?thesis
    unfolding mp_encode_sealed sealed_def list_all_append
    by (simp add: crc16_ccitt_bytes) (simp add: is_byte_def MESSAGE_SYNC_def)
qed

text \<open>Two sealed bodies never differ in exactly one byte.\<close>

lemma sealed_one_byte:
  assumes "list_all is_byte a" "list_all is_byte b" "length a = length b"
    and "sealed b = (sealed a)[i := x]"
  shows "a = b"
proof (cases "i < length a")
  case True
  then have "b @ crc16_ccitt b @ [MESSAGE_SYNC] = a[i := x] @ crc16_ccitt a @ [MESSAGE_SYNC]"
    using assms(4) by (simp only: sealed_def list_update_append if_True)
  moreover have "length b = length (a[i := x])" using assms(3) by simp
  ultimately have "b = a[i := x] \<and> crc16_ccitt b @ [MESSAGE_SYNC] = crc16_ccitt a @ [MESSAGE_SYNC]"
    using append_eq_append_conv [OF disjI1, of b "a[i := x]"] by blast
  then have b: "b = a[i := x]" "crc16_ccitt b = crc16_ccitt a" using append_same_eq by blast+
  then have x: "is_byte x" using assms(2) True by (auto simp: list_all_iff set_update_memI)
  have a: "a = take i a @ a ! i # drop (Suc i) a"
    by (rule id_take_nth_drop [OF True])
  have ax: "a[i := x] = take i a @ x # drop (Suc i) a"
    by (rule upd_conv_take_nth_drop [OF True])
  have "x = a ! i"
  proof (rule crc16_value_one_byte [of "take i a" _ "drop (Suc i) a"])
    show "list_all is_byte (take i a @ a ! i # drop (Suc i) a)" using assms(1) by (simp only: a [symmetric])
    show "crc16_value (take i a @ x # drop (Suc i) a) = crc16_value (take i a @ a ! i # drop (Suc i) a)"
      using crc16_ccitt_inj [OF b(2)] by (simp only: a [symmetric] ax [symmetric] b(1))
  qed (rule x)
  with b(1) show ?thesis by simp
next
  case False
  then have "take (length a) (sealed b) = take (length a) (sealed a)"
    using assms(4) by (simp add: take_update_cancel)
  then show ?thesis using assms(3) by (simp add: sealed_def)
qed

section \<open>Properties\<close>

text \<open>A framed command is recognised as a packet of its own length, whatever follows it.\<close>

theorem packet_accepted:
  assumes "list_all is_byte cmd" "length cmd \<le> 59" "list_all is_byte rest"
  shows "check_packet (mp_encode seq cmd @ rest) = int (length (mp_encode seq cmd))"
  using assms list_all_mp_encode [OF assms(1,2), of seq]
    check_packet_accepts [of "length (mp_encode seq cmd)" "mp_encode seq cmd @ rest"] by auto

lemma packet_accepted_witness:
  "check_packet (mp_encode 3 [1, 2, 200] @ [7]) = int (length (mp_encode 3 [1, 2, 200]))"
  by (rule packet_accepted) (simp_all add: is_byte_def)

text \<open>C3: A packet with one byte changed, in its sequence byte, payload, CRC or sync byte, is rejected.\<close>

theorem corrupted_packet_rejected:
  assumes cmd: "list_all is_byte cmd" "length cmd \<le> 59"
    and i: "1 \<le> i" "i < length (mp_encode seq cmd)"
    and x: "is_byte x" "x \<noteq> mp_encode seq cmd ! i"
    and rest: "list_all is_byte rest"
  shows "check_packet ((mp_encode seq cmd)[i := x] @ rest) = -1"
proof -
  let ?n = "5 + length cmd"
  let ?m = "mp_encode seq cmd"
  let ?s = "?m[i := x] @ rest"
  have bytes: "list_all is_byte ?s"
    using list_all_mp_encode [OF cmd, of seq] x(1) rest
    by (auto simp: list_all_iff dest: set_update_subset_insert [THEN subsetD])
  have "?m ! 0 = int ?n" by (simp add: mp_encode_sealed sealed_def)
  then have n: "5 \<le> length ?s" "?s ! 0 = int ?n"
    using i(1) by (simp_all add: nth_append)
  have "check_packet ?s \<noteq> int ?n"
  proof
    assume "check_packet ?s = int ?n"
    then obtain seq' cmd' rest' where m: "?s = mp_encode seq' cmd' @ rest'" "?n = length (mp_encode seq' cmd')"
      using check_packet_accepts [of ?n ?s] bytes by auto
    then have eq: "mp_encode seq' cmd' = ?m[i := x]" by (simp add: append_eq_append_conv)
    have len: "length cmd' = length cmd" using m(2) by simp
    have b': "list_all is_byte (mp_encode seq' cmd')" using bytes eq by simp
    have "[int (5 + length cmd), seq_byte seq] @ cmd = [int (5 + length cmd'), seq_byte seq'] @ cmd'"
    proof (rule sealed_one_byte)
      show "list_all is_byte ([int (5 + length cmd), seq_byte seq] @ cmd)"
        using list_all_mp_encode [OF cmd, of seq] by (simp add: mp_encode_sealed sealed_def)
      show "list_all is_byte ([int (5 + length cmd'), seq_byte seq'] @ cmd')"
        using b' by (simp add: mp_encode_sealed sealed_def)
      show "sealed ([int (5 + length cmd'), seq_byte seq'] @ cmd') = (sealed ([int (5 + length cmd), seq_byte seq] @ cmd))[i := x]"
        using eq by (simp only: mp_encode_sealed)
    qed (simp add: len)
    then have "?m = ?m[i := x]" using eq by (simp only: mp_encode_sealed)
    with i(2) x(2) show False by (metis nth_list_update_eq)
  qed
  then show ?thesis
    using check_packet_cases [OF n] by (simp split: if_splits)
qed

lemma corrupted_packet_rejected_witness:
  "check_packet ((mp_encode 3 [1, 2, 200])[3 := 99] @ [7]) = -1"
  by (rule corrupted_packet_rejected) (simp_all add: is_byte_def mp_encode_sealed sealed_def)

end
