(* ===== verification/MsgProto.thy ===== *)
theory MsgProto
  imports PyRegex MsgWire
begin

unbundle bit_operations_syntax

text \<open>
  The parameter types and message formats of \<open>klippy/msgproto.py\<close>.

  \<^item> \<open>pt\<close>, \<open>pt_encode\<close>, \<open>pt_parse\<close>: the parameter types, enumerations included.
  \<^item> \<open>message_format\<close>, \<open>output_format\<close>: the formats of commands, responses and \<open>output()\<close> text,
    with \<open>encode\<close>, \<open>encode_by_name\<close>, \<open>parse\<close> and \<open>format_params\<close>.

  A message about an unexpected exception carries the code's own text without the text of that
  exception.
\<close>

section \<open>Parameter types\<close>

datatype base_pt =
    PT_uint32 | PT_int32 | PT_uint16 | PT_int16 | PT_byte
  | PT_string | PT_progmem_buffer | PT_buffer

datatype pt =
    Base base_pt
  | Enumeration base_pt string "(string, int) dict"

text \<open>A Python value of a parameter: an integer, a list of bytes, or a string.\<close>

datatype pval = VInt int | VBytes "int list" | VStr string

fun base_is_int :: "base_pt \<Rightarrow> bool" where
  "base_is_int PT_string = False"
| "base_is_int PT_progmem_buffer = False"
| "base_is_int PT_buffer = False"
| "base_is_int _ = True"

fun base_signed :: "base_pt \<Rightarrow> bool" where
  "base_signed PT_int32 = True"
| "base_signed PT_int16 = True"
| "base_signed _ = False"

fun base_max_length :: "base_pt \<Rightarrow> nat" where
  "base_max_length PT_uint32 = 5"
| "base_max_length PT_int32 = 5"
| "base_max_length PT_uint16 = 3"
| "base_max_length PT_int16 = 3"
| "base_max_length PT_byte = 2"
| "base_max_length _ = 64"

fun pt_is_int :: "pt \<Rightarrow> bool" where
  "pt_is_int (Base b) = base_is_int b"
| "pt_is_int (Enumeration b n e) = False"

fun pt_is_dynamic_string :: "pt \<Rightarrow> bool" where
  "pt_is_dynamic_string (Base b) = (\<not> base_is_int b)"
| "pt_is_dynamic_string (Enumeration b n e) = False"

fun base_encode :: "base_pt \<Rightarrow> pval \<Rightarrow> int list res" where
  "base_encode b v =
     (if base_is_int b then (case v of VInt i \<Rightarrow> Inr (vlq_encode i) | _ \<Rightarrow> Inl TypeError)
      else (case v of
          VBytes bs \<Rightarrow> if list_all is_byte bs then Inr (int (length bs) # bs) else Inl ValueError
        | _ \<Rightarrow> Inl TypeError))"

fun base_parse :: "base_pt \<Rightarrow> int list \<Rightarrow> nat \<Rightarrow> (pval \<times> nat) res" where
  "base_parse b s pos =
     (if base_is_int b then rbind (vlq_parse (base_signed b) s pos) (\<lambda>(v, p). Inr (VInt v, p))
      else rbind (nth_res s pos) (\<lambda>l.
        Inr (VBytes (take (nat l) (drop (pos + 1) s)), pos + nat l + 1)))"

definition reverse_enums :: "(string, int) dict \<Rightarrow> (int, string) dict" where
  "reverse_enums e = dict_of (map (\<lambda>(k, v). (v, k)) e)"

definition enumeration_error :: "string \<Rightarrow> string \<Rightarrow> exc" where
  "enumeration_error nm v = AppError (''Unknown value '' @ quoted v @ '' in enumeration '' @ quoted nm)"

fun pt_encode :: "pt \<Rightarrow> pval \<Rightarrow> int list res" where
  "pt_encode (Base b) v = base_encode b v"
| "pt_encode (Enumeration b nm enums) v =
     (case v of
        VStr k \<Rightarrow> (case dget enums k of
            None \<Rightarrow> Inl (enumeration_error nm k)
          | Some tv \<Rightarrow> base_encode b (VInt tv))
      | VInt i \<Rightarrow> Inl (enumeration_error nm (str_int i))
      | VBytes bs \<Rightarrow> Inl TypeError)"

fun pt_parse :: "pt \<Rightarrow> int list \<Rightarrow> nat \<Rightarrow> (pval \<times> nat) res" where
  "pt_parse (Base b) s pos = base_parse b s pos"
| "pt_parse (Enumeration b nm enums) s pos =
     rbind (base_parse b s pos) (\<lambda>(v, p).
       case v of
         VInt i \<Rightarrow> (case dget (reverse_enums enums) i of
             None \<Rightarrow> Inr (VStr (CHR ''?'' # str_int i), p)
           | Some k \<Rightarrow> Inr (VStr k, p))
       | _ \<Rightarrow> Inl TypeError)"

section \<open>Loops over the parameters of a message\<close>

text \<open>
  The loops of \<open>MessageFormat\<close>, over any encoder and decoder of single parameters: \<open>out\<close> grows
  parameter by parameter, \<open>pos\<close> moves on.
\<close>

fun seq_encode :: "('t \<Rightarrow> 'v \<Rightarrow> int list res) \<Rightarrow> int list \<Rightarrow> ('t \<times> 'v) list \<Rightarrow> int list res" where
  "seq_encode enc out [] = Inr out"
| "seq_encode enc out ((t, v) # tvs) = rbind (enc t v) (\<lambda>bs. seq_encode enc (out @ bs) tvs)"

fun seq_parse :: "('t \<Rightarrow> int list \<Rightarrow> nat \<Rightarrow> ('w \<times> nat) res) \<Rightarrow> 't list \<Rightarrow> int list \<Rightarrow> nat \<Rightarrow> ('w list \<times> nat) res" where
  "seq_parse dec [] s pos = Inr ([], pos)"
| "seq_parse dec (t # ts) s pos =
     rbind (dec t s pos) (\<lambda>(v, p). rbind (seq_parse dec ts s p) (\<lambda>(vs, q). Inr (v # vs, q)))"

section \<open>Formats\<close>

definition MessageTypes :: "(string, base_pt) dict" where
  "MessageTypes =
     [(''%u'', PT_uint32), (''%i'', PT_int32), (''%hu'', PT_uint16), (''%hi'', PT_int16),
      (''%c'', PT_byte), (''%s'', PT_string), (''%.*s'', PT_progmem_buffer), (''%*s'', PT_buffer)]"

type_synonym enums_table = "(string, (string, int) dict) dict"

definition with_enum :: "string \<Rightarrow> base_pt \<Rightarrow> enums_table \<Rightarrow> pt" where
  "with_enum name b enumerations =
     (case find (\<lambda>(en, es). name = en \<or> endswith name (CHR ''_'' # en)) enumerations of
        None \<Rightarrow> Base b
      | Some (en, es) \<Rightarrow> Enumeration b en es)"

definition lookup_params :: "string \<Rightarrow> enums_table \<Rightarrow> (string \<times> pt) list res" where
  "lookup_params msgformat enumerations =
     rmap (\<lambda>arg. case split_on (CHR ''='') arg of
         [name, fmt] \<Rightarrow> rbind (res_of KeyError (dget MessageTypes fmt))
           (\<lambda>b. Inr (name, with_enum name b enumerations))
       | _ \<Rightarrow> Inl ValueError)
       (tl (split_ws msgformat))"

definition output_type_at :: "string \<Rightarrow> base_pt option" where
  "output_type_at args =
     map_option the (find (\<lambda>r. r \<noteq> None) (map (\<lambda>i. dget MessageTypes (take (1 + i) args)) [0..<4]))"

fun output_params_loop :: "string \<Rightarrow> string \<Rightarrow> base_pt list res" where
  "output_params_loop msgformat [] = Inr []"
| "output_params_loop msgformat (c # s) =
     (if c \<noteq> CHR ''%'' then output_params_loop msgformat s
      else if s = [] \<or> hd s \<noteq> CHR ''%'' then
        (case output_type_at (c # s) of
           None \<Rightarrow> Inl (AppError (''Invalid output format for '' @ quoted msgformat))
         | Some t \<Rightarrow> rbind (output_params_loop msgformat s) (\<lambda>ts. Inr (t # ts)))
      else output_params_loop msgformat s)"

definition lookup_output_params :: "string \<Rightarrow> base_pt list res" where
  "lookup_output_params msgformat = output_params_loop msgformat msgformat"

definition convert_msg_format :: "string \<Rightarrow> string" where
  "convert_msg_format msgformat =
     foldl (\<lambda>m c. replace_str c ''%s'' m) msgformat
       [''%u'', ''%i'', ''%hu'', ''%hi'', ''%c'', ''%.*s'', ''%*s'']"

text \<open>Python's \<open>%\<close> operator on a format whose only directives are \<open>%s\<close> and \<open>%%\<close>.\<close>

fun percent_format :: "string \<Rightarrow> string list \<Rightarrow> string res" where
  "percent_format [] args = (if args = [] then Inr [] else Inl TypeError)"
| "percent_format (c # f) args =
     (if c \<noteq> CHR ''%'' then rbind (percent_format f args) (\<lambda>r. Inr (c # r))
      else (case f of
          [] \<Rightarrow> Inl ValueError
        | d # g \<Rightarrow>
            if d = CHR ''%'' then rbind (percent_format g args) (\<lambda>r. Inr (CHR ''%'' # r))
            else if d = CHR ''s'' then
              (case args of [] \<Rightarrow> Inl TypeError
               | a # as \<Rightarrow> rbind (percent_format g as) (\<lambda>r. Inr (a @ r)))
            else Inl ValueError))"

text \<open>\<open>repr\<close> of a \<open>bytes\<close> object.\<close>

definition hex_lower :: "nat \<Rightarrow> char" where
  "hex_lower d = (if d < 10 then cchar (48 + d) else cchar (87 + d))"

definition repr_byte :: "bool \<Rightarrow> int \<Rightarrow> string" where
  "repr_byte dq b =
     (if b = 9 then [CHR 0x5C, CHR ''t''] else if b = 10 then [CHR 0x5C, CHR ''n'']
      else if b = 13 then [CHR 0x5C, CHR ''r''] else if b = 92 then [CHR 0x5C, CHR 0x5C]
      else if b = 39 \<and> \<not> dq then [CHR 0x5C, CHR 0x27]
      else if 32 \<le> b \<and> b < 127 then [cchar (nat b)]
      else [CHR 0x5C, CHR ''x'', hex_lower (nat b div 16), hex_lower (nat b mod 16)])"

definition repr_bytes :: "int list \<Rightarrow> string" where
  "repr_bytes bs =
     (let dq = 39 \<in> set bs \<and> 34 \<notin> set bs; q = (if dq then CHR 0x22 else CHR 0x27)
      in CHR ''b'' # q # concat (map (repr_byte dq) bs) @ [q])"

fun pval_text :: "pval \<Rightarrow> string" where
  "pval_text (VInt i) = str_int i"
| "pval_text (VStr s) = s"
| "pval_text (VBytes bs) = repr_bytes bs"

record message_format =
  mf_msgid :: int
  mf_msgformat :: string
  mf_debugformat :: string
  mf_name :: string
  mf_params :: "(string \<times> pt) list"

definition new_message_format :: "int \<Rightarrow> string \<Rightarrow> enums_table \<Rightarrow> message_format res" where
  "new_message_format msgid msgformat enumerations =
     rbind (nth_res (split_ws msgformat) 0) (\<lambda>name.
     rbind (lookup_params msgformat enumerations) (\<lambda>params.
       Inr \<lparr>mf_msgid = msgid, mf_msgformat = msgformat,
         mf_debugformat = convert_msg_format msgformat, mf_name = name, mf_params = params\<rparr>))"

definition mf_types :: "message_format \<Rightarrow> pt list" where
  "mf_types mf = map snd (mf_params mf)"

definition mf_name_to_type :: "message_format \<Rightarrow> (string, pt) dict" where
  "mf_name_to_type mf = dict_of (mf_params mf)"

definition mf_encode :: "message_format \<Rightarrow> pval list \<Rightarrow> int list res" where
  "mf_encode mf params =
     rbind (seq_encode (\<lambda>t i. rbind (nth_res params i) (pt_encode t)) [mf_msgid mf]
              (zip (mf_types mf) [0..<length (mf_types mf)]))
       Inr"

definition mf_encode_by_name :: "message_format \<Rightarrow> (string, pval) dict \<Rightarrow> int list res" where
  "mf_encode_by_name mf params =
     seq_encode (\<lambda>t name. rbind (res_of KeyError (dget params name)) (pt_encode t)) [mf_msgid mf]
       (map (\<lambda>(name, t). (t, name)) (mf_params mf))"

definition mf_parse :: "message_format \<Rightarrow> int list \<Rightarrow> nat \<Rightarrow> ((string, pval) dict \<times> nat) res" where
  "mf_parse mf s pos =
     rbind (seq_parse pt_parse (mf_types mf) s (pos + 1)) (\<lambda>(vs, p).
       Inr (dict_of (zip (map fst (mf_params mf)) vs), p))"

definition mf_format_params :: "message_format \<Rightarrow> (string, pval) dict \<Rightarrow> string res" where
  "mf_format_params mf params =
     rbind (rmap (\<lambda>(name, t). res_of KeyError (map_option pval_text (dget params name))) (mf_params mf))
       (percent_format (mf_debugformat mf))"

record output_format =
  of_msgid :: int
  of_msgformat :: string
  of_debugformat :: string
  of_types :: "base_pt list"

definition new_output_format :: "int \<Rightarrow> string \<Rightarrow> output_format res" where
  "new_output_format msgid msgformat =
     rbind (lookup_output_params msgformat) (\<lambda>ts.
       Inr \<lparr>of_msgid = msgid, of_msgformat = msgformat,
         of_debugformat = convert_msg_format msgformat, of_types = ts\<rparr>)"

definition of_parse :: "output_format \<Rightarrow> int list \<Rightarrow> nat \<Rightarrow> ((string, pval) dict \<times> nat) res" where
  "of_parse f s pos =
     rbind (seq_parse base_parse (of_types f) s (pos + 1)) (\<lambda>(vs, p).
     rbind (percent_format (of_debugformat f) (map pval_text vs)) (\<lambda>m.
       Inr ([(''#msg'', VStr m)], p)))"

datatype msgfmt = FMessage message_format | FOutput output_format | FUnknown

fun msgfmt_name :: "msgfmt \<Rightarrow> string" where
  "msgfmt_name (FMessage mf) = mf_name mf"
| "msgfmt_name (FOutput f) = ''#output''"
| "msgfmt_name FUnknown = ''#unknown''"

definition unknown_parse :: "int list \<Rightarrow> nat \<Rightarrow> ((string, pval) dict \<times> nat) res" where
  "unknown_parse s pos =
     rbind (nth_res s pos) (\<lambda>msgid.
       if list_all is_byte s
       then Inr ([(''#msgid'', VInt msgid), (''#msg'', VBytes s)], length s - MESSAGE_TRAILER_SIZE)
       else Inl ValueError)"

fun msgfmt_parse :: "msgfmt \<Rightarrow> int list \<Rightarrow> nat \<Rightarrow> ((string, pval) dict \<times> nat) res" where
  "msgfmt_parse (FMessage mf) s pos = mf_parse mf s pos"
| "msgfmt_parse (FOutput f) s pos = of_parse f s pos"
| "msgfmt_parse FUnknown s pos = unknown_parse s pos"

fun msgfmt_format_params :: "msgfmt \<Rightarrow> (string, pval) dict \<Rightarrow> string res" where
  "msgfmt_format_params (FMessage mf) params = mf_format_params mf params"
| "msgfmt_format_params (FOutput f) params =
     rbind (res_of KeyError (dget params ''#msg'')) (\<lambda>m. Inr (''#output '' @ pval_text m))"
| "msgfmt_format_params FUnknown params =
     rbind (res_of KeyError (dget params ''#msg'')) (\<lambda>m. Inr (''#unknown '' @ pval_text m))"

section \<open>Encoded parameters parse back\<close>

text \<open>
  The contract between an encoder and a decoder of single parameters: \<open>decoded t v\<close> is what the
  other side reads when \<open>v\<close> is sent as a \<open>t\<close>, wherever the bytes stand in the message.
\<close>

locale codec =
  fixes enc :: "'t \<Rightarrow> 'v \<Rightarrow> int list res"
    and dec :: "'t \<Rightarrow> int list \<Rightarrow> nat \<Rightarrow> ('w \<times> nat) res"
    and decoded :: "'t \<Rightarrow> 'v \<Rightarrow> 'w option"
  assumes dec_enc: "decoded t v = Some w \<Longrightarrow>
    \<exists>bs. enc t v = Inr bs \<and> (\<forall>pre post. dec t (pre @ bs @ post) (length pre) = Inr (w, length pre + length bs))"
begin

lemma seq_roundtrip:
  "list_all2 (\<lambda>(t, v) w. decoded t v = Some w) tvs ws \<Longrightarrow>
    \<exists>bs. seq_encode enc out tvs = Inr (out @ bs) \<and>
      (\<forall>pre post. seq_parse dec (map fst tvs) (pre @ bs @ post) (length pre) = Inr (ws, length pre + length bs))"
proof (induction tvs ws arbitrary: out rule: list_all2_induct)
  case Nil
  show ?case by simp
next
  case (Cons tv tvs w ws)
  obtain t v where tv: "tv = (t, v)" by (cases tv)
  from Cons.hyps(1) obtain bs where bs: "enc t v = Inr bs"
    "\<And>pre post. dec t (pre @ bs @ post) (length pre) = Inr (w, length pre + length bs)"
    using dec_enc [of t v w] by (auto simp: tv)
  from Cons.IH [of "out @ bs"] obtain cs where cs: "seq_encode enc (out @ bs) tvs = Inr ((out @ bs) @ cs)"
    "\<And>pre post. seq_parse dec (map fst tvs) (pre @ cs @ post) (length pre) = Inr (ws, length pre + length cs)"
    by auto
  have "seq_parse dec (map fst (tv # tvs)) (pre @ (bs @ cs) @ post) (length pre) =
      Inr (w # ws, length pre + length (bs @ cs))" for pre post
    using bs(2) [of pre "cs @ post"] cs(2) [of "pre @ bs" post] by (simp add: tv)
  then show ?case using bs(1) cs(1) by (intro exI [of _ "bs @ cs"]) (simp add: tv)
qed

end

definition wire_range :: "int \<Rightarrow> bool" where
  "wire_range v \<longleftrightarrow> - 0x200000000 \<le> v \<and> v < 0x600000000"

definition as_read :: "base_pt \<Rightarrow> int \<Rightarrow> int" where
  "as_read b i = (if base_signed b then i else i mod 2 ^ 32)"

fun base_decoded :: "base_pt \<Rightarrow> pval \<Rightarrow> pval option" where
  "base_decoded b (VInt i) = (if base_is_int b \<and> wire_range i then Some (VInt (as_read b i)) else None)"
| "base_decoded b (VBytes bs) = (if \<not> base_is_int b \<and> list_all is_byte bs \<and> length bs < 256 then Some (VBytes bs) else None)"
| "base_decoded b (VStr s) = None"

fun pt_decoded :: "pt \<Rightarrow> pval \<Rightarrow> pval option" where
  "pt_decoded (Base b) v = base_decoded b v"
| "pt_decoded (Enumeration b nm es) v =
     (case v of
        VStr k \<Rightarrow>
          (case dget es k of
             None \<Rightarrow> None
           | Some i \<Rightarrow>
               if base_is_int b \<and> wire_range i
               then Some (VStr (case dget (reverse_enums es) (as_read b i) of None \<Rightarrow> CHR ''?'' # str_int (as_read b i) | Some k' \<Rightarrow> k'))
               else None)
      | _ \<Rightarrow> None)"

lemma base_dec_enc:
  assumes "base_decoded b v = Some w"
  shows "\<exists>bs. base_encode b v = Inr bs \<and>
    (\<forall>pre post. base_parse b (pre @ bs @ post) (length pre) = Inr (w, length pre + length bs))"
proof (cases v)
  case (VInt i)
  with assms have "base_is_int b" "wire_range i" "w = VInt (as_read b i)" by (simp_all split: if_splits)
  then show ?thesis
    using vlq_roundtrip [of i "base_signed b"]
    by (auto simp: VInt as_read_def wire_range_def)
next
  case (VBytes bs)
  with assms show ?thesis by (auto simp: nth_res_def nth_append split: if_splits)
qed (use assms in simp)

lemma pt_dec_enc:
  assumes "pt_decoded t v = Some w"
  shows "\<exists>bs. pt_encode t v = Inr bs \<and>
    (\<forall>pre post. pt_parse t (pre @ bs @ post) (length pre) = Inr (w, length pre + length bs))"
proof (cases t)
  case (Base b)
  with assms base_dec_enc [of b v w] show ?thesis by (simp del: base_encode.simps base_parse.simps)
next
  case (Enumeration b nm es)
  with assms obtain k i where k: "v = VStr k" "dget es k = Some i" "base_decoded b (VInt i) = Some (VInt (as_read b i))"
    "w = VStr (case dget (reverse_enums es) (as_read b i) of None \<Rightarrow> CHR ''?'' # str_int (as_read b i) | Some k' \<Rightarrow> k')"
    by (auto split: pval.splits option.splits if_splits)
  from base_dec_enc [OF k(3)] k(1,2,4) show ?thesis
    by (auto simp: Enumeration simp del: base_encode.simps base_parse.simps split: option.splits)
qed

interpretation parameters: codec pt_encode pt_parse pt_decoded
  by unfold_locales (rule pt_dec_enc)

text \<open>The same contract when the value is found under the parameter's name.\<close>

interpretation named: codec
    "\<lambda>t name. rbind (res_of KeyError (dget params name)) (pt_encode t)" pt_parse
    "\<lambda>t name. Option.bind (dget params name) (pt_decoded t)" for params
  by unfold_locales (auto simp: bind_eq_Some_conv intro: pt_dec_enc)

text \<open>Or at the parameter's position.\<close>

interpretation positional: codec
    "\<lambda>t i. rbind (nth_res params i) (pt_encode t)" pt_parse
    "\<lambda>t i. if i < length params then pt_decoded t (params ! i) else None" for params
  by unfold_locales (auto simp: nth_res_def split: if_splits intro: pt_dec_enc)

lemma reverse_enums_distinct:
  assumes "distinct (map snd es)" "(k, i) \<in> set es"
  shows "dget (reverse_enums es) i = Some k"
proof -
  have keys: "map fst (map (\<lambda>(k, v). (v, k)) es) = map snd es" by (induction es) auto
  then have "reverse_enums es = map (\<lambda>(k, v). (v, k)) es"
    unfolding reverse_enums_def using assms(1) by (intro dict_of_distinct) (simp only: keys)
  moreover have "(i, k) \<in> set (map (\<lambda>(k, v). (v, k)) es)" using assms(2) by force
  ultimately show ?thesis
    using assms(1) keys by (metis map_of_is_SomeI)
qed

text \<open>An enumeration whose values differ reads back as the name that was sent.\<close>

lemma enumeration_decoded:
  assumes "distinct (map snd es)" "dget es k = Some i" "base_is_int b" "wire_range i" "as_read b i = i"
  shows "pt_decoded (Enumeration b nm es) (VStr k) = Some (VStr k)"
  using assms reverse_enums_distinct [of es k i] map_of_SomeD [of es k i] by simp

text \<open>What a whole message reads as: the table of its parameters.\<close>

definition mf_decoded :: "message_format \<Rightarrow> (string, pval) dict \<Rightarrow> (string, pval) dict option" where
  "mf_decoded mf params =
     those (map (\<lambda>(name, t). map_option (Pair name) (Option.bind (dget params name) (pt_decoded t))) (mf_params mf))"

lemma those_map_SomeD: "those (map f xs) = Some ys \<Longrightarrow> list_all2 (\<lambda>x y. f x = Some y) xs ys"
  by (induction xs arbitrary: ys) (auto split: option.splits)

lemma mf_decoded_list_all2:
  assumes "mf_decoded mf params = Some res"
  shows "list_all2 (\<lambda>(t, name) w. Option.bind (dget params name) (pt_decoded t) = Some w)
      (map (\<lambda>(name, t). (t, name)) (mf_params mf)) (map snd res)"
    and "map fst res = map fst (mf_params mf)"
proof -
  have *: "list_all2 (\<lambda>p r. (case p of (name, t) \<Rightarrow> map_option (Pair name) (Option.bind (dget params name) (pt_decoded t))) = Some r)
      (mf_params mf) res"
    using those_map_SomeD [OF assms [unfolded mf_decoded_def]] .
  then show "list_all2 (\<lambda>(t, name) w. Option.bind (dget params name) (pt_decoded t) = Some w)
      (map (\<lambda>(name, t). (t, name)) (mf_params mf)) (map snd res)"
    unfolding list_all2_map1 list_all2_map2 by (rule list_all2_mono) (auto split: prod.splits)
  show "map fst res = map fst (mf_params mf)"
    using * by (induction rule: list_all2_induct) auto
qed

lemma mf_roundtrip:
  assumes "mf_decoded mf params = Some res" "distinct (map fst (mf_params mf))"
  shows "\<exists>bs. mf_encode_by_name mf params = Inr (mf_msgid mf # bs) \<and>
    (\<forall>pre post. mf_parse mf (pre @ (mf_msgid mf # bs) @ post) (length pre) = Inr (res, length pre + Suc (length bs)))"
proof -
  let ?tvs = "map (\<lambda>(name, t). (t, name)) (mf_params mf)"
  have types: "map fst ?tvs = mf_types mf" by (simp add: mf_types_def case_prod_beta)
  obtain bs where bs: "mf_encode_by_name mf params = Inr ([mf_msgid mf] @ bs)"
    "\<And>pre post. seq_parse pt_parse (mf_types mf) (pre @ bs @ post) (length pre) = Inr (map snd res, length pre + length bs)"
    using named.seq_roundtrip [OF mf_decoded_list_all2(1) [OF assms(1)], of "[mf_msgid mf]"] types
    unfolding mf_encode_by_name_def by auto
  have "zip (map fst (mf_params mf)) (map snd res) = res"
    using mf_decoded_list_all2(2) [OF assms(1)] by (metis zip_map_fst_snd)
  moreover have "dict_of res = res"
    using assms(2) mf_decoded_list_all2(2) [OF assms(1)] by (simp add: dict_of_distinct)
  ultimately have "mf_parse mf (pre @ (mf_msgid mf # bs) @ post) (length pre) =
      Inr (res, length pre + Suc (length bs))" for pre post
    using bs(2) [of "pre @ [mf_msgid mf]" post] by (simp add: mf_parse_def)
  with bs(1) show ?thesis by auto
qed

subsection \<open>Sizes\<close>

fun base_in_range :: "base_pt \<Rightarrow> int \<Rightarrow> bool" where
  "base_in_range PT_uint32 i = (0 \<le> i \<and> i < 2 ^ 32)"
| "base_in_range PT_int32 i = (- (2 ^ 31) \<le> i \<and> i < 2 ^ 31)"
| "base_in_range PT_uint16 i = (0 \<le> i \<and> i < 2 ^ 16)"
| "base_in_range PT_int16 i = (- (2 ^ 15) \<le> i \<and> i < 2 ^ 15)"
| "base_in_range PT_byte i = (0 \<le> i \<and> i < 2 ^ 8)"
| "base_in_range _ i = False"

lemma base_in_range_wire:
  "base_in_range b i \<Longrightarrow> wire_range i \<and> base_is_int b \<and> as_read b i = i"
  by (cases b) (auto simp: wire_range_def as_read_def)

lemma vlq_length_max: "base_in_range b i \<Longrightarrow> vlq_length i \<le> base_max_length b"
  by (cases b) (auto simp: vlq_length_def)

end
