(* ===== verification/MsgParser.thy ===== *)
theory MsgParser
  imports MsgProto
begin

unbundle bit_operations_syntax

text \<open>
  \<open>MessageParser\<close> of \<open>klippy/msgproto.py\<close>: the message dictionary, built at start-up from
  \<open>DefaultMessages\<close> and then from the micro-controller's identify data, and the operations that
  look messages up, build commands and read responses.

  The identify data is a JSON value (\<open>zlib\<close> and \<open>json\<close> are third party, so it enters decoded).
  The state of a parser after an exception escaped from it is not modelled: the callers give the
  connection up. Where the code wraps an unexpected exception, the model keeps the code's own
  text without the text of that exception.
\<close>

section \<open>JSON values\<close>

text \<open>Numbers that are not integers keep their text.\<close>

datatype json =
    JNull | JBool bool | JInt int | JReal string | JStr string
  | JArr "json list" | JObj "(string \<times> json) list"

fun json_obj :: "json \<Rightarrow> (string, json) dict res" where
  "json_obj (JObj d) = Inr (dict_of d)"
| "json_obj _ = Inl TypeError"

fun json_int :: "json \<Rightarrow> int res" where
  "json_int (JInt i) = Inr i"
| "json_int _ = Inl TypeError"

fun json_arr :: "json \<Rightarrow> json list res" where
  "json_arr (JArr l) = Inr l"
| "json_arr _ = Inl TypeError"

section \<open>State\<close>

record mparser =
  warn_prefix :: string
  enumerations :: enums_table
  messages :: "(int \<times> string \<times> string) list"
  messages_by_id :: "(int, msgfmt) dict"
  messages_by_name :: "(string, message_format) dict"
  config :: "(string, json) dict"
  version :: json
  build_versions :: json
  raw_identify_data :: json

definition DefaultMessages :: "(string, int) dict" where
  "DefaultMessages =
     [(''identify_response offset=%u data=%.*s'', 0), (''identify offset=%u count=%c'', 1)]"

definition mp_error :: "mparser \<Rightarrow> string \<Rightarrow> exc" where
  "mp_error p m = AppError (warn_prefix p @ m)"

text \<open>\<open>except error: raise\<close>, any other exception is reported under the parser's own text.\<close>

definition wrap_error :: "mparser \<Rightarrow> string \<Rightarrow> 'a res \<Rightarrow> 'a res" where
  "wrap_error p m r =
     (case r of
        Inr x \<Rightarrow> Inr x
      | Inl (AppError e) \<Rightarrow> Inl (AppError e)
      | Inl _ \<Rightarrow> Inl (mp_error p m))"

section \<open>Building the dictionary\<close>

definition init_message ::
  "int list \<Rightarrow> int list \<Rightarrow> mparser \<Rightarrow> string \<times> int \<Rightarrow> mparser res" where
  "init_message command_tags output_tags p = (\<lambda>(msgformat, msgtag).
     let msgtype = (if msgtag \<in> set command_tags then ''command''
                    else if msgtag \<in> set output_tags then ''output'' else ''response'');
         p1 = p\<lparr>messages := messages p @ [(msgtag, msgtype, msgformat)]\<rparr>;
         msgid = msgtag AND 0x7f
     in if msgtag < -32 \<or> msgtag > 95 then Inl (mp_error p ''Multi-byte msgtag not supported'')
        else if msgtype = ''output'' then
          rbind (new_output_format msgid msgformat) (\<lambda>f.
            Inr (p1\<lparr>messages_by_id := dset msgid (FOutput f) (messages_by_id p1)\<rparr>))
        else
          rbind (new_message_format msgid msgformat (enumerations p)) (\<lambda>msg.
            Inr (p1\<lparr>messages_by_id := dset msgid (FMessage msg) (messages_by_id p1),
                    messages_by_name := dset (mf_name msg) msg (messages_by_name p1)\<rparr>)))"

definition init_messages ::
  "(string, int) dict \<Rightarrow> int list \<Rightarrow> int list \<Rightarrow> mparser \<Rightarrow> mparser res" where
  "init_messages msgs command_tags output_tags p = rfold (init_message command_tags output_tags) p msgs"

definition new_parser :: "string \<Rightarrow> mparser res" where
  "new_parser prefix =
     init_messages DefaultMessages [] []
       \<lparr>warn_prefix = prefix, enumerations = [], messages = [], messages_by_id = [],
        messages_by_name = [], config = [], version = JStr [], build_versions = JStr [],
        raw_identify_data = JStr []\<rparr>"

fun strip_digits :: "string \<Rightarrow> string" where
  "strip_digits s = rev (dropWhile is_digit (rev s))"

definition fill_enum :: "(string, int) dict \<Rightarrow> string \<times> json \<Rightarrow> (string, int) dict res" where
  "fill_enum enums = (\<lambda>(enum, value).
     case value of
       JInt v \<Rightarrow> Inr (dset enum v enums)
     | _ \<Rightarrow>
       let enum_root = strip_digits enum in
       rbind (if length enum_root \<noteq> length enum
              then res_of ValueError (parse_int 10 (drop (length enum_root) enum)) else Inr 0) (\<lambda>start_enum.
       rbind (json_arr value) (\<lambda>l.
       case l of
         [sv, cnt] \<Rightarrow>
           rbind (json_int cnt) (\<lambda>count.
           if count \<le> 0 then Inr enums
           else rbind (json_int sv) (\<lambda>start_value.
             Inr (foldl (\<lambda>es i. dset (enum_root @ str_int (start_enum + i)) (start_value + i) es)
                    enums [0..count - 1])))
       | _ \<Rightarrow> Inl ValueError)))"

definition fill_enumerations :: "(string, json) dict \<Rightarrow> mparser \<Rightarrow> mparser res" where
  "fill_enumerations ens p =
     rfold (\<lambda>p (add_name, add_enums).
       let enums = dget_or (enumerations p) add_name [] in
       rbind (json_obj add_enums) (\<lambda>d.
       rbind (rfold fill_enum enums d) (\<lambda>enums'.
         Inr (p\<lparr>enumerations := dset add_name enums' (enumerations p)\<rparr>)))) p ens"

definition message_tags :: "json option \<Rightarrow> (string, int) dict res" where
  "message_tags j =
     (case j of None \<Rightarrow> Inl TypeError
      | Some v \<Rightarrow> rbind (json_obj v) (rmap (\<lambda>(k, t). rbind (json_int t) (\<lambda>i. Inr (k, i)))))"

definition process_identify :: "json \<Rightarrow> mparser \<Rightarrow> mparser res" where
  "process_identify data p =
     wrap_error p ''Error during identify: '' (
       let p1 = p\<lparr>raw_identify_data := data\<rparr> in
       rbind (json_obj data) (\<lambda>d.
       rbind (json_obj (dget_or d ''enumerations'' (JObj []))) (\<lambda>ens.
       rbind (fill_enumerations ens p1) (\<lambda>p2.
       rbind (message_tags (dget d ''commands'')) (\<lambda>commands.
       rbind (message_tags (dget d ''responses'')) (\<lambda>responses.
       rbind (message_tags (Some (dget_or d ''output'' (JObj [])))) (\<lambda>output.
       let all_messages = dset_all output (dset_all responses commands) in
       rbind (init_messages all_messages (dvals commands) (dvals output) p2) (\<lambda>p3.
       rbind (json_obj (dget_or d ''config'' (JObj []))) (\<lambda>cfg.
         Inr (p3\<lparr>config := dset_all cfg (config p3),
                 version := dget_or d ''version'' (JStr []),
                 build_versions := dget_or d ''build_versions'' (JStr [])\<rparr>))))))))))"

section \<open>Reading messages\<close>

definition parser_mid :: "mparser \<Rightarrow> int \<Rightarrow> msgfmt" where
  "parser_mid p msgid = dget_or (messages_by_id p) msgid FUnknown"

definition parser_parse :: "mparser \<Rightarrow> int list \<Rightarrow> (string, pval) dict res" where
  "parser_parse p s =
     rbind (nth_res s MESSAGE_HEADER_SIZE) (\<lambda>msgid.
     let mid = parser_mid p msgid in
     rbind (msgfmt_parse mid s MESSAGE_HEADER_SIZE) (\<lambda>(params, pos).
       if int pos \<noteq> int (length s) - int MESSAGE_TRAILER_SIZE
       then Inl (mp_error p ''Extra data at end of message'')
       else Inr (dset ''#name'' (VStr (msgfmt_name mid)) params)))"

text \<open>\<open>'%02x' % (msgseq,)\<close>\<close>

definition hex02 :: "int \<Rightarrow> string" where
  "hex02 n = [hex_lower (nat n div 16), hex_lower (nat n mod 16)]"

lemma vlq_loop_pos: "vlq_loop s pos c v = Inr (v', pos') \<Longrightarrow> pos \<le> pos'"
proof (induction s pos c v rule: vlq_loop.induct)
  case (1 s pos c v)
  from 1(2) show ?case
    by (subst (asm) vlq_loop.simps) (auto split: if_splits dest: 1(1))
qed

lemma base_parse_pos: "base_parse b s pos = Inr (v, pos') \<Longrightarrow> pos < pos'"
  by (auto simp: vlq_parse_def rbind_eq_Inr Let_def split: if_splits dest!: vlq_loop_pos)

lemma pt_parse_pos: "pt_parse t s pos = Inr (v, pos') \<Longrightarrow> pos < pos'"
proof (cases t)
  case (Enumeration b nm es)
  assume "pt_parse t s pos = Inr (v, pos')"
  then obtain w p where wp: "base_parse b s pos = Inr (w, p)" and
    "(case w of VInt i \<Rightarrow> (case dget (reverse_enums es) i of None \<Rightarrow> Inr (VStr (CHR ''?'' # str_int i), p)
        | Some k \<Rightarrow> Inr (VStr k, p)) | _ \<Rightarrow> Inl TypeError) = Inr (v, pos')"
    by (auto simp: Enumeration rbind_eq_Inr simp del: base_parse.simps)
  then have "p = pos'" by (cases w) (auto split: option.splits)
  with base_parse_pos [OF wp] show ?thesis by simp
qed (simp add: base_parse_pos del: base_parse.simps)

lemma seq_parse_pos:
  assumes "\<And>t s pos v pos'. dec t s pos = Inr (v, pos') \<Longrightarrow> pos < pos'"
  shows "seq_parse dec ts s pos = Inr (vs, pos') \<Longrightarrow> pos \<le> pos'"
  by (induction ts arbitrary: pos vs) (auto simp: rbind_eq_Inr dest!: assms intro: order.trans less_imp_le)

text \<open>Every message is at least one byte long, or the rest of the packet.\<close>

lemma msgfmt_parse_pos:
  assumes "msgfmt_parse mid s pos = Inr (params, pos')"
  shows "pos < pos' \<or> pos' = length s - MESSAGE_TRAILER_SIZE"
proof (cases mid)
  case (FMessage mf)
  with assms obtain vs where "seq_parse pt_parse (mf_types mf) s (pos + 1) = Inr (vs, pos')"
    by (auto simp: mf_parse_def rbind_eq_Inr)
  then have "pos + 1 \<le> pos'" by (rule seq_parse_pos [rotated]) (rule pt_parse_pos)
  then show ?thesis by simp
next
  case (FOutput f)
  with assms obtain vs where "seq_parse base_parse (of_types f) s (pos + 1) = Inr (vs, pos')"
    by (auto simp: of_parse_def rbind_eq_Inr)
  then have "pos + 1 \<le> pos'" by (rule seq_parse_pos [rotated]) (rule base_parse_pos)
  then show ?thesis by simp
next
  case FUnknown
  with assms show ?thesis by (auto simp: unknown_parse_def rbind_eq_Inr split: if_splits)
qed

function dump_loop :: "mparser \<Rightarrow> int list \<Rightarrow> nat \<Rightarrow> string list \<Rightarrow> string list res" where
  "dump_loop p s pos out =
     rbind (nth_res s pos) (\<lambda>msgid.
     let mid = parser_mid p msgid in
     (case msgfmt_parse mid s pos of
        Inl e \<Rightarrow> Inl e
      | Inr (params, pos') \<Rightarrow>
          rbind (msgfmt_format_params mid params) (\<lambda>line.
            if int pos' \<ge> int (length s) - int MESSAGE_TRAILER_SIZE then Inr (out @ [line])
            else dump_loop p s pos' (out @ [line]))))"
  by pat_completeness auto
termination
proof (relation "measure (\<lambda>(p, s, pos, out). length s - pos)", goal_cases)
  case (2 p s pos out msgid mid r params pos' line)
  then have "pos < length s" by (simp add: nth_res_Inr)
  moreover have "pos < pos'" using 2 msgfmt_parse_pos [of mid s pos params pos'] by auto
  ultimately show ?case by auto
qed simp

declare dump_loop.simps [simp del]

definition parser_dump :: "mparser \<Rightarrow> int list \<Rightarrow> string list res" where
  "parser_dump p s =
     rbind (nth_res s MESSAGE_POS_SEQ) (\<lambda>msgseq.
       dump_loop p s MESSAGE_HEADER_SIZE [''seq: '' @ hex02 msgseq])"

text \<open>\<open>py_str\<close> is Python's text of a dictionary, for a message no format is known for.\<close>

definition parser_format_params ::
  "((string, pval) dict \<Rightarrow> string) \<Rightarrow> mparser \<Rightarrow> (string, pval) dict \<Rightarrow> string res" where
  "parser_format_params py_str p params =
     (let name = dget params ''#name'' in
      case Option.bind name (\<lambda>v. case v of VStr n \<Rightarrow> dget (messages_by_name p) n | _ \<Rightarrow> None) of
        Some mf \<Rightarrow> mf_format_params mf params
      | None \<Rightarrow>
          (case dget params ''#msg'' of
             Some msg \<Rightarrow> Inr ((case name of None \<Rightarrow> ''None'' | Some n \<Rightarrow> pval_text n) @ '' '' @ pval_text msg)
           | None \<Rightarrow> Inr (py_str params)))"

section \<open>Building commands\<close>

definition parse_buffer :: "string \<Rightarrow> int list res" where
  "parse_buffer value =
     (if value = [] then Inr []
      else rbind (res_of ValueError (parse_int 16 value)) (\<lambda>tval.
        Inr (rev (map (\<lambda>i. drop_bit (8 * i) tval AND 0xff) [0..<length value div 2]))))"

definition lookup_command :: "mparser \<Rightarrow> string \<Rightarrow> message_format res" where
  "lookup_command p msgformat =
     rbind (nth_res (split_ws (strip msgformat)) 0) (\<lambda>msgname.
     case dget (messages_by_name p) msgname of
       None \<Rightarrow> Inl (mp_error p (''Unknown command: '' @ msgname))
     | Some mp \<Rightarrow>
         if msgformat \<noteq> mf_msgformat mp
         then Inl (mp_error p (''Command format mismatch: '' @ msgformat @ '' vs '' @ mf_msgformat mp))
         else Inr mp)"

definition command_value :: "message_format \<Rightarrow> string \<times> string \<Rightarrow> (string \<times> pval) res" where
  "command_value mp = (\<lambda>(name, value).
     rbind (res_of KeyError (dget (mf_name_to_type mp) name)) (\<lambda>t.
     if pt_is_dynamic_string t then rbind (parse_buffer value) (\<lambda>bs. Inr (name, VBytes bs))
     else if pt_is_int t then rbind (res_of ValueError (parse_int 0 value)) (\<lambda>i. Inr (name, VInt i))
     else Inr (name, VStr value)))"

definition command_args :: "message_format \<Rightarrow> string list \<Rightarrow> (string, pval) dict res" where
  "command_args mp args =
     rbind (rmap (\<lambda>arg. case split_once (CHR ''='') arg of
         [k, v] \<Rightarrow> Inr (k, v) | _ \<Rightarrow> Inl ValueError) args) (\<lambda>kvs.
     rmap (command_value mp) (dict_of kvs))"

definition create_command :: "mparser \<Rightarrow> string \<Rightarrow> int list res" where
  "create_command p msg =
     (case split_ws (strip msg) of
        [] \<Rightarrow> Inr []
      | msgname # args \<Rightarrow>
          (case dget (messages_by_name p) msgname of
             None \<Rightarrow> Inl (mp_error p (''Unknown command: '' @ msgname))
           | Some mp \<Rightarrow>
               rbind (wrap_error p (''Unable to extract params from: '' @ msgname) (command_args mp args))
                 (\<lambda>argparts. wrap_error p (''Unable to encode: '' @ msgname) (mf_encode_by_name mp argparts))))"

section \<open>Constants of the firmware\<close>

definition get_constant ::
  "(json \<Rightarrow> string) \<Rightarrow> (json \<Rightarrow> 'a res) \<Rightarrow> mparser \<Rightarrow> string \<Rightarrow> 'a option \<Rightarrow> 'a res" where
  "get_constant py_str parser p name dflt =
     (case dget (config p) name of
        None \<Rightarrow> (case dflt of
            Some d \<Rightarrow> Inr d
          | None \<Rightarrow> Inl (mp_error p (''Firmware constant '' @ quoted name @ '' not found'')))
      | Some v \<Rightarrow> (case parser v of
            Inr x \<Rightarrow> Inr x
          | Inl _ \<Rightarrow> Inl (mp_error p (''Unable to parse firmware constant '' @ name @ '': '' @ py_str v))))"

text \<open>\<open>trunc\<close> is the truncation of a number that is not an integer, from its text.\<close>

fun json_to_int :: "(string \<Rightarrow> int) \<Rightarrow> json \<Rightarrow> int res" where
  "json_to_int trunc (JInt i) = Inr i"
| "json_to_int trunc (JReal r) = Inr (trunc r)"
| "json_to_int trunc (JStr s) = res_of ValueError (parse_int 10 s)"
| "json_to_int trunc (JBool b) = Inr (if b then 1 else 0)"
| "json_to_int trunc _ = Inl TypeError"

definition get_constant_int :: "(json \<Rightarrow> string) \<Rightarrow> (string \<Rightarrow> int) \<Rightarrow> mparser \<Rightarrow> string \<Rightarrow> int option \<Rightarrow> int res" where
  "get_constant_int py_str trunc p name dflt = get_constant py_str (json_to_int trunc) p name dflt"

section \<open>The dictionary is well formed\<close>

fun msgfmt_id :: "msgfmt \<Rightarrow> int option" where
  "msgfmt_id (FMessage mf) = Some (mf_msgid mf)"
| "msgfmt_id (FOutput f) = Some (of_msgid f)"
| "msgfmt_id FUnknown = None"

definition parser_wf :: "mparser \<Rightarrow> bool" where
  "parser_wf p \<longleftrightarrow>
     dwf (messages_by_id p) \<and> dwf (messages_by_name p) \<and>
     (\<forall>(k, f) \<in> set (messages_by_id p). 0 \<le> k \<and> k < 128 \<and> msgfmt_id f = Some k) \<and>
     (\<forall>(n, mf) \<in> set (messages_by_name p). mf_name mf = n \<and> 0 \<le> mf_msgid mf \<and> mf_msgid mf < 128 \<and>
        (\<exists>rest. split_ws (mf_msgformat mf) = n # rest))"

lemma new_message_format_Inr:
  "new_message_format i f en = Inr mf \<Longrightarrow>
    mf_msgid mf = i \<and> mf_msgformat mf = f \<and> (\<exists>rest. split_ws f = mf_name mf # rest) \<and>
    lookup_params f en = Inr (mf_params mf)"
  by (cases "split_ws f") (auto simp: new_message_format_def rbind_eq_Inr nth_res_def)

lemma new_output_format_Inr: "new_output_format i f = Inr mf \<Longrightarrow> of_msgid mf = i \<and> of_msgformat mf = f"
  by (auto simp: new_output_format_def rbind_eq_Inr)

text \<open>One message: what a successful step registered.\<close>

lemma init_message_cases:
  assumes "init_message ct ot p (f, tag) = Inr p'"
  obtains (otext) g where "tag \<in> set ot" "tag \<notin> set ct" "new_output_format (tag AND 0x7f) f = Inr g"
      "messages_by_id p' = dset (tag AND 0x7f) (FOutput g) (messages_by_id p)"
      "messages_by_name p' = messages_by_name p" "enumerations p' = enumerations p"
  | (mtext) mf where "tag \<in> set ct \<or> tag \<notin> set ot" "new_message_format (tag AND 0x7f) f (enumerations p) = Inr mf"
      "messages_by_id p' = dset (tag AND 0x7f) (FMessage mf) (messages_by_id p)"
      "messages_by_name p' = dset (mf_name mf) mf (messages_by_name p)" "enumerations p' = enumerations p"
  using assms
  by (auto simp: init_message_def Let_def rbind_eq_Inr split: if_splits)

lemma parser_wf_by_id:
  assumes "parser_wf p" "messages_by_id p' = dset k f (messages_by_id p)" "messages_by_name p' = messages_by_name p"
    "0 \<le> k" "k < 128" "msgfmt_id f = Some k"
  shows "parser_wf p'"
  using assms unfolding parser_wf_def by (auto dest!: subsetD [OF set_dset_subset])

lemma parser_wf_by_name:
  assumes "parser_wf p" "messages_by_id p' = messages_by_id p" "messages_by_name p' = dset n mf (messages_by_name p)"
    "mf_name mf = n" "0 \<le> mf_msgid mf" "mf_msgid mf < 128" "split_ws (mf_msgformat mf) = n # rest"
  shows "parser_wf p'"
  using assms unfolding parser_wf_def by (auto dest!: subsetD [OF set_dset_subset])

lemma init_message_wf [inv_intros]:
  assumes "init_message ct ot p x = Inr p'" "parser_wf p"
  shows "parser_wf p'"
proof -
  obtain f tag where x: "x = (f, tag)" by (cases x)
  have k: "0 \<le> tag AND 0x7f" "tag AND 0x7f < 128" by (simp_all add: and_0x7f)
  from assms(1) [unfolded x] show ?thesis
  proof (cases rule: init_message_cases)
    case (otext g)
    with new_output_format_Inr k assms(2) show ?thesis by (intro parser_wf_by_id [of p p' "tag AND 0x7f" "FOutput g"]) auto
  next
    case (mtext mf)
    note mf = new_message_format_Inr [OF mtext(2)]
    let ?q = "p\<lparr>messages_by_id := dset (tag AND 0x7f) (FMessage mf) (messages_by_id p)\<rparr>"
    have "parser_wf ?q"
      using mf k by (intro parser_wf_by_id [OF assms(2), of ?q "tag AND 0x7f" "FMessage mf"]) auto
    with mf k mtext(3,4) show ?thesis by (auto intro: parser_wf_by_name [of ?q p'])
  qed
qed

lemma init_messages_wf: "init_messages msgs ct ot p = Inr p' \<Longrightarrow> parser_wf p \<Longrightarrow> parser_wf p'"
  unfolding init_messages_def by (erule rfold_invariant) (auto intro: init_message_wf)

lemma fill_enumerations_same:
  assumes "fill_enumerations ens p = Inr p'"
  shows "messages_by_id p' = messages_by_id p" "messages_by_name p' = messages_by_name p"
proof -
  have "messages_by_id p' = messages_by_id p \<and> messages_by_name p' = messages_by_name p"
    using assms unfolding fill_enumerations_def
    by (rule rfold_invariant) (auto simp: Let_def rbind_eq_Inr)
  then show "messages_by_id p' = messages_by_id p" "messages_by_name p' = messages_by_name p" by simp_all
qed

lemma wrap_error_Inr: "wrap_error p m r = Inr x \<longleftrightarrow> r = Inr x"
  by (auto simp: wrap_error_def split: sum.splits exc.splits)

text \<open>The tables of the identify data, and what a successful identify did with them.\<close>

definition identify_tags :: "json \<Rightarrow> (string, int) dict \<times> int list \<times> int list" where
  "identify_tags data =
     (case rbind (json_obj data) (\<lambda>d.
        rbind (message_tags (dget d ''commands'')) (\<lambda>commands.
        rbind (message_tags (dget d ''responses'')) (\<lambda>responses.
        rbind (message_tags (Some (dget_or d ''output'' (JObj [])))) (\<lambda>output.
          Inr (dset_all output (dset_all responses commands), dvals commands, dvals output))))) of
        Inl e \<Rightarrow> ([], [], []) | Inr r \<Rightarrow> r)"

lemma process_identify_Inr:
  assumes "process_identify data p = Inr p'"
  obtains msgs ct ot ens p2 p3 where "identify_tags data = (msgs, ct, ot)"
    "fill_enumerations ens (p\<lparr>raw_identify_data := data\<rparr>) = Inr p2" "init_messages msgs ct ot p2 = Inr p3"
    "messages_by_id p' = messages_by_id p3" "messages_by_name p' = messages_by_name p3"
  using assms unfolding process_identify_def wrap_error_Inr identify_tags_def
  by (auto simp: Let_def rbind_eq_Inr)

lemma process_identify_keeps_wf:
  assumes "process_identify data p = Inr p'" "parser_wf p"
  shows "parser_wf p'"
  using assms(1)
proof (rule process_identify_Inr)
  fix msgs ct ot ens p2 p3
  assume *: "fill_enumerations ens (p\<lparr>raw_identify_data := data\<rparr>) = Inr p2" "init_messages msgs ct ot p2 = Inr p3"
    "messages_by_id p' = messages_by_id p3" "messages_by_name p' = messages_by_name p3"
  have "parser_wf p2" using assms(2) fill_enumerations_same [OF *(1)] by (simp add: parser_wf_def)
  with *(2) have "parser_wf p3" by (rule init_messages_wf)
  with *(3,4) show ?thesis by (simp add: parser_wf_def)
qed

lemma new_parser_wf: "new_parser w = Inr p \<Longrightarrow> parser_wf p"
  unfolding new_parser_def by (erule init_messages_wf) (simp add: parser_wf_def)

section \<open>A tag leads to its message\<close>

text \<open>
  When every tag belongs to one message, the format a command is sent with is the one its bytes
  are read with. \<open>owner\<close> gives the message a tag belongs to, \<open>None\<close> for an output format.
\<close>

definition routed :: "(int \<Rightarrow> string option) \<Rightarrow> mparser \<Rightarrow> bool" where
  "routed owner p \<longleftrightarrow>
     (\<forall>n mf. dget (messages_by_name p) n = Some mf \<longrightarrow>
        owner (mf_msgid mf) = Some n \<and> dget (messages_by_id p) (mf_msgid mf) = Some (FMessage mf))"

definition tag_owner :: "int list \<Rightarrow> int list \<Rightarrow> string \<times> int \<Rightarrow> string option" where
  "tag_owner ct ot = (\<lambda>(f, tag).
     if tag \<in> set ot \<and> tag \<notin> set ct then None else Some (hd (split_ws f)))"

lemma init_message_routed:
  assumes "init_message ct ot p (f, tag) = Inr p'" "routed owner p" "owner (tag AND 0x7f) = tag_owner ct ot (f, tag)"
  shows "routed owner p'"
  using assms(1)
proof (cases rule: init_message_cases)
  case (otext g)
  with assms(2,3) show ?thesis by (force simp: routed_def tag_owner_def)
next
  case (mtext mf)
  note mf = new_message_format_Inr [OF mtext(2)]
  have own: "owner (tag AND 0x7f) = Some (mf_name mf)"
    using assms(3) mtext(1) mf by (auto simp: tag_owner_def)
  show ?thesis
    unfolding routed_def
  proof (intro allI impI)
    fix n mf'
    assume n: "dget (messages_by_name p') n = Some mf'"
    show "owner (mf_msgid mf') = Some n \<and> dget (messages_by_id p') (mf_msgid mf') = Some (FMessage mf')"
    proof (cases "n = mf_name mf")
      case True
      with n mf own mtext(3,4) show ?thesis by simp
    next
      case False
      with n mtext(4) assms(2) have "owner (mf_msgid mf') = Some n" "dget (messages_by_id p) (mf_msgid mf') = Some (FMessage mf')"
        by (simp_all add: routed_def)
      with False own mtext(3) show ?thesis by auto
    qed
  qed
qed

lemma init_messages_routed:
  assumes "init_messages msgs ct ot p = Inr p'" "routed owner p"
    "\<And>f tag. (f, tag) \<in> set msgs \<Longrightarrow> owner (tag AND 0x7f) = tag_owner ct ot (f, tag)"
  shows "routed owner p'"
  using assms(1) unfolding init_messages_def
  by (rule rfold_invariant) (use assms(2,3) init_message_routed in \<open>fastforce+\<close>)

lemma process_identify_routed:
  assumes "process_identify data p = Inr p'" "routed owner p"
    "identify_tags data = (msgs, ct, ot)"
    "\<And>f tag. (f, tag) \<in> set msgs \<Longrightarrow> owner (tag AND 0x7f) = tag_owner ct ot (f, tag)"
  shows "routed owner p'"
  using assms(1)
proof (rule process_identify_Inr)
  fix msgs' ct' ot' ens p2 p3
  assume *: "identify_tags data = (msgs', ct', ot')" "fill_enumerations ens (p\<lparr>raw_identify_data := data\<rparr>) = Inr p2" 
    "init_messages msgs' ct' ot' p2 = Inr p3"
    "messages_by_id p' = messages_by_id p3" "messages_by_name p' = messages_by_name p3"
  have "routed owner p2" using assms(2) fill_enumerations_same [OF *(2)] by (simp add: routed_def)
  with *(1,3) assms(3,4) have "routed owner p3" by (auto intro: init_messages_routed)
  with *(4,5) show ?thesis by (simp add: routed_def)
qed

lemma routed_command:
  assumes "routed owner p" "dget (messages_by_name p) n = Some mf" "parser_wf p"
    "mf_decoded mf params = Some res" "distinct (map fst (mf_params mf))"
  shows "\<exists>bs. mf_encode_by_name mf params = Inr bs \<and>
    (\<forall>seq. parser_parse p (mp_encode seq bs) = Inr (dset ''#name'' (VStr n) res))"
proof -
  from mf_roundtrip [OF assms(4,5)] obtain bs where bs: "mf_encode_by_name mf params = Inr (mf_msgid mf # bs)"
    "\<And>pre post. mf_parse mf (pre @ (mf_msgid mf # bs) @ post) (length pre) = Inr (res, length pre + Suc (length bs))"
    by auto
  have name: "mf_name mf = n"
    using assms(2,3) map_of_SomeD [OF assms(2)] by (auto simp: parser_wf_def)
  have id: "parser_mid p (mf_msgid mf) = FMessage mf"
    using assms(1,2) by (simp add: routed_def parser_mid_def dget_or_def)
  have "parser_parse p (mp_encode seq (mf_msgid mf # bs)) = Inr (dset ''#name'' (VStr n) res)" for seq
  proof -
    let ?body = "[int (5 + length (mf_msgid mf # bs)), seq_byte seq] @ mf_msgid mf # bs"
    have s: "mp_encode seq (mf_msgid mf # bs) =
        [int (5 + length (mf_msgid mf # bs)), seq_byte seq] @ (mf_msgid mf # bs) @ (crc16_ccitt ?body @ [MESSAGE_SYNC])"
      by (simp add: mp_encode_sealed sealed_def)
    have "mf_parse mf (mp_encode seq (mf_msgid mf # bs)) 2 = Inr (res, 2 + Suc (length bs))"
      unfolding s using bs(2) [of "[int (5 + length (mf_msgid mf # bs)), seq_byte seq]"]
      by (simp add: numeral_2_eq_2)
    moreover have "nth_res (mp_encode seq (mf_msgid mf # bs)) 2 = Inr (mf_msgid mf)"
      unfolding s by (simp add: nth_res_def)
    ultimately show ?thesis
      by (simp add: parser_parse_def MESSAGE_HEADER_SIZE_def MESSAGE_TRAILER_SIZE_def id name)
  qed
  with bs(1) show ?thesis by blast
qed

section \<open>Ranges of an enumeration\<close>

lemma rev_dropWhile_digits: "\<not> (root \<noteq> [] \<and> is_digit (last root)) \<Longrightarrow> list_all is_digit ds \<Longrightarrow> strip_digits (root @ ds) = root"
proof -
  assume r: "\<not> (root \<noteq> [] \<and> is_digit (last root))" and d: "list_all is_digit ds"
  have "dropWhile is_digit (rev ds @ rev root) = dropWhile is_digit (rev root)"
    using d by (intro dropWhile_append2) (auto simp: list_all_iff)
  also have "\<dots> = rev root" using r by (cases root rule: rev_cases) auto
  finally show ?thesis by simp
qed

lemma foldl_dset_other:
  "k \<notin> key ` set is \<Longrightarrow> dget (foldl (\<lambda>es i. dset (key i) (val i) es) d is) k = dget d k"
  by (induction "is" arbitrary: d) auto

lemma foldl_dset_in:
  assumes "inj key" "i \<in> set is"
  shows "dget (foldl (\<lambda>es i. dset (key i) (val i) es) d is) (key i) = Some (val i)"
  using assms(2)
proof (induction "is" rule: rev_induct)
  case (snoc j js)
  have "key i = key j \<longleftrightarrow> i = j" by (rule inj_eq [OF assms(1)])
  with snoc show ?case by (cases "i = j") simp_all
qed simp

lemma str_int_inj: "str_int i = str_int j \<Longrightarrow> i = j"
  by (metis option.inject parse_int_str_int)

lemma str_int_nonneg: "0 \<le> i \<Longrightarrow> list_all is_digit (str_int i) \<and> str_int i \<noteq> []"
  unfolding str_int_def list_all_iff using str_nat_digit by simp

lemma fill_enum_range:
  assumes "root = [] \<or> \<not> is_digit (last root)" "0 \<le> start" "0 < count"
  shows "fill_enum es (root @ str_int start, JArr [JInt sv, JInt count]) =
    Inr (foldl (\<lambda>es i. dset (root @ str_int (start + i)) (sv + i) es) es [0..count - 1])"
proof -
  have s: "list_all is_digit (str_int start)" "str_int start \<noteq> []"
    using str_int_nonneg [OF assms(2)] by simp_all
  have "strip_digits (root @ str_int start) = root"
    using assms(1) s(1) by (intro rev_dropWhile_digits) auto
  with s(2) assms(3) show ?thesis
    by (simp add: fill_enum_def Let_def parse_int_str_int del: strip_digits.simps)
qed

lemma fill_enum_range_lookup:
  assumes "root = [] \<or> \<not> is_digit (last root)" "0 \<le> start" "0 < count"
    and es: "fill_enum es (root @ str_int start, JArr [JInt sv, JInt count]) = Inr es'"
  shows "0 \<le> i \<Longrightarrow> i < count \<Longrightarrow> dget es' (root @ str_int (start + i)) = Some (sv + i)"
    and "(\<And>i. 0 \<le> i \<Longrightarrow> i < count \<Longrightarrow> k \<noteq> root @ str_int (start + i)) \<Longrightarrow> dget es' k = dget es k"
proof -
  have es': "es' = foldl (\<lambda>es i. dset (root @ str_int (start + i)) (sv + i) es) es [0..count - 1]"
    using es fill_enum_range [OF assms(1-3)] by simp
  have inj: "inj (\<lambda>i. root @ str_int (start + i))"
    by (rule injI) (simp, drule str_int_inj, simp)
  show "dget es' (root @ str_int (start + i)) = Some (sv + i)" if "0 \<le> i" "i < count"
    using foldl_dset_in [OF inj, of i "[0..count - 1]" "\<lambda>i. sv + i" es] that unfolding es' by simp
  show "dget es' k = dget es k" if "\<And>i. 0 \<le> i \<Longrightarrow> i < count \<Longrightarrow> k \<noteq> root @ str_int (start + i)"
  proof -
    have "k \<noteq> root @ str_int (start + i)" if "i \<in> set [0..count - 1]" for i
      using that \<open>\<And>i. 0 \<le> i \<Longrightarrow> i < count \<Longrightarrow> k \<noteq> root @ str_int (start + i)\<close> [of i] by simp
    then show ?thesis unfolding es' by (intro foldl_dset_other) blast
  qed
qed

section \<open>Sizes\<close>

text \<open>A value that is in the range its type is named after.\<close>

fun pt_in_range :: "pt \<Rightarrow> pval \<Rightarrow> bool" where
  "pt_in_range (Base b) (VInt i) = base_in_range b i"
| "pt_in_range (Base b) (VBytes bs) = (\<not> base_is_int b \<and> list_all is_byte bs \<and> length bs < 64)"
| "pt_in_range (Enumeration b nm es) (VStr k) = (case dget es k of Some i \<Rightarrow> base_in_range b i | None \<Rightarrow> False)"
| "pt_in_range _ _ = False"

fun pt_max_length :: "pt \<Rightarrow> nat" where
  "pt_max_length (Base b) = base_max_length b"
| "pt_max_length (Enumeration b nm es) = base_max_length b"

lemma base_max_length_string: "\<not> base_is_int b \<Longrightarrow> base_max_length b = 64"
  by (cases b) auto

lemma base_in_range_is_int: "base_in_range b i \<Longrightarrow> base_is_int b"
  by (cases b) auto

lemma base_encode_max:
  "base_in_range b i \<Longrightarrow> \<exists>bs. base_encode b (VInt i) = Inr bs \<and> length bs \<le> base_max_length b"
  by (simp add: base_in_range_is_int length_vlq_encode vlq_length_max)

lemma pt_encode_max:
  assumes "pt_in_range t v"
  shows "\<exists>bs. pt_encode t v = Inr bs \<and> length bs \<le> pt_max_length t"
proof (cases t)
  case (Base b)
  with assms base_encode_max [of b] show ?thesis
    by (cases v) (simp_all add: base_max_length_string)
next
  case (Enumeration b nm es)
  with assms obtain k i where "v = VStr k" "dget es k = Some i" "base_in_range b i"
    by (cases v) (auto split: option.splits)
  with base_encode_max [of b i] show ?thesis by (simp add: Enumeration del: base_encode.simps)
qed

lemma seq_encode_max:
  "(\<And>t v. (t, v) \<in> set tvs \<Longrightarrow> \<exists>bs. enc t v = Inr bs \<and> length bs \<le> mx t) \<Longrightarrow>
    \<exists>bs. seq_encode enc out tvs = Inr bs \<and> length bs \<le> length out + sum_list (map (\<lambda>tv. mx (fst tv)) tvs)"
proof (induction tvs arbitrary: out)
  case (Cons tv tvs)
  obtain t v where tv: "tv = (t, v)" by (cases tv)
  obtain bs where bs: "enc t v = Inr bs" "length bs \<le> mx t" using Cons.prems [of t v] by (auto simp: tv)
  obtain cs where "seq_encode enc (out @ bs) tvs = Inr cs" "length cs \<le> length (out @ bs) + sum_list (map (\<lambda>tv. mx (fst tv)) tvs)"
    using Cons.IH [of "out @ bs"] Cons.prems by (meson list.set_intros(2))
  with bs show ?case by (auto simp: tv)
qed simp

section \<open>The text of a command\<close>

lemma digits_of_hd: "n \<noteq> 0 \<Longrightarrow> hd (digits_of 10 n) \<noteq> CHR ''0''"
proof (induction n rule: less_induct)
  case (less n)
  show ?case
  proof (cases "n < 10")
    case True
    have "hd (digits_of 10 n) = digit_char n" using True by (subst digits_of.simps) simp
    moreover have "ccode (digit_char n) = 48 + n" using True by (simp add: ccode_digit_char)
    ultimately show ?thesis using less.prems by auto
  next
    case False
    then have "digits_of 10 n = digits_of 10 (n div 10) @ [digit_char (n mod 10)]"
      by (subst digits_of.simps) simp
    with less.IH [of "n div 10"] False show ?thesis by (simp add: hd_append)
  qed
qed

lemma parse_nat_0_str_nat: "parse_nat 0 (str_nat n) = Some n"
proof -
  obtain c s where cs: "str_nat n = c # s" by (cases "str_nat n") auto
  have dec: "nat_of_digits 10 (str_nat n) = Some n"
    by (simp add: str_nat_def nat_of_digits_digits_of)
  have no: "\<not> startswith (str_nat n) [CHR ''0'', x]" if "\<not> is_digit x" for x
    using str_nat_digit [of x n] that cs by (auto simp: startswith_iff)
  have nd: "\<not> is_digit (CHR ''x'')" "\<not> is_digit (CHR ''X'')" "\<not> is_digit (CHR ''o'')" "\<not> is_digit (CHR ''O'')"
    "\<not> is_digit (CHR ''b'')" "\<not> is_digit (CHR ''B'')"
    by (simp_all add: is_digit_def)
  show ?thesis
  proof (cases "n = 0")
    case True
    with dec no nd show ?thesis by (simp add: parse_nat_def)
  next
    case False
    have "\<not> startswith (str_nat n) ''0''"
      using digits_of_hd [OF False] cs by (auto simp: startswith_iff str_nat_def)
    with dec no nd show ?thesis by (simp add: parse_nat_def)
  qed
qed

lemma str_int_no_space: "c \<in> set (str_int i) \<Longrightarrow> \<not> is_space c"
  using str_nat_no_space by (auto simp: str_int_def is_space_def [of "CHR ''-''"] split: if_splits)

lemma strip_no_space: "(\<And>c. c \<in> set s \<Longrightarrow> \<not> is_space c) \<Longrightarrow> strip s = s"
  by (rule strip_id) (cases "s = []"; simp)

lemma parse_int_0_str_int: "parse_int 0 (str_int i) = Some i"
proof -
  have s: "strip (str_int i) = str_int i" by (rule strip_no_space) (rule str_int_no_space)
  show ?thesis
  proof (cases "i < 0")
    case True
    with s show ?thesis by (simp add: parse_int_def str_int_def parse_nat_0_str_nat)
  next
    case False
    obtain c t where ct: "str_nat (nat i) = c # t" by (cases "str_nat (nat i)") auto
    then have "is_digit c" by (intro str_nat_digit [of _ "nat i"]) simp
    then have "c \<noteq> CHR ''-''" "c \<noteq> CHR ''+''" by (auto simp: is_digit_def)
    with s False ct parse_nat_0_str_nat [of "nat i"] show ?thesis by (simp add: parse_int_def str_int_def)
  qed
qed

subsection \<open>Buffers in hexadecimal\<close>

lemma byte_nibble: "is_byte b \<Longrightarrow> nat b div 16 < 16"
  by (simp add: is_byte_def div_less_iff_less_mult nat_less_iff)

definition hex_byte :: "int \<Rightarrow> string" where
  "hex_byte b = [digit_char (nat b div 16), digit_char (nat b mod 16)]"

definition hex_bytes :: "int list \<Rightarrow> string" where
  "hex_bytes bs = concat (map hex_byte bs)"

lemma length_hex_bytes [simp]: "length (hex_bytes bs) = 2 * length bs"
  by (induction bs) (simp_all add: hex_bytes_def hex_byte_def)

lemma digits_val_hex:
  "list_all is_byte bs \<Longrightarrow>
    digits_val 16 acc (hex_bytes bs) = Some (foldl (\<lambda>a b. a * 256 + nat b) acc bs)"
proof (induction bs arbitrary: acc)
  case (Cons b bs)
  then have b: "nat b div 16 < 16" by (simp add: byte_nibble)
  have "(acc * 16 + nat b div 16) * 16 + nat b mod 16 = acc * 256 + nat b"
    using div_mult_mod_eq [of "nat b" 16] by simp
  with Cons b show ?case
    by (simp add: hex_bytes_def hex_byte_def digit_char_not_underscore ac_simps)
qed (simp add: hex_bytes_def)

lemma nat_of_digits_hex:
  assumes "list_all is_byte bs" "bs \<noteq> []"
  shows "nat_of_digits 16 (hex_bytes bs) = Some (foldl (\<lambda>a b. a * 256 + nat b) 0 bs)"
proof -
  obtain b bs' where bs: "bs = b # bs'" using assms(2) by (cases bs) auto
  have "nat b div 16 < 16" using assms(1) by (simp add: bs byte_nibble)
  then have "nat_of_digits 16 (hex_bytes bs) = digits_val 16 0 (hex_bytes bs)"
    by (simp add: bs hex_bytes_def hex_byte_def nat_of_digits_def digit_char_not_underscore)
  with digits_val_hex [OF assms(1)] show ?thesis by simp
qed

lemma big_endian_bytes:
  "list_all is_byte bs \<Longrightarrow>
    rev (map (\<lambda>i. drop_bit (8 * i) (int (foldl (\<lambda>a b. a * 256 + nat b) 0 bs)) AND 255) [0..<length bs]) = bs"
proof (induction bs rule: rev_induct)
  case (snoc b bs)
  let ?v = "int (foldl (\<lambda>a b. a * 256 + nat b) 0 bs)"
  have b: "0 \<le> b" "b < 256" using snoc.prems by (simp_all add: is_byte_def)
  have v: "int (foldl (\<lambda>a b. a * 256 + nat b) 0 (bs @ [b])) = ?v * 256 + b"
    using b by simp
  have up: "drop_bit (8 * Suc i) (?v * 256 + b) = drop_bit (8 * i) ?v" for i
  proof -
    have "drop_bit (8 * i + 8) (?v * 256 + b) = drop_bit (8 * i) (drop_bit 8 (?v * 256 + b))"
      by (simp only: drop_bit_drop_bit)
    also have "drop_bit 8 (?v * 256 + b) = ?v"
      using b by (simp add: drop_bit_eq_div)
    finally show ?thesis by (simp add: add.commute [of 8])
  qed
  have "map (\<lambda>i. drop_bit (8 * i) (?v * 256 + b) AND 255) [0..<length (bs @ [b])] =
    ((?v * 256 + b) AND 255) # map (\<lambda>i. drop_bit (8 * i) ?v AND 255) [0..<length bs]"
    unfolding length_append by (simp add: upt_conv_Cons up map_Suc_upt [symmetric] del: upt_Suc mult_Suc_right)
  moreover have "(?v * 256 + b) AND 255 = b" using b by (simp add: and_0xff)
  moreover have "list_all is_byte bs" using snoc.prems by simp
  ultimately show ?case unfolding v using snoc.IH by simp
qed simp

lemma digit_char_not_x: "d < 36 \<Longrightarrow> d \<noteq> 33 \<Longrightarrow> digit_char d \<noteq> CHR ''X'' \<and> digit_char d \<noteq> CHR ''x''"
proof -
  assume "d < 36" "d \<noteq> 33"
  then have "ccode (digit_char d) \<noteq> 88 \<and> ccode (digit_char d) \<noteq> 120"
    by (cases "d < 10") (auto simp: ccode_digit_char)
  then show ?thesis by auto
qed

lemma hex_bytes_no_space: "list_all is_byte bs \<Longrightarrow> c \<in> set (hex_bytes bs) \<Longrightarrow> \<not> is_space c"
proof (induction bs)
  case (Cons b bs)
  have "\<not> is_space (digit_char (nat b div 16))" "\<not> is_space (digit_char (nat b mod 16))"
    using Cons.prems(1) byte_nibble [of b] by (simp_all add: digit_char_not_space)
  with Cons show ?case by (auto simp: hex_bytes_def hex_byte_def)
qed (simp add: hex_bytes_def)

lemma parse_buffer_hex:
  assumes "list_all is_byte bs"
  shows "parse_buffer (hex_bytes bs) = Inr bs"
proof (cases bs)
  case Nil
  then show ?thesis by (simp add: parse_buffer_def hex_bytes_def)
next
  case (Cons b bs')
  have b: "nat b div 16 < 16" using assms by (simp add: Cons byte_nibble)
  obtain c d t where cd: "hex_bytes bs = c # d # t" "c = digit_char (nat b div 16)" "d = digit_char (nat b mod 16)"
    by (simp add: Cons hex_bytes_def hex_byte_def)
  have d: "d \<noteq> CHR ''x''" "d \<noteq> CHR ''X''"
    unfolding cd(3) using digit_char_not_x [of "nat b mod 16"] by simp_all
  have c: "is_digit c \<or> is_upper c"
    using b unfolding cd(2) by (cases "nat b div 16 < 10") (auto simp: is_digit_def is_upper_def ccode_digit_char)
  then have "c \<noteq> CHR ''-''" "c \<noteq> CHR ''+''" by (auto simp: is_digit_def is_upper_def)
  moreover have "parse_nat 16 (hex_bytes bs) = Some (foldl (\<lambda>a b. a * 256 + nat b) 0 bs)"
  proof -
    have "skip_prefix ''0x'' ''0X'' (hex_bytes bs) = hex_bytes bs"
      using d by (simp add: skip_prefix_def startswith_iff cd(1))
    then show ?thesis using nat_of_digits_hex [OF assms] Cons by (simp add: parse_nat_def)
  qed
  moreover have "strip (hex_bytes bs) = hex_bytes bs"
    using hex_bytes_no_space [OF assms] by (rule strip_no_space)
  ultimately have "parse_int 16 (hex_bytes bs) = Some (int (foldl (\<lambda>a b. a * 256 + nat b) 0 bs))"
    by (simp add: parse_int_def cd(1))
  then show ?thesis
    using big_endian_bytes [OF assms] by (simp add: parse_buffer_def) (simp add: cd(1))
qed

subsection \<open>Whole commands\<close>

definition word_ok :: "string \<Rightarrow> bool" where
  "word_ok w \<longleftrightarrow> w \<noteq> [] \<and> list_all (\<lambda>c. \<not> is_space c) w"

fun arg_text :: "pval \<Rightarrow> string" where
  "arg_text (VInt i) = str_int i"
| "arg_text (VBytes bs) = hex_bytes bs"
| "arg_text (VStr s) = s"

fun arg_fits :: "pt \<Rightarrow> pval \<Rightarrow> bool" where
  "arg_fits t (VInt i) = pt_is_int t"
| "arg_fits t (VBytes bs) = (pt_is_dynamic_string t \<and> list_all is_byte bs)"
| "arg_fits t (VStr s) = (\<not> pt_is_int t \<and> \<not> pt_is_dynamic_string t \<and> list_all (\<lambda>c. \<not> is_space c) s)"

definition command_text :: "string \<Rightarrow> (string, pval) dict \<Rightarrow> string" where
  "command_text n kvs = join '' '' (n # map (\<lambda>(k, v). k @ CHR ''='' # arg_text v) kvs)"

lemma pt_int_not_dynamic: "pt_is_int t \<Longrightarrow> \<not> pt_is_dynamic_string t"
  by (cases t) simp_all

lemma command_value_text:
  "dget (mf_name_to_type mf) k = Some t \<Longrightarrow> arg_fits t v \<Longrightarrow> command_value mf (k, arg_text v) = Inr (k, v)"
  by (cases v) (simp_all add: command_value_def parse_int_0_str_int parse_buffer_hex pt_int_not_dynamic)

lemma arg_text_no_space: "arg_fits t v \<Longrightarrow> c \<in> set (arg_text v) \<Longrightarrow> \<not> is_space c"
  by (cases v) (auto simp: str_int_no_space hex_bytes_no_space list_all_iff)

lemma rmap_map: "rmap f (map g xs) = rmap (\<lambda>x. f (g x)) xs"
  by (induction xs) simp_all

lemma rmap_id: "(\<And>x. x \<in> set xs \<Longrightarrow> f x = Inr x) \<Longrightarrow> rmap f xs = Inr xs"
  using rmap_total [of xs f "\<lambda>x. x"] by simp

lemma strip_join_words:
  assumes "\<And>w. w \<in> set ws \<Longrightarrow> word_ok w" "ws \<noteq> []"
  shows "strip (join '' '' ws) = join '' '' ws"
proof (rule strip_id)
  have "join '' '' ws \<noteq> [] \<and> \<not> is_space (hd (join '' '' ws)) \<and> \<not> is_space (last (join '' '' ws))"
    using assms
  proof (induction "'' '' :: string" ws rule: join.induct)
    case (2 w)
    then show ?case by (simp add: word_ok_def list_all_iff)
  next
    case (3 w x ws)
    have "word_ok w" using 3(2) by simp
    with 3(1) 3(2) show ?case by (auto simp: word_ok_def list_all_iff last_append)
  qed simp
  then show "join '' '' ws = [] \<or> \<not> is_space (hd (join '' '' ws)) \<and> \<not> is_space (last (join '' '' ws))"
    by simp
qed

lemma create_command_of_text:
  assumes "dget (messages_by_name p) n = Some mf" "word_ok n" "distinct (map fst kvs)"
    and kvs: "\<And>k v. (k, v) \<in> set kvs \<Longrightarrow> word_ok k \<and> CHR ''='' \<notin> set k \<and>
      (\<exists>t. dget (mf_name_to_type mf) k = Some t \<and> arg_fits t v)"
  shows "create_command p (command_text n kvs) =
    wrap_error p (''Unable to encode: '' @ n) (mf_encode_by_name mf kvs)"
proof -
  let ?args = "map (\<lambda>(k, v). k @ CHR ''='' # arg_text v) kvs"
  have words: "word_ok w" if "w \<in> set (n # ?args)" for w
  proof -
    have "word_ok (k @ CHR ''='' # arg_text v)" if "(k, v) \<in> set kvs" for k v
      using kvs [OF that] arg_text_no_space [of _ v]
      by (auto simp: word_ok_def list_all_iff is_space_def [of "CHR ''=''"])
    with \<open>w \<in> set (n # ?args)\<close> assms(2) show ?thesis by auto
  qed
  have "split_ws (strip (command_text n kvs)) = split_ws (command_text n kvs)"
    unfolding command_text_def using strip_join_words [of "n # ?args"] words by simp
  also have "\<dots> = n # ?args"
    unfolding command_text_def using words by (intro split_ws_words) (auto simp: word_ok_def list_all_iff)
  finally have split: "split_ws (strip (command_text n kvs)) = n # ?args" .
  have "rmap (\<lambda>arg. case split_once (CHR ''='') arg of [k, v] \<Rightarrow> Inr (k, v) | _ \<Rightarrow> Inl ValueError) ?args =
      Inr (map (\<lambda>(k, v). (k, arg_text v)) kvs)"
    unfolding rmap_map using kvs by (intro rmap_total) (auto simp: split_once_sep)
  moreover have "dict_of (map (\<lambda>(k, v). (k, arg_text v)) kvs) = map (\<lambda>(k, v). (k, arg_text v)) kvs"
    using assms(3) by (intro dict_of_distinct) (simp add: comp_def case_prod_beta)
  moreover have "rmap (command_value mf) (map (\<lambda>(k, v). (k, arg_text v)) kvs) = Inr kvs"
    unfolding rmap_map using kvs by (intro rmap_id) (auto dest: command_value_text)
  ultimately have "command_args mf ?args = Inr kvs" by (simp add: command_args_def)
  then show ?thesis using assms(1) by (simp add: create_command_def split wrap_error_def)
qed

section \<open>Properties\<close>

text \<open>A parser that has been started and has read its identify data.\<close>

definition connect :: "string \<Rightarrow> json \<Rightarrow> mparser res" where
  "connect prefix data = rbind (new_parser prefix) (process_identify data)"

lemma new_parser_routed:
  assumes "new_parser w = Inr p" "owner 0 = Some ''identify_response''" "owner 1 = Some ''identify''"
  shows "routed owner p"
  using assms(1) unfolding new_parser_def
proof (rule init_messages_routed)
  show "owner (tag AND 127) = tag_owner [] [] (f, tag)" if "(f, tag) \<in> set DefaultMessages" for f tag
    using that assms(2,3) by (auto simp: DefaultMessages_def tag_owner_def split_ws_def is_space_def)
qed (simp add: routed_def)

lemma connect_routed:
  assumes "connect w data = Inr p" "identify_tags data = (msgs, ct, ot)"
    "owner 0 = Some ''identify_response''" "owner 1 = Some ''identify''"
    "\<And>f tag. (f, tag) \<in> set msgs \<Longrightarrow> owner (tag AND 0x7f) = tag_owner ct ot (f, tag)"
  shows "routed owner p" "parser_wf p"
  using assms unfolding connect_def
  by (auto simp: rbind_eq_Inr intro: process_identify_routed new_parser_routed process_identify_keeps_wf new_parser_wf)

text \<open>A dictionary with two commands, to apply the theorems to.\<close>

definition example_data :: json where
  "example_data = JObj
    [(''version'', JStr ''v1''),
     (''enumerations'', JObj [(''pin'', JObj [(''PA0'', JArr [JInt 0, JInt 4]), (''LED'', JInt 9)])]),
     (''commands'', JObj [(''set_pin pin=%u value=%i data=%*s'', JInt 2), (''identify offset=%u count=%c'', JInt 1)]),
     (''responses'', JObj [(''identify_response offset=%u data=%.*s'', JInt 0)]),
     (''output'', JObj [(''now %u'', JInt (- 5))])]"

definition example_parser :: mparser where
  "example_parser = (case connect [] example_data of Inr p \<Rightarrow> p | Inl e \<Rightarrow> undefined)"

definition example_message :: message_format where
  "example_message = the (dget (messages_by_name example_parser) ''set_pin'')"

definition example_values :: "(string, pval) dict" where
  "example_values = [(''pin'', VStr ''PA2''), (''value'', VInt (- 70000)), (''data'', VBytes [1, 171, 255])]"

lemma example_connected:
  "(case connect [] example_data of
      Inl e \<Rightarrow> False
    | Inr p \<Rightarrow> map_option mf_params (dget (messages_by_name p) ''set_pin'') = Some
        [(''pin'', Enumeration PT_uint32 ''pin'' [(''PA0'', 0), (''PA1'', 1), (''PA2'', 2), (''PA3'', 3), (''LED'', 9)]),
         (''value'', Base PT_int32), (''data'', Base PT_buffer)])"
  by code_simp

lemma example_parser: "connect [] example_data = Inr example_parser"
  using example_connected by (simp add: example_parser_def split: sum.splits)

lemma example_message: "dget (messages_by_name example_parser) ''set_pin'' = Some example_message"
  and example_params: "mf_params example_message =
   [(''pin'', Enumeration PT_uint32 ''pin'' [(''PA0'', 0), (''PA1'', 1), (''PA2'', 2), (''PA3'', 3), (''LED'', 9)]),
    (''value'', Base PT_int32), (''data'', Base PT_buffer)]"
  using example_connected unfolding example_message_def example_parser by auto

lemma example_decoded: "mf_decoded example_message example_values = Some example_values"
  by (simp add: mf_decoded_def example_params example_values_def reverse_enums_def dict_of_def wire_range_def as_read_def is_byte_def)

definition example_owner :: "int \<Rightarrow> string option" where
  "example_owner k = (if k = 0 then Some ''identify_response'' else if k = 1 then Some ''identify''
     else if k = 2 then Some ''set_pin'' else None)"

text \<open>C4: A command sent to a connected micro-controller is read there with the same values.\<close>

theorem command_roundtrip:
  assumes "connect w data = Inr p" "identify_tags data = (msgs, ct, ot)"
    and "owner 0 = Some ''identify_response''" "owner 1 = Some ''identify''"
    and "\<And>f tag. (f, tag) \<in> set msgs \<Longrightarrow> owner (tag AND 0x7f) = tag_owner ct ot (f, tag)"
    and "dget (messages_by_name p) n = Some mf" "distinct (map fst (mf_params mf))"
    and "mf_decoded mf params = Some res"
  shows "\<exists>bs. mf_encode_by_name mf params = Inr bs \<and>
    (\<forall>seq. parser_parse p (mp_encode seq bs) = Inr (dset ''#name'' (VStr n) res))"
  using assms(6-8) by (intro routed_command [OF connect_routed(1) [OF assms(1-5)]] connect_routed(2) [OF assms(1-5)])

lemma command_roundtrip_witness:
  "\<exists>bs. mf_encode_by_name example_message example_values = Inr bs \<and>
    (\<forall>seq. parser_parse example_parser (mp_encode seq bs) = Inr (dset ''#name'' (VStr ''set_pin'') example_values))"
proof (rule command_roundtrip [OF example_parser])
  show "identify_tags example_data = (fst (identify_tags example_data), fst (snd (identify_tags example_data)), snd (snd (identify_tags example_data)))"
    by simp
  show "example_owner (tag AND 0x7f) = tag_owner (fst (snd (identify_tags example_data))) (snd (snd (identify_tags example_data))) (f, tag)"
    if "(f, tag) \<in> set (fst (identify_tags example_data))" for f tag
  proof -
    have "\<forall>(f, tag) \<in> set (fst (identify_tags example_data)). example_owner (tag AND 0x7f) =
        tag_owner (fst (snd (identify_tags example_data))) (snd (snd (identify_tags example_data))) (f, tag)"
      by code_simp
    with that show ?thesis by blast
  qed
  show "mf_decoded example_message example_values = Some example_values" by (rule example_decoded)
  show "distinct (map fst (mf_params example_message))" by (simp add: example_params)
qed (simp_all add: example_owner_def example_message)

text \<open>The text of a command, split, converted and encoded, gives the bytes of the values.\<close>

theorem create_command_encodes:
  assumes "connect w data = Inr p" "dget (messages_by_name p) n = Some mf" "word_ok n" "distinct (map fst kvs)"
    and "\<And>k v. (k, v) \<in> set kvs \<Longrightarrow> word_ok k \<and> CHR ''='' \<notin> set k \<and>
      (\<exists>t. dget (mf_name_to_type mf) k = Some t \<and> arg_fits t v)"
    and "mf_encode_by_name mf kvs = Inr bs"
  shows "create_command p (command_text n kvs) = Inr bs"
  using create_command_of_text [OF assms(2-5)] assms(6) by (simp add: wrap_error_def)

lemma example_values_fit:
  "(k, v) \<in> set example_values \<Longrightarrow>
    word_ok k \<and> CHR ''='' \<notin> set k \<and> (\<exists>t. dget (mf_name_to_type example_message) k = Some t \<and> arg_fits t v)"
proof -
  have "\<forall>(k, v) \<in> set example_values. word_ok k \<and> CHR ''='' \<notin> set k \<and>
      (case dget (mf_name_to_type example_message) k of Some t \<Rightarrow> arg_fits t v | None \<Rightarrow> False)"
    by (simp add: example_values_def mf_name_to_type_def example_params dict_of_def word_ok_def is_space_def is_byte_def)
  then show "(k, v) \<in> set example_values \<Longrightarrow> ?thesis" by (auto split: option.splits)
qed

lemma example_encodes: "\<exists>bs. mf_encode_by_name example_message example_values = Inr bs"
proof -
  have "mf_decoded example_message example_values = Some example_values" by (rule example_decoded)
  moreover have "distinct (map fst (mf_params example_message))" by (simp add: example_params)
  ultimately show ?thesis using mf_roundtrip by blast
qed

lemma create_command_encodes_witness:
  "create_command example_parser (command_text ''set_pin'' example_values) =
    mf_encode_by_name example_message example_values"
proof -
  obtain bs where bs: "mf_encode_by_name example_message example_values = Inr bs"
    using example_encodes by blast
  have "create_command example_parser (command_text ''set_pin'' example_values) = Inr bs"
  proof (rule create_command_encodes [OF example_parser example_message _ _ _ bs])
    show "word_ok ''set_pin''" by code_simp
    show "distinct (map fst example_values)" by code_simp
  qed (rule example_values_fit)
  with bs show ?thesis by simp
qed

text \<open>Every parser that has read identify data, any number of times, is well formed.\<close>

theorem parser_wf_reachable:
  assumes "rbind (new_parser w) (\<lambda>p. rfold (\<lambda>p data. process_identify data p) p datas) = Inr p"
  shows "parser_wf p"
proof -
  from assms obtain p0 where "new_parser w = Inr p0" "rfold (\<lambda>p data. process_identify data p) p0 datas = Inr p"
    by (auto simp: rbind_eq_Inr)
  then show ?thesis by (auto elim!: rfold_invariant intro: new_parser_wf process_identify_keeps_wf)
qed

lemma parser_wf_reachable_witness: "parser_wf example_parser"
  by (rule parser_wf_reachable [of "[]" "[example_data]"])
    (use example_parser in \<open>auto simp: connect_def rbind_eq_Inr\<close>)

text \<open>Encoded, a command is no longer than its identifier and the declared sizes of its types.\<close>

theorem command_size:
  assumes "\<And>k t. (k, t) \<in> set (mf_params mf) \<Longrightarrow> \<exists>v. dget params k = Some v \<and> pt_in_range t v"
  shows "\<exists>bs. mf_encode_by_name mf params = Inr bs \<and> length bs \<le> 1 + sum_list (map pt_max_length (mf_types mf))"
proof -
  have "\<exists>bs. rbind (res_of KeyError (dget params k)) (pt_encode t) = Inr bs \<and> length bs \<le> pt_max_length t"
    if "(t, k) \<in> set (map (\<lambda>(k, t). (t, k)) (mf_params mf))" for t k
    using assms [of k t] that pt_encode_max by fastforce
  from seq_encode_max [where enc = "\<lambda>t k. rbind (res_of KeyError (dget params k)) (pt_encode t)" and mx = pt_max_length
      and tvs = "map (\<lambda>(k, t). (t, k)) (mf_params mf)" and out = "[mf_msgid mf]", OF this] show ?thesis
    by (simp add: mf_encode_by_name_def mf_types_def comp_def case_prod_beta)
qed

lemma command_size_witness:
  "\<exists>bs. mf_encode_by_name example_message example_values = Inr bs \<and> length bs \<le> 75"
proof -
  have fits: "\<forall>(k, t) \<in> set (mf_params example_message). case dget example_values k of Some v \<Rightarrow> pt_in_range t v | None \<Rightarrow> False"
    by (simp add: example_params example_values_def is_byte_def)
  have "\<exists>bs. mf_encode_by_name example_message example_values = Inr bs \<and>
      length bs \<le> 1 + sum_list (map pt_max_length (mf_types example_message))"
    by (rule command_size) (use fits in \<open>fastforce split: option.splits\<close>)
  moreover have "1 + sum_list (map pt_max_length (mf_types example_message)) = 75" by (simp add: mf_types_def example_params)
  ultimately show ?thesis by simp
qed

text \<open>A range of an enumeration names each of its values, and changes no other name.\<close>

theorem enumeration_range:
  assumes "root = [] \<or> \<not> is_digit (last root)" "0 \<le> start" "0 < count"
    and "fill_enum es (root @ str_int start, JArr [JInt sv, JInt count]) = Inr es'"
  shows "dget es' k = (if \<exists>i \<in> {0..<count}. k = root @ str_int (start + i)
    then Some (sv + (THE i. k = root @ str_int (start + i))) else dget es k)"
proof (cases "\<exists>i \<in> {0..<count}. k = root @ str_int (start + i)")
  case True
  then obtain i where i: "0 \<le> i" "i < count" "k = root @ str_int (start + i)" by auto
  moreover have "(THE i. k = root @ str_int (start + i)) = i"
    unfolding i(3) by (rule the_equality) (auto dest: str_int_inj)
  ultimately show ?thesis using fill_enum_range_lookup(1) [OF assms, of i] by auto
next
  case False
  with fill_enum_range_lookup(2) [OF assms, of k] show ?thesis by auto
qed

lemma enumeration_range_witness:
  "\<exists>es'. fill_enum [] (''PA'' @ str_int 3, JArr [JInt 16, JInt 4]) = Inr es' \<and> dget es' (''PA'' @ str_int (3 + 2)) = Some 18"
proof -
  obtain es' where es': "fill_enum [] (''PA'' @ str_int 3, JArr [JInt 16, JInt 4]) = Inr es'"
    using fill_enum_range [of "''PA''" 3 4 "[]" 16] by (auto simp: is_digit_def)
  have "dget es' (''PA'' @ str_int (3 + 2)) = (if \<exists>i \<in> {0..<4}. ''PA'' @ str_int (3 + 2) = ''PA'' @ str_int (3 + i)
    then Some (16 + (THE i. ''PA'' @ str_int (3 + 2) = ''PA'' @ str_int (3 + i))) else dget [] (''PA'' @ str_int (3 + 2)))"
    by (rule enumeration_range [OF _ _ _ es']) (simp_all add: is_digit_def)
  moreover have "\<exists>i \<in> {0..<4::int}. ''PA'' @ str_int (3 + 2) = ''PA'' @ str_int (3 + i)" by (intro bexI [of _ 2]) simp_all
  moreover have "(THE i. ''PA'' @ str_int (3 + 2) = ''PA'' @ str_int (3 + i)) = 2"
    by (rule the_equality) (auto dest: str_int_inj)
  ultimately show ?thesis using es' by auto
qed

end
