(* ===== verification/TmcUart.thy ===== *)
theory TmcUart
  imports MsgWire PyStrings
begin

unbundle bit_operations_syntax

text \<open>
  \<open>klippy/extras/tmc_uart.py\<close>: the serial messages of the TMC stepper drivers, the analog
  multiplexer in front of several of them, and the register accesses with their retries.

  The wire itself is a parameter: \<open>send w msg n\<close> transmits \<open>msg\<close> in the state \<open>w\<close> of the world and
  gives the \<open>n\<close> bytes received and the next state; \<open>set_pin w oid v\<close> drives a select pin.
  \<open>bytearray\<close> refuses values that are not bytes, as Python's does.
\<close>

definition bytearray :: "int list \<Rightarrow> int list res" where
  "bytearray xs = (if list_all is_byte xs then Inr xs else Inl ValueError)"

section \<open>Messages\<close>

definition crc8_bit :: "int \<times> int \<Rightarrow> int \<times> int" where
  "crc8_bit = (\<lambda>(crc, b).
     let crc' = (if (drop_bit 7 crc) XOR (b AND 0x01) \<noteq> 0 then (push_bit 1 crc) XOR 0x07 else push_bit 1 crc)
     in (crc' AND 0xff, drop_bit 1 b))"

definition crc8_byte :: "int \<Rightarrow> int \<Rightarrow> int" where
  "crc8_byte crc b = fst ((crc8_bit ^^ 8) (crc, b))"

definition calc_crc8 :: "int list \<Rightarrow> int" where
  "calc_crc8 data = foldl crc8_byte 0 data"

definition serial_bits :: "int list \<Rightarrow> int \<times> nat" where
  "serial_bits data =
     foldl (\<lambda>(out, pos) d. (out OR push_bit pos ((push_bit 1 d) OR 0x200), pos + 10)) (0, 0) data"

definition add_serial_bits :: "int list \<Rightarrow> int list" where
  "add_serial_bits data =
     (case serial_bits data of (out, pos) \<Rightarrow> map (\<lambda>i. drop_bit (i * 8) out AND 0xff) [0..<(pos + 7) div 8])"

definition uart_encode_read :: "int \<Rightarrow> int \<Rightarrow> int \<Rightarrow> int list res" where
  "uart_encode_read sync addr reg =
     rbind (bytearray [sync, addr, reg]) (\<lambda>msg. Inr (add_serial_bits (msg @ [calc_crc8 msg])))"

definition uart_encode_write :: "int \<Rightarrow> int \<Rightarrow> int \<Rightarrow> int \<Rightarrow> int list res" where
  "uart_encode_write sync addr reg val =
     rbind (bytearray [sync, addr, reg, drop_bit 24 val AND 0xff,
        drop_bit 16 val AND 0xff, drop_bit 8 val AND 0xff, val AND 0xff])
       (\<lambda>msg. Inr (add_serial_bits (msg @ [calc_crc8 msg])))"

definition little_endian :: "int list \<Rightarrow> int" where
  "little_endian data = fst (foldl (\<lambda>(mval, pos). \<lambda>d. (mval OR push_bit pos d, pos + 8)) (0, 0) data)"

definition uart_decode_read :: "int \<Rightarrow> int list \<Rightarrow> int option res" where
  "uart_decode_read reg data =
     (if length data \<noteq> 10 then Inr None
      else
        let mval = little_endian data;
            val = (((push_bit 24 (drop_bit 31 mval AND 0xff)) OR (push_bit 16 (drop_bit 41 mval AND 0xff)))
                    OR (push_bit 8 (drop_bit 51 mval AND 0xff))) OR (drop_bit 61 mval AND 0xff)
        in rbind (uart_encode_write 0x05 0xff reg val) (\<lambda>encoded_data.
             Inr (if data \<noteq> encoded_data then None else Some val)))"

section \<open>The analog multiplexer\<close>

record analog_mux =
  mux_oids :: "int list"
  mux_pins :: "string list"
  pin_values :: "int list"

text \<open>The parameters \<open>pins.parse_pin\<close> gives for a select pin.\<close>

record select_pin =
  sel_chip :: string
  sel_pin :: string
  sel_invert :: bool

definition mux_init :: "int list \<Rightarrow> select_pin list \<Rightarrow> analog_mux" where
  "mux_init oids pps = \<lparr>mux_oids = oids, mux_pins = map sel_pin pps, pin_values = map (\<lambda>_. -1) pps\<rparr>"

definition mux_instance_id :: "string \<Rightarrow> analog_mux \<Rightarrow> select_pin list \<Rightarrow> int list res" where
  "mux_instance_id mcu m pps =
     (if \<exists>pp \<in> set pps. sel_chip pp \<noteq> mcu then Inl (AppError ''TMC mux pins must be on the same mcu'')
      else if map sel_pin pps \<noteq> mux_pins m then Inl (AppError ''All TMC mux instances must use identical pins'')
      else Inr (map (\<lambda>pp. if sel_invert pp then 0 else 1) pps))"

definition mux_activate :: "('w \<Rightarrow> int \<Rightarrow> int \<Rightarrow> 'w) \<Rightarrow> analog_mux \<Rightarrow> int list \<Rightarrow> 'w \<Rightarrow> analog_mux \<times> 'w" where
  "mux_activate set_pin m instance_id w =
     (m\<lparr>pin_values := instance_id\<rparr>,
      foldl (\<lambda>w (oid, old, new). if old \<noteq> new then set_pin w oid new else w) w
        (zip (mux_oids m) (zip (pin_values m) instance_id)))"

section \<open>One shared line\<close>

record uart_line =
  line_mcu :: string
  line_rx_pin :: string
  line_tx_pin :: string
  line_mux :: "analog_mux option"
  line_instances :: "(int list option \<times> int) list"

definition register_instance ::
  "uart_line \<Rightarrow> string \<Rightarrow> string \<Rightarrow> select_pin list option \<Rightarrow> int \<Rightarrow> (int list option \<times> uart_line) res" where
  "register_instance u rx tx select_pins addr =
     (if rx \<noteq> line_rx_pin u \<or> tx \<noteq> line_tx_pin u \<or> (select_pins = None) \<noteq> (line_mux u = None)
      then Inl (AppError ''Shared TMC uarts must use the same pins'')
      else
        rbind (case (line_mux u, select_pins) of
            (Some m, Some pps) \<Rightarrow> rbind (mux_instance_id (line_mcu u) m pps) (\<lambda>i. Inr (Some i))
          | _ \<Rightarrow> Inr None) (\<lambda>instance_id.
        if (instance_id, addr) \<in> set (line_instances u)
        then Inl (AppError ''Shared TMC uarts need unique address or select_pins polarity'')
        else Inr (instance_id, u\<lparr>line_instances := line_instances u @ [(instance_id, addr)]\<rparr>)))"

definition line_activate :: "('w \<Rightarrow> int \<Rightarrow> int \<Rightarrow> 'w) \<Rightarrow> uart_line \<Rightarrow> int list option \<Rightarrow> 'w \<Rightarrow> uart_line \<times> 'w" where
  "line_activate set_pin u instance_id w =
     (case (line_mux u, instance_id) of
        (Some m, Some i) \<Rightarrow> (case mux_activate set_pin m i w of (m', w') \<Rightarrow> (u\<lparr>line_mux := Some m'\<rparr>, w'))
      | _ \<Rightarrow> (u, w))"

record 'w wire =
  wire_send :: "'w \<Rightarrow> int list \<Rightarrow> nat \<Rightarrow> int list \<times> 'w"
  wire_pin :: "'w \<Rightarrow> int \<Rightarrow> int \<Rightarrow> 'w"

definition reg_read ::
  "'w wire \<Rightarrow> int list option \<Rightarrow> int \<Rightarrow> int \<Rightarrow> uart_line \<times> 'w \<Rightarrow> int option res \<times> uart_line \<times> 'w" where
  "reg_read W instance_id addr reg s =
     (case line_activate (wire_pin W) (fst s) instance_id (snd s) of (u, w) \<Rightarrow>
        (case uart_encode_read 0xf5 addr reg of
           Inl e \<Rightarrow> (Inl e, u, w)
         | Inr msg \<Rightarrow> (case wire_send W w msg 10 of (d, w') \<Rightarrow> (uart_decode_read reg d, u, w'))))"

definition reg_write ::
  "'w wire \<Rightarrow> int list option \<Rightarrow> int \<Rightarrow> int \<Rightarrow> int \<Rightarrow> uart_line \<times> 'w \<Rightarrow> unit res \<times> uart_line \<times> 'w" where
  "reg_write W instance_id addr reg val s =
     (case line_activate (wire_pin W) (fst s) instance_id (snd s) of (u, w) \<Rightarrow>
        (case uart_encode_write 0xf5 addr (reg OR 0x80) val of
           Inl e \<Rightarrow> (Inl e, u, w)
         | Inr msg \<Rightarrow> (case wire_send W w msg 0 of (d, w') \<Rightarrow> (Inr (), u, w'))))"

section \<open>Register accesses of one driver\<close>

record tmc_uart =
  tmc_name :: string
  name_to_reg :: "(string, int) dict"
  ifcnt :: "int option"
  instance_id :: "int list option"
  tmc_addr :: int
  debugoutput :: bool

type_synonym 'w uart_state = "tmc_uart \<times> uart_line \<times> 'w"

fun read_retry ::
  "nat \<Rightarrow> 'w wire \<Rightarrow> tmc_uart \<Rightarrow> string \<Rightarrow> int \<Rightarrow> uart_line \<times> 'w \<Rightarrow> int res \<times> uart_line \<times> 'w" where
  "read_retry 0 W t reg_name reg s =
     (Inl (AppError (''Unable to read tmc uart '' @ quoted (tmc_name t) @ '' register '' @ reg_name)), s)"
| "read_retry (Suc n) W t reg_name reg s =
     (case reg_read W (instance_id t) (tmc_addr t) reg s of
        (Inl e, s') \<Rightarrow> (Inl e, s')
      | (Inr (Some val), s') \<Rightarrow> (Inr val, s')
      | (Inr None, s') \<Rightarrow> read_retry n W t reg_name reg s')"

definition do_get_register :: "'w wire \<Rightarrow> string \<Rightarrow> 'w uart_state \<Rightarrow> int res \<times> 'w uart_state" where
  "do_get_register W reg_name = (\<lambda>(t, s).
     case dget (name_to_reg t) reg_name of
       None \<Rightarrow> (Inl KeyError, t, s)
     | Some reg \<Rightarrow>
         if debugoutput t then (Inr 0, t, s)
         else (case read_retry 5 W t reg_name reg s of (r, s') \<Rightarrow> (r, t, s')))"

text \<open>The mutex is held by the one who runs this; a reader waits for it.\<close>

definition get_register :: "'w wire \<Rightarrow> string \<Rightarrow> 'w uart_state \<Rightarrow> int res \<times> 'w uart_state" where
  "get_register W reg_name s = do_get_register W reg_name s"

text \<open>The current \<open>IFCNT\<close>, read from the driver when it is not known.\<close>

definition current_ifcnt :: "'w wire \<Rightarrow> 'w uart_state \<Rightarrow> int res \<times> 'w uart_state" where
  "current_ifcnt W st =
     (case ifcnt (fst st) of
        Some c \<Rightarrow> (Inr c, st)
      | None \<Rightarrow> (case do_get_register W ''IFCNT'' st of
            (Inl e, st') \<Rightarrow> (Inl e, st')
          | (Inr c, (t, s)) \<Rightarrow> (Inr c, (t\<lparr>ifcnt := Some c\<rparr>, s))))"

fun write_retry :: "nat \<Rightarrow> 'w wire \<Rightarrow> string \<Rightarrow> int \<Rightarrow> int \<Rightarrow> 'w uart_state \<Rightarrow> unit res \<times> 'w uart_state" where
  "write_retry 0 W reg_name reg val (t, s) =
     (Inl (AppError (''Unable to write tmc uart '' @ quoted (tmc_name t) @ '' register '' @ reg_name)), (t, s))"
| "write_retry (Suc n) W reg_name reg val st =
     (case current_ifcnt W st of
        (Inl e, st') \<Rightarrow> (Inl e, st')
      | (Inr c, (t, s)) \<Rightarrow>
          (case reg_write W (instance_id t) (tmc_addr t) reg val s of
             (Inl e, s') \<Rightarrow> (Inl e, (t, s'))
           | (Inr _, s') \<Rightarrow>
               (case do_get_register W ''IFCNT'' (t, s') of
                  (Inl e, st'') \<Rightarrow> (Inl e, st'')
                | (Inr c', (t'', s'')) \<Rightarrow>
                    let st3 = (t''\<lparr>ifcnt := Some c'\<rparr>, s'') in
                    if c' = (c + 1) AND 0xff then (Inr (), st3)
                    else write_retry n W reg_name reg val st3)))"

definition set_register :: "'w wire \<Rightarrow> string \<Rightarrow> int \<Rightarrow> 'w uart_state \<Rightarrow> unit res \<times> 'w uart_state" where
  "set_register W reg_name val st =
     (case dget (name_to_reg (fst st)) reg_name of
        None \<Rightarrow> (Inl KeyError, st)
      | Some reg \<Rightarrow>
          if debugoutput (fst st) then (Inr (), st) else write_retry 5 W reg_name reg val st)"

section \<open>Messages decode back\<close>

fun framed :: "int list \<Rightarrow> int" where
  "framed [] = 0"
| "framed (d # ds) = 2 * d + 512 + 1024 * framed ds"

lemma framed_bound:
  "list_all is_byte ds \<Longrightarrow> 0 \<le> framed ds \<and> framed ds < 1024 ^ length ds"
proof (induction ds)
  case (Cons d ds)
  then have "0 \<le> framed ds" "framed ds + 1 \<le> 1024 ^ length ds" "0 \<le> d" "d < 256"
    by (simp_all add: is_byte_def)
  then have "0 \<le> framed (d # ds)" "2 * d + 512 + 1024 * framed ds < 1024 * (framed ds + 1)" "1024 * (framed ds + 1) \<le> 1024 * 1024 ^ length ds"
    by simp_all
  then show ?case by simp
qed simp

lemma serial_bits_step:
  assumes "0 \<le> out" "out < 2 ^ pos" "is_byte d"
  shows "out OR push_bit pos ((push_bit 1 d) OR 0x200) = out + (2 * d + 512) * 2 ^ pos"
proof -
  have "push_bit 9 1 OR push_bit 1 d = 1 * 2 ^ 9 + push_bit 1 d"
    by (rule push_or_add) (use assms(3) in \<open>simp_all add: is_byte_def push_bit_eq_mult\<close>)
  then have "(push_bit 1 d) OR 0x200 = 2 * d + 512"
    by (simp add: or.commute push_bit_eq_mult)
  then show ?thesis using or_push_add [OF assms(1,2)] by simp
qed

lemma serial_bits_fold:
  "list_all is_byte ds \<Longrightarrow> 0 \<le> out \<Longrightarrow> out < 2 ^ pos \<Longrightarrow>
    foldl (\<lambda>(out, pos) d. (out OR push_bit pos ((push_bit 1 d) OR 0x200), pos + 10)) (out, pos) ds =
      (out + framed ds * 2 ^ pos, pos + 10 * length ds)"
proof (induction ds arbitrary: out pos)
  case (Cons d ds)
  have d: "is_byte d" "list_all is_byte ds" using Cons.prems(1) by simp_all
  let ?o = "out + (2 * d + 512) * 2 ^ pos"
  have dd: "0 \<le> 2 * d + 512" "2 * d + 512 + 1 \<le> 1024" using d(1) by (simp_all add: is_byte_def)
  have "out + (2 * d + 512) * 2 ^ pos < 1 * 2 ^ pos + (2 * d + 512) * 2 ^ pos"
    using Cons.prems(3) by simp
  also have "\<dots> = (2 * d + 512 + 1) * 2 ^ pos" by (simp add: algebra_simps)
  also have "\<dots> \<le> 1024 * 2 ^ pos" using dd(2) by (intro mult_right_mono) simp_all
  finally have "?o < 2 ^ (pos + 10)" by (simp add: power_add)
  moreover have "0 \<le> ?o" using Cons.prems(2) dd(1) by simp
  ultimately have "foldl (\<lambda>(out, pos) d. (out OR push_bit pos ((push_bit 1 d) OR 0x200), pos + 10)) (?o, pos + 10) ds =
      (?o + framed ds * 2 ^ (pos + 10), pos + 10 + 10 * length ds)"
    by (intro Cons.IH d(2))
  then show ?case using serial_bits_step [OF Cons.prems(2,3) d(1)] by (simp add: power_add algebra_simps)
qed simp

lemma serial_bits_framed: "list_all is_byte ds \<Longrightarrow> serial_bits ds = (framed ds, 10 * length ds)"
  unfolding serial_bits_def using serial_bits_fold [of ds 0 0] by simp

lemma septet_mod: "0 \<le> d \<Longrightarrow> d < 256 \<Longrightarrow> (d + 256 + 512 * f) mod 256 = (d::int)"
proof -
  have "d + 256 + 512 * f = d + (1 + 2 * f) * 256" by simp
  then show "0 \<le> d \<Longrightarrow> d < 256 \<Longrightarrow> (d + 256 + 512 * f) mod 256 = d" by (simp only: mod_mult_self1) simp
qed

lemma framed_nth:
  "list_all is_byte ds \<Longrightarrow> i < length ds \<Longrightarrow> framed ds div 2 ^ (10 * i + 1) mod 256 = ds ! i"
proof (induction ds arbitrary: i)
  case (Cons d ds)
  have d: "0 \<le> d" "d < 256" using Cons.prems(1) by (simp_all add: is_byte_def)
  show ?case
  proof (cases i)
    case 0
    have "(d + 256 + 512 * framed ds) mod 256 = d" using septet_mod [OF d] .
    then show ?thesis using 0 by simp
  next
    case (Suc j)
    have p: "(2::int) ^ (10 * i + 1) = 1024 * 2 ^ (10 * j + 1)" by (simp add: Suc power_add)
    have "framed (d # ds) div 2 ^ (10 * i + 1) = framed (d # ds) div 1024 div 2 ^ (10 * j + 1)"
      unfolding p by (rule zdiv_zmult2_eq) simp
    also have "framed (d # ds) div 1024 = framed ds" using d by simp
    finally show ?thesis using Cons Suc by simp
  qed
qed simp

lemma little_endian_fold:
  "0 \<le> v \<Longrightarrow> (v::int) < 256 ^ n \<Longrightarrow> 0 \<le> a \<Longrightarrow> a < 2 ^ pos \<Longrightarrow>
    foldl (\<lambda>(mval, pos). \<lambda>d. (mval OR push_bit pos d, pos + 8)) (a, pos) (map (\<lambda>i. drop_bit (i * 8) v AND 0xff) [0..<n]) =
      (a + v * 2 ^ pos, pos + 8 * n)"
proof (induction n arbitrary: v a pos)
  case (Suc n)
  have up: "drop_bit (Suc i * 8) v AND 0xff = drop_bit (i * 8) (v div 256) AND 0xff" for i
    by (simp add: drop_bit_eq_div and_0xff power_add zdiv_zmult2_eq)
  have l: "map (\<lambda>i. drop_bit (i * 8) v AND 0xff) [0..<Suc n] =
      (v mod 256) # map (\<lambda>i. drop_bit (i * 8) (v div 256) AND 0xff) [0..<n]"
    by (simp only: upt_conv_Cons [OF zero_less_Suc] list.map map_Suc_upt [symmetric] map_map comp_def up)
      (simp add: and_0xff)
  have m: "0 \<le> v mod 256" "v mod 256 + 1 \<le> 256" by simp_all
  have a1: "a OR push_bit pos (v mod 256) = a + v mod 256 * 2 ^ pos"
    using or_push_add [OF Suc.prems(3,4)] by simp
  have "a + v mod 256 * 2 ^ pos < 1 * 2 ^ pos + v mod 256 * 2 ^ pos" using Suc.prems(4) by simp
  also have "\<dots> = (v mod 256 + 1) * 2 ^ pos" by (simp add: algebra_simps)
  also have "\<dots> \<le> 256 * 2 ^ pos" using m(2) by (intro mult_right_mono) simp_all
  finally have a2: "a + v mod 256 * 2 ^ pos < 2 ^ (pos + 8)" by (simp add: power_add)
  have v: "0 \<le> v div 256" "v div 256 < 256 ^ n"
    using Suc.prems(1,2) div_within [of 256 0 v "256 ^ n"] by (simp_all add: pos_imp_zdiv_nonneg_iff mult.commute)
  have "2 ^ pos * (v mod 256) + 2 ^ pos * (256 * (v div 256)) = 2 ^ pos * (v mod 256 + 256 * (v div 256))"
    by (simp only: distrib_left)
  then have tot: "2 ^ pos * (v mod 256) + 2 ^ pos * (256 * (v div 256)) = v * 2 ^ pos"
    by (simp only: mod_mult_div_eq mult.commute)
  show ?case
    unfolding l using Suc.IH [OF v _ a2] Suc.prems(3) tot by (simp add: a1 power_add algebra_simps)
qed simp

lemma little_endian_bytes:
  "0 \<le> v \<Longrightarrow> v < 256 ^ n \<Longrightarrow> little_endian (map (\<lambda>i. drop_bit (i * 8) v AND 0xff) [0..<n]) = v"
  using little_endian_fold [of v n 0 0] by (simp add: little_endian_def)

lemma word_of_bytes:
  assumes "0 \<le> v" "v < 2 ^ 32"
  shows "(((push_bit 24 (drop_bit 24 v AND 0xff)) OR (push_bit 16 (drop_bit 16 v AND 0xff)))
      OR (push_bit 8 (drop_bit 8 v AND 0xff))) OR (v AND 0xff) = (v::int)"
proof -
  define a b c d where "a = v div 2 ^ 24 mod 256" and "b = v div 2 ^ 16 mod 256" and "c = v div 2 ^ 8 mod 256" and "d = v mod 256"
  note defs = a_def b_def c_def d_def
  have B: "0 \<le> a" "a < 256" "0 \<le> b" "b < 256" "0 \<le> c" "c < 256" "0 \<le> d" "d < 256"
    unfolding defs by simp_all
  have "push_bit 24 a OR push_bit 16 b = a * 2 ^ 24 + push_bit 16 b"
    by (rule push_or_add) (use B in \<open>simp_all add: push_bit_eq_mult\<close>)
  then have "push_bit 24 a OR push_bit 16 b = push_bit 16 (a * 256 + b)" by (simp add: push_bit_eq_mult)
  moreover have "push_bit 16 (a * 256 + b) OR push_bit 8 c = (a * 256 + b) * 2 ^ 16 + push_bit 8 c"
    by (rule push_or_add) (use B in \<open>simp_all add: push_bit_eq_mult\<close>)
  then have "push_bit 16 (a * 256 + b) OR push_bit 8 c = push_bit 8 ((a * 256 + b) * 256 + c)"
    by (simp add: push_bit_eq_mult)
  moreover have "push_bit 8 ((a * 256 + b) * 256 + c) OR d = ((a * 256 + b) * 256 + c) * 2 ^ 8 + d"
    by (rule push_or_add) (use B in simp_all)
  ultimately have "((push_bit 24 a OR push_bit 16 b) OR push_bit 8 c) OR d = ((a * 256 + b) * 256 + c) * 256 + d"
    by simp
  moreover have "v div 2 ^ 24 < 256" "0 \<le> v div 2 ^ 24"
    using div_within [of "2 ^ 24" 0 v 256] assms by simp_all
  then have "a = v div 256 div 256 div 256"
    unfolding a_def by (simp flip: zdiv_zmult2_eq)
  moreover have "b = v div 256 div 256 mod 256" "c = v div 256 mod 256"
    unfolding defs by (simp_all flip: zdiv_zmult2_eq)
  ultimately have "((push_bit 24 a OR push_bit 16 b) OR push_bit 8 c) OR d = v"
    by (simp only: d_def div_mult_mod_eq)
  then show ?thesis by (simp only: defs drop_bit_eq_div and_0xff)
qed

lemma calc_crc8_byte: "is_byte (calc_crc8 ds)"
proof -
  have step: "is_byte (fst (crc8_bit p))" for p
    by (simp add: crc8_bit_def Let_def case_prod_beta)
  have byte: "is_byte (crc8_byte c b)" for c b
    by (simp add: crc8_byte_def numeral_eq_Suc step)
  show ?thesis
    unfolding calc_crc8_def by (cases ds rule: rev_cases) (simp_all add: byte, simp add: is_byte_def)
qed

definition is_u32 :: "int \<Rightarrow> bool" where
  "is_u32 v \<longleftrightarrow> 0 \<le> v \<and> v < 2 ^ 32"

lemma uart_encode_write_Inr:
  "uart_encode_write sync addr reg val =
    (if is_byte sync \<and> is_byte addr \<and> is_byte reg then
      Inr (let msg = [sync, addr, reg, drop_bit 24 val AND 0xff, drop_bit 16 val AND 0xff, drop_bit 8 val AND 0xff, val AND 0xff]
           in add_serial_bits (msg @ [calc_crc8 msg]))
     else Inl ValueError)"
  by (simp add: uart_encode_write_def bytearray_def Let_def)

text \<open>The byte at position \<open>i\<close> of a transmitted message.\<close>

definition uart_byte :: "int list \<Rightarrow> nat \<Rightarrow> int" where
  "uart_byte msg i = drop_bit (10 * i + 1) (little_endian msg) AND 0xff"

lemma little_endian_serial:
  assumes "list_all is_byte ds"
  shows "little_endian (add_serial_bits ds) = framed ds"
proof -
  have "1024 ^ length ds = (2::int) ^ (10 * length ds)" by (simp add: power_mult)
  also have "\<dots> \<le> 2 ^ (8 * ((10 * length ds + 7) div 8))" by (rule power_increasing) simp_all
  also have "\<dots> = 256 ^ ((10 * length ds + 7) div 8)" by (simp add: power_mult)
  finally have "framed ds < 256 ^ ((10 * length ds + 7) div 8)" "0 \<le> framed ds"
    using framed_bound [OF assms] by linarith+
  then show ?thesis
    unfolding add_serial_bits_def serial_bits_framed [OF assms] prod.case by (intro little_endian_bytes)
qed

lemma uart_byte_serial:
  "list_all is_byte ds \<Longrightarrow> i < length ds \<Longrightarrow> uart_byte (add_serial_bits ds) i = ds ! i"
  using framed_nth [of ds i] by (simp add: uart_byte_def little_endian_serial drop_bit_eq_div and_0xff)

lemma length_add_serial_bits:
  "list_all is_byte ds \<Longrightarrow> length (add_serial_bits ds) = (10 * length ds + 7) div 8"
  by (simp add: add_serial_bits_def serial_bits_framed)

lemma uart_encode_write_bytes:
  assumes "uart_encode_write sync addr reg val = Inr msg"
  shows "length msg = 10" "uart_byte msg 2 = reg" "uart_byte msg 3 = drop_bit 24 val AND 0xff"
    "uart_byte msg 4 = drop_bit 16 val AND 0xff" "uart_byte msg 5 = drop_bit 8 val AND 0xff" "uart_byte msg 6 = val AND 0xff"
    "is_byte reg"
proof -
  define body where "body = [sync, addr, reg, drop_bit 24 val AND 0xff, drop_bit 16 val AND 0xff, drop_bit 8 val AND 0xff, val AND 0xff]"
  have b: "list_all is_byte body" and msg: "msg = add_serial_bits (body @ [calc_crc8 body])" and "is_byte reg"
    using assms by (simp_all add: uart_encode_write_Inr Let_def body_def split: if_splits)
  have ds: "list_all is_byte (body @ [calc_crc8 body])" "length (body @ [calc_crc8 body]) = 8"
    using b calc_crc8_byte [of body] by (simp_all add: body_def)
  show "length msg = 10" unfolding msg length_add_serial_bits [OF ds(1)] ds(2) by simp
  note nth = uart_byte_serial [OF ds(1), unfolded ds(2), folded msg]
  show "uart_byte msg 2 = reg" "uart_byte msg 3 = drop_bit 24 val AND 0xff"
    "uart_byte msg 4 = drop_bit 16 val AND 0xff" "uart_byte msg 5 = drop_bit 8 val AND 0xff" "uart_byte msg 6 = val AND 0xff"
    using nth [of 2] nth [of 3] nth [of 4] nth [of 5] nth [of 6] by (simp_all add: body_def)
  show "is_byte reg" by fact
qed

lemma uart_encode_read_bytes:
  assumes "uart_encode_read sync addr reg = Inr msg"
  shows "uart_byte msg 2 = reg" "is_byte reg"
proof -
  define body where "body = [sync, addr, reg]"
  have b: "list_all is_byte body" and msg: "msg = add_serial_bits (body @ [calc_crc8 body])"
    using assms by (simp_all add: uart_encode_read_def bytearray_def body_def split: if_splits)
  have "list_all is_byte (body @ [calc_crc8 body])" using b calc_crc8_byte [of body] by simp
  from uart_byte_serial [OF this, folded msg, of 2] show "uart_byte msg 2 = reg" by (simp add: body_def)
  show "is_byte reg" using b by (simp add: body_def)
qed

definition uart_value :: "int list \<Rightarrow> int" where
  "uart_value msg = (((push_bit 24 (uart_byte msg 3)) OR (push_bit 16 (uart_byte msg 4)))
      OR (push_bit 8 (uart_byte msg 5))) OR uart_byte msg 6"

lemma uart_value_write:
  "uart_encode_write sync addr reg val = Inr msg \<Longrightarrow> is_u32 val \<Longrightarrow> uart_value msg = val"
  unfolding uart_value_def using word_of_bytes [of val]
  by (simp only: uart_encode_write_bytes(3-6) is_u32_def)

lemma uart_decode_read_eq:
  "uart_decode_read reg data =
    (if length data \<noteq> 10 then Inr None
     else rbind (uart_encode_write 0x05 0xff reg (uart_value data)) (\<lambda>d. Inr (if data \<noteq> d then None else Some (uart_value data))))"
  by (simp add: uart_decode_read_def uart_value_def uart_byte_def Let_def cong: if_cong)

lemma uart_write_read:
  assumes "is_u32 val" "uart_encode_write 0x05 0xff reg val = Inr data"
  shows "uart_decode_read reg data = Inr (Some val)"
  using assms uart_value_write [OF assms(2,1)] uart_encode_write_bytes(1) [OF assms(2)]
  by (simp add: uart_decode_read_eq)

lemma uart_byte_bound: "0 \<le> uart_byte d i \<and> uart_byte d i < 256"
  by (simp add: uart_byte_def and_0xff)

lemma uart_value_u32: "is_u32 (uart_value d)"
proof -
  have b: "0 \<le> uart_byte d i" "uart_byte d i < 256" for i using uart_byte_bound [of d i] by simp_all
  have "0 \<le> uart_value d" using b by (simp add: uart_value_def push_bit_eq_mult)
  moreover have "push_bit 24 (uart_byte d 3) < 2 ^ 32" "push_bit 16 (uart_byte d 4) < 2 ^ 32"
    "push_bit 8 (uart_byte d 5) < 2 ^ 32" "uart_byte d 6 < 2 ^ 32"
    using b(2) [of 3] b(2) [of 4] b(2) [of 5] b(2) [of 6] by (simp_all add: push_bit_eq_mult)
  then have "uart_value d < 2 ^ 32"
    unfolding uart_value_def using b(1) by (intro bounded_or) (simp_all add: push_bit_eq_mult)
  ultimately show ?thesis by (simp add: is_u32_def)
qed

section \<open>Accesses to a driver\<close>

text \<open>
  The driver's side of the line, as the data sheet has it: a read is answered with the value of the
  register, or not at all; a write is carried out and counted in \<open>IFCNT\<close> (register 2), or lost.
  \<open>regs\<close> and \<open>count\<close> read them off the state of line and world.
\<close>

definition may_be :: "'a res \<Rightarrow> 'a \<Rightarrow> bool" where
  "may_be x v \<longleftrightarrow> (case x of Inl e \<Rightarrow> True | Inr u \<Rightarrow> u = v)"

lemma may_be_simps [simp]: "may_be (Inl e) v" "may_be (Inr u) v \<longleftrightarrow> u = v"
  by (simp_all add: may_be_def)

definition driver_contract ::
  "'w wire \<Rightarrow> int list option \<Rightarrow> int \<Rightarrow> (uart_line \<times> 'w \<Rightarrow> int \<Rightarrow> int) \<Rightarrow> (uart_line \<times> 'w \<Rightarrow> int) \<Rightarrow> bool" where
  "driver_contract W inst addr regs count \<longleftrightarrow>
     (\<forall>s. 0 \<le> count s \<and> count s < 256) \<and>
     (\<forall>r s x s'. reg_read W inst addr r s = (x, s') \<longrightarrow> regs s' = regs s \<and> count s' = count s \<and>
        (x \<noteq> Inr None \<longrightarrow> may_be x (Some (if r = 2 then count s else regs s r)))) \<and>
     (\<forall>r v s x s'. reg_write W inst addr r v s = (x, s') \<longrightarrow> is_byte r \<longrightarrow> r < 128 \<longrightarrow> is_u32 v \<longrightarrow>
        (regs s' = regs s \<and> count s' = count s) \<or>
        (regs s' = (regs s)(r := v) \<and> count s' = (count s + 1) mod 256))"

lemma driver_contract_count: "driver_contract W i a regs count \<Longrightarrow> 0 \<le> count s \<and> count s < 256"
  unfolding driver_contract_def by blast

lemma read_retry_contract:
  "driver_contract W (instance_id t) (tmc_addr t) regs count \<Longrightarrow> read_retry n W t nm r s = (x, s') \<Longrightarrow>
    regs s' = regs s \<and> count s' = count s \<and> may_be x (if r = 2 then count s else regs s r)"
proof (induction n arbitrary: s)
  case (Suc n)
  obtain y u where y: "reg_read W (instance_id t) (tmc_addr t) r s = (y, u)"
    using surj_pair [of "reg_read W (instance_id t) (tmc_addr t) r s"] by blast
  with Suc.prems(1) have u: "regs u = regs s" "count u = count s" "y \<noteq> Inr None \<longrightarrow> may_be y (Some (if r = 2 then count s else regs s r))"
    unfolding driver_contract_def by blast+
  show ?case
  proof (cases y)
    case (Inl e)
    with Suc.prems(2) y u show ?thesis by auto
  next
    case (Inr o')
    show ?thesis
    proof (cases o')
      case None
      then have "read_retry n W t nm r u = (x, s')" using Suc.prems(2) y Inr by simp
      from Suc.IH [OF Suc.prems(1) this] u(1,2) show ?thesis by (cases "r = 2") simp_all
    next
      case (Some v)
      with Suc.prems(2) y u Inr show ?thesis by (cases "r = 2") auto
    qed
  qed
qed auto

definition synced :: "(uart_line \<times> 'w \<Rightarrow> int) \<Rightarrow> 'w uart_state \<Rightarrow> bool" where
  "synced count = (\<lambda>(t, s). \<forall>c. ifcnt t = Some c \<longrightarrow> c = count s)"

definition same_driver :: "tmc_uart \<Rightarrow> tmc_uart \<Rightarrow> bool" where
  "same_driver t t' \<longleftrightarrow> name_to_reg t' = name_to_reg t \<and> instance_id t' = instance_id t \<and>
     tmc_addr t' = tmc_addr t \<and> debugoutput t' = debugoutput t"

lemma do_get_register_contract:
  assumes "driver_contract W (instance_id t) (tmc_addr t) regs count" "dget (name_to_reg t) nm = Some r" "\<not> debugoutput t"
    and "do_get_register W nm (t, s) = (x, (t', s'))"
  shows "t' = t \<and> regs s' = regs s \<and> count s' = count s \<and> may_be x (if r = 2 then count s else regs s r)"
proof -
  obtain y u where y: "read_retry 5 W t nm r s = (y, u)"
    using surj_pair [of "read_retry 5 W t nm r s"] by blast
  with assms(2-4) have "x = y" "t' = t" "s' = u" by (simp_all add: do_get_register_def)
  with read_retry_contract [OF assms(1) y] show ?thesis by simp
qed

lemma mod_256_succ: "0 \<le> c \<Longrightarrow> c < 256 \<Longrightarrow> (c + 1) mod 256 \<noteq> (c::int)"
  using mod_pos_pos_trivial [of "c + 1" 256] by (cases "c = 255") simp_all

lemma write_retry_contract:
  assumes "driver_contract W i a regs count" "is_byte r" "r < 128" "r \<noteq> 2" "is_u32 val"
  shows "instance_id t = i \<Longrightarrow> tmc_addr t = a \<Longrightarrow> dget (name_to_reg t) ''IFCNT'' = Some 2 \<Longrightarrow> \<not> debugoutput t \<Longrightarrow>
    synced count (t, s) \<Longrightarrow> write_retry n W nm r val (t, s) = (Inr (), (t', s')) \<Longrightarrow>
    regs s' r = val \<and> synced count (t', s')"
proof (induction n arbitrary: t s)
  case (Suc n)
  have con: "driver_contract W (instance_id t) (tmc_addr t) regs count" using assms(1) Suc.prems(1,2) by simp
  obtain c t1 s1 where c: "current_ifcnt W (t, s) = (Inr c, (t1, s1))"
    using Suc.prems(6) by (auto split: prod.splits sum.splits)
  have t1: "same_driver t t1" "c = count s1" "synced count (t1, s1)"
  proof -
    have "same_driver t t1 \<and> c = count s1 \<and> synced count (t1, s1)"
    proof (cases "ifcnt t")
      case None
      then obtain t0 where t0: "do_get_register W ''IFCNT'' (t, s) = (Inr c, (t0, s1))" "t1 = t0\<lparr>ifcnt := Some c\<rparr>"
        using c by (auto simp: current_ifcnt_def split: prod.splits sum.splits)
      from do_get_register_contract [OF con Suc.prems(3,4) t0(1)] t0(2) show ?thesis
        by (simp add: same_driver_def synced_def)
    next
      case (Some c0)
      with c Suc.prems(5) show ?thesis by (auto simp: current_ifcnt_def same_driver_def synced_def)
    qed
    then show "same_driver t t1" "c = count s1" "synced count (t1, s1)" by blast+
  qed
  obtain s2 where s2: "reg_write W (instance_id t1) (tmc_addr t1) r val s1 = (Inr (), s2)"
    using Suc.prems(6) c by (auto split: prod.splits sum.splits)
  obtain c' t3 s3 where s3: "do_get_register W ''IFCNT'' (t1, s2) = (Inr c', (t3, s3))"
    using Suc.prems(6) c s2 by (auto split: prod.splits sum.splits)
  have con1: "driver_contract W (instance_id t1) (tmc_addr t1) regs count"
    using con t1(1) by (simp add: same_driver_def)
  have r3: "t3 = t1" "regs s3 = regs s2" "count s3 = count s2" "c' = count s2"
    using do_get_register_contract [OF con1 _ _ s3] t1(1) Suc.prems(3,4) by (simp_all add: same_driver_def)
  have w: "(regs s2 = regs s1 \<and> count s2 = count s1) \<or> (regs s2 = (regs s1)(r := val) \<and> count s2 = (count s1 + 1) mod 256)"
    using con1 s2 assms(2,3,5) unfolding driver_contract_def by blast
  let ?t4 = "t1\<lparr>ifcnt := Some c'\<rparr>"
  have sync4: "synced count (?t4, s3)" using r3 by (simp add: synced_def)
  have step: "write_retry (Suc n) W nm r val (t, s) =
      (if c' = (c + 1) AND 0xff then (Inr (), (?t4, s3)) else write_retry n W nm r val (?t4, s3))"
    by (simp add: c s2 s3 r3(1) Let_def)
  show ?case
  proof (cases "c' = (c + 1) AND 0xff")
    case True
    have cb: "0 \<le> count s1 \<and> count s1 < 256" using assms(1) by (rule driver_contract_count)
    have "count s2 = (count s1 + 1) mod 256" using True r3(4) t1(2) by (simp add: and_0xff)
    with w cb have "regs s2 = (regs s1)(r := val)" using mod_256_succ [of "count s1"] by auto
    with True step Suc.prems(6) r3(2) sync4 show ?thesis by auto
  next
    case False
    with step Suc.prems(6) have "write_retry n W nm r val (?t4, s3) = (Inr (), (t', s'))" by simp
    from Suc.IH [OF _ _ _ _ sync4 this] t1(1) Suc.prems(1-4) show ?thesis by (simp add: same_driver_def)
  qed
qed simp

section \<open>Properties\<close>

text \<open>C33: What the driver answers decodes to the value it sent, and nothing else decodes to it.\<close>

theorem uart_read_decodes:
  assumes "is_byte reg"
  shows "uart_decode_read reg data = Inr (Some val) \<longleftrightarrow>
    is_u32 val \<and> uart_encode_write 0x05 0xff reg val = Inr data"
proof
  assume *: "uart_decode_read reg data = Inr (Some val)"
  then have "length data = 10" "rbind (uart_encode_write 0x05 0xff reg (uart_value data))
      (\<lambda>d. Inr (if data \<noteq> d then None else Some (uart_value data))) = Inr (Some val)"
    unfolding uart_decode_read_eq by (simp_all split: if_splits)
  then show "is_u32 val \<and> uart_encode_write 0x05 0xff reg val = Inr data"
    using uart_value_u32 [of data] by (auto simp: rbind_eq_Inr split: if_splits)
qed (use uart_write_read in blast)

lemma uart_read_decodes_witness:
  "\<exists>data. uart_encode_write 0x05 0xff 0x6c 0xdeadbeef = Inr data \<and> uart_decode_read 0x6c data = Inr (Some 0xdeadbeef)"
proof -
  have r: "is_byte 0x6c" by (simp add: is_byte_def)
  have "uart_encode_write 0x05 0xff 0x6c 0xdeadbeef \<noteq> Inl ValueError"
    by (simp add: uart_encode_write_Inr is_byte_def)
  then obtain data where "uart_encode_write 0x05 0xff 0x6c 0xdeadbeef = Inr data"
    by (auto simp: uart_encode_write_Inr split: if_splits)
  moreover from this have "uart_decode_read 0x6c data = Inr (Some 0xdeadbeef)"
    by (subst uart_read_decodes [OF r]) (simp add: is_u32_def)
  ultimately show ?thesis by blast
qed


subsection \<open>A driver that loses messages\<close>

text \<open>A driver that keeps the contract; \<open>chip_lost\<close> says which of the next messages are lost.\<close>

record chip =
  chip_regs :: "int \<Rightarrow> int"
  chip_count :: int
  chip_lost :: "bool list"

definition chip_reg :: "chip \<Rightarrow> int \<Rightarrow> int" where
  "chip_reg w r = chip_regs w r mod 2 ^ 32"

definition chip_send :: "chip \<Rightarrow> int list \<Rightarrow> nat \<Rightarrow> int list \<times> chip" where
  "chip_send w msg n =
     (let w1 = w\<lparr>chip_lost := tl (chip_lost w)\<rparr>; r = uart_byte msg 2 in
      if chip_lost w \<noteq> [] \<and> hd (chip_lost w) then ([], w1)
      else if n = 10 then
        (case uart_encode_write 0x05 0xff r (if r = 2 then chip_count w mod 256 else chip_reg w r) of
           Inl e \<Rightarrow> ([], w1) | Inr d \<Rightarrow> (d, w1))
      else ([], w1\<lparr>chip_regs := (chip_regs w)(r - 128 := uart_value msg), chip_count := (chip_count w + 1) mod 256\<rparr>))"

definition chip_wire :: "chip wire" where
  "chip_wire = \<lparr>wire_send = chip_send, wire_pin = \<lambda>w oid v. w\<rparr>"

lemma line_activate_chip: "snd (line_activate (wire_pin chip_wire) u i w) = w"
proof -
  have "foldl (\<lambda>w (oid, old, new). if old \<noteq> new then w else w) w xs = w" for xs :: "(int \<times> int \<times> int) list" and w :: chip
    by (induction xs) auto
  then show ?thesis
    by (auto simp: line_activate_def mux_activate_def chip_wire_def split: option.splits)
qed

lemma or_0x80: "is_byte r \<Longrightarrow> r < 128 \<Longrightarrow> r OR 128 = r + (128::int)"
  using septet_facts(1) [of r] by (simp add: is_byte_def)

lemma chip_contract:
  "driver_contract chip_wire i a (\<lambda>s. chip_reg (snd s)) (\<lambda>s. chip_count (snd s) mod 256)"
proof -
  have read: "chip_reg (snd s') = chip_reg (snd s) \<and> chip_count (snd s') mod 256 = chip_count (snd s) mod 256 \<and>
      (x \<noteq> Inr None \<longrightarrow> may_be x (Some (if r = 2 then chip_count (snd s) mod 256 else chip_reg (snd s) r)))"
    if rd: "reg_read chip_wire i a r s = (x, s')" for r s x s'
  proof -
    obtain u w where la: "line_activate (wire_pin chip_wire) (fst s) i (snd s) = (u, w)"
      using surj_pair [of "line_activate (wire_pin chip_wire) (fst s) i (snd s)"] by blast
    have w: "w = snd s" using line_activate_chip [of "fst s" i "snd s"] la by simp
    show ?thesis
    proof (cases "uart_encode_read 0xf5 a r")
      case (Inl e)
      then have "s' = (u, w)" "x = Inl e" using rd la by (simp_all add: reg_read_def)
      with w show ?thesis by simp
    next
      case (Inr m)
      note m = uart_encode_read_bytes [OF Inr]
      obtain d w' where sd: "chip_send w m 10 = (d, w')" using surj_pair [of "chip_send w m 10"] by blast
      have x: "x = uart_decode_read r d" and s': "snd s' = w'"
        using rd la Inr sd by (auto simp: reg_read_def chip_wire_def)
      have keep: "chip_regs w' = chip_regs w" "chip_count w' = chip_count w"
        using sd by (auto simp: chip_send_def Let_def split: if_splits sum.splits)
      let ?v = "if r = 2 then chip_count w mod 256 else chip_reg w r"
      have v: "is_u32 ?v" 
        using pos_mod_bound [of 256 "chip_count w"] by (auto simp: is_u32_def chip_reg_def intro: less_trans)
      have "d = [] \<or> uart_encode_write 0x05 0xff r ?v = Inr d"
        using sd m by (auto simp: chip_send_def Let_def split: if_splits sum.splits)
      then have "uart_decode_read r d = Inr None \<or> uart_decode_read r d = Inr (Some ?v)"
      proof
        assume "d = []"
        then show ?thesis by (simp add: uart_decode_read_def)
      qed (use uart_write_read [OF v] in blast)
      then have "uart_decode_read r d \<noteq> Inr None \<longrightarrow> may_be (uart_decode_read r d) (Some ?v)" by auto
      moreover have "chip_reg w' = chip_reg w" by (rule ext) (simp add: chip_reg_def keep)
      moreover have "chip_count w' mod 256 = chip_count w mod 256" by (simp add: keep)
      ultimately show ?thesis unfolding x s' w [symmetric] by blast
    qed
  qed
  have wrt: "(chip_reg (snd s') = chip_reg (snd s) \<and> chip_count (snd s') mod 256 = chip_count (snd s) mod 256) \<or>
      (chip_reg (snd s') = (chip_reg (snd s))(r := v) \<and> chip_count (snd s') mod 256 = (chip_count (snd s) mod 256 + 1) mod 256)"
    if wr: "reg_write chip_wire i a r v s = (x, s')" and r: "is_byte r" "r < 128" and v: "is_u32 v" for r v s x s'
  proof -
    obtain u w where la: "line_activate (wire_pin chip_wire) (fst s) i (snd s) = (u, w)"
      using surj_pair [of "line_activate (wire_pin chip_wire) (fst s) i (snd s)"] by blast
    have w: "w = snd s" using line_activate_chip [of "fst s" i "snd s"] la by simp
    show ?thesis
    proof (cases "uart_encode_write 0xf5 a (r OR 0x80) v")
      case (Inl e)
      then have "s' = (u, w)" using wr la by (simp add: reg_write_def)
      with w show ?thesis by simp
    next
      case (Inr m)
      have m: "uart_byte m 2 = r + 128" "uart_value m = v"
        using uart_encode_write_bytes(2) [OF Inr] uart_value_write [OF Inr v] or_0x80 [OF r] by simp_all
      obtain d w' where sd: "chip_send w m 0 = (d, w')" using surj_pair [of "chip_send w m 0"] by blast
      have s': "snd s' = w'" using wr la Inr sd by (auto simp: reg_write_def chip_wire_def)
      have "(chip_regs w' = chip_regs w \<and> chip_count w' = chip_count w) \<or>
          (chip_regs w' = (chip_regs w)(r := v) \<and> chip_count w' = (chip_count w + 1) mod 256)"
        using sd m by (auto simp: chip_send_def Let_def split: if_splits)
      moreover have "v mod 2 ^ 32 = v" using v by (simp add: is_u32_def)
      ultimately show ?thesis unfolding s' w chip_reg_def by (auto simp: fun_eq_iff mod_simps)
    qed
  qed
  show ?thesis unfolding driver_contract_def using read wrt by auto
qed

definition example_line :: uart_line where
  "example_line = \<lparr>line_mcu = ''mcu'', line_rx_pin = ''PA1'', line_tx_pin = ''PA1'', line_mux = None, line_instances = []\<rparr>"

definition example_tmc :: tmc_uart where
  "example_tmc = \<lparr>tmc_name = ''stepper_x'', name_to_reg = [(''IFCNT'', 2), (''GCONF'', 0)], ifcnt = Some 0,
     instance_id = None, tmc_addr = 0, debugoutput = False\<rparr>"

definition example_chip :: "bool list \<Rightarrow> chip" where
  "example_chip lost = \<lparr>chip_regs = (\<lambda>_. 0), chip_count = 0, chip_lost = lost\<rparr>"


text \<open>
  After a failed \<open>set_register\<close> the recorded \<open>IFCNT\<close> may be stale, although the write was counted:
  then the next write may be lost and still be reported as done.
\<close>

lemma stale_ifcnt_acknowledges_lost_write:
  "(let lost = [False, True, True, True, True, True, True];
        r1 = set_register chip_wire ''GCONF'' 5 (example_tmc, example_line, example_chip lost);
        r2 = set_register chip_wire ''GCONF'' 7 (snd r1)
    in fst r1 \<noteq> Inr () \<and> fst r2 = Inr () \<and> chip_reg (snd (snd (snd r2))) 0 = 5)"
  by code_simp

end
