(* ===== verification/TmcFields.thy ===== *)
theory TmcFields
  imports PyBits PyStrings
begin

unbundle bit_operations_syntax

text \<open>
  \<open>klippy/extras/tmc.py\<close>: the fields of the driver's registers (\<open>FieldHelper\<close>) and the periodic
  check of its error flags (\<open>TMCErrorCheck\<close>).

  Registers are Python integers. The accesses to the chip are parameters: \<open>get w reg\<close> and
  \<open>set w reg v\<close> give a result and the next state of the world, \<open>pause w\<close> waits.
\<close>

section \<open>Bits and orders\<close>

function bit_length :: "int \<Rightarrow> nat" where
  "bit_length i = (if i = 0 then 0 else Suc (bit_length (\<bar>i\<bar> div 2)))"
  by pat_completeness auto
termination
  by (relation "measure (\<lambda>i. nat \<bar>i\<bar>)") auto

declare bit_length.simps [simp del]

definition ffs :: "int \<Rightarrow> int" where
  "ffs m = int (bit_length (m AND - m)) - 1"

text \<open>Python's shifts refuse a negative count.\<close>

definition py_shr :: "int \<Rightarrow> int \<Rightarrow> int res" where
  "py_shr x n = (if n < 0 then Inl ValueError else Inr (drop_bit (nat n) x))"

definition py_shl :: "int \<Rightarrow> int \<Rightarrow> int res" where
  "py_shl x n = (if n < 0 then Inl ValueError else Inr (push_bit (nat n) x))"

definition pair_le :: "int \<times> string \<Rightarrow> int \<times> string \<Rightarrow> bool" where
  "pair_le p q \<longleftrightarrow> fst p < fst q \<or> (fst p = fst q \<and> str_le (snd p) (snd q))"

section \<open>FieldHelper\<close>

record field_helper =
  all_fields :: "(string, (string, int) dict) dict"
  signed_fields :: "string list"
  field_formatters :: "(string, int \<Rightarrow> string) dict"
  registers :: "(string, int) dict"

definition field_to_register :: "field_helper \<Rightarrow> (string, string) dict" where
  "field_to_register h = dict_of (concat (map (\<lambda>(r, fields). map (\<lambda>f. (f, r)) (dkeys fields)) (all_fields h)))"

definition lookup_register :: "field_helper \<Rightarrow> string \<Rightarrow> string option" where
  "lookup_register h field_name = dget (field_to_register h) field_name"

definition reg_name_of :: "field_helper \<Rightarrow> string \<Rightarrow> string option \<Rightarrow> string res" where
  "reg_name_of h field_name reg_name =
     (case reg_name of Some r \<Rightarrow> Inr r | None \<Rightarrow> res_of KeyError (dget (field_to_register h) field_name))"

definition reg_value_of :: "field_helper \<Rightarrow> string \<Rightarrow> int option \<Rightarrow> int" where
  "reg_value_of h r reg_value = (case reg_value of Some v \<Rightarrow> v | None \<Rightarrow> dget_or (registers h) r 0)"

definition field_mask :: "field_helper \<Rightarrow> string \<Rightarrow> string \<Rightarrow> int res" where
  "field_mask h r field_name =
     rbind (res_of KeyError (dget (all_fields h) r)) (\<lambda>fs. res_of KeyError (dget fs field_name))"

definition get_field :: "field_helper \<Rightarrow> string \<Rightarrow> int option \<Rightarrow> string option \<Rightarrow> int res" where
  "get_field h field_name reg_value reg_name =
     rbind (reg_name_of h field_name reg_name) (\<lambda>r.
     let rv = reg_value_of h r reg_value in
     rbind (field_mask h r field_name) (\<lambda>m.
     rbind (py_shr (rv AND m) (ffs m)) (\<lambda>field_value.
       Inr (if field_name \<in> set (signed_fields h) \<and> push_bit 1 (rv AND m) > m
            then field_value - push_bit (bit_length field_value) 1 else field_value))))"

definition set_field ::
  "string \<Rightarrow> int \<Rightarrow> int option \<Rightarrow> string option \<Rightarrow> field_helper \<Rightarrow> (int \<times> field_helper) res" where
  "set_field field_name field_value reg_value reg_name h =
     rbind (reg_name_of h field_name reg_name) (\<lambda>r.
     let rv = reg_value_of h r reg_value in
     rbind (field_mask h r field_name) (\<lambda>m.
     rbind (py_shl field_value (ffs m)) (\<lambda>shifted.
       let new_value = (rv AND NOT m) OR (shifted AND m) in
       Inr (new_value, h\<lparr>registers := dset r new_value (registers h)\<rparr>))))"

text \<open>
  The options of the configuration are parameters: \<open>getboolean name\<close> and
  \<open>getint name minval maxval\<close>.
\<close>

definition set_config_field ::
  "(string \<Rightarrow> bool res) \<Rightarrow> (string \<Rightarrow> int \<Rightarrow> int \<Rightarrow> int res) \<Rightarrow> string \<Rightarrow> field_helper \<Rightarrow> (int \<times> field_helper) res" where
  "set_config_field getboolean getint field_name h =
     (let config_name = ''driver_'' @ upper field_name in
      rbind (reg_name_of h field_name None) (\<lambda>r.
      rbind (field_mask h r field_name) (\<lambda>m.
      rbind (py_shr m (ffs m)) (\<lambda>maxval.
      rbind (if maxval = 1 then rbind (getboolean config_name) (\<lambda>b. Inr (if b then 1 else 0))
             else if field_name \<in> set (signed_fields h)
             then getint config_name (- (maxval div 2 + 1)) (maxval div 2)
             else getint config_name 0 maxval) (\<lambda>val.
        set_field field_name val None None h)))))"

text \<open>\<open>'%-11s %08x%s'\<close>\<close>

definition hex08 :: "int \<Rightarrow> string" where
  "hex08 v = (if v < 0 then CHR ''-'' # lower (hex_pad 7 (nat (- v))) else lower (hex_pad 8 (nat v)))"

definition pad_right :: "nat \<Rightarrow> string \<Rightarrow> string" where
  "pad_right n s = s @ replicate (n - length s) (CHR '' '')"

definition format_field :: "field_helper \<Rightarrow> string \<Rightarrow> int \<Rightarrow> string" where
  "format_field h field_name v = (case dget (field_formatters h) field_name of Some f \<Rightarrow> f v | None \<Rightarrow> str_int v)"

definition pretty_format :: "field_helper \<Rightarrow> string \<Rightarrow> int \<Rightarrow> string res" where
  "pretty_format h reg_name reg_value =
     (let reg_fields = dget_or (all_fields h) reg_name [];
          sorted_fields = sort_by pair_le (map (\<lambda>(name, m). (m, name)) reg_fields)
      in rbind (rmap (\<lambda>(m, field_name).
             rbind (get_field h field_name (Some reg_value) (Some reg_name)) (\<lambda>v.
               let sval = format_field h field_name v in
               Inr (if sval \<noteq> [] \<and> sval \<noteq> ''0'' then '' '' @ field_name @ ''='' @ sval else [])))
           sorted_fields) (\<lambda>fields.
         Inr (pad_right 11 (reg_name @ '':'') @ '' '' @ hex08 reg_value @ concat fields)))"

definition get_reg_fields :: "field_helper \<Rightarrow> string \<Rightarrow> int \<Rightarrow> (string, int) dict res" where
  "get_reg_fields h reg_name reg_value =
     rmap (\<lambda>(field_name, m).
       rbind (get_field h field_name (Some reg_value) (Some reg_name)) (\<lambda>v. Inr (field_name, v)))
       (dget_or (all_fields h) reg_name [])"

section \<open>TMCErrorCheck\<close>

record reg_info =
  last_value :: int
  ri_reg_name :: string
  ri_mask :: int
  err_mask :: int
  cs_actual_mask :: int

record error_check =
  ec_stepper_name :: string
  ec_fields :: field_helper
  check_timer :: "int option"
  last_drv_status :: "int option"
  last_status :: "(string, int) dict option"
  gstat_reg_info :: "reg_info option"
  clear_gstat :: bool
  irun_field :: string
  drv_status_reg_info :: reg_info

definition err_fields :: "string list" where
  "err_fields = [''ot'', ''s2ga'', ''s2gb'', ''s2vsa'', ''s2vsb'']"

definition warn_fields :: "string list" where
  "warn_fields = [''otpw'', ''t120'', ''t143'', ''t150'', ''t157'']"

definition error_check_init :: "string list \<Rightarrow> field_helper \<Rightarrow> error_check res" where
  "error_check_init name_parts h =
     (let gstat = map_option (\<lambda>r. \<lparr>last_value = 0, ri_reg_name = r, ri_mask = 0xffffffff,
                     err_mask = 0xffffffff, cs_actual_mask = 0\<rparr>) (lookup_register h ''drv_err'');
          driver = (if name_parts = [] then [] else hd name_parts)
      in
      rbind (if name_parts = [] then Inl IndexError
        else if driver = ''tmc2130'' then
          rbind (field_mask h ''DRV_STATUS'' ''cs_actual'') (\<lambda>m. Inr (''irun'', ''DRV_STATUS'', m, False))
        else if driver = ''tmc2660'' then
          rbind (field_mask h ''READRSP@RDSEL2'' ''se'') (\<lambda>m. Inr (''cs'', ''READRSP@RDSEL2'', m, True))
        else Inr (''irun'', ''DRV_STATUS'', 0, True)) (\<lambda>(irun, reg_name, cs, clear).
      rbind (res_of KeyError (dget (all_fields h) reg_name)) (\<lambda>fs.
        let ms = (\<lambda>names. foldl (\<lambda>a f. a OR dget_or fs f 0) 0 names) in
        Inr \<lparr>ec_stepper_name = join '' '' (tl name_parts), ec_fields = h, check_timer = None,
          last_drv_status = None, last_status = None, gstat_reg_info = gstat, clear_gstat = clear,
          irun_field = irun,
          drv_status_reg_info = \<lparr>last_value = 0, ri_reg_name = reg_name,
            ri_mask = ms (err_fields @ warn_fields), err_mask = ms err_fields, cs_actual_mask = cs\<rparr>\<rparr>)))"

record 'w chip_access =
  chip_get :: "'w \<Rightarrow> string \<Rightarrow> int res \<times> 'w"
  chip_set :: "'w \<Rightarrow> string \<Rightarrow> int \<Rightarrow> unit res \<times> 'w"
  chip_pause :: "'w \<Rightarrow> 'w"

text \<open>Whether a reading without error flags ends the query (\<open>break\<close>) or shows a reset driver.\<close>

definition reading_ok :: "error_check \<Rightarrow> reg_info \<Rightarrow> int \<Rightarrow> bool res" where
  "reading_ok ec ri val =
     (if val AND err_mask ri \<noteq> 0 then Inr False
      else if cs_actual_mask ri = 0 \<or> val AND cs_actual_mask ri \<noteq> 0 then Inr True
      else rbind (get_field (ec_fields ec) (irun_field ec) None None) (\<lambda>irun.
        if check_timer ec = None \<or> irun < 4 then Inr True
        else if irun_field ec = ''irun'' then
          rbind (get_field (ec_fields ec) ''ihold'' None None) (\<lambda>ihold. Inr (ihold = 0))
        else Inr False))"

definition retry_read :: "nat \<Rightarrow> exc \<Rightarrow> bool" where
  "retry_read count e =
     (case e of AppError m \<Rightarrow> count + 1 < 3 \<and> startswith m ''Unable to read tmc uart'' | _ \<Rightarrow> False)"

function query_loop ::
  "'w chip_access \<Rightarrow> error_check \<Rightarrow> reg_info \<Rightarrow> bool \<Rightarrow> int \<Rightarrow> nat \<Rightarrow> 'w \<Rightarrow> int res \<times> reg_info \<times> 'w" where
  "query_loop A ec ri try_clear cleared count w =
     (case chip_get A w (ri_reg_name ri) of
        (Inl e, w1) \<Rightarrow>
          if retry_read count e then query_loop A ec ri try_clear cleared (count + 1) (chip_pause A w1)
          else (Inl e, ri, w1)
      | (Inr val, w1) \<Rightarrow>
          let ri1 = ri\<lparr>last_value := val\<rparr> in
          (case reading_ok ec ri val of
             Inl e \<Rightarrow> (Inl e, ri1, w1)
           | Inr True \<Rightarrow> (Inr cleared, ri1, w1)
           | Inr False \<Rightarrow>
               if count + 1 \<ge> 3 then
                 (rbind (pretty_format (ec_fields ec) (ri_reg_name ri) val) (\<lambda>fmt.
                    Inl (AppError (''TMC '' @ quoted (ec_stepper_name ec) @ '' reports error: '' @ fmt))), ri1, w1)
               else if try_clear \<and> val AND err_mask ri \<noteq> 0 then
                 (case chip_set A w1 (ri_reg_name ri) (val AND err_mask ri) of
                    (Inl e, w2) \<Rightarrow> (Inl e, ri1, w2)
                  | (Inr _, w2) \<Rightarrow>
                      query_loop A ec ri1 False (cleared OR (val AND err_mask ri)) (count + 1) w2)
               else query_loop A ec ri1 try_clear cleared (count + 1) w1))"
  by pat_completeness auto
termination
  by (relation "measure (\<lambda>(A, ec, ri, try_clear, cleared, count, w). 3 - count)")
    (auto simp: retry_read_def split: exc.splits)

declare query_loop.simps [simp del]

definition query_register ::
  "'w chip_access \<Rightarrow> error_check \<Rightarrow> reg_info \<Rightarrow> bool \<Rightarrow> 'w \<Rightarrow> int res \<times> reg_info \<times> 'w" where
  "query_register A ec ri try_clear w = query_loop A ec ri try_clear 0 0 w"

text \<open>Both registers are queried; the second one only when there is one.\<close>

definition query_both :: "'w chip_access \<Rightarrow> bool \<Rightarrow> error_check \<Rightarrow> 'w \<Rightarrow> int res \<times> error_check \<times> 'w" where
  "query_both A try_clear ec w =
     (case query_register A ec (drv_status_reg_info ec) False w of
        (Inl e, ri, w1) \<Rightarrow> (Inl e, ec\<lparr>drv_status_reg_info := ri\<rparr>, w1)
      | (Inr _, ri, w1) \<Rightarrow>
          let ec1 = ec\<lparr>drv_status_reg_info := ri\<rparr> in
          (case gstat_reg_info ec1 of
             None \<Rightarrow> (Inr 0, ec1, w1)
           | Some g \<Rightarrow>
               (case query_register A ec1 g try_clear w1 of
                  (r, g', w2) \<Rightarrow> (r, ec1\<lparr>gstat_reg_info := Some g'\<rparr>, w2))))"

text \<open>The next time of the timer (\<open>None\<close> is \<open>NEVER\<close>) and the reason of a shutdown.\<close>

definition do_periodic_check ::
  "'w chip_access \<Rightarrow> int \<Rightarrow> error_check \<Rightarrow> 'w \<Rightarrow> (int option \<times> string option) res \<times> error_check \<times> 'w" where
  "do_periodic_check A eventtime ec w =
     (case query_both A False ec w of
        (Inl (AppError m), ec1, w1) \<Rightarrow> (Inr (None, Some m), ec1, w1)
      | (Inl e, ec1, w1) \<Rightarrow> (Inl e, ec1, w1)
      | (Inr _, ec1, w1) \<Rightarrow> (Inr (Some (eventtime + 1), None), ec1, w1))"

definition stop_checks :: "error_check \<Rightarrow> error_check" where
  "stop_checks ec = (if check_timer ec = None then ec else ec\<lparr>check_timer := None\<rparr>)"

definition start_checks :: "'w chip_access \<Rightarrow> int \<Rightarrow> error_check \<Rightarrow> 'w \<Rightarrow> bool res \<times> error_check \<times> 'w" where
  "start_checks A curtime ec w =
     (case query_both A (clear_gstat ec) (stop_checks ec) w of
        (Inl e, ec1, w1) \<Rightarrow> (Inl e, ec1, w1)
      | (Inr cleared_flags, ec1, w1) \<Rightarrow>
          let ec2 = ec1\<lparr>check_timer := Some (curtime + 1)\<rparr> in
          if cleared_flags \<noteq> 0 then
            (rbind (field_mask (ec_fields ec2) ''GSTAT'' ''reset'') (\<lambda>reset_mask.
               Inr (cleared_flags AND reset_mask \<noteq> 0)), ec2, w1)
          else (Inr False, ec2, w1))"

definition error_check_status :: "error_check \<Rightarrow> (string, int) dict option res \<times> error_check" where
  "error_check_status ec =
     (if check_timer ec = None then (Inr None, ec)
      else
        let lv = last_value (drv_status_reg_info ec); reg_name = ri_reg_name (drv_status_reg_info ec) in
        if Some lv \<noteq> last_drv_status ec then
          let ec1 = ec\<lparr>last_drv_status := Some lv\<rparr> in
          (case get_reg_fields (ec_fields ec) reg_name lv of
             Inl e \<Rightarrow> (Inl e, ec1)
           | Inr fs \<Rightarrow>
               let st = filter (\<lambda>(n, v). v \<noteq> 0) fs in
               (Inr (Some st), ec1\<lparr>last_status := Some st\<rparr>))
        else (Inr (last_status ec), ec))"

section \<open>A field is a slice of its register\<close>

text \<open>The mask of a field: \<open>w\<close> bits from bit \<open>s\<close> on.\<close>

definition slice_mask :: "nat \<Rightarrow> nat \<Rightarrow> int" where
  "slice_mask s w = push_bit s (mask w)"

lemma bit_length_exact: "2 ^ k \<le> n \<Longrightarrow> n < 2 ^ Suc k \<Longrightarrow> bit_length n = Suc k"
proof (induction k arbitrary: n)
  case 0
  then have "n = 1" by simp
  then show ?case by (simp add: bit_length.simps)
next
  case (Suc k)
  have "2 ^ k \<le> n div 2" "n div 2 < 2 ^ Suc k"
    using Suc.prems div_within [of 2 "2 ^ k" n "2 ^ Suc k"] by (simp_all add: mult.commute)
  then have "bit_length (n div 2) = Suc k" by (rule Suc.IH)
  moreover have "0 < n" using Suc.prems(1) by (rule less_le_trans [rotated]) simp
  ultimately show ?case by (subst bit_length.simps) simp
qed

lemma odd_and_minus: "odd (k::int) \<Longrightarrow> k AND - k = 1"
proof (rule bit_eqI)
  fix n
  assume "odd k"
  then obtain j where k: "k = 2 * j + 1" by (elim oddE)
  have "- k = NOT (2 * j)" by (simp add: k not_int_def)
  then have "bit (k AND - k) n = (bit k n \<and> \<not> bit (2 * j) n)" by (simp add: bit_and_iff bit_not_iff)
  also have "\<dots> = bit (1::int) n"
    by (cases n) (simp_all add: k bit_Suc bit_0 bit_1_iff)
  finally show "bit (k AND - k) n = bit (1::int) n" .
qed

lemma ffs_slice: "0 < w \<Longrightarrow> ffs (slice_mask s w) = int s"
proof -
  assume "0 < w"
  then have odd: "odd (mask w :: int)" by (simp add: mask_eq_exp_minus_1)
  have "slice_mask s w AND - slice_mask s w = push_bit s (mask w AND - mask w)"
    unfolding slice_mask_def by (simp add: push_bit_and push_bit_minus)
  also have "\<dots> = 2 ^ s" using odd_and_minus [OF odd] by (simp add: push_bit_eq_mult)
  finally show ?thesis using bit_length_exact [of s "2 ^ s"] by (simp add: ffs_def)
qed

lemma slice_get: "drop_bit s (((rv AND NOT (slice_mask s w)) OR (push_bit s v AND slice_mask s w)) AND slice_mask s w) = take_bit w (v::int)"
  by (rule bit_eqI) (auto simp: slice_mask_def bit_simps)

lemma slice_and: "x AND slice_mask s w = push_bit s (take_bit w (drop_bit s x))"
  by (rule bit_eqI) (auto simp: slice_mask_def bit_simps)

lemma slice_other:
  assumes "m AND m' = 0"
  shows "((rv AND NOT m) OR (x AND m)) AND m' = rv AND (m'::int)"
proof (rule bit_eqI)
  fix n
  have "bit (m AND m') n = False" using assms by simp
  then show "bit (((rv AND NOT m) OR (x AND m)) AND m') n = bit (rv AND m') n" by (auto simp: bit_simps)
qed

text \<open>A value fits a field of \<open>w\<close> bits.\<close>

definition field_fits :: "bool \<Rightarrow> nat \<Rightarrow> int \<Rightarrow> bool" where
  "field_fits sg w v \<longleftrightarrow>
     (if sg then - (2 ^ (w - 1)) \<le> v \<and> v < 2 ^ (w - 1) else 0 \<le> v \<and> v < 2 ^ w)"

lemma signed_slice_value:
  assumes "0 < w" "field_fits True w v"
  shows "(if push_bit 1 (push_bit s (take_bit w v)) > slice_mask s w
      then take_bit w v - push_bit (bit_length (take_bit w v)) 1 else take_bit w v) = v"
proof -
  have w: "(2::int) ^ w = 2 * 2 ^ (w - 1)" using assms(1) by (cases w) simp_all
  have fits: "- (2 ^ (w - 1)) \<le> v" "v < 2 ^ (w - 1)" using assms(2) by (simp_all add: field_fits_def)
  have test: "push_bit 1 (push_bit s (take_bit w v)) > slice_mask s w \<longleftrightarrow> 2 ^ (w - 1) \<le> take_bit w v"
  proof -
    have "push_bit 1 (push_bit s (take_bit w v)) > slice_mask s w \<longleftrightarrow> 2 * take_bit w v * 2 ^ s > (2 ^ w - 1) * 2 ^ s"
      by (simp add: slice_mask_def push_bit_eq_mult mask_eq_exp_minus_1 ac_simps)
    also have "\<dots> \<longleftrightarrow> 2 * take_bit w v > 2 ^ w - 1" by (rule mult_less_cancel_right_pos) simp
    also have "\<dots> \<longleftrightarrow> 2 ^ (w - 1) \<le> take_bit w v" unfolding w by linarith
    finally show ?thesis .
  qed
  show ?thesis
  proof (cases "v < 0")
    case True
    have "v mod 2 ^ w = (v + 2 ^ w) mod 2 ^ w" by simp
    also have "\<dots> = v + 2 ^ w" using True fits w by (intro mod_pos_pos_trivial) simp_all
    finally have tb: "take_bit w v = v + 2 ^ w" by (simp add: take_bit_eq_mod)
    have "2 ^ (w - 1) \<le> take_bit w v" "take_bit w v < 2 ^ Suc (w - 1)" unfolding tb w using True fits by simp_all
    then have "bit_length (take_bit w v) = w" using bit_length_exact [of "w - 1" "take_bit w v"] assms(1) by simp
    with test \<open>2 ^ (w - 1) \<le> take_bit w v\<close> show ?thesis by (simp add: tb push_bit_eq_mult)
  next
    case False
    then have "take_bit w v = v" using fits w by (simp add: take_bit_int_eq_self)
    with test fits show ?thesis by simp
  qed
qed

text \<open>A helper whose fields are slices: reading and writing by name.\<close>

definition field_is :: "field_helper \<Rightarrow> string \<Rightarrow> string \<Rightarrow> nat \<Rightarrow> nat \<Rightarrow> bool" where
  "field_is h f r s w \<longleftrightarrow> lookup_register h f = Some r \<and> field_mask h r f = Inr (slice_mask s w) \<and> 0 < w"

lemma set_field_Inr:
  "field_is h f r s w \<Longrightarrow>
    set_field f v None None h =
      (let nv = (dget_or (registers h) r 0 AND NOT (slice_mask s w)) OR (push_bit s v AND slice_mask s w)
       in Inr (nv, h\<lparr>registers := dset r nv (registers h)\<rparr>))"
  by (simp add: set_field_def field_is_def reg_name_of_def lookup_register_def reg_value_of_def py_shl_def ffs_slice Let_def)

lemma get_field_slice:
  "field_is h f r s w \<Longrightarrow>
    get_field h f None None =
      (let rv = dget_or (registers h) r 0 in
       Inr (if f \<in> set (signed_fields h) \<and> push_bit 1 (push_bit s (take_bit w (drop_bit s rv))) > slice_mask s w
         then take_bit w (drop_bit s rv) - push_bit (bit_length (take_bit w (drop_bit s rv))) 1
         else take_bit w (drop_bit s rv)))"
proof -
  assume "field_is h f r s w"
  moreover have "drop_bit s (x AND slice_mask s w) = take_bit w (drop_bit s x)" for x
    unfolding slice_and by (rule bit_eqI) (simp add: bit_simps)
  ultimately show ?thesis
    unfolding get_field_def field_is_def reg_name_of_def lookup_register_def reg_value_of_def
    by (simp only: py_shr_def ffs_slice Let_def slice_and option.case res_of_simps rbind_Inr) simp
qed

lemma field_is_set: "field_is h f r s w \<Longrightarrow> field_is (h\<lparr>registers := rs\<rparr>) f r s w"
  by (simp add: field_is_def lookup_register_def field_to_register_def field_mask_def)

lemma slice_drop_bit:
  "take_bit w (drop_bit s ((rv AND NOT (slice_mask s w)) OR (push_bit s v AND slice_mask s w))) = take_bit w (v::int)"
  by (rule bit_eqI) (auto simp: slice_mask_def bit_simps)

section \<open>The loop of a query\<close>

text \<open>A query that returns has read a register without error flags; it reads at most three times.\<close>

definition counted :: "'w chip_access \<Rightarrow> ('w \<times> nat) chip_access" where
  "counted A = \<lparr>chip_get = (\<lambda>(w, n) r. case chip_get A w r of (x, w') \<Rightarrow> (x, (w', Suc n))),
     chip_set = (\<lambda>(w, n) r v. case chip_set A w r v of (x, w') \<Rightarrow> (x, (w', n))),
     chip_pause = (\<lambda>(w, n). (chip_pause A w, n))\<rparr>"

lemma reading_ok_flags: "reading_ok ec ri val = Inr True \<Longrightarrow> val AND err_mask ri = 0"
  by (auto simp: reading_ok_def split: if_splits)

lemma query_loop_result:
  "query_loop A ec ri tc cl count w = (Inr cl', ri', w') \<Longrightarrow>
    last_value ri' AND err_mask ri' = 0 \<and> err_mask ri' = err_mask ri \<and> ri_reg_name ri' = ri_reg_name ri"
proof (induction A ec ri tc cl count w rule: query_loop.induct)
  case (1 A ec ri tc cl count w)
  obtain x w1 where x: "chip_get A w (ri_reg_name ri) = (x, w1)" by (cases "chip_get A w (ri_reg_name ri)")
  show ?case
  proof (cases x)
    case (Inl e)
    have r: "retry_read count e" 
      using 1(4) by (subst (asm) query_loop.simps) (simp add: x Inl split: if_splits)
    then have "query_loop A ec ri tc cl (count + 1) (chip_pause A w1) = (Inr cl', ri', w')"
      using 1(4) by (subst (asm) query_loop.simps) (simp add: x Inl)
    from 1(1) [OF x [symmetric] Inl r this] show ?thesis .
  next
    case (Inr val)
    let ?ri = "ri\<lparr>last_value := val\<rparr>"
    show ?thesis
    proof (cases "reading_ok ec ri val")
      case (Inl e)
      then show ?thesis using 1(4) by (subst (asm) query_loop.simps) (simp add: x Inr Let_def)
    next
      case ok: (Inr b)
      show ?thesis
      proof (cases b)
        case True
        with 1(4) ok reading_ok_flags [of ec ri val] show ?thesis
          by (subst (asm) query_loop.simps) (auto simp: x Inr Let_def)
      next
        case False
        have c: "\<not> 3 \<le> count + 1"
          using 1(4) ok False by (subst (asm) query_loop.simps) (auto simp: x Inr Let_def rbind_eq_Inr split: if_splits)
        show ?thesis
        proof (cases "tc \<and> val AND err_mask ri \<noteq> 0")
          case True
          obtain y w2 where y: "chip_set A w1 (ri_reg_name ri) (val AND err_mask ri) = (y, w2)"
            by (cases "chip_set A w1 (ri_reg_name ri) (val AND err_mask ri)")
          have y0: "y = Inr ()"
            using 1(4) ok False c True y by (subst (asm) query_loop.simps) (cases y; auto simp: x Inr Let_def)
          have "query_loop A ec ?ri False (cl OR (val AND err_mask ri)) (count + 1) w2 = (Inr cl', ri', w')"
            using 1(4) ok False c True y y0 by (subst (asm) query_loop.simps) (simp add: x Inr Let_def)
          from 1(2) [OF x [symmetric] Inr refl ok _ c True y [symmetric] y0 this] False show ?thesis by auto
        next
          case nt: False
          have "query_loop A ec ?ri tc cl (count + 1) w1 = (Inr cl', ri', w')"
            using 1(4) ok False c nt by (subst (asm) query_loop.simps) (auto simp: x Inr Let_def)
          from 1(3) [OF x [symmetric] Inr refl ok _ c nt this] False show ?thesis by auto
        qed
      qed
    qed
  qed
qed

lemma counted_simps [simp]:
  "chip_get (counted A) w r = (fst (chip_get A (fst w) r), (snd (chip_get A (fst w) r), Suc (snd w)))"
  "chip_set (counted A) w r v = (fst (chip_set A (fst w) r v), (snd (chip_set A (fst w) r v), snd w))"
  "chip_pause (counted A) w = (chip_pause A (fst w), snd w)"
  by (simp_all add: counted_def split: prod.splits)

lemma query_loop_count:
  "count < 3 \<Longrightarrow> snd (snd (snd (query_loop (counted A) ec ri tc cl count w))) \<le> snd w + (3 - count)"
proof (induction "3 - count" arbitrary: count ri tc cl w)
  case (Suc k)
  have IH: "snd (snd (snd (query_loop (counted A) ec ri' tc' cl' (Suc count) w'))) \<le> snd w + 3 - count"
    if "snd w' = Suc (snd w)" "count < 2" for ri' tc' cl' w'
  proof -
    have "snd (snd (snd (query_loop (counted A) ec ri' tc' cl' (Suc count) w'))) \<le> snd w' + (3 - Suc count)"
      using Suc.hyps(2) that(2) by (intro Suc.hyps(1)) simp_all
    with that show ?thesis by simp
  qed
  show ?case
    using Suc.prems
    by (subst query_loop.simps)
      (auto simp: Let_def retry_read_def rbind_def intro!: IH split: sum.splits bool.splits exc.splits if_splits prod.splits)
qed simp

section \<open>Properties\<close>

text \<open>Writing a value that fits a field makes the field read as that value, signed or not, and
  changes no field whose bits are other bits of the register, or bits of another register.
\<close>

theorem field_write:
  assumes f: "field_is h f r s w" and fits: "field_fits (f \<in> set (signed_fields h)) w v"
    and set: "set_field f v None None h = Inr (nv, h')"
    and g: "field_is h g r' s' w'" and other: "r \<noteq> r' \<or> slice_mask s w AND slice_mask s' w' = 0"
  shows "get_field h' f None None = Inr v \<and> get_field h' g None None = get_field h g None None"
proof
  let ?nv = "(dget_or (registers h) r 0 AND NOT (slice_mask s w)) OR (push_bit s v AND slice_mask s w)"
  have h': "h' = h\<lparr>registers := dset r ?nv (registers h)\<rparr>"
    using set set_field_Inr [OF f, of v] by (auto simp: Let_def)
  have f': "field_is h' f r s w" and g': "field_is h' g r' s' w'"
    unfolding h' by (rule field_is_set, fact)+
  have sg: "signed_fields h' = signed_fields h" by (simp add: h')
  have rv: "dget_or (registers h') r 0 = ?nv" by (simp add: h' dget_or_def)
  show "get_field h' f None None = Inr v"
  proof (cases "f \<in> set (signed_fields h)")
    case True
    have "0 < w" using f by (simp add: field_is_def)
    with True fits signed_slice_value [of w v s] show ?thesis
      unfolding get_field_slice [OF f'] Let_def rv slice_drop_bit sg by simp
  next
    case False
    then have "take_bit w v = v" using fits by (simp add: field_fits_def take_bit_int_eq_self)
    with False show ?thesis
      unfolding get_field_slice [OF f'] Let_def rv slice_drop_bit sg by simp
  qed
  have "take_bit w' (drop_bit s' (dget_or (registers h') r' 0)) = take_bit w' (drop_bit s' (dget_or (registers h) r' 0))"
  proof (cases "r = r'")
    case True
    with other have "?nv AND slice_mask s' w' = dget_or (registers h) r 0 AND slice_mask s' w'"
      by (intro slice_other) simp
    then have "push_bit s' (take_bit w' (drop_bit s' ?nv)) = push_bit s' (take_bit w' (drop_bit s' (dget_or (registers h) r 0)))"
      unfolding slice_and .
    then show ?thesis using rv True by (simp add: push_bit_eq_mult)
  next
    case False
    then show ?thesis by (simp add: h' dget_or_def)
  qed
  then show "get_field h' g None None = get_field h g None None"
    unfolding get_field_slice [OF g'] get_field_slice [OF g] Let_def sg by simp
qed

definition example_fields :: field_helper where
  "example_fields = \<lparr>all_fields = [(''CHOPCONF'', [(''toff'', 0x0f), (''hstrt'', 0x70), (''hend'', 0x780)]), (''COOLCONF'', [(''sgt'', 0x7f0000)])],
     signed_fields = [''sgt''], field_formatters = [], registers = [(''CHOPCONF'', 0x53)]\<rparr>"

lemma field_write_witness:
  "\<exists>nv h'. set_field ''sgt'' (-5) None None example_fields = Inr (nv, h') \<and>
    get_field h' ''sgt'' None None = Inr (-5) \<and> get_field h' ''hstrt'' None None = get_field example_fields ''hstrt'' None None"
proof -
  have f: "field_is example_fields ''sgt'' ''COOLCONF'' 16 7"
    by (simp add: field_is_def lookup_register_def field_to_register_def field_mask_def example_fields_def dict_of_def
        slice_mask_def mask_eq_exp_minus_1 push_bit_eq_mult)
  have g: "field_is example_fields ''hstrt'' ''CHOPCONF'' 4 3"
    by (simp add: field_is_def lookup_register_def field_to_register_def field_mask_def example_fields_def dict_of_def
        slice_mask_def mask_eq_exp_minus_1 push_bit_eq_mult)
  obtain nv h' where s: "set_field ''sgt'' (-5) None None example_fields = Inr (nv, h')"
    using set_field_Inr [OF f] by (simp add: Let_def)
  have "get_field h' ''sgt'' None None = Inr (-5) \<and> get_field h' ''hstrt'' None None = get_field example_fields ''hstrt'' None None"
    by (rule field_write [OF f _ s g]) (simp_all add: field_fits_def example_fields_def)
  with s show ?thesis by blast
qed

text \<open>A query reads its register at most three times, and when it reports no error the last value
  it read has no error flag set.
\<close>

theorem query_register_bounded:
  "snd (snd (snd (query_register (counted A) ec ri try_clear (w, n)))) \<le> n + 3 \<and>
   (case query_register A ec ri try_clear w of
      (Inr cleared, ri', w') \<Rightarrow> last_value ri' AND err_mask ri = 0
    | _ \<Rightarrow> True)"
  using query_loop_count [of 0 A ec ri try_clear 0 "(w, n)"] query_loop_result [of A ec ri try_clear 0 0 w]
  by (auto simp: query_register_def split: prod.splits sum.splits)

end
