(* ===== verification/Pins.thy ===== *)
theory Pins
  imports PyRegex
begin

text \<open>
  \<open>klippy/pins.py\<close>: the aliases and reservations of a micro-controller's pins (\<open>PinResolver\<close>) and
  the pins the configuration uses (\<open>PrinterPins\<close>). A chip is a value of a type parameter.

  The state of a resolver after an exception escaped from it is not modelled: the configuration is
  given up. The lemmas show that aliases are always fully resolved, and who gets a pin that is in use.
\<close>

definition pin_error :: "string \<Rightarrow> exc" where
  "pin_error m = AppError m"

section \<open>PinResolver\<close>

record pin_resolver =
  validate_aliases :: bool
  reserved :: "(string, string) dict"
  aliases :: "(string, string) dict"
  active_names :: "(string, string) dict"

definition new_pin_resolver :: "bool \<Rightarrow> pin_resolver" where
  "new_pin_resolver v = \<lparr>validate_aliases = v, reserved = [], aliases = [], active_names = []\<rparr>"

definition reserve_pin :: "string \<Rightarrow> string \<Rightarrow> pin_resolver \<Rightarrow> pin_resolver res" where
  "reserve_pin pin reserve_name r =
     (case dget (reserved r) pin of
        Some n \<Rightarrow>
          if n \<noteq> reserve_name
          then Inl (pin_error (''Pin '' @ pin @ '' reserved for '' @ n @ '' - can'' @ [CHR 0x27] @ ''t reserve for '' @ reserve_name))
          else Inr (r\<lparr>reserved := dset pin reserve_name (reserved r)\<rparr>)
      | None \<Rightarrow> Inr (r\<lparr>reserved := dset pin reserve_name (reserved r)\<rparr>))"

text \<open>\<open>[c for c in '^~!:' if c in pin] or ''.join(pin.split()) != pin\<close>\<close>

definition bad_pin_name :: "string \<Rightarrow> bool" where
  "bad_pin_name pin \<longleftrightarrow> (\<exists>c \<in> set ''^~!:''. c \<in> set pin) \<or> concat (split_ws pin) \<noteq> pin"

definition alias_pin :: "string \<Rightarrow> string \<Rightarrow> pin_resolver \<Rightarrow> pin_resolver res" where
  "alias_pin alias pin r =
     (if (case dget (aliases r) alias of Some p \<Rightarrow> p \<noteq> pin | None \<Rightarrow> False)
      then Inl (pin_error (''Alias '' @ alias @ '' mapped to '' @ the (dget (aliases r) alias) @
             '' - can'' @ [CHR 0x27] @ ''t alias to '' @ pin))
      else if bad_pin_name pin then Inl (pin_error (''Invalid pin alias '' @ quoted pin @ [newline_char]))
      else
        let target = dget_or (aliases r) pin pin;
            as1 = dset alias target (aliases r)
        in Inr (r\<lparr>aliases := map (\<lambda>(a, p). (a, if p = alias then target else p)) as1\<rparr>))"

definition re_pin :: regex where
  "re_pin = Seq (Grp ''prefix'' (Seq (one_of '' _'') (Lit ''pin='')))
     (Grp ''name'' (Star (Cls (\<lambda>c. c \<noteq> CHR '' ''))))"

definition pin_fixup :: "pin_resolver \<Rightarrow> caps \<Rightarrow> exc + (pin_resolver \<times> string)" where
  "pin_fixup r m =
     (let name = the (dget m ''name'');
          pin_id = dget_or (aliases r) name name;
          active = (case dget (active_names r) pin_id of
              Some n \<Rightarrow> active_names r | None \<Rightarrow> dset pin_id name (active_names r));
          used = the (dget active pin_id);
          r1 = r\<lparr>active_names := active\<rparr>
      in if name \<noteq> used \<and> validate_aliases r
         then Inl (pin_error (''pin '' @ name @ '' is an alias for '' @ used))
         else case dget (reserved r) pin_id of
           Some n \<Rightarrow> Inl (pin_error (''pin '' @ name @ '' is reserved for '' @ n))
         | None \<Rightarrow> Inr (r1, the (dget m ''prefix'') @ pin_id))"

definition update_command :: "string \<Rightarrow> pin_resolver \<Rightarrow> (pin_resolver \<times> string) res" where
  "update_command cmd r = rx_sub re_pin pin_fixup r cmd"

section \<open>PrinterPins\<close>

record 'c pin_params =
  pp_chip :: 'c
  pp_chip_name :: string
  pp_pin :: string
  pp_invert :: int
  pp_pullup :: int
  pp_share_type :: "string option"

record 'c printer_pins =
  chips :: "(string, 'c) dict"
  active_pins :: "(string, 'c pin_params) dict"
  pin_resolvers :: "(string, pin_resolver) dict"
  allow_multi_use_pins :: "(string, bool) dict"

definition new_printer_pins :: "'c printer_pins" where
  "new_printer_pins = \<lparr>chips = [], active_pins = [], pin_resolvers = [], allow_multi_use_pins = []\<rparr>"

definition parse_pin :: "string \<Rightarrow> bool \<Rightarrow> bool \<Rightarrow> 'c printer_pins \<Rightarrow> 'c pin_params res" where
  "parse_pin pin_desc can_invert can_pullup s =
     (let desc = strip pin_desc;
          pull = can_pullup \<and> (startswith desc ''^'' \<or> startswith desc ''~'');
          pullup = (if pull then (if startswith desc ''~'' then -1 else 1) else 0);
          desc1 = (if pull then strip (drop 1 desc) else desc);
          inv = can_invert \<and> startswith desc1 ''!'';
          invert = (if inv then 1 else 0);
          desc2 = (if inv then strip (drop 1 desc1) else desc1);
          (chip_name, pin) =
            (case split_once (CHR '':'') desc2 of
               [a, b] \<Rightarrow> (strip a, strip b) | _ \<Rightarrow> (''mcu'', desc2))
      in case dget (chips s) chip_name of
           None \<Rightarrow> Inl (pin_error (''Unknown pin chip name '' @ quoted chip_name))
         | Some chip \<Rightarrow>
             if bad_pin_name pin
             then Inl (pin_error (''Invalid pin description '' @ quoted pin_desc @ [newline_char] @ ''Format is: '' @
                    (if can_pullup then ''[^~] '' else []) @ (if can_invert then ''[!] '' else []) @ ''[chip_name:] pin_name''))
             else Inr \<lparr>pp_chip = chip, pp_chip_name = chip_name, pp_pin = pin, pp_invert = invert,
                    pp_pullup = pullup, pp_share_type = None\<rparr>)"

definition share_name :: "'c pin_params \<Rightarrow> string" where
  "share_name pp = pp_chip_name pp @ '':'' @ pp_pin pp"

definition lookup_pin ::
  "string \<Rightarrow> bool \<Rightarrow> bool \<Rightarrow> string option \<Rightarrow> 'c printer_pins \<Rightarrow> ('c pin_params \<times> 'c printer_pins) res" where
  "lookup_pin pin_desc can_invert can_pullup share_type s =
     rbind (parse_pin pin_desc can_invert can_pullup s) (\<lambda>pp.
       case dget (active_pins s) (share_name pp) of
         Some sp \<Rightarrow>
           if din (share_name pp) (allow_multi_use_pins s) then Inr (sp, s)
           else if share_type = None \<or> share_type \<noteq> pp_share_type sp
           then Inl (pin_error (''pin '' @ pp_pin pp @ '' used multiple times in config''))
           else if pp_invert pp \<noteq> pp_invert sp \<or> pp_pullup pp \<noteq> pp_pullup sp
           then Inl (pin_error (''Shared pin '' @ pp_pin pp @ '' must have same polarity''))
           else Inr (sp, s)
       | None \<Rightarrow>
           let pp1 = pp\<lparr>pp_share_type := share_type\<rparr>
           in Inr (pp1, s\<lparr>active_pins := dset (share_name pp) pp1 (active_pins s)\<rparr>))"

text \<open>\<open>chip_setup\<close> is the chip's own \<open>setup_pin\<close>.\<close>

definition setup_pin ::
  "('c \<Rightarrow> string \<Rightarrow> 'c pin_params \<Rightarrow> 'o) \<Rightarrow> string \<Rightarrow> string \<Rightarrow> 'c printer_pins \<Rightarrow> ('o \<times> 'c printer_pins) res" where
  "setup_pin chip_setup pin_type pin_desc s =
     (let can_invert = pin_type \<in> {''endstop'', ''digital_out'', ''pwm''};
          can_pullup = pin_type \<in> {''endstop''}
      in rbind (lookup_pin pin_desc can_invert can_pullup None s) (\<lambda>(pp, s').
           Inr (chip_setup (pp_chip pp) pin_type pp, s')))"

definition reset_pin_sharing :: "'c pin_params \<Rightarrow> 'c printer_pins \<Rightarrow> 'c printer_pins res" where
  "reset_pin_sharing pp s =
     (if din (share_name pp) (active_pins s)
      then Inr (s\<lparr>active_pins := ddel (share_name pp) (active_pins s)\<rparr>) else Inl KeyError)"

definition get_pin_resolver :: "string \<Rightarrow> 'c printer_pins \<Rightarrow> pin_resolver res" where
  "get_pin_resolver chip_name s =
     res_of (pin_error (''Unknown chip name '' @ quoted chip_name)) (dget (pin_resolvers s) chip_name)"

definition register_chip :: "string \<Rightarrow> 'c \<Rightarrow> 'c printer_pins \<Rightarrow> 'c printer_pins res" where
  "register_chip name chip s =
     (let chip_name = strip name in
      if din chip_name (chips s) then Inl (pin_error (''Duplicate chip name '' @ quoted chip_name))
      else Inr (s\<lparr>chips := dset chip_name chip (chips s),
                  pin_resolvers := dset chip_name (new_pin_resolver True) (pin_resolvers s)\<rparr>))"

definition allow_multi_use_pin :: "string \<Rightarrow> 'c printer_pins \<Rightarrow> 'c printer_pins res" where
  "allow_multi_use_pin pin_desc s =
     rbind (parse_pin pin_desc False False s) (\<lambda>pp.
       Inr (s\<lparr>allow_multi_use_pins := dset (share_name pp) True (allow_multi_use_pins s)\<rparr>))"

section \<open>Aliases are resolved\<close>

definition resolved :: "pin_resolver \<Rightarrow> bool" where
  "resolved r \<longleftrightarrow> (\<forall>a p. dget (aliases r) a = Some p \<longrightarrow> dget (aliases r) p = None \<or> dget (aliases r) p = Some p)"

lemma map_of_map_values: "map_of (map (\<lambda>(a, p). (a, f p)) d) k = map_option f (map_of d k)"
  by (induction d) auto

lemma alias_pin_lookup:
  assumes "alias_pin alias pin r = Inr r'"
  shows "dget (aliases r') k =
    (let target = dget_or (aliases r) pin pin in
     if k = alias then Some target
     else map_option (\<lambda>p. if p = alias then target else p) (dget (aliases r) k))"
  using assms unfolding alias_pin_def Let_def
  by (auto simp: map_of_map_values split: if_splits)

lemma alias_pin_resolved [inv_intros]:
  assumes "alias_pin alias pin r = Inr r'" "resolved r"
  shows "resolved r'"
proof -
  let ?t = "dget_or (aliases r) pin pin"
  have t: "dget (aliases r) ?t = None \<or> dget (aliases r) ?t = Some ?t"
    using assms(2) by (auto simp: resolved_def dget_or_def split: option.splits)
  have look: "dget (aliases r') k = (if k = alias then Some ?t
     else map_option (\<lambda>p. if p = alias then ?t else p) (dget (aliases r) k))" for k
    using alias_pin_lookup [OF assms(1), of k] by (simp add: Let_def)
  have tgt: "dget (aliases r') ?t = None \<or> dget (aliases r') ?t = Some ?t"
    using t by (auto simp: look)
  show ?thesis
    unfolding resolved_def
  proof (intro allI impI)
    fix a p
    assume a: "dget (aliases r') a = Some p"
    show "dget (aliases r') p = None \<or> dget (aliases r') p = Some p"
    proof (cases "p = ?t")
      case False
      then have "a \<noteq> alias" "dget (aliases r) a = Some p" "p \<noteq> alias"
        using a by (auto simp: look split: if_splits)
      with assms(2) show ?thesis by (auto simp: resolved_def look)
    qed (use tgt in simp)
  qed
qed

section \<open>A pin is given out once\<close>

text \<open>The operations on the pins of a printer, and what runs of them keep.\<close>

datatype 'c pins_op =
    Lookup string bool bool "string option"
  | Allow string
  | Reset "'c pin_params"
  | Register string 'c

fun pins_step :: "'c printer_pins \<Rightarrow> 'c pins_op \<Rightarrow> 'c printer_pins" where
  "pins_step s (Lookup d i u sh) = (case lookup_pin d i u sh s of Inr (pp, s') \<Rightarrow> s' | Inl e \<Rightarrow> s)"
| "pins_step s (Allow d) = (case allow_multi_use_pin d s of Inr s' \<Rightarrow> s' | Inl e \<Rightarrow> s)"
| "pins_step s (Reset pp) = (case reset_pin_sharing pp s of Inr s' \<Rightarrow> s' | Inl e \<Rightarrow> s)"
| "pins_step s (Register n c) = (case register_chip n c s of Inr s' \<Rightarrow> s' | Inl e \<Rightarrow> s)"

definition frees :: "string \<Rightarrow> 'c pins_op \<Rightarrow> 'c printer_pins \<Rightarrow> bool" where
  "frees name op s \<longleftrightarrow>
     (case op of
        Reset pp \<Rightarrow> share_name pp = name
      | Allow d \<Rightarrow> (case parse_pin d False False s of Inr pp \<Rightarrow> share_name pp = name | Inl e \<Rightarrow> False)
      | _ \<Rightarrow> False)"

fun never_freed :: "string \<Rightarrow> 'c printer_pins \<Rightarrow> 'c pins_op list \<Rightarrow> bool" where
  "never_freed name s [] = True"
| "never_freed name s (op # ops) = (\<not> frees name op s \<and> never_freed name (pins_step s op) ops)"

definition held :: "string \<Rightarrow> 'c pin_params \<Rightarrow> 'c printer_pins \<Rightarrow> bool" where
  "held name pp s \<longleftrightarrow> \<not> din name (allow_multi_use_pins s) \<and> dget (active_pins s) name = Some pp"

lemma lookup_pin_cases:
  assumes "lookup_pin d i u sh s = Inr (pp, s')"
  shows "s' = s \<or> (\<not> din (share_name pp) (active_pins s) \<and> s' = s\<lparr>active_pins := dset (share_name pp) pp (active_pins s)\<rparr>)"
proof -
  obtain x where x: "parse_pin d i u s = Inr x"
    using assms by (auto simp: lookup_pin_def rbind_eq_Inr)
  show ?thesis
  proof (cases "dget (active_pins s) (share_name x)")
    case None
    then have "pp = x\<lparr>pp_share_type := sh\<rparr>" "s' = s\<lparr>active_pins := dset (share_name x) pp (active_pins s)\<rparr>"
      using assms x by (auto simp: lookup_pin_def Let_def)
    with None show ?thesis by (simp add: din_def share_name_def)
  next
    case (Some sp)
    then show ?thesis using assms x by (auto simp: lookup_pin_def split: if_splits)
  qed
qed

lemma pins_step_held:
  assumes "held name p s" "\<not> frees name op s"
  shows "held name p (pins_step s op)"
proof (cases op)
  case (Lookup d i u sh')
  show ?thesis
  proof (cases "lookup_pin d i u sh' s")
    case (Inr r)
    obtain pp s' where r: "r = (pp, s')" by (cases r)
    with lookup_pin_cases [of d i u sh' s pp s'] Inr assms(1) show ?thesis
      by (auto simp: Lookup held_def din_def)
  qed (use assms(1) Lookup in simp)
next
  case (Allow d)
  show ?thesis
  proof (cases "parse_pin d False False s")
    case (Inr pp)
    with assms Allow show ?thesis by (auto simp: held_def frees_def allow_multi_use_pin_def)
  qed (use assms(1) Allow in \<open>simp add: allow_multi_use_pin_def\<close>)
next
  case (Reset pp)
  with assms show ?thesis by (auto simp: held_def frees_def reset_pin_sharing_def)
next
  case (Register n c)
  with assms(1) show ?thesis by (auto simp: held_def register_chip_def Let_def)
qed

lemma never_freed_held: "held name p s \<Longrightarrow> never_freed name s ops \<Longrightarrow> held name p (foldl pins_step s ops)"
  by (induction ops arbitrary: s) (auto simp: pins_step_held)

lemma lookup_pin_held:
  assumes "parse_pin d i u s = Inr pp" "\<not> din (share_name pp) (active_pins s)"
    "\<not> din (share_name pp) (allow_multi_use_pins s)" "lookup_pin d i u sh s = Inr (pp', s')"
  shows "held (share_name pp) pp' s'" "pp' = pp\<lparr>pp_share_type := sh\<rparr>"
  using assms by (auto simp: lookup_pin_def Let_def din_def held_def)

section \<open>Properties\<close>

text \<open>However pins are aliased, an alias never leads to a pin that is an alias for another one: one
  lookup resolves it.
\<close>

theorem aliases_resolved:
  "case rfold (\<lambda>r (alias, pin). alias_pin alias pin r) (new_pin_resolver v) pairs of
     Inr r \<Rightarrow> resolved r | Inl e \<Rightarrow> True"
proof (cases "rfold (\<lambda>r (alias, pin). alias_pin alias pin r) (new_pin_resolver v) pairs")
  case (Inr r)
  have "resolved r"
    using Inr
  proof (rule rfold_invariant)
    show "resolved (new_pin_resolver v)" by (simp add: resolved_def new_pin_resolver_def)
  qed (auto intro: alias_pin_resolved)
  with Inr show ?thesis by simp
qed simp

text \<open>C31: Until it is reset or allowed for multiple use, a pin that was looked up with a share type, or with none, is given to a later
  lookup only if that names the same share type and asks for the same polarity; it then gets the parameters of the first one. Any
  other lookup is refused, and nothing changes.\<close>

theorem pin_given_out_once:
  assumes "parse_pin d i u s = Inr pp" "\<not> din (share_name pp) (active_pins s)"
    and "\<not> din (share_name pp) (allow_multi_use_pins s)" "lookup_pin d i u sh s = Inr (pp1, s1)"
    and "never_freed (share_name pp) s1 ops"
    and "parse_pin d' i' u' (foldl pins_step s1 ops) = Inr pp'" "share_name pp' = share_name pp"
  shows "lookup_pin d' i' u' sh' (foldl pins_step s1 ops) =
    (if sh' = None \<or> sh' \<noteq> sh then Inl (pin_error (''pin '' @ pp_pin pp' @ '' used multiple times in config''))
     else if pp_invert pp' \<noteq> pp_invert pp \<or> pp_pullup pp' \<noteq> pp_pullup pp
     then Inl (pin_error (''Shared pin '' @ pp_pin pp' @ '' must have same polarity''))
     else Inr (pp1, foldl pins_step s1 ops))"
proof -
  let ?s = "foldl pins_step s1 ops"
  have "held (share_name pp) pp1 ?s" and pp1: "pp1 = pp\<lparr>pp_share_type := sh\<rparr>"
    using lookup_pin_held [OF assms(1-4)] assms(5) by (auto intro: never_freed_held)
  then have "dget (active_pins ?s) (share_name pp') = Some pp1" "\<not> din (share_name pp') (allow_multi_use_pins ?s)"
    unfolding assms(7) by (auto simp: held_def)
  then show ?thesis
    using assms(6) by (cases sh'; cases sh) (simp_all add: lookup_pin_def pp1)
qed

definition example_pins :: "nat printer_pins" where
  "example_pins = \<lparr>chips = [(''mcu'', 0)], active_pins = [], pin_resolvers = [], allow_multi_use_pins = []\<rparr>"

theorem pin_given_out_once_witness:
  "\<exists>pp s1. lookup_pin ''PA1'' False False (Some ''uart'') example_pins = Inr (pp, s1) \<and>
    (let s2 = foldl pins_step s1 [Lookup ''PA2'' False False None, Register ''rpi'' 1, Allow ''PA3''] in
     lookup_pin ''mcu:PA1'' False False (Some ''uart'') s2 = Inr (pp, s2) \<and>
     lookup_pin '' ! mcu:PA1 '' True False (Some ''uart'') s2 = Inl (pin_error ''Shared pin PA1 must have same polarity''))"
proof -
  let ?p = "\<lparr>pp_chip = 0::nat, pp_chip_name = ''mcu'', pp_pin = ''PA1'', pp_invert = 0, pp_pullup = 0, pp_share_type = None\<rparr>"
  let ?pp = "?p\<lparr>pp_share_type := Some ''uart''\<rparr>"
  let ?s1 = "example_pins\<lparr>active_pins := [(''mcu:PA1'', ?pp)]\<rparr>"
  let ?ops = "[Lookup ''PA2'' False False None, Register ''rpi'' 1, Allow ''PA3'']"
  have l: "lookup_pin ''PA1'' False False (Some ''uart'') example_pins = Inr (?pp, ?s1)" by code_simp
  have p0: "parse_pin ''PA1'' False False example_pins = Inr ?p" by code_simp
  have p: "parse_pin ''mcu:PA1'' False False (foldl pins_step ?s1 ?ops) = Inr ?p"
    "parse_pin '' ! mcu:PA1 '' True False (foldl pins_step ?s1 ?ops) = Inr (?p\<lparr>pp_invert := 1\<rparr>)" by code_simp+
  have f: "\<not> din (share_name ?p) (active_pins example_pins)" "\<not> din (share_name ?p) (allow_multi_use_pins example_pins)"
    "never_freed (share_name ?p) ?s1 ?ops" by code_simp+
  have same: "share_name (?p\<lparr>pp_invert := 1\<rparr>) = share_name ?p" by (simp add: share_name_def)
  show ?thesis
    unfolding Let_def
    using l pin_given_out_once [OF p0 f(1,2) l f(3) p(1) refl, of "Some ''uart''"]
      pin_given_out_once [OF p0 f(1,2) l f(3) p(2) same, of "Some ''uart''"] by simp
qed

end
