(* ===== verification/Printer.thy ===== *)
theory Printer
  imports PyStrings
begin

text \<open>
  \<open>klippy/klippy.py\<close>: the \<open>Printer\<close> object, its state message and categories, the table of
  objects, the event handlers, the connection at start-up and the transition to shutdown.

  A callback is a value of a type parameter, run by the parameter \<open>call\<close>, which may change the
  whole printer. The exceptions \<open>_connect\<close> tells apart are the constructors of \<open>conn_error\<close>.
  The log, the loading of modules from their files and the main loop are not modelled.
\<close>

definition nl :: string where "nl = [newline_char]"

section \<open>The state message\<close>

definition message_ready :: string where
  "message_ready = ''Printer is ready''"

definition message_startup :: string where
  "message_startup = nl @ ''Printer is not ready'' @ nl @
     ''The klippy host software is attempting to connect.  Please'' @ nl @ ''retry in a few moments.'' @ nl"

definition message_restart :: string where
  "message_restart = nl @ ''Once the underlying issue is corrected, use the '' @ [CHR 0x22] @ ''RESTART'' @ [CHR 0x22] @ nl @
     ''command to reload the config and restart the host software.'' @ nl @ ''Printer is halted'' @ nl"

definition message_protocol_error1 :: string where
  "message_protocol_error1 = nl @ ''This is frequently caused by running an older version of the'' @ nl @
     ''firmware on the MCU(s). Fix by recompiling and flashing the'' @ nl @ ''firmware.'' @ nl"

definition message_protocol_error2 :: string where
  "message_protocol_error2 = nl @ ''Once the underlying issue is corrected, use the '' @ [CHR 0x22] @ ''RESTART'' @ [CHR 0x22] @ nl @
     ''command to reload the config and restart the host software.'' @ nl"

definition use_firmware_restart :: string where
  "use_firmware_restart = nl @ ''Once the underlying issue is corrected, use the'' @ nl @
     [CHR 0x22] @ ''FIRMWARE_RESTART'' @ [CHR 0x22] @ '' command to reset the firmware, reload the'' @ nl @
     ''config, and restart the host software.'' @ nl"

definition message_mcu_connect_error :: string where
  "message_mcu_connect_error = use_firmware_restart @ ''Error configuring printer'' @ nl"

definition message_shutdown :: string where
  "message_shutdown = use_firmware_restart @ ''Printer is shutdown'' @ nl"

record printer_core =
  pr_message :: string
  in_shutdown_state :: bool
  run_result :: "string option"
  debuginput :: bool

definition initial_core :: "bool \<Rightarrow> printer_core" where
  "initial_core dbg = \<lparr>pr_message = message_startup, in_shutdown_state = False, run_result = None, debuginput = dbg\<rparr>"

definition get_state_message :: "printer_core \<Rightarrow> string \<times> string" where
  "get_state_message c =
     (pr_message c,
      if pr_message c = message_ready then ''ready''
      else if pr_message c = message_startup then ''startup''
      else if in_shutdown_state c then ''shutdown''
      else ''error'')"

definition request_exit :: "string \<Rightarrow> printer_core \<Rightarrow> printer_core" where
  "request_exit result c = (case run_result c of None \<Rightarrow> c\<lparr>run_result := Some result\<rparr> | Some r \<Rightarrow> c)"

definition set_state :: "string \<Rightarrow> printer_core \<Rightarrow> printer_core" where
  "set_state msg c =
     (let c1 = (if pr_message c \<in> {message_ready, message_startup} then c\<lparr>pr_message := msg\<rparr> else c)
      in if msg \<noteq> message_ready \<and> debuginput c1 then request_exit ''error_exit'' c1 else c1)"

text \<open>The beginning of \<open>invoke_shutdown\<close>; \<open>None\<close> when there is nothing to do.\<close>

definition begin_shutdown :: "string \<Rightarrow> printer_core \<Rightarrow> printer_core option" where
  "begin_shutdown msg c =
     (if in_shutdown_state c then None
      else if contains_str msg ''ADC out of range'' then None
      else Some (set_state (msg @ message_shutdown) (c\<lparr>in_shutdown_state := True\<rparr>)))"

section \<open>Objects and events\<close>

record ('o, 'cb, 'w) printer =
  core :: printer_core
  event_handlers :: "(string, 'cb list) dict"
  objects :: "(string, 'o) dict"
  pr_world :: 'w

datatype conn_error = ConfigError string | ProtocolError string | McuError string | OtherError string

definition add_object :: "string \<Rightarrow> 'o \<Rightarrow> ('o, 'cb, 'w) printer \<Rightarrow> conn_error + ('o, 'cb, 'w) printer" where
  "add_object name obj p =
     (if din name (objects p) then Inl (ConfigError (''Printer object '' @ quoted name @ '' already created''))
      else Inr (p\<lparr>objects := dset name obj (objects p)\<rparr>))"

definition lookup_object :: "string \<Rightarrow> 'o option \<Rightarrow> ('o, 'cb, 'w) printer \<Rightarrow> conn_error + 'o" where
  "lookup_object name dflt p =
     (case dget (objects p) name of
        Some o' \<Rightarrow> Inr o'
      | None \<Rightarrow> (case dflt of Some d \<Rightarrow> Inr d
          | None \<Rightarrow> Inl (ConfigError (''Unknown config object '' @ quoted name))))"

definition lookup_objects :: "string option \<Rightarrow> ('o, 'cb, 'w) printer \<Rightarrow> (string \<times> 'o) list" where
  "lookup_objects module p =
     (case module of
        None \<Rightarrow> objects p
      | Some m \<Rightarrow>
          let objs = filter (\<lambda>(n, ob). startswith n (m @ '' '')) (objects p)
          in (case dget (objects p) m of Some ob \<Rightarrow> (m, ob) # objs | None \<Rightarrow> objs))"

definition register_event_handler :: "string \<Rightarrow> 'cb \<Rightarrow> ('o, 'cb, 'w) printer \<Rightarrow> ('o, 'cb, 'w) printer" where
  "register_event_handler event cb p =
     p\<lparr>event_handlers := dset event (dget_or (event_handlers p) event [] @ [cb]) (event_handlers p)\<rparr>"

type_synonym ('o, 'cb, 'w) caller = "'cb \<Rightarrow> ('o, 'cb, 'w) printer \<Rightarrow> (conn_error + unit) \<times> ('o, 'cb, 'w) printer"

fun run_callbacks :: "('o, 'cb, 'w) caller \<Rightarrow> 'cb list \<Rightarrow> ('o, 'cb, 'w) printer \<Rightarrow> (conn_error + unit) \<times> ('o, 'cb, 'w) printer" where
  "run_callbacks call [] p = (Inr (), p)"
| "run_callbacks call (cb # cbs) p =
     (case call cb p of (Inl e, p') \<Rightarrow> (Inl e, p') | (Inr _, p') \<Rightarrow> run_callbacks call cbs p')"

definition send_event :: "('o, 'cb, 'w) caller \<Rightarrow> string \<Rightarrow> ('o, 'cb, 'w) printer \<Rightarrow> (conn_error + unit) \<times> ('o, 'cb, 'w) printer" where
  "send_event call event p = run_callbacks call (dget_or (event_handlers p) event []) p"

text \<open>The callbacks of a shutdown all run, whatever they raise.\<close>

fun run_all :: "('o, 'cb, 'w) caller \<Rightarrow> 'cb list \<Rightarrow> ('o, 'cb, 'w) printer \<Rightarrow> ('o, 'cb, 'w) printer" where
  "run_all call [] p = p"
| "run_all call (cb # cbs) p = run_all call cbs (snd (call cb p))"

text \<open>\<open>restart\<close> is \<open>gcode.request_restart('firmware_restart')\<close>.\<close>

definition invoke_shutdown ::
  "('o, 'cb, 'w) caller \<Rightarrow> (('o, 'cb, 'w) printer \<Rightarrow> ('o, 'cb, 'w) printer) \<Rightarrow> string \<Rightarrow>
    ('o, 'cb, 'w) printer \<Rightarrow> (conn_error + unit) \<times> ('o, 'cb, 'w) printer" where
  "invoke_shutdown call restart msg p =
     (case begin_shutdown msg (core p) of
        None \<Rightarrow> (Inr (), p)
      | Some c \<Rightarrow>
          if \<not> din ''rotate_logger'' (objects p)
          then (Inl (ConfigError (''Unknown config object '' @ quoted ''rotate_logger'')), p)
          else
            let p1 = run_all call (dget_or (event_handlers p) ''klippy:shutdown'' []) (p\<lparr>core := c\<rparr>)
            in if \<not> din ''gcode'' (objects p1)
               then (Inl (ConfigError (''Unknown config object '' @ quoted ''gcode'')), p1)
               else (Inr (), restart p1))"

section \<open>Connecting\<close>

text \<open>\<open>versions\<close> are the names of the micro-controllers with the versions they report, if they do.\<close>

definition protocol_error_message :: "string \<Rightarrow> (string \<times> string option) list \<Rightarrow> string \<Rightarrow> string" where
  "protocol_error_message host_version versions err =
     (let line = (\<lambda>(n, v). last (split_ws n) @ '': Current version '' @ v);
          known = List.map_filter (\<lambda>(n, v). map_option (Pair n) v) versions;
          upd = map line (filter (\<lambda>(n, v). v \<noteq> host_version) known);
          ok = map line (filter (\<lambda>(n, v). v = host_version) known);
          none = (\<lambda>xs. if xs = [] then [''<none>''] else xs)
      in join nl ([''MCU Protocol error'', message_protocol_error1, ''Your Klipper version is: '' @ host_version,
           ''MCU(s) which should be updated:''] @ none upd @ [''Up-to-date MCU(s):''] @ none ok @
           [message_protocol_error2, err]))"

text \<open>The loops that stop when the state has changed.\<close>

fun run_while_state ::
  "('o, 'cb, 'w) caller \<Rightarrow> string \<Rightarrow> 'cb list \<Rightarrow> ('o, 'cb, 'w) printer \<Rightarrow> (conn_error + bool) \<times> ('o, 'cb, 'w) printer" where
  "run_while_state call st [] p = (Inr True, p)"
| "run_while_state call st (cb # cbs) p =
     (if pr_message (core p) \<noteq> st then (Inr False, p)
      else case call cb p of
        (Inl e, p') \<Rightarrow> (Inl e, p')
      | (Inr _, p') \<Rightarrow> run_while_state call st cbs p')"

text \<open>\<open>host_version\<close> is \<open>software_version\<close> of the start arguments, \<open>versions\<close> reads the micro-controllers.\<close>

definition connect_failed ::
  "string \<Rightarrow> (('o, 'cb, 'w) printer \<Rightarrow> (string \<times> string option) list) \<Rightarrow> conn_error \<Rightarrow>
   ('o, 'cb, 'w) printer \<Rightarrow> ('o, 'cb, 'w) printer" where
  "connect_failed host_version versions e p =
     (let st = (\<lambda>m. p\<lparr>core := set_state m (core p)\<rparr>) in
      case e of
        ConfigError m \<Rightarrow> st (m @ nl @ message_restart)
      | ProtocolError m \<Rightarrow> st (protocol_error_message host_version (versions p) m)
      | McuError m \<Rightarrow> st (m @ message_mcu_connect_error)
      | OtherError m \<Rightarrow> st (''Internal error during connect: '' @ m @ nl @ message_restart))"

fun error_text :: "conn_error \<Rightarrow> string" where
  "error_text (ConfigError m) = m"
| "error_text (ProtocolError m) = m"
| "error_text (McuError m) = m"
| "error_text (OtherError m) = m"

text \<open>
  The first \<open>try\<close> block: \<open>read_config\<close> is \<open>_read_config\<close>. The result is an exception, \<open>True\<close>, or
  \<open>False\<close> when the state changed on the way.
\<close>

definition connect_try ::
  "(('o, 'cb, 'w) printer \<Rightarrow> (conn_error + unit) \<times> ('o, 'cb, 'w) printer) \<Rightarrow> ('o, 'cb, 'w) caller \<Rightarrow>
   ('o, 'cb, 'w) printer \<Rightarrow> (conn_error + bool) \<times> ('o, 'cb, 'w) printer" where
  "connect_try read_config call p =
     (case read_config p of
        (Inl e, p1) \<Rightarrow> (Inl e, p1)
      | (Inr _, p1) \<Rightarrow>
          (case send_event call ''klippy:mcu_identify'' p1 of
             (Inl e, p2) \<Rightarrow> (Inl e, p2)
           | (Inr _, p2) \<Rightarrow> run_while_state call message_startup (dget_or (event_handlers p2) ''klippy:connect'' []) p2))"

text \<open>The second \<open>try\<close> block.\<close>

definition connect_ready ::
  "('o, 'cb, 'w) caller \<Rightarrow> (('o, 'cb, 'w) printer \<Rightarrow> ('o, 'cb, 'w) printer) \<Rightarrow>
   ('o, 'cb, 'w) printer \<Rightarrow> ('o, 'cb, 'w) printer" where
  "connect_ready call restart p =
     (let p2 = p\<lparr>core := set_state message_ready (core p)\<rparr> in
      case run_while_state call message_ready (dget_or (event_handlers p2) ''klippy:ready'' []) p2 of
        (Inl e, p3) \<Rightarrow> snd (invoke_shutdown call restart (''Internal error during ready callback: '' @ error_text e) p3)
      | (Inr _, p3) \<Rightarrow> p3)"

definition connect_printer ::
  "(('o, 'cb, 'w) printer \<Rightarrow> (conn_error + unit) \<times> ('o, 'cb, 'w) printer) \<Rightarrow>
   string \<Rightarrow> (('o, 'cb, 'w) printer \<Rightarrow> (string \<times> string option) list) \<Rightarrow> ('o, 'cb, 'w) caller \<Rightarrow>
   (('o, 'cb, 'w) printer \<Rightarrow> ('o, 'cb, 'w) printer) \<Rightarrow> ('o, 'cb, 'w) printer \<Rightarrow> ('o, 'cb, 'w) printer" where
  "connect_printer read_config host_version versions call restart p =
     (case connect_try read_config call p of
        (Inl e, p1) \<Rightarrow> connect_failed host_version versions e p1
      | (Inr False, p1) \<Rightarrow> p1
      | (Inr True, p1) \<Rightarrow> connect_ready call restart p1)"

section \<open>The changes of the core\<close>

text \<open>
  What the other components do to the core, at any time: only \<open>invoke_shutdown\<close> and \<open>request_exit\<close>
  change it from outside this file. \<open>core_step\<close> adds what \<open>_connect\<close> does.
\<close>

inductive callback_step :: "printer_core \<Rightarrow> printer_core \<Rightarrow> bool" where
  shutdown: "begin_shutdown msg c = Some c' \<Longrightarrow> callback_step c c'"
| exits: "callback_step c (request_exit r c)"

inductive core_step :: "printer_core \<Rightarrow> printer_core \<Rightarrow> bool" where
  by_callback: "callback_step c c' \<Longrightarrow> core_step c c'"
| set_error: "pr_message c \<noteq> message_ready \<Longrightarrow> msg \<noteq> message_startup \<Longrightarrow> msg \<noteq> message_ready \<Longrightarrow> core_step c (set_state msg c)"
| set_ready: "core_step c (set_state message_ready c)"

inductive_cases callback_stepE: "callback_step c c'"
inductive_cases core_stepE: "core_step c c'"

definition core_ok :: "printer_core \<Rightarrow> bool" where
  "core_ok c \<longleftrightarrow> (in_shutdown_state c \<longrightarrow> pr_message c \<noteq> message_ready \<and> pr_message c \<noteq> message_startup)"

lemma request_exit_fields [simp]:
  "pr_message (request_exit r c) = pr_message c" "in_shutdown_state (request_exit r c) = in_shutdown_state c"
  by (auto simp: request_exit_def split: option.splits)

lemma set_state_fields [simp]:
  "pr_message (set_state m c) = (if pr_message c \<in> {message_ready, message_startup} then m else pr_message c)"
  "in_shutdown_state (set_state m c) = in_shutdown_state c"
  by (simp_all add: set_state_def Let_def)

lemma length_shutdown_message: "length message_startup < length (m @ message_shutdown)"
  by (simp add: message_startup_def message_shutdown_def use_firmware_restart_def nl_def)

lemma shutdown_message_other: "m @ message_shutdown \<noteq> message_startup" "m @ message_shutdown \<noteq> message_ready"
proof -
  show "m @ message_shutdown \<noteq> message_startup" using length_shutdown_message [of m] by fastforce
  have "length message_ready < length (m @ message_shutdown)"
    by (simp add: message_ready_def message_shutdown_def use_firmware_restart_def nl_def)
  then show "m @ message_shutdown \<noteq> message_ready" by fastforce
qed

lemma callback_step_state:
  "callback_step c c' \<Longrightarrow> (pr_message c' = pr_message c \<and> in_shutdown_state c' = in_shutdown_state c) \<or>
     in_shutdown_state c' \<and> \<not> in_shutdown_state c \<and>
     (if pr_message c \<in> {message_ready, message_startup} then pr_message c' \<notin> {message_ready, message_startup}
      else pr_message c' = pr_message c)"
  by (erule callback_stepE)
    (auto simp: begin_shutdown_def shutdown_message_other [simplified] split: if_splits)

lemma core_step_ok [inv_intros]: "core_step c c' \<Longrightarrow> core_ok c \<Longrightarrow> core_ok c'"
  by (erule core_stepE) (auto simp: core_ok_def dest!: callback_step_state split: if_splits)

lemma core_steps_ok: "core_step\<^sup>*\<^sup>* c c' \<Longrightarrow> core_ok c \<Longrightarrow> core_ok c'"
  by (induction rule: rtranclp_induct) (auto intro: core_step_ok)

section \<open>The operations take these steps\<close>

definition keeps_steps :: "(('o, 'cb, 'w) printer \<Rightarrow> ('o, 'cb, 'w) printer) \<Rightarrow> bool" where
  "keeps_steps f \<longleftrightarrow> (\<forall>p. callback_step\<^sup>*\<^sup>* (core p) (core (f p)))"

lemma keeps_stepsD: "keeps_steps f \<Longrightarrow> callback_step\<^sup>*\<^sup>* (core p) (core (f p))"
  by (simp add: keeps_steps_def)

lemma steps_trans: "callback_step\<^sup>*\<^sup>* a b \<Longrightarrow> callback_step\<^sup>*\<^sup>* b c \<Longrightarrow> callback_step\<^sup>*\<^sup>* a c"
  by (rule rtranclp_trans)

lemma run_callbacks_steps:
  assumes "\<And>cb. keeps_steps (\<lambda>p. snd (call cb p))"
  shows "callback_step\<^sup>*\<^sup>* (core p) (core (snd (run_callbacks call cbs p)))"
proof (induction cbs arbitrary: p)
  case (Cons cb cbs)
  obtain r p' where r: "call cb p = (r, p')" by (cases "call cb p")
  have "callback_step\<^sup>*\<^sup>* (core p) (core p')" using keeps_stepsD [OF assms [of cb], of p] r by simp
  with Cons.IH [of p'] show ?case by (cases r) (auto simp: r intro: steps_trans)
qed simp

lemma run_while_state_steps:
  assumes "\<And>cb. keeps_steps (\<lambda>p. snd (call cb p))"
  shows "callback_step\<^sup>*\<^sup>* (core p) (core (snd (run_while_state call st cbs p)))"
proof (induction cbs arbitrary: p)
  case (Cons cb cbs)
  obtain r p' where r: "call cb p = (r, p')" by (cases "call cb p")
  have "callback_step\<^sup>*\<^sup>* (core p) (core p')" using keeps_stepsD [OF assms [of cb], of p] r by simp
  with Cons.IH [of p'] show ?case by (cases r) (auto simp: r intro: steps_trans)
qed simp

lemma run_all_steps:
  assumes "\<And>cb. keeps_steps (\<lambda>p. snd (call cb p))"
  shows "callback_step\<^sup>*\<^sup>* (core p) (core (run_all call cbs p))"
proof (induction cbs arbitrary: p)
  case (Cons cb cbs)
  from keeps_stepsD [OF assms [of cb], of p] Cons.IH [of "snd (call cb p)"] show ?case
    by (auto intro: steps_trans)
qed simp

lemma invoke_shutdown_steps:
  assumes "\<And>cb. keeps_steps (\<lambda>p. snd (call cb p))" "keeps_steps restart"
  shows "callback_step\<^sup>*\<^sup>* (core p) (core (snd (invoke_shutdown call restart msg p)))"
proof (cases "begin_shutdown msg (core p)")
  case (Some c)
  let ?p1 = "run_all call (dget_or (event_handlers p) ''klippy:shutdown'' []) (p\<lparr>core := c\<rparr>)"
  have "callback_step\<^sup>*\<^sup>* (core p) c" using Some by (auto intro: callback_step.shutdown)
  moreover have "callback_step\<^sup>*\<^sup>* c (core ?p1)"
    using run_all_steps [where call = call and p = "p\<lparr>core := c\<rparr>", OF assms(1)] by simp
  ultimately have "callback_step\<^sup>*\<^sup>* (core p) (core ?p1)" by (rule steps_trans)
  with keeps_stepsD [OF assms(2), of ?p1] show ?thesis
    by (auto simp: invoke_shutdown_def Some Let_def intro: steps_trans)
qed (simp add: invoke_shutdown_def)

lemma longer_other: "length message_startup < length m \<Longrightarrow> m \<noteq> message_startup \<and> m \<noteq> message_ready"
  by (auto simp: message_startup_def message_ready_def nl_def)

lemma protocol_error_message_other:
  "protocol_error_message host_version versions err \<noteq> message_startup"
  "protocol_error_message host_version versions err \<noteq> message_ready"
  by (simp_all add: protocol_error_message_def Let_def message_startup_def message_ready_def nl_def)

lemma connect_failed_state:
  obtains m where "connect_failed host_version versions e p = p\<lparr>core := set_state m (core p)\<rparr>"
    "m \<noteq> message_startup" "m \<noteq> message_ready"
proof -
  have "m @ nl @ message_restart \<noteq> message_startup \<and> m @ nl @ message_restart \<noteq> message_ready"
    "m @ message_mcu_connect_error \<noteq> message_startup \<and> m @ message_mcu_connect_error \<noteq> message_ready"
    "''Internal error during connect: '' @ m @ nl @ message_restart \<noteq> message_startup \<and>
     ''Internal error during connect: '' @ m @ nl @ message_restart \<noteq> message_ready" for m
    by (rule longer_other, simp add: message_restart_def message_mcu_connect_error_def use_firmware_restart_def message_startup_def nl_def)+
  with protocol_error_message_other that show ?thesis
    by (cases e) (simp_all add: connect_failed_def Let_def del: append.simps append_assoc)
qed

lemma connect_try_steps:
  assumes calls: "\<And>cb. keeps_steps (\<lambda>p. snd (call cb p))" "keeps_steps (\<lambda>p. snd (read_config p))"
  shows "callback_step\<^sup>*\<^sup>* (core p) (core (snd (connect_try read_config call p)))"
proof -
  obtain x q where x: "read_config p = (x, q)" by (cases "read_config p")
  obtain y q' where y: "send_event call ''klippy:mcu_identify'' q = (y, q')"
    by (cases "send_event call ''klippy:mcu_identify'' q")
  have q: "callback_step\<^sup>*\<^sup>* (core p) (core q)" using keeps_stepsD [OF calls(2), of p] x by simp
  have q': "callback_step\<^sup>*\<^sup>* (core q) (core q')"
    using run_callbacks_steps [where call = call and p = q, OF calls(1)] y by (metis send_event_def snd_conv)
  note w = run_while_state_steps [where call = call and p = q', OF calls(1)]
  from q steps_trans [OF q q'] steps_trans [OF steps_trans [OF q q'] w] show ?thesis
    by (cases x; cases y) (simp_all add: connect_try_def x y)
qed

lemma run_while_state_left:
  "run_while_state call st cbs p = (Inr False, p') \<Longrightarrow> pr_message (core p') \<noteq> st"
  by (induction cbs arbitrary: p) (auto split: if_splits prod.splits sum.splits)

lemma connect_try_left:
  "connect_try read_config call p = (Inr False, p') \<Longrightarrow> pr_message (core p') \<noteq> message_startup"
  by (auto simp: connect_try_def dest: run_while_state_left split: prod.splits sum.splits)

lemma connect_ready_steps:
  assumes calls: "\<And>cb. keeps_steps (\<lambda>p. snd (call cb p))" "keeps_steps restart"
  shows "callback_step\<^sup>*\<^sup>* (set_state message_ready (core p)) (core (connect_ready call restart p))"
proof -
  let ?p2 = "p\<lparr>core := set_state message_ready (core p)\<rparr>"
  obtain z p3 where z: "run_while_state call message_ready (dget_or (event_handlers ?p2) ''klippy:ready'' []) ?p2 = (z, p3)"
    by (cases "run_while_state call message_ready (dget_or (event_handlers ?p2) ''klippy:ready'' []) ?p2")
  have "callback_step\<^sup>*\<^sup>* (core ?p2) (core p3)"
    using run_while_state_steps [where call = call and p = ?p2, OF calls(1)] z by (metis snd_conv)
  with invoke_shutdown_steps [where call = call, OF calls] z show ?thesis
    by (cases z) (auto simp: connect_ready_def Let_def intro: steps_trans)
qed

text \<open>Before the configuration has loaded \<open>rotate_logger\<close>, a shutdown raises and changes nothing.\<close>

lemma shutdown_needs_logger:
  "\<not> din ''rotate_logger'' (objects p) \<Longrightarrow> \<not> in_shutdown_state (core p) \<Longrightarrow> \<not> contains_str msg ''ADC out of range'' \<Longrightarrow>
    invoke_shutdown call restart msg p = (Inl (ConfigError (''Unknown config object '' @ quoted ''rotate_logger'')), p)"
  by (simp add: invoke_shutdown_def begin_shutdown_def)

section \<open>The abstract machine\<close>

text \<open>
  What a client of the printer is promised, in terms of the reported message and category only: it
  connects, fails or is shut down, the text of a failure stays, also through a later shutdown, and a
  shutdown is final.
\<close>

datatype phase = Startup | Ready | Failed string | Halted string

definition phase_of :: "printer_core \<Rightarrow> phase" where
  "phase_of c =
     (let (m, category) = get_state_message c in
      if category = ''ready'' then Ready
      else if category = ''startup'' then Startup
      else if category = ''shutdown'' then Halted m
      else Failed m)"

inductive phase_step :: "phase \<Rightarrow> phase \<Rightarrow> bool" where
  connected: "phase_step Startup Ready"
| failed: "phase_step Startup (Failed m)"
| halted_early: "phase_step Startup (Halted m)"
| halted: "phase_step Ready (Halted m)"
| halted_late: "phase_step (Failed m) (Halted m)"

inductive_simps phase_step_simps [simp]:
  "phase_step s Startup" "phase_step Startup s" "phase_step Ready s" "phase_step (Failed m) s" "phase_step (Halted m) s"

lemma phase_of_eq:
  "phase_of c = (if pr_message c = message_ready then Ready else if pr_message c = message_startup then Startup
     else if in_shutdown_state c then Halted (pr_message c) else Failed (pr_message c))"
  by (simp add: phase_of_def get_state_message_def)

lemma callback_step_phase: "callback_step c c' \<Longrightarrow> phase_step\<^sup>=\<^sup>= (phase_of c) (phase_of c')"
  by (drule callback_step_state) (auto simp: phase_of_eq split: if_splits)

lemma ready_not_startup: "message_ready \<noteq> message_startup"
  by (simp add: message_ready_def message_startup_def nl_def)

lemma core_step_phase: "core_step c c' \<Longrightarrow> phase_step\<^sup>=\<^sup>= (phase_of c) (phase_of c')"
  by (erule core_stepE) (auto dest: callback_step_phase simp: phase_of_eq ready_not_startup split: if_splits)

lemma core_steps_phase: "core_step\<^sup>*\<^sup>* c c' \<Longrightarrow> phase_step\<^sup>*\<^sup>* (phase_of c) (phase_of c')"
proof (induction rule: rtranclp_induct)
  case (step y z)
  then show ?case using core_step_phase [of y z] by (auto intro: rtranclp.rtrancl_into_rtrancl)
qed simp

lemma callback_steps_core: "callback_step\<^sup>*\<^sup>* c c' \<Longrightarrow> core_step\<^sup>*\<^sup>* c c'"
  by (erule rtranclp_mono [THEN predicate2D, rotated]) (auto intro: core_step.by_callback)

lemma phase_steps_not_startup: "phase_step\<^sup>*\<^sup>* s t \<Longrightarrow> s \<noteq> Startup \<Longrightarrow> t \<noteq> Startup"
  by (induction rule: rtranclp_induct) auto

lemma callback_steps_not_ready:
  "callback_step\<^sup>*\<^sup>* c c' \<Longrightarrow> pr_message c \<noteq> message_ready \<Longrightarrow> pr_message c' \<noteq> message_ready"
  by (induction rule: rtranclp_induct) (auto dest!: callback_step_state split: if_splits)

lemma phase_ready: "phase_of c = Ready \<longleftrightarrow> pr_message c = message_ready"
  and phase_startup: "phase_of c = Startup \<longleftrightarrow> pr_message c = message_startup"
  by (auto simp: phase_of_eq ready_not_startup)

section \<open>Properties\<close>



text \<open>C37: A printer that has been shut down reports the category \<open>shutdown\<close> and the same message ever
  after, whatever the components and \<open>_connect\<close> do, and every further \<open>invoke_shutdown\<close> does nothing; a
  printer that reports \<open>ready\<close> has not been shut down.
\<close>

theorem shutdown_is_final:
  assumes "core_step\<^sup>*\<^sup>* (initial_core dbg) (core p)" "core_step\<^sup>*\<^sup>* (core p) (core p')"
  shows "(in_shutdown_state (core p) \<longrightarrow>
      get_state_message (core p') = (pr_message (core p), ''shutdown'') \<and>
      invoke_shutdown call restart msg p' = (Inr (), p')) \<and>
    (snd (get_state_message (core p)) = ''ready'' \<longrightarrow> \<not> in_shutdown_state (core p))"
proof (intro conjI impI)
  have ok: "core_ok (core p)" using assms(1) by (rule core_steps_ok) (simp add: core_ok_def initial_core_def)
  {
    assume s: "in_shutdown_state (core p)"
    from assms(2) have f: "in_shutdown_state (core p') \<and> pr_message (core p') = pr_message (core p)"
    proof (induction rule: rtranclp_induct)
      case (step y z)
      have "pr_message y \<notin> {message_ready, message_startup}" using ok s step.IH by (simp add: core_ok_def)
      with step show ?case by (auto elim!: core_stepE dest!: callback_step_state)
    qed (simp add: s)
    with ok s show "get_state_message (core p') = (pr_message (core p), ''shutdown'')"
      by (simp add: get_state_message_def core_ok_def)
    from f show "invoke_shutdown call restart msg p' = (Inr (), p')" by (simp add: invoke_shutdown_def begin_shutdown_def)
  }
  assume "snd (get_state_message (core p)) = ''ready''"
  with ok show "\<not> in_shutdown_state (core p)" by (auto simp: get_state_message_def core_ok_def split: if_splits)
qed

lemma shutdown_is_final_witness:
  "(let p = \<lparr>core = initial_core False, event_handlers = [], objects = [(''gcode'', ()), (''rotate_logger'', ())], pr_world = ()\<rparr>;
      call = (\<lambda>cb :: unit. \<lambda>p. (Inr (), p));
      p1 = snd (invoke_shutdown call (\<lambda>p. p) ''MCU timeout'' p)
    in get_state_message (core p1) = (''MCU timeout'' @ message_shutdown, ''shutdown'') \<and>
       invoke_shutdown call (\<lambda>p. p) ''Timer too close'' p1 = (Inr (), p1))"
proof -
  let ?p = "\<lparr>core = initial_core False, event_handlers = [], objects = [(''gcode'', ()), (''rotate_logger'', ())], pr_world = ()\<rparr>"
  let ?call = "\<lambda>cb :: unit. \<lambda>p :: (unit, unit, unit) printer. (Inr () :: conn_error + unit, p)"
  let ?p1 = "snd (invoke_shutdown ?call (\<lambda>p. p) ''MCU timeout'' ?p)"
  have "keeps_steps (\<lambda>p. snd (?call cb p))" "keeps_steps (\<lambda>p :: (unit, unit, unit) printer. p)" for cb
    by (simp_all add: keeps_steps_def)
  then have "core_step\<^sup>*\<^sup>* (initial_core False) (core ?p1)"
    using callback_steps_core [OF invoke_shutdown_steps [where call = ?call and restart = "\<lambda>p. p" and msg = "''MCU timeout''" and p = ?p]] by simp
  note f = shutdown_is_final [OF this rtranclp.rtrancl_refl]
  moreover have "in_shutdown_state (core ?p1)" "pr_message (core ?p1) = ''MCU timeout'' @ message_shutdown" by code_simp+
  ultimately show ?thesis by (simp add: Let_def)
qed

end
