(* ===== verification/GCode.thy ===== *)
theory GCode
  imports PyRegex Printer Complex_Main
begin

text \<open>
  \<open>klippy/gcode.py\<close>: the G-code line parser, the parameters of a command, the registration and the
  dispatch of handlers, and the reading of lines from the terminal.

  A handler is a value of a type parameter, run by the parameter \<open>run\<close>, which may change the whole
  state of the dispatcher; the dispatcher's own commands are \<open>Builtin\<close>. \<open>CommandError\<close> is
  \<open>AppError\<close>. Of a shutdown of the printer, its own state and the dispatcher's callback are here;
  the callbacks of other components act on their own parts (\<open>Printer\<close>). The object \<open>rotate_logger\<close>,
  which the machine's configuration loads, is taken as loaded (\<open>Printer.shutdown_needs_logger\<close>). The log
  files are not modelled, and neither is \<open>LOAD_FUNCTION_SWITCH\<close>, which reads a file of the user
  interface. Numbers with a fraction are rationals.
\<close>

section \<open>Numbers\<close>

text \<open>What \<open>float(s)\<close> gives, \<open>None\<close> for \<open>ValueError\<close>.\<close>

datatype pyfloat = Fin rat | Infinite bool | NaN

definition digit_part :: regex where
  "digit_part = Seq Digit (Star (Seq (Opt (one_of ''_'')) Digit))"

definition float_r :: regex where
  "float_r = SeqL [Grp ''sign'' (Opt (one_of ''+-'')),
     Alt (SeqL [Grp ''int'' digit_part, Opt (Seq (one_of ''.'') (Grp ''frac'' (Opt digit_part)))])
         (SeqL [Grp ''int'' Eps, one_of ''.'', Grp ''frac'' digit_part]),
     Opt (SeqL [one_of ''eE'', Grp ''esign'' (Opt (one_of ''+-'')), Grp ''exp'' digit_part])]"

definition digits_nat :: "string \<Rightarrow> nat" where
  "digits_nat s = foldl (\<lambda>n c. if c = CHR ''_'' then n else n * 10 + (ccode c - 48)) 0 s"

definition digits_count :: "string \<Rightarrow> nat" where
  "digits_count s = length (filter is_digit s)"

definition float_value :: "caps \<Rightarrow> rat" where
  "float_value c =
     (let i = dget_or c ''int'' []; f = dget_or c ''frac'' [];
          m = of_nat (digits_nat (i @ f)) / 10 ^ digits_count f;
          e = digits_nat (dget_or c ''exp'' []);
          v = (if dget_or c ''esign'' [] = ''-'' then m / 10 ^ e else m * 10 ^ e)
      in if dget_or c ''sign'' [] = ''-'' then - v else v)"

definition parse_float :: "string \<Rightarrow> pyfloat option" where
  "parse_float s =
     (let t = lower (strip s);
          neg = startswith t ''-'';
          u = (if startswith t ''-'' \<or> startswith t ''+'' then drop 1 t else t)
      in if u = ''inf'' \<or> u = ''infinity'' then Some (Infinite neg)
         else if u = ''nan'' then Some NaN
         else case find (\<lambda>(r, c). r = []) (rx float_r t []) of
           Some (_, c) \<Rightarrow> Some (Fin (float_value c)) | None \<Rightarrow> None)"

section \<open>\<open>shlex.split\<close>\<close>

datatype shlex_state = Between | InWord | InQuote char | Escaped "char option"

text \<open>
  \<open>Escaped q\<close> is the state after a backslash, in the quotes \<open>q\<close> or outside quotes. A word is
  reported when it is not empty or had quotes.
\<close>

definition shlex_emit :: "string \<Rightarrow> bool \<Rightarrow> string list \<Rightarrow> string list" where
  "shlex_emit tok q out = (if tok \<noteq> [] \<or> q then out @ [tok] else out)"

definition shlex_space :: "char \<Rightarrow> bool" where
  "shlex_space c \<longleftrightarrow> c \<in> {CHR '' '', CHR 0x09, CHR 0x0A, CHR 0x0D}"

definition shlex_quote :: "char \<Rightarrow> bool" where
  "shlex_quote c \<longleftrightarrow> c = CHR 0x22 \<or> c = CHR 0x27"

fun shlex_loop :: "shlex_state \<Rightarrow> string \<Rightarrow> bool \<Rightarrow> string list \<Rightarrow> string \<Rightarrow> string list res" where
  "shlex_loop Between tok q out [] = Inr out"
| "shlex_loop InWord tok q out [] = Inr (shlex_emit tok q out)"
| "shlex_loop (InQuote d) tok q out [] = Inl ValueError"
| "shlex_loop (Escaped b) tok q out [] = Inl ValueError"
| "shlex_loop Between tok q out (c # s) =
     (if shlex_space c then shlex_loop Between [] False out s
      else if c = CHR 0x5C then shlex_loop (Escaped None) [] False out s
      else if shlex_quote c then shlex_loop (InQuote c) [] True out s
      else shlex_loop InWord [c] False out s)"
| "shlex_loop InWord tok q out (c # s) =
     (if shlex_space c then shlex_loop Between [] False (shlex_emit tok q out) s
      else if shlex_quote c then shlex_loop (InQuote c) tok True out s
      else if c = CHR 0x5C then shlex_loop (Escaped None) tok q out s
      else shlex_loop InWord (tok @ [c]) q out s)"
| "shlex_loop (InQuote d) tok q out (c # s) =
     (if c = d then shlex_loop InWord tok True out s
      else if c = CHR 0x5C \<and> d = CHR 0x22 then shlex_loop (Escaped (Some d)) tok True out s
      else shlex_loop (InQuote d) (tok @ [c]) True out s)"
| "shlex_loop (Escaped b) tok q out (c # s) =
     (case b of
        None \<Rightarrow> shlex_loop InWord (tok @ [c]) q out s
      | Some d \<Rightarrow>
          shlex_loop (InQuote d) (tok @ (if c \<noteq> CHR 0x5C \<and> c \<noteq> d then [CHR 0x5C, c] else [c])) q out s)"

definition shlex_split :: "string \<Rightarrow> string list res" where
  "shlex_split s = shlex_loop Between [] False [] s"

section \<open>Commands\<close>

record gcmd =
  gc_command :: string
  gc_commandline :: string
  gc_params :: "(string, string) dict"
  gc_need_ack :: bool

definition create_gcode_command :: "string \<Rightarrow> string \<Rightarrow> (string, string) dict \<Rightarrow> gcmd" where
  "create_gcode_command command commandline params =
     \<lparr>gc_command = command, gc_commandline = commandline, gc_params = params, gc_need_ack = False\<rparr>"

text \<open>\<open>s[i:]\<close> for the result \<open>i\<close> of \<open>find\<close>: \<open>-1\<close> is the last character.\<close>

definition from_find :: "nat option \<Rightarrow> string \<Rightarrow> string" where
  "from_find i s = (case i of Some n \<Rightarrow> drop n s | None \<Rightarrow> drop (length s - 1) s)"

definition get_raw_command_parameters :: "gcmd \<Rightarrow> string" where
  "get_raw_command_parameters g =
     (let command = (if startswith (gc_command g) ''M117 '' \<or> startswith (gc_command g) ''M118 ''
                     then take 4 (gc_command g) else gc_command g);
          raw = gc_commandline g;
          raw1 = (if startswith (upper raw) command then raw
                  else let r = from_find (find_str command (upper raw)) raw in
                    (case rfind_char (CHR ''*'') r of Some e \<Rightarrow> take e r | None \<Rightarrow> r));
          raw2 = drop (length command) raw1
      in if startswith raw2 '' '' then drop 1 raw2 else raw2)"

text \<open>The response of an acknowledgement, when there is one.\<close>

definition gc_ack :: "string option \<Rightarrow> gcmd \<Rightarrow> string option \<times> gcmd" where
  "gc_ack msg g =
     (if \<not> gc_need_ack g then (None, g)
      else (Some (case msg of Some m \<Rightarrow> if m = [] then ''ok'' else ''ok '' @ m | None \<Rightarrow> ''ok''),
            g\<lparr>gc_need_ack := False\<rparr>))"

datatype 'v param_default = Required | Default "'v option"

definition gc_error :: "gcmd \<Rightarrow> string \<Rightarrow> exc" where
  "gc_error g m = AppError (''Error on '' @ quoted (gc_commandline g) @ '': '' @ m)"

text \<open>\<open>shw\<close> is the text of a bound in a message.\<close>

definition gc_get ::
  "('v::linorder \<Rightarrow> string) \<Rightarrow> (string \<Rightarrow> 'v option) \<Rightarrow> string \<Rightarrow> 'v param_default \<Rightarrow> 'v option \<Rightarrow> 'v option \<Rightarrow>
    'v option \<Rightarrow> 'v option \<Rightarrow> gcmd \<Rightarrow> 'v option res" where
  "gc_get shw parser name dflt minval maxval lo hi g =
     (case dget (gc_params g) name of
        None \<Rightarrow> (case dflt of
            Required \<Rightarrow> Inl (gc_error g (''missing '' @ name))
          | Default d \<Rightarrow> Inr d)
      | Some text \<Rightarrow> (case parser text of
            None \<Rightarrow> Inl (gc_error g (''unable to parse '' @ text))
          | Some v \<Rightarrow>
              if (case minval of Some b \<Rightarrow> v < b | None \<Rightarrow> False)
              then Inl (gc_error g (name @ '' must have minimum of '' @ shw (the minval)))
              else if (case maxval of Some b \<Rightarrow> b < v | None \<Rightarrow> False)
              then Inl (gc_error g (name @ '' must have maximum of '' @ shw (the maxval)))
              else if (case lo of Some b \<Rightarrow> v \<le> b | None \<Rightarrow> False)
              then Inl (gc_error g (name @ '' must be above '' @ shw (the lo)))
              else if (case hi of Some b \<Rightarrow> b \<le> v | None \<Rightarrow> False)
              then Inl (gc_error g (name @ '' must be below '' @ shw (the hi)))
              else Inr (Some v)))"

definition gc_get_str :: "string \<Rightarrow> string param_default \<Rightarrow> gcmd \<Rightarrow> string option res" where
  "gc_get_str name dflt g =
     (case dget (gc_params g) name of
        Some v \<Rightarrow> Inr (Some v)
      | None \<Rightarrow> (case dflt of
            Required \<Rightarrow> Inl (gc_error g (''missing '' @ name))
          | Default d \<Rightarrow> Inr d))"

definition gc_get_int ::
  "string \<Rightarrow> int param_default \<Rightarrow> int option \<Rightarrow> int option \<Rightarrow> gcmd \<Rightarrow> int option res" where
  "gc_get_int name dflt minval maxval g = gc_get str_int (parse_int 10) name dflt minval maxval None None g"

text \<open>Whether \<open>not gcmd.get_float(name, d)\<close> holds: the value is zero.\<close>

definition float_is_zero :: "string \<Rightarrow> bool \<Rightarrow> gcmd \<Rightarrow> bool res" where
  "float_is_zero name dflt_zero g =
     (case dget (gc_params g) name of
        None \<Rightarrow> Inr dflt_zero
      | Some text \<Rightarrow> (case parse_float text of
            None \<Rightarrow> Inl (gc_error g (''unable to parse '' @ text))
          | Some v \<Rightarrow> Inr (v = Fin 0)))"

section \<open>Lines\<close>

definition args_r :: regex where
  "args_r = Alt (Plus (Cls (\<lambda>c. is_upper c \<or> c = CHR ''_''))) (Cls (\<lambda>c. is_upper c \<or> c = CHR ''*'' \<or> c = CHR ''/''))"

fun pair_up :: "string list \<Rightarrow> (string \<times> string) list" where
  "pair_up (k # v # r) = (k, strip v) # pair_up r"
| "pair_up _ = []"

definition command_of_parts :: "string list \<Rightarrow> string" where
  "command_of_parts parts =
     (let numparts = length parts in
      if numparts \<ge> 3 \<and> parts ! 1 \<noteq> ''N'' then parts ! 1 @ strip (parts ! 2)
      else if numparts \<ge> 5 \<and> parts ! 1 = ''N'' then parts ! 3 @ strip (parts ! 4)
      else [])"

definition parse_line :: "bool \<Rightarrow> string \<Rightarrow> gcmd" where
  "parse_line need_ack input =
     (let origline = strip input;
          line = (case find_char (CHR '';'') origline of Some c \<Rightarrow> take c origline | None \<Rightarrow> origline);
          parts = rx_split args_r (upper line)
      in \<lparr>gc_command = command_of_parts parts, gc_commandline = origline,
          gc_params = dict_of (pair_up (tl parts)), gc_need_ack = need_ack\<rparr>)"

definition extended_r :: regex where
  "extended_r = SeqL
     [Spaces, Opt (SeqL [one_of ''N'', Plus Digit, Spaces]),
      Grp ''cmd'' (Seq (Cls (\<lambda>c. is_upper c \<or> is_lower c \<or> c = CHR ''_''))
        (Plus (Cls (\<lambda>c. is_upper c \<or> is_lower c \<or> is_digit c \<or> c = CHR ''_'')))),
      Alt (Plus (Cls is_space)) EndAnchor,
      Grp ''args'' (LazyStar (Cls (\<lambda>c. c \<notin> set ''#*;''))),
      Spaces, Opt (Seq (one_of ''#*;'') (Star (Cls (\<lambda>c. c \<noteq> newline_char)))), EndAnchor]"

definition malformed :: "gcmd \<Rightarrow> exc" where
  "malformed g = AppError (''Malformed command '' @ quoted (gc_commandline g))"

definition extended_args :: "string \<Rightarrow> (string, string) dict res" where
  "extended_args eargs =
     rbind (shlex_split eargs) (\<lambda>words.
     rbind (rmap (\<lambda>w. case split_once (CHR ''='') w of [k, v] \<Rightarrow> Inr (upper k, v) | _ \<Rightarrow> Inl ValueError) words)
       (\<lambda>kvs. Inr (dict_of kvs)))"

definition get_extended_params :: "gcmd \<Rightarrow> gcmd res" where
  "get_extended_params g =
     (case rx_groups extended_r (gc_commandline g) of
        None \<Rightarrow> Inl (malformed g)
      | Some c \<Rightarrow> (case extended_args (the (dget c ''args'')) of
            Inl _ \<Rightarrow> Inl (malformed g)
          | Inr ps \<Rightarrow> Inr (g\<lparr>gc_params := ps\<rparr>)))"

definition is_traditional_gcode :: "string \<Rightarrow> bool" where
  "is_traditional_gcode cmd =
     (case split_ws (upper cmd) of
        (c # d # r) # _ \<Rightarrow> parse_float (d # r) \<noteq> None \<and> is_upper c \<and> is_digit d
      | _ \<Rightarrow> False)"

section \<open>The dispatcher\<close>

datatype 'h func = Ext 'h | Builtin string | MuxFunc string

text \<open>A registered handler: the flag says that it reads extended parameters first.\<close>

type_synonym 'h handler = "bool \<times> 'h func"

record ('h, 'w) gcode =
  is_printer_ready :: bool
  gc_is_fileinput :: bool
  ready_selected :: bool
  base_gcode_handlers :: "(string, 'h handler) dict"
  ready_gcode_handlers :: "(string, 'h handler) dict"
  mux_commands :: "(string, string \<times> (string option, 'h) dict) dict"
  gcode_help :: "(string, string) dict"
  gc_output :: "string list"
  gc_events :: "string list"
  gc_core :: printer_core
  software_version :: string
  world :: 'w

definition gcode_handlers :: "('h, 'w) gcode \<Rightarrow> (string, 'h handler) dict" where
  "gcode_handlers s = (if ready_selected s then ready_gcode_handlers s else base_gcode_handlers s)"

definition respond_raw :: "string \<Rightarrow> ('h, 'w) gcode \<Rightarrow> ('h, 'w) gcode" where
  "respond_raw msg s = s\<lparr>gc_output := gc_output s @ [msg]\<rparr>"

definition respond_info :: "string \<Rightarrow> ('h, 'w) gcode \<Rightarrow> ('h, 'w) gcode" where
  "respond_info msg s =
     (let ls = map strip (split_on newline_char (strip msg))
      in respond_raw (''// '' @ join (newline_char # ''// '') ls) s)"

definition respond_error :: "string \<Rightarrow> ('h, 'w) gcode \<Rightarrow> ('h, 'w) gcode" where
  "respond_error msg s =
     (let ls = split_on newline_char (strip msg);
          s1 = (if length ls > 1 then respond_info (join [newline_char] ls) s else s);
          s2 = respond_raw (''!! '' @ strip (hd ls)) s1
      in if gc_is_fileinput s2 then s2\<lparr>gc_core := request_exit ''error_exit'' (gc_core s2)\<rparr> else s2)"

definition respond_state :: "string \<Rightarrow> ('h, 'w) gcode \<Rightarrow> ('h, 'w) gcode" where
  "respond_state st s = respond_info (''Klipper state: '' @ st) s"

definition register_command ::
  "string \<Rightarrow> 'h func option \<Rightarrow> bool \<Rightarrow> string option \<Rightarrow> ('h, 'w) gcode \<Rightarrow> ('h handler option \<times> ('h, 'w) gcode) res" where
  "register_command cmd func when_not_ready desc s =
     (case func of
        None \<Rightarrow> Inr (dget (ready_gcode_handlers s) cmd,
          s\<lparr>ready_gcode_handlers := ddel cmd (ready_gcode_handlers s),
            base_gcode_handlers := ddel cmd (base_gcode_handlers s)\<rparr>)
      | Some f \<Rightarrow>
          if din cmd (ready_gcode_handlers s)
          then Inl (AppError (''gcode command '' @ cmd @ '' already registered''))
          else
            let h = (\<not> is_traditional_gcode cmd, f);
                s1 = s\<lparr>ready_gcode_handlers := dset cmd h (ready_gcode_handlers s)\<rparr>;
                s2 = (if when_not_ready then s1\<lparr>base_gcode_handlers := dset cmd h (base_gcode_handlers s1)\<rparr> else s1);
                s3 = (case desc of Some d \<Rightarrow> s2\<lparr>gcode_help := dset cmd d (gcode_help s2)\<rparr> | None \<Rightarrow> s2)
            in Inr (None, s3))"

text \<open>\<open>shw_values\<close> is Python's text of the values registered so far, for the message.\<close>

definition register_mux_command ::
  "((string option, 'h) dict \<Rightarrow> string) \<Rightarrow> string \<Rightarrow> string \<Rightarrow> string option \<Rightarrow> 'h \<Rightarrow> string option \<Rightarrow>
    ('h, 'w) gcode \<Rightarrow> ('h, 'w) gcode res" where
  "register_mux_command shw_values cmd key val f desc s =
     rbind (case dget (mux_commands s) cmd of
         Some prev \<Rightarrow> Inr (prev, s)
       | None \<Rightarrow> rbind (register_command cmd (Some (MuxFunc cmd)) False desc s) (\<lambda>(_, s1).
           Inr ((key, []), s1\<lparr>mux_commands := dset cmd (key, []) (mux_commands s1)\<rparr>)))
       (\<lambda>((prev_key, prev_values), s1).
         let vtext = (case val of None \<Rightarrow> ''None'' | Some v \<Rightarrow> v) in
         if prev_key \<noteq> key
         then Inl (AppError (''mux command '' @ cmd @ '' '' @ key @ '' '' @ vtext @ '' may have only one key ('' @ prev_key @ '')''))
         else if din val prev_values
         then Inl (AppError (''mux command '' @ cmd @ '' '' @ key @ '' '' @ vtext @ '' already registered ('' @ shw_values prev_values @ '')''))
         else Inr (s1\<lparr>mux_commands := dset cmd (prev_key, dset val f prev_values) (mux_commands s1)\<rparr>))"

definition handle_shutdown :: "('h, 'w) gcode \<Rightarrow> ('h, 'w) gcode" where
  "handle_shutdown s =
     (if \<not> is_printer_ready s then s
      else respond_state ''Shutdown'' (s\<lparr>is_printer_ready := False, ready_selected := False\<rparr>))"

definition handle_disconnect :: "('h, 'w) gcode \<Rightarrow> ('h, 'w) gcode" where
  "handle_disconnect s = respond_state ''Disconnect'' s"

definition handle_ready :: "('h, 'w) gcode \<Rightarrow> ('h, 'w) gcode" where
  "handle_ready s = respond_state ''Ready'' (s\<lparr>is_printer_ready := True, ready_selected := True\<rparr>)"

section \<open>The commands of the dispatcher\<close>

text \<open>The calls of the toolhead are listed with the events sent, in their order.\<close>

definition request_restart :: "string \<Rightarrow> ('h, 'w) gcode \<Rightarrow> ('h, 'w) gcode" where
  "request_restart result s =
     (let s1 = (if is_printer_ready s
                then s\<lparr>gc_events := gc_events s @ [''toolhead.get_last_move_time'', ''gcode:request_restart'',
                       ''toolhead.dwell 0.500'', ''toolhead.wait_moves'']\<rparr> else s)
      in s1\<lparr>gc_core := request_exit result (gc_core s1)\<rparr>)"

definition gc_invoke_shutdown :: "string \<Rightarrow> ('h, 'w) gcode \<Rightarrow> ('h, 'w) gcode" where
  "gc_invoke_shutdown msg s =
     (case begin_shutdown msg (gc_core s) of
        None \<Rightarrow> s
      | Some c \<Rightarrow> request_restart ''firmware_restart'' (handle_shutdown (s\<lparr>gc_core := c\<rparr>)))"

definition pad_to :: "nat \<Rightarrow> string \<Rightarrow> string" where
  "pad_to n s = s @ replicate (n - length s) (CHR '' '')"

definition cmd_HELP :: "('h, 'w) gcode \<Rightarrow> ('h, 'w) gcode" where
  "cmd_HELP s =
     respond_info (join [newline_char]
       ((if is_printer_ready s then [] else [''Printer is not ready - not all commands available.'']) @
        [''Available extended commands:''] @
        List.map_filter (\<lambda>cmd. map_option (\<lambda>h. pad_to 10 cmd @ '': '' @ h) (dget (gcode_help s) cmd))
          (sort_by str_le (dkeys (gcode_handlers s))))) s"

definition cmd_STATUS :: "('h, 'w) gcode \<Rightarrow> unit res \<times> ('h, 'w) gcode" where
  "cmd_STATUS s =
     (if is_printer_ready s then (Inr (), respond_state ''Ready'' s)
      else (Inl (AppError (rstrip (pr_message (gc_core s)) @ [newline_char] @ ''Klipper state: Not ready'')), s))"

text \<open>An acknowledgement, with its response.\<close>

definition do_ack :: "string option \<Rightarrow> gcmd \<Rightarrow> ('h, 'w) gcode \<Rightarrow> bool \<times> gcmd \<times> ('h, 'w) gcode" where
  "do_ack msg g s =
     (case gc_ack msg g of
        (None, g') \<Rightarrow> (False, g', s)
      | (Some m, g') \<Rightarrow> (True, g', respond_raw m s))"

definition cmd_M115 :: "gcmd \<Rightarrow> ('h, 'w) gcode \<Rightarrow> gcmd \<times> ('h, 'w) gcode" where
  "cmd_M115 g s =
     (let msg = ''FIRMWARE_NAME:Klipper FIRMWARE_VERSION:'' @ software_version s in
      case do_ack (Some msg) g s of
        (True, g', s') \<Rightarrow> (g', s')
      | (False, g', s') \<Rightarrow> (g', respond_info msg s'))"

definition builtin :: "string \<Rightarrow> gcmd \<Rightarrow> ('h, 'w) gcode \<Rightarrow> unit res \<times> gcmd \<times> ('h, 'w) gcode" where
  "builtin name g s =
     (if name = ''M112'' then (Inr (), g, gc_invoke_shutdown ''Shutdown due to M112 command'' s)
      else if name = ''M115'' then (Inr (), cmd_M115 g s)
      else if name = ''RESTART'' then (Inr (), g, request_restart ''restart'' s)
      else if name = ''FIRMWARE_RESTART'' then (Inr (), g, request_restart ''firmware_restart'' s)
      else if name = ''ECHO'' then (Inr (), g, respond_info (gc_commandline g) s)
      else if name = ''STATUS'' then (case cmd_STATUS s of (r, s') \<Rightarrow> (r, g, s'))
      else if name = ''HELP'' then (Inr (), g, cmd_HELP s)
      else (Inr (), g, s))"

section \<open>Dispatch\<close>

type_synonym ('h, 'w) runner = "'h \<Rightarrow> gcmd \<Rightarrow> ('h, 'w) gcode \<Rightarrow> unit res \<times> gcmd \<times> ('h, 'w) gcode"

definition cmd_mux :: "('h, 'w) runner \<Rightarrow> string \<Rightarrow> gcmd \<Rightarrow> ('h, 'w) gcode \<Rightarrow> unit res \<times> gcmd \<times> ('h, 'w) gcode" where
  "cmd_mux run command g s =
     (case dget (mux_commands s) command of
        None \<Rightarrow> (Inl KeyError, g, s)
      | Some (key, vals) \<Rightarrow>
          (case gc_get_str key (if din None vals then Default None else Required) g of
             Inl e \<Rightarrow> (Inl e, g, s)
           | Inr key_param \<Rightarrow>
               (case dget vals key_param of
                  None \<Rightarrow> (Inl (AppError (''The value '' @
                      quoted (case key_param of None \<Rightarrow> ''None'' | Some v \<Rightarrow> v) @ '' is not valid for '' @ key)), g, s)
                | Some f \<Rightarrow> run f g s)))"

definition run_func :: "('h, 'w) runner \<Rightarrow> 'h func \<Rightarrow> gcmd \<Rightarrow> ('h, 'w) gcode \<Rightarrow> unit res \<times> gcmd \<times> ('h, 'w) gcode" where
  "run_func run f g s =
     (case f of Ext h \<Rightarrow> run h g s | Builtin n \<Rightarrow> builtin n g s | MuxFunc c \<Rightarrow> cmd_mux run c g s)"

definition run_handler :: "('h, 'w) runner \<Rightarrow> 'h handler \<Rightarrow> gcmd \<Rightarrow> ('h, 'w) gcode \<Rightarrow> unit res \<times> gcmd \<times> ('h, 'w) gcode" where
  "run_handler run h g s =
     (if fst h then
        (case get_extended_params g of Inl e \<Rightarrow> (Inl e, g, s) | Inr g' \<Rightarrow> run_func run (snd h) g' s)
      else run_func run (snd h) g s)"

definition unknown_command :: "gcmd \<Rightarrow> ('h, 'w) gcode \<Rightarrow> unit res \<times> gcmd \<times> ('h, 'w) gcode" where
  "unknown_command g s =
     (Inr (), g, respond_info (''Unknown command:'' @ [CHR 0x22] @ gc_command g @ [CHR 0x22]) s)"

definition cmd_default :: "('h, 'w) runner \<Rightarrow> gcmd \<Rightarrow> ('h, 'w) gcode \<Rightarrow> unit res \<times> gcmd \<times> ('h, 'w) gcode" where
  "cmd_default run g s =
     (let cmd = gc_command g in
      if cmd = ''M105'' then (case do_ack (Some ''T:0'') g s of (_, g', s') \<Rightarrow> (Inr (), g', s'))
      else if cmd = ''M21'' then (Inr (), g, s)
      else if \<not> is_printer_ready s then (Inl (AppError (pr_message (gc_core s))), g, s)
      else if cmd = [] then (Inr (), g, s)
      else if startswith cmd ''M117 '' \<or> startswith cmd ''M118 '' then
        (case dget (gcode_handlers s) (take 4 cmd) of
           Some h \<Rightarrow> run_handler run h g s
         | None \<Rightarrow> unknown_command g s)
      else if cmd = ''M140'' \<or> cmd = ''M104'' then
        (case float_is_zero ''S'' True g of
           Inl e \<Rightarrow> (Inl e, g, s)
         | Inr z \<Rightarrow> if z then (Inr (), g, s) else unknown_command g s)
      else if cmd = ''M107'' then (Inr (), g, s)
      else if cmd = ''M106'' then
        (case float_is_zero ''S'' False g of
           Inl e \<Rightarrow> (Inl e, g, s)
         | Inr z \<Rightarrow> if z \<or> gc_is_fileinput s then (Inr (), g, s) else unknown_command g s)
      else unknown_command g s)"

definition run_command :: "('h, 'w) runner \<Rightarrow> gcmd \<Rightarrow> ('h, 'w) gcode \<Rightarrow> unit res \<times> gcmd \<times> ('h, 'w) gcode" where
  "run_command run g s =
     (case dget (gcode_handlers s) (gc_command g) of
        Some h \<Rightarrow> run_handler run h g s
      | None \<Rightarrow> cmd_default run g s)"

text \<open>What is done about the exception of a handler.\<close>

definition report_exception :: "string \<Rightarrow> exc \<Rightarrow> ('h, 'w) gcode \<Rightarrow> ('h, 'w) gcode" where
  "report_exception cmd e s =
     (case e of
        AppError m \<Rightarrow>
          if contains_str m ''exclude_object over'' then s
          else let s1 = respond_error m s in s1\<lparr>gc_events := gc_events s1 @ [''gcode:command_error'']\<rparr>
      | _ \<Rightarrow>
          let msg = ''Internal error on command:'' @ [CHR 0x22] @ cmd @ [CHR 0x22]
          in respond_error msg (gc_invoke_shutdown msg s))"

definition process_line :: "('h, 'w) runner \<Rightarrow> bool \<Rightarrow> string \<Rightarrow> ('h, 'w) gcode \<Rightarrow> unit res \<times> ('h, 'w) gcode" where
  "process_line run need_ack line s =
     (let g = parse_line need_ack line in
      case run_command run g s of
        (Inr _, g', s') \<Rightarrow> (case do_ack None g' s' of (_, _, s'') \<Rightarrow> (Inr (), s''))
      | (Inl e, g', s') \<Rightarrow>
          let s1 = report_exception (gc_command g) e s' in
          if \<not> need_ack then (Inl e, s1)
          else (case do_ack None g' s1 of (_, _, s'') \<Rightarrow> (Inr (), s'')))"

fun process_commands :: "('h, 'w) runner \<Rightarrow> bool \<Rightarrow> string list \<Rightarrow> ('h, 'w) gcode \<Rightarrow> unit res \<times> ('h, 'w) gcode" where
  "process_commands run need_ack [] s = (Inr (), s)"
| "process_commands run need_ack (l # ls) s =
     (case process_line run need_ack l s of
        (Inl e, s') \<Rightarrow> (Inl e, s')
      | (Inr _, s') \<Rightarrow> process_commands run need_ack ls s')"

text \<open>The mutex of \<open>run_script\<close> is held by the one who runs it.\<close>

definition run_script :: "('h, 'w) runner \<Rightarrow> string \<Rightarrow> ('h, 'w) gcode \<Rightarrow> unit res \<times> ('h, 'w) gcode" where
  "run_script run script s = process_commands run False (split_on newline_char script) s"

definition early_commands :: "(string \<times> string option) list" where
  "early_commands =
     [(''M110'', None), (''M112'', None), (''M115'', None), (''LOAD_FUNCTION_SWITCH'', None),
      (''RESTART'', Some ''Reload config file and restart host software''),
      (''FIRMWARE_RESTART'', Some ''Restart firmware, host, and reload config''), (''F100'', None), (''ECHO'', None),
      (''STATUS'', Some ''Report the printer status''),
      (''HELP'', Some ''Report the list of available extended G-Code commands'')]"

definition new_gcode :: "printer_core \<Rightarrow> string \<Rightarrow> 'h \<Rightarrow> 'w \<Rightarrow> ('h, 'w) gcode res" where
  "new_gcode pc sw load_switch w =
     rfold (\<lambda>s (cmd, desc). rbind (register_command cmd
           (Some (if cmd = ''LOAD_FUNCTION_SWITCH'' then Ext load_switch else Builtin cmd)) True desc s) (\<lambda>(_, s'). Inr s'))
       \<lparr>is_printer_ready = False, gc_is_fileinput = debuginput pc, ready_selected = False,
        base_gcode_handlers = [], ready_gcode_handlers = [], mux_commands = [], gcode_help = [], gc_output = [],
        gc_events = [], gc_core = pc, software_version = sw, world = w\<rparr>
       early_commands"

section \<open>Reading lines\<close>

record gcode_io =
  gio_is_fileinput :: bool
  partial_input :: string
  pending_commands :: "string list"
  is_processing_data :: bool
  fd_registered :: bool
  pipe_is_active :: bool
  bytes_read :: nat
  input_log :: "(nat \<times> string) list"

definition m112_r :: regex where
  "m112_r = SeqL [Opt (Seq (one_of ''nN'') (Plus Digit)), Spaces, one_of ''mM'', Lit ''112'', Alt (Cls is_space) EndAnchor]"

datatype io_action = RequestExit | EmergencyStop

text \<open>
  The part of \<open>_process_data\<close> up to its \<open>return\<close>: the actions it takes, and whether it goes on to
  the loop over the pending commands.
\<close>

definition io_receive :: "nat \<Rightarrow> string \<Rightarrow> gcode_io \<Rightarrow> gcode_io \<times> io_action list \<times> bool" where
  "io_receive eventtime data st =
     (let parts = split_on newline_char data;
          lines0 = (partial_input st @ hd parts) # tl parts;
          ls = butlast lines0;
          st1 = st\<lparr>input_log := deque_append 50 (input_log st) (eventtime, data),
                   bytes_read := bytes_read st + length data,
                   partial_input := last lines0,
                   pending_commands := pending_commands st @ ls, pipe_is_active := True\<rparr>;
          eof = (data = [] \<and> gio_is_fileinput st);
          exit = (eof \<and> \<not> is_processing_data st);
          st2 = (if exit then st1\<lparr>fd_registered := False\<rparr> else st1);
          st3 = (if eof then st2\<lparr>pending_commands := pending_commands st2 @ [[]]\<rparr> else st2);
          n = length (pending_commands st3);
          urgent = ((is_processing_data st \<or> n > 1) \<and> n < 20);
          acts = (if exit then [RequestExit] else []) @
            (if urgent then map (\<lambda>_. EmergencyStop) (filter (\<lambda>l. rx_match m112_r l \<noteq> None) ls) else [])
      in if is_processing_data st
         then (if n \<ge> 20 then st3\<lparr>fd_registered := False\<rparr> else st3, acts, False)
         else (st3\<lparr>is_processing_data := True\<rparr>, acts, True))"

text \<open>One turn of the loop takes the pending commands; the end of the loop resumes reading.\<close>

definition io_take :: "gcode_io \<Rightarrow> string list \<times> gcode_io" where
  "io_take st = (pending_commands st, st\<lparr>pending_commands := []\<rparr>)"

definition io_finish :: "gcode_io \<Rightarrow> gcode_io" where
  "io_finish st = st\<lparr>is_processing_data := False, fd_registered := True\<rparr>"

definition new_gcode_io :: "bool \<Rightarrow> gcode_io" where
  "new_gcode_io fileinput =
     \<lparr>gio_is_fileinput = fileinput, partial_input = [], pending_commands = [], is_processing_data = False,
      fd_registered = \<not> fileinput, pipe_is_active = True, bytes_read = 0, input_log = []\<rparr>"

text \<open>
  How they interleave: data arrives whenever the reactor reads it, also while the commands of a
  batch run. The second component collects the commands taken so far, the third the data.
\<close>

inductive io_step :: "gcode_io \<times> string list \<times> string \<Rightarrow> gcode_io \<times> string list \<times> string \<Rightarrow> bool" where
  receive: "fd_registered st \<Longrightarrow> io_receive t data st = (st', acts, go) \<Longrightarrow> io_step (st, taken, inp) (st', taken, inp @ data)"
| take_batch: "is_processing_data st \<Longrightarrow> pending_commands st \<noteq> [] \<Longrightarrow> io_take st = (batch, st') \<Longrightarrow>
    io_step (st, taken, inp) (st', taken @ batch, inp)"
| finish: "is_processing_data st \<Longrightarrow> pending_commands st = [] \<Longrightarrow> io_step (st, taken, inp) (io_finish st, taken, inp)"

section \<open>Lines arrive whole, whatever the chunks\<close>

lemma split_on_aux_acc: "split_on_aux d acc s = (acc @ hd (split_on_aux d [] s)) # tl (split_on_aux d [] s)"
proof (induction s arbitrary: acc)
  case (Cons c s)
  show ?case
  proof (cases "c = d")
    case False
    then show ?thesis using Cons.IH [of "acc @ [c]"] Cons.IH [of "[c]"] by simp
  qed simp
qed simp

lemma split_on_append:
  "split_on d (s @ t) = butlast (split_on d s) @ ((last (split_on d s) @ hd (split_on d t)) # tl (split_on d t))"
proof -
  have "split_on_aux d acc (s @ t) =
      butlast (split_on_aux d acc s) @ ((last (split_on_aux d acc s) @ hd (split_on d t)) # tl (split_on d t))" for acc
  proof (induction s arbitrary: acc)
    case Nil
    then show ?case using split_on_aux_acc [of d acc t] by (simp add: split_on_def)
  next
    case (Cons c s)
    have "split_on_aux d [] s \<noteq> []" using split_on_nonempty [of d s] by (simp add: split_on_def)
    with Cons show ?case by simp
  qed
  then show ?thesis by (simp add: split_on_def)
qed

definition io_inv :: "gcode_io \<times> string list \<times> string \<Rightarrow> bool" where
  "io_inv = (\<lambda>(st, taken, inp). \<not> gio_is_fileinput st \<and>
     taken @ pending_commands st @ [partial_input st] = split_on newline_char inp)"

lemma io_receive_fields:
  assumes "io_receive t data st = (st', acts, go)" "\<not> gio_is_fileinput st"
  shows "pending_commands st' @ [partial_input st'] =
      pending_commands st @ ((partial_input st @ hd (split_on newline_char data)) # tl (split_on newline_char data))"
    and "gio_is_fileinput st' = gio_is_fileinput st"
  using assms by (auto simp: io_receive_def Let_def append_butlast_last_id split: if_splits)

lemma io_step_inv [inv_intros]: "io_step a b \<Longrightarrow> io_inv a \<Longrightarrow> io_inv b"
proof (induction rule: io_step.induct)
  case (receive st t data st' acts go taken inp)
  then have f: "\<not> gio_is_fileinput st" and inv: "split_on newline_char inp = (taken @ pending_commands st) @ [partial_input st]"
    by (simp_all add: io_inv_def)
  note r = io_receive_fields [OF receive(2) f]
  have "split_on newline_char (inp @ data) = taken @ pending_commands st @
      ((partial_input st @ hd (split_on newline_char data)) # tl (split_on newline_char data))"
    unfolding split_on_append inv by (simp only: butlast_append butlast.simps last_snoc append_assoc) simp
  with r f show ?case by (simp add: io_inv_def)
qed (auto simp: io_inv_def io_take_def io_finish_def)

section \<open>Traditional commands\<close>

definition key_char :: "char \<Rightarrow> bool" where
  "key_char c \<longleftrightarrow> is_upper c \<or> c = CHR ''_'' \<or> c = CHR ''*'' \<or> c = CHR ''/''"

lemma args_r_key:
  assumes "is_upper k" "w = [] \<or> \<not> key_char (hd w)"
  shows "rx_match args_r (k # w) = Some (w, [])"
proof -
  have "\<exists>ms. rx args_r (k # w) [] = (w, []) # ms"
  proof (cases w)
    case Nil
    with assms(1) show ?thesis by (simp add: args_r_def Plus_def)
  next
    case (Cons x xs)
    with assms show ?thesis by (simp add: args_r_def Plus_def key_char_def)
  qed
  then show ?thesis by (auto simp: rx_match_def)
qed

lemma args_r_other: "\<not> key_char c \<Longrightarrow> rx_match args_r (c # w) = None"
  by (simp add: rx_match_def args_r_def Plus_def key_char_def)

lemma rx_split_text:
  "list_all (\<lambda>c. \<not> key_char c) u \<Longrightarrow> rx_split_aux args_r acc (u @ t) = rx_split_aux args_r (acc @ u) t"
  by (induction u arbitrary: acc) (simp_all add: args_r_other)

definition value_text :: "string \<Rightarrow> bool" where
  "value_text v \<longleftrightarrow> v \<noteq> [] \<and> list_all (\<lambda>c. is_digit c \<or> c \<in> set ''.+-'') v"

lemma value_text_chars:
  assumes "value_text v" "c \<in> set v"
  shows "\<not> key_char c" "\<not> is_space c" "\<not> is_lower c" "c \<noteq> CHR '';''"
  using assms by (auto simp: value_text_def list_all_iff key_char_def is_digit_def is_upper_def is_lower_def is_space_def)

definition params_text :: "(char \<times> string) list \<Rightarrow> string" where
  "params_text kvs = join '' '' (map (\<lambda>(k, v). k # v) kvs)"

fun spaced :: "(char \<times> string) list \<Rightarrow> string list" where
  "spaced [] = []"
| "spaced [(k, v)] = [[k], v]"
| "spaced ((k, v) # p # kvs) = [k] # (v @ '' '') # spaced (p # kvs)"

lemma rx_split_params:
  "kvs \<noteq> [] \<Longrightarrow> list_all (\<lambda>(k, v). is_upper k \<and> value_text v) kvs \<Longrightarrow>
    rx_split_aux args_r acc (params_text kvs) = acc # spaced kvs"
proof (induction kvs arbitrary: acc rule: spaced.induct)
  case (2 k v)
  have nk: "list_all (\<lambda>c. \<not> key_char c) v" using 2(2) value_text_chars(1) by (auto simp: list_all_iff)
  have "rx_match args_r (k # v) = Some (v, [])"
    using 2(2) nk by (intro args_r_key) (cases v; simp)+
  moreover have "rx_split_aux args_r [] v = [v]" using rx_split_text [OF nk, of "[]" "[]"] by simp
  ultimately show ?case by (simp add: params_text_def)
next
  case (3 k v p kvs)
  have ok: "is_upper k" "value_text v" "list_all (\<lambda>(k, v). is_upper k \<and> value_text v) (p # kvs)" using 3(3) by simp_all
  have nk: "list_all (\<lambda>c. \<not> key_char c) (v @ '' '')"
    using value_text_chars(1) [OF ok(2)] by (auto simp: list_all_iff key_char_def is_upper_def)
  have tx: "params_text ((k, v) # p # kvs) = k # (v @ '' '') @ params_text (p # kvs)"
    by (cases p) (simp add: params_text_def)
  have "rx_match args_r (k # (v @ '' '') @ params_text (p # kvs)) = Some ((v @ '' '') @ params_text (p # kvs), [])"
    using ok(1,2) nk by (intro args_r_key) (cases v; simp)+
  then have "rx_split_aux args_r acc (params_text ((k, v) # p # kvs)) =
      acc # [k] # rx_split_aux args_r [] ((v @ '' '') @ params_text (p # kvs))"
    unfolding tx by simp
  also have "rx_split_aux args_r [] ((v @ '' '') @ params_text (p # kvs)) = (v @ '' '') # spaced (p # kvs)"
    using rx_split_text [OF nk, of "[]"] 3(1) [of "v @ '' ''"] ok(3) by simp
  finally show ?case by simp
qed simp

lemma pair_up_spaced:
  "list_all (\<lambda>(k, v). is_upper k \<and> value_text v) kvs \<Longrightarrow> pair_up (spaced kvs) = map (\<lambda>(k, v). ([k], v)) kvs"
proof (induction kvs rule: spaced.induct)
  case (2 k v)
  then show ?case using value_text_chars(2) by (auto intro!: strip_id simp: value_text_def)
next
  case (3 k v p kvs)
  have "strip (v @ '' '') = v"
  proof -
    have v: "v \<noteq> []" "\<not> is_space (hd v)" "\<not> is_space (last v)"
      using 3(2) value_text_chars(2) [of v] by (auto simp: value_text_def)
    then have "lstrip (v @ '' '') = v @ '' ''" by (cases v) (simp_all add: lstrip_def)
    moreover have "dropWhile is_space (rev v) = rev v" using v by (cases v rule: rev_cases) simp_all
    ultimately show ?thesis by (simp add: strip_def rstrip_def is_space_def [of "CHR '' ''"])
  qed
  with 3 show ?case by simp
qed simp


lemma params_text_nonempty: "kvs \<noteq> [] \<Longrightarrow> params_text kvs \<noteq> []"
  by (cases kvs rule: spaced.cases) (auto simp: params_text_def)

lemma params_text_chars:
  "list_all (\<lambda>(k, v). is_upper k \<and> value_text v) kvs \<Longrightarrow> c \<in> set (params_text kvs) \<Longrightarrow> c \<noteq> CHR '';'' \<and> \<not> is_lower c"
proof (induction kvs rule: spaced.induct)
  case (2 k v)
  then show ?case using value_text_chars [of v c] by (auto simp: params_text_def is_upper_def is_lower_def)
next
  case (3 k v p kvs)
  have "params_text ((k, v) # p # kvs) = k # v @ '' '' @ params_text (p # kvs)"
    by (cases p) (simp add: params_text_def)
  with 3 value_text_chars [of v c] show ?case by (auto simp: is_upper_def is_lower_def)
qed (simp add: params_text_def)

lemma params_text_ends:
  "kvs \<noteq> [] \<Longrightarrow> list_all (\<lambda>(k, v). is_upper k \<and> value_text v) kvs \<Longrightarrow>
    \<not> is_space (hd (params_text kvs)) \<and> \<not> is_space (last (params_text kvs))"
proof (induction kvs rule: spaced.induct)
  case (2 k v)
  then show ?case using value_text_chars(2) [of v "last v"]
    by (auto simp: params_text_def value_text_def is_space_def is_upper_def)
next
  case (3 k v p kvs)
  have "params_text ((k, v) # p # kvs) = k # v @ '' '' @ params_text (p # kvs)"
    by (cases p) (simp add: params_text_def)
  with 3 params_text_nonempty [of "p # kvs"] show ?case by (auto simp: is_space_def is_upper_def)
qed simp

lemma upper_id: "(\<And>c. c \<in> set s \<Longrightarrow> \<not> is_lower c) \<Longrightarrow> upper s = s"
  by (induction s) (auto simp: upper_def upper_char_def)

lemma parse_line_params:
  assumes "kvs \<noteq> []" "list_all (\<lambda>(k, v). is_upper k \<and> value_text v) kvs" "fst (hd kvs) \<noteq> CHR ''N''"
  shows "parse_line na (params_text kvs) =
    \<lparr>gc_command = fst (hd kvs) # snd (hd kvs), gc_commandline = params_text kvs,
     gc_params = dict_of (map (\<lambda>(k, v). ([k], v)) kvs), gc_need_ack = na\<rparr>"
proof -
  obtain k v r where kvs: "kvs = (k, v) # r" using assms(1) by (cases kvs) auto
  have s: "strip (params_text kvs) = params_text kvs"
    using params_text_ends [OF assms(1,2)] by (intro strip_id) simp
  have u: "upper (params_text kvs) = params_text kvs"
    using params_text_chars [OF assms(2)] by (intro upper_id) blast
  have f: "find_char (CHR '';'') (params_text kvs) = None"
    using params_text_chars [OF assms(2)] by (auto simp: find_char_None)
  have p: "rx_split args_r (params_text kvs) = [] # spaced kvs"
    unfolding rx_split_def by (rule rx_split_params [OF assms(1,2)])
  have v: "strip v = v" "strip (v @ '' '') = v"
  proof -
    have ok: "list_all (\<lambda>(k, v). is_upper k \<and> value_text v) [(k, v)]" "list_all (\<lambda>(k, v). is_upper k \<and> value_text v) [(k, v), (k, v)]"
      using assms(2) kvs by simp_all
    from pair_up_spaced [OF ok(1)] pair_up_spaced [OF ok(2)] show "strip v = v" "strip (v @ '' '') = v" by simp_all
  qed
  have "command_of_parts ([] # spaced kvs) = k # v"
    using assms(3) v kvs by (cases r) (auto simp: command_of_parts_def Let_def)
  then have "command_of_parts ([] # spaced kvs) = fst (hd kvs) # snd (hd kvs)" by (simp add: kvs)
  then show ?thesis by (simp add: parse_line_def Let_def s u f p pair_up_spaced [OF assms(2)])
qed

section \<open>Extended parameters\<close>

text \<open>The end of the pattern does not match before the last character that is not a space.\<close>

definition tail_r :: regex where
  "tail_r = SeqL [Spaces, Opt (Seq (one_of ''#*;'') (Star (Cls (\<lambda>c. c \<noteq> newline_char)))), EndAnchor]"

lemma tail_r_none:
  assumes "t \<noteq> []" "\<not> is_space (last t)" "list_all (\<lambda>c. c \<notin> set ''#*;'') t"
  shows "rx tail_r t d = []"
proof -
  have "rx (SeqL [Opt (Seq (one_of ''#*;'') (Star (Cls (\<lambda>c. c \<noteq> newline_char)))), EndAnchor]) u e = []"
    if ue: "(u, e) \<in> set (rx Spaces t d)" for u e
  proof -
    obtain v where v: "t = v @ u" "list_all is_space v"
      using star_Cls_all [of u e is_space "length t" t d] ue by (auto simp: Spaces_def simp del: star_greedy.simps)
    have u: "u \<noteq> []"
    proof
      assume "u = []"
      with v assms(1,2) show False by (cases v rule: rev_cases) auto
    qed
    have "last u = last t" using u v by simp
    moreover have "is_space newline_char" by (simp add: is_space_def)
    ultimately have "u \<noteq> [newline_char]" using assms(2) by (metis last_ConsL)
    moreover have "hd u \<notin> set ''#*;''" using assms(3) v u by (cases u) auto
    ultimately show ?thesis using u by (cases u) (auto simp: SeqL_def one_of_def)
  qed
  then show ?thesis by (auto simp: tail_r_def SeqL_def concat_eq_Nil_conv)
qed

lemma tail_r_end: "rx tail_r [] d = [([], d)]"
  by (simp add: tail_r_def SeqL_def Spaces_def one_of_def)

lemma args_tail_first:
  assumes "s \<noteq> []" "\<not> is_space (last s)" "list_all (\<lambda>c. c \<notin> set ''#*;'') s"
  shows "rx (Seq (Grp ''args'' (LazyStar (Cls (\<lambda>c. c \<notin> set ''#*;'')))) tail_r) s c = [([], dset ''args'' s c)]"
proof -
  let ?p = "\<lambda>c. c \<notin> set ''#*;''"
  have "rx (LazyStar (Cls ?p)) s c = map (\<lambda>i. (drop i s, c)) [0..<Suc (length s)]"
    using star_lazy_Cls [OF assms(3)] by simp
  moreover have "rx tail_r (drop i s) d = []" if "i < length s" for i d
    using that assms by (intro tail_r_none) (auto simp: list_all_iff dest: in_set_dropD)
  then have "concat (map (\<lambda>i. rx tail_r (drop i s) (dset ''args'' (take (length s - length (drop i s)) s) c)) [0..<length s]) = []"
    by simp
  ultimately show ?thesis
    by (simp add: comp_def tail_r_end del: rx.simps(7))
qed

definition plain_char :: "char \<Rightarrow> bool" where
  "plain_char c \<longleftrightarrow> \<not> is_space c \<and> \<not> shlex_quote c \<and> c \<noteq> CHR 0x5C \<and> c \<notin> set ''#*;''"

definition name_char :: "char \<Rightarrow> bool" where
  "name_char c \<longleftrightarrow> is_upper c \<or> is_lower c \<or> is_digit c \<or> c = CHR ''_''"

lemma name_char_not_space: "name_char c \<Longrightarrow> \<not> is_space c"
  by (auto simp: name_char_def is_upper_def is_lower_def is_digit_def is_space_def)

definition extended_name :: "string \<Rightarrow> bool" where
  "extended_name w \<longleftrightarrow> length w \<ge> 2 \<and> list_all name_char w \<and> \<not> is_digit (hd w) \<and> hd w \<noteq> CHR ''N''"

lemma extended_r_groups:
  assumes cmd: "extended_name cmd" and args: "args \<noteq> []" "\<not> is_space (hd args)" "\<not> is_space (last args)"
    "list_all (\<lambda>c. c \<notin> set ''#*;'') args"
  shows "rx_groups extended_r (cmd @ '' '' @ args) = Some [(''cmd'', cmd), (''args'', args)]"
proof -
  let ?name = "\<lambda>c. is_upper c \<or> is_lower c \<or> is_digit c \<or> c = CHR ''_''"
  obtain x y r where xy: "cmd = x # y # r" using cmd by (cases cmd; cases "tl cmd") (auto simp: extended_name_def)
  let ?s = "cmd @ '' '' @ args"
  have x: "is_upper x \<or> is_lower x \<or> x = CHR ''_''" "\<not> is_space x" "x \<noteq> CHR ''N''"
    using cmd name_char_not_space [of x] by (auto simp: extended_name_def xy name_char_def)
  have names: "list_all ?name (y # r)" using cmd by (simp add: extended_name_def xy name_char_def list_all_iff)
  have sp: "\<not> ?name (CHR '' '')" by (simp add: is_upper_def is_lower_def is_digit_def)
  have dw: "dropWhile ?name (r @ '' '' @ args) = '' '' @ args"
    using names sp by (subst dropWhile_append2) (auto simp: list_all_iff)
  have a1: "rx Spaces ?s [] = [(?s, [])]" using x(2) by (simp add: Spaces_def xy)
  have a2: "rx (Opt (SeqL [one_of ''N'', Plus Digit, Spaces])) ?s [] = [(?s, [])]"
    using x(3) by (simp add: SeqL_def one_of_def xy)
  obtain ms where ms: "rx (Grp ''cmd'' (Seq (Cls (\<lambda>c. is_upper c \<or> is_lower c \<or> c = CHR ''_'')) (Plus (Cls ?name)))) ?s [] =
      ('' '' @ args, [(''cmd'', cmd)]) # ms"
  proof -
    obtain ks where "star_greedy (rx (Cls ?name)) (length (r @ '' '' @ args)) (r @ '' '' @ args) [] = ('' '' @ args, []) # ks"
      using star_Cls_first [of "r @ '' '' @ args" "length (r @ '' '' @ args)" ?name "[]"] unfolding dw by auto
    then show thesis using that x(1) names by (simp add: Plus_def xy)
  qed
  obtain ms2 where ms2: "rx (Alt (Plus (Cls is_space)) EndAnchor) ('' '' @ args) [(''cmd'', cmd)] = (args, [(''cmd'', cmd)]) # ms2"
  proof -
    have "dropWhile is_space args = args" using args(1,2) by (cases args) simp_all
    then obtain ks where "star_greedy (rx (Cls is_space)) (length args) args [(''cmd'', cmd)] = (args, [(''cmd'', cmd)]) # ks"
      using star_Cls_first [of args "length args" is_space "[(''cmd'', cmd)]"] by auto
    then show thesis using that by (simp add: Plus_def is_space_def [of "CHR '' ''"])
  qed
  have a5: "rx (Seq (Grp ''args'' (LazyStar (Cls (\<lambda>c. c \<notin> set ''#*;'')))) tail_r) args [(''cmd'', cmd)] =
      [([], [(''cmd'', cmd), (''args'', args)])]"
    using args_tail_first [OF args(1,3,4), of "[(''cmd'', cmd)]"] by simp
  have ext: "extended_r = Seq Spaces (Seq (Opt (SeqL [one_of ''N'', Plus Digit, Spaces]))
      (Seq (Grp ''cmd'' (Seq (Cls (\<lambda>c. is_upper c \<or> is_lower c \<or> c = CHR ''_'')) (Plus (Cls ?name))))
      (Seq (Alt (Plus (Cls is_space)) EndAnchor) (Seq (Grp ''args'' (LazyStar (Cls (\<lambda>c. c \<notin> set ''#*;'')))) tail_r))))"
    by (simp add: extended_r_def tail_r_def SeqL_def)
  obtain ks where "rx extended_r ?s [] = ([], [(''cmd'', cmd), (''args'', args)]) # ks"
    using rx_Seq_first [OF a1] rx_Seq_first [OF a2] rx_Seq_first [OF ms] rx_Seq_first [OF ms2 a5]
    unfolding ext by meson
  then show ?thesis by (simp add: rx_groups_def rx_match_def)
qed

section \<open>Words and their values\<close>

lemma plain_char_shlex:
  assumes "plain_char c"
  shows "\<not> shlex_space c" "\<not> shlex_quote c" "c \<noteq> CHR 0x5C"
proof -
  have "shlex_space c \<Longrightarrow> is_space c" by (auto simp: shlex_space_def is_space_def)
  with assms show "\<not> shlex_space c" "\<not> shlex_quote c" "c \<noteq> CHR 0x5C" by (auto simp: plain_char_def)
qed

lemma shlex_word:
  "list_all plain_char w \<Longrightarrow> shlex_loop InWord tok q out (w @ s) = shlex_loop InWord (tok @ w) q out s"
  by (induction w arbitrary: tok) (simp_all add: plain_char_shlex)

lemma shlex_words:
  "list_all (\<lambda>w. w \<noteq> [] \<and> list_all plain_char w) ws \<Longrightarrow>
    shlex_loop Between [] False out (join '' '' ws) = Inr (out @ ws)"
proof (induction ws arbitrary: out)
  case (Cons w ws)
  obtain x xs where w: "w = x # xs" "plain_char x" "list_all plain_char xs" using Cons.prems by (cases w) auto
  have b: "shlex_loop Between [] False out (w @ s) = shlex_loop InWord w False out s" for s
    using w shlex_word [OF w(3), of "[x]" False out s] by (simp add: plain_char_shlex)
  show ?case
  proof (cases ws)
    case Nil
    then show ?thesis using b [of "[]"] w(1) by (simp add: shlex_emit_def)
  next
    case (Cons v vs)
    then have "join '' '' (w # ws) = w @ CHR '' '' # join '' '' ws" by simp
    then show ?thesis using b [of "CHR '' '' # join '' '' ws"] Cons.IH [of "out @ [w]"] Cons.prems w(1)
      by (simp add: shlex_emit_def shlex_space_def del: join.simps)
  qed
qed simp

definition arg_word :: "string \<times> string \<Rightarrow> string" where
  "arg_word = (\<lambda>(k, v). k @ CHR ''='' # v)"

definition arg_ok :: "string \<times> string \<Rightarrow> bool" where
  "arg_ok = (\<lambda>(k, v). CHR ''='' \<notin> set k \<and> list_all plain_char k \<and> list_all plain_char v)"

definition args_text :: "(string \<times> string) list \<Rightarrow> string" where
  "args_text kvs = join '' '' (map arg_word kvs)"

lemma arg_word_plain: "arg_ok kv \<Longrightarrow> arg_word kv \<noteq> [] \<and> list_all plain_char (arg_word kv)"
  by (cases kv) (auto simp: arg_word_def arg_ok_def plain_char_def is_space_def shlex_quote_def)

lemma extended_args_text:
  assumes "list_all arg_ok kvs"
  shows "extended_args (args_text kvs) = Inr (dict_of (map (\<lambda>(k, v). (upper k, v)) kvs))"
proof -
  have "shlex_split (args_text kvs) = Inr (map arg_word kvs)"
  proof -
    have "list_all (\<lambda>w. w \<noteq> [] \<and> list_all plain_char w) (map arg_word kvs)"
      using assms by (induction kvs) (simp_all add: arg_word_plain)
    from shlex_words [OF this, of "[]"] show ?thesis by (simp add: shlex_split_def args_text_def)
  qed
  moreover have "rmap (\<lambda>w. case split_once (CHR ''='') w of [k, v] \<Rightarrow> Inr (upper k, v) | _ \<Rightarrow> Inl ValueError)
      (map arg_word kvs) = Inr (map (\<lambda>(k, v). (upper k, v)) kvs)"
    using assms by (induction kvs) (auto simp: arg_ok_def arg_word_def split_once_sep)
  ultimately show ?thesis by (simp add: extended_args_def)
qed

lemma args_text_shape:
  assumes "kvs \<noteq> []" "list_all arg_ok kvs"
  shows "args_text kvs \<noteq> []" "\<not> is_space (hd (args_text kvs))" "\<not> is_space (last (args_text kvs))"
    "list_all (\<lambda>c. c \<notin> set ''#*;'') (args_text kvs)"
proof -
  have "args_text kvs \<noteq> [] \<and> \<not> is_space (hd (args_text kvs)) \<and> \<not> is_space (last (args_text kvs)) \<and>
      list_all (\<lambda>c. c \<notin> set ''#*;'') (args_text kvs)"
    using assms
  proof (induction kvs)
    case (Cons kv kvs)
    have w: "arg_word kv \<noteq> []" "list_all plain_char (arg_word kv)" using Cons.prems arg_word_plain by simp_all
    from w have "plain_char (hd (arg_word kv))" "plain_char (last (arg_word kv))" by (simp_all add: list_all_iff)
    then have h: "\<not> is_space (hd (arg_word kv))" "\<not> is_space (last (arg_word kv))" unfolding plain_char_def by blast+
    have h2: "list_all (\<lambda>c. c \<notin> set ''#*;'') (arg_word kv)"
      using w(2) by (rule list.pred_mono_strong) (simp add: plain_char_def)
    show ?case
    proof (cases kvs)
      case Nil
      with w h h2 show ?thesis by (simp add: args_text_def)
    next
      case (Cons y ys)
      then have "args_text (kv # kvs) = arg_word kv @ CHR '' '' # args_text kvs" by (simp add: args_text_def)
      with w h h2 Cons.IH Cons.prems Cons show ?thesis by simp
    qed
  qed simp
  then show "args_text kvs \<noteq> []" "\<not> is_space (hd (args_text kvs))" "\<not> is_space (last (args_text kvs))"
    "list_all (\<lambda>c. c \<notin> set ''#*;'') (args_text kvs)" by simp_all
qed

section \<open>Properties\<close>

lemma io_steps_inv: "io_step\<^sup>*\<^sup>* a b \<Longrightarrow> io_inv a \<Longrightarrow> io_inv b"
  by (induction rule: rtranclp_induct) (auto intro: io_step_inv)

text \<open>C34: the lines the dispatcher takes are the lines of the input, complete and in order, whatever
  chunks it arrives in and however its arrival interleaves with the execution of commands: those
  taken, those pending and the partial line are the input split at its newlines.\<close>
theorem lines_arrive_whole:
  assumes "io_step\<^sup>*\<^sup>* (new_gcode_io False, [], []) (st, taken, inp)"
  shows "taken @ pending_commands st @ [partial_input st] = split_on newline_char inp"
proof -
  have "io_inv (new_gcode_io False, [], [])" by (simp add: io_inv_def new_gcode_io_def split_on_def)
  from io_steps_inv [OF assms this] show ?thesis by (simp add: io_inv_def)
qed


theorem lines_arrive_whole_witness:
  "\<exists>st. io_step\<^sup>*\<^sup>* (new_gcode_io False, [], []) (st, [], ''G28'' @ [newline_char] @ ''M1'') \<and>
    pending_commands st @ [partial_input st] = split_on newline_char (''G28'' @ [newline_char] @ ''M1'')"
proof -
  obtain st acts go where r: "io_receive 0 (''G28'' @ [newline_char] @ ''M1'') (new_gcode_io False) = (st, acts, go)"
    by (cases "io_receive 0 (''G28'' @ [newline_char] @ ''M1'') (new_gcode_io False)")
  have "io_step (new_gcode_io False, [], []) (st, [], [] @ ''G28'' @ [newline_char] @ ''M1'')"
    by (rule io_step.receive [OF _ r]) (simp add: new_gcode_io_def)
  then have "io_step\<^sup>*\<^sup>* (new_gcode_io False, [], []) (st, [], ''G28'' @ [newline_char] @ ''M1'')" by simp
  with lines_arrive_whole [OF this] show ?thesis by (intro exI [of _ st]) simp
qed

text \<open>a line of traditional parameters, a letter and a number each, is the command of the first
  and the dictionary of all of them.\<close>
theorem traditional_command:
  assumes "kvs \<noteq> []" "list_all (\<lambda>(k, v). is_upper k \<and> value_text v) kvs" "fst (hd kvs) \<noteq> CHR ''N''"
  shows "parse_line na (params_text kvs) =
    \<lparr>gc_command = fst (hd kvs) # snd (hd kvs), gc_commandline = params_text kvs,
     gc_params = dict_of (map (\<lambda>(k, v). ([k], v)) kvs), gc_need_ack = na\<rparr>"
  by (rule parse_line_params [OF assms])

theorem traditional_command_witness:
  "parse_line True ''G1 X10 Y-2.5'' = \<lparr>gc_command = ''G1'', gc_commandline = ''G1 X10 Y-2.5'',
     gc_params = [(''G'', ''1''), (''X'', ''10''), (''Y'', ''-2.5'')], gc_need_ack = True\<rparr>"
proof -
  let ?kvs = "[(CHR ''G'', ''1''), (CHR ''X'', ''10''), (CHR ''Y'', ''-2.5'')]"
  have "list_all (\<lambda>(k, v). is_upper k \<and> value_text v) ?kvs"
    by (simp add: is_upper_def value_text_def is_digit_def)
  from traditional_command [of ?kvs True, OF _ this] show ?thesis
    by (simp add: params_text_def dict_of_distinct)
qed

text \<open>the parameters of an extended command are the words of its line after the command, each
  name in upper case with its value, the last one where a name is given twice.\<close>
theorem extended_command:
  assumes "extended_name cmd" "kvs \<noteq> []" "list_all arg_ok kvs"
    and "gc_commandline g = cmd @ '' '' @ args_text kvs"
  shows "get_extended_params g = Inr (g\<lparr>gc_params := dict_of (map (\<lambda>(k, v). (upper k, v)) kvs)\<rparr>)"
  using extended_r_groups [OF assms(1) args_text_shape [OF assms(2,3)]] extended_args_text [OF assms(3)]
  by (simp add: get_extended_params_def assms(4))

theorem extended_command_witness:
  "get_extended_params (parse_line True ''SET_PIN pin=fan VALUE=.5'') =
    Inr ((parse_line True ''SET_PIN pin=fan VALUE=.5'')\<lparr>gc_params := [(''PIN'', ''fan''), (''VALUE'', ''.5'')]\<rparr>)"
proof -
  let ?kvs = "[(''pin'', ''fan''), (''VALUE'', ''.5'')]"
  have "extended_name ''SET_PIN''" by (simp add: extended_name_def name_char_def is_upper_def is_digit_def)
  moreover have "list_all arg_ok ?kvs" by (simp add: arg_ok_def plain_char_def is_space_def shlex_quote_def)
  moreover have "gc_commandline (parse_line True ''SET_PIN pin=fan VALUE=.5'') = ''SET_PIN'' @ '' '' @ args_text ?kvs"
    by (simp add: parse_line_def Let_def strip_id is_space_def args_text_def arg_word_def)
  moreover have "dict_of (map (\<lambda>(k, v). (upper k, v)) ?kvs) = [(''PIN'', ''fan''), (''VALUE'', ''.5'')]"
    by code_simp
  ultimately show ?thesis using extended_command [of "''SET_PIN''" ?kvs] by simp
qed

section \<open>What runs when the printer is not ready\<close>

text \<open>
  The states of the dispatcher, with the handlers \<open>A\<close> that other components asked to have run also
  when the printer is not ready. The events come in any order: registrations, the changes of the
  printer's state by \<open>_connect\<close>, its ready callback (which \<open>_connect\<close> runs in the ready state only),
  shutdowns, restarts, responses, and whatever the handlers do to other components.
\<close>

inductive gc_reach :: "'h set \<Rightarrow> ('h, 'w) gcode \<Rightarrow> bool" where
  start: "new_gcode (initial_core dbg) sw load_switch w = Inr s \<Longrightarrow> gc_reach {load_switch} s"
| register: "gc_reach A s \<Longrightarrow> register_command cmd (Some f) False desc s = Inr (old, s') \<Longrightarrow> gc_reach A s'"
| register_base: "gc_reach A s \<Longrightarrow> register_command cmd (Some (Ext h)) True desc s = Inr (old, s') \<Longrightarrow> gc_reach (insert h A) s'"
| unregister: "gc_reach A s \<Longrightarrow> register_command cmd None wnr desc s = Inr (old, s') \<Longrightarrow> gc_reach A s'"
| register_mux: "gc_reach A s \<Longrightarrow> register_mux_command shw cmd key val h desc s = Inr s' \<Longrightarrow> gc_reach A s'"
| connected: "gc_reach A s \<Longrightarrow> gc_reach A (s\<lparr>gc_core := set_state message_ready (gc_core s)\<rparr>)"
| connect_failed: "gc_reach A s \<Longrightarrow> pr_message (gc_core s) \<noteq> message_ready \<Longrightarrow> gc_reach A (s\<lparr>gc_core := set_state msg (gc_core s)\<rparr>)"
| ready: "gc_reach A s \<Longrightarrow> pr_message (gc_core s) = message_ready \<Longrightarrow> gc_reach A (handle_ready s)"
| shutdown: "gc_reach A s \<Longrightarrow> gc_reach A (gc_invoke_shutdown msg s)"
| disconnect: "gc_reach A s \<Longrightarrow> gc_reach A (handle_disconnect s)"
| restart: "gc_reach A s \<Longrightarrow> gc_reach A (request_restart result s)"
| respond: "gc_reach A s \<Longrightarrow> gc_reach A (respond_raw msg s)"
| exits: "gc_reach A s \<Longrightarrow> gc_reach A (s\<lparr>gc_core := request_exit result (gc_core s)\<rparr>)"
| event: "gc_reach A s \<Longrightarrow> gc_reach A (s\<lparr>gc_events := gc_events s @ [ev]\<rparr>)"
| others: "gc_reach A s \<Longrightarrow> gc_reach A (s\<lparr>world := w\<rparr>)"

subsection \<open>Lines keep to these states\<close>

lemma reach_respond_info: "gc_reach A s \<Longrightarrow> gc_reach A (respond_info msg s)"
  by (simp add: respond_info_def Let_def gc_reach.respond)

lemma reach_respond_error: "gc_reach A s \<Longrightarrow> gc_reach A (respond_error msg s)"
  by (simp add: respond_error_def Let_def gc_reach.respond gc_reach.exits reach_respond_info)

lemma reach_do_ack: "gc_reach A s \<Longrightarrow> gc_reach A (snd (snd (do_ack msg g s)))"
  by (auto simp: do_ack_def gc_reach.respond split: prod.splits option.splits)

lemma reach_report_exception: "gc_reach A s \<Longrightarrow> gc_reach A (report_exception cmd e s)"
  by (auto simp: report_exception_def Let_def reach_respond_error gc_reach.event gc_reach.shutdown split: exc.splits)

lemma reach_M115: "gc_reach A s \<Longrightarrow> gc_reach A (snd (cmd_M115 g s))"
  by (simp add: cmd_M115_def do_ack_def gc_ack_def Let_def reach_respond_info gc_reach.respond)

lemma reach_STATUS: "gc_reach A s \<Longrightarrow> gc_reach A (snd (cmd_STATUS s))"
  by (simp add: cmd_STATUS_def respond_state_def reach_respond_info)

lemma reach_builtin: "gc_reach A s \<Longrightarrow> gc_reach A (snd (snd (builtin name g s)))"
  by (simp add: builtin_def gc_reach.shutdown gc_reach.restart reach_respond_info cmd_HELP_def case_prod_unfold
      reach_M115 reach_STATUS)

definition grows_to :: "'h set \<Rightarrow> ('h, 'w) gcode \<Rightarrow> bool" where
  "grows_to A s \<longleftrightarrow> (\<exists>A'. A \<subseteq> A' \<and> gc_reach A' s)"

lemma grows_to_refl: "gc_reach A s \<Longrightarrow> grows_to A s"
  by (auto simp: grows_to_def)

definition keeps_reach :: "('h, 'w) runner \<Rightarrow> bool" where
  "keeps_reach run \<longleftrightarrow> (\<forall>h g A s. gc_reach A s \<longrightarrow> grows_to A (snd (snd (run h g s))))"

lemma reach_run_func:
  assumes "keeps_reach run" "gc_reach A s"
  shows "grows_to A (snd (snd (run_func run f g s)))"
proof -
  have "grows_to A (snd (snd (run h g s)))" for h g using assms by (simp add: keeps_reach_def)
  then show ?thesis
    by (simp add: run_func_def cmd_mux_def grows_to_refl reach_builtin assms(2) split: func.split option.split prod.split sum.split)
qed

lemma reach_run_handler:
  assumes "keeps_reach run" "gc_reach A s"
  shows "grows_to A (snd (snd (run_handler run h g s)))"
  using reach_run_func [OF assms] assms(2) by (simp add: run_handler_def grows_to_refl split: sum.split)

lemma reach_run_command:
  assumes "keeps_reach run" "gc_reach A s"
  shows "grows_to A (snd (snd (run_command run g s)))"
proof (cases "dget (gcode_handlers s) (gc_command g)")
  case None
  have u: "gc_reach A (snd (snd (unknown_command g s)))" using assms(2) by (simp add: unknown_command_def reach_respond_info)
  have h: "grows_to A (snd (snd (case dget (gcode_handlers s) (take 4 (gc_command g)) of
      Some h \<Rightarrow> run_handler run h g s | None \<Rightarrow> unknown_command g s)))"
    using u reach_run_handler [OF assms] by (simp add: grows_to_refl split: option.split)
  have f: "grows_to A (snd (snd (case x of Inl e \<Rightarrow> (Inl e, g, s) | Inr z \<Rightarrow>
      if z \<or> b then (Inr (), g, s) else unknown_command g s)))" for x :: "bool res" and b
    using u assms(2) by (cases x) (simp_all add: grows_to_refl)
  have f': "grows_to A (snd (snd (case x of Inl e \<Rightarrow> (Inl e, g, s) | Inr z \<Rightarrow>
      if z then (Inr (), g, s) else unknown_command g s)))" for x :: "bool res"
    using u assms(2) by (cases x) (simp_all add: grows_to_refl)
  from h f' [of "float_is_zero ''S'' True g"] f [of "gc_is_fileinput s" "float_is_zero ''S'' False g"]
  show ?thesis using u assms(2) reach_do_ack [OF assms(2), of "Some ''T:0''" g]
    by (simp add: run_command_def None cmd_default_def Let_def case_prod_unfold grows_to_refl)
qed (simp add: run_command_def reach_run_handler [OF assms])

lemma reach_process_line:
  assumes "keeps_reach run" "gc_reach A s"
  shows "grows_to A (snd (process_line run need_ack line s))"
proof -
  obtain r g' s' where c: "run_command run (parse_line need_ack line) s = (r, g', s')" by (metis prod_cases3)
  then obtain A' where A': "A \<subseteq> A'" "gc_reach A' s'" using reach_run_command [OF assms, of "parse_line need_ack line"] by (auto simp: grows_to_def)
  have "gc_reach A' (snd (process_line run need_ack line s))"
    using A'(2) by (cases r) (simp_all add: process_line_def c Let_def case_prod_unfold reach_do_ack reach_report_exception)
  with A'(1) show ?thesis by (auto simp: grows_to_def)
qed

subsection \<open>What holds in them\<close>

definition gc_inv :: "'h set \<Rightarrow> ('h, 'w) gcode \<Rightarrow> bool" where
  "gc_inv A s \<longleftrightarrow> (ready_selected s \<longleftrightarrow> is_printer_ready s) \<and>
     (is_printer_ready s \<longrightarrow> pr_message (gc_core s) = message_ready) \<and>
     (\<forall>(c, b, f) \<in> set (base_gcode_handlers s). (\<exists>h \<in> A. f = Ext h) \<or> (\<exists>n. f = Builtin n))"

lemma register_command_inv:
  assumes "gc_inv A s" "register_command cmd (Some f) wnr desc s = Inr (old, s')" "wnr \<longrightarrow> (\<exists>n. f = Builtin n) \<or> (\<exists>h \<in> A. f = Ext h)"
  shows "gc_inv A s'"
  using assms set_dset_subset [of cmd "(\<not> is_traditional_gcode cmd, f)" "base_gcode_handlers s"]
  by (auto simp: gc_inv_def register_command_def Let_def split: if_splits option.splits) blast+

lemma register_mux_inv:
  assumes "gc_inv A s" "register_mux_command shw cmd key val h desc s = Inr s'"
  shows "gc_inv A s'"
proof -
  have *: "gc_inv A (s1\<lparr>mux_commands := m\<rparr>) \<longleftrightarrow> gc_inv A s1" for s1 :: "('a, 'b) gcode" and m by (simp add: gc_inv_def)
  show ?thesis using assms register_command_inv [OF assms(1), of cmd "MuxFunc cmd" False]
    by (auto simp: register_mux_command_def rbind_eq_Inr * Let_def split: option.splits if_splits)
qed

lemma new_gcode_inv:
  assumes "new_gcode (initial_core dbg) sw ls w = Inr s"
  shows "gc_inv {ls} s"
proof -
  let ?s = "\<lparr>is_printer_ready = False, gc_is_fileinput = debuginput (initial_core dbg), ready_selected = False,
    base_gcode_handlers = [], ready_gcode_handlers = [], mux_commands = [], gcode_help = [], gc_output = [],
    gc_events = [], gc_core = initial_core dbg, software_version = sw, world = w\<rparr>"
  have "gc_inv {ls} s'" if "rfold (\<lambda>s (cmd, desc). rbind (register_command cmd
       (Some (if cmd = ''LOAD_FUNCTION_SWITCH'' then Ext ls else Builtin cmd)) True desc s) (\<lambda>(_, s'). Inr s')) t cs = Inr s'"
    "gc_inv {ls} t" for t s' cs
    using that
  proof (induction cs arbitrary: t)
    case (Cons c cs)
    obtain cmd desc where c: "c = (cmd, desc)" by (cases c)
    obtain old t' where t': "register_command cmd (Some (if cmd = ''LOAD_FUNCTION_SWITCH'' then Ext ls else Builtin cmd)) True desc t =
        Inr (old, t')" using Cons.prems(1) by (auto simp: c rbind_eq_Inr)
    have "gc_inv {ls} t'" using Cons.prems(2) t' by (rule register_command_inv) simp
    with Cons.IH [of t'] Cons.prems(1) t' show ?case by (simp add: c)
  qed simp
  from this [OF assms [unfolded new_gcode_def]] show ?thesis by (simp add: gc_inv_def)
qed

lemma gc_inv_shutdown: "gc_inv A s \<Longrightarrow> gc_inv A (gc_invoke_shutdown msg s)"
  by (auto simp: gc_inv_def gc_invoke_shutdown_def request_restart_def handle_shutdown_def respond_state_def
      respond_info_def respond_raw_def Let_def split: option.splits)

lemma gc_reach_inv: "gc_reach A s \<Longrightarrow> gc_inv A s"
proof (induction rule: gc_reach.induct)
  case (start dbg sw ls w s)
  then show ?case by (rule new_gcode_inv)
next
  case (register A s cmd f desc old s')
  then show ?case by (blast intro: register_command_inv)
next
  case (register_base A s cmd h desc old s')
  have "gc_inv (insert h A) s" using register_base.IH by (auto simp: gc_inv_def)
  then show ?case using register_base.hyps(2) by (rule register_command_inv) simp
next
  case (unregister A s cmd wnr desc old s')
  then show ?case using set_ddel_subset [of cmd "base_gcode_handlers s"] by (auto simp: gc_inv_def register_command_def)
next
  case (shutdown A s msg)
  then show ?case by (simp add: gc_inv_shutdown)
next
  case (register_mux A s shw cmd key val h desc s')
  then show ?case by (simp add: register_mux_inv)
qed (auto simp: gc_inv_def handle_ready_def handle_disconnect_def request_restart_def respond_state_def
    respond_info_def respond_raw_def Let_def)

lemma run_command_base:
  assumes inv: "gc_inv A s" "\<not> is_printer_ready s" and agree: "\<forall>h \<in> A. run h = run' h"
  shows "run_command run g s = run_command run' g s"
proof (cases "dget (gcode_handlers s) (gc_command g)")
  case None
  then show ?thesis using inv(2) by (simp add: run_command_def cmd_default_def Let_def)
next
  case (Some h)
  then have "(gc_command g, fst h, snd h) \<in> set (base_gcode_handlers s)"
    using inv by (auto simp: gc_inv_def gcode_handlers_def dest: map_of_SomeD)
  then have "(\<exists>x \<in> A. snd h = Ext x) \<or> (\<exists>n. snd h = Builtin n)" using inv(1) unfolding gc_inv_def by blast
  with agree have "run_func run (snd h) g' s' = run_func run' (snd h) g' s'" for g' s'
    by (auto simp: run_func_def)
  then show ?thesis by (simp add: run_command_def Some run_handler_def split: sum.splits)
qed

text \<open>C36: whenever the printer does not report that it is ready, at start-up, after a failure to
  connect and after a shutdown, what a line does depends only on the handlers \<open>A\<close> that were registered
  for that state: no other handler runs. A command without such a handler (except \<open>M105\<close> and \<open>M21\<close>) is
  answered with the message of the printer's state and changes nothing.\<close>
theorem not_ready_runs_base_handlers_only:
  assumes "gc_reach A s" "pr_message (gc_core s) \<noteq> message_ready" "\<forall>h \<in> A. run h = run' h"
  shows "process_line run need_ack line s = process_line run' need_ack line s \<and>
    (\<not> din (gc_command g) (base_gcode_handlers s) \<and> gc_command g \<notin> {''M105'', ''M21''} \<longrightarrow>
      run_command run g s = (Inl (AppError (pr_message (gc_core s))), g, s))"
proof -
  have inv: "gc_inv A s" using assms(1) by (rule gc_reach_inv)
  then have nr: "\<not> is_printer_ready s" "\<not> ready_selected s" using assms(2) by (auto simp: gc_inv_def)
  have "process_line run need_ack line s = process_line run' need_ack line s"
    by (simp add: process_line_def run_command_base [OF inv nr(1) assms(3)])
  then show ?thesis using nr
    by (auto simp: run_command_def gcode_handlers_def cmd_default_def din_def Let_def split: option.splits)
qed

lemma new_gcode_eq:
  "new_gcode pc sw load_switch w = Inr
     \<lparr>is_printer_ready = False, gc_is_fileinput = debuginput pc, ready_selected = False,
      base_gcode_handlers = map (\<lambda>(c, d). (c, \<not> is_traditional_gcode c,
        if c = ''LOAD_FUNCTION_SWITCH'' then Ext load_switch else Builtin c)) early_commands,
      ready_gcode_handlers = map (\<lambda>(c, d). (c, \<not> is_traditional_gcode c,
        if c = ''LOAD_FUNCTION_SWITCH'' then Ext load_switch else Builtin c)) early_commands,
      mux_commands = [],
      gcode_help = [(''RESTART'', ''Reload config file and restart host software''),
        (''FIRMWARE_RESTART'', ''Restart firmware, host, and reload config''), (''STATUS'', ''Report the printer status''),
        (''HELP'', ''Report the list of available extended G-Code commands'')],
      gc_output = [], gc_events = [], gc_core = pc, software_version = sw, world = w\<rparr>"
  by (simp add: new_gcode_def early_commands_def register_command_def din_def Let_def)

text \<open>\<open>G28\<close> is registered, the printer connects and is shut down.\<close>

definition shutdown_example :: "(nat, unit) gcode res" where
  "shutdown_example =
     rbind (new_gcode (initial_core False) ''v1'' 0 ()) (\<lambda>s.
     rbind (register_command ''G28'' (Some (Ext 1)) False None s) (\<lambda>(_, s1).
     Inr (gc_invoke_shutdown ''MCU timeout'' (handle_ready (s1\<lparr>gc_core := set_state message_ready (gc_core s1)\<rparr>)))))"

theorem not_ready_runs_base_handlers_only_witness:
  "\<exists>s. shutdown_example = Inr s \<and> snd (get_state_message (gc_core s)) = ''shutdown'' \<and>
    process_line (\<lambda>h g s. (if h = 1 then Inl KeyError else Inr (), g, s)) True ''G28'' s =
    process_line (\<lambda>h g s. (Inr (), g, s)) True ''G28'' s \<and>
    run_command (\<lambda>h g s. (if h = 1 then Inl KeyError else Inr (), g, s)) (parse_line True ''G28'') s =
      (Inl (AppError (''MCU timeout'' @ message_shutdown)), parse_line True ''G28'', s)"
proof -
  obtain s0 :: "(nat, unit) gcode" where s0: "new_gcode (initial_core False) ''v1'' 0 () = Inr s0"
    "map fst (base_gcode_handlers s0) = map fst early_commands" "map fst (ready_gcode_handlers s0) = map fst early_commands"
    "gc_core s0 = initial_core False"
    by (simp add: new_gcode_eq early_commands_def)
  obtain old s1 where s1: "register_command ''G28'' (Some (Ext 1)) False None s0 = Inr (old, s1)"
    "gc_core s1 = initial_core False" "base_gcode_handlers s1 = base_gcode_handlers s0"
  proof -
    have "\<not> din ''G28'' (ready_gcode_handlers s0)"
      by (simp add: din_iff s0(3) early_commands_def flip: set_map)
    then show thesis using that s0(4) by (simp add: register_command_def Let_def)
  qed
  let ?s = "gc_invoke_shutdown ''MCU timeout'' (handle_ready (s1\<lparr>gc_core := set_state message_ready (gc_core s1)\<rparr>))"
  have e: "shutdown_example = Inr ?s" by (simp add: shutdown_example_def s0(1) s1(1) del: One_nat_def)
  have "gc_reach {0} s1" using gc_reach.start [OF s0(1)] s1(1) by (rule gc_reach.register)
  then have r: "gc_reach {0} ?s"
    by (intro gc_reach.shutdown gc_reach.ready gc_reach.connected) (simp_all add: s1(2) initial_core_def)
  have "\<not> contains_str ''MCU timeout'' ''ADC out of range''" by code_simp
  then have f: "get_state_message (gc_core ?s) = (''MCU timeout'' @ message_shutdown, ''shutdown'')"
    "pr_message (gc_core ?s) = ''MCU timeout'' @ message_shutdown" "base_gcode_handlers ?s = base_gcode_handlers s0"
    using shutdown_message_other [of "''MCU timeout''"]
    by (simp_all add: gc_invoke_shutdown_def begin_shutdown_def handle_ready_def request_restart_def handle_shutdown_def
        respond_state_def respond_info_def respond_raw_def Let_def s1 initial_core_def get_state_message_def)
  have g: "gc_command (parse_line True ''G28'') = ''G28''"
    using parse_line_params [of "[(CHR ''G'', ''28'')]" True] by (simp add: params_text_def is_upper_def value_text_def is_digit_def)
  have nb: "\<not> din ''G28'' (base_gcode_handlers ?s)" by (simp add: din_iff f(3) s0(2) early_commands_def flip: set_map)
  have "\<forall>h \<in> {0 :: nat}. (\<lambda>g s. (if h = 1 then Inl KeyError else Inr (), g, s)) = (\<lambda>g s. (Inr (), g, s))" by simp
  from not_ready_runs_base_handlers_only [OF r _ this, of True "''G28''" "parse_line True ''G28''"] show ?thesis
    using f e g nb shutdown_message_other [of "''MCU timeout''"] by (intro exI [of _ ?s]) simp
qed

end
