(* ===== verification/Reactor.thy ===== *)
theory Reactor
  imports PyPrelude Complex_Main
begin

text \<open>
  \<open>klippy/reactor.py\<close>: the timers, callbacks, completions and mutexes of the event loop.

  A timer is a handle into a heap of timer objects. What a callback does is the parameter \<open>call\<close>:
  it may change the whole reactor, and says whether it paused, so that another greenlet took the
  dispatch over while it waited. Greenlets are numbers. Times are rationals. Reading file descriptors
  and the statistics of the garbage collector are left to the operating system and to Python: the
  descriptors that are ready and the counters of the collector enter as arguments.
\<close>

section \<open>State\<close>

definition NOW :: rat where "NOW = 0"

definition NEVER :: rat where "NEVER = 9999999999999999"

datatype 'cb tcallback = Plain 'cb | Invoke nat 'cb nat | Switch nat

text \<open>
  \<open>Invoke t cb c\<close> is the method \<open>invoke\<close> of a \<open>ReactorCallback\<close> with timer \<open>t\<close> and completion \<open>c\<close>,
  \<open>Switch g\<close> the method \<open>switch\<close> of a greenlet.
\<close>

record 'cb timer =
  t_callback :: "'cb tcallback"
  waketime :: rat

record 'r completion =
  c_result :: "'r option"
  waiting :: "nat list"

datatype ('cb, 'r) async = AsyncCallback 'cb rat | AsyncComplete nat 'r

record ('cb, 'r, 'w) reactor =
  timers :: "nat list"
  heap :: "nat \<Rightarrow> 'cb timer"
  fresh :: nat
  next_timer :: rat
  completions :: "'r completion list"
  async_queue :: "('cb, 'r) async list"
  g_timer :: "nat \<Rightarrow> nat option"
  greenlets :: "nat list"
  check_gc :: bool
  last_gc_times :: "nat \<Rightarrow> rat"
  r_world :: 'w

section \<open>Timers\<close>

definition set_waketime :: "nat \<Rightarrow> rat \<Rightarrow> ('cb, 'r, 'w) reactor \<Rightarrow> ('cb, 'r, 'w) reactor" where
  "set_waketime t w s = s\<lparr>heap := (heap s)(t := (heap s t)\<lparr>waketime := w\<rparr>)\<rparr>"

definition wake :: "('cb, 'r, 'w) reactor \<Rightarrow> nat \<Rightarrow> rat" where
  "wake s t = waketime (heap s t)"

definition note_time :: "rat \<Rightarrow> ('cb, 'r, 'w) reactor \<Rightarrow> ('cb, 'r, 'w) reactor" where
  "note_time w s = s\<lparr>next_timer := min (next_timer s) w\<rparr>"

definition update_timer :: "nat \<Rightarrow> rat \<Rightarrow> ('cb, 'r, 'w) reactor \<Rightarrow> ('cb, 'r, 'w) reactor" where
  "update_timer t w s = note_time w (set_waketime t w s)"

definition register_timer :: "(nat \<Rightarrow> 'cb tcallback) \<Rightarrow> rat \<Rightarrow> ('cb, 'r, 'w) reactor \<Rightarrow> nat \<times> ('cb, 'r, 'w) reactor" where
  "register_timer cb w s =
     (let t = fresh s in
      (t, note_time w (s\<lparr>heap := (heap s)(t := \<lparr>t_callback = cb t, waketime = w\<rparr>), fresh := t + 1, timers := timers s @ [t]\<rparr>)))"

definition unregister_timer :: "nat \<Rightarrow> ('cb, 'r, 'w) reactor \<Rightarrow> ('cb, 'r, 'w) reactor res" where
  "unregister_timer t s =
     (let s1 = set_waketime t NEVER s in
      rbind (list_remove t (timers s1)) (\<lambda>ts. Inr (s1\<lparr>timers := ts\<rparr>)))"

section \<open>Completions and callbacks\<close>

definition new_completion :: "('cb, 'r, 'w) reactor \<Rightarrow> nat \<times> ('cb, 'r, 'w) reactor" where
  "new_completion s = (length (completions s), s\<lparr>completions := completions s @ [\<lparr>c_result = None, waiting = []\<rparr>]\<rparr>)"

definition completion_test :: "nat \<Rightarrow> ('cb, 'r, 'w) reactor \<Rightarrow> bool" where
  "completion_test c s \<longleftrightarrow> c_result (completions s ! c) \<noteq> None"

text \<open>The timer of a waiting greenlet is the one it paused on.\<close>

definition complete :: "nat \<Rightarrow> 'r \<Rightarrow> ('cb, 'r, 'w) reactor \<Rightarrow> ('cb, 'r, 'w) reactor" where
  "complete c r s =
     (let k = completions s ! c; s1 = s\<lparr>completions := (completions s)[c := k\<lparr>c_result := Some r\<rparr>]\<rparr>
      in fold (\<lambda>g u. case g_timer u g of Some t \<Rightarrow> update_timer t NOW u | None \<Rightarrow> u) (waiting k) s1)"

text \<open>
  \<open>wait\<close> of the greenlet \<open>g\<close>: what it does before it pauses, \<open>None\<close> when it returns at once, and what
  it returns when it is woken.
\<close>

definition wait_begin :: "nat \<Rightarrow> nat \<Rightarrow> ('cb, 'r, 'w) reactor \<Rightarrow> ('cb, 'r, 'w) reactor option" where
  "wait_begin c g s =
     (let k = completions s ! c in
      if c_result k = None then Some (s\<lparr>completions := (completions s)[c := k\<lparr>waiting := waiting k @ [g]\<rparr>]\<rparr>) else None)"

definition wait_end :: "nat \<Rightarrow> nat \<Rightarrow> 'r \<Rightarrow> ('cb, 'r, 'w) reactor \<Rightarrow> 'r \<times> ('cb, 'r, 'w) reactor" where
  "wait_end c g waketime_result s =
     (let k = completions s ! c in
      (case c_result k of None \<Rightarrow> waketime_result | Some r \<Rightarrow> r,
       s\<lparr>completions := (completions s)[c := k\<lparr>waiting := remove1 g (waiting k)\<rparr>]\<rparr>))"

definition register_callback :: "'cb \<Rightarrow> rat \<Rightarrow> ('cb, 'r, 'w) reactor \<Rightarrow> nat \<times> ('cb, 'r, 'w) reactor" where
  "register_callback cb w s =
     (let (c, s1) = new_completion s in (c, snd (register_timer (\<lambda>t. Invoke t cb c) w s1)))"

definition register_async_callback :: "'cb \<Rightarrow> rat \<Rightarrow> ('cb, 'r, 'w) reactor \<Rightarrow> ('cb, 'r, 'w) reactor" where
  "register_async_callback cb w s = s\<lparr>async_queue := async_queue s @ [AsyncCallback cb w]\<rparr>"

definition async_complete :: "nat \<Rightarrow> 'r \<Rightarrow> ('cb, 'r, 'w) reactor \<Rightarrow> ('cb, 'r, 'w) reactor" where
  "async_complete c r s = s\<lparr>async_queue := async_queue s @ [AsyncComplete c r]\<rparr>"

definition run_async :: "('cb, 'r) async \<Rightarrow> ('cb, 'r, 'w) reactor \<Rightarrow> ('cb, 'r, 'w) reactor" where
  "run_async a s = (case a of AsyncCallback cb w \<Rightarrow> snd (register_callback cb w s) | AsyncComplete c r \<Rightarrow> complete c r s)"

definition got_pipe_signal :: "('cb, 'r, 'w) reactor \<Rightarrow> ('cb, 'r, 'w) reactor" where
  "got_pipe_signal s = fold run_async (async_queue s) (s\<lparr>async_queue := []\<rparr>)"

section \<open>Greenlets\<close>

text \<open>\<open>pause\<close> in the greenlet \<open>g\<close> that dispatches: the next greenlet, a new one \<open>g_new\<close> when none is cached.\<close>

definition pause_dispatch :: "nat \<Rightarrow> nat \<Rightarrow> rat \<Rightarrow> ('cb, 'r, 'w) reactor \<Rightarrow> nat \<times> ('cb, 'r, 'w) reactor" where
  "pause_dispatch g g_new w s =
     (let (g_next, s1) = (if greenlets s \<noteq> [] then (last (greenlets s), s\<lparr>greenlets := butlast (greenlets s)\<rparr>) else (g_new, s));
          (t, s2) = register_timer (\<lambda>_. Switch g) w s1
      in (g_next, s2\<lparr>g_timer := (g_timer s2)(g := Some t), next_timer := NOW\<rparr>))"

definition end_greenlet :: "nat \<Rightarrow> ('cb, 'r, 'w) reactor \<Rightarrow> ('cb, 'r, 'w) reactor res" where
  "end_greenlet g s =
     (case g_timer s g of
        None \<Rightarrow> Inl AttributeError
      | Some t \<Rightarrow>
          rbind (unregister_timer t (s\<lparr>greenlets := greenlets s @ [g]\<rparr>)) (\<lambda>s1.
            Inr (s1\<lparr>g_timer := (g_timer s1)(g := None)\<rparr>)))"

section \<open>Dispatch\<close>

text \<open>
  What a callback does with the reactor at a time: the result, whether it paused, the time it
  returns. \<open>value\<close> is what the callback of a \<open>ReactorCallback\<close> returns, if it does not raise.
\<close>

type_synonym ('cb, 'r, 'w) call = "'cb \<Rightarrow> rat \<Rightarrow> ('cb, 'r, 'w) reactor \<Rightarrow> (bool \<times> rat \<times> 'r) \<times> ('cb, 'r, 'w) reactor"

text \<open>\<open>resume g\<close> is what runs when the reactor switches to the greenlet \<open>g\<close>.\<close>

type_synonym ('cb, 'r, 'w) resume = "nat \<Rightarrow> rat \<Rightarrow> ('cb, 'r, 'w) reactor \<Rightarrow> (bool \<times> rat) \<times> ('cb, 'r, 'w) reactor"

definition invoke :: "('cb, 'r, 'w) call \<Rightarrow> nat \<Rightarrow> 'cb \<Rightarrow> nat \<Rightarrow> rat \<Rightarrow> ('cb, 'r, 'w) reactor \<Rightarrow> ((bool \<times> rat) \<times> ('cb, 'r, 'w) reactor) res" where
  "invoke call t cb c eventtime s =
     rbind (unregister_timer t s) (\<lambda>s1.
       case call cb eventtime s1 of ((paused, _, r), s2) \<Rightarrow> Inr ((paused, NEVER), complete c r s2))"

definition run_timer_callback ::
  "('cb, 'r, 'w) call \<Rightarrow> ('cb, 'r, 'w) resume \<Rightarrow> 'cb tcallback \<Rightarrow> rat \<Rightarrow> ('cb, 'r, 'w) reactor \<Rightarrow>
    ((bool \<times> rat) \<times> ('cb, 'r, 'w) reactor) res" where
  "run_timer_callback call resume cb eventtime s =
     (case cb of
        Plain f \<Rightarrow> (case call f eventtime s of ((paused, w, _), s') \<Rightarrow> Inr ((paused, w), s'))
      | Invoke t f c \<Rightarrow> invoke call t f c eventtime s
      | Switch g \<Rightarrow> Inr (resume g eventtime s))"

text \<open>
  The loop of \<open>_check_timers\<close> in the greenlet \<open>g\<close>. After a callback that paused, \<open>g\<close> no longer
  dispatches: it ends, and \<open>others\<close> is what runs until it is used again.
\<close>

fun timer_loop ::
  "('cb, 'r, 'w) call \<Rightarrow> ('cb, 'r, 'w) resume \<Rightarrow> (('cb, 'r, 'w) reactor \<Rightarrow> ('cb, 'r, 'w) reactor) \<Rightarrow> nat \<Rightarrow> rat \<Rightarrow>
    nat list \<Rightarrow> ('cb, 'r, 'w) reactor \<Rightarrow> ('cb, 'r, 'w) reactor res" where
  "timer_loop call resume others g eventtime [] s = Inr s"
| "timer_loop call resume others g eventtime (t # ts) s =
     (if wake s t \<le> eventtime then
        rbind (run_timer_callback call resume (t_callback (heap s t)) eventtime (set_waketime t NEVER s)) (\<lambda>((paused, w), s1).
          let s2 = note_time w (set_waketime t w s1)
          in if paused then rbind (end_greenlet g s2) (\<lambda>s3. Inr (others s3))
             else timer_loop call resume others g eventtime ts s2)
      else timer_loop call resume others g eventtime ts (note_time (wake s t) s))"

text \<open>\<open>gi\<close> is \<open>gc.get_count()\<close>.\<close>

definition check_timers ::
  "('cb, 'r, 'w) call \<Rightarrow> ('cb, 'r, 'w) resume \<Rightarrow> (('cb, 'r, 'w) reactor \<Rightarrow> ('cb, 'r, 'w) reactor) \<Rightarrow> nat \<times> nat \<times> nat \<Rightarrow>
    nat \<Rightarrow> rat \<Rightarrow> bool \<Rightarrow> ('cb, 'r, 'w) reactor \<Rightarrow> (rat \<times> ('cb, 'r, 'w) reactor) res" where
  "check_timers call resume others gi g eventtime busy s =
     (if eventtime < next_timer s then
        (if busy then Inr (0, s)
         else if check_gc s \<and> fst gi \<ge> 700 then
           (let gc_level = (if fst (snd gi) \<ge> 10 then if snd (snd gi) \<ge> 10 then 2 else 1 else 0 :: nat)
            in Inr (0, s\<lparr>last_gc_times := (last_gc_times s)(gc_level := eventtime)\<rparr>))
         else Inr (min 1 (max (1 / 1000) (next_timer s - eventtime)), s))
      else rbind (timer_loop call resume others g eventtime (timers s) (s\<lparr>next_timer := NEVER\<rparr>)) (\<lambda>s'. Inr (0, s')))"

section \<open>Mutexes\<close>

record mutex =
  is_locked :: bool
  next_pending :: bool
  mq :: "nat list"

definition new_mutex :: "bool \<Rightarrow> mutex" where
  "new_mutex locked = \<lparr>is_locked = locked, next_pending = False, mq = []\<rparr>"

text \<open>\<open>__enter__\<close> of the greenlet \<open>g\<close>, up to its first pause: whether it has the mutex.\<close>

definition mutex_enter :: "nat \<Rightarrow> mutex \<Rightarrow> bool \<times> mutex" where
  "mutex_enter g m =
     (if \<not> is_locked m then (True, m\<lparr>is_locked := True\<rparr>) else (False, m\<lparr>mq := mq m @ [g]\<rparr>))"

text \<open>One turn of its loop, when the pause returns.\<close>

definition mutex_resume :: "nat \<Rightarrow> mutex \<Rightarrow> bool \<times> mutex" where
  "mutex_resume g m =
     (if next_pending m \<and> mq m \<noteq> [] \<and> hd (mq m) = g then (True, m\<lparr>next_pending := False, mq := tl (mq m)\<rparr>)
      else (False, m))"

text \<open>\<open>__exit__\<close>: the timer of the first greenlet that waits is updated.\<close>

definition mutex_exit :: "mutex \<Rightarrow> ('cb, 'r, 'w) reactor \<Rightarrow> (mutex \<times> ('cb, 'r, 'w) reactor) res" where
  "mutex_exit m s =
     (if mq m = [] then Inr (m\<lparr>is_locked := False\<rparr>, s)
      else case g_timer s (hd (mq m)) of
        None \<Rightarrow> Inl AttributeError
      | Some t \<Rightarrow> Inr (m\<lparr>next_pending := True\<rparr>, update_timer t NOW s))"

section \<open>No timer is lost\<close>

inductive reactor_op :: "('cb, 'r, 'w) reactor \<Rightarrow> ('cb, 'r, 'w) reactor \<Rightarrow> bool" where
  update: "reactor_op s (update_timer t w s)"
| register: "reactor_op s (snd (register_timer cb w s))"
| unregister: "unregister_timer t s = Inr s' \<Longrightarrow> reactor_op s s'"
| elsewhere: "timers s' = timers s \<Longrightarrow> heap s' = heap s \<Longrightarrow> next_timer s' = next_timer s \<Longrightarrow> reactor_op s s'"

text \<open>All registered timers but those of \<open>R\<close> are waited for.\<close>

definition covered :: "nat set \<Rightarrow> ('cb, 'r, 'w) reactor \<Rightarrow> bool" where
  "covered R s \<longleftrightarrow> next_timer s \<le> NEVER \<and> (\<forall>t \<in> set (timers s). t \<notin> R \<longrightarrow> next_timer s \<le> max NOW (wake s t))"

lemma NOW_le_NEVER [simp]: "NOW \<le> NEVER" "max NOW NEVER = NEVER"
  by (simp_all add: NOW_def NEVER_def)

lemma covered_set_NEVER: "covered R s \<Longrightarrow> covered R (set_waketime t NEVER s)"
  by (auto simp: covered_def set_waketime_def wake_def)

lemma covered_update [inv_intros]: "covered R s \<Longrightarrow> covered (R - {t}) (note_time w (set_waketime t w s))"
  by (auto simp: covered_def set_waketime_def wake_def note_time_def min_le_iff_disj)

lemma covered_update_same: "covered R s \<Longrightarrow> covered R (update_timer t w s)"
  by (auto simp: update_timer_def covered_def set_waketime_def wake_def note_time_def min_le_iff_disj)

lemma covered_note: "covered R s \<Longrightarrow> covered (R - {t}) (note_time (wake s t) s)"
  by (auto simp: covered_def wake_def note_time_def min_le_iff_disj)

lemma covered_unregister: "unregister_timer t s = Inr s' \<Longrightarrow> covered R s \<Longrightarrow> covered R s'"
  using covered_set_NEVER [of R s t]
  by (auto simp: unregister_timer_def Let_def rbind_eq_Inr list_remove_Inr covered_def wake_def dest: subsetD [OF set_remove1_subset])

lemma reactor_op_covered [inv_intros]: "reactor_op s s' \<Longrightarrow> covered R s \<Longrightarrow> covered R s'"
proof (induction rule: reactor_op.induct)
  case (update s t w)
  then show ?case by (rule covered_update_same)
next
  case (register s cb w)
  then show ?case
    by (auto simp: register_timer_def Let_def covered_def note_time_def wake_def min_le_iff_disj)
next
  case (unregister t s s')
  then show ?case by (rule covered_unregister)
next
  case (elsewhere s' s)
  then show ?case by (simp add: covered_def wake_def)
qed

lemma reactor_ops_covered: "reactor_op\<^sup>*\<^sup>* s s' \<Longrightarrow> covered R s \<Longrightarrow> covered R s'"
  by (induction rule: rtranclp_induct) (auto intro: reactor_op_covered)

lemma fold_ops: "(\<And>x s. reactor_op\<^sup>*\<^sup>* s (f x s)) \<Longrightarrow> reactor_op\<^sup>*\<^sup>* s (fold f xs s)"
  by (induction xs arbitrary: s) (auto intro: rtranclp_trans)

lemma complete_ops: "reactor_op\<^sup>*\<^sup>* s (complete c r s)"
proof -
  let ?k = "completions s ! c"
  let ?s1 = "s\<lparr>completions := (completions s)[c := ?k\<lparr>c_result := Some r\<rparr>]\<rparr>"
  have "reactor_op s ?s1" by (rule reactor_op.elsewhere) simp_all
  moreover have "reactor_op\<^sup>*\<^sup>* ?s1 (fold (\<lambda>g u. case g_timer u g of Some t \<Rightarrow> update_timer t NOW u | None \<Rightarrow> u) (waiting ?k) ?s1)"
    by (rule fold_ops) (auto split: option.split intro: reactor_op.update)
  ultimately show ?thesis unfolding complete_def Let_def by (rule converse_rtranclp_into_rtranclp)
qed

text \<open>
  Callbacks act on the reactor through its operations. One that pauses hands the dispatch to another
  greenlet; until it returns anything may happen, passes of other greenlets over the timers included.
  A greenlet that ended its turn after such a callback dispatches again only because another one
  paused into it.
\<close>

definition acts :: "('cb, 'r, 'w) call \<Rightarrow> ('cb, 'r, 'w) resume \<Rightarrow> bool" where
  "acts call resume \<longleftrightarrow>
     (\<forall>cb e s. case call cb e s of ((p, w, r), s') \<Rightarrow> \<not> p \<longrightarrow> reactor_op\<^sup>*\<^sup>* s s') \<and>
     (\<forall>g e s. case resume g e s of ((p, w), s') \<Rightarrow> \<not> p \<longrightarrow> reactor_op\<^sup>*\<^sup>* s s')"

definition reused_by_pause :: "(('cb, 'r, 'w) reactor \<Rightarrow> ('cb, 'r, 'w) reactor) \<Rightarrow> bool" where
  "reused_by_pause others \<longleftrightarrow> (\<forall>s. \<exists>g g_new w s1. others s = snd (pause_dispatch g g_new w s1))"

lemma pause_covered: "covered R (snd (pause_dispatch g g_new w s))"
  by (simp add: covered_def pause_dispatch_def Let_def case_prod_unfold)

lemma run_timer_callback_covered:
  assumes "acts call resume" "run_timer_callback call resume cb e s = Inr ((p, w), s')" "covered R s"
  shows "\<not> p \<longrightarrow> covered R s'"
proof -
  have c: "\<not> p \<longrightarrow> reactor_op\<^sup>*\<^sup>* u u'" if "call f e u = ((p, v, r), u')" for f u p v r u'
    using assms(1) that unfolding acts_def by (metis (mono_tags, lifting) case_prod_conv)
  have g: "\<not> p \<longrightarrow> reactor_op\<^sup>*\<^sup>* u u'" if "resume f e u = ((p, v), u')" for f u p v u'
    using assms(1) that unfolding acts_def by (metis (mono_tags, lifting) case_prod_conv)
  show ?thesis
  proof (cases cb)
    case (Plain f)
    then obtain r where "call f e s = ((p, w, r), s')"
      using assms(2) by (auto simp: run_timer_callback_def split: prod.splits)
    from c [OF this] assms(3) show ?thesis by (blast intro: reactor_ops_covered)
  next
    case (Invoke t f k)
    then obtain s1 where u: "unregister_timer t s = Inr s1"
      using assms(2) by (auto simp: run_timer_callback_def invoke_def rbind_eq_Inr)
    obtain q v r s2 where r: "call f e s1 = ((q, v, r), s2)" by (metis prod.exhaust)
    have q: "p = q" and s': "s' = complete k r s2"
      using Invoke assms(2) u r by (simp_all add: run_timer_callback_def invoke_def)
    note r = r [folded q]
    have "covered R s1" using u assms(3) by (rule covered_unregister)
    then have "\<not> p \<longrightarrow> covered R s2" using c [OF r] reactor_ops_covered by blast
    then show ?thesis unfolding s' by (blast intro: reactor_ops_covered [OF complete_ops])
  next
    case (Switch f)
    then have "resume f e s = ((p, w), s')" using assms(2) by (simp add: run_timer_callback_def)
    from g [OF this] assms(3) show ?thesis by (blast intro: reactor_ops_covered)
  qed
qed

lemma timer_loop_covered:
  assumes "acts call resume" "reused_by_pause others"
  shows "timer_loop call resume others g e ts s = Inr s' \<Longrightarrow> covered (set ts) s \<Longrightarrow> covered {} s'"
proof (induction ts arbitrary: s)
  case (Cons t ts)
  show ?case
  proof (cases "wake s t \<le> e")
    case True
    then obtain p w s1 where r: "run_timer_callback call resume (t_callback (heap s t)) e (set_waketime t NEVER s) = Inr ((p, w), s1)"
      using Cons.prems(1) by (auto simp: rbind_eq_Inr)
    have "covered (set (t # ts)) (set_waketime t NEVER s)" using Cons.prems(2) by (rule covered_set_NEVER)
    note c = run_timer_callback_covered [OF assms(1) r this]
    show ?thesis
    proof (cases p)
      case True
      with Cons.prems(1) r \<open>wake s t \<le> e\<close> obtain s3 where "s' = others s3" by (auto simp: Let_def rbind_eq_Inr)
      with assms(2) pause_covered show ?thesis unfolding reused_by_pause_def by metis
    next
      case False
      from covered_update [OF c [rule_format, OF False], of t w] have "covered (set ts) (note_time w (set_waketime t w s1))"
        by (auto simp: covered_def)
      moreover have "timer_loop call resume others g e ts (note_time w (set_waketime t w s1)) = Inr s'"
        using Cons.prems(1) \<open>wake s t \<le> e\<close> r False by (simp add: Let_def)
      ultimately show ?thesis by (intro Cons.IH)
    qed
  next
    case False
    have "covered (set ts) (note_time (wake s t) s)" using covered_note [OF Cons.prems(2), of t] by (auto simp: covered_def)
    with False Cons.prems(1) show ?thesis by (auto intro: Cons.IH)
  qed
qed simp


section \<open>The mutex\<close>

text \<open>Each greenlet that has paused has a timer of its own.\<close>

definition timers_ok :: "('cb, 'r, 'w) reactor \<Rightarrow> bool" where
  "timers_ok s \<longleftrightarrow> (\<forall>g t. g_timer s g = Some t \<longrightarrow> t < fresh s) \<and>
     (\<forall>g g' t. g_timer s g = Some t \<longrightarrow> g_timer s g' = Some t \<longrightarrow> g = g')"

text \<open>
  The mutex and the reactor, with the greenlets that hold the mutex, those that asked for it in the
  order they asked, and those that got it. A greenlet that has to wait pauses until \<open>NEVER\<close>: the
  dispatching one with a new timer, another one on the timer it was resumed by. A waiting greenlet may
  be resumed at any time, and pauses again if it does not get the mutex. What other greenlets do
  leaves the timers of the waiting ones alone.
\<close>

type_synonym ('cb, 'r, 'w) mutex_state = "mutex \<times> ('cb, 'r, 'w) reactor \<times> nat set \<times> nat list \<times> nat list"

inductive mutex_step :: "('cb, 'r, 'w) mutex_state \<Rightarrow> ('cb, 'r, 'w) mutex_state \<Rightarrow> bool" where
  enter: "g \<notin> h \<Longrightarrow> g \<notin> set (mq m) \<Longrightarrow> mutex_enter g m = (True, m') \<Longrightarrow>
    mutex_step (m, s, h, asked, granted) (m', s, insert g h, asked @ [g], granted @ [g])"
| wait_dispatch: "g \<notin> h \<Longrightarrow> g \<notin> set (mq m) \<Longrightarrow> mutex_enter g m = (False, m') \<Longrightarrow>
    mutex_step (m, s, h, asked, granted) (m', snd (pause_dispatch g g_new NEVER s), h, asked @ [g], granted)"
| wait_resumed: "g \<notin> h \<Longrightarrow> g \<notin> set (mq m) \<Longrightarrow> mutex_enter g m = (False, m') \<Longrightarrow> g_timer s g = Some t \<Longrightarrow>
    mutex_step (m, s, h, asked, granted) (m', update_timer t NEVER s, h, asked @ [g], granted)"
| resume: "g \<in> set (mq m) \<Longrightarrow> mutex_resume g m = (True, m') \<Longrightarrow>
    mutex_step (m, s, h, asked, granted) (m', s, insert g h, asked, granted @ [g])"
| pause_again: "g \<in> set (mq m) \<Longrightarrow> mutex_resume g m = (False, m') \<Longrightarrow> g_timer s g = Some t \<Longrightarrow>
    mutex_step (m, s, h, asked, granted) (m', update_timer t NEVER s, h, asked, granted)"
| exit: "g \<in> h \<Longrightarrow> mutex_exit m s = Inr (m', s') \<Longrightarrow> mutex_step (m, s, h, asked, granted) (m', s', h - {g}, asked, granted)"
| others: "timers_ok s' \<Longrightarrow> (\<And>g. g \<in> set (mq m) \<Longrightarrow> g_timer s' g = g_timer s g) \<Longrightarrow>
    (\<And>g t. g \<in> set (mq m) \<Longrightarrow> g_timer s g = Some t \<Longrightarrow> wake s' t = wake s t) \<Longrightarrow>
    mutex_step (m, s, h, asked, granted) (m, s', h, asked, granted)"

definition timer_due :: "('cb, 'r, 'w) reactor \<Rightarrow> nat \<Rightarrow> bool" where
  "timer_due s g \<longleftrightarrow> (\<exists>t. g_timer s g = Some t \<and> wake s t \<le> NOW)"

definition mutex_inv :: "('cb, 'r, 'w) mutex_state \<Rightarrow> bool" where
  "mutex_inv = (\<lambda>(m, s, h, asked, granted).
     asked = granted @ mq m \<and> distinct (mq m) \<and> h \<inter> set (mq m) = {} \<and>
     timers_ok s \<and> (\<forall>g \<in> set (mq m). g_timer s g \<noteq> None) \<and>
     (if \<not> is_locked m then h = {} \<and> mq m = [] \<and> \<not> next_pending m
      else (\<exists>g. h = {g}) \<and> \<not> next_pending m \<or>
        h = {} \<and> next_pending m \<and> mq m \<noteq> [] \<and> timer_due s (hd (mq m))))"

lemma update_timer_simps [simp]:
  "g_timer (update_timer t w s) = g_timer s" "fresh (update_timer t w s) = fresh s"
  "wake (update_timer t w s) t' = (if t' = t then w else wake s t')"
  by (simp_all add: update_timer_def note_time_def set_waketime_def wake_def)

lemma timers_ok_update [simp]: "timers_ok (update_timer t w s) = timers_ok s"
  by (simp add: timers_ok_def)

lemma timer_due_update: "timers_ok s \<Longrightarrow> g_timer s g = Some t \<Longrightarrow> g' \<noteq> g \<Longrightarrow> timer_due (update_timer t w s) g' = timer_due s g'"
  by (auto simp: timer_due_def timers_ok_def)

lemma pause_dispatch_timer:
  "g_timer (snd (pause_dispatch g g_new w s)) = (g_timer s)(g \<mapsto> fresh s)"
  "fresh (snd (pause_dispatch g g_new w s)) = fresh s + 1"
  "t \<noteq> fresh s \<Longrightarrow> wake (snd (pause_dispatch g g_new w s)) t = wake s t"
  by (simp_all add: pause_dispatch_def register_timer_def note_time_def wake_def Let_def)

lemma timers_ok_pause: "timers_ok s \<Longrightarrow> timers_ok (snd (pause_dispatch g g_new w s))"
  unfolding timers_ok_def pause_dispatch_timer by (auto split: if_splits) (metis less_irrefl less_SucI)+

lemma timer_due_pause: "timers_ok s \<Longrightarrow> g' \<noteq> g \<Longrightarrow> timer_due (snd (pause_dispatch g g_new w s)) g' = timer_due s g'"
proof -
  assume ok: "timers_ok s" and g: "g' \<noteq> g"
  have "wake (snd (pause_dispatch g g_new w s)) t = wake s t" if "g_timer s g' = Some t" for t
  proof -
    have "t < fresh s" using ok that by (auto simp: timers_ok_def)
    then show ?thesis by (intro pause_dispatch_timer(3)) simp
  qed
  with g show ?thesis by (auto simp: timer_due_def pause_dispatch_timer(1))
qed

lemma mutex_step_inv [inv_intros]: "mutex_step a b \<Longrightarrow> mutex_inv a \<Longrightarrow> mutex_inv b"
proof (induction rule: mutex_step.induct)
  case (enter g h m m' s asked granted)
  then show ?case by (auto simp: mutex_inv_def mutex_enter_def split: if_splits)
next
  case (wait_dispatch g h m m' s asked granted g_new)
  then have m': "is_locked m" "m' = m\<lparr>mq := mq m @ [g]\<rparr>" by (auto simp: mutex_enter_def split: if_splits)
  have "mq m \<noteq> [] \<Longrightarrow> hd (mq m) \<noteq> g" using wait_dispatch(2) hd_in_set by metis
  with wait_dispatch m' show ?case
    by (auto simp: mutex_inv_def timers_ok_pause pause_dispatch_timer timer_due_pause)
next
  case (wait_resumed g h m m' s t asked granted)
  then have m': "is_locked m" "m' = m\<lparr>mq := mq m @ [g]\<rparr>" by (auto simp: mutex_enter_def split: if_splits)
  have "mq m \<noteq> [] \<Longrightarrow> hd (mq m) \<noteq> g" using wait_resumed(2) hd_in_set by metis
  with wait_resumed m' show ?case
    by (auto simp: mutex_inv_def timer_due_update [of s g t])
next
  case (resume g m m' s h asked granted)
  then obtain q where "mq m = g # q" "next_pending m" "m' = m\<lparr>next_pending := False, mq := q\<rparr>"
    by (cases "mq m") (auto simp: mutex_resume_def split: if_splits)
  with resume(3) show ?case by (auto simp: mutex_inv_def split: if_splits)
next
  case (pause_again g m m' s t h asked granted)
  then have m': "m' = m" "next_pending m \<Longrightarrow> hd (mq m) \<noteq> g" by (auto simp: mutex_resume_def split: if_splits)
  with pause_again show ?case by (auto simp: mutex_inv_def timer_due_update [of s g t])
next
  case (exit g h m s m' s' asked granted)
  then have h: "h - {g} = {}" "is_locked m" "\<not> next_pending m" by (auto simp: mutex_inv_def split: if_splits)
  show ?case
  proof (cases "mq m")
    case Nil
    then have "m' = m\<lparr>is_locked := False\<rparr>" "s' = s" using exit(2) by (simp_all add: mutex_exit_def)
    with exit(3) h Nil show ?thesis by (simp add: mutex_inv_def)
  next
    case (Cons g' q)
    then obtain t where "g_timer s g' = Some t" "m' = m\<lparr>next_pending := True\<rparr>" "s' = update_timer t NOW s"
      using exit(2) by (auto simp: mutex_exit_def split: option.splits)
    with exit(3) h Cons show ?thesis by (auto simp: mutex_inv_def timer_due_def)
  qed
next
  case (others s' m s h asked granted)
  have d: "timer_due s' g = timer_due s g" if "g \<in> set (mq m)" for g
    unfolding timer_due_def others(2) [OF that] using others(3) [OF that] by auto
  have "timer_due s' (hd (mq m)) = timer_due s (hd (mq m))" if "mq m \<noteq> []" using d that by simp
  moreover have "(\<forall>g \<in> set (mq m). g_timer s' g \<noteq> None) \<longleftrightarrow> (\<forall>g \<in> set (mq m). g_timer s g \<noteq> None)"
    using others(2) by metis
  ultimately show ?case using others(4) unfolding mutex_inv_def prod.case by (metis others(1))
qed

lemma mutex_steps_inv: "mutex_step\<^sup>*\<^sup>* a b \<Longrightarrow> mutex_inv a \<Longrightarrow> mutex_inv b"
  by (induction rule: rtranclp_induct) (auto intro: mutex_step_inv)

text \<open>C15: in every interleaving of greenlets that take and release a mutex, at most one holds it, it is
  granted in the order of the requests, its holder can always release it, and no wake-up is lost: when
  nobody holds it and somebody waits, the first in the queue has a timer that is due now, and gets the
  mutex when it resumes.\<close>
theorem mutex_exclusive_fair:
  assumes "timers_ok s0" "mutex_step\<^sup>*\<^sup>* (new_mutex False, s0, {}, [], []) (m, s, holders, asked, granted)"
  shows "(\<forall>g \<in> holders. \<forall>g' \<in> holders. g = g') \<and> asked = granted @ mq m \<and> (\<exists>m' s'. mutex_exit m s = Inr (m', s')) \<and>
    (holders = {} \<and> mq m \<noteq> [] \<longrightarrow>
      fst (mutex_resume (hd (mq m)) m) \<and> (\<exists>t. g_timer s (hd (mq m)) = Some t \<and> wake s t \<le> NOW))"
proof -
  have "mutex_inv (new_mutex False, s0, {}, [], [])" using assms(1) by (simp add: mutex_inv_def new_mutex_def)
  note inv = mutex_steps_inv [OF assms(2) this]
  have "\<exists>m' s'. mutex_exit m s = Inr (m', s')"
    using inv by (cases "mq m") (auto simp: mutex_exit_def mutex_inv_def)
  with inv show ?thesis
    by (auto simp: mutex_inv_def mutex_resume_def timer_due_def split: if_splits)
qed

definition reactor_example :: "(nat, nat, unit) reactor" where
  "reactor_example = \<lparr>timers = [0], heap = (\<lambda>_. \<lparr>t_callback = Plain 0, waketime = 5\<rparr>), fresh = 1, next_timer = 5,
     completions = [], async_queue = [], g_timer = (\<lambda>_. None), greenlets = [], check_gc = False, last_gc_times = (\<lambda>_. 0), r_world = ()\<rparr>"

text \<open>Greenlet 1 takes the mutex, 2 waits for it, 1 releases it.\<close>

theorem mutex_exclusive_fair_witness:
  "\<exists>m s. mutex_step\<^sup>*\<^sup>* (new_mutex False, reactor_example, {}, [], []) (m, s, {}, [1, 2], [1]) \<and> mq m = [2] \<and>
    fst (mutex_resume 2 m) \<and> (\<exists>t. g_timer s 2 = Some t \<and> wake s t \<le> NOW)"
proof -
  let ?m1 = "\<lparr>is_locked = True, next_pending = False, mq = []\<rparr>"
  let ?m2 = "\<lparr>is_locked = True, next_pending = False, mq = [2]\<rparr>"
  let ?m3 = "\<lparr>is_locked = True, next_pending = True, mq = [2]\<rparr>"
  let ?s1 = "snd (pause_dispatch 2 3 NEVER reactor_example)"
  let ?s2 = "update_timer 1 NOW ?s1"
  have "mutex_step (new_mutex False, reactor_example, {}, [], []) (?m1, reactor_example, {1}, [1], [1])"
    using mutex_step.enter [of 1 "{}" "new_mutex False" ?m1 reactor_example "[]" "[]"] by (simp add: new_mutex_def mutex_enter_def)
  moreover have "mutex_step (?m1, reactor_example, {1}, [1], [1]) (?m2, ?s1, {1}, [1, 2], [1])"
    using mutex_step.wait_dispatch [of 2 "{1}" ?m1 ?m2 reactor_example "[1]" "[1]" 3] by (simp add: mutex_enter_def)
  moreover have "g_timer ?s1 2 = Some 1" by (simp add: pause_dispatch_timer reactor_example_def)
  then have "mutex_step (?m2, ?s1, {1}, [1, 2], [1]) (?m3, ?s2, {}, [1, 2], [1])"
    using mutex_step.exit [of 1 "{1}" ?m2 ?s1 ?m3 ?s2 "[1, 2]" "[1]"] by (simp add: mutex_exit_def)
  ultimately have r: "mutex_step\<^sup>*\<^sup>* (new_mutex False, reactor_example, {}, [], []) (?m3, ?s2, {}, [1, 2], [1])"
    by (meson rtranclp.rtrancl_refl rtranclp.rtrancl_into_rtrancl)
  have "timers_ok reactor_example" by (simp add: timers_ok_def reactor_example_def)
  from mutex_exclusive_fair [OF this r] r show ?thesis by (intro exI [of _ ?m3] exI [of _ ?s2]) simp
qed


end
