(* ===== verification/PrintStats.thy ===== *)
theory PrintStats
  imports GCode
begin

text \<open>
  \<open>klippy/extras/print_stats.py\<close>: the state and the times of a print. The time, the position of the
  extruder and the extrusion factor, which the code asks of the reactor and of \<open>gcode_move\<close>, are
  arguments.
\<close>

record print_stats =
  ps_filename :: string
  ps_error_message :: string
  ps_state :: string
  prev_pause_duration :: rat
  last_epos :: rat
  filament_used :: rat
  total_duration :: rat
  print_start_time :: "rat option"
  last_pause_time :: "rat option"
  init_duration :: rat
  ps_duration :: rat

record moment =
  mt_time :: rat
  mt_epos :: rat
  mt_factor :: rat

definition ps_reset :: "print_stats \<Rightarrow> print_stats" where
  "ps_reset p = p\<lparr>ps_filename := [], ps_error_message := [], ps_state := ''standby'', prev_pause_duration := 0, last_epos := 0,
     filament_used := 0, total_duration := 0, print_start_time := None, last_pause_time := None, init_duration := 0\<rparr>"

definition new_print_stats :: print_stats where
  "new_print_stats = \<lparr>ps_filename = [], ps_error_message = [], ps_state = ''standby'', prev_pause_duration = 0, last_epos = 0,
     filament_used = 0, total_duration = 0, print_start_time = None, last_pause_time = None, init_duration = 0, ps_duration = 0\<rparr>"

definition update_filament_usage :: "moment \<Rightarrow> print_stats \<Rightarrow> print_stats" where
  "update_filament_usage m p =
     p\<lparr>filament_used := filament_used p + (mt_epos m - last_epos p) / mt_factor m, last_epos := mt_epos m\<rparr>"

definition set_current_file :: "string \<Rightarrow> print_stats \<Rightarrow> print_stats" where
  "set_current_file filename p = (ps_reset p)\<lparr>ps_filename := filename\<rparr>"

definition note_start :: "moment \<Rightarrow> print_stats \<Rightarrow> print_stats" where
  "note_start m p =
     (let p1 = (case print_start_time p of
            None \<Rightarrow> p\<lparr>print_start_time := Some (mt_time m)\<rparr>
          | Some _ \<Rightarrow> (case last_pause_time p of
                None \<Rightarrow> p
              | Some t \<Rightarrow> p\<lparr>prev_pause_duration := prev_pause_duration p + (mt_time m - t), last_pause_time := None\<rparr>))
      in p1\<lparr>last_epos := mt_epos m, ps_state := ''printing'', ps_error_message := []\<rparr>)"

definition note_pause :: "moment \<Rightarrow> print_stats \<Rightarrow> print_stats" where
  "note_pause m p =
     (let p1 = (case last_pause_time p of
            None \<Rightarrow> update_filament_usage m (p\<lparr>last_pause_time := Some (mt_time m)\<rparr>)
          | Some _ \<Rightarrow> p)
      in if ps_state p1 \<noteq> ''error'' then p1\<lparr>ps_state := ''paused''\<rparr> else p1)"

definition note_finish :: "string \<Rightarrow> string \<Rightarrow> moment \<Rightarrow> print_stats \<Rightarrow> print_stats" where
  "note_finish st msg m p =
     (case print_start_time p of
        None \<Rightarrow> p
      | Some t0 \<Rightarrow>
          let total = mt_time m - t0;
              p1 = p\<lparr>ps_state := st, ps_error_message := msg, total_duration := total\<rparr>;
              p2 = (if filament_used p < 1 / 10000000 then p1\<lparr>init_duration := total - prev_pause_duration p\<rparr> else p1)
          in p2\<lparr>total_duration := total + ps_duration p, ps_duration := 0, print_start_time := None\<rparr>)"

definition note_complete :: "moment \<Rightarrow> print_stats \<Rightarrow> print_stats" where
  "note_complete = note_finish ''complete'' []"

definition note_error :: "string \<Rightarrow> moment \<Rightarrow> print_stats \<Rightarrow> print_stats" where
  "note_error msg = note_finish ''error'' msg"

definition note_cancel :: "moment \<Rightarrow> print_stats \<Rightarrow> print_stats" where
  "note_cancel = note_finish ''cancelled'' []"

definition modify_print_time :: "rat \<Rightarrow> print_stats \<Rightarrow> print_stats" where
  "modify_print_time t p = p\<lparr>ps_duration := t\<rparr>"

text \<open>\<open>get_status\<close>: the total and the print duration it reports, and the new state.\<close>

definition print_stats_status :: "moment \<Rightarrow> print_stats \<Rightarrow> (rat \<times> rat) \<times> print_stats" where
  "print_stats_status m p =
     (let (time_paused, p1) =
            (case print_start_time p of
               None \<Rightarrow> (prev_pause_duration p, p)
             | Some t0 \<Rightarrow>
                 let (tp, q) = (case last_pause_time p of
                         Some t \<Rightarrow> (prev_pause_duration p + (mt_time m - t), p)
                       | None \<Rightarrow> (prev_pause_duration p, update_filament_usage m p));
                     total = mt_time m - t0;
                     q1 = (if filament_used q < 1 / 10000000 then q\<lparr>init_duration := total - tp\<rparr> else q)
                 in (tp, q1\<lparr>total_duration := total + ps_duration q1\<rparr>))
      in ((total_duration p1, total_duration p1 - init_duration p1 - time_paused), p1))"

section \<open>Time spent paused\<close>

definition print_duration :: "moment \<Rightarrow> print_stats \<Rightarrow> rat" where
  "print_duration m p = snd (fst (print_stats_status m p))"

text \<open>What it is while paused since \<open>t\<close>, for a print that started at \<open>t0\<close>.\<close>

definition paused_value :: "rat \<Rightarrow> rat \<Rightarrow> print_stats \<Rightarrow> rat" where
  "paused_value t0 t p =
     (if filament_used p < 1 / 10000000 then ps_duration p
      else t - t0 + ps_duration p - init_duration p - prev_pause_duration p)"

definition paused_at :: "rat \<Rightarrow> rat \<Rightarrow> rat \<Rightarrow> print_stats \<Rightarrow> bool" where
  "paused_at t0 t d p \<longleftrightarrow> print_start_time p = Some t0 \<and> last_pause_time p = Some t \<and> paused_value t0 t p = d"

lemma paused_status:
  assumes "paused_at t0 t d p"
  shows "print_duration m p = d" "paused_at t0 t d (snd (print_stats_status m p))" "print_duration m (note_start m p) = d"
  using assms
  by (auto simp: paused_at_def paused_value_def print_duration_def print_stats_status_def note_start_def update_filament_usage_def Let_def
      algebra_simps)

lemma paused_statuses: "paused_at t0 t d p \<Longrightarrow> paused_at t0 t d (fold (\<lambda>m. snd \<circ> print_stats_status m) ms p)"
  by (induction ms arbitrary: p) (simp_all add: paused_status)

lemma pausing:
  assumes "print_start_time p = Some t0" "last_pause_time p = None"
  shows "paused_at t0 (mt_time m) (print_duration m p) (note_pause m p)"
  using assms
  by (auto simp: paused_at_def paused_value_def print_duration_def print_stats_status_def note_pause_def update_filament_usage_def Let_def
      algebra_simps)

text \<open>time spent paused does not count as printing: the print duration reported when a print is paused is
  reported as long as it is paused, however often and whenever it is asked for, and when it resumes.\<close>
theorem paused_time_not_counted:
  assumes "print_start_time p = Some t0" "last_pause_time p = None"
  shows "let q = fold (\<lambda>m. snd \<circ> print_stats_status m) ms (note_pause m p)
    in print_duration m' q = print_duration m p \<and> print_duration m' (note_start m' q) = print_duration m p"
  using paused_status [OF paused_statuses [OF pausing [OF assms]]] by (simp add: Let_def)

theorem paused_time_not_counted_witness:
  "print_duration \<lparr>mt_time = 70, mt_epos = 9, mt_factor = 1\<rparr>
     (note_start \<lparr>mt_time = 70, mt_epos = 9, mt_factor = 1\<rparr>
       (fold (\<lambda>m. snd \<circ> print_stats_status m) [\<lparr>mt_time = 50, mt_epos = 9, mt_factor = 1\<rparr>]
         (note_pause \<lparr>mt_time = 30, mt_epos = 9, mt_factor = 1\<rparr>
           (note_start \<lparr>mt_time = 10, mt_epos = 4, mt_factor = 1\<rparr> new_print_stats)))) = 20"
proof -
  let ?p = "note_start \<lparr>mt_time = 10, mt_epos = 4, mt_factor = 1\<rparr> new_print_stats"
  have p: "print_start_time ?p = Some 10" "last_pause_time ?p = None" by (simp_all add: note_start_def new_print_stats_def)
  have "print_duration \<lparr>mt_time = 30, mt_epos = 9, mt_factor = 1\<rparr> ?p = 20"
    by (simp add: print_duration_def print_stats_status_def note_start_def new_print_stats_def update_filament_usage_def)
  with paused_time_not_counted [OF p, of "[\<lparr>mt_time = 50, mt_epos = 9, mt_factor = 1\<rparr>]" "\<lparr>mt_time = 30, mt_epos = 9, mt_factor = 1\<rparr>"
      "\<lparr>mt_time = 70, mt_epos = 9, mt_factor = 1\<rparr>"]
  show ?thesis by (simp add: Let_def)
qed

end
