(* ===== verification/GCodeMove.thy ===== *)
theory GCodeMove
  imports GCode
begin

text \<open>
  \<open>klippy/extras/gcode_move.py\<close>: the coordinates of G-code moves: absolute and relative modes, the
  base position of \<open>G92\<close> and of offsets, the speed and extrusion factors, the size correction of moves,
  and the saved states.

  Positions are lists of four rationals, X, Y, Z and E. A transform (the toolhead or a module around
  it), the rest of the machine and the scripts that \<open>G1\<close> runs are parameters (\<open>genv\<close>). An infinite
  or undefined number, which \<open>float\<close> reads too, counts as one that does not parse.
\<close>

section \<open>Statements that may raise\<close>

type_synonym 's stm = "'s \<Rightarrow> unit res \<times> 's"

text \<open>One after the other; what was changed before an exception stays changed.\<close>

fun seqs :: "'s stm list \<Rightarrow> 's stm" where
  "seqs [] s = (Inr (), s)"
| "seqs (f # fs) s = (case f s of (Inl e, s') \<Rightarrow> (Inl e, s') | (Inr _, s') \<Rightarrow> seqs fs s')"

definition pure_stm :: "('s \<Rightarrow> 's) \<Rightarrow> 's stm" where
  "pure_stm f s = (Inr (), f s)"

definition with_value :: "'a res \<Rightarrow> ('a \<Rightarrow> 's stm) \<Rightarrow> 's stm" where
  "with_value r f s = (case r of Inl e \<Rightarrow> (Inl e, s) | Inr v \<Rightarrow> f v s)"

section \<open>State\<close>

record saved_state =
  sv_absolute_coord :: bool
  sv_absolute_extrude :: bool
  sv_base_position :: "rat list"
  sv_last_position :: "rat list"
  sv_homing_position :: "rat list"
  sv_speed :: rat
  sv_speed_factor :: rat
  sv_extrude_factor :: rat

record ('f, 'w) gmove =
  gm_ready :: bool
  absolute_coord :: bool
  absolute_extrude :: bool
  base_position :: "rat list"
  last_position :: "rat list"
  homing_position :: "rat list"
  cali_position :: "rat list"
  speed :: rat
  speed_factor :: rat
  extrude_factor :: rat
  pre_speed :: rat
  e_pos :: rat
  z_pos :: rat
  last_AI_z :: rat
  first_layer_detect :: "bool option"
  max_z :: rat
  saved_states :: "(string, saved_state) dict"
  move_transform :: "'f option"
  move_with :: "'f option"
  position_with :: "'f option"
  x_size_offset :: rat
  y_size_offset :: rat
  size_flag :: bool
  x_size :: "rat list"
  y_size :: "rat list"
  x_offset :: "rat list"
  y_offset :: "rat list"
  size_data :: "(string, rat list) dict"
  gm_output :: "string list"
  machine :: 'w

text \<open>
  \<open>size_offset\<close> is the correction the C library computes from the block sizes at a place,
  \<open>gfmt\<close> the text of a coordinate, \<open>script\<close> what \<open>run_script_from_command\<close> does.
\<close>

record ('f, 'w) genv =
  tmove :: "'f \<Rightarrow> rat list \<Rightarrow> rat \<Rightarrow> 'w stm"
  tposition :: "'f \<Rightarrow> 'w \<Rightarrow> rat list"
  toolhead :: "'f option"
  is_printing :: "'w \<Rightarrow> bool"
  is_paused :: "'w \<Rightarrow> bool"
  workmode :: "'w \<Rightarrow> int"
  pace_speed :: "'w \<Rightarrow> rat"
  size_offset :: "rat list \<Rightarrow> rat list \<Rightarrow> rat \<Rightarrow> rat \<Rightarrow> rat \<Rightarrow> rat \<times> rat"
  axes_max_z :: "'w \<Rightarrow> rat"
  gfmt :: "rat \<Rightarrow> string"
  script :: "string \<Rightarrow> ('f, 'w) gmove stm"

definition max_offset :: rat where "max_offset = 35 / 1000"

definition clamp_offset :: "rat \<Rightarrow> rat" where
  "clamp_offset v = max (min v max_offset) (- max_offset)"

text \<open>\<open>mode\<close> is the option \<open>size_cali_mode\<close>.\<close>

definition new_gmove :: "rat \<Rightarrow> rat \<Rightarrow> string \<Rightarrow> rat list \<Rightarrow> rat list \<Rightarrow> 'w \<Rightarrow> ('f, 'w) gmove" where
  "new_gmove xoff yoff mode xs ys w =
     \<lparr>gm_ready = False, absolute_coord = True, absolute_extrude = True,
      base_position = [0, 0, 0, 0], last_position = [0, 0, 0, 0], homing_position = [0, 0, 0, 0], cali_position = [],
      speed = 25, speed_factor = 1 / 60, extrude_factor = 1, pre_speed = -1, e_pos = 0, z_pos = 0, last_AI_z = 0,
      first_layer_detect = None, max_z = 330, saved_states = [], move_transform = None, move_with = None, position_with = None,
      x_size_offset = xoff, y_size_offset = yoff, size_flag = (strip mode = ''Refined''),
      x_size = map (\<lambda>v. 70 - 70 * clamp_offset v) xs, y_size = map (\<lambda>v. 70 - 70 * clamp_offset v) ys,
      x_offset = map clamp_offset xs, y_offset = map clamp_offset ys, size_data = [(''X'', []), (''Y'', [])],
      gm_output = [], machine = w\<rparr>"

section \<open>Positions\<close>

definition get_gcode_position :: "('f, 'w) gmove \<Rightarrow> rat list" where
  "get_gcode_position s =
     (let p = map2 (-) (last_position s) (base_position s) in p[3 := p ! 3 / extrude_factor s])"

definition get_gcode_speed :: "('f, 'w) gmove \<Rightarrow> rat" where
  "get_gcode_speed s = speed s / speed_factor s"

definition get_gcode_speed_override :: "('f, 'w) gmove \<Rightarrow> rat" where
  "get_gcode_speed_override s = speed_factor s * 60"

definition get_gcode_state :: "('f, 'w) gmove \<Rightarrow> saved_state" where
  "get_gcode_state s =
     \<lparr>sv_absolute_coord = absolute_coord s, sv_absolute_extrude = absolute_extrude s,
      sv_base_position = base_position s, sv_last_position = last_position s,
      sv_homing_position = homing_position s, sv_speed = speed s, sv_speed_factor = speed_factor s,
      sv_extrude_factor = extrude_factor s\<rparr>"

definition set_SAVE_GCODE_STATE :: "string \<Rightarrow> saved_state \<Rightarrow> ('f, 'w) gmove \<Rightarrow> ('f, 'w) gmove" where
  "set_SAVE_GCODE_STATE name st s = s\<lparr>saved_states := dset name st (saved_states s)\<rparr>"

text \<open>The fields of \<open>get_status\<close>, in its order.\<close>

definition gmove_status :: "('f, 'w) gmove \<Rightarrow> (rat \<times> rat \<times> rat) \<times> (bool \<times> bool) \<times> rat list \<times> rat list \<times> rat list" where
  "gmove_status s =
     ((get_gcode_speed_override s, get_gcode_speed s, extrude_factor s), (absolute_coord s, absolute_extrude s),
      homing_position s, last_position s, get_gcode_position s)"

definition reset_last_position :: "('f, 'w) genv \<Rightarrow> ('f, 'w) gmove \<Rightarrow> ('f, 'w) gmove" where
  "reset_last_position v s =
     (if gm_ready s then
        s\<lparr>last_position := (case position_with s of Some f \<Rightarrow> tposition v f (machine s) | None \<Rightarrow> [0, 0, 0, 0])\<rparr>
      else s)"

text \<open>\<open>move_with_transform\<close> is \<open>None\<close> before the printer is ready: calling it is a \<open>TypeError\<close>.\<close>

definition move_with_transform :: "('f, 'w) genv \<Rightarrow> rat list \<Rightarrow> rat \<Rightarrow> ('f, 'w) gmove stm" where
  "move_with_transform v p sp s =
     (case move_with s of
        None \<Rightarrow> (Inl TypeError, s)
      | Some f \<Rightarrow> (case tmove v f p sp (machine s) of (r, w) \<Rightarrow> (r, s\<lparr>machine := w\<rparr>)))"

section \<open>Events\<close>

text \<open>The toolhead is an object of a printer that is ready.\<close>

definition gm_handle_ready :: "('f, 'w) genv \<Rightarrow> ('f, 'w) gmove stm" where
  "gm_handle_ready v s =
     (let s1 = s\<lparr>gm_ready := True\<rparr> in
      if move_transform s = None then
        (case toolhead v of
           None \<Rightarrow> (Inl (AppError ''Unknown config object 'toolhead' ''), s1)
         | Some t \<Rightarrow> (Inr (), (reset_last_position v (s1\<lparr>move_with := Some t, position_with := Some t\<rparr>))\<lparr>pre_speed := -1\<rparr>))
      else (Inr (), (reset_last_position v s1)\<lparr>pre_speed := -1\<rparr>))"

definition gm_handle_shutdown :: "('f, 'w) gmove \<Rightarrow> ('f, 'w) gmove" where
  "gm_handle_shutdown s = s\<lparr>gm_ready := False\<rparr>"

definition handle_activate_extruder :: "('f, 'w) genv \<Rightarrow> ('f, 'w) gmove \<Rightarrow> ('f, 'w) gmove" where
  "handle_activate_extruder v s =
     (let s1 = (reset_last_position v s)\<lparr>extrude_factor := 1\<rparr>
      in s1\<lparr>base_position := (base_position s1)[3 := last_position s1 ! 3]\<rparr>)"

definition handle_home_rails_end :: "('f, 'w) genv \<Rightarrow> nat list \<Rightarrow> ('f, 'w) gmove \<Rightarrow> ('f, 'w) gmove" where
  "handle_home_rails_end v axes s =
     (let s1 = reset_last_position v s; s2 = s1\<lparr>max_z := last_position s1 ! 2\<rparr>
      in s2\<lparr>base_position := fold (\<lambda>a b. b[a := homing_position s2 ! a]) axes (base_position s2)\<rparr>)"

definition set_move_transform :: "('f, 'w) genv \<Rightarrow> 'f \<Rightarrow> bool \<Rightarrow> ('f, 'w) gmove \<Rightarrow> ('f option \<times> ('f, 'w) gmove) res" where
  "set_move_transform v t force s =
     (if move_transform s \<noteq> None \<and> \<not> force then Inl (AppError ''G-Code move transform already specified'')
      else Inr (if move_transform s = None then toolhead v else move_transform s,
        s\<lparr>move_transform := Some t, move_with := Some t, position_with := Some t\<rparr>))"

section \<open>Parameters\<close>

definition read_num :: "string \<Rightarrow> rat option" where
  "read_num s = (case parse_float s of Some (Fin v) \<Rightarrow> Some v | _ \<Rightarrow> None)"

definition get_float :: "('f, 'w) genv \<Rightarrow> string \<Rightarrow> rat param_default \<Rightarrow> rat option \<Rightarrow> gcmd \<Rightarrow> rat option res" where
  "get_float v name dflt lo g = gc_get (gfmt v) read_num name dflt None None lo None g"

definition float_param :: "string \<Rightarrow> gcmd \<Rightarrow> rat res" where
  "float_param axis g =
     (case dget (gc_params g) axis of None \<Rightarrow> Inl KeyError | Some t \<Rightarrow> res_of ValueError (read_num t))"

section \<open>\<open>G1\<close>\<close>

definition axes :: "(nat \<times> string) list" where
  "axes = [(0, ''X''), (1, ''Y''), (2, ''Z'')]"

definition move_axis :: "gcmd \<Rightarrow> nat \<times> string \<Rightarrow> ('f, 'w) gmove stm" where
  "move_axis g pa s =
     (if din (snd pa) (gc_params g) then
        with_value (float_param (snd pa) g) (\<lambda>x s. pure_stm (\<lambda>s.
          s\<lparr>last_position := (last_position s)[fst pa :=
             (if \<not> absolute_coord s then last_position s ! fst pa + x else x + base_position s ! fst pa)]\<rparr>) s) s
      else (Inr (), s))"

definition save_z :: "('f, 'w) genv \<Rightarrow> gcmd \<Rightarrow> ('f, 'w) gmove stm" where
  "save_z v g s =
     (if din ''Z'' (gc_params g) then
        seqs [\<lambda>s. if last_position s ! 2 \<ge> z_pos s + 9 / 100 \<and> is_printing v (machine s) \<and> \<not> is_paused v (machine s)
                  then script v ''F103'' s else (Inr (), s),
              pure_stm (\<lambda>s. s\<lparr>z_pos := last_position s ! 2\<rparr>)] s
      else (Inr (), s))"

definition move_e :: "gcmd \<Rightarrow> ('f, 'w) gmove stm" where
  "move_e g s =
     (if din ''E'' (gc_params g) then
        with_value (float_param ''E'' g) (\<lambda>x s.
          let v = x * extrude_factor s in
          (Inr (), s\<lparr>last_position := (last_position s)[3 :=
             (if \<not> absolute_coord s \<or> \<not> absolute_extrude s then last_position s ! 3 + v else v + base_position s ! 3)]\<rparr>)) s
      else (Inr (), s))"

definition note_e :: "('f, 'w) gmove \<Rightarrow> ('f, 'w) gmove" where
  "note_e s = (if last_position s ! 3 < 10 then s\<lparr>e_pos := last_position s ! 3\<rparr> else s)"

text \<open>The detection of printing failures; starting its program is left out.\<close>

definition detect :: "('f, 'w) genv \<Rightarrow> ('f, 'w) gmove stm" where
  "detect v s =
     (if last_position s ! 3 - e_pos s > 70 \<and> last_position s ! 3 > 100 \<and> last_position s ! 2 - last_AI_z s \<ge> 1 / 10 \<and>
         is_printing v (machine s) then
        seqs [\<lambda>s. if last_AI_z s \<ge> 2 / 10 then
                (case first_layer_detect s of
                   None \<Rightarrow> (Inl AttributeError, s)
                 | Some b \<Rightarrow> if b then seqs [script v ''RESTORE_E_CURRENT'', pure_stm (\<lambda>s. s\<lparr>first_layer_detect := Some False\<rparr>)] s
                             else (Inr (), s))
              else (Inr (), s),
              pure_stm (\<lambda>s. s\<lparr>e_pos := last_position s ! 3, last_AI_z := last_position s ! 2\<rparr>)] s
      else (Inr (), s))"

definition real_size_offset :: "('f, 'w) genv \<Rightarrow> ('f, 'w) gmove \<Rightarrow> rat \<times> rat" where
  "real_size_offset v s =
     (if last_position s ! 2 > max_z s - 5 / 2 then (0, 0)
      else if size_flag s then size_offset v (x_size s) (y_size s) max_offset (last_position s ! 0) (last_position s ! 1)
      else (x_size_offset s, y_size_offset s))"

definition calibrate :: "('f, 'w) genv \<Rightarrow> ('f, 'w) gmove \<Rightarrow> ('f, 'w) gmove" where
  "calibrate v s =
     (let (ox, oy) = real_size_offset v s
      in s\<lparr>cali_position := (last_position s)[0 := last_position s ! 0 * (1 + ox), 1 := last_position s ! 1 * (1 + oy)]\<rparr>)"

definition set_feed :: "gcmd \<Rightarrow> ('f, 'w) gmove stm" where
  "set_feed g s =
     (if din ''F'' (gc_params g) then
        with_value (float_param ''F'' g) (\<lambda>x s.
          if x \<le> 0 then (Inl (AppError (''Invalid speed in '' @ quoted (gc_commandline g))), s)
          else (Inr (), s\<lparr>speed := x * speed_factor s, pre_speed := -1\<rparr>)) s
      else (Inr (), s))"

definition set_pace :: "('f, 'w) genv \<Rightarrow> gcmd \<Rightarrow> ('f, 'w) gmove \<Rightarrow> ('f, 'w) gmove" where
  "set_pace v g s =
     (if \<not> din ''E'' (gc_params g) \<and> workmode v (machine s) = 3 then
        (if speed s > pace_speed v (machine s) then s\<lparr>pre_speed := speed s, speed := pace_speed v (machine s)\<rparr> else s)
      else if pre_speed s > 0 then s\<lparr>speed := pre_speed s, pre_speed := -1\<rparr>
      else s)"

text \<open>The part of \<open>cmd_G1\<close> under its \<open>try\<close>.\<close>

definition g1_update :: "('f, 'w) genv \<Rightarrow> gcmd \<Rightarrow> ('f, 'w) gmove stm" where
  "g1_update v g = seqs (map (move_axis g) axes @
     [save_z v g, move_e g, pure_stm note_e, detect v, pure_stm (calibrate v), set_feed g, pure_stm (set_pace v g)])"

definition cmd_G1 :: "('f, 'w) genv \<Rightarrow> gcmd \<Rightarrow> ('f, 'w) gmove stm" where
  "cmd_G1 v g s =
     (case g1_update v g s of
        (Inl ValueError, s') \<Rightarrow> (Inl (AppError (''Unable to parse move '' @ quoted (gc_commandline g))), s')
      | (Inl e, s') \<Rightarrow> (Inl e, s')
      | (Inr _, s') \<Rightarrow> move_with_transform v (cali_position s') (speed s') s')"

definition set_first_layer_detect :: "('f, 'w) gmove \<Rightarrow> ('f, 'w) gmove" where
  "set_first_layer_detect s = s\<lparr>last_AI_z := 0, first_layer_detect := Some True\<rparr>"

section \<open>Coordinate manipulation\<close>

definition cmd_G20 :: "gcmd \<Rightarrow> ('f, 'w) gmove stm" where
  "cmd_G20 g s = (Inl (AppError ''Machine does not support G20 (inches) command''), s)"

definition cmd_M82 :: "('f, 'w) gmove \<Rightarrow> ('f, 'w) gmove" where "cmd_M82 s = s\<lparr>absolute_extrude := True\<rparr>"

definition cmd_M83 :: "('f, 'w) gmove \<Rightarrow> ('f, 'w) gmove" where "cmd_M83 s = s\<lparr>absolute_extrude := False\<rparr>"

definition cmd_G90 :: "('f, 'w) gmove \<Rightarrow> ('f, 'w) gmove" where "cmd_G90 s = s\<lparr>absolute_coord := True\<rparr>"

definition cmd_G91 :: "('f, 'w) gmove \<Rightarrow> ('f, 'w) gmove" where "cmd_G91 s = s\<lparr>absolute_coord := False\<rparr>"

definition g92_axis :: "nat \<times> rat option \<Rightarrow> ('f, 'w) gmove \<Rightarrow> ('f, 'w) gmove" where
  "g92_axis io s =
     (case snd io of
        None \<Rightarrow> s
      | Some x \<Rightarrow> s\<lparr>base_position := (base_position s)[fst io :=
          last_position s ! fst io - (if fst io = 3 then x * extrude_factor s else x)]\<rparr>)"

definition cmd_G92 :: "('f, 'w) genv \<Rightarrow> gcmd \<Rightarrow> ('f, 'w) gmove stm" where
  "cmd_G92 v g s =
     with_value (rmap (\<lambda>a. get_float v a (Default None) None g) [''X'', ''Y'', ''Z'', ''E'']) (\<lambda>offsets s.
       let s1 = fold g92_axis (List.enumerate 0 offsets) s
       in (Inr (), if offsets = [None, None, None, None] then s1\<lparr>base_position := last_position s1\<rparr> else s1)) s"

definition cmd_M114 :: "('f, 'w) genv \<Rightarrow> gcmd \<Rightarrow> ('f, 'w) gmove stm" where
  "cmd_M114 v g s =
     (let p = get_gcode_position s;
          line = concat (map2 (\<lambda>a x. a @ gfmt v x) [''X:'', '' Y:'', '' Z:'', '' E:''] p);
          s1 = s\<lparr>gm_output := gm_output s @ [line]\<rparr>
      in with_value (get_float v ''S'' (Default None) (Some (-1)) g) (\<lambda>_ s. (Inr (), s)) s1)"

definition cmd_M220 :: "('f, 'w) genv \<Rightarrow> gcmd \<Rightarrow> ('f, 'w) gmove stm" where
  "cmd_M220 v g s =
     with_value (get_float v ''S'' (Default (Some 100)) (Some 0) g) (\<lambda>x s.
       let f = the x / (60 * 100) in (Inr (), s\<lparr>speed := get_gcode_speed s * f, speed_factor := f\<rparr>)) s"

definition cmd_M221 :: "('f, 'w) genv \<Rightarrow> gcmd \<Rightarrow> ('f, 'w) gmove stm" where
  "cmd_M221 v g s =
     with_value (get_float v ''S'' (Default (Some 100)) (Some 0) g) (\<lambda>x s.
       let f = the x / 100; le = last_position s ! 3; ev = (le - base_position s ! 3) / extrude_factor s
       in (Inr (), s\<lparr>base_position := (base_position s)[3 := le - ev * f], extrude_factor := f\<rparr>)) s"

definition offset_param :: "('f, 'w) genv \<Rightarrow> gcmd \<Rightarrow> rat \<Rightarrow> string \<Rightarrow> rat option res" where
  "offset_param v g home axis =
     rbind (get_float v axis (Default None) None g) (\<lambda>o1.
       case o1 of
         Some x \<Rightarrow> Inr (Some x)
       | None \<Rightarrow> rbind (get_float v (axis @ ''_ADJUST'') (Default None) None g) (\<lambda>o2. Inr (map_option (\<lambda>x. x + home) o2)))"

definition offset_axis :: "('f, 'w) genv \<Rightarrow> gcmd \<Rightarrow> nat \<times> string \<Rightarrow> rat list \<times> ('f, 'w) gmove \<Rightarrow> unit res \<times> rat list \<times> ('f, 'w) gmove" where
  "offset_axis v g pa ds =
     (case ds of (d, s) \<Rightarrow>
      (case offset_param v g (homing_position s ! fst pa) (snd pa) of
         Inl e \<Rightarrow> (Inl e, d, s)
       | Inr None \<Rightarrow> (Inr (), d, s)
       | Inr (Some x) \<Rightarrow>
           let delta = x - homing_position s ! fst pa
           in (Inr (), d[fst pa := delta],
               s\<lparr>base_position := (base_position s)[fst pa := base_position s ! fst pa + delta],
                 homing_position := (homing_position s)[fst pa := x]\<rparr>)))"

definition get_int0 :: "string \<Rightarrow> gcmd \<Rightarrow> int option res" where
  "get_int0 name g = gc_get_int name (Default (Some 0)) None None g"

definition cmd_SET_GCODE_OFFSET :: "('f, 'w) genv \<Rightarrow> gcmd \<Rightarrow> ('f, 'w) gmove stm" where
  "cmd_SET_GCODE_OFFSET v g s =
     (case seqs (map (offset_axis v g) (axes @ [(3, ''E'')])) ([0, 0, 0, 0], s) of
        (Inl e, _, s1) \<Rightarrow> (Inl e, s1)
      | (Inr _, d, s1) \<Rightarrow>
          with_value (get_int0 ''MOVE'' g) (\<lambda>mv s.
            if mv \<noteq> Some 0 then
              with_value (get_float v ''MOVE_SPEED'' (Default (Some (speed s))) (Some 0) g) (\<lambda>sp s.
                let s2 = s\<lparr>last_position := map2 (+) (last_position s) d\<rparr>
                in move_with_transform v (last_position s2) (the sp) s2) s
            else (Inr (), s)) s1)"

definition cmd_SAVE_GCODE_STATE :: "gcmd \<Rightarrow> ('f, 'w) gmove stm" where
  "cmd_SAVE_GCODE_STATE g s =
     with_value (gc_get_str ''NAME'' (Default (Some ''default'')) g) (\<lambda>n s.
       (Inr (), s\<lparr>saved_states := dset (the n) (get_gcode_state s) (saved_states s)\<rparr>)) s"

text \<open>The move back of \<open>RESTORE_GCODE_STATE\<close>: first X and Y, then Z and E.\<close>

definition restore_move :: "('f, 'w) genv \<Rightarrow> saved_state \<Rightarrow> rat \<Rightarrow> ('f, 'w) gmove stm" where
  "restore_move v st sp s =
     (let position_xy = (sv_last_position st)[2 := last_position s ! 2, 3 := last_position s ! 3];
          s1 = s\<lparr>last_position := take 3 (sv_last_position st) @ drop 3 (last_position s)\<rparr>
      in case toolhead v of
           None \<Rightarrow> (Inl AttributeError, s1)
         | Some _ \<Rightarrow>
             let mz = axes_max_z v (machine s1);
                 s2 = (if last_position s1 ! 2 \<ge> mz then s1\<lparr>last_position := (last_position s1)[2 := mz, 1 := 0, 0 := 0]\<rparr> else s1);
                 top = mz - homing_position s2 ! 2
             in seqs [\<lambda>s. if last_position s ! 2 < top - 60 then move_with_transform v position_xy sp s else (Inr (), s),
                      \<lambda>s. if last_position s ! 2 < top - 1 then move_with_transform v (last_position s) sp s else (Inr (), s)] s2)"

definition restore_state :: "saved_state \<Rightarrow> ('f, 'w) gmove \<Rightarrow> ('f, 'w) gmove" where
  "restore_state st s =
     (let s1 = s\<lparr>absolute_coord := sv_absolute_coord st, absolute_extrude := sv_absolute_extrude st,
                 base_position := sv_base_position st, homing_position := sv_homing_position st, speed := sv_speed st,
                 extrude_factor := sv_extrude_factor st\<rparr>;
          e_diff = last_position s1 ! 3 - sv_last_position st ! 3
      in s1\<lparr>base_position := (base_position s1)[3 := base_position s1 ! 3 + e_diff]\<rparr>)"

definition cmd_RESTORE_GCODE_STATE :: "('f, 'w) genv \<Rightarrow> gcmd \<Rightarrow> ('f, 'w) gmove stm" where
  "cmd_RESTORE_GCODE_STATE v g s =
     with_value (gc_get_str ''NAME'' (Default (Some ''default'')) g) (\<lambda>n s.
       case dget (saved_states s) (the n) of
         None \<Rightarrow> (Inl (AppError (''Unknown g-code state: '' @ the n)), s)
       | Some st \<Rightarrow>
           with_value (get_int0 ''MOVE'' g) (\<lambda>mv s.
             if mv \<noteq> Some 0 then
               with_value (get_float v ''MOVE_SPEED'' (Default (Some (speed s))) (Some 0) g) (\<lambda>sp s. restore_move v st (the sp) s) s
             else (Inr (), s)) (restore_state st s)) s"

section \<open>Size calibration\<close>

definition parse_sizes :: "string \<Rightarrow> rat list option" where
  "parse_sizes t = (case rmap (\<lambda>p. res_of ValueError (read_num p)) (split_on (CHR '','') t) of Inl _ \<Rightarrow> None | Inr vs \<Rightarrow> Some vs)"

text \<open>Whether the parameter was given, when it was well formed.\<close>

definition size_param :: "string \<Rightarrow> gcmd \<Rightarrow> ('f, 'w) gmove \<Rightarrow> bool res \<times> ('f, 'w) gmove" where
  "size_param name g s =
     (case dget (gc_params g) name of
        None \<Rightarrow> (Inr False, s)
      | Some t \<Rightarrow>
          (case parse_sizes t of
             None \<Rightarrow> (Inl (AppError (''Unable to parse parameter '' @ quoted name)), s)
           | Some ps \<Rightarrow>
               if length ps \<noteq> 6 then (Inl (AppError (''Parameter '' @ quoted name @ '' must have 6 values'')), s)
               else (Inr True, s\<lparr>size_data := dset name ps (size_data s)\<rparr>)))"

definition new_offset :: "rat \<Rightarrow> rat \<Rightarrow> rat" where
  "new_offset sz off = ((70 - sz) / 70 + 1) * (1 + off) - 1"

text \<open>The options it sets in the section \<open>printer\<close> of the configuration, before they are formatted.\<close>

definition cmd_SIZE_ANALYZE :: "gcmd \<Rightarrow> ('f, 'w) gmove \<Rightarrow> (string \<times> rat list) list res \<times> ('f, 'w) gmove" where
  "cmd_SIZE_ANALYZE g s =
     (case size_param ''X'' g s of
        (Inl e, s1) \<Rightarrow> (Inl e, s1)
      | (Inr input_x, s1) \<Rightarrow>
          (case size_param ''Y'' g s1 of
             (Inl e, s2) \<Rightarrow> (Inl e, s2)
           | (Inr input_y, s2) \<Rightarrow>
               let xs = dget_or (size_data s2) ''X'' [];
                   fix = (\<lambda>l. l[3 := l ! 3 - 1 / 10]);
                   s3 = (if length xs = 6 \<and> input_x then s2\<lparr>size_data := dset ''X'' (fix xs) (size_data s2)\<rparr> else s2);
                   ys = dget_or (size_data s3) ''Y'' []
               in (Inr ((if length xs = 6 \<and> input_x then [(''x_offset'', map2 new_offset (fix xs) (x_offset s3))] else []) @
                        (if length ys = 6 \<and> input_y then [(''y_offset'', map2 new_offset ys (y_offset s3))] else [])), s3)))"

section \<open>The invariant\<close>

text \<open>
  \<open>pace\<close> says that the speed of silent moves, an option without a bound, is positive: only then do
  the speeds stay positive.
\<close>

definition saved_wf :: "bool \<Rightarrow> saved_state \<Rightarrow> bool" where
  "saved_wf pace st \<longleftrightarrow> length (sv_base_position st) = 4 \<and> length (sv_last_position st) = 4 \<and> length (sv_homing_position st) = 4 \<and>
     0 < sv_extrude_factor st \<and> (pace \<longrightarrow> 0 < sv_speed st)"

definition gm_wf :: "bool \<Rightarrow> ('f, 'w) gmove \<Rightarrow> bool" where
  "gm_wf pace s \<longleftrightarrow> length (last_position s) = 4 \<and> length (base_position s) = 4 \<and> length (homing_position s) = 4 \<and>
     0 < extrude_factor s \<and> 0 < speed_factor s \<and> (pace \<longrightarrow> 0 < speed s) \<and>
     (\<forall>n st. dget (saved_states s) n = Some st \<longrightarrow> saved_wf pace st)"

definition keeps :: "('s \<Rightarrow> bool) \<Rightarrow> 's stm \<Rightarrow> bool" where
  "keeps P f \<longleftrightarrow> (\<forall>s. P s \<longrightarrow> P (snd (f s)))"

lemma keepsI: "(\<And>s. P s \<Longrightarrow> P (snd (f s))) \<Longrightarrow> keeps P f"
  by (simp add: keeps_def)

lemma keepsD: "keeps P f \<Longrightarrow> P s \<Longrightarrow> P (snd (f s))"
  by (simp add: keeps_def)

lemma keeps_seqs_Nil: "keeps P (seqs [])"
  by (simp add: keeps_def)

lemma keeps_seqs_Cons: "keeps P f \<Longrightarrow> keeps P (seqs fs) \<Longrightarrow> keeps P (seqs (f # fs))"
proof (rule keepsI)
  fix s assume "keeps P f" "keeps P (seqs fs)" "P s"
  then show "P (snd (seqs (f # fs) s))"
    using keepsD [of P f s] keepsD [of P "seqs fs" "snd (f s)"] by (cases "f s"; cases "fst (f s)") simp_all
qed

lemma keeps_if: "keeps P f \<Longrightarrow> keeps P g \<Longrightarrow> keeps P (\<lambda>s. if b s then f s else g s)"
  by (simp add: keeps_def)

lemma keeps_skip: "keeps P (\<lambda>s. (r, s))"
  by (simp add: keeps_def)

lemmas keeps_rules = keeps_seqs_Nil keeps_seqs_Cons keeps_if keeps_skip

lemma keeps_with_value [inv_intros]: "(\<And>v. r = Inr v \<Longrightarrow> keeps P (f v)) \<Longrightarrow> keeps P (with_value r f)"
  by (cases r) (auto simp: keeps_def with_value_def)

lemma keeps_pure [inv_intros]: "(\<And>s. P s \<Longrightarrow> P (f s)) \<Longrightarrow> keeps P (pure_stm f)"
  by (simp add: keeps_def pure_stm_def)

text \<open>The parameters do what the machine does: positions have four coordinates, scripts use the commands.\<close>

definition env_ok :: "bool \<Rightarrow> ('f, 'w) genv \<Rightarrow> bool" where
  "env_ok pace v \<longleftrightarrow> (\<forall>f w. length (tposition v f w) = 4) \<and> (pace \<longrightarrow> (\<forall>w. 0 < pace_speed v w)) \<and> (\<forall>c. keeps (gm_wf pace) (script v c))"

lemma reset_last_position_wf [inv_intros]: "env_ok pace v \<Longrightarrow> gm_wf pace s \<Longrightarrow> gm_wf pace (reset_last_position v s)"
  by (auto simp: reset_last_position_def gm_wf_def env_ok_def split: option.split)

lemma gm_wf_move [simp]: "gm_wf pace (snd (move_with_transform v p sp s)) = gm_wf pace s"
  by (auto simp: move_with_transform_def gm_wf_def split: option.split prod.split)

lemma gm_wf_simps:
  "gm_wf pace s \<Longrightarrow> length p = 4 \<Longrightarrow> gm_wf pace (s\<lparr>last_position := p\<rparr>)"
  "gm_wf pace s \<Longrightarrow> length p = 4 \<Longrightarrow> gm_wf pace (s\<lparr>base_position := p\<rparr>)"
  "gm_wf pace (s\<lparr>z_pos := q\<rparr>) = gm_wf pace s" "gm_wf pace (s\<lparr>cali_position := p\<rparr>) = gm_wf pace s" "gm_wf pace (s\<lparr>e_pos := q\<rparr>) = gm_wf pace s"
  "gm_wf pace (s\<lparr>first_layer_detect := fl\<rparr>) = gm_wf pace s" "gm_wf pace (s\<lparr>last_AI_z := q\<rparr>) = gm_wf pace s"
  by (auto simp: gm_wf_def)

lemma gm_wf_lengths: "gm_wf pace s \<Longrightarrow> length (last_position s) = 4" "gm_wf pace s \<Longrightarrow> length (base_position s) = 4"
  "gm_wf pace s \<Longrightarrow> length (homing_position s) = 4"
  by (simp_all add: gm_wf_def)

lemma keeps_move_axis: "keeps (gm_wf pace) (move_axis g pa)"
  by (rule keepsI) (auto simp: move_axis_def with_value_def pure_stm_def gm_wf_def split: sum.split)

lemma env_script: "env_ok pace v \<Longrightarrow> keeps (gm_wf pace) (script v c)"
  by (simp add: env_ok_def)

lemma keeps_save_z: "env_ok pace v \<Longrightarrow> keeps (gm_wf pace) (save_z v g)"
  unfolding save_z_def [abs_def] by (intro keeps_rules keeps_pure env_script) (simp_all add: gm_wf_simps)

lemma keeps_move_e: "keeps (gm_wf pace) (move_e g)"
  by (rule keepsI) (auto simp: move_e_def with_value_def gm_wf_def Let_def split: sum.split)

lemma keeps_detect: "env_ok pace v \<Longrightarrow> keeps (gm_wf pace) (detect v)"
proof -
  assume v: "env_ok pace v"
  have r: "keeps (gm_wf pace) (seqs [script v ''RESTORE_E_CURRENT'', pure_stm (\<lambda>s. s\<lparr>first_layer_detect := Some False\<rparr>)])"
    using v by (intro keeps_rules keeps_pure env_script) (simp_all add: gm_wf_simps)
  have "keeps (gm_wf pace) (\<lambda>s. case first_layer_detect s of None \<Rightarrow> (Inl AttributeError, s)
      | Some b \<Rightarrow> if b then seqs [script v ''RESTORE_E_CURRENT'', pure_stm (\<lambda>s. s\<lparr>first_layer_detect := Some False\<rparr>)] s
                  else (Inr (), s))"
    using keepsD [OF r] by (intro keepsI) (auto split: option.split simp del: seqs.simps)
  then show ?thesis
    unfolding detect_def [abs_def] by (intro keeps_rules keeps_pure) (simp_all add: gm_wf_simps)
qed

lemma keeps_set_feed: "keeps (gm_wf pace) (set_feed g)"
  by (rule keepsI) (auto simp: set_feed_def with_value_def gm_wf_def split: sum.split)

lemma set_pace_wf: "env_ok pace v \<Longrightarrow> gm_wf pace s \<Longrightarrow> gm_wf pace (set_pace v g s)"
  by (auto simp: set_pace_def gm_wf_def env_ok_def)

lemma keeps_g1_update: "env_ok pace v \<Longrightarrow> keeps (gm_wf pace) (g1_update v g)"
  unfolding g1_update_def axes_def list.map append.simps
  by (intro keeps_rules keeps_move_axis keeps_save_z keeps_move_e keeps_detect keeps_set_feed keeps_pure set_pace_wf)
    (simp_all add: note_e_def gm_wf_simps calibrate_def Let_def split: prod.split)

lemma keeps_cmd_G1: "env_ok pace v \<Longrightarrow> keeps (gm_wf pace) (cmd_G1 v g)"
proof (rule keepsI)
  fix s :: "('a, 'b) gmove" assume "env_ok pace v" "gm_wf pace s"
  from keepsD [OF keeps_g1_update [OF this(1)] this(2), of g] show "gm_wf pace (snd (cmd_G1 v g s))"
    unfolding cmd_G1_def by (cases "g1_update v g s") (auto split: sum.split exc.split)
qed

lemma get_float_above: "get_float v n (Default d) (Some lo) g = Inr o1 \<Longrightarrow> (\<forall>x. d = Some x \<longrightarrow> lo < x) \<Longrightarrow> d \<noteq> None \<Longrightarrow> \<exists>x. o1 = Some x \<and> lo < x"
  by (auto simp: get_float_def gc_get_def split: option.splits if_splits) (metis not_le)+

lemma g92_axis_None [simp]: "g92_axis (i, None) s = s"
  by (simp add: g92_axis_def)

lemma g92_axis_wf: "gm_wf pace s \<Longrightarrow> gm_wf pace (g92_axis io s)"
  by (auto simp: g92_axis_def gm_wf_def split: option.split)

lemma fold_wf: "(\<And>x s. gm_wf pace s \<Longrightarrow> gm_wf pace (f x s)) \<Longrightarrow> gm_wf pace s \<Longrightarrow> gm_wf pace (fold f xs s)"
  by (induction xs arbitrary: s) auto

lemma keeps_cmd_G92: "keeps (gm_wf pace) (cmd_G92 v g)"
  unfolding cmd_G92_def [abs_def]
proof (intro keepsI)
  fix s :: "('a, 'b) gmove" assume s: "gm_wf pace s"
  have f: "gm_wf pace (fold g92_axis xs s)" for xs by (rule fold_wf [OF g92_axis_wf s])
  from f show "gm_wf pace (snd (with_value (rmap (\<lambda>a. get_float v a (Default None) None g) [''X'', ''Y'', ''Z'', ''E'']) (\<lambda>offsets s.
       let s1 = fold g92_axis (List.enumerate 0 offsets) s
       in (Inr (), if offsets = [None, None, None, None] then s1\<lparr>base_position := last_position s1\<rparr> else s1)) s))"
    using s by (auto simp: with_value_def Let_def gm_wf_simps gm_wf_lengths split: sum.split simp del: rmap.simps)
qed

lemma keeps_cmd_M220: "keeps (gm_wf pace) (cmd_M220 v g)"
  using get_float_above [of v "''S''" "Some 100" 0 g]
  by (intro keepsI) (auto simp: cmd_M220_def with_value_def get_gcode_speed_def Let_def gm_wf_def split: sum.split)

lemma keeps_cmd_M221: "keeps (gm_wf pace) (cmd_M221 v g)"
  using get_float_above [of v "''S''" "Some 100" 0 g]
  by (intro keepsI) (auto simp: cmd_M221_def with_value_def Let_def gm_wf_def split: sum.split)

lemma keeps_offset_axis: "keeps (\<lambda>(d, s). gm_wf pace s) (offset_axis v g pa)"
  by (rule keepsI) (auto simp: offset_axis_def Let_def gm_wf_def split: sum.splits option.splits)

lemma keeps_cmd_SET_GCODE_OFFSET: "keeps (gm_wf pace) (cmd_SET_GCODE_OFFSET v g)"
proof (rule keepsI)
  fix s :: "('a, 'b) gmove" assume s: "gm_wf pace s"
  let ?o = "seqs (map (offset_axis v g) (axes @ [(3, ''E'')])) ([0, 0, 0, 0], s)"
  obtain r d s1 where o: "?o = (r, d, s1)" by (cases ?o) auto
  have k: "keeps (\<lambda>(d, s). gm_wf pace s) (seqs (map (offset_axis v g) (axes @ [(3, ''E'')])))"
    unfolding axes_def append.simps list.map by (intro keeps_rules keeps_offset_axis)
  have s1: "gm_wf pace s1" using keepsD [OF k, of "([0, 0, 0, 0], s)"] s unfolding o by simp
  have l: "length d = 4"
  proof -
    have "keeps (\<lambda>(d, s :: ('a, 'b) gmove). length d = 4) (offset_axis v g pa)" for pa
      by (rule keepsI) (auto simp: offset_axis_def Let_def split: sum.splits option.splits)
    then have "keeps (\<lambda>(d, s :: ('a, 'b) gmove). length d = 4) (seqs (map (offset_axis v g) (axes @ [(3, ''E'')])))"
      unfolding axes_def append.simps list.map by (intro keeps_rules)
    from keepsD [OF this, of "([0, 0, 0, 0], s)"] show ?thesis unfolding o by simp
  qed
  show "gm_wf pace (snd (cmd_SET_GCODE_OFFSET v g s))"
    unfolding cmd_SET_GCODE_OFFSET_def o using s1 l
    by (auto simp: with_value_def Let_def gm_wf_simps gm_wf_lengths split: sum.split)
qed

lemma keeps_cmd_SAVE: "keeps (gm_wf pace) (cmd_SAVE_GCODE_STATE g)"
  by (rule keepsI) (auto simp: cmd_SAVE_GCODE_STATE_def with_value_def gm_wf_def saved_wf_def get_gcode_state_def split: sum.split)

lemma restore_state_wf: "gm_wf pace s \<Longrightarrow> saved_wf pace st \<Longrightarrow> gm_wf pace (restore_state st s)"
  by (auto simp: restore_state_def Let_def gm_wf_def saved_wf_def)

lemma restore_move_wf: "gm_wf pace s \<Longrightarrow> saved_wf pace st \<Longrightarrow> gm_wf pace (snd (restore_move v st sp s))"
proof -
  assume s: "gm_wf pace s" and st: "saved_wf pace st"
  have k: "keeps (gm_wf pace) (seqs [\<lambda>s. if last_position s ! 2 < a then move_with_transform v p sp s else (Inr (), s),
                      \<lambda>s. if last_position s ! 2 < b then move_with_transform v (last_position s) sp s else (Inr (), s)])" for a b p
    by (intro keeps_rules keepsI) simp_all
  have "gm_wf pace (s\<lparr>last_position := take 3 (sv_last_position st) @ drop 3 (last_position s)\<rparr>)"
    "gm_wf pace (s\<lparr>last_position := (take 3 (sv_last_position st) @ drop 3 (last_position s))[2 := x, Suc 0 := 0, 0 := 0]\<rparr>)" for x
    using s st by (auto simp: gm_wf_def saved_wf_def)
  then show ?thesis using keepsD [OF k]
    by (auto simp: restore_move_def Let_def gm_wf_simps gm_wf_lengths split: option.split simp del: seqs.simps)
qed

lemma keeps_cmd_RESTORE: "keeps (gm_wf pace) (cmd_RESTORE_GCODE_STATE v g)"
proof (rule keepsI)
  fix s :: "('a, 'b) gmove" assume s: "gm_wf pace s"
  then have "saved_wf pace st" if "dget (saved_states s) n = Some st" for n st using that by (auto simp: gm_wf_def)
  with s show "gm_wf pace (snd (cmd_RESTORE_GCODE_STATE v g s))"
    by (auto simp: cmd_RESTORE_GCODE_STATE_def with_value_def restore_state_wf restore_move_wf split: sum.split option.split)
qed

section \<open>Commands and events\<close>

inductive gm_step :: "('f, 'w) genv \<Rightarrow> ('f, 'w) gmove \<Rightarrow> ('f, 'w) gmove \<Rightarrow> bool" for v where
  G1: "gm_step v s (snd (cmd_G1 v g s))"
| mode: "f \<in> {cmd_M82, cmd_M83, cmd_G90, cmd_G91} \<Longrightarrow> gm_step v s (f s)"
| G92: "gm_step v s (snd (cmd_G92 v g s))"
| M220: "gm_step v s (snd (cmd_M220 v g s))"
| M221: "gm_step v s (snd (cmd_M221 v g s))"
| offset: "gm_step v s (snd (cmd_SET_GCODE_OFFSET v g s))"
| save: "gm_step v s (snd (cmd_SAVE_GCODE_STATE g s))"
| restore: "gm_step v s (snd (cmd_RESTORE_GCODE_STATE v g s))"
| ready: "gm_step v s (snd (gm_handle_ready v s))"
| shutdown: "gm_step v s (gm_handle_shutdown s)"
| reset: "gm_step v s (reset_last_position v s)"
| activate: "gm_step v s (handle_activate_extruder v s)"
| home: "gm_step v s (handle_home_rails_end v axs s)"
| M114: "gm_step v s (snd (cmd_M114 v g s))"
| G20: "gm_step v s (snd (cmd_G20 g s))"
| size_analyze: "gm_step v s (snd (cmd_SIZE_ANALYZE g s))"
| first_layer: "gm_step v s (set_first_layer_detect s)"
| transform: "set_move_transform v t force s = Inr (old, s') \<Longrightarrow> gm_step v s s'"
| outside: "gm_step v s (s\<lparr>machine := w\<rparr>)"

text \<open>
  The reachable states, with the states other modules took by \<open>get_gcode_state\<close> on the way: they may
  put any of them back later as a saved state.
\<close>

inductive gm_reach :: "('f, 'w) genv \<Rightarrow> ('f, 'w) gmove \<Rightarrow> ('f, 'w) gmove \<Rightarrow> saved_state set \<Rightarrow> bool" for v s0 where
  start: "gm_reach v s0 s0 {}"
| step: "gm_reach v s0 s T \<Longrightarrow> gm_step v s s' \<Longrightarrow> gm_reach v s0 s' T"
| taken: "gm_reach v s0 s T \<Longrightarrow> gm_reach v s0 s (insert (get_gcode_state s) T)"
| put_back: "gm_reach v s0 s T \<Longrightarrow> st \<in> T \<Longrightarrow> gm_reach v s0 (set_SAVE_GCODE_STATE n st s) T"

lemma gm_wf_frame:
  "gm_wf pace (s\<lparr>machine := w\<rparr>) = gm_wf pace s" "gm_wf pace (s\<lparr>gm_ready := b\<rparr>) = gm_wf pace s" "gm_wf pace (s\<lparr>move_with := mw\<rparr>) = gm_wf pace s"
  "gm_wf pace (s\<lparr>position_with := pw\<rparr>) = gm_wf pace s" "gm_wf pace (s\<lparr>move_transform := mt\<rparr>) = gm_wf pace s" "gm_wf pace (s\<lparr>pre_speed := q\<rparr>) = gm_wf pace s"
  "gm_wf pace (s\<lparr>max_z := q\<rparr>) = gm_wf pace s" "gm_wf pace (s\<lparr>absolute_coord := b\<rparr>) = gm_wf pace s" "gm_wf pace (s\<lparr>absolute_extrude := b\<rparr>) = gm_wf pace s"
  by (simp_all add: gm_wf_def)

lemma handle_ready_wf: "env_ok pace v \<Longrightarrow> gm_wf pace s \<Longrightarrow> gm_wf pace (snd (gm_handle_ready v s))"
  by (auto simp: gm_handle_ready_def Let_def gm_wf_frame reset_last_position_wf split: option.split)

lemma handle_home_wf: "env_ok pace v \<Longrightarrow> gm_wf pace s \<Longrightarrow> gm_wf pace (handle_home_rails_end v axs s)"
proof -
  assume "env_ok pace v" "gm_wf pace s"
  then have r: "gm_wf pace (reset_last_position v s)" by (rule reset_last_position_wf)
  have "length (fold (\<lambda>a b. b[a := h ! a]) axs b) = length b" for h b :: "rat list"
    by (induction axs arbitrary: b) simp_all
  then show ?thesis using r by (simp add: handle_home_rails_end_def Let_def gm_wf_simps gm_wf_frame gm_wf_lengths)
qed

lemma handle_activate_wf: "env_ok pace v \<Longrightarrow> gm_wf pace s \<Longrightarrow> gm_wf pace (handle_activate_extruder v s)"
  using reset_last_position_wf [of pace v s] by (auto simp: handle_activate_extruder_def Let_def gm_wf_def)

lemma size_param_wf: "gm_wf pace (snd (size_param n g s)) = gm_wf pace s"
  by (simp add: size_param_def gm_wf_def split: option.split)

lemma cmd_SIZE_ANALYZE_wf: "gm_wf pace s \<Longrightarrow> gm_wf pace (snd (cmd_SIZE_ANALYZE g s))"
proof -
  assume s: "gm_wf pace s"
  obtain a s1 where a: "size_param ''X'' g s = (a, s1)" by (cases "size_param ''X'' g s")
  obtain b s2 where b: "size_param ''Y'' g s1 = (b, s2)" by (cases "size_param ''Y'' g s1")
  have "gm_wf pace s1" "gm_wf pace s2"
    using s size_param_wf [of pace "''X''" g s] size_param_wf [of pace "''Y''" g s1] by (simp_all add: a b)
  then show ?thesis by (auto simp: cmd_SIZE_ANALYZE_def a b Let_def gm_wf_def split: sum.split)
qed

lemma gm_step_wf [inv_intros]: "gm_step v s s' \<Longrightarrow> env_ok pace v \<Longrightarrow> gm_wf pace s \<Longrightarrow> gm_wf pace s'"
proof (induction rule: gm_step.induct)
  case (mode f s)
  then show ?case by (auto simp: cmd_M82_def cmd_M83_def cmd_G90_def cmd_G91_def gm_wf_frame)
next
  case (transform t force s old s')
  then show ?case by (auto simp: set_move_transform_def gm_wf_frame split: if_splits)
next
  case (M114 s g)
  then show ?case by (auto simp: cmd_M114_def with_value_def Let_def gm_wf_def split: sum.split)
next
  case (size_analyze s g)
  then show ?case by (simp add: cmd_SIZE_ANALYZE_wf)
qed (simp_all add: cmd_G20_def set_first_layer_detect_def gm_wf_simps keepsD [OF keeps_cmd_G1] keepsD [OF keeps_cmd_G92] keepsD [OF keeps_cmd_M220] keepsD [OF keeps_cmd_M221]
    keepsD [OF keeps_cmd_SET_GCODE_OFFSET] keepsD [OF keeps_cmd_SAVE] keepsD [OF keeps_cmd_RESTORE] handle_ready_wf
    gm_handle_shutdown_def gm_wf_frame reset_last_position_wf handle_activate_wf handle_home_wf)

lemma gm_reach_wf:
  "gm_reach v s0 s T \<Longrightarrow> env_ok pace v \<Longrightarrow> gm_wf pace s0 \<Longrightarrow> gm_wf pace s \<and> (\<forall>st \<in> T. saved_wf pace st)"
proof (induction rule: gm_reach.induct)
  case (step s T s')
  then show ?case using gm_step_wf by blast
next
  case (taken s T)
  then have "gm_wf pace s" "\<forall>st \<in> T. saved_wf pace st" by blast+
  moreover from this(1) have "saved_wf pace (get_gcode_state s)" by (simp add: gm_wf_def saved_wf_def get_gcode_state_def)
  ultimately show ?case by simp
next
  case (put_back s T st n)
  then have "gm_wf pace s" "\<forall>st \<in> T. saved_wf pace st" "saved_wf pace st" by blast+
  then show ?case by (simp add: set_SAVE_GCODE_STATE_def gm_wf_def)
qed simp


section \<open>What a command does to the coordinates\<close>

definition num_param :: "gcmd \<Rightarrow> string \<Rightarrow> rat option" where
  "num_param g a = (case dget (gc_params g) a of None \<Rightarrow> None | Some t \<Rightarrow> read_num t)"

definition axis_name :: "nat \<Rightarrow> string" where
  "axis_name i = [''X'', ''Y'', ''Z'', ''E''] ! i"

text \<open>Every number the command gives parses, and its feed rate is positive.\<close>

definition good_move :: "gcmd \<Rightarrow> bool" where
  "good_move g \<longleftrightarrow> (\<forall>a \<in> {''X'', ''Y'', ''Z'', ''E'', ''F''}. din a (gc_params g) \<longrightarrow> num_param g a \<noteq> None) \<and>
     (\<forall>x. num_param g ''F'' = Some x \<longrightarrow> 0 < x)"

lemma float_param_num:
  assumes "good_move g" "a \<in> {''X'', ''Y'', ''Z'', ''E'', ''F''}" "din a (gc_params g)"
  obtains x where "float_param a g = Inr x" "num_param g a = Some x"
proof -
  have "num_param g a \<noteq> None" using assms by (auto simp: good_move_def)
  then obtain x where x: "num_param g a = Some x" by auto
  then have "float_param a g = Inr x"
    by (auto simp: num_param_def float_param_def split: option.splits)
  with x that show thesis by blast
qed

lemma num_param_absent: "\<not> din a (gc_params g) \<Longrightarrow> num_param g a = None"
  by (simp add: num_param_def din_def)

definition axis_target :: "('f, 'w) gmove \<Rightarrow> gcmd \<Rightarrow> nat \<Rightarrow> rat" where
  "axis_target s g i =
     (case num_param g (axis_name i) of
        None \<Rightarrow> last_position s ! i
      | Some x \<Rightarrow>
          let d = (if i = 3 then x * extrude_factor s else x) in
          if absolute_coord s \<and> (i = 3 \<longrightarrow> absolute_extrude s) then d + base_position s ! i else last_position s ! i + d)"

definition g1_target :: "('f, 'w) gmove \<Rightarrow> gcmd \<Rightarrow> rat list" where
  "g1_target s g = map (axis_target s g) [0, 1, 2, 3]"

lemma move_axis_target:
  assumes "good_move g" "p < 3"
  shows "move_axis g (p, axis_name p) s = (Inr (), s\<lparr>last_position := (last_position s)[p := axis_target s g p]\<rparr>)"
proof (cases "din (axis_name p) (gc_params g)")
  case True
  have "axis_name p \<in> {''X'', ''Y'', ''Z'', ''E'', ''F''}" using assms(2) by (auto simp: axis_name_def less_Suc_eq numeral_3_eq_3)
  from float_param_num [OF assms(1) this True] obtain x where x: "float_param (axis_name p) g = Inr x" "num_param g (axis_name p) = Some x" .
  with True assms(2) show ?thesis
    by (simp add: move_axis_def with_value_def pure_stm_def axis_target_def)
next
  case False
  then show ?thesis by (simp add: move_axis_def axis_target_def num_param_absent)
qed

lemma move_e_target:
  assumes "good_move g"
  shows "move_e g s = (Inr (), s\<lparr>last_position := (last_position s)[3 := axis_target s g 3]\<rparr>)"
proof (cases "din ''E'' (gc_params g)")
  case True
  from float_param_num [OF assms _ True] obtain x where x: "float_param ''E'' g = Inr x" "num_param g ''E'' = Some x" by auto
  with True show ?thesis
    by (simp add: move_e_def with_value_def axis_target_def axis_name_def Let_def)
next
  case False
  then show ?thesis by (simp add: move_e_def axis_target_def axis_name_def num_param_absent)
qed

lemma axis_target_frame:
  "p ! i = last_position s ! i \<Longrightarrow> axis_target (s\<lparr>last_position := p\<rparr>) g i = axis_target s g i"
  "axis_target (s\<lparr>z_pos := q\<rparr>) g i = axis_target s g i"
  "axis_target (s\<lparr>machine := w\<rparr>) g i = axis_target s g i"
  by (simp_all add: axis_target_def Let_def split: option.split)

lemma move_axes_target:
  assumes "good_move g" "length (last_position s) = 4"
  shows "seqs (map (move_axis g) axes @ fs) s =
    seqs fs (s\<lparr>last_position := [axis_target s g 0, axis_target s g 1, axis_target s g 2, last_position s ! 3]\<rparr>)"
proof -
  have ax: "axes = [(0, axis_name 0), (1, axis_name 1), (2, axis_name 2)]" by (simp add: axes_def axis_name_def)
  obtain a b c d where l: "last_position s = [a, b, c, d]"
    using assms(2) by (auto simp: numeral_eq_Suc length_Suc_conv)
  show ?thesis unfolding ax list.map append.simps seqs.simps(2)
    by (simp add: l axis_target_frame move_axis_target [OF assms(1)])
qed

text \<open>
  A move of a print may run two scripts: they may change the rest of the machine, return normally and
  leave the coordinates alone. \<open>first_layer_detect\<close> has been set, which homing does.
\<close>

definition scripts_run :: "('f, 'w) genv \<Rightarrow> bool" where
  "scripts_run v \<longleftrightarrow> (\<forall>c \<in> {''F103'', ''RESTORE_E_CURRENT''}. \<forall>s. \<exists>w. script v c s = (Inr (), s\<lparr>machine := w\<rparr>))"

definition prints_well :: "('f, 'w) genv \<Rightarrow> ('f, 'w) gmove \<Rightarrow> bool" where
  "prints_well v s \<longleftrightarrow> is_printing v (machine s) \<longrightarrow> scripts_run v \<and> first_layer_detect s \<noteq> None"

lemma scripts_runD: "scripts_run v \<Longrightarrow> c \<in> {''F103'', ''RESTORE_E_CURRENT''} \<Longrightarrow> \<exists>w. script v c s = (Inr (), s\<lparr>machine := w\<rparr>)"
  by (auto simp: scripts_run_def)

lemma save_z_run:
  assumes "prints_well v s"
  obtains w q where "save_z v g s = (Inr (), s\<lparr>z_pos := q, machine := w\<rparr>)" "\<not> is_printing v (machine s) \<longrightarrow> w = machine s"
proof (cases "din ''Z'' (gc_params g)")
  case False
  then have "save_z v g s = (Inr (), s\<lparr>z_pos := z_pos s, machine := machine s\<rparr>)" by (simp add: save_z_def)
  then show thesis by (rule that) simp
next
  case True
  show thesis
  proof (cases "last_position s ! 2 \<ge> z_pos s + 9 / 100 \<and> is_printing v (machine s) \<and> \<not> is_paused v (machine s)")
    case p: True
    then obtain w where "script v ''F103'' s = (Inr (), s\<lparr>machine := w\<rparr>)"
      using assms scripts_runD [of v "''F103''" s] by (auto simp: prints_well_def)
    with True p have "save_z v g s = (Inr (), s\<lparr>z_pos := last_position s ! 2, machine := w\<rparr>)"
      by (simp add: save_z_def pure_stm_def)
    then show thesis by (rule that) (use p in simp)
  next
    case False
    with True have "save_z v g s = (Inr (), s\<lparr>z_pos := last_position s ! 2, machine := machine s\<rparr>)"
      unfolding save_z_def by (simp only: if_True if_False seqs.simps pure_stm_def prod.case sum.case) simp
    then show thesis by (rule that) simp
  qed
qed

lemma detect_run:
  assumes "prints_well v s"
  obtains w z e fl where "detect v s = (Inr (), s\<lparr>first_layer_detect := fl, e_pos := e, last_AI_z := z, machine := w\<rparr>)"
    "\<not> is_printing v (machine s) \<longrightarrow> w = machine s"
proof (cases "last_position s ! 3 - e_pos s > 70 \<and> last_position s ! 3 > 100 \<and> last_position s ! 2 - last_AI_z s \<ge> 1 / 10 \<and>
    is_printing v (machine s)")
  case False
  then have "detect v s = (Inr (), s\<lparr>first_layer_detect := first_layer_detect s, e_pos := e_pos s, last_AI_z := last_AI_z s,
      machine := machine s\<rparr>)" by (auto simp: detect_def)
  then show thesis by (rule that) simp
next
  case True
  then obtain b w where b: "first_layer_detect s = Some b" and w: "script v ''RESTORE_E_CURRENT'' s = (Inr (), s\<lparr>machine := w\<rparr>)"
    using assms scripts_runD [of v "''RESTORE_E_CURRENT''" s] by (auto simp: prints_well_def)
  define run where "run \<longleftrightarrow> last_AI_z s \<ge> 2 / 10 \<and> b"
  have "detect v s = (Inr (), s\<lparr>first_layer_detect := (if run then Some False else Some b), e_pos := last_position s ! 3,
      last_AI_z := last_position s ! 2, machine := (if run then w else machine s)\<rparr>)"
    using True b by (simp add: detect_def run_def w pure_stm_def)
  then show thesis by (rule that) (use True in simp)
qed

lemma set_feed_good:
  assumes "good_move g"
  obtains s' where "set_feed g s = (Inr (), s')" "0 < speed_factor s \<Longrightarrow> 0 < speed s \<Longrightarrow> 0 < speed s'"
    "last_position s' = last_position s" "base_position s' = base_position s" "extrude_factor s' = extrude_factor s"
    "cali_position s' = cali_position s" "machine s' = machine s" "move_with s' = move_with s"
proof (cases "din ''F'' (gc_params g)")
  case True
  from float_param_num [OF assms _ True] obtain x where "float_param ''F'' g = Inr x" "num_param g ''F'' = Some x" by auto
  with True assms have "set_feed g s = (Inr (), s\<lparr>speed := x * speed_factor s, pre_speed := -1\<rparr>)" "0 < x"
    by (auto simp: set_feed_def with_value_def good_move_def)
  then show thesis using that by simp
next
  case False
  then have "set_feed g s = (Inr (), s)" by (simp add: set_feed_def)
  then show thesis using that by simp
qed

definition corrected :: "('f, 'w) genv \<Rightarrow> ('f, 'w) gmove \<Rightarrow> rat list \<Rightarrow> rat list" where
  "corrected v s p = (let (ox, oy) = real_size_offset v (s\<lparr>last_position := p\<rparr>) in p[0 := p ! 0 * (1 + ox), 1 := p ! 1 * (1 + oy)])"

lemma note_e_eq: "note_e s = s\<lparr>e_pos := (if last_position s ! 3 < 10 then last_position s ! 3 else e_pos s)\<rparr>"
  by (simp add: note_e_def)

lemma real_size_offset_frame:
  "real_size_offset v (s\<lparr>z_pos := q, machine := w, e_pos := e, first_layer_detect := fl, last_AI_z := z\<rparr>) = real_size_offset v s"
  by (simp add: real_size_offset_def)

lemma calibrate_eq: "calibrate v s = s\<lparr>cali_position := corrected v s (last_position s)\<rparr>"
  by (simp add: calibrate_def corrected_def Let_def split: prod.split)

lemma corrected_frame:
  "corrected v (s\<lparr>last_position := p'\<rparr>) p = corrected v s p" "corrected v (s\<lparr>z_pos := q\<rparr>) p = corrected v s p"
  "corrected v (s\<lparr>machine := w\<rparr>) p = corrected v s p" "corrected v (s\<lparr>e_pos := q\<rparr>) p = corrected v s p"
  "corrected v (s\<lparr>first_layer_detect := fl\<rparr>) p = corrected v s p" "corrected v (s\<lparr>last_AI_z := q\<rparr>) p = corrected v s p"
  by (simp_all add: corrected_def real_size_offset_def)

lemma g1_update_good:
  assumes "gm_wf pace s" "good_move g" "prints_well v s" "env_ok pace v"
  obtains s' where "g1_update v g s = (Inr (), s')" "last_position s' = g1_target s g" "base_position s' = base_position s"
    "extrude_factor s' = extrude_factor s" "cali_position s' = corrected v s (g1_target s g)"
    "move_with s' = move_with s" "pace \<Longrightarrow> 0 < speed s'" "\<not> is_printing v (machine s) \<Longrightarrow> machine s' = machine s"
proof -
  let ?t = "g1_target s g"
  obtain a b c d where l: "last_position s = [a, b, c, d]"
    using gm_wf_lengths(1) [OF assms(1)] by (auto simp: numeral_eq_Suc length_Suc_conv)
  let ?s1 = "s\<lparr>last_position := [axis_target s g 0, axis_target s g 1, axis_target s g 2, last_position s ! 3]\<rparr>"
  have p1: "prints_well v ?s1" using assms(3) by (simp add: prints_well_def)
  obtain q w where z: "save_z v g ?s1 = (Inr (), ?s1\<lparr>z_pos := q, machine := w\<rparr>)" "\<not> is_printing v (machine ?s1) \<longrightarrow> w = machine ?s1"
    using save_z_run [OF p1, of g] by blast
  let ?s2 = "?s1\<lparr>z_pos := q, machine := w\<rparr>"
  let ?s3 = "?s2\<lparr>last_position := ?t\<rparr>"
  have e: "move_e g ?s2 = (Inr (), ?s3)"
    unfolding move_e_target [OF assms(2)] by (simp add: axis_target_frame l g1_target_def)
  have p2: "prints_well v (note_e ?s3)" using assms(3) z(2) by (auto simp: prints_well_def note_e_eq)
  obtain fl e' z' w' where d: "detect v (note_e ?s3) =
      (Inr (), (note_e ?s3)\<lparr>first_layer_detect := fl, e_pos := e', last_AI_z := z', machine := w'\<rparr>)"
    "\<not> is_printing v (machine (note_e ?s3)) \<longrightarrow> w' = machine (note_e ?s3)" by (rule detect_run [OF p2])
  let ?s4 = "calibrate v ((note_e ?s3)\<lparr>first_layer_detect := fl, e_pos := e', last_AI_z := z', machine := w'\<rparr>)"
  obtain s5 where s5: "set_feed g ?s4 = (Inr (), s5)" "0 < speed_factor ?s4 \<Longrightarrow> 0 < speed ?s4 \<Longrightarrow> 0 < speed s5"
    "last_position s5 = last_position ?s4" "base_position s5 = base_position ?s4" "extrude_factor s5 = extrude_factor ?s4"
    "cali_position s5 = cali_position ?s4" "machine s5 = machine ?s4" "move_with s5 = move_with ?s4"
    using set_feed_good [OF assms(2), of ?s4] by blast
  have sp: "pace \<Longrightarrow> 0 < speed s5"
    using s5(2) assms(1) by (simp add: gm_wf_def calibrate_eq note_e_eq)
  have u: "g1_update v g s = (Inr (), set_pace v g s5)"
    unfolding g1_update_def move_axes_target [OF assms(2) gm_wf_lengths(1) [OF assms(1)]] seqs.simps
      z(1) sum.case prod.case e pure_stm_def d(1) s5(1) by simp
  have f: "last_position (set_pace v g s5) = last_position s5" "base_position (set_pace v g s5) = base_position s5"
    "extrude_factor (set_pace v g s5) = extrude_factor s5" "cali_position (set_pace v g s5) = cali_position s5"
    "machine (set_pace v g s5) = machine s5" "move_with (set_pace v g s5) = move_with s5"
    "pace \<Longrightarrow> 0 < speed (set_pace v g s5)"
    using sp assms(4) by (auto simp: set_pace_def env_ok_def)
  show thesis
  proof (rule that [OF u])
    show "machine (set_pace v g s5) = machine s" if "\<not> is_printing v (machine s)"
      using z(2) d(2) that by (simp add: f s5 calibrate_eq note_e_eq)
  qed (use f s5 in \<open>simp_all add: calibrate_eq note_e_eq corrected_frame\<close>)
qed

lemma move_with_transform_frame:
  "last_position (snd (move_with_transform v p sp s)) = last_position s"
  "base_position (snd (move_with_transform v p sp s)) = base_position s"
  "extrude_factor (snd (move_with_transform v p sp s)) = extrude_factor s"
  "move_with s = Some f \<Longrightarrow> machine (snd (move_with_transform v p sp s)) = snd (tmove v f p sp (machine s))"
  by (auto simp: move_with_transform_def split: option.split prod.split)

lemma nth_gcode_position:
  "length (last_position s) = 4 \<Longrightarrow> length (base_position s) = 4 \<Longrightarrow> i < 4 \<Longrightarrow>
    get_gcode_position s ! i = (last_position s ! i - base_position s ! i) / (if i = 3 then extrude_factor s else 1)"
  by (cases "i = 3") (simp_all add: get_gcode_position_def Let_def)

lemma g1_target_nth: "i < 4 \<Longrightarrow> g1_target s g ! i = axis_target s g i"
  by (auto simp: g1_target_def less_Suc_eq numeral_eq_Suc)


text \<open>after \<open>G92\<close> the given coordinates read back as the numbers given and the others as before, or all as
  zero when none is given; the position of the machine does not change.\<close>
theorem g92_sets_coordinates:
  assumes "gm_wf pace s" "cmd_G92 v g s = (Inr (), s')" "i < 4"
    and "rmap (\<lambda>a. get_float v a (Default None) None g) [''X'', ''Y'', ''Z'', ''E''] = Inr offsets"
  shows "last_position s' = last_position s \<and>
    get_gcode_position s' ! i =
      (if offsets = [None, None, None, None] then 0
       else case offsets ! i of Some x \<Rightarrow> x | None \<Rightarrow> get_gcode_position s ! i)"
proof -
  have "length offsets = 4" using rmap_length [OF assms(4)] by simp
  then obtain a b c d where o: "offsets = [a, b, c, d]" by (auto simp: numeral_eq_Suc length_Suc_conv)
  let ?f = "fold g92_axis (List.enumerate 0 offsets) s"
  have en: "List.enumerate 0 [a, b, c, d] = [(0, a), (1, b), (2, c), (3, d)]" by (simp add: numeral_eq_Suc)
  have s': "s' = (if offsets = [None, None, None, None] then ?f\<lparr>base_position := last_position ?f\<rparr> else ?f)"
    using assms(2,4) by (simp add: cmd_G92_def with_value_def Let_def del: rmap.simps)
  have fr: "last_position (g92_axis io u) = last_position u" "extrude_factor (g92_axis io u) = extrude_factor u"
    "length (base_position (g92_axis io u)) = length (base_position u)" for io and u :: "('a, 'b) gmove"
    by (auto simp: g92_axis_def split: option.split)
  have bp: "base_position (g92_axis (k, v) u) ! j =
      (if j = k \<and> v \<noteq> None \<and> k < length (base_position u)
       then last_position u ! k - (if k = 3 then the v * extrude_factor u else the v) else base_position u ! j)" for k v j and u :: "('a, 'b) gmove"
    by (auto simp: g92_axis_def list_update_beyond split: option.split)
  have ex: "extrude_factor s \<noteq> 0" using assms(1) by (simp add: gm_wf_def)
  consider "i = 0" | "i = 1" | "i = 2" | "i = 3" using assms(3) by linarith
  then show ?thesis
    using gm_wf_lengths [OF assms(1)] ex assms(3)
    by cases (auto simp: s' [unfolded o en] o nth_gcode_position fr bp split: option.split)
qed

text \<open>the overrides do not move: \<open>M221\<close> keeps every coordinate, \<open>M220\<close> keeps the requested speed, and the
  speed of the machine changes in the proportion of the factors.\<close>
theorem overrides_keep_coordinates:
  assumes "gm_wf pace s"
  shows "(cmd_M221 v g s = (Inr (), s') \<longrightarrow> last_position s' = last_position s \<and> get_gcode_position s' = get_gcode_position s) \<and>
    (cmd_M220 v g s = (Inr (), s') \<longrightarrow> last_position s' = last_position s \<and> get_gcode_position s' = get_gcode_position s \<and>
       get_gcode_speed s' = get_gcode_speed s \<and> speed s' * speed_factor s = speed s * speed_factor s')"
proof (intro conjI impI)
  assume r: "cmd_M221 v g s = (Inr (), s')"
  then obtain o1 where o1: "get_float v ''S'' (Default (Some 100)) (Some 0) g = Inr o1"
    by (auto simp: cmd_M221_def with_value_def split: sum.splits)
  then obtain x where x: "o1 = Some x" "0 < x" using get_float_above [OF o1] by auto
  obtain a b c d where l: "last_position s = [a, b, c, d]"
    using gm_wf_lengths(1) [OF assms] by (auto simp: numeral_eq_Suc length_Suc_conv)
  obtain a' b' c' d' where b: "base_position s = [a', b', c', d']"
    using gm_wf_lengths(2) [OF assms] by (auto simp: numeral_eq_Suc length_Suc_conv)
  from r x o1 assms show "last_position s' = last_position s" "get_gcode_position s' = get_gcode_position s"
    by (auto simp: cmd_M221_def with_value_def Let_def get_gcode_position_def gm_wf_def l b)
next
  assume r: "cmd_M220 v g s = (Inr (), s')"
  then obtain o1 where o1: "get_float v ''S'' (Default (Some 100)) (Some 0) g = Inr o1"
    by (auto simp: cmd_M220_def with_value_def split: sum.splits)
  then obtain x where x: "o1 = Some x" "0 < x" using get_float_above [OF o1] by auto
  from r x o1 assms show "last_position s' = last_position s" "get_gcode_position s' = get_gcode_position s"
    "get_gcode_speed s' = get_gcode_speed s" "speed s' * speed_factor s = speed s * speed_factor s'"
    by (auto simp: cmd_M220_def with_value_def Let_def get_gcode_position_def get_gcode_speed_def gm_wf_def)
qed

text \<open>C39: after \<open>RESTORE_GCODE_STATE\<close> of a saved state the modes, the offsets and the coordinate of the
  extruder are those at the time it was saved, whatever happened since; the position is not changed.\<close>
theorem restore_after_save:
  assumes "gm_wf pace s0" "gm_wf pace s" "dget (saved_states s) n = Some (get_gcode_state s0)"
    and "dget (gc_params g) ''NAME'' = Some n" "dget (gc_params g) ''MOVE'' = None"
    and "cmd_RESTORE_GCODE_STATE v g s = (r, s')"
  shows "r = Inr () \<and> last_position s' = last_position s \<and> absolute_coord s' = absolute_coord s0 \<and>
    absolute_extrude s' = absolute_extrude s0 \<and> homing_position s' = homing_position s0 \<and>
    (\<forall>i < 3. base_position s' ! i = base_position s0 ! i) \<and> get_gcode_position s' ! 3 = get_gcode_position s0 ! 3 \<and>
    get_gcode_speed s' * speed_factor s = get_gcode_speed s0 * speed_factor s0"
  using assms
  by (auto simp: cmd_RESTORE_GCODE_STATE_def with_value_def gc_get_str_def get_int0_def gc_get_int_def gc_get_def
      restore_state_def Let_def get_gcode_state_def nth_gcode_position gm_wf_def get_gcode_speed_def)

section \<open>An instance\<close>

text \<open>A machine that records the moves it is asked for.\<close>

definition plain_env :: "(unit, (rat list \<times> rat) list) genv" where
  "plain_env = \<lparr>tmove = (\<lambda>f p sp w. (Inr (), w @ [(p, sp)])), tposition = (\<lambda>f w. if w = [] then [0, 0, 0, 0] else map (\<lambda>i. fst (last w) ! i) [0, 1, 2, 3]),
     toolhead = Some (), is_printing = (\<lambda>w. False), is_paused = (\<lambda>w. False), workmode = (\<lambda>w. 0), pace_speed = (\<lambda>w. 50),
     size_offset = (\<lambda>xs ys m x y. (0, 0)), axes_max_z = (\<lambda>w. 300), gfmt = (\<lambda>q. []), script = (\<lambda>c s. (Inr (), s))\<rparr>"

definition plain_state :: "(unit, (rat list \<times> rat) list) gmove" where
  "plain_state = snd (gm_handle_ready plain_env (new_gmove (1 / 100) 0 ''integrated'' [0, 0, 0, 0, 0, 0] [0, 0, 0, 0, 0, 0] []))"

definition plain_cmd :: "(string, string) dict \<Rightarrow> gcmd" where
  "plain_cmd ps = \<lparr>gc_command = [], gc_commandline = [], gc_params = ps, gc_need_ack = False\<rparr>"

lemma plain_env_ok [simp]: "env_ok pace plain_env"
  by (auto simp: env_ok_def plain_env_def keeps_def min_def)

lemma plain_state_eval:
  "plain_state = (new_gmove (1 / 100) 0 ''integrated'' [0, 0, 0, 0, 0, 0] [0, 0, 0, 0, 0, 0] [])
     \<lparr>gm_ready := True, move_with := Some (), position_with := Some ()\<rparr>"
  by (simp add: plain_state_def gm_handle_ready_def new_gmove_def reset_last_position_def plain_env_def Let_def)

lemma plain_state_wf [simp]: "gm_wf pace plain_state"
  unfolding plain_state_eval by (simp add: gm_wf_def new_gmove_def)

lemma read_num_10: "read_num ''10'' = Some 10" "read_num ''5'' = Some 5" "read_num ''200'' = Some 200"
  unfolding read_num_def by code_simp+


text \<open>With a pace speed below zero a silent travel move sets a negative speed.\<close>

lemma negative_pace_speed:
  "speed (snd (cmd_G1 (plain_env\<lparr>workmode := (\<lambda>w. 3), pace_speed := (\<lambda>w. -1)\<rparr>) (plain_cmd []) plain_state)) = -1"
  unfolding plain_state_eval by code_simp

text \<open>The same machine while it prints.\<close>

definition print_env :: "(unit, (rat list \<times> rat) list) genv" where
  "print_env = plain_env\<lparr>is_printing := (\<lambda>w. True)\<rparr>"

definition printing_state :: "(unit, (rat list \<times> rat) list) gmove" where
  "printing_state = set_first_layer_detect plain_state"

definition g1_example :: gcmd where
  "g1_example = plain_cmd [(''X'', ''10''), (''F'', ''200'')]"

lemma print_env_ok: "env_ok True print_env" "gm_wf True printing_state" "move_with printing_state = Some ()" "prints_well print_env printing_state"
proof -
  show "gm_wf True printing_state" by (simp add: printing_state_def set_first_layer_detect_def gm_wf_simps)
  show "env_ok True print_env" using plain_env_ok [of True] by (simp add: env_ok_def print_env_def)
  have "script print_env c s = (Inr (), s\<lparr>machine := machine s\<rparr>)" for c s by (simp add: print_env_def plain_env_def)
  then have "scripts_run print_env" unfolding scripts_run_def by blast
  then show "prints_well print_env printing_state"
    by (simp add: prints_well_def printing_state_def set_first_layer_detect_def)
qed (simp add: printing_state_def set_first_layer_detect_def plain_state_eval)

lemma g1_example_good: "good_move g1_example"
  by (auto simp: good_move_def g1_example_def plain_cmd_def num_param_def read_num_10 din_def)

lemma g1_example_target:
  "g1_target printing_state g1_example = [10, 0, 0, 0]"
  "corrected print_env printing_state [10, 0, 0, 0] = [101 / 10, 0, 0, 0]"
  by (simp_all add: g1_target_def axis_target_def axis_name_def num_param_def g1_example_def plain_cmd_def read_num_10 plain_state_eval
      new_gmove_def corrected_def real_size_offset_def Let_def strip_def lstrip_def rstrip_def printing_state_def set_first_layer_detect_def)


theorem g92_sets_coordinates_witness:
  "get_gcode_position (snd (cmd_G92 plain_env (plain_cmd [(''E'', ''5'')]) plain_state)) ! 3 = 5"
proof -
  have o: "rmap (\<lambda>a. get_float plain_env a (Default None) None (plain_cmd [(''E'', ''5'')])) [''X'', ''Y'', ''Z'', ''E''] =
      Inr [None, None, None, Some 5]"
    by (simp add: get_float_def gc_get_def plain_cmd_def read_num_10)
  then obtain s' where s': "cmd_G92 plain_env (plain_cmd [(''E'', ''5'')]) plain_state = (Inr (), s')"
    by (simp add: cmd_G92_def with_value_def Let_def del: rmap.simps)
  from g92_sets_coordinates [OF plain_state_wf [of True] s' _ o, of 3] show ?thesis by (simp add: s')
qed

theorem overrides_keep_coordinates_witness:
  "\<exists>s'. cmd_M220 plain_env (plain_cmd [(''S'', ''200'')]) plain_state = (Inr (), s') \<and> get_gcode_speed s' = get_gcode_speed plain_state"
proof -
  have "get_float plain_env ''S'' (Default (Some 100)) (Some 0) (plain_cmd [(''S'', ''200'')]) = Inr (Some 200)"
    by (simp add: get_float_def gc_get_def plain_cmd_def read_num_10)
  then obtain s' where s': "cmd_M220 plain_env (plain_cmd [(''S'', ''200'')]) plain_state = (Inr (), s')"
    by (simp add: cmd_M220_def with_value_def Let_def)
  with overrides_keep_coordinates [OF plain_state_wf, of plain_env "plain_cmd [(''S'', ''200'')]" s'] show ?thesis by blast
qed

text \<open>The state after saving and then doubling the speed factor.\<close>

definition saved_example :: "(unit, (rat list \<times> rat) list) gmove" where
  "saved_example = snd (cmd_M220 plain_env (plain_cmd [(''S'', ''200'')])
     (snd (cmd_SAVE_GCODE_STATE (plain_cmd [(''NAME'', ''a'')]) plain_state)))"

lemma saved_example_wf: "gm_wf pace saved_example" "dget (saved_states saved_example) ''a'' = Some (get_gcode_state plain_state)"
proof -
  show "gm_wf pace saved_example"
    unfolding saved_example_def by (intro keepsD [OF keeps_cmd_M220] keepsD [OF keeps_cmd_SAVE] plain_state_wf)
  show "dget (saved_states saved_example) ''a'' = Some (get_gcode_state plain_state)"
    by (simp add: saved_example_def cmd_M220_def cmd_SAVE_GCODE_STATE_def with_value_def Let_def plain_cmd_def gc_get_str_def
        get_float_def gc_get_def read_num_10)
qed

theorem restore_after_save_witness:
  "absolute_coord (snd (cmd_RESTORE_GCODE_STATE plain_env (plain_cmd [(''NAME'', ''a'')]) saved_example)) = absolute_coord plain_state"
proof -
  obtain r s' where c: "cmd_RESTORE_GCODE_STATE plain_env (plain_cmd [(''NAME'', ''a'')]) saved_example = (r, s')"
    by (cases "cmd_RESTORE_GCODE_STATE plain_env (plain_cmd [(''NAME'', ''a'')]) saved_example")
  have "dget (gc_params (plain_cmd [(''NAME'', ''a'')])) ''NAME'' = Some ''a''" "dget (gc_params (plain_cmd [(''NAME'', ''a'')])) ''MOVE'' = None"
    by (simp_all add: plain_cmd_def)
  from restore_after_save [OF plain_state_wf saved_example_wf this c] show ?thesis by (simp add: c)
qed

section \<open>Two behaviours of the code worth knowing\<close>

text \<open>
  \<open>RESTORE_GCODE_STATE\<close> restores the speed of the machine but not the factor it was computed with:
  after a change of the factor the requested speed is no longer the saved one.
\<close>

lemma restore_changes_requested_speed:
  "get_gcode_speed (snd (cmd_RESTORE_GCODE_STATE plain_env (plain_cmd [(''NAME'', ''a'')]) saved_example)) = get_gcode_speed plain_state / 2"
  by (simp add: saved_example_def cmd_M220_def cmd_SAVE_GCODE_STATE_def cmd_RESTORE_GCODE_STATE_def with_value_def Let_def plain_cmd_def
      gc_get_str_def get_int0_def gc_get_int_def get_float_def gc_get_def read_num_10 restore_state_def get_gcode_state_def
      get_gcode_speed_def plain_state_eval new_gmove_def)

text \<open>
  \<open>G1\<close> corrects the size of a move but \<open>reset_last_position\<close> takes the corrected position of the
  machine as the position of the G-code: any event that resets it shifts the coordinates.
\<close>

lemma reset_shifts_corrected_moves:
  "get_gcode_position (snd (cmd_G1 plain_env g1_example plain_state)) ! 0 = 10 \<and>
   get_gcode_position (reset_last_position plain_env (snd (cmd_G1 plain_env g1_example plain_state))) ! 0 = 101 / 10"
  by code_simp

end
