(* ===== verification/VirtualSd.thy ===== *)
theory VirtualSd
  imports PrintStats GCodeMove
begin

text \<open>
  \<open>klippy/extras/virtual_sdcard.py\<close>: printing a file line by line from a timer, with pause, resume,
  cancel, jumps within the file, and the search for a place to resume after a power loss.

  A file is its name, its bytes, as a string, and the position of the next read. What the lines do when
  they run, the other tasks that run while the worker pauses, and the hooks of other components are
  parameters (\<open>sd_env\<close>); a script may change the whole state. \<open>CommandError\<close> is \<open>AppError\<close>. Starting the
  time-lapse program, saving the list of excluded objects to a file and logging are left out.
\<close>

section \<open>State\<close>

record sdfile =
  f_name :: string
  f_data :: string
  f_pos :: nat

record 'w sd =
  current_file :: "sdfile option"
  file_position :: nat
  file_size :: nat
  power_loss_restart :: bool
  must_pause_work :: bool
  cmd_from_sd :: bool
  next_file_position :: nat
  work_timer :: bool
  print_stats :: print_stats
  sd_output :: "string list"
  sd_world :: 'w

text \<open>
  \<open>dir b\<close> lists the files of the directory, with its subdirectories if \<open>b\<close>: names and contents;
  \<open>read_fails\<close> says whether the operating system fails a read; \<open>breathe\<close> is what runs during
  \<open>reactor.pause\<close>; \<open>pre_check\<close> is \<open>check_to_pause\<close> of the filament sensor; \<open>record_begin\<close> and
  \<open>record_end\<close> are those of \<open>locate_printing_gcode\<close>; \<open>recovered\<close> is what finding an object to resume
  at changes in \<open>exclude_object\<close>.
\<close>

record 'w sd_env =
  dir :: "bool \<Rightarrow> (string \<times> string) list res"
  read_fails :: "sdfile \<Rightarrow> bool"
  run_script :: "string \<Rightarrow> 'w sd stm"
  render_error :: string
  render_exclude :: string
  now :: "'w sd \<Rightarrow> moment"
  breathe :: "'w sd \<Rightarrow> 'w sd"
  mutex_test :: "'w sd \<Rightarrow> bool"
  pre_check :: "'w sd \<Rightarrow> bool res \<times> 'w sd"
  record_begin :: "string \<Rightarrow> nat \<Rightarrow> 'w sd stm"
  record_end :: "'w sd stm"
  has_excluded :: "'w sd \<Rightarrow> bool"
  recovered :: "'w sd \<Rightarrow> 'w sd"

definition new_sd :: "'w \<Rightarrow> 'w sd" where
  "new_sd w = \<lparr>current_file = None, file_position = 0, file_size = 0, power_loss_restart = False, must_pause_work = False,
     cmd_from_sd = False, next_file_position = 0, work_timer = False, print_stats = new_print_stats, sd_output = [], sd_world = w\<rparr>"

definition sd_respond :: "string \<Rightarrow> 'w sd \<Rightarrow> 'w sd" where
  "sd_respond m s = s\<lparr>sd_output := sd_output s @ [m]\<rparr>"

definition sd_note :: "'w sd_env \<Rightarrow> (moment \<Rightarrow> print_stats \<Rightarrow> print_stats) \<Rightarrow> 'w sd \<Rightarrow> 'w sd" where
  "sd_note v f s = s\<lparr>print_stats := f (now v s) (print_stats s)\<rparr>"

section \<open>Files\<close>

definition VALID_GCODE_EXTS :: "string list" where
  "VALID_GCODE_EXTS = [''gcode'', ''g'', ''gco'']"

definition valid_gcode_name :: "string \<Rightarrow> bool" where
  "valid_gcode_name n = (last (split_on (CHR ''.'') n) \<in> set VALID_GCODE_EXTS)"

definition get_file_list :: "'w sd_env \<Rightarrow> bool \<Rightarrow> (string \<times> string) list res" where
  "get_file_list v check_subdirs =
     (let le = (\<lambda>a b. str_le (lower (fst a)) (lower (fst b))) in
      case dir v check_subdirs of
        Inl e \<Rightarrow> Inl (if check_subdirs then e else AppError ''Unable to get file list'')
      | Inr fs \<Rightarrow>
          if check_subdirs then Inr (sort_by le (filter (\<lambda>f. valid_gcode_name (fst f)) fs))
          else Inr (filter (\<lambda>f. \<not> startswith (fst f) ''.'') (sort_by le fs)))"

definition find_file :: "(string \<times> string) list \<Rightarrow> string \<Rightarrow> (string \<times> string) option" where
  "find_file fs name =
     (let fname = (if name \<in> fst ` set fs then Some name
                   else dget (dict_of (map (\<lambda>(n, _). (lower n, n)) fs)) (lower name))
      in Option.bind fname (\<lambda>n. find (\<lambda>f. fst f = n) fs))"

definition is_active :: "'w sd \<Rightarrow> bool" where
  "is_active s = work_timer s"

definition progress :: "'w sd \<Rightarrow> rat" where
  "progress s = (if file_size s \<noteq> 0 then of_nat (file_position s) / of_nat (file_size s) else 0)"

section \<open>Pause, resume, cancel\<close>

text \<open>
  \<open>do_pause\<close> waits for the worker to end unless it runs from the file itself: \<open>wait\<close> is what happens
  meanwhile, \<open>None\<close> if the worker never ends.
\<close>

type_synonym 'w waiting = "'w sd \<Rightarrow> 'w sd option"

definition do_pause :: "'w waiting \<Rightarrow> 'w sd \<Rightarrow> 'w sd option" where
  "do_pause wait s =
     (if work_timer s then
        let s1 = s\<lparr>must_pause_work := True\<rparr> in if cmd_from_sd s1 then Some s1 else wait s1
      else Some s)"

definition do_resume :: "'w sd stm" where
  "do_resume s =
     (if work_timer s then (Inl (AppError ''SD busy''), s)
      else (Inr (), s\<lparr>must_pause_work := False, work_timer := True\<rparr>))"

definition do_cancel :: "'w sd_env \<Rightarrow> 'w waiting \<Rightarrow> 'w sd \<Rightarrow> 'w sd option" where
  "do_cancel v wait s =
     map_option (\<lambda>s. s\<lparr>file_position := 0, file_size := 0\<rparr>)
       (if current_file s \<noteq> None then
          map_option (\<lambda>s. sd_note v note_cancel (s\<lparr>current_file := None\<rparr>)) (do_pause wait s)
        else Some s)"

definition reset_file :: "'w waiting \<Rightarrow> 'w sd \<Rightarrow> 'w sd option" where
  "reset_file wait s =
     map_option (\<lambda>s. s\<lparr>file_position := 0, file_size := 0, print_stats := ps_reset (print_stats s)\<rparr>)
       (if current_file s \<noteq> None then map_option (\<lambda>s. s\<lparr>current_file := None\<rparr>) (do_pause wait s) else Some s)"

definition handle_sd_shutdown :: "'w sd \<Rightarrow> 'w sd" where
  "handle_sd_shutdown s = (if work_timer s then s\<lparr>must_pause_work := True\<rparr> else s)"

section \<open>Loading a file\<close>

definition load_file :: "'w sd_env \<Rightarrow> string \<Rightarrow> nat \<Rightarrow> bool \<Rightarrow> 'w sd stm" where
  "load_file v filename fileposition check_subdirs s =
     (case get_file_list v check_subdirs of
        Inl e \<Rightarrow> (Inl e, s)
      | Inr fs \<Rightarrow>
          (case find_file fs filename of
             None \<Rightarrow> (Inl (AppError ''Unable to open file''), s)
           | Some (fname, data) \<Rightarrow>
               let s1 = sd_respond (''File opened:'' @ filename @ '' Size:'' @ str_nat (length data)) s;
                   s2 = sd_respond ''File selected'' s1;
                   s3 = s2\<lparr>current_file := Some \<lparr>f_name = fname, f_data = data, f_pos = 0\<rparr>, file_position := fileposition,
                           file_size := length data, print_stats := set_current_file filename (print_stats s2)\<rparr>
               in if fileposition = 0 then run_script v ''START_PRINT'' (s3\<lparr>power_loss_restart := False\<rparr>)
                  else (Inr (), s3\<lparr>power_loss_restart := True\<rparr>)))"

text \<open>The commands of files; \<open>None\<close> when waiting for the worker does not end.\<close>

definition cmd_SDCARD_RESET_FILE :: "'w waiting \<Rightarrow> 'w sd \<Rightarrow> (unit res \<times> 'w sd) option" where
  "cmd_SDCARD_RESET_FILE wait s =
     (if cmd_from_sd s then Some (Inl (AppError ''SDCARD_RESET_FILE cannot be run from the sdcard''), s)
      else map_option (Pair (Inr ())) (reset_file wait s))"

definition open_name :: "string \<Rightarrow> string res" where
  "open_name n = (case n of [] \<Rightarrow> Inl IndexError | c # r \<Rightarrow> Inr (if c = CHR ''/'' then r else n))"

definition cmd_SDCARD_PRINT_FILE :: "'w sd_env \<Rightarrow> 'w waiting \<Rightarrow> gcmd \<Rightarrow> 'w sd \<Rightarrow> (unit res \<times> 'w sd) option" where
  "cmd_SDCARD_PRINT_FILE v wait g s =
     (if work_timer s then Some (Inl (AppError ''SD busy''), s)
      else map_option (\<lambda>s.
        with_value (rbind (gc_get_str ''FILENAME'' Required g) (\<lambda>n. open_name (the n)))
          (\<lambda>n. seqs [load_file v n 0 True, do_resume]) s) (reset_file wait s))"

definition cmd_M23 :: "'w sd_env \<Rightarrow> 'w waiting \<Rightarrow> gcmd \<Rightarrow> 'w sd \<Rightarrow> (unit res \<times> 'w sd) option" where
  "cmd_M23 v wait g s =
     (if work_timer s then Some (Inl (AppError ''SD busy''), s)
      else map_option (\<lambda>s.
        let n = strip (get_raw_command_parameters g); n1 = (if startswith n ''/'' then drop 1 n else n)
        in load_file v n1 0 False s) (reset_file wait s))"

definition cmd_M20 :: "'w sd_env \<Rightarrow> 'w sd stm" where
  "cmd_M20 v s =
     with_value (get_file_list v False) (\<lambda>fs s.
       (Inr (), s\<lparr>sd_output := sd_output s @ [''Begin file list''] @
          map (\<lambda>(n, d). n @ '' '' @ str_nat (length d)) fs @ [''End file list'']\<rparr>)) s"

definition cmd_M21 :: "'w sd \<Rightarrow> 'w sd" where
  "cmd_M21 s = sd_respond ''SD card ok'' s"

definition cmd_M26 :: "gcmd \<Rightarrow> 'w sd stm" where
  "cmd_M26 g s =
     (if work_timer s then (Inl (AppError ''SD busy''), s)
      else with_value (gc_get_int ''S'' Required (Some 0) None g) (\<lambda>p s. (Inr (), s\<lparr>file_position := nat (the p)\<rparr>)) s)"

definition cmd_M27 :: "'w sd \<Rightarrow> 'w sd" where
  "cmd_M27 s =
     (if current_file s = None then sd_respond ''Not SD printing.'' s
      else sd_respond (''SD printing byte '' @ str_nat (file_position s) @ ''/'' @ str_nat (file_size s)) s)"

definition sd_write_error :: "'w sd stm" where
  "sd_write_error s = (Inl (AppError ''SD write not supported''), s)"

text \<open>\<open>filename\<close> without the directory and its slash.\<close>

definition recover_print :: "'w sd_env \<Rightarrow> string \<Rightarrow> nat \<Rightarrow> rat \<Rightarrow> 'w sd stm" where
  "recover_print v fname fileposition dur =
     seqs [pure_stm (\<lambda>s. s\<lparr>print_stats := modify_print_time dur (print_stats s)\<rparr>),
           load_file v fname fileposition True, do_resume]"

section \<open>Resuming at an object\<close>

definition object_start :: "string \<Rightarrow> bool" where
  "object_start line \<longleftrightarrow> length line > 25 \<and> take 25 line = ''EXCLUDE_OBJECT_START NAME''"

fun scan_lines :: "string list \<Rightarrow> nat \<Rightarrow> bool \<times> nat \<Rightarrow> bool \<times> nat" where
  "scan_lines [] pos r = r"
| "scan_lines (l # ls) pos r = scan_lines ls (pos + length l + 1) (if object_start l then (True, pos) else r)"

text \<open>\<open>_recover_file_position\<close>: the last object that starts in the block at \<open>p\<close>.\<close>

definition recover_block :: "string \<Rightarrow> nat \<Rightarrow> bool \<times> nat" where
  "recover_block data p =
     (let ls = split_on newline_char (take (8192 + 25) (drop p data))
      in scan_lines (tl ls) (p + length (hd ls) + 1) (False, p))"

function recover_loop :: "string \<Rightarrow> nat \<Rightarrow> nat option" where
  "recover_loop data p =
     (case recover_block data p of
        (True, q) \<Rightarrow> Some q
      | (False, _) \<Rightarrow> if p = 0 then None else recover_loop data (p - 8192))"
  by pat_completeness auto
termination by (relation "measure snd") auto

declare recover_loop.simps [simp del]

definition recover_file_position :: "'w sd_env \<Rightarrow> nat \<Rightarrow> sdfile \<Rightarrow> 'w sd \<Rightarrow> nat \<times> 'w sd" where
  "recover_file_position v orig f s =
     (if has_excluded v s then
        (case recover_loop (f_data f) orig of
           Some q \<Rightarrow> (q, recovered v (s\<lparr>current_file := Some (f\<lparr>f_pos := q\<rparr>)\<rparr>))
         | None \<Rightarrow> (orig, s\<lparr>current_file := Some (f\<lparr>f_pos := orig\<rparr>)\<rparr>))
      else (orig, s))"

section \<open>The worker\<close>

text \<open>Its local variables: \<open>wk_partial\<close> is \<open>None\<close> for the text string a jump leaves, which no bytes can follow.\<close>

record work =
  wk_lines :: "string list"
  wk_partial :: "string option"
  has_pre_check :: bool

text \<open>How a turn of the loop ends.\<close>

datatype 'w turn = Again work "'w sd" | Break "string option" "'w sd" | Leave "'w sd" | Crash exc "'w sd"

text \<open>A read that fails raises a string, which Python refuses with a \<open>TypeError\<close>.\<close>

definition raise_text :: string where
  "raise_text = ''exceptions must derive from BaseException''"

definition read_data :: "'w sd_env \<Rightarrow> 'w sd \<Rightarrow> (string \<times> 'w sd) option" where
  "read_data v s =
     (case current_file s of
        None \<Rightarrow> None
      | Some f \<Rightarrow> if read_fails v f then None
          else let d = take 8192 (drop (f_pos f) (f_data f))
               in Some (d, s\<lparr>current_file := Some (f\<lparr>f_pos := f_pos f + length d\<rparr>)\<rparr>))"

definition read_turn :: "'w sd_env \<Rightarrow> work \<Rightarrow> 'w sd \<Rightarrow> 'w turn" where
  "read_turn v w s =
     (case read_data v s of
        None \<Rightarrow> Break (Some raise_text) (snd (run_script v (render_error v) s))
      | Some (data, s1) \<Rightarrow>
          if data = [] then Break None (sd_respond ''Done printing file'' (s1\<lparr>current_file := None\<rparr>))
          else (case wk_partial w of
              None \<Rightarrow> Crash TypeError s1
            | Some p \<Rightarrow>
                let parts = split_on newline_char data; ls = (p @ hd parts) # tl parts
                in Again (w\<lparr>wk_lines := butlast ls, wk_partial := Some (last ls)\<rparr>) (breathe v s1)))"

definition line_stms :: "'w sd_env \<Rightarrow> string \<Rightarrow> 'w sd stm" where
  "line_stms v line = seqs [\<lambda>s. record_begin v line (file_position s) s, run_script v line, record_end v]"

text \<open>After a line that raised.\<close>

definition line_failed :: "'w sd_env \<Rightarrow> work \<Rightarrow> exc \<Rightarrow> 'w sd \<Rightarrow> 'w turn" where
  "line_failed v w e s =
     (case e of
        AppError m \<Rightarrow>
          if contains_str m ''exclude_object over'' then
            let s1 = snd (run_script v (render_exclude v) (s\<lparr>file_position := file_size s\<rparr>))
            in (case current_file s1 of
                  None \<Rightarrow> Crash AttributeError s1
                | Some f \<Rightarrow> Again w (s1\<lparr>current_file := Some (f\<lparr>f_pos := file_position s1\<rparr>)\<rparr>))
          else Break (Some m) (snd (run_script v (render_error v) s))
      | _ \<Rightarrow> Break None s)"

definition line_done :: "work \<Rightarrow> nat \<Rightarrow> 'w sd \<Rightarrow> 'w turn" where
  "line_done w nfp s =
     (let s1 = s\<lparr>cmd_from_sd := False, file_position := next_file_position s\<rparr> in
      if next_file_position s \<noteq> nfp then
        (case current_file s1 of
           None \<Rightarrow> Leave (s1\<lparr>work_timer := False\<rparr>)
         | Some f \<Rightarrow> Again (w\<lparr>wk_lines := [], wk_partial := None\<rparr>) (s1\<lparr>current_file := Some (f\<lparr>f_pos := file_position s1\<rparr>)\<rparr>))
      else Again w s1)"

definition line_turn :: "'w sd_env \<Rightarrow> work \<Rightarrow> 'w sd \<Rightarrow> 'w turn" where
  "line_turn v w s =
     (let line = hd (wk_lines w); w1 = w\<lparr>wk_lines := tl (wk_lines w), has_pre_check := True\<rparr>;
          nfp = file_position s + length line + 1;
          s1 = s\<lparr>cmd_from_sd := True, next_file_position := nfp\<rparr>;
          (c, s2) = (if has_pre_check w then (Inr False, s1) else pre_check v s1)
      in case c of
           Inl e \<Rightarrow> line_failed v w1 e s2
         | Inr True \<Rightarrow> Break None s2
         | Inr False \<Rightarrow>
             (case line_stms v line s2 of
                (Inl e, s3) \<Rightarrow> line_failed v w1 e s3
              | (Inr _, s3) \<Rightarrow> line_done w1 nfp s3))"

definition work_turn :: "'w sd_env \<Rightarrow> work \<Rightarrow> 'w sd \<Rightarrow> 'w turn" where
  "work_turn v w s =
     (if must_pause_work s then Break None s
      else if wk_lines w = [] then read_turn v w s
      else if mutex_test v s then Again w (breathe v s)
      else line_turn v w s)"

text \<open>The loop, with fuel; \<open>None\<close> when the fuel runs out.\<close>

fun work_loop :: "nat \<Rightarrow> 'w sd_env \<Rightarrow> work \<Rightarrow> 'w sd \<Rightarrow> 'w turn option" where
  "work_loop 0 v w s = None"
| "work_loop (Suc n) v w s =
     (case work_turn v w s of Again w1 s1 \<Rightarrow> work_loop n v w1 s1 | t \<Rightarrow> Some t)"

definition work_finish :: "'w sd_env \<Rightarrow> string option \<Rightarrow> 'w sd stm" where
  "work_finish v err s =
     (let s1 = s\<lparr>work_timer := False, cmd_from_sd := False\<rparr> in
      case err of
        Some m \<Rightarrow> (Inr (), sd_note v (note_error m) s1)
      | None \<Rightarrow>
          if current_file s1 \<noteq> None then (Inr (), sd_note v note_pause s1)
          else run_script v ''END_PRINT'' (sd_note v note_complete s1))"

definition work_end :: "'w sd_env \<Rightarrow> 'w turn \<Rightarrow> unit res \<times> 'w sd" where
  "work_end v t =
     (case t of
        Again w s \<Rightarrow> (Inr (), s)
      | Break err s \<Rightarrow> work_finish v err s
      | Leave s \<Rightarrow> (Inr (), s)
      | Crash e s \<Rightarrow> (Inl e, s))"

text \<open>What \<open>work_handler\<close> does before its loop, and whether it goes on.\<close>

definition work_start :: "'w sd_env \<Rightarrow> 'w sd \<Rightarrow> bool res \<times> 'w sd" where
  "work_start v s =
     (case current_file s of
        None \<Rightarrow> (Inr False, s\<lparr>work_timer := False, power_loss_restart := False\<rparr>)
      | Some f \<Rightarrow>
          let s1 = sd_note v note_start (s\<lparr>current_file := Some (f\<lparr>f_pos := file_position s\<rparr>)\<rparr>) in
          if \<not> power_loss_restart s1 then (Inr True, s1)
          else (case run_script v ''F102'' (s1\<lparr>power_loss_restart := False\<rparr>) of
              (Inl e, s2) \<Rightarrow>
                (Inr False, sd_note v (note_error (case e of AppError m \<Rightarrow> m | _ \<Rightarrow> [])) (s2\<lparr>work_timer := False\<rparr>))
            | (Inr _, s2) \<Rightarrow>
                (case current_file s2 of
                   None \<Rightarrow> if has_excluded v s2 then (Inl AttributeError, s2) else (Inr True, s2)
                 | Some f2 \<Rightarrow>
                     (case recover_file_position v (file_position s2) f2 s2 of
                        (p, s3) \<Rightarrow> (Inr True, s3\<lparr>file_position := p\<rparr>)))))"

definition work_handler :: "nat \<Rightarrow> 'w sd_env \<Rightarrow> 'w sd \<Rightarrow> (unit res \<times> 'w sd) option" where
  "work_handler n v s =
     (case work_start v s of
        (Inl e, s1) \<Rightarrow> Some (Inl e, s1)
      | (Inr False, s1) \<Rightarrow> Some (Inr (), s1)
      | (Inr True, s1) \<Rightarrow>
          map_option (work_end v) (work_loop n v \<lparr>wk_lines = [], wk_partial = Some [], has_pre_check = False\<rparr> s1))"

section \<open>A print runs its lines\<close>

text \<open>Scripts succeed and change only the world, and no other task interferes.\<close>

definition quiet :: "(string \<Rightarrow> 'w \<Rightarrow> 'w) \<Rightarrow> 'w sd_env \<Rightarrow> bool" where
  "quiet exec v \<longleftrightarrow> (\<forall>l s. run_script v l s = (Inr (), s\<lparr>sd_world := exec l (sd_world s)\<rparr>)) \<and>
     (\<forall>f. \<not> read_fails v f) \<and> (\<forall>s. \<not> mutex_test v s) \<and> (\<forall>s. breathe v s = s) \<and> (\<forall>s. pre_check v s = (Inr False, s)) \<and>
     (\<forall>l p s. record_begin v l p s = (Inr (), s)) \<and> (\<forall>s. record_end v s = (Inr (), s))"

lemma split_on_aux_clean: "d \<notin> set acc \<Longrightarrow> \<forall>l \<in> set (split_on_aux d acc s). d \<notin> set l"
proof (induction s arbitrary: acc)
  case (Cons c s)
  from Cons.IH [of "[]"] Cons.IH [of "acc @ [c]"] Cons.prems show ?case by auto
qed simp

lemma split_on_clean: "l \<in> set (split_on d s) \<Longrightarrow> d \<notin> set l"
  using split_on_aux_clean [of d "[]" s] by (auto simp: split_on_def)

lemma length_split_on_aux: "length (split_on_aux d acc s) \<le> Suc (length s)"
  by (induction s arbitrary: acc) (auto intro: le_SucI)

lemma length_split_on: "length (split_on d s) \<le> Suc (length s)"
  by (simp add: split_on_def length_split_on_aux)

lemma split_on_partial: "d \<notin> set p \<Longrightarrow> split_on d (p @ s) = (p @ hd (split_on d s)) # tl (split_on d s)"
  by (simp add: split_on_append split_on_absent)

lemma butlast_split_on_append:
  "butlast (split_on d (s @ t)) = butlast (split_on d s) @ butlast (split_on d (last (split_on d s) @ t))"
proof -
  have "d \<notin> set (last (split_on d s))" using split_on_clean [of "last (split_on d s)" d s] by simp
  then show ?thesis by (simp add: split_on_append [of d s t] split_on_partial butlast_append)
qed

definition line_bytes :: "string list \<Rightarrow> nat" where
  "line_bytes ls = sum_list (map (\<lambda>l. length l + 1) ls)"

lemma line_turn_quiet:
  assumes "quiet exec v" "wk_lines w = l # ls"
  shows "line_turn v w s = Again (w\<lparr>wk_lines := ls, has_pre_check := True\<rparr>)
    (s\<lparr>cmd_from_sd := False, next_file_position := file_position s + length l + 1, file_position := file_position s + length l + 1,
       sd_world := exec l (sd_world s)\<rparr>)"
  using assms by (simp add: line_turn_def Let_def quiet_def line_stms_def line_done_def)

lemma read_turn_quiet:
  assumes "quiet exec v" "current_file s = Some f" "wk_lines w = []" "wk_partial w = Some p" "newline_char \<notin> set p"
  defines "d \<equiv> take 8192 (drop (f_pos f) (f_data f))"
  shows "d = [] \<Longrightarrow> \<exists>s'. read_turn v w s = Break None s' \<and> current_file s' = None \<and> sd_world s' = sd_world s \<and>
      file_position s' = file_position s \<and> print_stats s' = print_stats s"
    and "d \<noteq> [] \<Longrightarrow> read_turn v w s = Again
      (w\<lparr>wk_lines := butlast (split_on newline_char (p @ d)), wk_partial := Some (last (split_on newline_char (p @ d)))\<rparr>)
      (s\<lparr>current_file := Some (f\<lparr>f_pos := f_pos f + length d\<rparr>)\<rparr>)"
  using assms(1-5) by (simp_all add: read_turn_def read_data_def d_def quiet_def sd_respond_def split_on_partial Let_def)

lemma work_loop_quiet:
  assumes q: "quiet exec v"
  shows "\<lbrakk>current_file s = Some f; wk_partial w = Some p; newline_char \<notin> set p; \<not> must_pause_work s;
      length (wk_lines w) + 2 * length (drop (f_pos f) (f_data f)) < n;
      ls = wk_lines w @ butlast (split_on newline_char (p @ drop (f_pos f) (f_data f)))\<rbrakk> \<Longrightarrow>
    \<exists>s'. work_loop n v w s = Some (Break None s') \<and> current_file s' = None \<and> sd_world s' = fold exec ls (sd_world s) \<and>
      file_position s' = file_position s + line_bytes ls \<and> print_stats s' = print_stats s"
proof (induction n arbitrary: w s f p ls)
  case (Suc n)
  let ?r = "drop (f_pos f) (f_data f)"
  have m: "\<not> mutex_test v s" using q by (simp add: quiet_def)
  show ?case
  proof (cases "wk_lines w")
    case (Cons l rest)
    let ?w = "w\<lparr>wk_lines := rest, has_pre_check := True\<rparr>"
    let ?s = "s\<lparr>cmd_from_sd := False, next_file_position := file_position s + length l + 1,
      file_position := file_position s + length l + 1, sd_world := exec l (sd_world s)\<rparr>"
    have t: "work_turn v w s = Again ?w ?s"
      using Suc.prems(4) Cons m line_turn_quiet [OF q Cons, of s] by (simp add: work_turn_def)
    obtain ls' where ls: "ls = l # ls'" and ls': "ls' = wk_lines ?w @ butlast (split_on newline_char (p @ ?r))"
      using Suc.prems(6) Cons by simp
    have "\<exists>s'. work_loop n v ?w ?s = Some (Break None s') \<and> current_file s' = None \<and> sd_world s' = fold exec ls' (sd_world ?s) \<and>
        file_position s' = file_position ?s + line_bytes ls' \<and> print_stats s' = print_stats ?s"
      by (rule Suc.IH [OF _ _ Suc.prems(3) _ _ ls']) (use Suc.prems Cons in simp_all)
    then show ?thesis using t by (auto simp: ls line_bytes_def)
  next
    case Nil
    then have tr: "work_turn v w s = read_turn v w s" using Suc.prems(4) by (simp add: work_turn_def)
    let ?d = "take 8192 ?r"
    show ?thesis
    proof (cases "?d = []")
      case True
      then have "?r = []" by simp
      then have "ls = []" using Suc.prems(3,6) Nil by (simp add: split_on_absent)
      moreover from read_turn_quiet(1) [OF q Suc.prems(1) Nil Suc.prems(2,3) True] obtain s' where
        "read_turn v w s = Break None s'" "current_file s' = None" "sd_world s' = sd_world s" "file_position s' = file_position s"
        "print_stats s' = print_stats s" by auto
      ultimately show ?thesis using tr by (simp add: line_bytes_def)
    next
      case False
      let ?L = "split_on newline_char (p @ ?d)"
      let ?w = "w\<lparr>wk_lines := butlast ?L, wk_partial := Some (last ?L)\<rparr>"
      let ?f = "f\<lparr>f_pos := f_pos f + length ?d\<rparr>"
      let ?s = "s\<lparr>current_file := Some ?f\<rparr>"
      have t: "work_turn v w s = Again ?w ?s"
        using tr read_turn_quiet(2) [OF q Suc.prems(1) Nil Suc.prems(2,3) False] by simp
      have r: "?r = ?d @ drop (f_pos ?f) (f_data ?f)"
      proof -
        have "drop (length ?d) ?r = drop 8192 ?r" by (cases "length ?r \<le> 8192") simp_all
        then have "drop (f_pos ?f) (f_data ?f) = drop 8192 ?r" by (simp add: add.commute)
        then show ?thesis by (simp only: append_take_drop_id)
      qed
      have nl: "newline_char \<notin> set (last ?L)" using split_on_clean [of "last ?L" newline_char "p @ ?d"] by simp
      have ls: "ls = wk_lines ?w @ butlast (split_on newline_char (last ?L @ drop (f_pos ?f) (f_data ?f)))"
        using Suc.prems(6) Nil butlast_split_on_append [of newline_char "p @ ?d" "drop (f_pos ?f) (f_data ?f)"] r by simp
      have "length (butlast ?L) \<le> length ?d"
        using split_on_partial [OF Suc.prems(3), of ?d] length_split_on [of newline_char ?d] split_on_nonempty [of newline_char ?d]
        by (cases "split_on newline_char ?d") simp_all
      moreover have "length ?r = length ?d + length (drop (f_pos ?f) (f_data ?f))" by (subst r) simp
      moreover have "0 < length ?d" using False by (simp add: length_greater_0_conv [symmetric] del: length_greater_0_conv)
      moreover have "length (wk_lines ?w) = length (butlast ?L)" "length (wk_lines w) = 0" using Nil by simp_all
      ultimately have fuel: "length (wk_lines ?w) + 2 * length (drop (f_pos ?f) (f_data ?f)) < n"
        using Suc.prems(5) by linarith
      have "\<exists>s'. work_loop n v ?w ?s = Some (Break None s') \<and> current_file s' = None \<and> sd_world s' = fold exec ls (sd_world ?s) \<and>
          file_position s' = file_position ?s + line_bytes ls \<and> print_stats s' = print_stats ?s"
        by (rule Suc.IH [OF _ _ nl _ fuel ls]) (use Suc.prems in simp_all)
      then show ?thesis using t by simp
    qed
  qed
qed simp

lemma work_handler_quiet:
  assumes "quiet exec v" "current_file s = Some f" "\<not> power_loss_restart s" "\<not> must_pause_work s"
    and "2 * length (drop (file_position s) (f_data f)) < n"
  shows "\<exists>s'. work_handler n v s = Some (Inr (), s') \<and>
    sd_world s' = fold exec (butlast (split_on newline_char (drop (file_position s) (f_data f))) @ [''END_PRINT'']) (sd_world s) \<and>
    file_position s' = file_position s + line_bytes (butlast (split_on newline_char (drop (file_position s) (f_data f)))) \<and>
    current_file s' = None \<and> \<not> work_timer s' \<and> ps_state (print_stats s') = ''complete''"
proof -
  let ?f = "f\<lparr>f_pos := file_position s\<rparr>"
  let ?s1 = "sd_note v note_start (s\<lparr>current_file := Some ?f\<rparr>)"
  let ?w = "\<lparr>wk_lines = [], wk_partial = Some [], has_pre_check = False\<rparr>"
  have st: "work_start v s = (Inr True, ?s1)" using assms(2,3) by (simp add: work_start_def sd_note_def)
  have "\<exists>s'. work_loop n v ?w ?s1 = Some (Break None s') \<and> current_file s' = None \<and>
      sd_world s' = fold exec (butlast (split_on newline_char (drop (file_position s) (f_data f)))) (sd_world ?s1) \<and>
      file_position s' = file_position ?s1 + line_bytes (butlast (split_on newline_char (drop (file_position s) (f_data f)))) \<and>
      print_stats s' = print_stats ?s1"
    by (rule work_loop_quiet [OF assms(1), where f = ?f and p = "[]"]) (use assms in \<open>simp_all add: sd_note_def\<close>)
  then obtain s' where s': "work_loop n v ?w ?s1 = Some (Break None s')" "current_file s' = None"
      "sd_world s' = fold exec (butlast (split_on newline_char (drop (file_position s) (f_data f)))) (sd_world s)"
      "file_position s' = file_position s + line_bytes (butlast (split_on newline_char (drop (file_position s) (f_data f))))"
      "print_stats s' = print_stats ?s1"
    by (auto simp: sd_note_def)
  have run: "run_script v ''END_PRINT'' u = (Inr (), u\<lparr>sd_world := exec ''END_PRINT'' (sd_world u)\<rparr>)" for u
    using assms(1) by (simp add: quiet_def)
  have "print_start_time (print_stats s') \<noteq> None"
    unfolding s'(5) by (auto simp: sd_note_def note_start_def Let_def split: option.split)
  then have "ps_state (note_complete m (print_stats s')) = ''complete''" for m
    by (auto simp: note_complete_def note_finish_def Let_def)
  moreover have "work_handler n v s = Some (work_finish v None s')"
    using s'(1) by (simp add: work_handler_def st work_end_def)
  moreover have "work_finish v None s' =
      run_script v ''END_PRINT'' (sd_note v note_complete (s'\<lparr>work_timer := False, cmd_from_sd := False\<rparr>))"
    using s'(2) by (simp add: work_finish_def)
  ultimately show ?thesis using s'(2-4) by (simp add: run sd_note_def)
qed


definition print_example :: "string list sd" where
  "print_example = (new_sd [])\<lparr>current_file := Some \<lparr>f_name = ''a.g'', f_data = ''G28'' @ [newline_char] @ ''M84'' @ [newline_char] @ ''G1'', f_pos = 0\<rparr>,
     file_size := 10, work_timer := True\<rparr>"

definition quiet_env :: "string list sd_env" where
  "quiet_env = \<lparr>dir = (\<lambda>b. Inr []), read_fails = (\<lambda>f. False), run_script = (\<lambda>l s. (Inr (), s\<lparr>sd_world := sd_world s @ [l]\<rparr>)), render_error = [],
     render_exclude = [], now = (\<lambda>s. \<lparr>mt_time = 0, mt_epos = 0, mt_factor = 1\<rparr>), breathe = (\<lambda>s. s), mutex_test = (\<lambda>s. False),
     pre_check = (\<lambda>s. (Inr False, s)), record_begin = (\<lambda>l p s. (Inr (), s)), record_end = (\<lambda>s. (Inr (), s)),
     has_excluded = (\<lambda>s. False), recovered = (\<lambda>s. s)\<rparr>"


section \<open>Resuming at an object\<close>

lemma scan_lines_found:
  "scan_lines ls pos r = (True, q) \<Longrightarrow> r = (True, q) \<or> (\<exists>pre l post. ls = pre @ l # post \<and> object_start l \<and> q = pos + line_bytes pre)"
proof (induction ls arbitrary: pos r)
  case (Cons x ls)
  have "scan_lines ls (pos + length x + 1) (if object_start x then (True, pos) else r) = (True, q)" using Cons.prems by simp
  from Cons.IH [OF this] show ?case
  proof
    assume e: "(if object_start x then (True, pos) else r) = (True, q)"
    show ?thesis
    proof (cases "object_start x")
      case True
      with e have "x # ls = [] @ x # ls" "object_start x" "q = pos + line_bytes []" by (simp_all add: line_bytes_def)
      then show ?thesis by blast
    qed (use e in simp)
  next
    assume "\<exists>pre l post. ls = pre @ l # post \<and> object_start l \<and> q = pos + length x + 1 + line_bytes pre"
    then obtain pre l post where p: "ls = pre @ l # post" "object_start l" "q = pos + length x + 1 + line_bytes pre" by auto
    then have "x # ls = (x # pre) @ l # post" "q = pos + line_bytes (x # pre)" by (simp_all add: line_bytes_def)
    with p(2) show ?thesis by blast
  qed
qed simp

lemma join_pre: "join [c] (pre @ l # post) = concat (map (\<lambda>x. x @ [c]) pre) @ join [c] (l # post)"
proof (induction pre)
  case (Cons x pre)
  then show ?case by (cases "pre @ l # post") auto
qed simp

lemma join_head: "\<exists>r. join [c] (l # post) = l @ r"
  by (cases post) auto

lemma length_line_bytes: "length (concat (map (\<lambda>x. x @ [c]) pre)) = line_bytes pre"
  by (induction pre) (simp_all add: line_bytes_def)

lemma recover_block_found:
  assumes "recover_block data p = (True, q)"
  shows "p < q \<and> q \<le> length data \<and> data ! (q - 1) = newline_char \<and> take 25 (drop q data) = ''EXCLUDE_OBJECT_START NAME''"
proof -
  let ?c = "take (8192 + 25) (drop p data)"
  obtain h ls where s: "split_on newline_char ?c = h # ls" using split_on_nonempty [of newline_char ?c] by (cases "split_on newline_char ?c") auto
  have "scan_lines ls (p + length h + 1) (False, p) = (True, q)" using assms unfolding recover_block_def s Let_def list.sel .
  from scan_lines_found [OF this]
  obtain pre l post where ls: "ls = pre @ l # post" "object_start l" "q = p + length h + 1 + line_bytes pre" by auto
  have "?c = join [newline_char] (split_on newline_char ?c)" by (simp only: join_split_on)
  then have "?c = join [newline_char] ((h # pre) @ l # post)" by (simp only: s ls(1) append_Cons)
  then obtain r where c: "?c = concat (map (\<lambda>x. x @ [newline_char]) (h # pre)) @ l @ r"
    using join_pre [of newline_char "h # pre" l post] join_head [of newline_char l post] by metis
  let ?k = "concat (map (\<lambda>x. x @ [newline_char]) (h # pre))"
  have k: "length ?k = q - p" "p < q" using ls(3) length_line_bytes [of newline_char "h # pre"] by (simp_all add: line_bytes_def)
  have l: "25 < length l" "take 25 l = ''EXCLUDE_OBJECT_START NAME''" using ls(2) by (simp_all add: object_start_def)
  have len: "length ?c = length ?k + length l + length r" unfolding c by simp
  have d: "drop p data = ?k @ l @ r @ drop (8192 + 25) (drop p data)"
    using append_take_drop_id [of "8192 + 25" "drop p data"] unfolding c by simp
  have "length (drop p data) = length ?k + (length l + (length r + length (drop (8192 + 25) (drop p data))))"
    using arg_cong [OF d, of length] by (simp only: length_append)
  then have q: "q \<le> length data" using k l(1) length_drop [of p data] by linarith
  have "drop q data = drop (q - p) (drop p data)" using k(2) by simp
  also have "\<dots> = l @ r @ drop (8192 + 25) (drop p data)" by (subst d) (simp add: k(1) [symmetric])
  finally have t: "take 25 (drop q data) = ''EXCLUDE_OBJECT_START NAME''" using l by simp
  have "data ! (q - 1) = drop p data ! (q - 1 - p)" using k(2) q by simp
  also have "\<dots> = (?k @ l @ r @ drop (8192 + 25) (drop p data)) ! (q - 1 - p)" by (simp only: d [symmetric])
  also have "\<dots> = ?k ! (q - 1 - p)"
  proof -
    have "q - 1 - p < length ?k" using k by linarith
    then show ?thesis by (simp only: nth_append if_True)
  qed
  also have "\<dots> = ?k ! (length ?k - 1)" unfolding k(1) by simp
  also have "\<dots> = last ?k" using k by (subst last_conv_nth) auto
  also have "last ?k = newline_char" by (cases pre rule: rev_cases) simp_all
  finally show ?thesis using k(2) q t by simp
qed

lemma recover_loop_found:
  "recover_loop data p = Some q \<Longrightarrow>
    0 < q \<and> q \<le> length data \<and> data ! (q - 1) = newline_char \<and> take 25 (drop q data) = ''EXCLUDE_OBJECT_START NAME''"
proof (induction data p rule: recover_loop.induct)
  case (1 data p)
  obtain b e where r: "recover_block data p = (b, e)" by (cases "recover_block data p")
  show ?case
  proof (cases b)
    case True
    then show ?thesis using recover_block_found [of data p e] r "1.prems" by (simp add: recover_loop.simps [of data p])
  next
    case False
    with "1.prems" r have "p \<noteq> 0" "recover_loop data (p - 8192) = Some q"
      by (simp_all add: recover_loop.simps [of data p] split: if_splits)
    then show ?thesis using "1.IH" r False by simp
  qed
qed


section \<open>Pausing between two lines\<close>

lemma butlast_split_Cons:
  assumes "butlast (split_on d t) = l # ls"
  shows "butlast (split_on d (drop (length l + 1) t)) = ls"
proof -
  obtain z where s: "split_on d t = l # ls @ [z]"
    using append_butlast_last_id [OF split_on_nonempty, of d t] unfolding assms by (metis append_Cons)
  have "t = join [d] (split_on d t)" by simp
  then obtain r where t: "t = l @ d # r" and r: "r = join [d] (ls @ [z])"
    unfolding s by (cases "ls @ [z]") auto
  have "d \<notin> set l" using split_on_clean [of l d t] s by simp
  then have "split_on d t = l # split_on d r" unfolding t by (rule split_on_sep)
  then have "split_on d r = ls @ [z]" using s by simp
  then show ?thesis using t by (simp add: drop_Suc)
qed

text \<open>The position of the file is that of the next line.\<close>

definition at_line :: "string \<Rightarrow> work \<Rightarrow> 'w sd \<Rightarrow> bool" where
  "at_line data w s \<longleftrightarrow> \<not> power_loss_restart s \<and> (\<exists>f p. current_file s = Some f \<and> f_data f = data \<and> wk_partial w = Some p \<and> newline_char \<notin> set p \<and>
     wk_lines w @ butlast (split_on newline_char (p @ drop (f_pos f) data)) =
       butlast (split_on newline_char (drop (file_position s) data)))"

fun turns :: "nat \<Rightarrow> 'w sd_env \<Rightarrow> work \<Rightarrow> 'w sd \<Rightarrow> (work \<times> 'w sd) option" where
  "turns 0 v w s = Some (w, s)"
| "turns (Suc k) v w s = (case work_turn v w s of Again w1 s1 \<Rightarrow> turns k v w1 s1 | _ \<Rightarrow> None)"

lemma turn_at_line:
  assumes q: "quiet exec v" and a: "at_line data w s" and t: "work_turn v w s = Again w1 s1"
  shows "at_line data w1 s1 \<and> fold exec (butlast (split_on newline_char (drop (file_position s1) data))) (sd_world s1) =
      fold exec (butlast (split_on newline_char (drop (file_position s) data))) (sd_world s) \<and>
      \<not> must_pause_work s1 \<and> work_timer s1 = work_timer s \<and> print_stats s1 = print_stats s \<and>
      cmd_from_sd s1 = (cmd_from_sd s \<and> wk_lines w = [])"
proof -
  obtain f p where f: "current_file s = Some f" "f_data f = data" "wk_partial w = Some p" "newline_char \<notin> set p"
    and e: "wk_lines w @ butlast (split_on newline_char (p @ drop (f_pos f) data)) = butlast (split_on newline_char (drop (file_position s) data))"
    and pl: "\<not> power_loss_restart s"
    using a by (auto simp: at_line_def)
  have np: "\<not> must_pause_work s" using t by (auto simp: work_turn_def split: if_splits)
  have m: "\<not> mutex_test v s" using q by (simp add: quiet_def)
  show ?thesis
  proof (cases "wk_lines w")
    case (Cons l rest)
    let ?w = "w\<lparr>wk_lines := rest, has_pre_check := True\<rparr>"
    let ?s = "s\<lparr>cmd_from_sd := False, next_file_position := file_position s + length l + 1,
      file_position := file_position s + length l + 1, sd_world := exec l (sd_world s)\<rparr>"
    have ws: "w1 = ?w" "s1 = ?s" using t np Cons m line_turn_quiet [OF q Cons, of s] by (simp_all add: work_turn_def)
    have b: "butlast (split_on newline_char (drop (file_position s) data)) = l # rest @ butlast (split_on newline_char (p @ drop (f_pos f) data))"
      using e Cons by simp
    from butlast_split_Cons [OF b]
    have b': "butlast (split_on newline_char (drop (file_position s + length l + 1) data)) =
        rest @ butlast (split_on newline_char (p @ drop (f_pos f) data))"
      by (simp add: add.commute add.left_commute)
    with f pl have "at_line data ?w ?s" by (simp add: at_line_def)
    then show ?thesis using b b' ws np Cons by simp
  next
    case Nil
    then have tr: "read_turn v w s = Again w1 s1" using t np by (simp add: work_turn_def)
    let ?d = "take 8192 (drop (f_pos f) (f_data f))"
    have ne: "?d \<noteq> []" using read_turn_quiet(1) [OF q f(1) Nil f(3,4)] tr by auto
    let ?L = "split_on newline_char (p @ ?d)"
    have ws: "w1 = w\<lparr>wk_lines := butlast ?L, wk_partial := Some (last ?L)\<rparr>" "s1 = s\<lparr>current_file := Some (f\<lparr>f_pos := f_pos f + length ?d\<rparr>)\<rparr>"
      using tr read_turn_quiet(2) [OF q f(1) Nil f(3,4) ne] by simp_all
    have dd: "drop (f_pos f) data = ?d @ drop (f_pos f + length ?d) data"
    proof -
      let ?r = "drop (f_pos f) data"
      have "drop (length ?d) ?r = drop 8192 ?r" using f(2) by (cases "length ?r \<le> 8192") simp_all
      then have "drop (f_pos f + length ?d) data = drop 8192 ?r" by (simp add: add.commute)
      then show ?thesis unfolding f(2) by (simp only: append_take_drop_id)
    qed
    have "newline_char \<notin> set (last ?L)" using split_on_clean [of "last ?L" newline_char "p @ ?d"] by simp
    moreover have "butlast ?L @ butlast (split_on newline_char (last ?L @ drop (f_pos f + length ?d) data)) =
        butlast (split_on newline_char (drop (file_position s) data))"
      using e Nil butlast_split_on_append [of newline_char "p @ ?d" "drop (f_pos f + length ?d) data"] dd by simp
    ultimately have "at_line data w1 s1" using f pl by (simp add: at_line_def ws)
    then show ?thesis using Nil np by (simp add: ws)
  qed
qed

lemma turns_at_line:
  assumes "quiet exec v"
  shows "at_line data w s \<Longrightarrow> turns k v w s = Some (w', s') \<Longrightarrow> \<not> must_pause_work s \<Longrightarrow>
    at_line data w' s' \<and> fold exec (butlast (split_on newline_char (drop (file_position s') data))) (sd_world s') =
      fold exec (butlast (split_on newline_char (drop (file_position s) data))) (sd_world s) \<and>
    \<not> must_pause_work s' \<and> work_timer s' = work_timer s \<and> print_stats s' = print_stats s \<and> (\<not> cmd_from_sd s \<longrightarrow> \<not> cmd_from_sd s')"
proof (induction k arbitrary: w s)
  case (Suc k)
  then obtain w1 s1 where t: "work_turn v w s = Again w1 s1" and r: "turns k v w1 s1 = Some (w', s')"
    by (auto split: turn.splits)
  from turn_at_line [OF assms Suc.prems(1) t] Suc.IH [OF _ r] show ?case by auto
qed auto

text \<open>\<open>do_pause\<close> waits for the worker, whose next turn sees \<open>must_pause_work\<close>.\<close>

definition worker_ends :: "'w sd_env \<Rightarrow> work \<Rightarrow> 'w waiting" where
  "worker_ends v w s = map_option (\<lambda>t. snd (work_end v t)) (work_loop 1 v w s)"



section \<open>Behaviours worth knowing\<close>

text \<open>
  After a jump within the file (\<open>next_file_position\<close> changed by a command) the partial line is a text
  string, to which the bytes of the next block cannot be appended: the worker dies with a \<open>TypeError\<close>.
\<close>

lemma jump_then_read_crashes:
  assumes "next_file_position s \<noteq> nfp" "current_file s = Some f" "\<And>f. \<not> read_fails v f" "next_file_position s < length (f_data f)"
  obtains w1 s1 s2 where "line_done w nfp s = Again w1 s1" "wk_lines w1 = []" "read_turn v w1 s1 = Crash TypeError s2"
proof -
  let ?s = "s\<lparr>cmd_from_sd := False, file_position := next_file_position s\<rparr>"
  let ?s1 = "?s\<lparr>current_file := Some (f\<lparr>f_pos := next_file_position s\<rparr>)\<rparr>"
  let ?w = "w\<lparr>wk_lines := [], wk_partial := None\<rparr>"
  have "line_done w nfp s = Again ?w ?s1" using assms(1,2) by (simp add: line_done_def)
  moreover obtain d s2 where "read_data v ?s1 = Some (d, s2)" "d \<noteq> []" using assms(3,4) by (simp add: read_data_def)
  ultimately show thesis using that [of ?w ?s1 s2] by (simp add: read_turn_def)
qed

text \<open>When the last object is excluded the end script runs, but the lines read already stay in the buffer and run after it.\<close>

lemma exclude_over_keeps_buffer:
  assumes "contains_str m ''exclude_object over''" "run_script v (render_exclude v) (s\<lparr>file_position := file_size s\<rparr>) = (r, s1)"
    "current_file s1 = Some f"
  shows "line_failed v w (AppError m) s = Again w (s1\<lparr>current_file := Some (f\<lparr>f_pos := file_position s1\<rparr>)\<rparr>)"
  using assms by (simp add: line_failed_def Let_def)

text \<open>A print cancelled by one of its own lines still runs the end script.\<close>

lemma cancel_in_file_runs_end_script:
  assumes "quiet exec v" "current_file s = None"
  shows "sd_world (snd (work_finish v None s)) = exec ''END_PRINT'' (sd_world s)"
  using assms by (simp add: work_finish_def quiet_def sd_note_def Let_def)

end
