(* ===== verification/PauseResume.thy ===== *)
theory PauseResume
  imports VirtualSd
begin

text \<open>
  \<open>klippy/extras/pause_resume.py\<close>: pausing and resuming a print, from a file of the virtual SD card or
  from a host that sends G-code. The flags are on top of the state of the card, when there is one. A
  command is \<open>None\<close> when it waits for the worker of the card for ever.
\<close>

record 'w pr =
  has_sd :: bool
  pr_paused :: bool
  sd_paused :: bool
  pause_command_sent :: bool
  recover_velocity :: rat
  sdcard :: "'w sd"
  pr_output :: "string list"

definition new_pr :: "rat \<Rightarrow> 'w sd \<Rightarrow> 'w pr" where
  "new_pr v s = \<lparr>has_sd = False, pr_paused = False, sd_paused = False, pause_command_sent = False, recover_velocity = v, sdcard = s,
     pr_output = []\<rparr>"

definition handle_connect :: "bool \<Rightarrow> 'w pr \<Rightarrow> 'w pr" where
  "handle_connect found p = p\<lparr>has_sd := found\<rparr>"

definition is_sd_active :: "'w pr \<Rightarrow> bool" where
  "is_sd_active p \<longleftrightarrow> has_sd p \<and> is_active (sdcard p)"

definition pr_info :: "string \<Rightarrow> 'w pr \<Rightarrow> 'w pr" where
  "pr_info m p = p\<lparr>pr_output := pr_output p @ [m]\<rparr>"

definition send_pause_command :: "'w waiting \<Rightarrow> 'w pr \<Rightarrow> 'w pr option" where
  "send_pause_command wait p =
     (if pause_command_sent p then Some p
      else map_option (\<lambda>q. q\<lparr>pause_command_sent := True\<rparr>)
        (if is_sd_active p then map_option (\<lambda>s. p\<lparr>sd_paused := True, sdcard := s\<rparr>) (do_pause wait (sdcard p))
         else Some (pr_info ''action:paused'' (p\<lparr>sd_paused := False\<rparr>))))"

definition pr_script :: "'w sd_env \<Rightarrow> string \<Rightarrow> 'w pr stm" where
  "pr_script v l p = (case run_script v l (sdcard p) of (r, s) \<Rightarrow> (r, p\<lparr>sdcard := s\<rparr>))"

definition cmd_PAUSE :: "'w sd_env \<Rightarrow> 'w waiting \<Rightarrow> 'w pr \<Rightarrow> (unit res \<times> 'w pr) option" where
  "cmd_PAUSE v wait p =
     (if pr_paused p then Some (Inr (), pr_info ''Print already paused'' p)
      else map_option (seqs [pr_script v ''SAVE_GCODE_STATE NAME=PAUSE_STATE'', pure_stm (\<lambda>q. q\<lparr>pr_paused := True\<rparr>)])
        (send_pause_command wait p))"

definition send_resume_command :: "'w pr stm" where
  "send_resume_command p =
     (if sd_paused p then
        (case do_resume (sdcard p) of
           (Inl e, s) \<Rightarrow> (Inl e, p\<lparr>sdcard := s\<rparr>)
         | (Inr _, s) \<Rightarrow> (Inr (), p\<lparr>sdcard := s, sd_paused := False, pause_command_sent := False\<rparr>))
      else (Inr (), (pr_info ''action:resumed'' p)\<lparr>pause_command_sent := False\<rparr>))"

text \<open>\<open>fmt4\<close> is the text of a velocity with four digits.\<close>

definition cmd_RESUME :: "'w sd_env \<Rightarrow> (rat \<Rightarrow> string) \<Rightarrow> gcmd \<Rightarrow> 'w pr stm" where
  "cmd_RESUME v fmt4 g p =
     (if \<not> pr_paused p then (Inr (), pr_info ''Print is not paused, resume aborted'' p)
      else with_value (gc_get fmt4 read_num ''VELOCITY'' (Default (Some (recover_velocity p))) None None None None g) (\<lambda>vel.
        seqs [pr_script v (''RESTORE_GCODE_STATE NAME=PAUSE_STATE MOVE=1 MOVE_SPEED='' @ fmt4 (the vel)),
              send_resume_command, pure_stm (\<lambda>q. q\<lparr>pr_paused := False\<rparr>)]) p)"

definition cmd_CLEAR_PAUSE :: "'w pr \<Rightarrow> 'w pr" where
  "cmd_CLEAR_PAUSE p = p\<lparr>pr_paused := False, pause_command_sent := False\<rparr>"

definition cmd_CANCEL_PRINT :: "'w sd_env \<Rightarrow> 'w waiting \<Rightarrow> 'w pr \<Rightarrow> 'w pr option" where
  "cmd_CANCEL_PRINT v wait p =
     map_option cmd_CLEAR_PAUSE
       (if is_sd_active p \<or> sd_paused p then map_option (\<lambda>s. p\<lparr>sdcard := s\<rparr>) (do_cancel v wait (sdcard p))
        else Some (pr_info ''action:cancel'' p))"

section \<open>The flags\<close>

inductive pr_step :: "'w sd_env \<Rightarrow> 'w waiting \<Rightarrow> 'w pr \<Rightarrow> 'w pr \<Rightarrow> bool" for v wait where
  pause: "cmd_PAUSE v wait p = Some (r, q) \<Longrightarrow> pr_step v wait p q"
| event_pause: "send_pause_command wait p = Some q \<Longrightarrow> pr_step v wait p q"
| resume: "cmd_RESUME v fmt4 g p = (r, q) \<Longrightarrow> pr_step v wait p q"
| clear: "pr_step v wait p (cmd_CLEAR_PAUSE p)"
| cancel: "cmd_CANCEL_PRINT v wait p = Some q \<Longrightarrow> pr_step v wait p q"
| connect: "pr_step v wait p (handle_connect b p)"
| on_card: "pr_step v wait p (p\<lparr>sdcard := s\<rparr>)"

text \<open>A print that is paused has had its pause command sent.\<close>

definition flags_ok :: "'w pr \<Rightarrow> bool" where
  "flags_ok p \<longleftrightarrow> (pr_paused p \<longrightarrow> pause_command_sent p)"

lemma pr_script_flags:
  "pr_script v l p = (r, q) \<Longrightarrow> pr_paused q = pr_paused p \<and> pause_command_sent q = pause_command_sent p \<and> sd_paused q = sd_paused p \<and>
    has_sd q = has_sd p"
  by (auto simp: pr_script_def split: prod.splits)

lemma send_pause_sent: "send_pause_command wait p = Some q \<Longrightarrow> pause_command_sent q \<and> pr_paused q = pr_paused p"
  by (auto simp: send_pause_command_def pr_info_def split: if_splits)

lemma seqs_failed_flags:
  assumes "seqs [pr_script v l, send_resume_command, pure_stm f2] p = (Inl e, q)"
  shows "pr_paused q = pr_paused p \<and> pause_command_sent q = pause_command_sent p \<and> sd_paused q = sd_paused p"
proof -
  obtain r q1 where s: "pr_script v l p = (r, q1)" by (cases "pr_script v l p")
  note f = pr_script_flags [OF s]
  show ?thesis
  proof (cases r)
    case (Inl e')
    then show ?thesis using assms s f by simp
  next
    case (Inr u)
    then show ?thesis using assms s f
      by (auto simp: send_resume_command_def pure_stm_def split: if_splits prod.splits sum.splits)
  qed
qed

text \<open>a \<open>RESUME\<close> that fails, because of its parameter, of the restoring script or of a worker that is still
  running, leaves the print paused as it was: it can be resumed later.\<close>
theorem failed_resume_stays_paused:
  assumes "cmd_RESUME v fmt4 g p = (Inl e, q)"
  shows "pr_paused p \<and> pr_paused q \<and> sd_paused q = sd_paused p \<and> pause_command_sent q = pause_command_sent p"
proof -
  have p: "pr_paused p" using assms by (auto simp: cmd_RESUME_def split: if_splits)
  show ?thesis
  proof (cases "gc_get fmt4 read_num ''VELOCITY'' (Default (Some (recover_velocity p))) None None None None g")
    case (Inl e')
    then show ?thesis using assms p by (simp add: cmd_RESUME_def with_value_def)
  next
    case (Inr vel)
    then have "seqs [pr_script v (''RESTORE_GCODE_STATE NAME=PAUSE_STATE MOVE=1 MOVE_SPEED='' @ fmt4 (the vel)),
              send_resume_command, pure_stm (\<lambda>q. q\<lparr>pr_paused := False\<rparr>)] p = (Inl e, q)"
      using assms p by (simp add: cmd_RESUME_def with_value_def del: seqs.simps)
    from seqs_failed_flags [OF this] p show ?thesis by simp
  qed
qed

definition busy_example :: "string list pr" where
  "busy_example = (new_pr 50 ((new_sd [])\<lparr>work_timer := True\<rparr>))\<lparr>has_sd := True, pr_paused := True, sd_paused := True, pause_command_sent := True\<rparr>"

theorem failed_resume_stays_paused_witness:
  "\<exists>q. cmd_RESUME quiet_env (\<lambda>_. ''50'') (plain_cmd []) busy_example = (Inl (AppError ''SD busy''), q) \<and> pr_paused q"
proof -
  obtain q where q: "cmd_RESUME quiet_env (\<lambda>_. ''50'') (plain_cmd []) busy_example = (Inl (AppError ''SD busy''), q)"
    by (simp add: cmd_RESUME_def busy_example_def new_pr_def new_sd_def plain_cmd_def gc_get_def with_value_def pr_script_def quiet_env_def
        send_resume_command_def do_resume_def)
  with failed_resume_stays_paused [OF q] show ?thesis by blast
qed

lemma flags_step [inv_intros]: "pr_step v wait p q \<Longrightarrow> flags_ok p \<Longrightarrow> flags_ok q"
proof (induction rule: pr_step.induct)
  case (pause p r q)
  show ?case
  proof (cases "pr_paused p")
    case True
    with pause show ?thesis by (auto simp: cmd_PAUSE_def flags_ok_def pr_info_def)
  next
    case False
    then obtain p1 where p1: "send_pause_command wait p = Some p1"
      "seqs [pr_script v ''SAVE_GCODE_STATE NAME=PAUSE_STATE'', pure_stm (\<lambda>q. q\<lparr>pr_paused := True\<rparr>)] p1 = (r, q)"
      using pause(1) by (auto simp: cmd_PAUSE_def)
    obtain r2 p2 where s: "pr_script v ''SAVE_GCODE_STATE NAME=PAUSE_STATE'' p1 = (r2, p2)" by fastforce
    from send_pause_sent [OF p1(1)] pr_script_flags [OF s] p1(2) s False show ?thesis
      by (auto simp: flags_ok_def pure_stm_def split: sum.splits)
  qed
next
  case (event_pause p q)
  then show ?case using send_pause_sent [of wait p q] by (simp add: flags_ok_def)
next
  case (resume fmt4 g p r q)
  show ?case
  proof (cases r)
    case (Inl e)
    have "pr_paused q \<longrightarrow> pause_command_sent q"
      using resume Inl by (auto simp: flags_ok_def cmd_RESUME_def with_value_def pr_info_def send_resume_command_def pure_stm_def
          dest!: pr_script_flags split: if_splits sum.splits prod.splits)
    then show ?thesis by (simp add: flags_ok_def)
  next
    case (Inr u)
    with resume show ?thesis
      by (auto simp: flags_ok_def cmd_RESUME_def with_value_def pr_info_def send_resume_command_def pure_stm_def
          dest!: pr_script_flags split: if_splits sum.splits prod.splits)
  qed
qed (auto simp: flags_ok_def cmd_CLEAR_PAUSE_def cmd_CANCEL_PRINT_def handle_connect_def)

end
