(* ===== verification/JobQueue.thy ===== *)
theory JobQueue
  imports PyStrings Complex_Main
begin

text \<open>
  \<open>moonraker/components/job_queue.py\<close>: the queue of print jobs and its transitions.

  The methods are coroutines under one lock: a method that awaits while it holds the lock is cut into
  its parts at the awaits, and \<open>holder\<close> says which part is waiting. Other methods run in between when
  they do not need the lock. The answers of Klippy, the identifiers and the times are arguments; the
  remote registrations are not modelled.
\<close>

section \<open>State\<close>

datatype queue_state = Ready | Paused | Loading | Starting

record job =
  job_filename :: string
  time_added :: rat

text \<open>The parts that hold the lock: \<open>_pop_job\<close> after each of its awaits, and \<open>start_queue\<close>.\<close>

datatype stage =
    Checking string string bool
  | Transition string string
  | Printing string string
  | StartCheck

type_synonym job_info = "string \<times> string \<times> rat \<times> rat"

record jq =
  queued_jobs :: "(string, job) dict"
  queue_state :: queue_state
  automatic :: bool
  load_on_start :: bool
  job_transition_gcode :: string
  pop_queue_handle :: "bool option"
  waiting_pops :: "bool list"
  holder :: "stage option"
  jq_events :: "(string \<times> job_info list option \<times> queue_state) list"
  print_requests :: "string list"

definition new_jq :: "bool \<Rightarrow> bool \<Rightarrow> string \<Rightarrow> jq" where
  "new_jq auto load g = \<lparr>queued_jobs = [], queue_state = (if auto then Ready else Paused), automatic = auto, load_on_start = load,
     job_transition_gcode = strip g, pop_queue_handle = None, waiting_pops = [], holder = None, jq_events = [], print_requests = []\<rparr>"

definition job_as_dict :: "rat \<Rightarrow> string \<Rightarrow> job \<Rightarrow> job_info" where
  "job_as_dict cur_time uid j = (job_filename j, uid, time_added j, cur_time - time_added j)"

definition job_map_to_list :: "rat \<Rightarrow> jq \<Rightarrow> job_info list" where
  "job_map_to_list cur_time s = map (\<lambda>(uid, j). job_as_dict cur_time uid j) (queued_jobs s)"

definition send_queue_event :: "rat \<Rightarrow> string \<Rightarrow> jq \<Rightarrow> jq" where
  "send_queue_event t action s =
     s\<lparr>jq_events := jq_events s @ [(action, if action \<noteq> ''state_changed'' then Some (job_map_to_list t s) else None, queue_state s)]\<rparr>"

definition set_queue_state :: "rat \<Rightarrow> queue_state \<Rightarrow> jq \<Rightarrow> jq" where
  "set_queue_state t st s = (if st \<noteq> queue_state s then send_queue_event t ''state_changed'' (s\<lparr>queue_state := st\<rparr>) else s)"

definition idle_state :: "jq \<Rightarrow> queue_state" where
  "idle_state s = (if automatic s then Ready else Paused)"

section \<open>Events of Klippy\<close>

definition jq_handle_ready :: "rat \<Rightarrow> jq \<Rightarrow> jq" where
  "jq_handle_ready t s =
     (if \<not> load_on_start s \<or> queued_jobs s = [] then s
      else if queue_state s \<in> {Ready, Paused} then (set_queue_state t Loading s)\<lparr>pop_queue_handle := Some False\<rparr>
      else s)"

text \<open>\<open>pause_queue\<close> up to the point where it waits for the lock.\<close>

definition pause_queue :: "rat \<Rightarrow> jq \<Rightarrow> jq" where
  "pause_queue t s = (set_queue_state t Paused s)\<lparr>pop_queue_handle := None\<rparr>"

text \<open>\<open>_handle_shutdown\<close> after \<open>pause_queue\<close>.\<close>

definition shutdown_end :: "rat \<Rightarrow> jq \<Rightarrow> jq" where
  "shutdown_end t s = (if queued_jobs s = [] \<and> automatic s then set_queue_state t Ready s else s)"

definition on_job_complete :: "rat \<Rightarrow> jq \<Rightarrow> jq" where
  "on_job_complete t s =
     (if \<not> automatic s then s
      else if queue_state s = Ready \<and> queued_jobs s \<noteq> [] then (set_queue_state t Loading s)\<lparr>pop_queue_handle := Some True\<rparr>
      else s)"

definition on_job_abort :: "rat \<Rightarrow> jq \<Rightarrow> jq" where
  "on_job_abort t s = (if queued_jobs s \<noteq> [] then set_queue_state t Paused s else s)"

text \<open>The answer to the query of the print state: an exception, no such object, or its state.\<close>

definition check_can_print :: "string option res \<Rightarrow> bool" where
  "check_can_print r =
     (case r of Inl _ \<Rightarrow> False | Inr None \<Rightarrow> False | Inr (Some st) \<Rightarrow> st \<notin> {''printing'', ''paused''})"

section \<open>Starting a job\<close>

text \<open>The timer of \<open>_pop_job\<close> fires: it waits for the lock.\<close>

definition pop_fire :: "bool \<Rightarrow> jq \<Rightarrow> jq" where
  "pop_fire need s = s\<lparr>pop_queue_handle := None, waiting_pops := waiting_pops s @ [need]\<rparr>"

text \<open>It has the lock.\<close>

definition pop_begin :: "rat \<Rightarrow> bool \<Rightarrow> jq \<Rightarrow> jq" where
  "pop_begin t need s =
     (if queue_state s = Paused then s
      else case queued_jobs s of
        [] \<Rightarrow> set_queue_state t (idle_state s) s
      | (uid, j) # _ \<Rightarrow> s\<lparr>holder := Some (Checking uid (job_filename j) need)\<rparr>)"

definition pop_fail :: "rat \<Rightarrow> jq \<Rightarrow> jq" where
  "pop_fail t s = (set_queue_state t Paused s)\<lparr>holder := None\<rparr>"

definition start_printing :: "rat \<Rightarrow> string \<Rightarrow> string \<Rightarrow> jq \<Rightarrow> jq" where
  "start_printing t uid filename s =
     (set_queue_state t Starting s)\<lparr>holder := Some (Printing uid filename), print_requests := print_requests s @ [filename]\<rparr>"

definition pop_checked :: "rat \<Rightarrow> bool \<Rightarrow> string \<Rightarrow> string \<Rightarrow> bool \<Rightarrow> jq \<Rightarrow> jq" where
  "pop_checked t can_print uid filename need s =
     (if \<not> can_print \<or> queue_state s \<noteq> Loading then pop_fail t s
      else if job_transition_gcode s \<noteq> [] \<and> need then s\<lparr>holder := Some (Transition uid filename)\<rparr>
      else start_printing t uid filename s)"

definition pop_transitioned :: "rat \<Rightarrow> bool \<Rightarrow> string \<Rightarrow> string \<Rightarrow> jq \<Rightarrow> jq" where
  "pop_transitioned t ok uid filename s =
     (if \<not> ok \<or> queue_state s \<noteq> Loading then pop_fail t s else start_printing t uid filename s)"

definition pop_started :: "rat \<Rightarrow> bool \<Rightarrow> string \<Rightarrow> jq \<Rightarrow> jq" where
  "pop_started t ok uid s =
     (if \<not> ok then pop_fail t s
      else
        let s1 = s\<lparr>queued_jobs := ddel uid (queued_jobs s)\<rparr>;
            s2 = (if queue_state s1 = Starting
                  then s1\<lparr>queue_state := if queued_jobs s1 = [] \<or> automatic s1 then Ready else Paused\<rparr> else s1)
        in (send_queue_event t ''job_loaded'' s2)\<lparr>holder := None\<rparr>)"

section \<open>Requests\<close>

text \<open>\<open>ids\<close> are the identifiers of the new jobs, \<open>file_exists\<close> is the check of the file manager.\<close>

definition queue_job :: "(string \<Rightarrow> bool) \<Rightarrow> rat \<Rightarrow> (string \<times> string) list \<Rightarrow> bool \<Rightarrow> bool \<Rightarrow> jq \<Rightarrow> jq res" where
  "queue_job file_exists t jobs check_exists reset s =
     (case (if check_exists then find (\<lambda>(uid, f). \<not> file_exists f) jobs else None) of
        Some (_, f) \<Rightarrow> Inl (AppError (''G-Code File '' @ f @ '' does not exist''))
      | None \<Rightarrow>
          let q = (if reset then [] else queued_jobs s)
          in Inr (send_queue_event t ''jobs_added''
               (s\<lparr>queued_jobs := fold (\<lambda>(uid, f). dset uid \<lparr>job_filename = f, time_added = t\<rparr>) jobs q\<rparr>)))"

definition delete_job :: "rat \<Rightarrow> string list \<Rightarrow> bool \<Rightarrow> jq \<Rightarrow> jq" where
  "delete_job t job_ids all s =
     (if queued_jobs s = [] then s
      else if all then send_queue_event t ''jobs_removed'' (s\<lparr>queued_jobs := []\<rparr>)
      else if job_ids \<noteq> [] then send_queue_event t ''jobs_removed'' (s\<lparr>queued_jobs := fold ddel job_ids (queued_jobs s)\<rparr>)
      else s)"

text \<open>\<open>start_queue\<close> before and after it asks whether it can print.\<close>

definition start_ready :: "rat \<Rightarrow> jq \<Rightarrow> jq" where
  "start_ready t s = (set_queue_state t (idle_state s) s)\<lparr>holder := None\<rparr>"

definition start_begin :: "rat \<Rightarrow> jq \<Rightarrow> jq" where
  "start_begin t s =
     (if queue_state s = Loading then s
      else if queued_jobs s \<noteq> [] then s\<lparr>holder := Some StartCheck\<rparr>
      else start_ready t s)"

definition start_checked :: "rat \<Rightarrow> bool \<Rightarrow> jq \<Rightarrow> jq" where
  "start_checked t can_print s =
     (if can_print then (set_queue_state t Loading s)\<lparr>pop_queue_handle := Some False, holder := None\<rparr> else start_ready t s)"

definition handle_jump :: "string \<Rightarrow> jq \<Rightarrow> jq res" where
  "handle_jump job_id s =
     (case dget (queued_jobs s) job_id of
        None \<Rightarrow> Inl (AppError (''Invalid job id: '' @ job_id))
      | Some j \<Rightarrow> Inr (s\<lparr>queued_jobs := dset_all (ddel job_id (queued_jobs s)) [(job_id, j)]\<rparr>))"

definition handle_job_request ::
  "(string \<Rightarrow> bool) \<Rightarrow> rat \<Rightarrow> string \<Rightarrow> (string \<times> string) list \<Rightarrow> bool \<Rightarrow> string list \<Rightarrow> bool \<Rightarrow> jq \<Rightarrow> (job_info list \<times> jq) res" where
  "handle_job_request file_exists t action jobs reset job_ids all s =
     rbind (if action = ''POST'' then queue_job file_exists t jobs True reset s
            else if action = ''DELETE'' then Inr (if all then delete_job t [] True s else delete_job t job_ids False s)
            else Inl (AppError (''Invalid action: '' @ action)))
       (\<lambda>s'. Inr (job_map_to_list t s', s'))"

section \<open>Interleavings\<close>

text \<open>
  Every method that needs the lock starts when nobody holds it; pausing and the timer need no lock.
  The answers of Klippy come at any time. The label says whether the step may leave the paused state.
\<close>

inductive jq_step :: "bool \<Rightarrow> jq \<Rightarrow> jq \<Rightarrow> bool" where
  klippy_ready: "holder s = None \<Longrightarrow> jq_step True s (jq_handle_ready t s)"
| pause: "jq_step False s (pause_queue t s)"
| shutdown: "holder s = None \<Longrightarrow> jq_step True s (shutdown_end t s)"
| job_complete: "holder s = None \<Longrightarrow> jq_step False s (on_job_complete t s)"
| job_abort: "holder s = None \<Longrightarrow> jq_step False s (on_job_abort t s)"
| timer: "pop_queue_handle s = Some need \<Longrightarrow> jq_step False s (pop_fire need s)"
| pop: "holder s = None \<Longrightarrow> waiting_pops s = need # ws \<Longrightarrow> jq_step False s (pop_begin t need (s\<lparr>waiting_pops := ws\<rparr>))"
| checked: "holder s = Some (Checking uid f need) \<Longrightarrow> jq_step False s (pop_checked t (check_can_print r) uid f need s)"
| transitioned: "holder s = Some (Transition uid f) \<Longrightarrow> jq_step False s (pop_transitioned t ok uid f s)"
| started: "holder s = Some (Printing uid f) \<Longrightarrow> jq_step False s (pop_started t ok uid s)"
| add: "holder s = None \<Longrightarrow> queue_job file_exists t jobs check_exists reset s = Inr s' \<Longrightarrow> jq_step False s s'"
| delete: "holder s = None \<Longrightarrow> jq_step False s (delete_job t ids all s)"
| jump: "holder s = None \<Longrightarrow> handle_jump uid s = Inr s' \<Longrightarrow> jq_step False s s'"
| start: "holder s = None \<Longrightarrow> jq_step True s (start_begin t s)"
| start_answer: "holder s = Some StartCheck \<Longrightarrow> jq_step True s (start_checked t (check_can_print r) s)"

inductive_cases jq_stepE: "jq_step l s s'"

section \<open>What is printed\<close>

definition held_ok :: "stage option \<Rightarrow> (string, job) dict \<Rightarrow> bool" where
  "held_ok h q \<longleftrightarrow>
     (case h of
        Some (Checking uid f _) \<Rightarrow> \<exists>j rest. q = (uid, j) # rest \<and> job_filename j = f
      | Some (Transition uid f) \<Rightarrow> \<exists>j rest. q = (uid, j) # rest \<and> job_filename j = f
      | Some (Printing uid f) \<Rightarrow> \<exists>j rest. q = (uid, j) # rest \<and> job_filename j = f
      | _ \<Rightarrow> True)"

definition jq_inv :: "jq \<Rightarrow> bool" where
  "jq_inv s \<longleftrightarrow> dwf (queued_jobs s) \<and> held_ok (holder s) (queued_jobs s)"

lemma set_queue_state_frame [simp]:
  "queued_jobs (set_queue_state t st s) = queued_jobs s" "holder (set_queue_state t st s) = holder s"
  "queue_state (set_queue_state t st s) = st" "print_requests (set_queue_state t st s) = print_requests s"
  "pop_queue_handle (set_queue_state t st s) = pop_queue_handle s" "automatic (set_queue_state t st s) = automatic s"
  by (simp_all add: set_queue_state_def send_queue_event_def)

lemma send_queue_event_frame [simp]:
  "queued_jobs (send_queue_event t a s) = queued_jobs s" "holder (send_queue_event t a s) = holder s"
  "queue_state (send_queue_event t a s) = queue_state s" "print_requests (send_queue_event t a s) = print_requests s"
  "pop_queue_handle (send_queue_event t a s) = pop_queue_handle s"
  by (simp_all add: send_queue_event_def)

lemma held_ok_simps [simp]:
  "held_ok None q" "held_ok (Some StartCheck) q"
  "held_ok (Some (Checking uid f n)) q \<longleftrightarrow> (\<exists>j rest. q = (uid, j) # rest \<and> job_filename j = f)"
  "held_ok (Some (Transition uid f)) q \<longleftrightarrow> (\<exists>j rest. q = (uid, j) # rest \<and> job_filename j = f)"
  "held_ok (Some (Printing uid f)) q \<longleftrightarrow> (\<exists>j rest. q = (uid, j) # rest \<and> job_filename j = f)"
  by (simp_all add: held_ok_def)

lemma dwf_fold_ddel: "dwf q \<Longrightarrow> dwf (fold ddel ids q)"
  by (induction ids arbitrary: q) auto

lemma dwf_fold_dset: "dwf q \<Longrightarrow> dwf (fold (\<lambda>(uid, f). dset uid (g uid f)) jobs q)"
  by (induction jobs arbitrary: q) auto

lemma queue_job_inv: "queue_job fe t jobs ce reset s = Inr s' \<Longrightarrow> dwf (queued_jobs s) \<Longrightarrow> dwf (queued_jobs s') \<and> holder s' = holder s"
  by (auto simp: queue_job_def Let_def dwf_fold_dset split: option.splits if_splits)

lemma jq_step_inv [inv_intros]: "jq_step l s s' \<Longrightarrow> jq_inv s \<Longrightarrow> jq_inv s'"
proof (induction rule: jq_step.induct)
  case (add s fe t jobs ce reset s')
  then show ?case using queue_job_inv [OF add(2)] by (simp add: jq_inv_def)
next
  case (jump s uid s')
  then show ?case by (auto simp: jq_inv_def handle_jump_def split: option.splits)
next
  case (pop s need ws t)
  then show ?case by (auto simp: jq_inv_def pop_begin_def Let_def split: list.splits prod.splits)
qed (auto simp: jq_inv_def jq_handle_ready_def pause_queue_def shutdown_end_def on_job_complete_def on_job_abort_def pop_fire_def
    pop_checked_def pop_fail_def start_printing_def pop_transitioned_def pop_started_def delete_job_def start_begin_def start_ready_def
    start_checked_def Let_def dwf_fold_ddel)

definition jq_steps :: "jq \<Rightarrow> jq \<Rightarrow> bool" where
  "jq_steps = (\<lambda>s s'. \<exists>l. jq_step l s s')\<^sup>*\<^sup>*"

lemma jq_steps_inv: "jq_steps s s' \<Longrightarrow> jq_inv s \<Longrightarrow> jq_inv s'"
  unfolding jq_steps_def by (induction rule: rtranclp_induct) (auto intro: jq_step_inv)

text \<open>C12: in every interleaving, when Klippy is asked to print a file, it is the file of the first job, which
  nobody has removed meanwhile; if the print starts, exactly that job leaves the queue, and if it
  fails, the queue keeps all its jobs and pauses.\<close>
theorem prints_first_job:
  assumes "jq_steps (new_jq auto load g) s" "holder s = Some (Printing uid f)"
  shows "\<exists>j rest. queued_jobs s = (uid, j) # rest \<and> job_filename j = f \<and>
    queued_jobs (pop_started t True uid s) = rest \<and>
    queued_jobs (pop_started t False uid s) = queued_jobs s \<and> queue_state (pop_started t False uid s) = Paused"
proof -
  have "jq_inv (new_jq auto load g)" by (simp add: jq_inv_def new_jq_def)
  with jq_steps_inv [OF assms(1)] have inv: "jq_inv s" .
  then obtain j rest where q: "queued_jobs s = (uid, j) # rest" "job_filename j = f" using assms(2) by (auto simp: jq_inv_def)
  have "\<not> din uid rest" using inv q by (auto simp: jq_inv_def din_iff)
  then have "ddel uid ((uid, j) # rest) = rest" using ddel_absent [of uid rest] by simp
  with q show ?thesis by (simp add: pop_started_def pop_fail_def Let_def)
qed

section \<open>Pausing\<close>

definition at_rest :: "jq \<Rightarrow> bool" where
  "at_rest s \<longleftrightarrow> queue_state s = Paused \<and> pop_queue_handle s = None \<and>
     (\<forall>uid f. holder s \<noteq> Some (Printing uid f)) \<and> holder s \<noteq> Some StartCheck"

lemma at_rest_step: "jq_step l s s' \<Longrightarrow> \<not> l \<Longrightarrow> at_rest s \<Longrightarrow> at_rest s' \<and> print_requests s' = print_requests s"
proof (induction rule: jq_step.induct)
  case (add s fe t jobs ce reset s')
  then show ?case by (auto simp: at_rest_def queue_job_def Let_def split: option.splits if_splits)
next
  case (jump s uid s')
  then show ?case by (auto simp: at_rest_def handle_jump_def split: option.splits)
qed (auto simp: at_rest_def pause_queue_def on_job_complete_def on_job_abort_def pop_fire_def pop_begin_def
    pop_checked_def pop_fail_def pop_transitioned_def delete_job_def Let_def)

text \<open>once the queue is paused, nothing is printed until it is started again: whatever was already
  under way when it was paused, short of the request to print itself, and whatever jobs are added,
  removed or moved, no print is requested and it stays paused.\<close>
theorem paused_queue_prints_nothing:
  assumes "(jq_step False)\<^sup>*\<^sup>* (pause_queue t s) s'" "\<forall>uid f. holder s \<noteq> Some (Printing uid f)" "holder s \<noteq> Some StartCheck"
  shows "queue_state s' = Paused \<and> print_requests s' = print_requests s"
proof -
  have p: "at_rest (pause_queue t s)" "print_requests (pause_queue t s) = print_requests s"
    using assms(2,3) by (simp_all add: at_rest_def pause_queue_def)
  from assms(1) have "at_rest s' \<and> print_requests s' = print_requests s"
  proof (induction rule: rtranclp_induct)
    case base
    from p show ?case by simp
  next
    case (step y z)
    with at_rest_step [OF step(2)] show ?case by simp
  qed
  then show ?thesis by (simp add: at_rest_def)
qed

section \<open>An instance\<close>

definition jq1 :: jq where
  "jq1 = (case queue_job (\<lambda>_. True) 0 [(''1'', ''a.g''), (''2'', ''b.g'')] True False (new_jq True False []) of Inr s \<Rightarrow> s)"

definition jq2 :: jq where
  "jq2 = pop_fire True (on_job_complete 0 jq1)"

definition jq3 :: jq where
  "jq3 = pop_begin 0 True (jq2\<lparr>waiting_pops := []\<rparr>)"

definition jq4 :: jq where
  "jq4 = pop_checked 0 True ''1'' ''a.g'' True jq3"

lemma jq1_eval:
  "jq1 = \<lparr>queued_jobs = [(''1'', \<lparr>job_filename = ''a.g'', time_added = 0\<rparr>), (''2'', \<lparr>job_filename = ''b.g'', time_added = 0\<rparr>)],
     queue_state = Ready, automatic = True, load_on_start = False, job_transition_gcode = [], pop_queue_handle = None,
     waiting_pops = [], holder = None,
     jq_events = [(''jobs_added'', Some [(''a.g'', ''1'', 0, 0), (''b.g'', ''2'', 0, 0)], Ready)], print_requests = []\<rparr>"
  by code_simp

lemma jq_example_guards:
  "pop_queue_handle (on_job_complete 0 jq1) = Some True" "holder jq1 = None" "holder jq2 = None" "waiting_pops jq2 = [True]"
  "holder jq3 = Some (Checking ''1'' ''a.g'' True)" "holder jq4 = Some (Printing ''1'' ''a.g'')" "queued_jobs jq4 = queued_jobs jq1"
  by (simp_all add: jq2_def jq3_def jq4_def jq1_eval on_job_complete_def pop_fire_def pop_begin_def pop_checked_def start_printing_def
      set_queue_state_def send_queue_event_def)

lemma jq_example_run: "jq_steps (new_jq True False []) jq1" "jq_steps jq1 jq4"
proof -
  have "queue_job (\<lambda>_. True) 0 [(''1'', ''a.g''), (''2'', ''b.g'')] True False (new_jq True False []) = Inr jq1"
    unfolding jq1_def by (simp add: queue_job_def)
  from jq_step.add [OF _ this] show "jq_steps (new_jq True False []) jq1"
    unfolding jq_steps_def by (intro r_into_rtranclp exI [of _ False]) (simp add: new_jq_def)
  have "jq_step False jq1 (on_job_complete 0 jq1)" by (rule jq_step.job_complete) (rule jq_example_guards)
  moreover have "jq_step False (on_job_complete 0 jq1) jq2" unfolding jq2_def by (rule jq_step.timer) (rule jq_example_guards)
  moreover have "jq_step False jq2 jq3" unfolding jq3_def by (rule jq_step.pop) (rule jq_example_guards)+
  moreover have "jq_step False jq3 jq4"
    using jq_step.checked [OF jq_example_guards(5), of 0 "Inr (Some ''complete'')"] by (simp add: jq4_def check_can_print_def)
  ultimately have "(jq_step False)\<^sup>*\<^sup>* jq1 jq4" by (meson rtranclp.rtrancl_refl rtranclp.rtrancl_into_rtrancl)
  then show "jq_steps jq1 jq4" unfolding jq_steps_def by (rule rtranclp_mono [THEN predicate2D, rotated]) auto
qed

theorem prints_first_job_witness:
  "jq_steps (new_jq True False []) jq4 \<and> holder jq4 = Some (Printing ''1'' ''a.g'') \<and>
   map fst (queued_jobs (pop_started 0 True ''1'' jq4)) = [''2'']"
proof -
  have r: "jq_steps (new_jq True False []) jq4"
    using jq_example_run unfolding jq_steps_def by (rule rtranclp_trans)
  from prints_first_job [OF r jq_example_guards(6), of 0] r jq_example_guards(6,7) show ?thesis by (auto simp: jq1_eval)
qed

theorem paused_queue_prints_nothing_witness:
  "(jq_step False)\<^sup>*\<^sup>* (pause_queue 0 jq3) (pop_checked 0 True ''1'' ''a.g'' True (pause_queue 0 jq3)) \<and>
   queue_state (pop_checked 0 True ''1'' ''a.g'' True (pause_queue 0 jq3)) = Paused \<and>
   print_requests (pop_checked 0 True ''1'' ''a.g'' True (pause_queue 0 jq3)) = print_requests jq3"
proof -
  have "holder (pause_queue 0 jq3) = Some (Checking ''1'' ''a.g'' True)" by (simp add: pause_queue_def jq_example_guards)
  from jq_step.checked [OF this, of 0 "Inr (Some ''complete'')"]
  have r: "(jq_step False)\<^sup>*\<^sup>* (pause_queue 0 jq3) (pop_checked 0 True ''1'' ''a.g'' True (pause_queue 0 jq3))"
    by (simp add: check_can_print_def r_into_rtranclp)
  moreover have "\<forall>uid f. holder jq3 \<noteq> Some (Printing uid f)" "holder jq3 \<noteq> Some StartCheck" by (simp_all add: jq_example_guards)
  ultimately show ?thesis using paused_queue_prints_nothing [OF r] by blast
qed

end
