(* ===== verification/ConfigWrapper.thy ===== *)
theory ConfigWrapper
  imports PyPrelude
begin

text \<open>
  \<open>klippy/configfile.py\<close>: how an option of a section is read (\<open>ConfigWrapper\<close>).

  The parser of the option (\<open>configparser\<close>, \<open>float\<close>, \<open>int\<close>) has been applied: an option is absent, or fails to parse, or has a value.
\<close>

datatype 'a option_value = Absent | Unparsed | Parsed 'a

datatype 'a bound = Minval 'a | Maxval 'a | Above 'a | Below 'a

fun within :: "'a :: linorder \<Rightarrow> 'a bound \<Rightarrow> bool" where
  "within v (Minval b) \<longleftrightarrow> b \<le> v"
| "within v (Maxval b) \<longleftrightarrow> v \<le> b"
| "within v (Above b) \<longleftrightarrow> b < v"
| "within v (Below b) \<longleftrightarrow> v < b"

fun bound_error :: "'a bound \<Rightarrow> string" where
  "bound_error (Minval b) = ''must have minimum''"
| "bound_error (Maxval b) = ''must have maximum''"
| "bound_error (Above b) = ''must be above''"
| "bound_error (Below b) = ''must be below''"

text \<open>The bounds are tried in the order minimum, maximum, above, below; callers list them in this order. A default is not checked.\<close>

fun check_bounds :: "'a :: linorder bound list \<Rightarrow> 'a \<Rightarrow> 'a res" where
  "check_bounds [] v = Inr v"
| "check_bounds (b # bs) v = (if within v b then check_bounds bs v else Inl (AppError (bound_error b)))"

fun get_wrapper :: "'a :: linorder option_value \<Rightarrow> 'a option \<Rightarrow> 'a bound list \<Rightarrow> 'a res" where
  "get_wrapper Absent None bs = Inl (AppError ''must be specified'')"
| "get_wrapper Absent (Some d) bs = Inr d"
| "get_wrapper Unparsed d bs = Inl (AppError ''Unable to parse option'')"
| "get_wrapper (Parsed v) d bs = check_bounds bs v"

lemma check_bounds_Inr: "check_bounds bs v = Inr w \<longleftrightarrow> w = v \<and> list_all (within v) bs"
  by (induction bs) auto

lemma get_wrapper_Inr: "get_wrapper x d bs = Inr w \<longleftrightarrow>
    (case x of Absent \<Rightarrow> d = Some w | Unparsed \<Rightarrow> False | Parsed v \<Rightarrow> w = v \<and> list_all (within v) bs)"
  by (cases x; cases d) (auto simp: check_bounds_Inr)

text \<open>An option that was read is its default or within its bounds.\<close>

lemma get_wrapper_bounds: "get_wrapper x d bs = Inr w \<Longrightarrow> list_all (within w) bs \<or> d = Some w"
  by (auto simp: get_wrapper_Inr split: option_value.splits)

end
