(* ===== verification/MathUtil.thy ===== *)
theory MathUtil
  imports PyPrelude Complex_Main
begin

text \<open>
  \<open>klippy/mathutil.py\<close>: helpers for vectors of three numbers, trilateration, and coordinate descent.

  Numbers are reals; \<open>math.sqrt\<close> and division raise where Python's do. The error function of the descent is a parameter that
  may raise; running it in a background process is left out.
\<close>

section \<open>Numbers that may not exist\<close>

definition py_sqrt :: "real \<Rightarrow> real res" where
  "py_sqrt x = (if x < 0 then Inl ValueError else Inr (sqrt x))"

definition py_div :: "real \<Rightarrow> real \<Rightarrow> real res" where
  "py_div x y = (if y = 0 then Inl ZeroDivisionError else Inr (x / y))"

lemma py_sqrt_eq_Inr: "py_sqrt x = Inr y \<longleftrightarrow> 0 \<le> x \<and> y = sqrt x"
  by (auto simp: py_sqrt_def)

lemma py_div_eq_Inr: "py_div x y = Inr z \<longleftrightarrow> y \<noteq> 0 \<and> z = x / y"
  by (auto simp: py_div_def)

section \<open>Vectors\<close>

type_synonym v3 = "real \<times> real \<times> real"

fun matrix_cross :: "v3 \<Rightarrow> v3 \<Rightarrow> v3" where
  "matrix_cross (a0, a1, a2) (b0, b1, b2) = (a1 * b2 - a2 * b1, a2 * b0 - a0 * b2, a0 * b1 - a1 * b0)"

fun matrix_dot :: "v3 \<Rightarrow> v3 \<Rightarrow> real" where
  "matrix_dot (a0, a1, a2) (b0, b1, b2) = a0 * b0 + a1 * b1 + a2 * b2"

fun matrix_magsq :: "v3 \<Rightarrow> real" where
  "matrix_magsq (a0, a1, a2) = a0\<^sup>2 + a1\<^sup>2 + a2\<^sup>2"

fun matrix_add :: "v3 \<Rightarrow> v3 \<Rightarrow> v3" where
  "matrix_add (a0, a1, a2) (b0, b1, b2) = (a0 + b0, a1 + b1, a2 + b2)"

fun matrix_sub :: "v3 \<Rightarrow> v3 \<Rightarrow> v3" where
  "matrix_sub (a0, a1, a2) (b0, b1, b2) = (a0 - b0, a1 - b1, a2 - b2)"

fun matrix_mul :: "v3 \<Rightarrow> real \<Rightarrow> v3" where
  "matrix_mul (a0, a1, a2) s = (a0 * s, a1 * s, a2 * s)"

section \<open>Trilateration\<close>

definition trilateration :: "v3 \<times> v3 \<times> v3 \<Rightarrow> real \<times> real \<times> real \<Rightarrow> v3 res" where
  "trilateration sphere_coords radius2 =
     (let (c1, c2, c3) = sphere_coords; (q1, q2, q3) = radius2;
          s21 = matrix_sub c2 c1; s31 = matrix_sub c3 c1;
          d = sqrt (matrix_magsq s21)
      in rbind (py_div 1 d) (\<lambda>inv_d.
         let ex = matrix_mul s21 inv_d; i = matrix_dot ex s31;
             vect_ey = matrix_sub s31 (matrix_mul ex i)
         in rbind (py_div 1 (sqrt (matrix_magsq vect_ey))) (\<lambda>inv_ey.
            let ey = matrix_mul vect_ey inv_ey; ez = matrix_cross ex ey; j = matrix_dot ey s31;
                x = (q1 - q2 + d\<^sup>2) / (2 * d)
            in rbind (py_div (q1 - q3 - x\<^sup>2 + (x - i)\<^sup>2 + j\<^sup>2) (2 * j)) (\<lambda>y.
               rbind (py_sqrt (q1 - x\<^sup>2 - y\<^sup>2)) (\<lambda>r.
               let z = - r
               in Inr (matrix_add c1 (matrix_add (matrix_mul ex x) (matrix_add (matrix_mul ey y) (matrix_mul ez z)))))))))"

definition on_sphere :: "v3 \<Rightarrow> real \<Rightarrow> v3 \<Rightarrow> bool" where
  "on_sphere c r2 p \<longleftrightarrow> matrix_magsq (matrix_sub p c) = r2"

text \<open>The side of the plane through the three centres a point is on: positive on the side of \<open>s21 \<times> s31\<close>.\<close>

definition side :: "v3 \<Rightarrow> v3 \<Rightarrow> v3 \<Rightarrow> v3 \<Rightarrow> real" where
  "side c1 c2 c3 p = matrix_dot (matrix_sub p c1) (matrix_cross (matrix_sub c2 c1) (matrix_sub c3 c1))"

lemma magsq_nonneg: "0 \<le> matrix_magsq v"
  by (cases v) simp

lemma magsq_dot: "matrix_magsq v = matrix_dot v v"
  by (cases v) (simp add: power2_eq_square)

lemma dot_linear:
  "matrix_dot u (matrix_mul v k) = k * matrix_dot u v" "matrix_dot (matrix_mul v k) u = k * matrix_dot v u"
  "matrix_dot u (matrix_sub v w) = matrix_dot u v - matrix_dot u w" "matrix_dot u (matrix_add v w) = matrix_dot u v + matrix_dot u w"
  by (cases u, cases v, cases w, simp add: algebra_simps)+

lemma dot_commute: "matrix_dot u v = matrix_dot v u"
  by (cases u, cases v) (simp add: mult.commute)

lemma mul_mul: "matrix_mul (matrix_mul v k) l = matrix_mul v (k * l)" "matrix_mul v 1 = v"
  by (cases v, simp)+

text \<open>A vector from its coordinates in a basis.\<close>

definition combine :: "v3 \<Rightarrow> v3 \<Rightarrow> v3 \<Rightarrow> v3 \<Rightarrow> v3" where
  "combine ex ey ez = (\<lambda>(a, b, c). matrix_add (matrix_mul ex a) (matrix_add (matrix_mul ey b) (matrix_mul ez c)))"

definition orthonormal :: "v3 \<Rightarrow> v3 \<Rightarrow> v3 \<Rightarrow> bool" where
  "orthonormal ex ey ez \<longleftrightarrow> matrix_dot ex ex = 1 \<and> matrix_dot ey ey = 1 \<and> matrix_dot ez ez = 1 \<and>
     matrix_dot ex ey = 0 \<and> matrix_dot ex ez = 0 \<and> matrix_dot ey ez = 0"

lemma cross_basis:
  assumes "matrix_dot ex ex = 1" "matrix_dot ey ey = 1" "matrix_dot ex ey = 0"
  defines "ez \<equiv> matrix_cross ex ey"
  shows "orthonormal ex ey ez" "v = combine ex ey ez (matrix_dot v ex, matrix_dot v ey, matrix_dot v ez)"
proof -
  obtain x0 x1 x2 y0 y1 y2 v0 v1 v2 where e: "ex = (x0, x1, x2)" "ey = (y0, y1, y2)" "v = (v0, v1, v2)"
    by (cases ex, cases ey, cases v)
  have o: "x0 * x0 + x1 * x1 + x2 * x2 = 1" "y0 * y0 + y1 * y1 + y2 * y2 = 1" "x0 * y0 + x1 * y1 + x2 * y2 = 0"
    using assms(1-3) by (simp_all add: e)
  define z0 z1 z2 where z: "z0 = x1 * y2 - x2 * y1" "z1 = x2 * y0 - x0 * y2" "z2 = x0 * y1 - x1 * y0"
  have ez: "ez = (z0, z1, z2)" by (simp add: ez_def e z)
  have row: "z0 * z0 + z1 * z1 + z2 * z2 = 1" "x0 * z0 + x1 * z1 + x2 * z2 = 0" "y0 * z0 + y1 * z1 + y2 * z2 = 0"
    using o unfolding z by algebra+
  have col: "x0 * x0 + y0 * y0 + z0 * z0 = 1" "x1 * x1 + y1 * y1 + z1 * z1 = 1" "x2 * x2 + y2 * y2 + z2 * z2 = 1"
    "x0 * x1 + y0 * y1 + z0 * z1 = 0" "x0 * x2 + y0 * y2 + z0 * z2 = 0" "x1 * x2 + y1 * y2 + z1 * z2 = 0"
    using o unfolding z by algebra+
  show "orthonormal ex ey ez" using row assms(1-3) by (simp add: orthonormal_def e ez)
  show "v = combine ex ey ez (matrix_dot v ex, matrix_dot v ey, matrix_dot v ez)"
    unfolding e ez combine_def using col by simp (intro conjI; algebra)
qed

lemma combine_magsq:
  assumes "orthonormal ex ey ez" shows "matrix_magsq (combine ex ey ez (a, b, c)) = a\<^sup>2 + b\<^sup>2 + c\<^sup>2"
proof -
  obtain x0 x1 x2 y0 y1 y2 z0 z1 z2 where e: "ex = (x0, x1, x2)" "ey = (y0, y1, y2)" "ez = (z0, z1, z2)"
    by (cases ex, cases ey, cases ez)
  show ?thesis using assms unfolding e combine_def orthonormal_def by simp algebra
qed

lemma combine_inj:
  assumes "orthonormal ex ey ez" "combine ex ey ez (a, b, c) = combine ex ey ez (a', b', c')"
  shows "(a, b, c) = (a', b', c')"
proof -
  define coords where "coords p = (matrix_dot ex p, matrix_dot ey p, matrix_dot ez p)" for p
  have c: "coords (combine ex ey ez (u, v, w)) = (u, v, w)" for u v w
  proof -
    have "matrix_dot ey ex = 0" "matrix_dot ez ex = 0" "matrix_dot ez ey = 0"
      using assms(1) dot_commute[of ex ey] dot_commute[of ex ez] dot_commute[of ey ez] by (simp_all add: orthonormal_def)
    then show ?thesis using assms(1) by (simp add: coords_def combine_def dot_linear orthonormal_def)
  qed
  show ?thesis using arg_cong[OF assms(2), of coords] by (simp only: c)
qed

lemma combine_sub: "matrix_sub (combine ex ey ez (a, b, c)) (combine ex ey ez (a', b', c')) = combine ex ey ez (a - a', b - b', c - c')"
  by (cases ex, cases ey, cases ez) (simp add: combine_def algebra_simps)

lemma sub_via: "matrix_sub p c = matrix_sub (matrix_sub p b) (matrix_sub c b)"
  by (cases p, cases b, cases c) simp

lemma add_sub_cancel: "matrix_sub (matrix_add c v) c = v" "matrix_add c (matrix_sub p c) = p"
  by (cases p, cases c, cases v, simp)+

lemma combine_dot_cross:
  assumes "orthonormal ex ey (matrix_cross ex ey)"
  shows "matrix_dot (combine ex ey (matrix_cross ex ey) (a, b, c))
     (matrix_cross (combine ex ey (matrix_cross ex ey) (d, 0, 0)) (combine ex ey (matrix_cross ex ey) (i, j, 0))) = d * j * c"
proof -
  obtain x0 x1 x2 y0 y1 y2 where e: "ex = (x0, x1, x2)" "ey = (y0, y1, y2)"
    by (cases ex, cases ey)
  show ?thesis using assms unfolding e combine_def orthonormal_def by simp algebra
qed

text \<open>What \<open>trilateration\<close> computes with: the basis, and the coordinates of the centres in it.\<close>

lemma normalized:
  assumes "sqrt (matrix_magsq v) \<noteq> 0"
  defines "n \<equiv> sqrt (matrix_magsq v)"
  shows "matrix_dot (matrix_mul v (1 / n)) (matrix_mul v (1 / n)) = 1" "matrix_mul (matrix_mul v (1 / n)) n = v"
    "matrix_dot v (matrix_mul v (1 / n)) = n"
proof -
  have n: "n \<noteq> 0" "matrix_dot v v = n * n"
    using assms magsq_nonneg[of v] by (auto simp: n_def magsq_dot)
  show "matrix_dot (matrix_mul v (1 / n)) (matrix_mul v (1 / n)) = 1" "matrix_mul (matrix_mul v (1 / n)) n = v"
    "matrix_dot v (matrix_mul v (1 / n)) = n"
    using n(1) by (simp_all add: dot_linear n(2) mul_mul)
qed

lemma basis_of:
  fixes s21 s31 :: v3
  defines "d \<equiv> sqrt (matrix_magsq s21)"
  defines "ex \<equiv> matrix_mul s21 (1 / d)"
  defines "i \<equiv> matrix_dot ex s31"
  defines "vy \<equiv> matrix_sub s31 (matrix_mul ex i)"
  defines "ey \<equiv> matrix_mul vy (1 / sqrt (matrix_magsq vy))"
  defines "ez \<equiv> matrix_cross ex ey"
  assumes d: "d \<noteq> 0" and e: "sqrt (matrix_magsq vy) \<noteq> 0"
  shows "orthonormal ex ey ez" "\<exists>a b c. v = combine ex ey ez (a, b, c)" "s21 = combine ex ey ez (d, 0, 0)"
    "s31 = combine ex ey ez (i, matrix_dot ey s31, 0)" "0 < d" "matrix_dot ey s31 = sqrt (matrix_magsq vy)"
proof -
  note nx = normalized[OF d[unfolded d_def], folded d_def, folded ex_def]
  note ny = normalized[OF e, folded ey_def]
  have x0: "matrix_dot ex vy = 0"
    by (simp add: vy_def i_def dot_linear nx(1))
  then have "matrix_dot ex ey = 0" by (simp add: ey_def dot_linear)
  note b = cross_basis[OF nx(1) ny(1) this, folded ez_def]
  show "orthonormal ex ey ez" "\<exists>a b c. v = combine ex ey ez (a, b, c)" using b by blast+
  show "s21 = combine ex ey ez (d, 0, 0)"
    unfolding combine_def using nx(2) by (cases ex, cases ey, cases ez) auto
  have s31: "s31 = matrix_add vy (matrix_mul ex i)" unfolding vy_def by (cases s31, cases ex) simp
  have "matrix_dot ey s31 = matrix_dot vy ey"
    using \<open>matrix_dot ex ey = 0\<close> by (subst s31) (simp add: dot_linear dot_commute[of ey])
  then show j: "matrix_dot ey s31 = sqrt (matrix_magsq vy)" using ny(3) by simp
  show "s31 = combine ex ey ez (i, matrix_dot ey s31, 0)"
    unfolding combine_def j using ny(2) s31
    by (cases ex, cases ey, cases ez, cases vy) auto
  show "0 < d" using d magsq_nonneg[of s21] by (simp add: d_def less_le)
qed

lemma sphere_coords:
  assumes o: "orthonormal ex ey ez" and p: "p = matrix_add c1 (combine ex ey ez (a, b, c))"
    and s: "matrix_sub c2 c1 = combine ex ey ez (a', b', c')"
  shows "on_sphere c2 q p \<longleftrightarrow> (a - a')\<^sup>2 + (b - b')\<^sup>2 + (c - c')\<^sup>2 = q"
  unfolding on_sphere_def sub_via[of p c2 c1] by (simp add: p s add_sub_cancel combine_sub combine_magsq[OF o])

definition on_spheres :: "v3 \<times> v3 \<times> v3 \<Rightarrow> real \<times> real \<times> real \<Rightarrow> v3 \<Rightarrow> bool" where
  "on_spheres = (\<lambda>(c1, c2, c3) (q1, q2, q3) p. on_sphere c1 q1 p \<and> on_sphere c2 q2 p \<and> on_sphere c3 q3 p)"

definition in_line :: "v3 \<times> v3 \<times> v3 \<Rightarrow> bool" where
  "in_line = (\<lambda>(c1, c2, c3). matrix_cross (matrix_sub c2 c1) (matrix_sub c3 c1) = (0, 0, 0))"

lemma magsq_0: "matrix_magsq v = 0 \<longleftrightarrow> v = (0, 0, 0)"
  by (cases v) (auto simp: sum_power2_eq_zero_iff add_nonneg_eq_0_iff)

text \<open>The frame \<open>trilateration\<close> works in. In it a point on the three spheres has the coordinates \<open>x\<close> and \<open>y\<close>.\<close>

lemma trilateration_frame:
  assumes "\<not> in_line (c1, c2, c3)"
  obtains frame x y k where
    "trilateration (c1, c2, c3) (q1, q2, q3) =
       rbind (py_sqrt (q1 - x\<^sup>2 - y\<^sup>2)) (\<lambda>r. Inr (matrix_add c1 (frame (x, y, - r))))"
    "\<And>a b c. on_spheres (c1, c2, c3) (q1, q2, q3) (matrix_add c1 (frame (a, b, c))) \<longleftrightarrow> a = x \<and> b = y \<and> c\<^sup>2 = q1 - x\<^sup>2 - y\<^sup>2"
    "\<And>a b c. side c1 c2 c3 (matrix_add c1 (frame (a, b, c))) = k * c" "0 < k"
    "\<And>p. \<exists>a b c. p = matrix_add c1 (frame (a, b, c))"
proof -
  define s21 s31 where s: "s21 = matrix_sub c2 c1" "s31 = matrix_sub c3 c1"
  define d where "d = sqrt (matrix_magsq s21)"
  define ex where "ex = matrix_mul s21 (1 / d)"
  define i where "i = matrix_dot ex s31"
  define vy where "vy = matrix_sub s31 (matrix_mul ex i)"
  define ey where "ey = matrix_mul vy (1 / sqrt (matrix_magsq vy))"
  define ez where "ez = matrix_cross ex ey"
  define j where "j = matrix_dot ey s31"
  define x where "x = (q1 - q2 + d\<^sup>2) / (2 * d)"
  define y where "y = (q1 - q3 - x\<^sup>2 + (x - i)\<^sup>2 + j\<^sup>2) / (2 * j)"
  have cr: "matrix_cross s21 s31 \<noteq> (0, 0, 0)" using assms by (simp add: in_line_def s)
  then have d: "d \<noteq> 0" by (cases s31) (auto simp: d_def magsq_0)
  have "vy \<noteq> (0, 0, 0)"
  proof
    assume "vy = (0, 0, 0)"
    then have "s31 = matrix_mul s21 (1 / d * i)" by (cases s31, cases s21) (simp add: vy_def ex_def)
    then show False using cr by (cases s21) simp
  qed
  then have vy: "sqrt (matrix_magsq vy) \<noteq> 0" by (simp add: magsq_0)
  note b = basis_of[of s21 s31, folded d_def, folded ex_def, folded i_def, folded vy_def, folded ey_def, folded ez_def, folded j_def, OF d vy]
  have j: "0 < j" using b(6) vy magsq_nonneg[of vy] by (simp add: less_le)
  define frame where "frame = combine ex ey ez"
  have "trilateration (c1, c2, c3) (q1, q2, q3) =
      rbind (py_sqrt (q1 - x\<^sup>2 - y\<^sup>2)) (\<lambda>r. Inr (matrix_add c1 (frame (x, y, - r))))"
    using d vy j unfolding trilateration_def Let_def prod.case
    by (simp add: py_div_def s[symmetric] frame_def combine_def d_def ex_def i_def vy_def ey_def ez_def j_def x_def y_def)
  moreover have "on_spheres (c1, c2, c3) (q1, q2, q3) (matrix_add c1 (frame (a, b', c))) \<longleftrightarrow> a = x \<and> b' = y \<and> c\<^sup>2 = q1 - x\<^sup>2 - y\<^sup>2"
    for a b' c
  proof -
    have s0: "matrix_sub c1 c1 = combine ex ey ez (0, 0, 0)" by (cases c1, cases ex, cases ey, cases ez) (simp add: combine_def)
    note sp = sphere_coords[OF b(1) refl s0, where a = a and b = b' and c = c] sphere_coords[OF b(1) refl b(3)[unfolded s], where a = a and b = b' and c = c]
      sphere_coords[OF b(1) refl b(4)[unfolded s], where a = a and b = b' and c = c]
    have y: "2 * j * y = q1 - q3 - x\<^sup>2 + (x - i)\<^sup>2 + j\<^sup>2" and x: "2 * d * x = q1 - q2 + d\<^sup>2"
      using j b(5) by (simp_all add: y_def x_def)
    have sq: "u\<^sup>2 - (u - w)\<^sup>2 = 2 * w * u - w\<^sup>2" for u w :: real by (simp add: power2_eq_square algebra_simps)
    have "a\<^sup>2 + b'\<^sup>2 + c\<^sup>2 = q1 \<and> (a - d)\<^sup>2 + b'\<^sup>2 + c\<^sup>2 = q2 \<longleftrightarrow> a\<^sup>2 + b'\<^sup>2 + c\<^sup>2 = q1 \<and> 2 * d * a = 2 * d * x"
      using x sq[of a d] by linarith
    then have 1: "a\<^sup>2 + b'\<^sup>2 + c\<^sup>2 = q1 \<and> (a - d)\<^sup>2 + b'\<^sup>2 + c\<^sup>2 = q2 \<longleftrightarrow> a\<^sup>2 + b'\<^sup>2 + c\<^sup>2 = q1 \<and> a = x" using b(5) by simp
    have "x\<^sup>2 + b'\<^sup>2 + c\<^sup>2 = q1 \<and> (x - i)\<^sup>2 + (b' - j)\<^sup>2 + c\<^sup>2 = q3 \<longleftrightarrow> x\<^sup>2 + b'\<^sup>2 + c\<^sup>2 = q1 \<and> 2 * j * b' = 2 * j * y"
      using y sq[of b' j] by linarith
    then have 2: "x\<^sup>2 + b'\<^sup>2 + c\<^sup>2 = q1 \<and> (x - i)\<^sup>2 + (b' - j)\<^sup>2 + c\<^sup>2 = q3 \<longleftrightarrow> x\<^sup>2 + b'\<^sup>2 + c\<^sup>2 = q1 \<and> b' = y" using j by simp
    have "x\<^sup>2 + y\<^sup>2 + c\<^sup>2 = q1 \<longleftrightarrow> c\<^sup>2 = q1 - x\<^sup>2 - y\<^sup>2" by linarith
    then show ?thesis using 1 2 by (simp only: on_spheres_def prod.case frame_def sp diff_zero) blast
  qed
  moreover have "side c1 c2 c3 (matrix_add c1 (frame (a, b', c))) = d * j * c" for a b' c
    unfolding side_def add_sub_cancel frame_def s[symmetric]
    using combine_dot_cross[OF b(1)[unfolded ez_def], folded ez_def, of a b' c d i j] b(3,4) by metis
  moreover have "0 < d * j" using b(5) j by simp
  moreover have "\<exists>a b c. p = matrix_add c1 (frame (a, b, c))" for p
  proof -
    obtain a b' c where "matrix_sub p c1 = frame (a, b', c)" using b(2) frame_def by metis
    then show ?thesis using add_sub_cancel(2) by metis
  qed
  ultimately show thesis by (rule that)
qed

lemma in_line_raises: "in_line cs \<Longrightarrow> \<exists>e. trilateration cs qs = Inl e"
proof -
  assume l: "in_line cs"
  obtain c1 c2 c3 q1 q2 q3 where c: "cs = (c1, c2, c3)" "qs = (q1, q2, q3)" by (cases cs, cases qs)
  define s21 s31 where s: "s21 = matrix_sub c2 c1" "s31 = matrix_sub c3 c1"
  define d where "d = sqrt (matrix_magsq s21)"
  define ex where "ex = matrix_mul s21 (1 / d)"
  define vy where "vy = matrix_sub s31 (matrix_mul ex (matrix_dot ex s31))"
  have "d = 0 \<or> sqrt (matrix_magsq vy) = 0"
  proof (rule ccontr, simp only: de_Morgan_disj)
    assume h: "d \<noteq> 0 \<and> sqrt (matrix_magsq vy) \<noteq> 0"
    note b = basis_of[of s21 s31, folded d_def, folded ex_def, folded vy_def, OF conjunct1[OF h] conjunct2[OF h]]
    have "matrix_cross s21 s31 = (0, 0, 0)" using l by (simp add: in_line_def c s)
    then have "matrix_dot v (matrix_cross s21 s31) = 0" for v by (cases v) simp
    then have "d * sqrt (matrix_magsq vy) = 0"
      using combine_dot_cross[OF b(1), of 0 0 1 d "matrix_dot ex s31"] b(3,4,6) by (metis mult.right_neutral)
    then show False using h by simp
  qed
  then show ?thesis
    unfolding c trilateration_def Let_def prod.case s[symmetric] d_def[symmetric] ex_def[symmetric] vy_def[symmetric]
    by (cases "d = 0") (auto simp: py_div_def vy_def ex_def)
qed

lemma trilateration_cases:
  "case trilateration (c1, c2, c3) qs of
     Inr p \<Rightarrow> \<not> in_line (c1, c2, c3) \<and> {r. on_spheres (c1, c2, c3) qs r \<and> side c1 c2 c3 r \<le> 0} = {p}
   | Inl e \<Rightarrow> in_line (c1, c2, c3) \<or> {r. on_spheres (c1, c2, c3) qs r} = {}"
proof (cases "in_line (c1, c2, c3)")
  case True
  then show ?thesis using in_line_raises[OF True, of qs] by auto
next
  case False
  obtain q1 q2 q3 where q: "qs = (q1, q2, q3)" by (cases qs)
  from False obtain frame x y k where f:
    "trilateration (c1, c2, c3) (q1, q2, q3) = rbind (py_sqrt (q1 - x\<^sup>2 - y\<^sup>2)) (\<lambda>r. Inr (matrix_add c1 (frame (x, y, - r))))"
    and on: "\<And>a b c. on_spheres (c1, c2, c3) (q1, q2, q3) (matrix_add c1 (frame (a, b, c))) \<longleftrightarrow> a = x \<and> b = y \<and> c\<^sup>2 = q1 - x\<^sup>2 - y\<^sup>2"
    and sd: "\<And>a b c. side c1 c2 c3 (matrix_add c1 (frame (a, b, c))) = k * c" "0 < k"
    and all: "\<And>p. \<exists>a b c. p = matrix_add c1 (frame (a, b, c))"
    by (rule trilateration_frame[where ?q1.0 = q1 and ?q2.0 = q2 and ?q3.0 = q3]) blast
  show ?thesis
  proof (cases "0 \<le> q1 - x\<^sup>2 - y\<^sup>2")
    case True
    define p where "p = matrix_add c1 (frame (x, y, - sqrt (q1 - x\<^sup>2 - y\<^sup>2)))"
    have "on_spheres (c1, c2, c3) qs r \<and> side c1 c2 c3 r \<le> 0 \<longleftrightarrow> r = p" for r
    proof
      assume r: "on_spheres (c1, c2, c3) qs r \<and> side c1 c2 c3 r \<le> 0"
      obtain a b c where ra: "r = matrix_add c1 (frame (a, b, c))" using all by blast
      have "a = x" "b = y" "c\<^sup>2 = q1 - x\<^sup>2 - y\<^sup>2" "c \<le> 0"
        using r on sd(2) by (auto simp: ra q sd(1) mult_le_0_iff)
      then show "r = p" unfolding ra p_def by (metis abs_of_nonpos real_sqrt_abs minus_equation_iff)
    qed (use True on sd(2) in \<open>auto simp: p_def q sd(1) mult_le_0_iff\<close>)
    then show ?thesis using f False True by (simp add: q py_sqrt_def p_def)
  next
    case neg: False
    have "\<not> on_spheres (c1, c2, c3) qs r" for r
    proof
      assume r: "on_spheres (c1, c2, c3) qs r"
      obtain a b c where ra: "r = matrix_add c1 (frame (a, b, c))" using all by blast
      have "c\<^sup>2 = q1 - x\<^sup>2 - y\<^sup>2" using r on by (simp add: ra q)
      then show False using neg zero_le_power2[of c] by linarith
    qed
    then show ?thesis using f neg by (simp add: q py_sqrt_def)
  qed
qed

lemma trilateration_on:
  assumes "trilateration (c1, c2, c3) (q1, q2, q3) = Inr p"
  shows "on_sphere c1 q1 p" "on_sphere c2 q2 p" "on_sphere c3 q3 p"
  using trilateration_cases[of c1 c2 c3 "(q1, q2, q3)"] assms by (auto simp: on_spheres_def)

lemma trilateration_finds:
  assumes "\<not> in_line (c1, c2, c3)" "on_spheres (c1, c2, c3) qs r" "side c1 c2 c3 r \<le> 0"
  shows "trilateration (c1, c2, c3) qs = Inr r"
proof (cases "trilateration (c1, c2, c3) qs")
  case (Inl e)
  then show ?thesis using trilateration_cases[of c1 c2 c3 qs] assms by (simp del: split_paired_All)
next
  case (Inr p)
  then have "{r. on_spheres (c1, c2, c3) qs r \<and> side c1 c2 c3 r \<le> 0} = {p}" using trilateration_cases[of c1 c2 c3 qs] by simp
  moreover have "r \<in> {r. on_spheres (c1, c2, c3) qs r \<and> side c1 c2 c3 r \<le> 0}" using assms(2,3) by (simp only: mem_Collect_eq)
  ultimately have "r = p" by (simp only: singleton_iff)
  then show ?thesis using Inr by simp
qed

text \<open>C7: \<open>trilateration\<close> returns a point exactly when the centres are not in line and some point is on all three spheres. That
  point is the only one on all three spheres that is not above the plane of the centres (on the side of
  \<open>(c2 - c1) \<times> (c3 - c1)\<close>).\<close>

theorem trilateration_correct:
  "case trilateration (c1, c2, c3) qs of
     Inr p \<Rightarrow> \<not> in_line (c1, c2, c3) \<and> {r. on_spheres (c1, c2, c3) qs r \<and> side c1 c2 c3 r \<le> 0} = {p}
   | Inl e \<Rightarrow> in_line (c1, c2, c3) \<or> {r. on_spheres (c1, c2, c3) qs r} = {}"
  by (rule trilateration_cases)

section \<open>Coordinate descent\<close>

type_synonym params = "(string, real) dict"

record descent =
  cd_params :: params
  cd_dp :: params
  best_err :: real

text \<open>The loop's body for one parameter.\<close>

definition try_param :: "(params \<Rightarrow> real res) \<Rightarrow> descent \<Rightarrow> string \<Rightarrow> descent res" where
  "try_param error_func s k =
     rbind (res_of KeyError (dget (cd_params s) k)) (\<lambda>orig. rbind (res_of KeyError (dget (cd_dp s) k)) (\<lambda>d.
       let p1 = dset k (orig + d) (cd_params s)
       in rbind (error_func p1) (\<lambda>e1.
          if e1 < best_err s then Inr \<lparr>cd_params = p1, cd_dp = dset k (d * (11 / 10)) (cd_dp s), best_err = e1\<rparr>
          else
            let p2 = dset k (orig - d) p1
            in rbind (error_func p2) (\<lambda>e2.
               if e2 < best_err s then Inr \<lparr>cd_params = p2, cd_dp = dset k (d * (11 / 10)) (cd_dp s), best_err = e2\<rparr>
               else Inr \<lparr>cd_params = dset k orig p2, cd_dp = dset k (d * (9 / 10)) (cd_dp s), best_err = best_err s\<rparr>))))"

text \<open>The first argument is the number of rounds that are left.\<close>

fun descent_rounds :: "nat \<Rightarrow> (params \<Rightarrow> real res) \<Rightarrow> string list \<Rightarrow> descent \<Rightarrow> descent res" where
  "descent_rounds 0 error_func adj_params s = Inr s"
| "descent_rounds (Suc n) error_func adj_params s =
     (if sum_list (dvals (cd_dp s)) > 1 / 100000
      then rbind (rfold (try_param error_func) s adj_params) (descent_rounds n error_func adj_params)
      else Inr s)"

definition coordinate_descent :: "string list \<Rightarrow> params \<Rightarrow> (params \<Rightarrow> real res) \<Rightarrow> params res" where
  "coordinate_descent adj_params params0 error_func =
     rbind (error_func params0) (\<lambda>e.
     rbind (descent_rounds 10000 error_func adj_params
              \<lparr>cd_params = params0, cd_dp = dict_of (map (\<lambda>k. (k, 1)) adj_params), best_err = e\<rparr>) (\<lambda>s. Inr (cd_params s)))"

text \<open>What the descent keeps: its best error is that of its parameters, and no worse than the first; only the adjusted
  parameters change.\<close>

definition descends :: "(params \<Rightarrow> real res) \<Rightarrow> string list \<Rightarrow> params \<Rightarrow> real \<Rightarrow> descent \<Rightarrow> bool" where
  "descends f adj params0 e0 s \<longleftrightarrow> f (cd_params s) = Inr (best_err s) \<and> best_err s \<le> e0 \<and> dkeys (cd_params s) = dkeys params0 \<and>
     (\<forall>k. k \<notin> set adj \<longrightarrow> dget (cd_params s) k = dget params0 k)"

lemma dset_twice: "dset k x (dset k y d) = dset k x d"
  by (induction d) auto

lemma try_param_descends:
  assumes inv: "descends f adj params0 e0 s" and k: "k \<in> set adj" and r: "try_param f s k = Inr s'"
  shows "descends f adj params0 e0 s'"
proof -
  obtain orig d where o: "dget (cd_params s) k = Some orig" "dget (cd_dp s) k = Some d"
    using r by (auto simp: try_param_def rbind_eq_Inr)
  have "din k (cd_params s)" using o(1) by (simp add: din_def)
  then have p: "dkeys (dset k x (cd_params s)) = dkeys params0" "k' \<notin> set adj \<Longrightarrow> dget (dset k x (cd_params s)) k' = dget params0 k'" for x k'
    using inv k by (auto simp: dkeys_dset descends_def)
  have "dset k orig (cd_params s) = cd_params s" using o(1) by (rule update_triv)
  then show ?thesis
    using r inv p by (auto simp: try_param_def rbind_eq_Inr o dset_twice Let_def descends_def split: if_splits)
qed

lemma rfold_descends:
  assumes "descends f adj params0 e0 s" "set ks \<subseteq> set adj" "rfold (try_param f) s ks = Inr s'"
  shows "descends f adj params0 e0 s'"
  using assms by (induction ks arbitrary: s) (auto simp: rbind_eq_Inr intro: try_param_descends)

lemma descent_rounds_descends:
  assumes "descends f adj params0 e0 s" "descent_rounds n f adj s = Inr s'"
  shows "descends f adj params0 e0 s'"
  using assms
proof (induction n f adj s rule: descent_rounds.induct)
  case (2 n f adj s)
  then show ?case by (auto simp: rbind_eq_Inr split: if_splits dest: rfold_descends)
qed simp

text \<open>An error function that does not raise keeps the descent going to its end.\<close>

definition descends_on :: "string list \<Rightarrow> descent \<Rightarrow> bool" where
  "descends_on adj s \<longleftrightarrow> (\<forall>k \<in> set adj. din k (cd_params s) \<and> din k (cd_dp s))"

lemma try_param_returns:
  assumes f: "\<forall>d. \<exists>e. f d = Inr e" and s: "descends_on adj s" and k: "k \<in> set adj"
  shows "\<exists>s'. try_param f s k = Inr s' \<and> descends_on adj s'"
proof -
  obtain g where g: "\<And>d. f d = Inr (g d)" using f by metis
  obtain orig d where "dget (cd_params s) k = Some orig" "dget (cd_dp s) k = Some d"
    using s k by (auto simp: descends_on_def din_def)
  then show ?thesis using s by (auto simp: try_param_def g Let_def descends_on_def)
qed

lemma rfold_returns:
  assumes "\<forall>d. \<exists>e. f d = Inr e" "descends_on adj s" "set ks \<subseteq> set adj"
  shows "\<exists>s'. rfold (try_param f) s ks = Inr s' \<and> descends_on adj s'"
  using assms(2,3)
proof (induction ks arbitrary: s)
  case (Cons k ks)
  then obtain s1 where "try_param f s k = Inr s1" "descends_on adj s1" using try_param_returns[OF assms(1), of adj s k] by auto
  then show ?case using Cons by simp
qed simp

lemma descent_rounds_returns:
  assumes "\<forall>d. \<exists>e. f d = Inr e" "descends_on adj s"
  shows "\<exists>s'. descent_rounds n f adj s = Inr s'"
  using assms(2)
proof (induction n arbitrary: s)
  case (Suc n)
  obtain s1 where "rfold (try_param f) s adj = Inr s1" "descends_on adj s1" using rfold_returns[OF assms(1) Suc.prems] by blast
  then show ?case using Suc.IH[of s1] by simp
qed simp

lemma coordinate_descent_descends:
  assumes "coordinate_descent adj params0 f = Inr ps"
  obtains e0 e where "f params0 = Inr e0" "f ps = Inr e" "e \<le> e0" "\<And>k. k \<notin> set adj \<Longrightarrow> dget ps k = dget params0 k"
proof -
  obtain e0 s where e: "f params0 = Inr e0" and s: "descent_rounds 10000 f adj
      \<lparr>cd_params = params0, cd_dp = dict_of (map (\<lambda>k. (k, 1)) adj), best_err = e0\<rparr> = Inr s" and ps: "ps = cd_params s"
    using assms by (auto simp: coordinate_descent_def rbind_eq_Inr)
  have "descends f adj params0 e0 s" by (rule descent_rounds_descends[OF _ s]) (simp add: descends_def e)
  then show thesis using that e by (simp add: descends_def ps)
qed

text \<open>Coordinate descent ends after at most 10000 rounds and, when the error function does not raise and knows the parameters to adjust, it
  returns parameters whose error is no larger than that of the ones it was given; it changes the adjusted parameters only.\<close>

theorem coordinate_descent_improves:
  assumes "\<And>d. f d = Inr (g d)" "\<forall>k \<in> set adj. din k params0"
  shows "\<exists>ps. coordinate_descent adj params0 f = Inr ps \<and> g ps \<le> g params0 \<and> dkeys ps = dkeys params0 \<and>
    (\<forall>k. k \<notin> set adj \<longrightarrow> dget ps k = dget params0 k)"
proof -
  define s0 where "s0 = \<lparr>cd_params = params0, cd_dp = dict_of (map (\<lambda>k. (k, 1)) adj), best_err = g params0\<rparr>"
  have "din k (dset_all (map (\<lambda>k. (k, 1 :: real)) ks) d) \<longleftrightarrow> k \<in> set ks \<or> din k d" for k ks and d :: params
    by (induction ks arbitrary: d) auto
  then have "descends_on adj s0"
    using assms(2) by (simp add: s0_def descends_on_def dict_of_def)
  then obtain s where s: "descent_rounds 10000 f adj s0 = Inr s"
    using descent_rounds_returns assms(1) by metis
  have "descends f adj params0 (g params0) s"
    by (rule descent_rounds_descends[OF _ s]) (simp add: descends_def s0_def assms(1))
  then show ?thesis
    using s assms(1) by (auto simp: coordinate_descent_def s0_def[symmetric] descends_def)
qed

theorem coordinate_descent_improves_witness:
  "\<exists>ps. coordinate_descent [''radius''] [(''radius'', 3), (''arm_a'', 5)] (\<lambda>d. Inr ((dget_or d ''radius'' 0)\<^sup>2)) = Inr ps \<and>
     (dget_or ps ''radius'' 0)\<^sup>2 \<le> 9 \<and> dget ps ''arm_a'' = Some 5"
  using coordinate_descent_improves[of "\<lambda>d. Inr ((dget_or d ''radius'' 0)\<^sup>2)" "\<lambda>d. (dget_or d ''radius'' 0)\<^sup>2" "[''radius'']"
      "[(''radius'', 3), (''arm_a'', 5)]"]
  by (auto simp: din_def dget_or_def dest!: spec[of _ "''arm_a''"])

end
