(* ===== verification/LookAhead.thy ===== *)
theory LookAhead
  imports PyPrelude Complex_Main
begin

text \<open>
  \<open>klippy/toolhead.py\<close>: the classes \<open>Move\<close> and \<open>MoveQueue\<close>, which plan the speeds of a sequence of moves.

  Numbers are reals. A queue is a list of moves; \<open>set_junction\<close> changes a move in place, here the element
  of the list at its index; the callbacks of a move are numbers. The junction limit of the extruder is the parameter \<open>extruder_v2\<close>; what
  is done with the moves that leave the queue (\<open>_process_moves\<close>) is left to the caller.
\<close>

section \<open>Moves\<close>

record toolhead =
  max_velocity :: real
  max_accel :: real
  max_accel_to_decel :: real
  junction_deviation :: real

text \<open>What \<open>set_junction\<close> decides: speeds and times.\<close>

record junction =
  start_v :: real
  cruise_v :: real
  end_v :: real
  accel_t :: real
  cruise_t :: real
  decel_t :: real

record move =
  start_pos :: "real list"
  end_pos :: "real list"
  accel :: real
  is_kinematic_move :: bool
  axes_d :: "real list"
  move_d :: real
  axes_r :: "real list"
  min_move_t :: real
  max_start_v2 :: real
  max_cruise_v2 :: real
  delta_v2 :: real
  max_smoothed_v2 :: real
  smooth_delta_v2 :: real
  times :: "junction option"
  timing_callbacks :: "nat list"

definition new_move :: "toolhead \<Rightarrow> real list \<Rightarrow> real list \<Rightarrow> real \<Rightarrow> move" where
  "new_move th sp ep spd =
     (let d = map (\<lambda>i. ep ! i - sp ! i) [0, 1, 2, 3];
          md = sqrt (d ! 0 * d ! 0 + d ! 1 * d ! 1 + d ! 2 * d ! 2);
          extrude_only = md < 1 / 1000000000;
          d' = (if extrude_only then [0, 0, 0, d ! 3] else d);
          md' = (if extrude_only then \<bar>d ! 3\<bar> else md);
          inv = (if extrude_only \<and> md' = 0 then 0 else 1 / md');
          velocity = (if extrude_only then spd else min spd (max_velocity th));
          ac = (if extrude_only then 999999999 / 10 else max_accel th)
      in \<lparr>start_pos = sp, end_pos = (if extrude_only then [sp ! 0, sp ! 1, sp ! 2, ep ! 3] else ep), accel = ac,
          is_kinematic_move = \<not> extrude_only, axes_d = d', move_d = md', axes_r = map (\<lambda>x. x * inv) d',
          min_move_t = md' / velocity, max_start_v2 = 0, max_cruise_v2 = velocity\<^sup>2, delta_v2 = 2 * md' * ac,
          max_smoothed_v2 = 0, smooth_delta_v2 = 2 * md' * max_accel_to_decel th, times = None, timing_callbacks = []\<rparr>)"

definition limit_speed :: "real \<Rightarrow> real \<Rightarrow> move \<Rightarrow> move" where
  "limit_speed spd ac m =
     (let m1 = (if spd\<^sup>2 < max_cruise_v2 m then m\<lparr>max_cruise_v2 := spd\<^sup>2, min_move_t := move_d m / spd\<rparr> else m);
          a = min (accel m) ac;
          dv = 2 * move_d m * a
      in m1\<lparr>accel := a, delta_v2 := dv, smooth_delta_v2 := min (smooth_delta_v2 m) dv\<rparr>)"

definition junction_cos :: "move \<Rightarrow> move \<Rightarrow> real" where
  "junction_cos m p =
     - (axes_r m ! 0 * axes_r p ! 0 + axes_r m ! 1 * axes_r p ! 1 + axes_r m ! 2 * axes_r p ! 2)"

definition calc_junction :: "toolhead \<Rightarrow> (move \<Rightarrow> move \<Rightarrow> real) \<Rightarrow> move \<Rightarrow> move \<Rightarrow> move" where
  "calc_junction th extruder_v2 p m =
     (if \<not> is_kinematic_move m \<or> \<not> is_kinematic_move p then m
      else if junction_cos m p > 999999 / 1000000 then m
      else
        let c = max (junction_cos m p) (- (999999 / 1000000));
            sin_d2 = sqrt ((1 - c) / 2);
            R = junction_deviation th * sin_d2 / (1 - sin_d2);
            tan_d2 = sin_d2 / sqrt ((1 + c) / 2);
            mc = move_d m * tan_d2 * accel m / 2;
            pc = move_d p * tan_d2 * accel p / 2;
            s = Min {R * accel m, R * accel p, mc, pc, extruder_v2 p m, max_cruise_v2 m, max_cruise_v2 p,
                     max_start_v2 p + delta_v2 p}
        in m\<lparr>max_start_v2 := s, max_smoothed_v2 := min s (max_smoothed_v2 p + smooth_delta_v2 p)\<rparr>)"

definition set_junction :: "real \<Rightarrow> real \<Rightarrow> real \<Rightarrow> move \<Rightarrow> move" where
  "set_junction start_v2 cruise_v2 end_v2 m =
     (let h = 1 / 2 / accel m;
          accel_d = (cruise_v2 - start_v2) * h;
          decel_d = (cruise_v2 - end_v2) * h;
          cruise_d = move_d m - accel_d - decel_d;
          sv = sqrt start_v2; cv = sqrt cruise_v2; ev = sqrt end_v2
      in m\<lparr>times := Some \<lparr>start_v = sv, cruise_v = cv, end_v = ev, accel_t = accel_d / ((sv + cv) / 2), cruise_t = cruise_d / cv,
             decel_t = decel_d / ((ev + cv) / 2)\<rparr>\<rparr>)"

section \<open>The queue\<close>

record move_queue =
  queue :: "move list"
  junction_flush :: real

definition LOOKAHEAD_FLUSH_TIME :: real where "LOOKAHEAD_FLUSH_TIME = 1 / 4"

definition new_move_queue :: move_queue where
  "new_move_queue = \<lparr>queue = [], junction_flush = LOOKAHEAD_FLUSH_TIME\<rparr>"

definition reset_queue :: "move_queue \<Rightarrow> move_queue" where
  "reset_queue q = q\<lparr>queue := [], junction_flush := LOOKAHEAD_FLUSH_TIME\<rparr>"

definition set_flush_time :: "real \<Rightarrow> move_queue \<Rightarrow> move_queue" where
  "set_flush_time t q = q\<lparr>junction_flush := t\<rparr>"

definition get_last :: "move_queue \<Rightarrow> move option" where
  "get_last q = (if queue q \<noteq> [] then Some (last (queue q)) else None)"

text \<open>The variables of the loop of \<open>flush\<close>; \<open>delayed\<close> has the indices of the delayed moves.\<close>

record flush_state =
  next_end_v2 :: real
  next_smoothed_v2 :: real
  peak_cruise_v2 :: real
  flush_count :: nat
  update_flush_count :: bool
  delayed :: "(nat \<times> real \<times> real) list"
  moves :: "move list"

definition plan :: "nat \<Rightarrow> real \<Rightarrow> real \<Rightarrow> real \<Rightarrow> flush_state \<Rightarrow> flush_state" where
  "plan i s c e f = f\<lparr>moves := (moves f)[i := set_junction s c e (moves f ! i)]\<rparr>"

text \<open>The loop over the delayed moves, last first.\<close>

fun plan_delayed :: "(nat \<times> real \<times> real) list \<Rightarrow> real \<Rightarrow> flush_state \<Rightarrow> flush_state" where
  "plan_delayed [] mc f = f"
| "plan_delayed ((i, ms, me) # ds) mc f =
     (let mc' = min mc ms in plan_delayed ds mc' (plan i (min ms mc') mc' (min me mc') f))"

definition flush_peak :: "nat \<Rightarrow> move \<Rightarrow> real \<Rightarrow> real \<Rightarrow> flush_state \<Rightarrow> flush_state" where
  "flush_peak i m smoothed reachable_smoothed f =
     (let f1 = (if update_flush_count f \<and> peak_cruise_v2 f \<noteq> 0 then f\<lparr>flush_count := i, update_flush_count := False\<rparr> else f);
          f2 = f1\<lparr>peak_cruise_v2 := min (max_cruise_v2 m) ((smoothed + reachable_smoothed) / 2)\<rparr>
      in if delayed f2 \<noteq> [] then
           (if \<not> update_flush_count f2 \<and> i < flush_count f2 then plan_delayed (rev (delayed f2)) (peak_cruise_v2 f2) f2 else f2)
             \<lparr>delayed := []\<rparr>
         else f2)"

definition flush_turn :: "nat \<Rightarrow> flush_state \<Rightarrow> flush_state" where
  "flush_turn i f =
     (let m = moves f ! i;
          reachable_start_v2 = next_end_v2 f + delta_v2 m;
          start_v2 = min (max_start_v2 m) reachable_start_v2;
          reachable_smoothed_v2 = next_smoothed_v2 f + smooth_delta_v2 m;
          smoothed_v2 = min (max_smoothed_v2 m) reachable_smoothed_v2;
          f' = (if smoothed_v2 < reachable_smoothed_v2 then
                  let f1 = (if smoothed_v2 + smooth_delta_v2 m > next_smoothed_v2 f \<or> delayed f \<noteq> []
                            then flush_peak i m smoothed_v2 reachable_smoothed_v2 f else f)
                  in if \<not> update_flush_count f1 \<and> i < flush_count f1 then
                       let c = min (min ((start_v2 + reachable_start_v2) / 2) (max_cruise_v2 m)) (peak_cruise_v2 f1)
                       in plan i (min start_v2 c) c (min (next_end_v2 f) c) f1
                     else f1
                else f\<lparr>delayed := delayed f @ [(i, start_v2, next_end_v2 f)]\<rparr>)
      in f'\<lparr>next_end_v2 := start_v2, next_smoothed_v2 := smoothed_v2\<rparr>)"

text \<open>\<open>flush_loop n\<close> treats the moves below \<open>n\<close>, from last to first.\<close>

fun flush_loop :: "nat \<Rightarrow> flush_state \<Rightarrow> flush_state" where
  "flush_loop 0 f = f"
| "flush_loop (Suc n) f = flush_loop n (flush_turn n f)"

text \<open>The moves it hands to \<open>_process_moves\<close>, and the new queue.\<close>

definition flush :: "bool \<Rightarrow> move_queue \<Rightarrow> move list \<times> move_queue" where
  "flush lazy q =
     (let n = length (queue q);
          f = flush_loop n \<lparr>next_end_v2 = 0, next_smoothed_v2 = 0, peak_cruise_v2 = 0, flush_count = n, update_flush_count = lazy,
                            delayed = [], moves = queue q\<rparr>
      in if update_flush_count f \<or> flush_count f = 0 then ([], q\<lparr>junction_flush := LOOKAHEAD_FLUSH_TIME, queue := moves f\<rparr>)
         else (take (flush_count f) (moves f),
               q\<lparr>junction_flush := LOOKAHEAD_FLUSH_TIME, queue := drop (flush_count f) (moves f)\<rparr>))"

definition add_move :: "toolhead \<Rightarrow> (move \<Rightarrow> move \<Rightarrow> real) \<Rightarrow> move \<Rightarrow> move_queue \<Rightarrow> move list \<times> move_queue" where
  "add_move th extruder_v2 m q =
     (if queue q = [] then ([], q\<lparr>queue := [m]\<rparr>)
      else
        let m' = calc_junction th extruder_v2 (last (queue q)) m;
            q1 = q\<lparr>queue := queue q @ [m'], junction_flush := junction_flush q - min_move_t m'\<rparr>
        in if junction_flush q1 \<le> 0 then flush True q1 else ([], q1))"

section \<open>Well-formed moves and queues\<close>

definition move_wf :: "move \<Rightarrow> bool" where
  "move_wf m \<longleftrightarrow> 0 < accel m \<and> 0 < move_d m \<and> delta_v2 m = 2 * move_d m * accel m \<and> 0 < smooth_delta_v2 m \<and> 0 < max_cruise_v2 m \<and>
     0 \<le> max_smoothed_v2 m \<and> max_smoothed_v2 m \<le> max_start_v2 m \<and> max_start_v2 m \<le> max_cruise_v2 m"

text \<open>A move can be reached from the start of the one before it.\<close>

fun chained :: "move list \<Rightarrow> bool" where
  "chained (p # m # ms) \<longleftrightarrow> max_start_v2 m \<le> max_start_v2 p + delta_v2 p \<and> chained (m # ms)"
| "chained ms \<longleftrightarrow> True"

text \<open>The smoothed speed \<open>flush\<close> computes for the start of a list of moves.\<close>

fun smoothed :: "move list \<Rightarrow> real" where
  "smoothed [] = 0"
| "smoothed (m # ms) = min (max_smoothed_v2 m) (smoothed ms + smooth_delta_v2 m)"

fun start_speed :: "move list \<Rightarrow> real" where
  "start_speed [] = 0"
| "start_speed (m # ms) = min (max_start_v2 m) (start_speed ms + delta_v2 m)"

fun head_free :: "move list \<Rightarrow> bool" where
  "head_free [] \<longleftrightarrow> True"
| "head_free (m # ms) \<longleftrightarrow> max_smoothed_v2 m < smoothed ms + smooth_delta_v2 m"

text \<open>No move that waits in a queue has been planned, and the first can accelerate.\<close>

definition queue_wf :: "move_queue \<Rightarrow> bool" where
  "queue_wf q \<longleftrightarrow> (\<forall>m \<in> set (queue q). move_wf m \<and> times m = None) \<and> chained (queue q) \<and> head_free (queue q)"

text \<open>Speeds within the limits of the move, with enough distance to change between them.\<close>

definition feasible :: "move \<Rightarrow> real \<Rightarrow> real \<Rightarrow> real \<Rightarrow> bool" where
  "feasible m s c e \<longleftrightarrow> 0 \<le> s \<and> s \<le> c \<and> 0 \<le> e \<and> e \<le> c \<and> 0 < c \<and> c \<le> max_cruise_v2 m \<and> s \<le> max_start_v2 m \<and>
     (c - s) + (c - e) \<le> delta_v2 m"

text \<open>What that means for the motion: the move speeds up, cruises and slows down within its limits, at its
  acceleration, and covers its length.\<close>

definition trapezoid :: "move \<Rightarrow> junction \<Rightarrow> bool" where
  "trapezoid m j \<longleftrightarrow> 0 < accel m \<and> 0 \<le> start_v j \<and> 0 \<le> end_v j \<and> 0 < cruise_v j \<and>
     (start_v j)\<^sup>2 \<le> max_start_v2 m \<and> (cruise_v j)\<^sup>2 \<le> max_cruise_v2 m \<and> 0 \<le> accel_t j \<and> 0 \<le> cruise_t j \<and> 0 \<le> decel_t j \<and>
     cruise_v j = start_v j + accel m * accel_t j \<and> end_v j = cruise_v j - accel m * decel_t j \<and>
     accel_t j * (start_v j + cruise_v j) / 2 + cruise_t j * cruise_v j + decel_t j * (cruise_v j + end_v j) / 2 = move_d m"

definition planned_ok :: "move \<Rightarrow> bool" where
  "planned_ok m \<longleftrightarrow> (\<exists>j. times m = Some j \<and> trapezoid m j)"

section \<open>New moves\<close>

lemma limit_speed_wf:
  assumes "move_wf m" "max_start_v2 m = 0" "0 < spd" "0 < ac"
  shows "move_wf (limit_speed spd ac m)"
  using assms by (auto simp: move_wf_def limit_speed_def Let_def)

lemma new_move_wf:
  assumes "0 < spd" "0 < max_velocity th" "0 < max_accel th" "0 < max_accel_to_decel th" "move_d (new_move th sp ep spd) \<noteq> 0"
  shows "move_wf (new_move th sp ep spd)"
proof -
  have pos: "0 \<le> move_d (new_move th sp ep spd)"
    by (simp add: new_move_def Let_def)
  then have "0 < move_d (new_move th sp ep spd)"
    using assms(5) by linarith
  then show ?thesis
    using assms(1-4) by (simp add: move_wf_def new_move_def Let_def split: if_splits)
qed

lemma sin_d2_lt_1:
  fixes c :: real
  assumes "- (999999 / 1000000) \<le> c" "c \<le> 1"
  shows "0 \<le> sqrt ((1 - c) / 2)" "sqrt ((1 - c) / 2) < 1"
  using assms by (auto simp: real_less_lsqrt)

lemma calc_junction_cases:
  assumes "0 \<le> junction_deviation th"
  obtains (same) "calc_junction th extruder_v2 p m = m"
  | (limited) R td s where "0 \<le> R" "0 \<le> td"
      "s = Min {R * accel m, R * accel p, move_d m * td * accel m / 2, move_d p * td * accel p / 2,
        extruder_v2 p m, max_cruise_v2 m, max_cruise_v2 p, max_start_v2 p + delta_v2 p}"
      "calc_junction th extruder_v2 p m =
        m\<lparr>max_start_v2 := s, max_smoothed_v2 := min s (max_smoothed_v2 p + smooth_delta_v2 p)\<rparr>"
proof (cases "\<not> is_kinematic_move m \<or> \<not> is_kinematic_move p \<or> junction_cos m p > 999999 / 1000000")
  case True
  then show ?thesis by (intro same) (simp only: calc_junction_def simp_thms if_True if_cancel split: if_split, blast)
next
  case False
  define c where "c = max (junction_cos m p) (- (999999 / 1000000))"
  define sd where "sd = sqrt ((1 - c) / 2)"
  have c: "- (999999 / 1000000) \<le> c" "c \<le> 1" using False by (auto simp: c_def)
  have sd: "0 \<le> sd" "sd < 1" using sin_d2_lt_1[OF c] by (auto simp: sd_def)
  show ?thesis
  proof (rule limited)
    show "0 \<le> junction_deviation th * sd / (1 - sd)" using sd assms by simp
    show "0 \<le> sd / sqrt ((1 + c) / 2)" using sd c by simp
    show "calc_junction th extruder_v2 p m = m\<lparr>max_start_v2 := Min {junction_deviation th * sd / (1 - sd) * accel m,
        junction_deviation th * sd / (1 - sd) * accel p, move_d m * (sd / sqrt ((1 + c) / 2)) * accel m / 2,
        move_d p * (sd / sqrt ((1 + c) / 2)) * accel p / 2,
        extruder_v2 p m, max_cruise_v2 m, max_cruise_v2 p, max_start_v2 p + delta_v2 p},
        max_smoothed_v2 := min (Min {junction_deviation th * sd / (1 - sd) * accel m,
        junction_deviation th * sd / (1 - sd) * accel p, move_d m * (sd / sqrt ((1 + c) / 2)) * accel m / 2,
        move_d p * (sd / sqrt ((1 + c) / 2)) * accel p / 2,
        extruder_v2 p m, max_cruise_v2 m, max_cruise_v2 p, max_start_v2 p + delta_v2 p})
        (max_smoothed_v2 p + smooth_delta_v2 p)\<rparr>"
      using False by (simp only: calc_junction_def Let_def sd_def c_def de_Morgan_disj simp_thms if_False)
  qed (rule refl)
qed

lemma calc_junction_wf:
  assumes "move_wf m" "move_wf p" "0 \<le> extruder_v2 p m" "0 \<le> junction_deviation th"
  shows "move_wf (calc_junction th extruder_v2 p m)"
  using assms(4)
proof (cases rule: calc_junction_cases[of th extruder_v2 p m])
  case same
  then show ?thesis using assms(1) by simp
next
  case (limited R td s)
  have nonneg: "0 \<le> delta_v2 p" "0 \<le> max_start_v2 p" "0 \<le> accel p" "0 \<le> move_d p" "0 \<le> max_cruise_v2 p"
    "0 \<le> accel m" "0 \<le> move_d m" "0 \<le> max_cruise_v2 m"
    using assms(1,2) by (auto simp: move_wf_def)
  have "0 \<le> s"
    unfolding limited(3)
    by (intro Min.boundedI; (elim insertE emptyE)?)
       (simp_all only: finite_insert finite.emptyI insert_not_empty simp_thms add_nonneg_nonneg mult_nonneg_nonneg
          divide_nonneg_nonneg nonneg limited(1,2) assms(3) zero_le_numeral not_False_eq_True)
  moreover have "s \<le> max_cruise_v2 m"
    unfolding limited(3) by (intro Min_le) simp_all
  ultimately show ?thesis
    using assms(1,2) by (auto simp: move_wf_def limited(4))
qed

lemma calc_junction_reach:
  assumes "max_start_v2 m = 0" "move_wf p" "0 \<le> junction_deviation th"
  shows "max_start_v2 (calc_junction th extruder_v2 p m) \<le> max_start_v2 p + delta_v2 p"
  using assms(3)
proof (cases rule: calc_junction_cases[of th extruder_v2 p m])
  case same
  then show ?thesis using assms(1,2) by (simp add: move_wf_def)
next
  case (limited R td s)
  have "s \<le> max_start_v2 p + delta_v2 p"
    unfolding limited(3) by (intro Min_le) simp_all
  then show ?thesis by (simp add: limited(4))
qed

lemma calc_junction_times [simp]: "times (calc_junction th extruder_v2 p m) = times m"
  unfolding calc_junction_def Let_def by (simp del: Min_insert Min.insert)

section \<open>Speeds\<close>

lemma halves:
  fixes x y :: real
  assumes "0 < y"
  shows "x / (y / 2) * y / 2 = x"
  using assms by simp

lemma ramp:
  fixes a b k :: real
  assumes "0 \<le> a" "a \<le> b" "0 < b" "0 < k"
  defines "t \<equiv> (b - a) * (1 / 2 / k) / ((sqrt a + sqrt b) / 2)"
  shows "0 \<le> t" "sqrt b = sqrt a + k * t" "t * (sqrt a + sqrt b) / 2 = (b - a) * (1 / 2 / k)"
proof -
  have pos: "0 < sqrt a + sqrt b" using assms by (simp add: add_nonneg_pos)
  then show "0 \<le> t" using assms by (simp add: t_def)
  have "b - a = (sqrt b - sqrt a) * (sqrt a + sqrt b)"
    using assms by (simp add: algebra_simps)
  then show "sqrt b = sqrt a + k * t" using pos assms(4) by (simp add: t_def)
  show "t * (sqrt a + sqrt b) / 2 = (b - a) * (1 / 2 / k)"
    using pos by (simp only: t_def halves)
qed

lemma planned_okI:
  assumes "0 < accel m" "cv = sv + accel m * tA" "ev = cv - accel m * tD" "tA * (sv + cv) / 2 + tC * cv + tD * (cv + ev) / 2 = move_d m"
    "0 \<le> tA" "0 \<le> tC" "0 \<le> tD" "0 \<le> sv" "0 < cv" "0 \<le> ev" "sv\<^sup>2 \<le> max_start_v2 m" "cv\<^sup>2 \<le> max_cruise_v2 m"
  shows "planned_ok (m\<lparr>times := Some \<lparr>start_v = sv, cruise_v = cv, end_v = ev, accel_t = tA, cruise_t = tC, decel_t = tD\<rparr>\<rparr>)"
  using assms by (simp add: planned_ok_def trapezoid_def)

lemma set_junction_ok:
  assumes "move_wf m" "feasible m s c e"
  shows "planned_ok (set_junction s c e m)"
proof -
  have c: "0 \<le> s" "s \<le> c" "0 \<le> e" "e \<le> c" "0 < c" "c \<le> max_cruise_v2 m" "s \<le> max_start_v2 m" "(c - s) + (c - e) \<le> 2 * move_d m * accel m"
    and a: "0 < accel m" using assms by (auto simp: feasible_def move_wf_def)
  note acc = ramp[OF c(1,2,5) a] and dec = ramp[OF c(3,4,5) a]
  have d: "0 \<le> move_d m - (c - s) * (1 / 2 / accel m) - (c - e) * (1 / 2 / accel m)"
  proof -
    have "((c - s) + (c - e)) * (1 / 2 / accel m) \<le> 2 * move_d m * accel m * (1 / 2 / accel m)"
      using c(8) a by (intro mult_right_mono) simp_all
    moreover have "2 * move_d m * accel m * (1 / 2 / accel m) = move_d m" using a by simp
    ultimately show ?thesis unfolding distrib_right by linarith
  qed
  define A D where "A = (c - s) * (1 / 2 / accel m)" and "D = (c - e) * (1 / 2 / accel m)"
  define tA tD where "tA = A / ((sqrt s + sqrt c) / 2)" and "tD = D / ((sqrt e + sqrt c) / 2)"
  define tC where "tC = (move_d m - A - D) / sqrt c"
  have sj: "set_junction s c e m = m\<lparr>times := Some \<lparr>start_v = sqrt s, cruise_v = sqrt c, end_v = sqrt e, accel_t = tA,
      cruise_t = tC, decel_t = tD\<rparr>\<rparr>"
    by (simp only: set_junction_def Let_def A_def D_def tA_def tD_def tC_def)
  have A: "0 \<le> tA" "sqrt c = sqrt s + accel m * tA" "tA * (sqrt s + sqrt c) / 2 = A"
    using acc by (simp_all only: A_def tA_def)
  have D: "0 \<le> tD" "sqrt c = sqrt e + accel m * tD" "tD * (sqrt c + sqrt e) / 2 = D"
    using dec by (simp_all only: D_def tD_def add.commute[of "sqrt c" "sqrt e"])
  have C: "0 \<le> tC" "tC * sqrt c = move_d m - A - D"
    using d c(5) by (simp_all add: tC_def A_def D_def)
  have "sqrt e = sqrt c - accel m * tD" using D(2) by simp
  moreover have "tA * (sqrt s + sqrt c) / 2 + tC * sqrt c + tD * (sqrt c + sqrt e) / 2 = move_d m"
    using A(3) C(2) D(3) by linarith
  moreover have "0 \<le> sqrt e" "0 < sqrt c" "(sqrt s)\<^sup>2 \<le> max_start_v2 m" "(sqrt c)\<^sup>2 \<le> max_cruise_v2 m" "0 \<le> sqrt s"
    using c by simp_all
  ultimately show ?thesis
    using a A(1,2) C(1) D(1) unfolding sj by (intro planned_okI)
qed

lemma move_wfD:
  assumes "move_wf m"
  shows "0 < delta_v2 m" "0 < smooth_delta_v2 m" "0 < max_cruise_v2 m" "0 \<le> max_smoothed_v2 m"
    "max_smoothed_v2 m \<le> max_start_v2 m" "max_start_v2 m \<le> max_cruise_v2 m"
  using assms by (auto simp: move_wf_def)

lemma feasible_cruise:
  assumes "move_wf m" "0 \<le> n" "n \<le> s0 + delta_v2 m" "0 < p" "s0 = min (max_start_v2 m) (n + delta_v2 m)"
    "c = min (min ((s0 + (n + delta_v2 m)) / 2) (max_cruise_v2 m)) p"
  shows "feasible m (min s0 c) c (min n c)"
proof -
  note w = move_wfD[OF assms(1)]
  have s: "0 \<le> s0" "s0 \<le> max_start_v2 m" "s0 \<le> n + delta_v2 m"
    using w assms(2) by (auto simp: assms(5))
  moreover have "c \<le> (s0 + (n + delta_v2 m)) / 2" "c \<le> max_cruise_v2 m"
    unfolding assms(6) by linarith+
  moreover have "0 < c"
    using w s assms(2,4) by (simp add: assms(6) add_nonneg_pos)
  ultimately show ?thesis
    unfolding feasible_def using w assms(2,3)
    by (cases "s0 \<le> c"; cases "n \<le> c"; simp)
qed

lemma feasible_slowing:
  assumes "move_wf m" "0 \<le> e" "0 < s" "s \<le> max_start_v2 m" "s \<le> e + delta_v2 m" "0 < p" "c = min p s"
  shows "feasible m (min s c) c (min e c)"
  unfolding feasible_def using move_wfD[OF assms(1)] assms(2-) by - (intro conjI; linarith)

section \<open>The traversal\<close>

lemma move_wf_facts:
  "move_wf m \<Longrightarrow> 0 < delta_v2 m \<and> 0 < smooth_delta_v2 m \<and> 0 < max_cruise_v2 m \<and> 0 \<le> max_smoothed_v2 m \<and>
     0 \<le> max_start_v2 m"
  using move_wfD[of m] by simp

definition unplanned :: "move \<Rightarrow> move" where
  "unplanned m = m\<lparr>times := None\<rparr>"

lemma unplanned_simps [simp]:
  "max_start_v2 (unplanned m) = max_start_v2 m" "max_smoothed_v2 (unplanned m) = max_smoothed_v2 m"
  "max_cruise_v2 (unplanned m) = max_cruise_v2 m" "delta_v2 (unplanned m) = delta_v2 m"
  "smooth_delta_v2 (unplanned m) = smooth_delta_v2 m" "move_wf (unplanned m) = move_wf m"
  "unplanned (set_junction s c e m) = unplanned m"
  by (simp_all add: unplanned_def move_wf_def set_junction_def Let_def)

lemma unplanned_feasible: "feasible (unplanned m) = feasible m"
  by (simp add: fun_eq_iff feasible_def)

lemma unplanned_planned:
  assumes "unplanned m = unplanned m'" shows "feasible m = feasible m'" "move_wf m = move_wf m'"
  using unplanned_feasible[of m] unplanned_feasible[of m'] unplanned_simps(6)[of m] unplanned_simps(6)[of m']
  by (simp_all only: assms)

lemma planned_ok_set_junction:
  assumes "unplanned m = unplanned m'" "move_wf m'" "feasible m' s c e"
  shows "planned_ok (set_junction s c e m)"
  using assms by (intro set_junction_ok) (simp_all add: unplanned_planned[OF assms(1)])

text \<open>The lists with the same moves, whatever has been planned.\<close>

definition same_moves :: "move list \<Rightarrow> move list \<Rightarrow> bool" where
  "same_moves xs ys \<longleftrightarrow> map unplanned xs = map unplanned ys"

lemma same_movesD:
  assumes "same_moves xs ys"
  shows "length xs = length ys" "i < length ys \<Longrightarrow> unplanned (xs ! i) = unplanned (ys ! i)"
proof -
  show l: "length xs = length ys" using assms by (auto simp: same_moves_def dest: map_eq_imp_length_eq)
  show "unplanned (xs ! i) = unplanned (ys ! i)" if "i < length ys"
  proof -
    have "map unplanned xs ! i = map unplanned ys ! i" using assms by (simp only: same_moves_def)
    then show ?thesis using that l by (simp only: nth_map)
  qed
qed

lemma same_moves_refl [simp]: "same_moves xs xs"
  by (simp add: same_moves_def)

lemma same_moves_update [simp]: "same_moves (xs[i := set_junction s c e (xs ! i)]) ys \<longleftrightarrow> same_moves xs ys"
proof -
  have "map unplanned (xs[i := set_junction s c e (xs ! i)]) = (map unplanned xs)[i := unplanned (xs ! i)]"
    by (simp add: map_update)
  also have "\<dots> = map unplanned xs"
    using list_update_id[of "map unplanned xs" i] by (cases "length xs \<le> i") (simp_all add: list_update_beyond)
  finally have "map unplanned (xs[i := set_junction s c e (xs ! i)]) = map unplanned xs" .
  then show ?thesis by (simp add: same_moves_def)
qed

lemma smoothed_unplanned: "smoothed (map unplanned xs) = smoothed xs"
  by (induction xs) simp_all

lemma start_speed_unplanned: "start_speed (map unplanned xs) = start_speed xs"
  by (induction xs) simp_all

lemma chained_unplanned: "chained (map unplanned xs) = chained xs"
  by (induction xs rule: chained.induct) simp_all

lemma head_free_unplanned: "head_free (map unplanned xs) = head_free xs"
  by (cases xs) (simp_all add: smoothed_unplanned)

lemma same_moves_drop: "same_moves xs ys \<Longrightarrow> same_moves (drop i xs) (drop i ys)"
  by (simp add: same_moves_def flip: drop_map)

lemma same_moves_facts:
  assumes "same_moves xs ys"
  shows "smoothed xs = smoothed ys" "chained xs = chained ys" "head_free xs = head_free ys"
  using assms unfolding same_moves_def
  by (metis smoothed_unplanned, metis chained_unplanned, metis head_free_unplanned)

lemma chained_drop: "chained xs \<Longrightarrow> chained (drop n xs)"
proof (induction xs arbitrary: n rule: chained.induct)
  case (1 p m ms)
  then show ?case by (cases n) auto
qed (auto simp: drop_Cons split: nat.split)

lemma speeds_nonneg:
  assumes "\<forall>m \<in> set xs. move_wf m"
  shows "0 \<le> start_speed xs" "0 \<le> smoothed xs"
  using assms by (induction xs) (auto dest!: move_wf_facts)

lemma start_speed_chain:
  assumes "\<forall>m \<in> set (m # ms). move_wf m" "chained (m # ms)"
  shows "start_speed ms \<le> start_speed (m # ms) + delta_v2 m"
proof (cases ms)
  case Nil
  then show ?thesis using assms by (auto dest!: move_wf_facts)
next
  case (Cons x xs)
  have "start_speed ms \<le> max_start_v2 m + delta_v2 m" using assms(2) by (auto simp: Cons)
  moreover have "0 \<le> delta_v2 m" using assms(1) by (auto dest!: move_wf_facts)
  ultimately show ?thesis by (simp add: min_def)
qed

text \<open>What the loop over the delayed moves does to the list of moves.\<close>

lemma plan_delayed_moves:
  assumes "same_moves (moves f) qs" "0 < mc"
    "\<forall>(j, s, e) \<in> set ds. j < length qs \<and> move_wf (qs ! j) \<and> 0 \<le> e \<and> 0 < s \<and> s \<le> max_start_v2 (qs ! j) \<and> s \<le> e + delta_v2 (qs ! j)"
  shows "\<exists>ms. plan_delayed ds mc f = f\<lparr>moves := ms\<rparr> \<and> same_moves ms qs \<and>
           (\<forall>j. if j \<in> fst ` set ds then planned_ok (ms ! j) else ms ! j = moves f ! j)"
  using assms
proof (induction ds mc f rule: plan_delayed.induct)
  case (1 mc f)
  then show ?case by (intro exI[of _ "moves f"]) simp
next
  case (2 i s e ds mc f)
  define c where "c = min mc s"
  define g where "g = plan i (min s c) c (min e c) f"
  have d: "i < length qs" "move_wf (qs ! i)" "0 \<le> e" "0 < s" "s \<le> max_start_v2 (qs ! i)" "s \<le> e + delta_v2 (qs ! i)"
    using 2(4) by auto
  have len: "i < length (moves f)" using d(1) same_movesD(1)[OF 2(2)] by simp
  have "planned_ok (set_junction (min s c) c (min e c) (moves f ! i))"
    using same_movesD(2)[OF 2(2) d(1)] d(2)
    by (rule planned_ok_set_junction) (rule feasible_slowing[OF d(2-6) 2(3)], simp add: c_def)
  then have p: "planned_ok (moves g ! i)" "same_moves (moves g) qs" "\<And>j. j \<noteq> i \<Longrightarrow> moves g ! j = moves f ! j"
    using len 2(2) by (simp_all add: g_def plan_def)
  have "0 < c" using 2(3) d(4) by (simp add: c_def)
  then obtain ms where ms: "plan_delayed ds c g = g\<lparr>moves := ms\<rparr>" "same_moves ms qs"
      "\<And>j. if j \<in> fst ` set ds then planned_ok (ms ! j) else ms ! j = moves g ! j"
    using 2(1)[of c] p(2) 2(4) unfolding g_def c_def by auto
  have "plan_delayed ((i, s, e) # ds) mc f = f\<lparr>moves := ms\<rparr>"
    using ms(1) by (simp add: g_def c_def Let_def plan_def)
  moreover have "if j \<in> fst ` set ((i, s, e) # ds) then planned_ok (ms ! j) else ms ! j = moves f ! j" for j
    using ms(3)[of j] p(1) p(3)[of j] by (auto split: if_splits)
  ultimately show ?case using ms(2) by blast
qed


text \<open>The state of the traversal once the moves from \<open>i\<close> on have been visited.\<close>

definition planned_from :: "nat \<Rightarrow> flush_state \<Rightarrow> bool" where
  "planned_from i f \<longleftrightarrow>
     (\<forall>j < length (moves f). i \<le> j \<longrightarrow> j < flush_count f \<longrightarrow> planned_ok (moves f ! j) \<or> j \<in> fst ` set (delayed f)) \<and>
     (\<forall>j < length (moves f). j < i \<or> flush_count f \<le> j \<longrightarrow> times (moves f ! j) = None)"

definition visited :: "move list \<Rightarrow> nat \<Rightarrow> flush_state \<Rightarrow> bool" where
  "visited qs i f \<longleftrightarrow>
     same_moves (moves f) qs \<and> next_end_v2 f = start_speed (drop i qs) \<and> next_smoothed_v2 f = smoothed (drop i qs) \<and>
     flush_count f \<le> length qs \<and>
     (\<forall>(j, s, e) \<in> set (delayed f). i \<le> j \<and> j < length qs \<and> 0 \<le> e \<and> 0 < s \<and> s \<le> max_start_v2 (qs ! j) \<and> s \<le> e + delta_v2 (qs ! j)) \<and>
     (if update_flush_count f then flush_count f = length qs \<and> planned_from (length qs) f
      else head_free (drop (flush_count f) qs) \<and>
           (\<forall>(j, s, e) \<in> set (delayed f). j < flush_count f) \<and> planned_from i f) \<and>
     0 \<le> peak_cruise_v2 f \<and> (i < length qs \<longrightarrow> delayed f \<noteq> [] \<or> 0 < peak_cruise_v2 f)"

text \<open>The facts about one move that a turn of the loop uses.\<close>

lemma turn_facts:
  assumes "\<forall>m \<in> set qs. move_wf m" "chained qs" "i < length qs"
  defines "n \<equiv> start_speed (drop (Suc i) qs)"
  shows "move_wf (qs ! i)" "0 \<le> n" "start_speed (drop i qs) = min (max_start_v2 (qs ! i)) (n + delta_v2 (qs ! i))"
    "smoothed (drop i qs) = min (max_smoothed_v2 (qs ! i)) (smoothed (drop (Suc i) qs) + smooth_delta_v2 (qs ! i))"
    "n \<le> start_speed (drop i qs) + delta_v2 (qs ! i)" "0 \<le> smoothed (drop (Suc i) qs)" "0 \<le> smoothed (drop i qs)"
proof -
  have d: "drop i qs = qs ! i # drop (Suc i) qs" by (rule Cons_nth_drop_Suc[OF assms(3), symmetric])
  show "move_wf (qs ! i)" using assms by simp
  have w: "\<forall>m \<in> set (drop j qs). move_wf m" for j using assms(1) by (auto dest: in_set_dropD)
  show "0 \<le> n" "0 \<le> smoothed (drop (Suc i) qs)" "0 \<le> smoothed (drop i qs)"
    using speeds_nonneg[OF w] by (simp_all add: n_def)
  show "start_speed (drop i qs) = min (max_start_v2 (qs ! i)) (n + delta_v2 (qs ! i))"
    "smoothed (drop i qs) = min (max_smoothed_v2 (qs ! i)) (smoothed (drop (Suc i) qs) + smooth_delta_v2 (qs ! i))"
    by (simp_all add: d n_def)
  have "chained (qs ! i # drop (Suc i) qs)" "\<forall>m \<in> set (qs ! i # drop (Suc i) qs). move_wf m"
    using chained_drop[OF assms(2), of i] w[of i] by (simp_all add: d)
  then show "n \<le> start_speed (drop i qs) + delta_v2 (qs ! i)"
    unfolding d n_def by (rule start_speed_chain[rotated])
qed

text \<open>A peak: what was delayed is planned, or set aside with the moves that stay.\<close>

lemma flush_peak_visited:
  assumes wf: "\<forall>m \<in> set qs. move_wf m" and v: "visited qs (Suc i) f" and i: "i < length qs"
    and cnt: "\<not> update_flush_count f \<Longrightarrow> i < flush_count f"
    and free: "head_free (drop i qs)" and sm: "0 \<le> sm" "sm < rs" and m: "0 < max_cruise_v2 m"
  defines "g \<equiv> flush_peak i m sm rs f"
  shows "visited qs (Suc i) g" "delayed g = []" "0 < peak_cruise_v2 g" "\<not> update_flush_count g \<Longrightarrow> i \<le> flush_count g"
proof -
  define P where "P = min (max_cruise_v2 m) ((sm + rs) / 2)"
  have P: "0 < P" using sm m by (simp add: P_def)
  have "visited qs (Suc i) g \<and> delayed g = [] \<and> peak_cruise_v2 g = P \<and> (\<not> update_flush_count g \<longrightarrow> i \<le> flush_count g)"
  proof (cases "update_flush_count f")
    case True
    have "g = (if peak_cruise_v2 f \<noteq> 0 then f\<lparr>flush_count := i, update_flush_count := False, peak_cruise_v2 := P, delayed := []\<rparr>
               else f\<lparr>peak_cruise_v2 := P, delayed := []\<rparr>)"
      using True by (cases "delayed f") (simp_all add: g_def flush_peak_def P_def)
    moreover have "planned_from (Suc i) (f\<lparr>flush_count := i, update_flush_count := False, peak_cruise_v2 := P, delayed := []\<rparr>)"
      "planned_from (length qs) (f\<lparr>peak_cruise_v2 := P, delayed := []\<rparr>)"
      using v True by (auto simp: visited_def planned_from_def dest!: same_movesD(1))
    ultimately show ?thesis
      using v True i free P by (simp add: visited_def)
  next
    case False
    define f2 where "f2 = f\<lparr>peak_cruise_v2 := P\<rparr>"
    have v': "same_moves (moves f2) qs" using v by (simp add: visited_def f2_def)
    have "\<forall>(j, s, e) \<in> set (rev (delayed f2)). j < length qs \<and> move_wf (qs ! j) \<and> 0 \<le> e \<and> 0 < s \<and>
            s \<le> max_start_v2 (qs ! j) \<and> s \<le> e + delta_v2 (qs ! j)"
      using v wf by (auto simp: visited_def f2_def)
    from plan_delayed_moves[OF v' P this] obtain ms
      where ms: "plan_delayed (rev (delayed f2)) P f2 = f2\<lparr>moves := ms\<rparr>" "same_moves ms qs"
        "\<And>j. if j \<in> fst ` set (delayed f) then planned_ok (ms ! j) else ms ! j = moves f ! j"
      by (auto simp: f2_def)
    have g: "g = (if delayed f \<noteq> [] then f\<lparr>peak_cruise_v2 := P, moves := ms, delayed := []\<rparr> else f\<lparr>peak_cruise_v2 := P\<rparr>)"
      using False cnt[OF False] ms(1) by (simp add: g_def flush_peak_def P_def f2_def)
    have len: "length ms = length (moves f)" "length (moves f) = length qs"
      using same_movesD(1)[OF ms(2)] same_movesD(1)[OF v'] by (simp_all add: f2_def)
    have d: "\<forall>(j, s, e) \<in> set (delayed f). Suc i \<le> j \<and> j < flush_count f"
      using v False by (auto simp: visited_def)
    have pf: "planned_from (Suc i) f" using v False by (simp add: visited_def)
    have "planned_ok (ms ! j)" if "j < length (moves f)" "Suc i \<le> j" "j < flush_count f" for j
      using pf that ms(3)[of j] by (auto simp: planned_from_def split: if_splits)
    moreover have "times (ms ! j) = None" if "j < length (moves f)" "j < Suc i \<or> flush_count f \<le> j" for j
      using pf that ms(3)[of j] d by (auto simp: planned_from_def split: if_splits)
    ultimately have "planned_from (Suc i) (f\<lparr>peak_cruise_v2 := P, moves := ms, delayed := []\<rparr>)"
      using len(1) by (simp add: planned_from_def)
    moreover have "planned_from (Suc i) (f\<lparr>peak_cruise_v2 := P\<rparr>)"
      using pf by (simp add: planned_from_def)
    ultimately have "planned_from (Suc i) g" by (simp add: g)
    then show ?thesis
      using v False P ms(2) cnt[OF False] by (simp add: visited_def g split: if_splits)
  qed
  then show "visited qs (Suc i) g" "delayed g = []" "0 < peak_cruise_v2 g" "\<not> update_flush_count g \<Longrightarrow> i \<le> flush_count g"
    using P by simp_all
qed

lemma unplanned_eqD:
  assumes "unplanned m = unplanned m'"
  shows "max_start_v2 m = max_start_v2 m'" "max_smoothed_v2 m = max_smoothed_v2 m'" "delta_v2 m = delta_v2 m'"
    "smooth_delta_v2 m = smooth_delta_v2 m'" "max_cruise_v2 m = max_cruise_v2 m'"
  using arg_cong[OF assms, of max_start_v2] arg_cong[OF assms, of max_smoothed_v2] arg_cong[OF assms, of delta_v2]
    arg_cong[OF assms, of smooth_delta_v2] arg_cong[OF assms, of max_cruise_v2]
  by simp_all

text \<open>The three ways a turn ends: the move is planned, left alone or delayed.\<close>

lemma visited_skip:
  assumes "visited qs (Suc i) f" "i < length qs" "update_flush_count f \<or> flush_count f \<le> i" "delayed f = []" "0 < peak_cruise_v2 f"
  shows "visited qs i (f\<lparr>next_end_v2 := start_speed (drop i qs), next_smoothed_v2 := smoothed (drop i qs)\<rparr>)"
proof -
  have "planned_from i f" if "\<not> update_flush_count f" "planned_from (Suc i) f"
    using assms(3) that by (auto simp: planned_from_def)
  then show ?thesis using assms by (auto simp: visited_def planned_from_def)
qed

lemma visited_plan:
  assumes v: "visited qs (Suc i) f" and i: "i < length qs" "\<not> update_flush_count f" "i < flush_count f" "delayed f = []" "0 < peak_cruise_v2 f"
    and ok: "move_wf (qs ! i)" "feasible (qs ! i) s c e"
  shows "visited qs i ((plan i s c e f)\<lparr>next_end_v2 := start_speed (drop i qs), next_smoothed_v2 := smoothed (drop i qs)\<rparr>)"
proof -
  define f' where "f' = plan i s c e f"
  have mv: "moves f' = (moves f)[i := set_junction s c e (moves f ! i)]" by (simp add: f'_def plan_def)
  have sm: "same_moves (moves f) qs" using v by (simp add: visited_def)
  then have len: "length (moves f) = length qs" "unplanned (moves f ! i) = unplanned (qs ! i)"
    using same_movesD[OF sm] i(1) by simp_all
  have pf: "planned_from (Suc i) f" using v i(2) by (simp add: visited_def)
  have "planned_ok (moves f' ! j)" if "j < length (moves f)" "i \<le> j" "j < flush_count f" for j
    using pf i that planned_ok_set_junction[OF len(2) ok] by (cases "j = i") (auto simp: mv planned_from_def)
  moreover have "times (moves f' ! j) = None" if "j < length (moves f)" "j < i \<or> flush_count f \<le> j" for j
    using pf i that by (auto simp: mv planned_from_def)
  ultimately have "planned_from i (f'\<lparr>next_end_v2 := start_speed (drop i qs), next_smoothed_v2 := smoothed (drop i qs)\<rparr>)"
    by (simp add: planned_from_def f'_def plan_def)
  then have "visited qs i (f'\<lparr>next_end_v2 := start_speed (drop i qs), next_smoothed_v2 := smoothed (drop i qs)\<rparr>)"
    using v i sm unfolding f'_def by (simp add: visited_def plan_def)
  then show ?thesis by (simp add: f'_def)
qed

lemma visited_delay:
  assumes "visited qs (Suc i) f" "i < length qs" "update_flush_count f \<or> i < flush_count f"
    "0 \<le> e" "0 < s" "s \<le> max_start_v2 (qs ! i)" "s \<le> e + delta_v2 (qs ! i)"
  shows "visited qs i (f\<lparr>delayed := delayed f @ [(i, s, e)], next_end_v2 := start_speed (drop i qs), next_smoothed_v2 := smoothed (drop i qs)\<rparr>)"
proof -
  have "planned_from i (f\<lparr>delayed := delayed f @ [(i, s, e)], next_end_v2 := start_speed (drop i qs), next_smoothed_v2 := smoothed (drop i qs)\<rparr>)"
    if "\<not> update_flush_count f" "planned_from (Suc i) f"
    using assms(3) that unfolding planned_from_def by (auto simp: Suc_le_eq le_less)
  moreover have "planned_from (length qs) (f\<lparr>delayed := delayed f @ [(i, s, e)], next_end_v2 := start_speed (drop i qs), next_smoothed_v2 := smoothed (drop i qs)\<rparr>)"
    if "planned_from (length qs) f" "flush_count f = length qs"
    using that by (auto simp: planned_from_def)
  ultimately show ?thesis using assms unfolding visited_def by (cases "update_flush_count f") auto
qed

lemma flush_turn_visited:
  assumes wf: "\<forall>m \<in> set qs. move_wf m" and ch: "chained qs" and v: "visited qs (Suc i) f" and i: "i < length qs"
    and cnt: "\<not> update_flush_count f \<Longrightarrow> i < flush_count f"
  defines "g \<equiv> flush_turn i f"
  shows "visited qs i g" "\<not> update_flush_count g \<Longrightarrow> i \<le> flush_count g" "head_free (drop i qs) \<Longrightarrow> delayed g = []"
proof -
  define m where "m = qs ! i"
  note tf = turn_facts[OF wf ch i, folded m_def]
  define n s r where "n = start_speed (drop (Suc i) qs)" and "s = start_speed (drop i qs)" and "r = n + delta_v2 m"
  define ns sm rs where "ns = smoothed (drop (Suc i) qs)" and "sm = smoothed (drop i qs)" and "rs = ns + smooth_delta_v2 m"
  note facts = tf[folded n_def s_def ns_def sm_def, folded r_def rs_def]
  have mm: "unplanned (moves f ! i) = unplanned m"
    using v i same_movesD(2) unfolding visited_def m_def by blast
  note me = unplanned_eqD[OF mm]
  have f_eq: "next_end_v2 f = n" "next_smoothed_v2 f = ns"
    using v by (simp_all add: visited_def n_def ns_def)
  have dropi: "drop i qs = m # drop (Suc i) qs"
    unfolding m_def by (rule Cons_nth_drop_Suc[OF i, symmetric])
  have hf: "head_free (drop i qs) \<longleftrightarrow> sm < rs"
    by (simp add: dropi rs_def ns_def sm_def min_def)
  have g: "g = (let f' = (if sm < rs then
                  let f1 = (if sm + smooth_delta_v2 m > ns \<or> delayed f \<noteq> [] then flush_peak i (moves f ! i) sm rs f else f)
                  in if \<not> update_flush_count f1 \<and> i < flush_count f1 then
                       let c = min (min ((s + r) / 2) (max_cruise_v2 m)) (peak_cruise_v2 f1)
                       in plan i (min s c) c (min n c) f1
                     else f1
                else f\<lparr>delayed := delayed f @ [(i, s, n)]\<rparr>)
      in f'\<lparr>next_end_v2 := s, next_smoothed_v2 := sm\<rparr>)"
    unfolding g_def flush_turn_def Let_def f_eq me
    by (simp only: facts(3,4)[symmetric] r_def[symmetric] rs_def[symmetric])
  show "visited qs i g" "\<not> update_flush_count g \<Longrightarrow> i \<le> flush_count g" "head_free (drop i qs) \<Longrightarrow> delayed g = []"
  proof (atomize (full), cases "sm < rs")
    case True
    define f1 where "f1 = (if sm + smooth_delta_v2 m > ns \<or> delayed f \<noteq> [] then flush_peak i (moves f ! i) sm rs f else f)"
    have "visited qs (Suc i) f1 \<and> delayed f1 = [] \<and> 0 < peak_cruise_v2 f1 \<and> (\<not> update_flush_count f1 \<longrightarrow> i \<le> flush_count f1)"
    proof (cases "sm + smooth_delta_v2 m > ns \<or> delayed f \<noteq> []")
      case c: True
      have "0 < max_cruise_v2 (moves f ! i)" using move_wfD(3)[OF facts(1)] me by simp
      from flush_peak_visited[OF wf v i cnt hf[THEN iffD2, OF True] facts(7) True this] show ?thesis
        using c by (simp add: f1_def)
    next
      case c: False
      have "Suc i < length qs"
        using c facts(7) move_wfD(2)[OF facts(1)] i by (cases "Suc i = length qs") (auto simp: ns_def)
      then show ?thesis using c v cnt by (auto simp: f1_def visited_def intro: less_imp_le)
    qed
    then have v1: "visited qs (Suc i) f1" "delayed f1 = []" "0 < peak_cruise_v2 f1" "\<not> update_flush_count f1 \<Longrightarrow> i \<le> flush_count f1"
      by simp_all
    define c where "c = min (min ((s + r) / 2) (max_cruise_v2 m)) (peak_cruise_v2 f1)"
    have g1: "g = (if \<not> update_flush_count f1 \<and> i < flush_count f1 then plan i (min s c) c (min n c) f1 else f1)
                \<lparr>next_end_v2 := s, next_smoothed_v2 := sm\<rparr>"
      using True by (simp add: g f1_def c_def Let_def)
    show "visited qs i g \<and> (\<not> update_flush_count g \<longrightarrow> i \<le> flush_count g) \<and> (head_free (drop i qs) \<longrightarrow> delayed g = [])"
    proof (cases "\<not> update_flush_count f1 \<and> i < flush_count f1")
      case c: True
      have "feasible m (min s c) c (min n c)"
        using facts v1(3) by (intro feasible_cruise[where p = "peak_cruise_v2 f1"]) (simp_all add: c_def r_def)
      from visited_plan[OF v1(1) i _ _ v1(2,3), folded m_def, OF _ _ facts(1) this] c
      show ?thesis using c v1(2) by (simp add: g1 s_def sm_def plan_def)
    next
      case c: False
      then show ?thesis using v1 visited_skip[OF v1(1) i _ v1(2,3)] by (auto simp: g1 s_def sm_def)
    qed
  next
    case False
    then have sm: "sm = rs" using facts(4) by simp
    have ms: "0 < r" "0 < max_start_v2 m" using facts(2,4,6) sm move_wfD[OF facts(1)] by (auto simp: r_def rs_def)
    then have "0 < s" "s \<le> max_start_v2 m" "s \<le> n + delta_v2 m" using facts(3) by (auto simp: r_def)
    from visited_delay[OF v i _ facts(2), folded m_def, OF _ this] show
      "visited qs i g \<and> (\<not> update_flush_count g \<longrightarrow> i \<le> flush_count g) \<and> (head_free (drop i qs) \<longrightarrow> delayed g = [])"
      using False cnt hf by (auto simp: g s_def sm_def)
  qed
qed

lemma planned_from_same: "planned_from 0 f \<Longrightarrow> delayed f = [] \<Longrightarrow> \<forall>m \<in> set (take (flush_count f) (moves f)). planned_ok m"
  by (auto simp: planned_from_def in_set_conv_nth)

lemma flush_loop_visited:
  assumes "\<forall>m \<in> set qs. move_wf m" "chained qs" "visited qs n f" "\<not> update_flush_count f \<Longrightarrow> n \<le> flush_count f"
    "n = 0 \<Longrightarrow> delayed f = []" "head_free qs" "n \<le> length qs"
  defines "g \<equiv> flush_loop n f"
  shows "visited qs 0 g \<and> delayed g = []"
  using assms(3-7) unfolding g_def
proof (induction n arbitrary: f)
  case 0
  then show ?case by simp
next
  case (Suc n)
  have n: "n < length qs" using Suc.prems(5) by simp
  have cnt: "n < flush_count f" if "\<not> update_flush_count f" using Suc.prems(2)[OF that] by simp
  note turn = flush_turn_visited[OF assms(1,2) Suc.prems(1) n cnt]
  have "visited qs 0 (flush_loop n (flush_turn n f)) \<and> delayed (flush_loop n (flush_turn n f)) = []"
    using turn Suc.prems(4) n by (intro Suc.IH) auto
  then show ?case by simp
qed

lemma plan_delayed_count [simp]:
  "update_flush_count (plan_delayed ds mc f) = update_flush_count f" "flush_count (plan_delayed ds mc f) = flush_count f"
  by (induction ds mc f rule: plan_delayed.induct) (simp_all add: Let_def plan_def)

lemma plan_count [simp]:
  "update_flush_count (plan i s c e f) = update_flush_count f" "flush_count (plan i s c e f) = flush_count f"
  by (simp_all add: plan_def)

lemma flush_peak_count:
  "\<not> update_flush_count f \<Longrightarrow> \<not> update_flush_count (flush_peak i m sm rs f) \<and> flush_count (flush_peak i m sm rs f) = flush_count f"
  unfolding flush_peak_def Let_def by (cases "delayed f") auto

lemma flush_turn_count:
  assumes "\<not> update_flush_count f"
  shows "\<not> update_flush_count (flush_turn i f) \<and> flush_count (flush_turn i f) = flush_count f"
proof -
  have c: "\<not> update_flush_count (if b then flush_peak i m sm rs f else f)"
    "flush_count (if b then flush_peak i m sm rs f else f) = flush_count f" for b m sm rs
    using assms flush_peak_count[OF assms] by simp_all
  show ?thesis
    unfolding flush_turn_def Let_def using assms c by (simp split del: if_split add: if_distrib[of update_flush_count] if_distrib[of flush_count] cong: if_cong)
qed

lemma flush_loop_count:
  "\<not> update_flush_count f \<Longrightarrow> \<not> update_flush_count (flush_loop n f) \<and> flush_count (flush_loop n f) = flush_count f"
  by (induction n arbitrary: f) (simp_all add: flush_turn_count)

lemma queue_wf_same:
  assumes "same_moves xs ys" "\<forall>m \<in> set ys. move_wf m" shows "\<forall>m \<in> set xs. move_wf m"
proof
  fix m assume "m \<in> set xs"
  then have "unplanned m \<in> unplanned ` set ys" using assms(1) by (metis image_eqI list.set_map same_moves_def)
  then obtain m' where "m' \<in> set ys" "unplanned m = unplanned m'" by auto
  then show "move_wf m" using assms(2) unplanned_planned(2) by blast
qed

lemma flush_wf:
  assumes wf: "queue_wf q" and r: "flush lazy q = (ms, q')"
  shows "queue_wf q'" "\<forall>m \<in> set ms. planned_ok m" "same_moves (ms @ queue q') (queue q)" "\<not> lazy \<Longrightarrow> queue q' = []"
proof -
  define qs where "qs = queue q"
  define f0 where "f0 = \<lparr>next_end_v2 = 0, next_smoothed_v2 = 0, peak_cruise_v2 = 0, flush_count = length qs, update_flush_count = lazy,
                            delayed = [], moves = qs\<rparr>"
  define f where "f = flush_loop (length qs) f0"
  have q: "\<forall>m \<in> set qs. move_wf m" "\<forall>m \<in> set qs. times m = None" "chained qs" "head_free qs"
    using wf by (auto simp: queue_wf_def qs_def)
  have "visited qs (length qs) f0"
    using q by (auto simp: visited_def f0_def planned_from_def)
  from flush_loop_visited[OF q(1,3) this _ _ q(4)] have v: "visited qs 0 f" "delayed f = []"
    by (simp_all add: f_def f0_def)
  then have sm: "same_moves (moves f) qs" by (simp add: visited_def)
  note len = same_movesD(1)[OF sm]
  have res: "(ms, q') = (if update_flush_count f \<or> flush_count f = 0 then ([], q\<lparr>junction_flush := LOOKAHEAD_FLUSH_TIME, queue := moves f\<rparr>)
     else (take (flush_count f) (moves f), q\<lparr>junction_flush := LOOKAHEAD_FLUSH_TIME, queue := drop (flush_count f) (moves f)\<rparr>))"
    using r by (simp only: flush_def Let_def f_def f0_def qs_def)
  show "same_moves (ms @ queue q') (queue q)"
    using res sm by (auto simp: qs_def split: if_splits)
  have w: "\<forall>m \<in> set (moves f). move_wf m" using sm q(1) by (rule queue_wf_same)
  show "\<forall>m \<in> set ms. planned_ok m"
    using res v planned_from_same[of f] by (auto simp: visited_def split: if_splits)
  show "queue_wf q'"
  proof (cases "update_flush_count f")
    case True
    then have "times m = None" if "m \<in> set (moves f)" for m
      using v that len by (auto simp: visited_def planned_from_def in_set_conv_nth)
    then show ?thesis using res True w q same_moves_facts[OF sm] by (simp add: queue_wf_def)
  next
    case False
    let ?k = "flush_count f"
    have hf: "head_free (drop ?k qs)" and pf: "planned_from 0 f" using v False by (auto simp: visited_def)
    have "queue q' = drop ?k (moves f)" using res False by (auto split: if_splits)
    moreover have "times m = None" if "m \<in> set (drop ?k (moves f))" for m
      using that pf by (auto simp: planned_from_def in_set_conv_nth)
    moreover have "chained (drop ?k (moves f))" "head_free (drop ?k (moves f))"
      using same_moves_facts[OF same_moves_drop[OF sm, of ?k]] hf chained_drop[OF q(3), of ?k] by simp_all
    ultimately show ?thesis using w by (auto simp: queue_wf_def dest: in_set_dropD)
  qed
  show "queue q' = []" if "\<not> lazy"
  proof -
    have "\<not> update_flush_count f \<and> flush_count f = length qs"
      using flush_loop_count[of f0 "length qs"] that by (simp add: f_def f0_def)
    then show ?thesis using res len by (auto split: if_splits)
  qed
qed

lemma chained_snoc: "chained (xs @ [p, m]) \<longleftrightarrow> chained (xs @ [p]) \<and> max_start_v2 m \<le> max_start_v2 p + delta_v2 p"
proof (induction xs)
  case (Cons x xs)
  then show ?case by (cases xs) auto
qed simp

lemma smoothed_append_mono:
  "0 \<le> smoothed ys \<Longrightarrow> smoothed xs \<le> smoothed (xs @ ys)"
  by (induction xs) (auto intro: min.mono)

lemma head_free_append:
  assumes "head_free xs" "0 \<le> smoothed ys" "xs \<noteq> []" shows "head_free (xs @ ys)"
  using assms smoothed_append_mono[OF assms(2), of "tl xs"] by (cases xs) auto

definition fresh :: "move \<Rightarrow> bool" where
  "fresh m \<longleftrightarrow> move_wf m \<and> max_start_v2 m = 0 \<and> times m = None"

lemma fresh_smoothed: "fresh m \<Longrightarrow> max_smoothed_v2 m = 0"
  using move_wfD(4,5)[of m] by (auto simp: fresh_def)

text \<open>What the planner needs of the junction limit of the extruder.\<close>

definition junction_ok :: "(move \<Rightarrow> move \<Rightarrow> real) \<Rightarrow> bool" where
  "junction_ok ev2 \<longleftrightarrow> (\<forall>p m. move_wf m \<longrightarrow> 0 \<le> ev2 p m)"

lemma add_move_wf:
  assumes wf: "queue_wf q" and m: "fresh m" and jd: "0 \<le> junction_deviation th" and ex: "junction_ok ev2"
    and r: "add_move th ev2 m q = (ms, q')"
  shows "queue_wf q'" "\<forall>m \<in> set ms. planned_ok m"
proof -
  define m' where "m' = calc_junction th ev2 (last (queue q)) m"
  define q1 where "q1 = q\<lparr>queue := queue q @ [m'], junction_flush := junction_flush q - min_move_t m'\<rparr>"
  have "queue_wf q1" if ne: "queue q \<noteq> []"
  proof -
    obtain xs p where xs: "queue q = xs @ [p]" using ne by (metis rev_exhaust)
    have p: "move_wf p" using wf by (simp add: queue_wf_def xs)
    then have w: "move_wf m'" using m ex jd by (simp add: m'_def xs fresh_def calc_junction_wf junction_ok_def)
    have "max_start_v2 m' \<le> max_start_v2 p + delta_v2 p"
      using calc_junction_reach[OF _ p jd] m by (simp add: m'_def xs fresh_def)
    moreover have "head_free (queue q @ [m'])"
      using wf w ne by (intro head_free_append speeds_nonneg(2)) (auto simp: queue_wf_def)
    ultimately show ?thesis
      using wf w m by (simp add: queue_wf_def q1_def xs chained_snoc fresh_def m'_def)
  qed
  moreover have "queue_wf (q\<lparr>queue := [m]\<rparr>)"
    using m fresh_smoothed[OF m] move_wfD(2) by (simp add: queue_wf_def fresh_def)
  moreover have "(ms, q') = (if queue q = [] then ([], q\<lparr>queue := [m]\<rparr>)
      else if junction_flush q1 \<le> 0 then flush True q1 else ([], q1))"
    using r by (simp only: add_move_def Let_def m'_def q1_def)
  ultimately show "queue_wf q'" "\<forall>m \<in> set ms. planned_ok m"
    using flush_wf(1,2)[of q1 True ms q'] by (auto split: if_splits)
qed

section \<open>The operations of the toolhead on the queue\<close>

text \<open>\<open>ToolHead.move\<close> limits a new move (the checks of the kinematics and the extruder call \<open>limit_speed\<close>) and adds it; the
  other calls flush the queue, set its flush time or empty it.\<close>

datatype queue_op = Add "real list" "real list" real "(real \<times> real) list" | Flush bool | SetFlushTime real | Reset

definition checked_move :: "toolhead \<Rightarrow> real list \<Rightarrow> real list \<Rightarrow> real \<Rightarrow> (real \<times> real) list \<Rightarrow> move" where
  "checked_move th sp ep spd lims = fold (\<lambda>(v, a). limit_speed v a) lims (new_move th sp ep spd)"

fun queue_step :: "toolhead \<Rightarrow> (move \<Rightarrow> move \<Rightarrow> real) \<Rightarrow> queue_op \<Rightarrow> move_queue \<Rightarrow> move list \<times> move_queue" where
  "queue_step th ev2 (Add sp ep spd lims) q =
     (if move_d (new_move th sp ep spd) = 0 then ([], q) else add_move th ev2 (checked_move th sp ep spd lims) q)"
| "queue_step th ev2 (Flush lazy) q = flush lazy q"
| "queue_step th ev2 (SetFlushTime t) q = ([], set_flush_time t q)"
| "queue_step th ev2 Reset q = ([], reset_queue q)"

definition queue_run :: "toolhead \<Rightarrow> (move \<Rightarrow> move \<Rightarrow> real) \<Rightarrow> queue_op list \<Rightarrow> move_queue \<Rightarrow> move list \<times> move_queue" where
  "queue_run th ev2 = run_ops (queue_step th ev2)"

fun op_ok :: "queue_op \<Rightarrow> bool" where
  "op_ok (Add sp ep spd lims) \<longleftrightarrow> 0 < spd \<and> (\<forall>(v, a) \<in> set lims. 0 < v \<and> 0 < a)"
| "op_ok _ \<longleftrightarrow> True"

definition toolhead_ok :: "toolhead \<Rightarrow> bool" where
  "toolhead_ok th \<longleftrightarrow> 0 < max_velocity th \<and> 0 < max_accel th \<and> 0 < max_accel_to_decel th \<and> 0 \<le> junction_deviation th"

lemma limit_speeds_fresh:
  assumes "fresh m" "\<forall>(v, a) \<in> set lims. 0 < v \<and> 0 < a"
  shows "fresh (fold (\<lambda>(v, a). limit_speed v a) lims m)"
  using assms
proof (induction lims arbitrary: m)
  case (Cons x xs)
  obtain v a where x: "x = (v, a)" by (cases x)
  have "fresh (limit_speed v a m)"
    using Cons.prems limit_speed_wf[of m v a] by (auto simp: fresh_def x) (auto simp: limit_speed_def Let_def)
  then show ?case using Cons by (simp add: x)
qed simp

lemma new_move_fresh:
  assumes "toolhead_ok th" "0 < spd" "move_d (new_move th sp ep spd) \<noteq> 0"
  shows "fresh (new_move th sp ep spd)"
  using assms new_move_wf[of spd th sp ep] by (simp add: fresh_def toolhead_ok_def) (simp add: new_move_def Let_def)

lemma checked_move_fresh:
  assumes "toolhead_ok th" "0 < spd" "\<forall>(v, a) \<in> set lims. 0 < v \<and> 0 < a" "move_d (new_move th sp ep spd) \<noteq> 0"
  shows "fresh (checked_move th sp ep spd lims)"
  unfolding checked_move_def by (rule limit_speeds_fresh[OF new_move_fresh[OF assms(1,2,4)] assms(3)])

lemma queue_step_wf:
  assumes "toolhead_ok th" "junction_ok ev2" "op_ok e" "queue_wf q" "queue_step th ev2 e q = (ms, q')"
  shows "queue_wf q' \<and> (\<forall>m \<in> set ms. planned_ok m)"
proof (cases e)
  case (Add sp ep spd lims)
  then show ?thesis
    using assms checked_move_fresh[OF assms(1), of spd lims sp ep] add_move_wf[OF assms(4) _ _ assms(2), of _ th ms q']
    by (auto simp: toolhead_ok_def split: if_splits)
next
  case (Flush lazy)
  then show ?thesis using assms flush_wf[OF assms(4)] by simp
qed (use assms in \<open>auto simp: queue_wf_def set_flush_time_def reset_queue_def\<close>)

definition printer_ok :: "toolhead \<Rightarrow> (move \<Rightarrow> move \<Rightarrow> real) \<Rightarrow> bool" where
  "printer_ok th ev2 \<longleftrightarrow> toolhead_ok th \<and> junction_ok ev2"

interpretation planner: supplier "queue_step th ev2" "\<lambda>e. printer_ok th ev2 \<and> op_ok e" queue_wf planned_ok for th ev2
  by unfold_locales (use queue_step_wf in \<open>auto simp: printer_ok_def\<close>)

lemma new_queue_wf: "queue_wf new_move_queue"
  by (simp add: queue_wf_def new_move_queue_def)

text \<open>C6: Whatever moves, flushes and resets the toolhead asks for, every move the look-ahead queue hands on has been planned: it
  starts, cruises and ends at speeds within the limits of the move and of its junction, its three times are not negative, the
  speeds change at the acceleration of the move, and the three parts add up to the length of the move. The configured limits
  are positive and the junction limit of the extruder is not negative for such moves.\<close>

theorem planned_moves_feasible:
  assumes "toolhead_ok th" "junction_ok ev2" "\<forall>e \<in> set es. op_ok e"
  shows "\<forall>m \<in> set (fst (queue_run th ev2 es new_move_queue)). \<exists>j. times m = Some j \<and> trapezoid m j"
  using planner.run_from_good(2)[of es th ev2, OF _ new_queue_wf] assms
  by (simp add: printer_ok_def queue_run_def planned_ok_def)

definition toolhead1 :: toolhead where
  "toolhead1 = \<lparr>max_velocity = 300, max_accel = 3000, max_accel_to_decel = 1500, junction_deviation = 1 / 100\<rparr>"

definition move1 :: move where
  "move1 = checked_move toolhead1 [0, 0, 0, 0] [3, 4, 0, 0] 100 [(50, 1000)]"

lemma move1_fresh: "fresh move1" "move_d (new_move toolhead1 [0, 0, 0, 0] [3, 4, 0, 0] 100) = 5"
proof -
  have "sqrt 25 = (5 :: real)" by (rule real_sqrt_unique) simp_all
  then show d: "move_d (new_move toolhead1 [0, 0, 0, 0] [3, 4, 0, 0] 100) = 5"
    by (simp add: new_move_def Let_def)
  show "fresh move1"
    unfolding move1_def by (rule checked_move_fresh) (simp_all add: toolhead_ok_def toolhead1_def d[unfolded toolhead1_def])
qed

lemma run1:
  "length (fst (queue_run toolhead1 (\<lambda>_ _. 0) [Add [0, 0, 0, 0] [3, 4, 0, 0] 100 [(50, 1000)], Flush False] new_move_queue)) = 1"
proof -
  let ?q = "new_move_queue\<lparr>queue := [move1]\<rparr>"
  obtain ms q' where f: "flush False ?q = (ms, q')" by force
  have "queue_wf ?q"
    using move1_fresh(1) fresh_smoothed[OF move1_fresh(1)] move_wfD(2) by (simp add: queue_wf_def fresh_def new_move_queue_def)
  from flush_wf(3,4)[OF this f] have "length ms = 1"
    by (auto dest: same_movesD(1))
  then show ?thesis
    using move1_fresh(2) f by (simp add: queue_run_def add_move_def new_move_queue_def move1_def)
qed

theorem planned_moves_feasible_witness:
  "let r = fst (queue_run toolhead1 (\<lambda>_ _. 0) [Add [0, 0, 0, 0] [3, 4, 0, 0] 100 [(50, 1000)], Flush False] new_move_queue) in
     length r = 1 \<and> (\<forall>m \<in> set r. \<exists>j. times m = Some j \<and> trapezoid m j)"
  using run1 planned_moves_feasible[of toolhead1 "\<lambda>_ _. 0" "[Add [0, 0, 0, 0] [3, 4, 0, 0] 100 [(50, 1000)], Flush False]"]
  by (simp add: toolhead_ok_def toolhead1_def junction_ok_def)

text \<open>After any sequence of operations, a flush that is not lazy leaves the queue empty and hands on the very moves that waited,
  in their order, unchanged but for their plan.\<close>

theorem flush_hands_on_all:
  assumes "toolhead_ok th" "junction_ok ev2" "\<forall>e \<in> set es. op_ok e"
    "snd (queue_run th ev2 es new_move_queue) = q"
  shows "queue (snd (flush False q)) = [] \<and> map unplanned (fst (flush False q)) = map unplanned (queue q)"
proof -
  have "queue_wf q"
    using planner.run_from_good(1)[of es th ev2, OF _ new_queue_wf] assms by (simp add: printer_ok_def queue_run_def)
  then show ?thesis
    using flush_wf(3,4)[of q False "fst (flush False q)" "snd (flush False q)"] by (simp add: same_moves_def)
qed

theorem flush_hands_on_all_witness:
  "map unplanned (fst (flush False (new_move_queue\<lparr>queue := [move1]\<rparr>))) = [unplanned move1]"
proof -
  have "snd (queue_run toolhead1 (\<lambda>_ _. 0) [Add [0, 0, 0, 0] [3, 4, 0, 0] 100 [(50, 1000)]] new_move_queue) =
      new_move_queue\<lparr>queue := [move1]\<rparr>"
    using move1_fresh(2) by (simp add: queue_run_def add_move_def move1_def) (simp add: new_move_queue_def)
  from flush_hands_on_all[OF _ _ _ this] show ?thesis
    by (simp add: toolhead_ok_def toolhead1_def junction_ok_def)
qed

end
