(* ===== verification/Delta.thy ===== *)
theory Delta
  imports ConfigWrapper MathUtil LookAhead
begin

text \<open>
  \<open>klippy/kinematics/delta.py\<close>: the kinematics of linear delta robots, which the printer uses, and their calibration.

  The three towers are a triple in the order a, b, c. A rail is what the source reads of it: its endstop position and the step
  distance of its first stepper. A check gives the limits it passes to \<open>limit_speed\<close>; the queuing state of the toolhead is an
  argument. Calls into the C library for the steppers, log messages and the numbers' text are left out.
\<close>

section \<open>Triples\<close>

type_synonym 'a abc = "'a \<times> 'a \<times> 'a"

fun map_abc :: "('a \<Rightarrow> 'b) \<Rightarrow> 'a abc \<Rightarrow> 'b abc" where
  "map_abc f (a, b, c) = (f a, f b, f c)"

fun zip_abc :: "('a \<Rightarrow> 'b \<Rightarrow> 'c) \<Rightarrow> 'a abc \<Rightarrow> 'b abc \<Rightarrow> 'c abc" where
  "zip_abc f (a, b, c) (a', b', c') = (f a a', f b b', f c c')"

fun all_abc :: "('a \<Rightarrow> bool) \<Rightarrow> 'a abc \<Rightarrow> bool" where
  "all_abc P (a, b, c) \<longleftrightarrow> P a \<and> P b \<and> P c"

fun min_abc :: "real abc \<Rightarrow> real" where
  "min_abc (a, b, c) = min a (min b c)"

fun rmap_abc :: "('a \<Rightarrow> 'b res) \<Rightarrow> 'a abc \<Rightarrow> 'b abc res" where
  "rmap_abc f (a, b, c) = rbind (f a) (\<lambda>a'. rbind (f b) (\<lambda>b'. rbind (f c) (\<lambda>c'. Inr (a', b', c'))))"

section \<open>State\<close>

record rail =
  position_endstop :: real
  step_dist :: real

record delta_config =
  c_rails :: "rail abc"
  c_max_z_velocity :: "real option_value"
  c_max_z_accel :: "real option_value"
  c_x_offset :: "real list"
  c_y_offset :: "real list"
  c_radius :: "real option_value"
  c_print_radius :: "real option_value"
  c_arms :: "real option_value abc"
  c_angles :: "real option_value abc"
  c_min_z :: "real option_value"
  c_normal_min_z :: "real option_value"

record delta =
  rails :: "rail abc"
  dk_velocity :: real
  dk_accel :: real
  max_z_velocity :: real
  max_z_accel :: real
  overpass_delta_cali :: bool
  radius :: real
  arm_lengths :: "real abc"
  arm2 :: "real abc"
  abs_endstops :: "real abc"
  angles :: "real abc"
  towers :: "(real \<times> real) abc"
  need_home :: bool
  limit_xy2 :: real
  home_position :: v3
  max_z :: real
  min_z :: real
  normal_min_z :: real
  limit_z :: real
  slow_xy2 :: real
  very_slow_xy2 :: real
  max_xy2 :: real

definition SLOW_RATIO :: real where "SLOW_RATIO = 3"

definition are_all_close_to_zero :: "real list \<Rightarrow> bool" where
  "are_all_close_to_zero numbers \<longleftrightarrow> list_all (\<lambda>x. \<bar>x\<bar> \<le> 1 / 100000) numbers"

definition radians :: "real \<Rightarrow> real" where
  "radians a = a * pi / 180"

definition tower :: "real \<Rightarrow> real \<Rightarrow> real \<times> real" where
  "tower r angle = (cos (radians angle) * r, sin (radians angle) * r)"

definition ratio_to_xy :: "real \<Rightarrow> real \<Rightarrow> real \<Rightarrow> real \<Rightarrow> real res" where
  "ratio_to_xy min_arm_length half_min_step_dist r ratio =
     rbind (py_sqrt (min_arm_length\<^sup>2 / (ratio\<^sup>2 + 1) - half_min_step_dist\<^sup>2)) (\<lambda>x.
     Inr (ratio * x + half_min_step_dist - r))"

definition actuator_to_cartesian :: "(real \<times> real) abc \<Rightarrow> real abc \<Rightarrow> real abc \<Rightarrow> v3 res" where
  "actuator_to_cartesian ts a2 spos = trilateration (zip_abc (\<lambda>t sp. (fst t, snd t, sp)) ts spos) a2"

text \<open>\<open>get_max_velocity\<close> of the toolhead and \<open>get_xy_size_offset\<close> of \<open>gcode_move\<close> are arguments.\<close>

definition new_delta :: "real \<times> real \<Rightarrow> real \<times> real \<Rightarrow> delta_config \<Rightarrow> delta res" where
  "new_delta = (\<lambda>(v, a) (x_size_offset, y_size_offset) c.
     rbind (get_wrapper (c_max_z_velocity c) (Some v) [Maxval v, Above 0]) (\<lambda>zv.
     rbind (get_wrapper (c_max_z_accel c) (Some a) [Maxval a, Above 0]) (\<lambda>za.
     rbind (get_wrapper (c_radius c) None [Above 0]) (\<lambda>r.
     rbind (get_wrapper (c_print_radius c) (Some r) [Above 0]) (\<lambda>pr0.
     let pr = (if x_size_offset > 0 \<or> y_size_offset > 0 then pr0 * (1 + max x_size_offset y_size_offset) else pr0) in
     rbind (get_wrapper (fst (c_arms c)) None [Above r]) (\<lambda>arm_a.
     rbind (rmap_abc (\<lambda>x. get_wrapper x (Some arm_a) [Above r]) (c_arms c)) (\<lambda>arms.
     let a2 = map_abc (\<lambda>x. x\<^sup>2) arms; eps = map_abc position_endstop (c_rails c) in
     rbind (rmap_abc (\<lambda>x. py_sqrt (x - r\<^sup>2)) a2) (\<lambda>hs.
     let es = zip_abc (+) eps hs in
     rbind (rmap_abc (\<lambda>(x, d). get_wrapper x (Some d) []) (zip_abc Pair (c_angles c) (210, 330, 90))) (\<lambda>an.
     let ts = map_abc (tower r) an in
     rbind (actuator_to_cartesian ts a2 es) (\<lambda>home.
     let mz = min_abc eps in
     rbind (get_wrapper (c_min_z c) (Some 0) [Maxval mz]) (\<lambda>lz.
     rbind (get_wrapper (c_normal_min_z c) (Some 0) [Above lz]) (\<lambda>nz.
     let hs = min_abc (map_abc step_dist (c_rails c)) * (1 / 2); ma = min_abc arms in
     rbind (ratio_to_xy ma hs r SLOW_RATIO) (\<lambda>slow.
     rbind (ratio_to_xy ma hs r (2 * SLOW_RATIO)) (\<lambda>very_slow.
     rbind (ratio_to_xy ma hs r (4 * SLOW_RATIO)) (\<lambda>limit.
     Inr \<lparr>rails = c_rails c, dk_velocity = v, dk_accel = a, max_z_velocity = zv, max_z_accel = za,
          overpass_delta_cali = (\<not> are_all_close_to_zero (c_x_offset c @ c_y_offset c)), radius = r, arm_lengths = arms, arm2 = a2,
          abs_endstops = es, angles = an, towers = ts, need_home = True, limit_xy2 = -1, home_position = home, max_z = mz,
          min_z = lz, normal_min_z = nz, limit_z = min_abc (zip_abc (-) es arms), slow_xy2 = slow\<^sup>2, very_slow_xy2 = very_slow\<^sup>2,
          max_xy2 = (min pr (min (ma - r) limit))\<^sup>2\<rparr>)))))))))))))))"

section \<open>Operations\<close>

definition calc_position :: "real abc \<Rightarrow> delta \<Rightarrow> v3 res" where
  "calc_position spos k = actuator_to_cartesian (towers k) (arm2 k) spos"

definition dk_set_position :: "nat list \<Rightarrow> delta \<Rightarrow> delta" where
  "dk_set_position homing_axes k = k\<lparr>limit_xy2 := -1, need_home := need_home k \<and> homing_axes \<noteq> [0, 1, 2]\<rparr>"

definition dk_motor_off :: "delta \<Rightarrow> delta" where
  "dk_motor_off k = k\<lparr>limit_xy2 := -1, need_home := True\<rparr>"

text \<open>\<open>home\<close>: the position it forces and the one it moves to.\<close>

definition dk_home :: "delta \<Rightarrow> (real list \<times> real list) res" where
  "dk_home k =
     (case (arm2 k, home_position k) of ((a, b, c), (x, y, z)) \<Rightarrow>
        rbind (py_sqrt (max a (max b c) - max_xy2 k)) (\<lambda>h. Inr ([x, y, - (3 / 2) * h], [x, y, z])))"

text \<open>The height of a carriage above the bed when the nozzle is at a position.\<close>

definition carriage :: "real \<Rightarrow> real \<times> real \<Rightarrow> real list \<Rightarrow> real res" where
  "carriage a2 t p = rbind (py_sqrt (a2 - (p ! 0 - fst t)\<^sup>2 - (p ! 1 - snd t)\<^sup>2)) (\<lambda>h. Inr (h + p ! 2))"

fun carriages :: "delta \<Rightarrow> real list \<Rightarrow> real abc res" where
  "carriages k p = rmap_abc (\<lambda>(a2, t). carriage a2 t p) (zip_abc Pair (arm2 k) (towers k))"

definition end_xy2 :: "real list \<Rightarrow> real" where
  "end_xy2 p = (p ! 0)\<^sup>2 + (p ! 1)\<^sup>2"

text \<open>The checks of \<open>check_move\<close>: the new limit, before the speed limits change it.\<close>

definition check_bounds_xy :: "bool \<Rightarrow> real list \<Rightarrow> delta \<Rightarrow> real res" where
  "check_bounds_xy drip p k =
     (let z = p ! 2; low = (z < min_z k \<or> (\<not> drip \<and> z < normal_min_z k))
      in if end_xy2 p > max_xy2 k \<or> z > max_z k \<or> low then
           (if p ! 0 \<noteq> fst (home_position k) \<or> p ! 1 \<noteq> fst (snd (home_position k)) \<or> low \<or> z > snd (snd (home_position k))
            then Inl (AppError ''Move out of range'') else Inr (-1))
         else Inr (max_xy2 k))"

definition check_carriages :: "real list \<Rightarrow> delta \<Rightarrow> real \<Rightarrow> real res" where
  "check_carriages p k l =
     (if p ! 2 > limit_z k then
        rbind (carriages k p) (\<lambda>hs.
        if all_abc (\<lambda>(h, e). h \<le> e + 1 / 100) (zip_abc Pair hs (abs_endstops k)) then Inr (-1)
        else Inl (AppError ''Move out of range''))
      else Inr l)"

definition z_limits :: "move \<Rightarrow> delta \<Rightarrow> real \<Rightarrow> (real \<times> real) list \<times> real" where
  "z_limits m k l =
     (if axes_d m ! 2 \<noteq> 0 then
        let z_ratio = move_d m / \<bar>axes_d m ! 2\<bar> in ([(max_z_velocity k * z_ratio, max_z_accel k * z_ratio)], -1)
      else ([], l))"

definition extreme_limits :: "move \<Rightarrow> delta \<Rightarrow> real \<Rightarrow> (real \<times> real) list \<times> real" where
  "extreme_limits m k l =
     (let extreme_xy2 = max (end_xy2 (end_pos m)) (end_xy2 (start_pos m))
      in if extreme_xy2 > slow_xy2 k then
           let r = (if extreme_xy2 > very_slow_xy2 k then 1 / 4 else 1 / 2) in ([(dk_velocity k * r, dk_accel k * r)], -1)
         else ([], l))"

definition dk_check_move :: "bool \<Rightarrow> move \<Rightarrow> delta \<Rightarrow> (real \<times> real) list res \<times> delta" where
  "dk_check_move drip m k =
     (let p = end_pos m
      in if end_xy2 p \<le> limit_xy2 k \<and> axes_d m ! 2 = 0 then (Inr [], k)
         else if need_home k then (Inl (AppError ''Must home first''), k)
         else case rbind (check_bounds_xy drip p k) (check_carriages p k) of
           Inl e \<Rightarrow> (Inl e, k)
         | Inr l0 \<Rightarrow>
             let (zs, l1) = z_limits m k l0; (xs, l2) = extreme_limits m k l1
             in (Inr (zs @ xs), k\<lparr>limit_xy2 := min l2 (slow_xy2 k)\<rparr>))"

definition homed_axes :: "delta \<Rightarrow> string" where
  "homed_axes k = (if need_home k then '''' else ''xyz'')"

section \<open>What a configuration gives\<close>

definition height :: "real \<Rightarrow> real \<times> real \<Rightarrow> real list \<Rightarrow> real" where
  "height a2 t p = sqrt (a2 - (p ! 0 - fst t)\<^sup>2 - (p ! 1 - snd t)\<^sup>2) + p ! 2"

definition carriages_ok :: "delta \<Rightarrow> real list \<Rightarrow> bool" where
  "carriages_ok k p \<longleftrightarrow> all_abc (\<lambda>((a2, t), e). height a2 t p \<le> e + 1 / 100) (zip_abc Pair (zip_abc Pair (arm2 k) (towers k)) (abs_endstops k))"

definition reachable_xy :: "delta \<Rightarrow> real list \<Rightarrow> bool" where
  "reachable_xy k p \<longleftrightarrow> all_abc (\<lambda>(a2, t). 0 \<le> a2 - (p ! 0 - fst t)\<^sup>2 - (p ! 1 - snd t)\<^sup>2) (zip_abc Pair (arm2 k) (towers k))"

definition at_home_xy :: "delta \<Rightarrow> real list \<Rightarrow> bool" where
  "at_home_xy k p \<longleftrightarrow> p ! 0 = fst (home_position k) \<and> p ! 1 = fst (snd (home_position k))"

text \<open>The arms are longer than the radius by what the steepest permitted arm needs.\<close>

definition arms_clear :: "delta \<Rightarrow> bool" where
  "arms_clear k \<longleftrightarrow> (case ratio_to_xy (min_abc (arm_lengths k)) (min_abc (map_abc step_dist (rails k)) * (1 / 2)) (radius k) (4 * SLOW_RATIO) of
     Inl e \<Rightarrow> False | Inr x \<Rightarrow> 0 \<le> x)"

definition dk_ok :: "delta \<Rightarrow> bool" where
  "dk_ok k \<longleftrightarrow> 0 < dk_velocity k \<and> 0 < dk_accel k \<and> 0 < max_z_velocity k \<and> 0 < max_z_accel k \<and> 0 < radius k \<and>
     arm2 k = map_abc (\<lambda>x. x\<^sup>2) (arm_lengths k) \<and> all_abc (\<lambda>x. radius k < x) (arm_lengths k) \<and>
     limit_z k = min_abc (zip_abc (-) (abs_endstops k) (arm_lengths k)) \<and> towers k = map_abc (tower (radius k)) (angles k) \<and>
     0 \<le> max_xy2 k \<and> 0 \<le> slow_xy2 k \<and> (\<forall>p. at_home_xy k p \<longrightarrow> reachable_xy k p) \<and>
     (arms_clear k \<longrightarrow> (\<forall>p. end_xy2 p \<le> max_xy2 k \<longrightarrow> reachable_xy k p))"

lemma abc_cases: obtains a b c where "x = (a, b, c)" by (cases x)

lemma rmap_abc_Inr: "rmap_abc f x = Inr y \<longleftrightarrow> (\<exists>a b c a' b' c'. x = (a, b, c) \<and> y = (a', b', c') \<and> f a = Inr a' \<and> f b = Inr b' \<and> f c = Inr c')"
  by (cases x) (auto simp: rbind_eq_Inr)

lemma sphere_in_reach:
  assumes "on_sphere (tx, ty, h) r2 (x, y, z)"
  shows "0 \<le> r2 - (x - tx)\<^sup>2 - (y - ty)\<^sup>2"
proof -
  have "r2 - (x - tx)\<^sup>2 - (y - ty)\<^sup>2 = (z - h)\<^sup>2" using assms by (simp add: on_sphere_def)
  then show ?thesis by simp
qed

lemma arms_above:
  assumes "get_wrapper x None [Above r] = Inr y" "rmap_abc (\<lambda>x. get_wrapper x (Some y) [Above r]) xs = Inr ys"
  shows "all_abc (\<lambda>x. r < x) ys"
proof -
  have "r < y" using assms(1) by (auto simp: get_wrapper_Inr split: option_value.splits)
  then have "r < w" if "get_wrapper v (Some y) [Above r] = Inr w" for v w
    using that by (auto simp: get_wrapper_Inr split: option_value.splits)
  then show ?thesis using assms(2) by (auto simp: rmap_abc_Inr)
qed

lemma new_delta_facts:
  assumes n: "new_delta (v, a) (xo, yo) c = Inr k"
  shows "need_home k" "limit_xy2 k = -1" "dk_velocity k = v" "dk_accel k = a" "0 \<le> max_xy2 k" "0 \<le> slow_xy2 k"
    "get_wrapper (c_max_z_velocity c) (Some v) [Maxval v, Above 0] = Inr (max_z_velocity k)"
    "get_wrapper (c_max_z_accel c) (Some a) [Maxval a, Above 0] = Inr (max_z_accel k)"
    "get_wrapper (c_radius c) None [Above 0] = Inr (radius k)" "all_abc (\<lambda>x. radius k < x) (arm_lengths k)"
    "arm2 k = map_abc (\<lambda>x. x\<^sup>2) (arm_lengths k)" "limit_z k = min_abc (zip_abc (-) (abs_endstops k) (arm_lengths k))"
    "towers k = map_abc (tower (radius k)) (angles k)"
    "actuator_to_cartesian (towers k) (arm2 k) (abs_endstops k) = Inr (home_position k)"
  using n unfolding new_delta_def prod.case Let_def rbind_eq_Inr
  by - ((elim exE conjE, simp only: sum.inject, hypsubst, drule (1) arms_above, simp)+)

lemma home_reachable:
  assumes "actuator_to_cartesian (towers k) (arm2 k) es = Inr (home_position k)" "at_home_xy k p"
  shows "reachable_xy k p"
proof -
  obtain ta tb tc where t: "towers k = (ta, tb, tc)" by (rule abc_cases)
  obtain qa qb qc where q: "arm2 k = (qa, qb, qc)" by (rule abc_cases)
  obtain ea eb ec where e: "es = (ea, eb, ec)" by (rule abc_cases)
  obtain x y z where h: "home_position k = (x, y, z)" by (rule abc_cases)
  have o: "on_sphere (fst ta, snd ta, ea) qa (x, y, z)" "on_sphere (fst tb, snd tb, eb) qb (x, y, z)"
    "on_sphere (fst tc, snd tc, ec) qc (x, y, z)"
    using trilateration_on[OF assms(1)[unfolded actuator_to_cartesian_def t q e h zip_abc.simps]] by simp_all
  show ?thesis using o[THEN sphere_in_reach] assms(2) by (simp add: reachable_xy_def at_home_xy_def t q h)
qed

lemma new_delta_limit:
  assumes n: "new_delta (v, a) (xo, yo) c = Inr k"
  obtains pr x where "0 < pr" "ratio_to_xy (min_abc (arm_lengths k)) (min_abc (map_abc step_dist (rails k)) * (1 / 2)) (radius k) (4 * SLOW_RATIO) = Inr x"
    "max_xy2 k = (min pr (min (min_abc (arm_lengths k) - radius k) x))\<^sup>2"
proof -
  obtain pr0 r x where r: "get_wrapper (c_radius c) None [Above 0] = Inr r" "get_wrapper (c_print_radius c) (Some r) [Above 0] = Inr pr0"
    and k: "radius k = r" "ratio_to_xy (min_abc (arm_lengths k)) (min_abc (map_abc step_dist (rails k)) * (1 / 2)) r (4 * SLOW_RATIO) = Inr x"
      "max_xy2 k = (min (if xo > 0 \<or> yo > 0 then pr0 * (1 + max xo yo) else pr0) (min (min_abc (arm_lengths k) - r) x))\<^sup>2"
    using n unfolding new_delta_def prod.case Let_def rbind_eq_Inr by (elim exE conjE) (simp only: sum.inject, hypsubst, simp)
  have "0 < r" using r(1) by (auto simp: get_wrapper_Inr split: option_value.splits)
  then have "0 < pr0" using r(2) by (auto simp: get_wrapper_Inr split: option_value.splits)
  then have "0 < (if xo > 0 \<or> yo > 0 then pr0 * (1 + max xo yo) else pr0)" by auto
  then show thesis using that k by simp
qed

lemma distance_bound:
  fixes x y m tx ty r arm :: real
  assumes "x\<^sup>2 + y\<^sup>2 \<le> m\<^sup>2" "tx\<^sup>2 + ty\<^sup>2 = r\<^sup>2" "0 \<le> m" "0 \<le> r" "m + r \<le> arm"
  shows "0 \<le> arm\<^sup>2 - (x - tx)\<^sup>2 - (y - ty)\<^sup>2"
proof -
  have "sqrt ((x - tx)\<^sup>2 + (y - ty)\<^sup>2) \<le> sqrt (x\<^sup>2 + y\<^sup>2) + sqrt (tx\<^sup>2 + ty\<^sup>2)"
    using real_sqrt_sum_squares_triangle_ineq[of x "- tx" y "- ty"] by simp
  also have "sqrt (x\<^sup>2 + y\<^sup>2) \<le> m" using real_sqrt_le_mono[OF assms(1)] assms(3) by simp
  also have "sqrt (tx\<^sup>2 + ty\<^sup>2) = r" using assms(2,4) by simp
  finally have "sqrt ((x - tx)\<^sup>2 + (y - ty)\<^sup>2) \<le> arm" using assms(5) by simp
  then have "(x - tx)\<^sup>2 + (y - ty)\<^sup>2 \<le> arm\<^sup>2" by (rule sqrt_le_D)
  then show ?thesis by simp
qed

lemma tower_radius: "(fst (tower r an))\<^sup>2 + (snd (tower r an))\<^sup>2 = r\<^sup>2"
  by (simp add: tower_def power_mult_distrib flip: distrib_right)

lemma build_area_reachable:
  assumes n: "new_delta (v, a) (xo, yo) c = Inr k" and clear: "arms_clear k" and p: "end_xy2 p \<le> max_xy2 k" and r: "0 < radius k"
  shows "reachable_xy k p"
proof -
  obtain pr x where x: "0 < pr" "ratio_to_xy (min_abc (arm_lengths k)) (min_abc (map_abc step_dist (rails k)) * (1 / 2)) (radius k) (4 * SLOW_RATIO) = Inr x"
    "max_xy2 k = (min pr (min (min_abc (arm_lengths k) - radius k) x))\<^sup>2" by (rule new_delta_limit[OF n])
  define m where "m = min pr (min (min_abc (arm_lengths k) - radius k) x)"
  obtain la lb lc where l: "arm_lengths k = (la, lb, lc)" by (rule abc_cases)
  obtain aa ab ac where an: "angles k = (aa, ab, ac)" by (rule abc_cases)
  note f = new_delta_facts[OF n]
  have arms: "radius k < la" "radius k < lb" "radius k < lc" using f(10) by (simp_all add: l)
  have "0 \<le> x" using clear x(2) by (simp add: arms_clear_def)
  then have m: "0 \<le> m" "m + radius k \<le> la" "m + radius k \<le> lb" "m + radius k \<le> lc" using x(1) arms by (auto simp: m_def l)
  have "0 \<le> arm\<^sup>2 - (p ! 0 - fst (tower (radius k) an))\<^sup>2 - (p ! 1 - snd (tower (radius k) an))\<^sup>2" if "m + radius k \<le> arm" for arm an
    by (rule distance_bound[OF _ tower_radius m(1) _ that]) (use p x(3) r in \<open>simp_all add: end_xy2_def m_def\<close>)
  then show ?thesis using m f(11,13) by (simp add: reachable_xy_def l an)
qed

text \<open>Without that the limit is negative, and its square is not a limit: at the edge of the permitted area the arms are too short.\<close>

lemma negative_limit_squared:
  assumes "ratio_to_xy (1001 / 10) (1 / 200) 100 (4 * SLOW_RATIO) = Inr x"
  shows "x < 0 \<and> (1001 / 10 - 100)\<^sup>2 < x\<^sup>2"
proof -
  define q where "q = (10020010000 - 145 * 25) / (145 * 1000000 :: real)"
  have "sqrt q \<le> 832 / 100" unfolding q_def by (rule real_le_lsqrt) (simp_all add: power2_eq_square)
  moreover have "x = 12 * sqrt q + 1 / 200 - 100"
    using assms by (simp add: ratio_to_xy_def SLOW_RATIO_def rbind_eq_Inr py_sqrt_eq_Inr q_def power2_eq_square)
  ultimately have "x < - (1 / 10)" by simp
  then have "(1 / 10) * (1 / 10) < (- x) * (- x)" by (intro mult_strict_mono) auto
  then show ?thesis using \<open>x < - (1 / 10)\<close> by (simp add: power2_eq_square)
qed

lemma new_delta_ok:
  assumes n: "new_delta (v, a) (xo, yo) c = Inr k" and va: "0 < v" "0 < a" shows "dk_ok k"
proof -
  note f = new_delta_facts[OF n]
  have "0 < max_z_velocity k" "0 < max_z_accel k" "0 < radius k"
    using f(7-9) va by (auto simp: get_wrapper_Inr split: option_value.splits)
  then show ?thesis using f va home_reachable[OF f(14)] build_area_reachable[OF n] by (simp add: dk_ok_def)
qed

section \<open>Moves stay in reach\<close>

text \<open>Where a move may end: in the build volume, or on the line below the home position; and no carriage is more than a hundredth of a
  millimetre above its endstop.\<close>

definition in_reach :: "delta \<Rightarrow> real list \<Rightarrow> bool" where
  "in_reach k p \<longleftrightarrow> ((end_xy2 p \<le> max_xy2 k \<and> p ! 2 \<le> max_z k) \<or> (at_home_xy k p \<and> p ! 2 \<le> snd (snd (home_position k)))) \<and>
     min_z k \<le> p ! 2 \<and> carriages_ok k p"

text \<open>There the arms reach.\<close>

lemma in_reach_arms: "dk_ok k \<Longrightarrow> in_reach k p \<Longrightarrow> arms_clear k \<Longrightarrow> reachable_xy k p"
  by (auto simp: dk_ok_def in_reach_def)

text \<open>What the cached limit stands for: moves within it that stay at the height of the last one need no other check.\<close>

definition dk_inv :: "delta \<Rightarrow> real \<Rightarrow> bool" where
  "dk_inv k z \<longleftrightarrow> (0 \<le> limit_xy2 k \<longrightarrow> \<not> need_home k \<and> limit_xy2 k \<le> max_xy2 k \<and> min_z k \<le> z \<and> z \<le> max_z k \<and> z \<le> limit_z k)"

lemma low_carriages:
  assumes "dk_ok k" "p ! 2 \<le> limit_z k" shows "carriages_ok k p"
proof -
  obtain a b c where a: "arm_lengths k = (a, b, c)" by (rule abc_cases)
  obtain ta tb tc where t: "towers k = (ta, tb, tc)" by (rule abc_cases)
  obtain ea eb ec where e: "abs_endstops k = (ea, eb, ec)" by (rule abc_cases)
  have h: "height (x\<^sup>2) t p \<le> w + 1 / 100" if "radius k < x" "limit_z k \<le> w - x" for x t w
  proof -
    have "x\<^sup>2 - (p ! 0 - fst t)\<^sup>2 - (p ! 1 - snd t)\<^sup>2 \<le> x\<^sup>2"
      using zero_le_power2[of "p ! 0 - fst t"] zero_le_power2[of "p ! 1 - snd t"] by linarith
    then have "sqrt (x\<^sup>2 - (p ! 0 - fst t)\<^sup>2 - (p ! 1 - snd t)\<^sup>2) \<le> sqrt (x\<^sup>2)" by (rule real_sqrt_le_mono)
    also have "\<dots> = x" using that assms(1) by (simp add: dk_ok_def)
    finally show ?thesis using that(2) assms(2) by (simp add: height_def)
  qed
  have "limit_z k \<le> ea - a" "limit_z k \<le> eb - b" "limit_z k \<le> ec - c" and r: "radius k < a" "radius k < b" "radius k < c"
    and "arm2 k = (a\<^sup>2, b\<^sup>2, c\<^sup>2)"
    using assms(1) by (auto simp: dk_ok_def a e)
  then show ?thesis by (simp add: carriages_ok_def t e h)
qed

lemma check_carriages_ok:
  assumes "dk_ok k" "check_carriages p k l = Inr l'" shows "carriages_ok k p" "p ! 2 \<le> limit_z k \<and> l' = l \<or> l' = -1"
proof -
  obtain a b c where a: "arm2 k = (a, b, c)" by (rule abc_cases)
  obtain ta tb tc where t: "towers k = (ta, tb, tc)" by (rule abc_cases)
  obtain ea eb ec where e: "abs_endstops k = (ea, eb, ec)" by (rule abc_cases)
  show "carriages_ok k p"
  proof (cases "p ! 2 > limit_z k")
    case True
    then show ?thesis
      using assms(2) by (auto simp: check_carriages_def rbind_eq_Inr a t e carriage_def py_sqrt_eq_Inr carriages_ok_def height_def split: if_splits)
  next
    case False
    then show ?thesis using low_carriages[OF assms(1)] by simp
  qed
  show "p ! 2 \<le> limit_z k \<and> l' = l \<or> l' = -1" using assms(2) by (auto simp: check_carriages_def rbind_eq_Inr split: if_splits)
qed

lemma dk_check_move_cases:
  assumes "dk_check_move drip m k = (r, k')"
  obtains (fast) "r = Inr []" "k' = k" "end_xy2 (end_pos m) \<le> limit_xy2 k" "axes_d m ! 2 = 0"
  | (refused) e where "r = Inl e" "k' = k"
  | (checked) l l0 zs l1 xs l2 where "\<not> need_home k" "check_bounds_xy drip (end_pos m) k = Inr l" "check_carriages (end_pos m) k l = Inr l0"
      "z_limits m k l0 = (zs, l1)" "extreme_limits m k l1 = (xs, l2)" "r = Inr (zs @ xs)" "k' = k\<lparr>limit_xy2 := min l2 (slow_xy2 k)\<rparr>"
proof (cases "end_xy2 (end_pos m) \<le> limit_xy2 k \<and> axes_d m ! 2 = 0")
  case True
  then show ?thesis using assms fast by (simp add: dk_check_move_def)
next
  case not_fast: False
  show ?thesis
  proof (cases "need_home k \<or> (\<exists>e. rbind (check_bounds_xy drip (end_pos m) k) (check_carriages (end_pos m) k) = Inl e)")
    case True
    then show ?thesis using assms not_fast refused by (cases "need_home k") (auto simp: dk_check_move_def Let_def)
  next
    case False
    then obtain l0 where l0: "rbind (check_bounds_xy drip (end_pos m) k) (check_carriages (end_pos m) k) = Inr l0"
      by (meson sumE)
    obtain zs l1 where z: "z_limits m k l0 = (zs, l1)" by force
    obtain xs l2 where x: "extreme_limits m k l1 = (xs, l2)" by force
    have "r = Inr (zs @ xs)" "k' = k\<lparr>limit_xy2 := min l2 (slow_xy2 k)\<rparr>"
      using assms False not_fast by (simp_all add: dk_check_move_def l0 z x)
    moreover obtain l where "check_bounds_xy drip (end_pos m) k = Inr l" "check_carriages (end_pos m) k l = Inr l0"
      using l0 unfolding rbind_eq_Inr by blast
    ultimately show ?thesis using checked z x False by blast
  qed
qed

lemma check_bounds_xy_Inr:
  assumes "check_bounds_xy drip p k = Inr l"
  shows "(end_xy2 p \<le> max_xy2 k \<and> p ! 2 \<le> max_z k \<and> l = max_xy2 k) \<or> (at_home_xy k p \<and> p ! 2 \<le> snd (snd (home_position k)) \<and> l = -1)"
    "min_z k \<le> p ! 2" "drip \<or> normal_min_z k \<le> p ! 2"
  using assms by (auto simp: check_bounds_xy_def Let_def at_home_xy_def split: if_splits)

lemma limits_keep: "z_limits m k l = (zs, l1) \<Longrightarrow> (axes_d m ! 2 = 0 \<and> l1 = l) \<or> l1 = -1"
  "extreme_limits m k l = (xs, l2) \<Longrightarrow> l2 = l \<or> l2 = -1"
  by (auto simp: z_limits_def extreme_limits_def Let_def split: if_splits)

lemma dk_check_move_reach:
  assumes ok: "dk_ok k" and inv: "dk_inv k (start_pos m ! 2)" and g: "axes_d m ! 2 = 0 \<longrightarrow> end_pos m ! 2 = start_pos m ! 2"
    and c: "dk_check_move drip m k = (Inr ls, k')"
  shows "\<not> need_home k" "in_reach k (end_pos m)" "drip \<or> axes_d m ! 2 = 0 \<or> normal_min_z k \<le> end_pos m ! 2"
proof -
  have "\<not> need_home k \<and> in_reach k (end_pos m) \<and> (drip \<or> axes_d m ! 2 = 0 \<or> normal_min_z k \<le> end_pos m ! 2)"
    using c
  proof (cases rule: dk_check_move_cases)
    case fast
    have "0 \<le> limit_xy2 k" using fast(3) by (simp add: end_xy2_def) (smt (verit) zero_le_power2)
    then show ?thesis using inv fast g low_carriages[OF ok, of "end_pos m"] by (auto simp: dk_inv_def in_reach_def)
  next
    case (checked l l0 zs l1 xs l2)
    then show ?thesis
      using check_bounds_xy_Inr[OF checked(2)] check_carriages_ok(1)[OF ok checked(3)] by (auto simp: in_reach_def)
  qed simp
  then show "\<not> need_home k" "in_reach k (end_pos m)" "drip \<or> axes_d m ! 2 = 0 \<or> normal_min_z k \<le> end_pos m ! 2" by simp_all
qed

lemma dk_check_move_inv:
  assumes ok: "dk_ok k" and inv: "dk_inv k (start_pos m ! 2)" and g: "axes_d m ! 2 = 0 \<longrightarrow> end_pos m ! 2 = start_pos m ! 2"
    and c: "dk_check_move drip m k = (r, k')"
  shows "dk_inv k' (start_pos m ! 2)" "r = Inr ls \<Longrightarrow> dk_inv k' (end_pos m ! 2)" "k' = k\<lparr>limit_xy2 := limit_xy2 k'\<rparr>"
proof -
  have "dk_inv k' (start_pos m ! 2) \<and> (r = Inr ls \<longrightarrow> dk_inv k' (end_pos m ! 2)) \<and> k' = k\<lparr>limit_xy2 := limit_xy2 k'\<rparr>"
    using c
  proof (cases rule: dk_check_move_cases)
    case (checked l l0 zs l1 xs l2)
    have "l2 = -1 \<or> axes_d m ! 2 = 0 \<and> end_pos m ! 2 \<le> limit_z k \<and> l2 = l"
      using limits_keep(1)[OF checked(4)] limits_keep(2)[OF checked(5)] check_carriages_ok(2)[OF ok checked(3)] by auto
    then show ?thesis
      using check_bounds_xy_Inr[OF checked(2)] g checked by (auto simp: dk_inv_def)
  qed (use inv g in auto)
  then show "dk_inv k' (start_pos m ! 2)" "r = Inr ls \<Longrightarrow> dk_inv k' (end_pos m ! 2)" "k' = k\<lparr>limit_xy2 := limit_xy2 k'\<rparr>"
    by simp_all
qed

text \<open>What does not change after the configuration was read.\<close>

lemma dk_limit_irrelevant:
  "dk_ok (k\<lparr>limit_xy2 := l, need_home := b\<rparr>) = dk_ok k" "in_reach (k\<lparr>limit_xy2 := l, need_home := b\<rparr>) p = in_reach k p"
  by (simp_all add: dk_ok_def in_reach_def at_home_xy_def carriages_ok_def reachable_xy_def arms_clear_def)

text \<open>The limits it asks for are positive.\<close>

lemma dk_check_move_limits:
  assumes ok: "dk_ok k" and m: "0 < move_d m" and c: "dk_check_move drip m k = (Inr ls, k')"
  shows "\<forall>(v, a) \<in> set ls. 0 < v \<and> 0 < a"
  using c
proof (cases rule: dk_check_move_cases)
  case (checked l l0 zs l1 xs l2)
  have "\<forall>(v, a) \<in> set zs. 0 < v \<and> 0 < a" "\<forall>(v, a) \<in> set xs. 0 < v \<and> 0 < a"
    using checked(4,5) ok m by (auto simp: z_limits_def extreme_limits_def dk_ok_def Let_def split: if_splits)
  then show ?thesis using checked(6) by auto
qed auto

section \<open>Failures of the check\<close>

lemma near_towers:
  fixes x y tx ty r a :: real
  assumes "tx\<^sup>2 + ty\<^sup>2 = r\<^sup>2" "x\<^sup>2 + y\<^sup>2 \<le> (a - r)\<^sup>2" "0 \<le> r" "r \<le> a"
  shows "0 \<le> a\<^sup>2 - (x - tx)\<^sup>2 - (y - ty)\<^sup>2"
proof -
  have "(x * tx + y * ty)\<^sup>2 + (x * ty - y * tx)\<^sup>2 = (x\<^sup>2 + y\<^sup>2) * (tx\<^sup>2 + ty\<^sup>2)"
    by (simp add: power2_eq_square algebra_simps)
  then have "(x * tx + y * ty)\<^sup>2 \<le> (x\<^sup>2 + y\<^sup>2) * (tx\<^sup>2 + ty\<^sup>2)" using zero_le_power2[of "x * ty - y * tx"] by linarith
  also have "\<dots> \<le> (a - r)\<^sup>2 * r\<^sup>2" unfolding assms(1) using assms(2) by (rule mult_right_mono) simp
  finally have "(x * tx + y * ty)\<^sup>2 \<le> ((a - r) * r)\<^sup>2" by (simp add: power_mult_distrib)
  then have "\<bar>x * tx + y * ty\<bar> \<le> (a - r) * r" by (rule abs_le_square_iff[THEN iffD2, THEN order_trans]) (use assms(3,4) in simp)
  then have "- (x * tx + y * ty) \<le> (a - r) * r" by linarith
  moreover have "(x - tx)\<^sup>2 + (y - ty)\<^sup>2 = (x\<^sup>2 + y\<^sup>2) + (tx\<^sup>2 + ty\<^sup>2) + 2 * (- (x * tx + y * ty))"
    "a\<^sup>2 = (a - r)\<^sup>2 + r\<^sup>2 + 2 * ((a - r) * r)"
    by (simp_all add: power2_eq_square algebra_simps)
  ultimately have "(x - tx)\<^sup>2 + (y - ty)\<^sup>2 \<le> a\<^sup>2" using assms(1,2) by (simp only: add_mono mult_left_mono)
  then show ?thesis by linarith
qed

lemma inside_reachable:
  assumes ok: "dk_ok k" and m: "max_xy2 k \<le> (min_abc (arm_lengths k) - radius k)\<^sup>2" and p: "end_xy2 p \<le> max_xy2 k"
  shows "reachable_xy k p"
proof -
  obtain a b c where a: "arm_lengths k = (a, b, c)" by (rule abc_cases)
  obtain u v w where an: "angles k = (u, v, w)" by (rule abc_cases)
  define ma where "ma = min a (min b c)"
  have r: "0 < radius k" "radius k < a" "radius k < b" "radius k < c" using ok by (auto simp: dk_ok_def a)
  then have ma: "radius k \<le> ma" "ma \<le> a" "ma \<le> b" "ma \<le> c" by (simp_all add: ma_def)
  have "0 \<le> x\<^sup>2 - (p ! 0 - fst (tower (radius k) an))\<^sup>2 - (p ! 1 - snd (tower (radius k) an))\<^sup>2" if "ma \<le> x" for x an
  proof (rule near_towers)
    have "(cos (radians an))\<^sup>2 + (sin (radians an))\<^sup>2 = 1" by (rule sin_cos_squared_add2)
    then show "(fst (tower (radius k) an))\<^sup>2 + (snd (tower (radius k) an))\<^sup>2 = (radius k)\<^sup>2"
      unfolding tower_def fst_conv snd_conv power_mult_distrib by (metis distrib_right mult_1)
    have "(ma - radius k)\<^sup>2 \<le> (x - radius k)\<^sup>2" using that ma(1) by (intro power_mono) simp_all
    then show "(p ! 0)\<^sup>2 + (p ! 1)\<^sup>2 \<le> (x - radius k)\<^sup>2" using p m by (simp add: end_xy2_def a ma_def)
  qed (use r ma that in simp_all)
  then show ?thesis using ok ma by (simp add: reachable_xy_def dk_ok_def a an)
qed

lemma carriages_reachable: "reachable_xy k p \<Longrightarrow> \<exists>hs. carriages k p = Inr hs"
  by (cases "arm2 k"; cases "towers k") (auto simp: reachable_xy_def carriage_def py_sqrt_def)

lemma check_carriages_passes: "reachable_xy k p \<Longrightarrow> carriages_ok k p \<Longrightarrow> \<exists>l'. check_carriages p k l = Inr l'"
  by (cases "arm2 k"; cases "towers k"; cases "abs_endstops k")
     (auto simp: reachable_xy_def check_carriages_def carriages_ok_def height_def carriage_def py_sqrt_def)

lemma check_fails_in_words:
  assumes ok: "dk_ok k" and m: "max_xy2 k \<le> (min_abc (arm_lengths k) - radius k)\<^sup>2"
    and c: "dk_check_move drip m k = (Inl e, k')"
  shows "\<exists>msg. e = AppError msg" "k' = k"
proof -
  let ?p = "end_pos m"
  have e: "e = AppError ''Must home first'' \<and> k' = k \<or> (rbind (check_bounds_xy drip ?p k) (check_carriages ?p k) = Inl e \<and> k' = k)"
    using c by (auto simp: dk_check_move_def Let_def split: if_splits sum.splits prod.splits)
  then show "k' = k" by blast
  have "\<exists>msg. e = AppError msg" if "check_bounds_xy drip ?p k = Inl e"
    using that by (auto simp: check_bounds_xy_def Let_def split: if_splits)
  moreover have "\<exists>msg. e = AppError msg" if b: "check_bounds_xy drip ?p k = Inr l" and h: "check_carriages ?p k l = Inl e" for l
  proof -
    have "reachable_xy k ?p"
      using check_bounds_xy_Inr(1)[OF b] inside_reachable[OF ok m] ok by (auto simp: dk_ok_def)
    then obtain hs where "carriages k ?p = Inr hs" using carriages_reachable by blast
    then show ?thesis using h by (auto simp: check_carriages_def split: if_splits)
  qed
  ultimately show "\<exists>msg. e = AppError msg" using e by (auto simp: rbind_eq_Inl)
qed

section \<open>Between the ends of a move\<close>

text \<open>The check of the carriages looks at the end of a move only. A carriage stands highest where the nozzle is nearest to its tower, so
  a level move past a tower can end within the limit and exceed it in between, here by more than four tenths of a millimetre.\<close>

definition tall :: delta where
  "tall = \<lparr>rails = (let r = \<lparr>position_endstop = 100, step_dist = 1 / 100\<rparr> in (r, r, r)), dk_velocity = 300, dk_accel = 3000,
     max_z_velocity = 300, max_z_accel = 3000, overpass_delta_cali = False, radius = 6, arm_lengths = (13, 13, 13), arm2 = (169, 169, 169),
     abs_endstops = (120, 120, 120), angles = (210, 330, 90), towers = ((- sqrt 27, -3), (sqrt 27, -3), (0, 6)), need_home = False, limit_xy2 = -1,
     home_position = (0, 0, 100), max_z = 109, min_z = 0, normal_min_z = 0, limit_z = 107, slow_xy2 = 36, very_slow_xy2 = 36, max_xy2 = 36\<rparr>"

lemma carriage_too_high_between:
  fixes l :: toolhead
  defines "z \<equiv> 120 - 1261 / 100"
  shows "\<exists>k'. dk_check_move False (new_move l [-3, 5, z, 0] [3, 5, z, 0] 100) tall = (Inr [], k')"
    "carriages_ok tall [-3, 5, z, 0]" "carriages_ok tall [3, 5, z, 0]" "120 + 3 / 10 < height 169 (0, 6) [0, 5, z, 0]"
proof -
  have h: "sqrt 159 \<le> 1261 / 100" "1292 / 100 \<le> sqrt (168 :: real)"
    by (rule real_le_lsqrt; simp add: power2_eq_square) (rule real_le_rsqrt; simp add: power2_eq_square)
  have far: "sqrt (105 - x\<^sup>2) \<le> 11" for x :: real
  proof -
    have "sqrt (105 - x\<^sup>2) \<le> sqrt 121" using zero_le_power2[of x] by (intro real_sqrt_le_mono) linarith
    also have "sqrt 121 = (11 :: real)" by (rule real_sqrt_unique) simp_all
    finally show ?thesis .
  qed
  have r: "0 \<le> sqrt (27 :: real)" "sqrt (27 :: real) \<le> 6" by simp (rule real_le_lsqrt; simp)
  have near: "0 \<le> 105 - (x - y)\<^sup>2" if "\<bar>x\<bar> \<le> 3" "\<bar>y\<bar> \<le> 6" for x y :: real
  proof -
    have "(x - y)\<^sup>2 \<le> 9\<^sup>2" by (rule abs_le_square_iff[THEN iffD1]) (use that in linarith)
    then show ?thesis by simp
  qed
  show "120 + 3 / 10 < height 169 (0, 6) [0, 5, z, 0]" using h(2) by (simp add: height_def z_def)
  show ok: "carriages_ok tall [-3, 5, z, 0]" "carriages_ok tall [3, 5, z, 0]"
    using h(1) far[of "-3 + sqrt 27"] far[of "-3 - sqrt 27"] far[of "3 + sqrt 27"] far[of "3 - sqrt 27"]
    by (simp_all add: carriages_ok_def tall_def height_def z_def)
  have c: "reachable_xy tall [3, 5, z, 0]"
    using near[of 3 "- sqrt 27"] near[of 3 "sqrt 27"] r by (simp add: reachable_xy_def tall_def)
  define m where "m = new_move l [-3, 5, z, 0] [3, 5, z, 0] 100"
  have "sqrt 36 = (6 :: real)" by (rule real_sqrt_unique) simp_all
  then have m: "end_pos m = [3, 5, z, 0]" "start_pos m = [-3, 5, z, 0]" "axes_d m ! 2 = 0" by (simp_all add: m_def new_move_def Let_def)
  obtain l' where l: "check_carriages [3, 5, z, 0] tall 36 = Inr l'" using check_carriages_passes[OF c ok(2)] by blast
  have b: "check_bounds_xy False [3, 5, z, 0] tall = Inr 36" by (simp add: check_bounds_xy_def tall_def end_xy2_def z_def)
  show "\<exists>k'. dk_check_move False (new_move l [-3, 5, z, 0] [3, 5, z, 0] 100) tall = (Inr [], k')"
    unfolding m_def[symmetric] using b l
    by (simp add: dk_check_move_def m z_limits_def extreme_limits_def Let_def) (simp add: tall_def end_xy2_def)
qed

end
