(* ===== verification/DeltaCalibration.thy ===== *)
theory DeltaCalibration
  imports Delta PyStrings
begin

text \<open>
  \<open>klippy/kinematics/delta.py\<close>, the class \<open>DeltaCalibration\<close>, and \<open>klippy/extras/delta_calibrate.py\<close>: fitting the parameters of a
  delta printer to measured heights and distances.

  A stable position is a triple of step counts. What \<open>SAVE_CONFIG\<close> is to write is the list of calls of the configuration file, with
  numbers in place of their text. The probing itself (\<open>ProbePointsHelper\<close>) is left out: \<open>probe_finalize\<close> is what it calls.
\<close>

section \<open>Calibration parameters\<close>

record calibration =
  cal_radius :: real
  cal_angles :: "real abc"
  cal_arms :: "real abc"
  cal_endstops :: "real abc"
  cal_stepdists :: "real abc"
  cal_towers :: "(real \<times> real) abc"
  cal_abs_endstops :: "real abc"

definition make_calibration :: "real \<Rightarrow> real abc \<Rightarrow> real abc \<Rightarrow> real abc \<Rightarrow> real abc \<Rightarrow> calibration res" where
  "make_calibration r an arms endstops stepdists =
     rbind (rmap_abc (\<lambda>(e, a). rbind (py_sqrt (a\<^sup>2 - r\<^sup>2)) (\<lambda>h. Inr (e + h))) (zip_abc Pair endstops arms)) (\<lambda>es.
     Inr \<lparr>cal_radius = r, cal_angles = an, cal_arms = arms, cal_endstops = endstops, cal_stepdists = stepdists,
          cal_towers = map_abc (tower r) an, cal_abs_endstops = es\<rparr>)"

definition get_calibration :: "delta \<Rightarrow> calibration res" where
  "get_calibration k = make_calibration (radius k) (angles k) (arm_lengths k) (map_abc position_endstop (rails k))
     (map_abc step_dist (rails k))"

definition basic_params :: "string list" where
  "basic_params = [''radius'', ''angle_a'', ''angle_b'', ''endstop_a'', ''endstop_b'', ''endstop_c'']"

definition axis_params :: "string \<Rightarrow> real \<Rightarrow> real \<Rightarrow> real \<Rightarrow> real \<Rightarrow> params" where
  "axis_params x an arm es sd = [(''angle_'' @ x, an), (''arm_'' @ x, arm), (''endstop_'' @ x, es), (''stepdist_'' @ x, sd)]"

definition coordinate_descent_params :: "bool \<Rightarrow> calibration \<Rightarrow> string list \<times> params" where
  "coordinate_descent_params is_extended c =
     (case (cal_angles c, cal_arms c, cal_endstops c, cal_stepdists c) of ((n1, n2, n3), (a1, a2, a3), (e1, e2, e3), (s1, s2, s3)) \<Rightarrow>
        (basic_params @ (if is_extended then [''arm_a'', ''arm_b'', ''arm_c''] else []),
         (''radius'', cal_radius c) # axis_params ''a'' n1 a1 e1 s1 @ axis_params ''b'' n2 a2 e2 s2 @ axis_params ''c'' n3 a3 e3 s3))"

definition axis_values :: "params \<Rightarrow> string \<Rightarrow> real abc res" where
  "axis_values ps n = rmap_abc (\<lambda>x. res_of KeyError (dget ps (n @ x))) (''a'', ''b'', ''c'')"

definition new_calibration :: "params \<Rightarrow> calibration res" where
  "new_calibration ps =
     rbind (res_of KeyError (dget ps ''radius'')) (\<lambda>r.
     rbind (axis_values ps ''angle_'') (\<lambda>an.
     rbind (axis_values ps ''arm_'') (\<lambda>arms.
     rbind (axis_values ps ''endstop_'') (\<lambda>es.
     rbind (axis_values ps ''stepdist_'') (\<lambda>sd. make_calibration r an arms es sd)))))"

definition get_position_from_stable :: "calibration \<Rightarrow> real abc \<Rightarrow> v3 res" where
  "get_position_from_stable c stable_position =
     trilateration (zip_abc (\<lambda>(t, es) (sp, sd). (fst t, snd t, es - sp * sd)) (zip_abc Pair (cal_towers c) (cal_abs_endstops c))
        (zip_abc Pair stable_position (cal_stepdists c))) (map_abc (\<lambda>a. a\<^sup>2) (cal_arms c))"

definition steppos :: "v3 \<Rightarrow> (real \<times> real) \<times> real \<Rightarrow> real res" where
  "steppos = (\<lambda>(x, y, z) (t, a). rbind (py_sqrt (a\<^sup>2 - (fst t - x)\<^sup>2 - (snd t - y)\<^sup>2)) (\<lambda>h. Inr (h + z)))"

definition calc_stable_position :: "calibration \<Rightarrow> v3 \<Rightarrow> real abc res" where
  "calc_stable_position c coord =
     rbind (rmap_abc (steppos coord) (zip_abc Pair (cal_towers c) (cal_arms c))) (\<lambda>sps.
     rmap_abc (\<lambda>((ep, sp), sd). py_div (ep - sp) sd) (zip_abc Pair (zip_abc Pair (cal_abs_endstops c) sps) (cal_stepdists c)))"

datatype cfg_value = Num real | Nums "real abc"

datatype cfg_call = CfgSet string string cfg_value | CfgRemove string

definition save_axis :: "string \<Rightarrow> real \<Rightarrow> real \<Rightarrow> real \<Rightarrow> cfg_call list" where
  "save_axis x an arm es = [CfgSet (''stepper_'' @ x) ''angle'' (Num an), CfgSet (''stepper_'' @ x) ''arm_length'' (Num arm),
     CfgSet (''stepper_'' @ x) ''position_endstop'' (Num es)]"

definition save_calibration :: "bool \<Rightarrow> calibration \<Rightarrow> cfg_call list" where
  "save_calibration overpass c =
     (case (cal_angles c, cal_arms c, cal_endstops c) of ((n1, n2, n3), (a1, a2, a3), (e1, e2, e3)) \<Rightarrow>
        if overpass then
          [CfgSet ''stepper_a'' ''position_endstop'' (Num e1), CfgSet ''stepper_b'' ''position_endstop'' (Num e2),
           CfgSet ''stepper_c'' ''position_endstop'' (Num e3)]
        else CfgSet ''printer'' ''delta_radius'' (Num (cal_radius c)) #
          save_axis ''a'' n1 a1 e1 @ save_axis ''b'' n2 a2 e2 @ save_axis ''c'' n3 a3 e3)"

section \<open>The calibration commands\<close>

type_synonym heights = "(real \<times> real abc) list"
type_synonym distances = "(real \<times> real abc \<times> real abc) list"

definition MeasureAngles :: "real list" where "MeasureAngles = [210, 270, 330, 30, 90, 150]"
definition MeasureOuterRadius :: real where "MeasureOuterRadius = 65"
definition MeasureRidgeRadius :: real where "MeasureRidgeRadius = 5 - 1 / 2"
definition MEASURE_WEIGHT :: real where "MEASURE_WEIGHT = 1 / 2"

text \<open>\<open>zip(map(math.cos, obj_angles), map(math.sin, obj_angles))\<close>: both maps read the one iterator \<open>obj_angles\<close> in turn.\<close>

fun xy_pairs :: "real list \<Rightarrow> (real \<times> real) list" where
  "xy_pairs (a # b # as) = (cos a, sin b) # xy_pairs as"
| "xy_pairs as = []"

definition xy_angles :: "(real \<times> real) list" where
  "xy_angles = xy_pairs (map radians MeasureAngles)"

fun measured :: "calibration \<Rightarrow> real list \<Rightarrow> v3 list \<Rightarrow> v3 list \<Rightarrow> distances res" where
  "measured c (d # ds) (p # ps) (q # qs) =
     rbind (calc_stable_position c p) (\<lambda>sp. rbind (calc_stable_position c q) (\<lambda>sq. rbind (measured c ds ps qs) (\<lambda>r. Inr ((d, sp, sq) # r))))"
| "measured c ds ps qs = Inr []"

definition measurements_to_distances :: "(string, real list) dict \<Rightarrow> calibration \<Rightarrow> distances res" where
  "measurements_to_distances mp c =
     rbind (rbind (res_of KeyError (dget mp ''SCALE'')) (\<lambda>xs. nth_res xs 0)) (\<lambda>scale.
     rbind (res_of KeyError (dget mp ''CENTER_PILLAR_WIDTHS'')) (\<lambda>cpw.
     rbind (rmap (nth_res cpw) [0, 2, 1, 0, 2, 1]) (\<lambda>center_widths.
     rbind (res_of KeyError (dget mp ''CENTER_DISTS'')) (\<lambda>cd.
     rbind (res_of KeyError (dget mp ''OUTER_DISTS'')) (\<lambda>od.
     rbind (res_of KeyError (dget mp ''OUTER_PILLAR_WIDTHS'')) (\<lambda>opw.
     let center_dists = map2 (-) cd center_widths; outer_dists = map2 (-) od opw;
         ridge = (\<lambda>r. map (\<lambda>(ax, ay). (ax * r, ay * r, 0)) xy_angles);
         inner_ridge = MeasureRidgeRadius * scale;
         outer_ridge = (MeasureOuterRadius + MeasureRidgeRadius) * scale;
         outer_center = MeasureOuterRadius * scale;
         start_pos = map (\<lambda>(ax, ay). (ax * outer_center, ay * outer_center)) xy_angles;
         shifted_angles = drop 2 xy_angles @ take 2 xy_angles;
         from_start = (\<lambda>r. map2 (\<lambda>(ax, ay) (spx, spy). (ax * r + spx, ay * r + spy, 0)) shifted_angles start_pos)
     in rbind (measured c center_dists (ridge inner_ridge) (ridge outer_ridge)) (\<lambda>center_positions.
        rbind (measured c outer_dists (from_start inner_ridge) (from_start outer_ridge)) (\<lambda>outer_positions.
        Inr (center_positions @ outer_positions)))))))))"

record delta_calibrate =
  last_probe_positions :: heights
  manual_heights :: heights
  last_distances :: distances
  delta_analyze_entry :: "(string, real list) dict"

definition save_heights :: "string \<Rightarrow> heights \<Rightarrow> cfg_call list" where
  "save_heights n hs = concat (map (\<lambda>(i, z, spos).
     [CfgSet ''delta_calibrate'' (n @ str_nat i) (Num z), CfgSet ''delta_calibrate'' (n @ str_nat i @ ''_pos'') (Nums spos)]) (enumerate 0 hs))"

definition save_distances :: "distances \<Rightarrow> cfg_call list" where
  "save_distances ds = concat (map (\<lambda>(i, d, p1, p2).
     [CfgSet ''delta_calibrate'' (''distance'' @ str_nat i) (Num d),
      CfgSet ''delta_calibrate'' (''distance'' @ str_nat i @ ''_pos1'') (Nums p1),
      CfgSet ''delta_calibrate'' (''distance'' @ str_nat i @ ''_pos2'') (Nums p2)]) (enumerate 0 ds))"

definition save_state :: "bool \<Rightarrow> heights \<Rightarrow> distances \<Rightarrow> calibration \<Rightarrow> delta_calibrate \<Rightarrow> cfg_call list" where
  "save_state overpass probe_positions ds c s =
     save_calibration overpass c @ [CfgRemove ''delta_calibrate''] @ save_heights ''height'' probe_positions @
     save_heights ''manual_height'' (manual_heights s) @ save_distances ds"

definition dist3 :: "v3 \<Rightarrow> v3 \<Rightarrow> real" where
  "dist3 = (\<lambda>(x1, y1, z1) (x2, y2, z2). sqrt ((x1 - x2)\<^sup>2 + (y1 - y2)\<^sup>2 + (z1 - z2)\<^sup>2))"

definition height_error :: "calibration \<Rightarrow> real \<Rightarrow> real \<times> real abc \<Rightarrow> real res" where
  "height_error c e = (\<lambda>(z_offset, sp). rbind (get_position_from_stable c sp) (\<lambda>(x, y, z). Inr (e + (z - z_offset)\<^sup>2)))"

definition distance_error :: "calibration \<Rightarrow> real \<Rightarrow> real \<times> real abc \<times> real abc \<Rightarrow> real res" where
  "distance_error c e = (\<lambda>(d, sp1, sp2). rbind (get_position_from_stable c sp1) (\<lambda>p1.
     rbind (get_position_from_stable c sp2) (\<lambda>p2. Inr (e + (dist3 p1 p2 - d)\<^sup>2))))"

definition total_error :: "real \<Rightarrow> heights \<Rightarrow> distances \<Rightarrow> calibration \<Rightarrow> real res" where
  "total_error z_weight hs ds c =
     rbind (rfold (height_error c) 0 hs) (\<lambda>e. rfold (distance_error c) (e * z_weight) ds)"

definition BAD_FIT :: real where "BAD_FIT = 99999999999999 / 10"

definition delta_errorfunc :: "real \<Rightarrow> heights \<Rightarrow> distances \<Rightarrow> params \<Rightarrow> real res" where
  "delta_errorfunc z_weight hs ds ps =
     (case rbind (new_calibration ps) (total_error z_weight hs ds) of Inl ValueError \<Rightarrow> Inr BAD_FIT | r \<Rightarrow> r)"

definition in_background :: "'a res \<Rightarrow> 'a res" where
  "in_background r = (case r of Inl e \<Rightarrow> Inl (AppError ''Error in coordinate descent'') | Inr x \<Rightarrow> Inr x)"

text \<open>The log after the fit computes the positions of both calibrations; it raises where they do not exist.\<close>

definition report :: "calibration \<Rightarrow> calibration \<Rightarrow> heights \<Rightarrow> distances \<Rightarrow> unit res" where
  "report c c' hs ds =
     rbind (rmap (\<lambda>(z, sp). rbind (get_position_from_stable c sp) (\<lambda>_. get_position_from_stable c' sp)) hs) (\<lambda>_.
     rbind (rmap (\<lambda>(d, sp1, sp2). rmap (\<lambda>(k, sp). get_position_from_stable k sp) [(c, sp1), (c, sp2), (c', sp1), (c', sp2)]) ds) (\<lambda>_.
     Inr ()))"

definition z_weight_of :: "heights \<Rightarrow> distances \<Rightarrow> real res" where
  "z_weight_of probe_positions ds =
     (if ds \<noteq> [] then py_div (real (length ds)) (MEASURE_WEIGHT * real (length probe_positions)) else Inr 1)"

text \<open>The new parameters and what is to be saved.\<close>

definition calculate_params :: "bool \<Rightarrow> calibration \<Rightarrow> heights \<Rightarrow> distances \<Rightarrow> delta_calibrate \<Rightarrow> (calibration \<times> cfg_call list) res" where
  "calculate_params overpass c probe_positions ds s =
     (let hs = manual_heights s @ probe_positions; (adj_params, ps) = coordinate_descent_params (ds \<noteq> []) c
      in rbind (z_weight_of probe_positions ds) (\<lambda>z_weight.
         rbind (in_background (coordinate_descent adj_params ps (delta_errorfunc z_weight hs ds))) (\<lambda>ps'.
         rbind (new_calibration ps') (\<lambda>c'.
         rbind (report c c' hs ds) (\<lambda>_.
         Inr (c', save_state overpass probe_positions ds c' s))))))"

definition probe_finalize :: "bool \<Rightarrow> calibration \<Rightarrow> real \<Rightarrow> v3 list \<Rightarrow> delta_calibrate \<Rightarrow> (calibration \<times> cfg_call list) res" where
  "probe_finalize overpass c z_offset positions s =
     rbind (rmap (calc_stable_position c) positions) (\<lambda>sps.
     calculate_params overpass c (map (Pair z_offset) sps) (last_distances s) s)"

text \<open>The toolhead's position follows from the positions of its steppers.\<close>

definition add_manual_height :: "delta \<Rightarrow> real abc \<Rightarrow> real \<Rightarrow> delta_calibrate \<Rightarrow> delta_calibrate res" where
  "add_manual_height k spos z s =
     rbind (calc_position spos k) (\<lambda>kin_pos. rbind (get_calibration k) (\<lambda>c.
     rbind (calc_stable_position c kin_pos) (\<lambda>sp. Inr (s\<lparr>manual_heights := manual_heights s @ [(z, sp)]\<rparr>))))"

definition do_extended_calibration :: "bool \<Rightarrow> calibration \<Rightarrow> delta_calibrate \<Rightarrow> (calibration \<times> cfg_call list) res" where
  "do_extended_calibration overpass c s =
     rbind (if length (delta_analyze_entry s) \<le> 1 then Inr (last_distances s)
            else if length (delta_analyze_entry s) < 5 then Inl (AppError ''Not all measurements provided'')
            else measurements_to_distances (delta_analyze_entry s) c) (\<lambda>ds.
     if last_probe_positions s = [] then Inl (AppError ''Must run basic calibration with DELTA_CALIBRATE first'')
     else calculate_params overpass c (last_probe_positions s) ds s)"

text \<open>The measurements of \<open>DELTA_ANALYZE\<close>; a parameter that is given has its parsed values, or none where they do not parse.\<close>

definition analyze_args :: "(string \<times> nat) list" where
  "analyze_args = [(''CENTER_DISTS'', 6), (''CENTER_PILLAR_WIDTHS'', 3), (''OUTER_DISTS'', 6), (''OUTER_PILLAR_WIDTHS'', 6), (''SCALE'', 1)]"

fun read_measurements :: "(string \<Rightarrow> real list option option) \<Rightarrow> (string \<times> nat) list \<Rightarrow> delta_calibrate \<Rightarrow> unit res \<times> delta_calibrate" where
  "read_measurements args [] s = (Inr (), s)"
| "read_measurements args ((n, c) # ns) s =
     (case args n of
        None \<Rightarrow> read_measurements args ns s
      | Some None \<Rightarrow> (Inl (AppError ''Unable to parse parameter''), s)
      | Some (Some parts) \<Rightarrow>
          if length parts \<noteq> c then (Inl (AppError ''must have values''), s)
          else read_measurements args ns (s\<lparr>delta_analyze_entry := dset n parts (delta_analyze_entry s)\<rparr>))"

definition cmd_DELTA_ANALYZE ::
  "bool \<Rightarrow> delta \<Rightarrow> real abc \<Rightarrow> real option \<Rightarrow> (string \<Rightarrow> real list option option) \<Rightarrow> string option \<Rightarrow> delta_calibrate \<Rightarrow>
     (calibration \<times> cfg_call list) option res \<times> delta_calibrate" where
  "cmd_DELTA_ANALYZE overpass k spos mheight args action s =
     (case mheight of
        Some z \<Rightarrow> (case add_manual_height k spos z s of Inl e \<Rightarrow> (Inl e, s) | Inr s' \<Rightarrow> (Inr None, s'))
      | None \<Rightarrow>
          (case read_measurements args analyze_args s of
             (Inl e, s') \<Rightarrow> (Inl e, s')
           | (Inr _, s') \<Rightarrow>
               (case action of None \<Rightarrow> (Inr None, s')
                | Some a \<Rightarrow>
                    if a \<noteq> ''extended'' then (Inl (AppError ''Unknown calibrate action''), s')
                    else (rbind (rbind (get_calibration k) (\<lambda>c. do_extended_calibration overpass c s')) (\<lambda>r. Inr (Some r)), s'))))"

section \<open>Properties of the calibration\<close>

lemma make_calibration_Inr:
  assumes "make_calibration r an arms es sd = Inr c"
  shows "cal_radius c = r" "cal_angles c = an" "cal_arms c = arms" "cal_endstops c = es" "cal_stepdists c = sd"
    "cal_towers c = map_abc (tower r) an"
  using assms by (auto simp: make_calibration_def rbind_eq_Inr)

lemma descent_params_get:
  assumes "coordinate_descent_params x c = (adj, ps)"
  shows "dget ps ''radius'' = Some (cal_radius c)" "axis_values ps ''angle_'' = Inr (cal_angles c)" "axis_values ps ''arm_'' = Inr (cal_arms c)"
    "axis_values ps ''endstop_'' = Inr (cal_endstops c)" "axis_values ps ''stepdist_'' = Inr (cal_stepdists c)" 
    "adj = basic_params @ (if x then [''arm_a'', ''arm_b'', ''arm_c''] else [])" "\<forall>k \<in> set adj. din k ps"
  using assms by (auto simp: coordinate_descent_params_def axis_params_def axis_values_def basic_params_def din_def split: prod.splits)

text \<open>A calibration survives being turned into parameters for the descent and back.\<close>

theorem calibration_params_roundtrip:
  assumes "make_calibration r an arms es sd = Inr c"
  shows "new_calibration (snd (coordinate_descent_params is_extended c)) = Inr c"
  using assms descent_params_get[of is_extended c] make_calibration_Inr[OF assms]
  by (cases "coordinate_descent_params is_extended c") (simp add: new_calibration_def)

theorem calibration_params_roundtrip_witness:
  "\<exists>c. make_calibration 3 (210, 330, 90) (5, 5, 5) (10, 10, 10) (1, 1, 1) = Inr c \<and>
     new_calibration (snd (coordinate_descent_params True c)) = Inr c"
proof -
  obtain c where "make_calibration 3 (210, 330, 90) (5, 5, 5) (10, 10, 10) (1, 1, 1) = Inr c"
    by (simp add: make_calibration_def py_sqrt_def)
  then show ?thesis using calibration_params_roundtrip by blast
qed

text \<open>The measuring object has six angles, but only three directions come out, each from two different angles.\<close>

lemma xy_angles_three: "length xy_angles = 3"
  by (simp add: xy_angles_def MeasureAngles_def)

lemma measured_length: "measured c ds ps qs = Inr r \<Longrightarrow> length r = min (length ds) (min (length ps) (length qs))"
  by (induction c ds ps qs arbitrary: r rule: measured.induct) (auto simp: rbind_eq_Inr)

lemma half_of_measurements_lost:
  assumes "measurements_to_distances mp c = Inr r" shows "length r \<le> 6"
  using assms by (auto simp: measurements_to_distances_def Let_def rbind_eq_Inr xy_angles_three dest!: measured_length)

section \<open>Stable positions\<close>

definition orient :: "real \<times> real \<Rightarrow> real \<times> real \<Rightarrow> real \<times> real \<Rightarrow> real" where
  "orient = (\<lambda>(x1, y1) (x2, y2) (x3, y3). (x2 - x1) * (y3 - y1) - (x3 - x1) * (y2 - y1))"

text \<open>The towers stand counterclockwise around the point.\<close>

fun between_towers :: "(real \<times> real) abc \<Rightarrow> real \<times> real \<Rightarrow> bool" where
  "between_towers (a, b, c) p \<longleftrightarrow> 0 < orient a b c \<and> 0 \<le> orient a b p \<and> 0 \<le> orient b c p \<and> 0 \<le> orient c a p"

lemma below_carriages:
  assumes "between_towers ((x1, y1), (x2, y2), (x3, y3)) (x, y)" "z \<le> h1" "z \<le> h2" "z \<le> h3"
  shows "\<not> in_line ((x1, y1, h1), (x2, y2, h2), (x3, y3, h3))" "side (x1, y1, h1) (x2, y2, h2) (x3, y3, h3) (x, y, z) \<le> 0"
proof -
  define o1 o2 o3 where o: "o1 = orient (x2, y2) (x3, y3) (x, y)" "o2 = orient (x3, y3) (x1, y1) (x, y)"
    "o3 = orient (x1, y1) (x2, y2) (x, y)"
  have "0 < orient (x1, y1) (x2, y2) (x3, y3)" using assms(1) by simp
  then show "\<not> in_line ((x1, y1, h1), (x2, y2, h2), (x3, y3, h3))" by (auto simp: in_line_def orient_def algebra_simps)
  have "side (x1, y1, h1) (x2, y2, h2) (x3, y3, h3) (x, y, z) = o1 * (z - h1) + o2 * (z - h2) + o3 * (z - h3)"
    by (simp add: side_def o orient_def algebra_simps)
  moreover have "o1 * (z - h1) \<le> 0" "o2 * (z - h2) \<le> 0" "o3 * (z - h3) \<le> 0"
    using assms by (auto simp: o intro: mult_nonneg_nonpos)
  ultimately show "side (x1, y1, h1) (x2, y2, h2) (x3, y3, h3) (x, y, z) \<le> 0" by linarith
qed

lemma steppos_Inr:
  assumes "steppos (x, y, z) (t, a) = Inr h" shows "z \<le> h" "on_sphere (fst t, snd t, h) (a\<^sup>2) (x, y, z)"
  using assms by (auto simp: steppos_def rbind_eq_Inr py_sqrt_eq_Inr on_sphere_def power2_commute[of _ "fst t"] power2_commute[of _ "snd t"])

lemma trilaterated:
  assumes "calc_stable_position c (x, y, z) = Inr sp" "between_towers (cal_towers c) (x, y)"
  shows "get_position_from_stable c sp = Inr (x, y, z)"
proof -
  obtain ta tb tc where t: "cal_towers c = (ta, tb, tc)" by (rule abc_cases)
  obtain aa ab ac where a: "cal_arms c = (aa, ab, ac)" by (rule abc_cases)
  obtain ea eb ec where e: "cal_abs_endstops c = (ea, eb, ec)" by (rule abc_cases)
  obtain da db dc where d: "cal_stepdists c = (da, db, dc)" by (rule abc_cases)
  obtain ha hb hc where h: "steppos (x, y, z) (ta, aa) = Inr ha" "steppos (x, y, z) (tb, ab) = Inr hb" "steppos (x, y, z) (tc, ac) = Inr hc"
    and dz: "da \<noteq> 0" "db \<noteq> 0" "dc \<noteq> 0" and sp: "sp = ((ea - ha) / da, (eb - hb) / db, (ec - hc) / dc)"
    using assms(1) by (auto simp: calc_stable_position_def rbind_eq_Inr t a e d py_div_eq_Inr)
  note s = h[THEN steppos_Inr(1)] h[THEN steppos_Inr(2)]
  have "trilateration ((fst ta, snd ta, ha), (fst tb, snd tb, hb), (fst tc, snd tc, hc)) (aa\<^sup>2, ab\<^sup>2, ac\<^sup>2) = Inr (x, y, z)"
    using below_carriages[of "fst ta" "snd ta" "fst tb" "snd tb" "fst tc" "snd tc" x y z ha hb hc] assms(2) s
    by (intro trilateration_finds) (simp_all add: t on_spheres_def)
  then show ?thesis using dz by (simp add: get_position_from_stable_def t a e d sp)
qed

text \<open>C8: The position that is computed from the stable position of a point between the towers is that point.\<close>

theorem stable_position_roundtrip:
  assumes "calc_stable_position c (x, y, z) = Inr sp" "between_towers (cal_towers c) (x, y)"
  shows "get_position_from_stable c sp = Inr (x, y, z)"
  using assms by (rule trilaterated)

lemma default_towers: "map_abc (tower r) (210, 330, 90) = ((- sqrt 3 / 2 * r, - 1 / 2 * r), (sqrt 3 / 2 * r, - 1 / 2 * r), (0, r))"
proof -
  have r: "radians 210 = pi + pi / 6" "radians 330 = 2 * pi - pi / 6" "radians 90 = pi / 2" by (simp_all add: radians_def)
  have "cos (radians 210) = - sqrt 3 / 2" "sin (radians 210) = - 1 / 2" "cos (radians 330) = sqrt 3 / 2" "sin (radians 330) = - 1 / 2"
    "cos (radians 90) = 0" "sin (radians 90) = 1"
    unfolding r cos_add sin_add cos_diff sin_diff by (simp_all add: cos_30 sin_30)
  then show ?thesis by (simp add: tower_def)
qed

lemma cal1: "\<exists>c. make_calibration 3 (210, 330, 90) (5, 5, 5) (10, 10, 10) (1, 1, 1) = Inr c \<and>
    calc_stable_position c (0, 0, 0) = Inr (10, 10, 10) \<and> between_towers (cal_towers c) (0, 0)"
proof -
  have s: "sqrt 16 = (4 :: real)" by (rule real_sqrt_unique) simp_all
  obtain c where c: "make_calibration 3 (210, 330, 90) (5, 5, 5) (10, 10, 10) (1, 1, 1) = Inr c" "cal_abs_endstops c = (14, 14, 14)"
    by (simp add: make_calibration_def py_sqrt_def s)
  note f = make_calibration_Inr[OF c(1)]
  have t: "cal_towers c = ((- sqrt 3 / 2 * 3, - 1 / 2 * 3), (sqrt 3 / 2 * 3, - 1 / 2 * 3), (0, 3))"
    unfolding f(6) by (rule default_towers)
  have "calc_stable_position c (0, 0, 0) = Inr (10, 10, 10)"
    by (simp add: calc_stable_position_def t f(3,5) c(2) steppos_def py_sqrt_def py_div_def power2_eq_square s)
  moreover have "between_towers (cal_towers c) (0, 0)" by (simp add: t orient_def)
  ultimately show ?thesis using c(1) by blast
qed

theorem stable_position_roundtrip_witness:
  "\<exists>c. make_calibration 3 (210, 330, 90) (5, 5, 5) (10, 10, 10) (1, 1, 1) = Inr c \<and>
    calc_stable_position c (0, 0, 0) = Inr (10, 10, 10) \<and> get_position_from_stable c (10, 10, 10) = Inr (0, 0, 0)"
  using cal1 stable_position_roundtrip by blast

section \<open>The fit\<close>

lemma errorfunc_below:
  assumes "delta_errorfunc w hs ds ps = Inr e" "e < BAD_FIT" "new_calibration ps = Inr c"
  shows "total_error w hs ds c = Inr e"
  using assms by (auto simp: delta_errorfunc_def split: sum.splits exc.splits)

text \<open>C21: A calibration that succeeds fits the measured heights and distances no worse than the parameters it started from. Without
  distances it leaves the arm lengths alone, and always the step distances.\<close>

theorem calibration_fit_improves:
  assumes c: "make_calibration r an arms es sd = Inr c" and w: "z_weight_of probes ds = Inr w"
    and e: "total_error w (manual_heights s @ probes) ds c = Inr e" "e < BAD_FIT"
  shows "case calculate_params overpass c probes ds s of
      Inr (c', calls) \<Rightarrow> (\<exists>e'. total_error w (manual_heights s @ probes) ds c' = Inr e' \<and> e' \<le> e) \<and>
        (ds = [] \<longrightarrow> cal_arms c' = cal_arms c) \<and> cal_stepdists c' = cal_stepdists c
    | Inl _ \<Rightarrow> True"
proof (cases "calculate_params overpass c probes ds s")
  case (Inr res)
  obtain c' calls where res: "res = (c', calls)" by (cases res)
  obtain adj ps where p: "coordinate_descent_params (ds \<noteq> []) c = (adj, ps)" by force
  note g = descent_params_get[OF p]
  obtain ps' where d: "coordinate_descent adj ps (delta_errorfunc w (manual_heights s @ probes) ds) = Inr ps'" and n: "new_calibration ps' = Inr c'"
    using Inr by (auto simp: calculate_params_def Let_def p w res rbind_eq_Inr in_background_def split: sum.splits)
  obtain e0 e1 where f: "delta_errorfunc w (manual_heights s @ probes) ds ps = Inr e0"
    "delta_errorfunc w (manual_heights s @ probes) ds ps' = Inr e1" "e1 \<le> e0" and k: "\<And>x. x \<notin> set adj \<Longrightarrow> dget ps' x = dget ps x"
    using coordinate_descent_descends[OF d] by metis
  have "new_calibration ps = Inr c" using c g make_calibration_Inr[OF c] by (simp add: new_calibration_def)
  then have "e0 = e" using f(1) e(1) by (simp add: delta_errorfunc_def)
  then have "total_error w (manual_heights s @ probes) ds c' = Inr e1" using errorfunc_below[OF f(2) _ n] f(3) e(2) by simp
  moreover have "axis_values ps' ''stepdist_'' = axis_values ps ''stepdist_''"
    using k by (simp add: axis_values_def g(6) basic_params_def)
  then have "cal_stepdists c' = cal_stepdists c"
    using n g(5) by (auto simp: new_calibration_def rbind_eq_Inr dest: make_calibration_Inr)
  moreover have "cal_arms c' = cal_arms c" if "ds = []"
  proof -
    have "axis_values ps' ''arm_'' = axis_values ps ''arm_''" using k that by (simp add: axis_values_def g(6) basic_params_def)
    then show ?thesis using n g(3) by (auto simp: new_calibration_def rbind_eq_Inr dest: make_calibration_Inr)
  qed
  ultimately show ?thesis using Inr f(3) \<open>e0 = e\<close> by (auto simp: res)
qed simp

theorem calibration_fit_improves_witness:
  "\<exists>c. make_calibration 3 (210, 330, 90) (5, 5, 5) (10, 10, 10) (1, 1, 1) = Inr c \<and>
     (case calculate_params False c [(1, (10, 10, 10))] [] \<lparr>last_probe_positions = [], manual_heights = [], last_distances = [], delta_analyze_entry = []\<rparr> of
        Inr (c', calls) \<Rightarrow> (\<exists>e'. total_error 1 [(1, (10, 10, 10))] [] c' = Inr e' \<and> e' \<le> 1) \<and> cal_arms c' = cal_arms c
      | Inl _ \<Rightarrow> True)"
proof -
  obtain c where c: "make_calibration 3 (210, 330, 90) (5, 5, 5) (10, 10, 10) (1, 1, 1) = Inr c"
    "get_position_from_stable c (10, 10, 10) = Inr (0, 0, 0)"
    using cal1 trilaterated by blast
  have "total_error 1 [(1, (10, 10, 10))] [] c = Inr 1" by (simp add: total_error_def height_error_def c(2))
  from calibration_fit_improves[OF c(1), of "[(1, (10, 10, 10))]" "[]" 1
      "\<lparr>last_probe_positions = [], manual_heights = [], last_distances = [], delta_analyze_entry = []\<rparr>" 1 False] this c(1)
  show ?thesis by (auto simp: z_weight_of_def BAD_FIT_def split: sum.splits)
qed

end
