(* ===== verification/ToolHead.thy ===== *)
theory ToolHead
  imports LookAhead
begin

text \<open>
  \<open>klippy/toolhead.py\<close>: the class \<open>ToolHead\<close>, which turns planned moves into motion in time.

  An operation takes what it reads of the clock: \<open>now\<close> is \<open>reactor.monotonic()\<close> and \<open>est\<close> is
  \<open>mcu.estimated_print_time\<close> at that time. The checks of the kinematics and of the extruder are parameters: they raise
  or give the limits they pass to \<open>limit_speed\<close>. Calls to the C library, the micro-controllers, the extruder and
  callbacks are recorded, in order, in the \<open>trace\<close>. A method that pauses gives the time it pauses until.
\<close>

section \<open>State\<close>

datatype queuing = Flushed | Priming | Active | Drip

text \<open>\<open>Active\<close> is the empty string of the source, the main state.\<close>

datatype motion =
    Segment real move \<comment> \<open>\<open>trapq_append\<close>\<close>
  | Extrude real move \<comment> \<open>\<open>extruder.move\<close>\<close>
  | Callback nat real
  | Steps real \<comment> \<open>the step generators are called up to this time\<close>
  | Finalize real \<comment> \<open>\<open>trapq_finalize_moves\<close> and \<open>extruder.update_move_time\<close>\<close>
  | SendMoves real \<comment> \<open>\<open>mcu.flush_moves\<close>\<close>
  | DropMoves \<comment> \<open>\<open>trapq_finalize_moves\<close> at the end of time\<close>
  | SetPosition real "real list"
  | SyncPrintTime real real real

datatype flush_wake = WakeNow | WakeAt real | WakeNever

definition NEVER_TIME :: real where "NEVER_TIME = 9999999999999999"

record th =
  lim :: toolhead
  requested_accel_to_decel :: real
  square_corner_velocity :: "real option"
  buffer_time_low :: real
  buffer_time_high :: real
  buffer_time_start :: real
  move_flush_time :: real
  can_pause :: bool
  move_queue :: move_queue
  commanded_pos :: "real list"
  print_time :: real
  special_queuing_state :: queuing
  need_check_stall :: real
  flush_timer :: flush_wake
  idle_flush_print_time :: real
  print_stall :: nat
  kin_flush_delay :: real
  kin_flush_times :: "real list"
  last_kin_flush_time :: real
  last_kin_move_time :: real
  normal_max_velocity :: real
  normal_max_accel :: real
  normal_accel_to_decel :: real
  normal_square_corner :: real
  limit_max_velocity :: real
  limit_max_accel :: real
  limit_accel_to_decel :: real
  limit_square_corner :: real
  trace :: "motion list"

definition MIN_KIN_TIME :: real where "MIN_KIN_TIME = 1 / 10"
definition MOVE_BATCH_TIME :: real where "MOVE_BATCH_TIME = 1 / 2"
definition SDS_CHECK_TIME :: real where "SDS_CHECK_TIME = 1 / 1000"
definition DRIP_SEGMENT_TIME :: real where "DRIP_SEGMENT_TIME = 1 / 20"
definition DRIP_TIME :: real where "DRIP_TIME = 1 / 10"

definition emit :: "motion list \<Rightarrow> th \<Rightarrow> th" where
  "emit es s = s\<lparr>trace := trace s @ es\<rparr>"

definition calc_junction_deviation :: "th \<Rightarrow> th res" where
  "calc_junction_deviation s = (case square_corner_velocity s of
     None \<Rightarrow> Inl TypeError
   | Some v \<Rightarrow> Inr (s\<lparr>lim := (lim s)\<lparr>junction_deviation := v\<^sup>2 * (sqrt 2 - 1) / max_accel (lim s),
       max_accel_to_decel := min (requested_accel_to_decel s) (max_accel (lim s))\<rparr>\<rparr>))"

text \<open>The options of the section \<open>printer\<close> with their defaults; \<open>fileoutput\<close> is \<open>mcu.is_fileoutput()\<close>.\<close>

record th_config =
  c_velocity :: real
  c_accel :: real
  c_accel_to_decel :: "real option"
  c_square_corner :: "real option"
  c_low :: "real option"
  c_high :: "real option"
  c_start :: "real option"
  c_flush_time :: "real option"

definition opt :: "real option \<Rightarrow> real \<Rightarrow> real" where
  "opt x d = (case x of None \<Rightarrow> d | Some v \<Rightarrow> v)"

definition getfloat_above :: "real \<Rightarrow> real \<Rightarrow> real res" where
  "getfloat_above b v = (if v \<le> b then Inl (AppError ''must be above'') else Inr v)"

definition getfloat_min :: "real \<Rightarrow> real \<Rightarrow> real res" where
  "getfloat_min b v = (if v < b then Inl (AppError ''must have minimum'') else Inr v)"

text \<open>The other defaults are within their bounds; the one of \<open>buffer_time_high\<close> is not checked.\<close>

definition new_toolhead :: "bool \<Rightarrow> th_config \<Rightarrow> th res" where
  "new_toolhead fileoutput c =
     rbind (getfloat_above 0 (c_velocity c)) (\<lambda>v.
     rbind (getfloat_above 0 (c_accel c)) (\<lambda>a.
     rbind (getfloat_above 0 (opt (c_accel_to_decel c) (a / 2))) (\<lambda>ad.
     rbind (getfloat_min 0 (opt (c_square_corner c) 5)) (\<lambda>sc.
     rbind (getfloat_above 0 (opt (c_low c) 1)) (\<lambda>low.
     rbind (case c_high c of None \<Rightarrow> Inr 2 | Some h \<Rightarrow> getfloat_above low h) (\<lambda>high.
     rbind (getfloat_above 0 (opt (c_start c) (1 / 4))) (\<lambda>start.
     rbind (getfloat_above 0 (opt (c_flush_time c) (1 / 20))) (\<lambda>ft.
     calc_junction_deviation
       \<lparr>lim = \<lparr>max_velocity = v, max_accel = a, max_accel_to_decel = ad, junction_deviation = 0\<rparr>,
        requested_accel_to_decel = ad, square_corner_velocity = Some sc, buffer_time_low = low, buffer_time_high = high,
        buffer_time_start = start, move_flush_time = ft, can_pause = \<not> fileoutput,
        move_queue = set_flush_time high new_move_queue, commanded_pos = [0, 0, 0, 0], print_time = 0,
        special_queuing_state = Flushed, need_check_stall = -1, flush_timer = WakeNever, idle_flush_print_time = 0,
        print_stall = 0, kin_flush_delay = SDS_CHECK_TIME, kin_flush_times = [], last_kin_flush_time = 0,
        last_kin_move_time = 0, normal_max_velocity = v, normal_max_accel = a, normal_accel_to_decel = min ad a,
        normal_square_corner = sc, limit_max_velocity = 99999999, limit_max_accel = 99999999, limit_accel_to_decel = 99999999,
        limit_square_corner = 99999999, trace = []\<rparr>))))))))"

section \<open>Print time\<close>

definition update_batch :: "real \<Rightarrow> real \<Rightarrow> th \<Rightarrow> th" where
  "update_batch lkft until s =
     (let pt = min (print_time s + MOVE_BATCH_TIME) until;
          sg = max lkft (pt - kin_flush_delay s)
      in emit [Steps sg, Finalize (max lkft (sg - kin_flush_delay s)), SendMoves (max lkft (sg - move_flush_time s))]
           (s\<lparr>print_time := pt\<rparr>))"

function update_loop :: "real \<Rightarrow> real \<Rightarrow> th \<Rightarrow> th" where
  "update_loop lkft until s =
     (let s' = update_batch lkft until s in if until \<le> print_time s' then s' else update_loop lkft until s')"
  by pat_completeness auto

termination
proof (relation "measure (\<lambda>(lkft, until, s). nat \<lceil>(until - print_time s) * 2\<rceil>)")
  fix lkft until :: real and s s' :: th
  assume s': "s' = update_batch lkft until s" and ne: "\<not> until \<le> print_time s'"
  have pt: "print_time s' = min (print_time s + 1 / 2) until"
    by (simp add: s' update_batch_def emit_def Let_def MOVE_BATCH_TIME_def)
  with ne have eq: "(until - print_time s') * 2 = (until - print_time s) * 2 - 1" and pos: "1 < (until - print_time s) * 2"
    by (auto simp: min_def algebra_simps split: if_splits)
  show "((lkft, until, s'), lkft, until, s) \<in> measure (\<lambda>(lkft, until, s). nat \<lceil>(until - print_time s) * 2\<rceil>)"
  proof -
    have "nat \<lceil>x - 1\<rceil> < nat \<lceil>x\<rceil>" if "1 < x" for x :: real
      using that by linarith
    from this[OF pos] show ?thesis by (simp only: in_measure case_prod_conv eq)
  qed
qed simp

declare update_loop.simps [simp del]

definition update_move_time :: "real \<Rightarrow> th \<Rightarrow> th" where
  "update_move_time until s = update_loop (last_kin_flush_time s) until s"

definition calc_print_time :: "real \<Rightarrow> real \<Rightarrow> th \<Rightarrow> th" where
  "calc_print_time now est s =
     (let kin_time = max (est + MIN_KIN_TIME) (last_kin_flush_time s) + kin_flush_delay s;
          min_print_time = max (est + buffer_time_start s) kin_time
      in if min_print_time > print_time s then emit [SyncPrintTime now est min_print_time] (s\<lparr>print_time := min_print_time\<rparr>)
         else s)"

text \<open>The duration of a planned move.\<close>

definition duration :: "move \<Rightarrow> real" where
  "duration m = (case times m of None \<Rightarrow> 0 | Some j \<Rightarrow> accel_t j + cruise_t j + decel_t j)"

definition move_events :: "real \<Rightarrow> move \<Rightarrow> motion list" where
  "move_events t m = (if is_kinematic_move m then [Segment t m] else []) @ (if axes_d m ! 3 \<noteq> 0 then [Extrude t m] else []) @
     map (\<lambda>c. Callback c (t + duration m)) (timing_callbacks m)"

fun queue_moves :: "move list \<Rightarrow> real \<Rightarrow> th \<Rightarrow> real \<times> th" where
  "queue_moves [] t s = (t, s)"
| "queue_moves (m # ms) t s = queue_moves ms (t + duration m) (emit (move_events t m) s)"

definition resync :: "real \<Rightarrow> real \<Rightarrow> th \<Rightarrow> th" where
  "resync now est s =
     (if special_queuing_state s \<noteq> Active then
        calc_print_time now est
          (if special_queuing_state s \<noteq> Drip then s\<lparr>special_queuing_state := Active, need_check_stall := -1, flush_timer := WakeNow\<rparr> else s)
      else s)"

definition process_begin :: "real \<Rightarrow> real \<Rightarrow> move list \<Rightarrow> th \<Rightarrow> real \<times> th" where
  "process_begin now est ms s = (let s' = resync now est s in queue_moves ms (print_time s') s')"

definition process_end :: "real \<Rightarrow> th \<Rightarrow> th" where
  "process_end until s = (update_move_time until s)\<lparr>last_kin_move_time := until\<rparr>"

definition process_moves :: "real \<Rightarrow> real \<Rightarrow> move list \<Rightarrow> th \<Rightarrow> th" where
  "process_moves now est ms s = (let (until, s') = process_begin now est ms s in process_end until s')"

text \<open>\<open>move_queue.flush()\<close> outside the drip state; it returns without a call when no move leaves the queue.\<close>

definition hand_on :: "real \<Rightarrow> real \<Rightarrow> move list \<times> move_queue \<Rightarrow> th \<Rightarrow> th" where
  "hand_on now est r s =
     (let s' = (if fst r = [] then s else process_moves now est (fst r) s) in s'\<lparr>move_queue := snd r\<rparr>)"

definition flush_queue :: "real \<Rightarrow> real \<Rightarrow> th \<Rightarrow> th" where
  "flush_queue now est s = hand_on now est (flush False (move_queue s)) s"

definition flush_step_generation :: "real \<Rightarrow> real \<Rightarrow> th \<Rightarrow> th" where
  "flush_step_generation now est s =
     (let s1 = flush_queue now est s;
          s2 = s1\<lparr>special_queuing_state := Flushed, need_check_stall := -1, flush_timer := WakeNever,
                  move_queue := set_flush_time (buffer_time_high s1) (move_queue s1), idle_flush_print_time := 0\<rparr>;
          flush_time = max (last_kin_move_time s2 + kin_flush_delay s2) (print_time s2 - kin_flush_delay s2);
          s3 = s2\<lparr>last_kin_flush_time := max (last_kin_flush_time s2) flush_time\<rparr>
      in update_move_time (max (print_time s3) (last_kin_flush_time s3)) s3)"

definition flush_lookahead :: "real \<Rightarrow> real \<Rightarrow> th \<Rightarrow> th" where
  "flush_lookahead now est s =
     (if special_queuing_state s \<noteq> Active then flush_step_generation now est s else flush_queue now est s)"

definition get_last_move_time :: "real \<Rightarrow> real \<Rightarrow> th \<Rightarrow> real \<times> th" where
  "get_last_move_time now est s =
     (let s1 = flush_lookahead now est s;
          s2 = (if special_queuing_state s1 \<noteq> Active then calc_print_time now est s1 else s1)
      in (print_time s2, s2))"

section \<open>Stalls and the flush timer\<close>

text \<open>One turn of the loop of \<open>_check_stall\<close>: the time it pauses until, or none when it is done.\<close>

definition stall_turn :: "real \<Rightarrow> real \<Rightarrow> th \<Rightarrow> real option \<times> th" where
  "stall_turn eventtime est s =
     (let stall_time = print_time s - est - buffer_time_high s
      in if stall_time \<le> 0 then
           (None, if special_queuing_state s = Active then s\<lparr>need_check_stall := est + buffer_time_high s + 1 / 10\<rparr> else s)
         else if \<not> can_pause s then (None, s\<lparr>need_check_stall := NEVER_TIME\<rparr>)
         else (Some (eventtime + min 1 stall_time), s))"

definition check_stall :: "real \<Rightarrow> real \<Rightarrow> th \<Rightarrow> real option \<times> th" where
  "check_stall eventtime est s =
     stall_turn eventtime est
       (if special_queuing_state s \<noteq> Active then
          (if idle_flush_print_time s \<noteq> 0 then
             s\<lparr>print_stall := (if est < idle_flush_print_time s then print_stall s + 1 else print_stall s), idle_flush_print_time := 0\<rparr>
           else s)
            \<lparr>special_queuing_state := Priming, need_check_stall := -1, flush_timer := WakeAt (eventtime + 1 / 10)\<rparr>
        else s)"

text \<open>The timer's handler gives the time it is to be called again, or none for never.\<close>

definition flush_handler :: "real \<Rightarrow> real \<Rightarrow> real \<Rightarrow> th \<Rightarrow> real option \<times> th" where
  "flush_handler eventtime now est s =
     (let buffer_time = print_time s - est
      in if buffer_time > buffer_time_low s then (Some (eventtime + buffer_time - buffer_time_low s), s)
         else
           let s' = flush_step_generation now est s
           in (None, if print_time s \<noteq> print_time s' then s'\<lparr>idle_flush_print_time := print_time s'\<rparr> else s'))"

section \<open>Movement commands\<close>

type_synonym move_check = "move \<Rightarrow> (real \<times> real) list res"

definition run_check :: "bool \<Rightarrow> move_check \<Rightarrow> move \<Rightarrow> move res" where
  "run_check needed chk m = (if needed then rbind (chk m) (\<lambda>ls. Inr (fold (\<lambda>(v, a). limit_speed v a) ls m)) else Inr m)"

definition get_position :: "th \<Rightarrow> real list" where
  "get_position s = commanded_pos s"

definition set_position :: "real \<Rightarrow> real \<Rightarrow> real list \<Rightarrow> th \<Rightarrow> th" where
  "set_position now est newpos s =
     (let s' = flush_step_generation now est s
      in emit [SetPosition (print_time s') newpos] (s'\<lparr>commanded_pos := newpos\<rparr>))"

definition th_move ::
  "move_check \<Rightarrow> move_check \<Rightarrow> (move \<Rightarrow> move \<Rightarrow> real) \<Rightarrow> real \<Rightarrow> real \<Rightarrow> real list \<Rightarrow> real \<Rightarrow> th \<Rightarrow> real option res \<times> th" where
  "th_move kin ext ev2 now est newpos spd s =
     (let m = new_move (lim s) (commanded_pos s) newpos spd
      in if move_d m = 0 then (Inr None, s)
         else
           case rbind (run_check (is_kinematic_move m) kin m) (\<lambda>m1. run_check (axes_d m1 ! 3 \<noteq> 0) ext m1) of
             Inl e \<Rightarrow> (Inl e, s)
           | Inr m' \<Rightarrow>
               let s1 = hand_on now est (add_move (lim s) ev2 m' (move_queue s)) (s\<lparr>commanded_pos := end_pos m'\<rparr>)
               in if print_time s1 > need_check_stall s1 then
                    let (w, s2) = check_stall now est s1 in (Inr w, s2)
                  else (Inr None, s1))"

fun fill_coord :: "real option list \<Rightarrow> real list \<Rightarrow> real list" where
  "fill_coord (c # cs) (p # ps) = (case c of None \<Rightarrow> p | Some v \<Rightarrow> v) # fill_coord cs ps"
| "fill_coord cs ps = ps"

definition manual_move where
  "manual_move kin ext ev2 now est coord spd s = th_move kin ext ev2 now est (fill_coord coord (commanded_pos s)) spd s"

definition dwell :: "real \<Rightarrow> real \<Rightarrow> real \<Rightarrow> th \<Rightarrow> real option \<times> th" where
  "dwell now est delay s =
     (let (t, s1) = get_last_move_time now est s in check_stall now est (update_move_time (t + max 0 delay) s1))"

text \<open>\<open>wait_moves\<close> flushes and then repeats this turn after each pause.\<close>

definition wait_turn :: "real \<Rightarrow> real \<Rightarrow> th \<Rightarrow> real option" where
  "wait_turn eventtime est s =
     (if (special_queuing_state s = Active \<or> print_time s \<ge> est) \<and> can_pause s then Some (eventtime + 1 / 10) else None)"

definition wait_moves :: "real \<Rightarrow> real \<Rightarrow> th \<Rightarrow> real option \<times> th" where
  "wait_moves now est s = (let s' = flush_lookahead now est s in (wait_turn now est s', s'))"

definition set_extruder :: "real \<Rightarrow> th \<Rightarrow> th" where
  "set_extruder extrude_pos s = s\<lparr>commanded_pos := (commanded_pos s)[3 := extrude_pos]\<rparr>"

section \<open>Drip moves\<close>

datatype drip_result = DripEnd | DripReached

text \<open>An observation of the loop: whether the completion is set, and the estimated print time. A turn that waits for
  the completion reads both again.\<close>

fun drip_loop :: "(bool \<times> real) list \<Rightarrow> real \<Rightarrow> th \<Rightarrow> (drip_result \<times> th) option" where
  "drip_loop [] until s = (if print_time s < until then None else Some (DripReached, s))"
| "drip_loop ((fired, est) # obs) until s =
     (if print_time s < until then
        if fired then Some (DripEnd, s)
        else
          let wait_time = print_time s - est - (DRIP_TIME + move_flush_time s + kin_flush_delay s)
          in if wait_time > 0 \<and> can_pause s then drip_loop obs until s
             else drip_loop obs until (update_move_time (min (print_time s + DRIP_SEGMENT_TIME) until) s)
      else Some (DripReached, s))"

text \<open>\<open>drip_move\<close> after its \<open>dwell(kin_flush_delay)\<close>; the clock is read three times. None while the loop goes on.\<close>

definition drip_move ::
  "move_check \<Rightarrow> move_check \<Rightarrow> (move \<Rightarrow> move \<Rightarrow> real) \<Rightarrow> real \<times> real \<Rightarrow> real \<times> real \<Rightarrow> real \<times> real \<Rightarrow> (bool \<times> real) list \<Rightarrow>
     real list \<Rightarrow> real \<Rightarrow> th \<Rightarrow> (unit res \<times> th) option" where
  "drip_move kin ext ev2 c1 c2 c3 obs newpos spd s =
     (let s1 = flush_queue (fst c1) (snd c1) s;
          s2 = s1\<lparr>special_queuing_state := Drip, need_check_stall := NEVER_TIME, flush_timer := WakeNever,
                  move_queue := set_flush_time (buffer_time_high s1) (move_queue s1), idle_flush_print_time := 0\<rparr>
      in case th_move kin ext ev2 (fst c2) (snd c2) newpos spd s2 of
           (Inl (AppError e), s3) \<Rightarrow> Some (Inl (AppError e), flush_step_generation (fst c3) (snd c3) s3)
         | (Inl e, s3) \<Rightarrow> Some (Inl e, s3)
         | (Inr _, s3) \<Rightarrow>
             let (ms, q) = flush False (move_queue s3)
             in if ms = [] then Some (Inr (), flush_step_generation (fst c3) (snd c3) (s3\<lparr>move_queue := q\<rparr>))
                else
                  let (until, s4) = process_begin (fst c2) (snd c2) ms s3
                  in case (if special_queuing_state s4 \<noteq> Active then drip_loop obs until s4 else Some (DripReached, s4)) of
                       None \<Rightarrow> None
                     | Some (DripReached, s5) \<Rightarrow>
                         Some (Inr (), flush_step_generation (fst c3) (snd c3) ((process_end until s5)\<lparr>move_queue := q\<rparr>))
                     | Some (DripEnd, s5) \<Rightarrow>
                         Some (Inr (), flush_step_generation (fst c3) (snd c3)
                           (emit [DropMoves] (s5\<lparr>move_queue := reset_queue (move_queue s5)\<rparr>))))"

section \<open>Other methods\<close>

definition stats_active :: "real \<Rightarrow> th \<Rightarrow> bool \<times> real \<times> real \<times> nat" where
  "stats_active est s =
     (let buffer_time = print_time s - est;
          is_active = (buffer_time > -60 \<or> special_queuing_state s = Active);
          shown = (if special_queuing_state s = Drip then 0 else buffer_time)
      in (is_active, print_time s, max shown 0, print_stall s))"

definition check_busy :: "real \<Rightarrow> th \<Rightarrow> real \<times> real \<times> bool" where
  "check_busy est s = (print_time s, est, queue (move_queue s) = [])"

definition th_handle_shutdown :: "th \<Rightarrow> th" where
  "th_handle_shutdown s = s\<lparr>can_pause := False, move_queue := reset_queue (move_queue s)\<rparr>"

definition note_step_generation_scan_time :: "real \<Rightarrow> real \<Rightarrow> real \<Rightarrow> real \<Rightarrow> th \<Rightarrow> unit res \<times> th" where
  "note_step_generation_scan_time now est delay old_delay s =
     (let s1 = flush_step_generation now est s
      in if old_delay \<noteq> 0 \<and> old_delay \<notin> set (kin_flush_times s1) then (Inl ValueError, s1)
         else
           let ts = (if old_delay \<noteq> 0 then remove1 old_delay (kin_flush_times s1) else kin_flush_times s1);
               ts' = (if delay \<noteq> 0 then ts @ [delay] else ts)
           in (Inr (), s1\<lparr>kin_flush_times := ts', kin_flush_delay := Max (set (ts' @ [SDS_CHECK_TIME]))\<rparr>))"

definition register_lookahead_callback :: "real \<Rightarrow> real \<Rightarrow> nat \<Rightarrow> th \<Rightarrow> th" where
  "register_lookahead_callback now est cb s =
     (let q = move_queue s
      in if queue q = [] then let (t, s') = get_last_move_time now est s in emit [Callback cb t] s'
         else s\<lparr>move_queue := q\<lparr>queue := butlast (queue q) @
                [(last (queue q))\<lparr>timing_callbacks := timing_callbacks (last (queue q)) @ [cb]\<rparr>]\<rparr>\<rparr>)"

definition note_kinematic_activity :: "real \<Rightarrow> th \<Rightarrow> th" where
  "note_kinematic_activity kin_time s = s\<lparr>last_kin_move_time := max (last_kin_move_time s) kin_time\<rparr>"

definition get_max_velocity :: "th \<Rightarrow> real \<times> real" where
  "get_max_velocity s = (max_velocity (lim s), max_accel (lim s))"

text \<open>\<open>gcmd.get_float\<close> of a parameter that may be absent.\<close>

fun arg_above :: "real \<Rightarrow> real option \<Rightarrow> real option res" where
  "arg_above b None = Inr None"
| "arg_above b (Some v) = (if v \<le> b then Inl (AppError ''must be above'') else Inr (Some v))"

fun arg_min :: "real \<Rightarrow> real option \<Rightarrow> real option res" where
  "arg_min b None = Inr None"
| "arg_min b (Some v) = (if v < b then Inl (AppError ''must have minimum'') else Inr (Some v))"

definition cmd_G4 :: "real \<Rightarrow> real \<Rightarrow> real option \<Rightarrow> th \<Rightarrow> real option res \<times> th" where
  "cmd_G4 now est P s = (case arg_min 0 P of Inl e \<Rightarrow> (Inl e, s)
     | Inr v \<Rightarrow> let (w, s') = dwell now est (opt v 0 / 1000) s in (Inr w, s'))"

definition cmd_M400 :: "real \<Rightarrow> real \<Rightarrow> th \<Rightarrow> real option \<times> th" where
  "cmd_M400 now est s = wait_moves now est s"

definition with_junction :: "th \<Rightarrow> unit res \<times> th" where
  "with_junction s = (case calc_junction_deviation s of Inl e \<Rightarrow> (Inl e, s) | Inr s' \<Rightarrow> (Inr (), s'))"

definition set_velocity_limitx :: "real \<Rightarrow> real \<Rightarrow> real \<Rightarrow> real \<Rightarrow> th \<Rightarrow> unit res \<times> th" where
  "set_velocity_limitx v a sc ad s =
     (let s1 = s\<lparr>limit_max_velocity := v, limit_max_accel := a, limit_accel_to_decel := ad, limit_square_corner := sc\<rparr>;
          l = (lim s1)\<lparr>max_velocity := (if v < normal_max_velocity s1 then v else normal_max_velocity s1),
                       max_accel := (if a < normal_max_accel s1 then a else normal_max_accel s1),
                       max_accel_to_decel := (if ad < normal_accel_to_decel s1 then ad else normal_accel_to_decel s1)\<rparr>
      in with_junction (s1\<lparr>lim := l, square_corner_velocity := Some (if sc < normal_square_corner s1 then sc else normal_square_corner s1)\<rparr>))"

definition set_velocity :: "real option \<Rightarrow> th \<Rightarrow> th" where
  "set_velocity x s = (case x of None \<Rightarrow> s
     | Some v \<Rightarrow> (if v \<le> limit_max_velocity s then s\<lparr>lim := (lim s)\<lparr>max_velocity := v\<rparr>\<rparr> else s)\<lparr>normal_max_velocity := v\<rparr>)"

definition set_accel :: "real option \<Rightarrow> th \<Rightarrow> th" where
  "set_accel x s = (case x of None \<Rightarrow> s
     | Some v \<Rightarrow> (if v \<le> limit_max_accel s then s\<lparr>lim := (lim s)\<lparr>max_accel := v\<rparr>\<rparr> else s)\<lparr>normal_max_accel := v\<rparr>)"

definition set_corner :: "real option \<Rightarrow> th \<Rightarrow> th" where
  "set_corner x s = (case x of None \<Rightarrow> s
     | Some v \<Rightarrow> (if v \<le> limit_square_corner s then s\<lparr>square_corner_velocity := Some v\<rparr> else s)\<lparr>normal_square_corner := v\<rparr>)"

definition set_accel_to_decel :: "real option \<Rightarrow> th \<Rightarrow> th" where
  "set_accel_to_decel x s = (case x of None \<Rightarrow> s
     | Some v \<Rightarrow> (if v \<le> limit_accel_to_decel s then s\<lparr>requested_accel_to_decel := v\<rparr> else s)\<lparr>normal_accel_to_decel := v\<rparr>)"

text \<open>The first component says whether the command answers with the limits.\<close>

definition cmd_SET_VELOCITY_LIMIT :: "real option \<Rightarrow> real option \<Rightarrow> real option \<Rightarrow> real option \<Rightarrow> th \<Rightarrow> bool res \<times> th" where
  "cmd_SET_VELOCITY_LIMIT V A SC AD s =
     (case rbind (arg_above 0 V) (\<lambda>v. rbind (arg_above 0 A) (\<lambda>a. rbind (arg_min 0 SC) (\<lambda>sc. rbind (arg_above 0 AD) (\<lambda>ad. Inr (v, a, sc, ad))))) of
        Inl e \<Rightarrow> (Inl e, s)
      | Inr (v, a, sc, ad) \<Rightarrow>
          let (r, s') = with_junction (set_accel_to_decel ad (set_corner sc (set_accel a (set_velocity v s))))
          in (rbind r (\<lambda>_. Inr (v = None \<and> a = None \<and> sc = None \<and> ad = None)), s'))"

definition cmd_M204 :: "real option \<Rightarrow> real option \<Rightarrow> real option \<Rightarrow> th \<Rightarrow> unit res \<times> th" where
  "cmd_M204 S P T s =
     (case rbind (arg_above 0 S) (\<lambda>a. case a of Some v \<Rightarrow> Inr (Some v)
          | None \<Rightarrow> rbind (arg_above 0 P) (\<lambda>p. rbind (arg_above 0 T) (\<lambda>t. Inr (case (p, t) of (Some p, Some t) \<Rightarrow> Some (min p t) | _ \<Rightarrow> None)))) of
        Inl e \<Rightarrow> (Inl e, s)
      | Inr None \<Rightarrow> (Inr (), s)
      | Inr (Some v) \<Rightarrow> with_junction (s\<lparr>lim := (lim s)\<lparr>max_accel := v\<rparr>\<rparr>))"

definition cmd_M205 :: "real option \<Rightarrow> th \<Rightarrow> unit res \<times> th" where
  "cmd_M205 X s = (case arg_above 0 X of Inl e \<Rightarrow> (Inl e, s) | Inr v \<Rightarrow> with_junction (s\<lparr>square_corner_velocity := v\<rparr>))"

text \<open>\<open>M101\<close>: the new size correction of an axis, from a printed size.\<close>

definition new_size_offset :: "real \<Rightarrow> real \<Rightarrow> real \<Rightarrow> real" where
  "new_size_offset target_size real_size last_offset =
     max (min (((target_size - real_size) / target_size + 1) * (1 + last_offset) - 1) (34 / 1000)) (- (34 / 1000))"

text \<open>What it stores in the configuration before it runs \<open>save_config\<close>; nothing without a target size.\<close>

definition cmd_M101 :: "real option \<Rightarrow> real option \<Rightarrow> real option \<Rightarrow> real \<times> real \<Rightarrow> (string \<times> real) list option res" where
  "cmd_M101 X Y T offsets =
     rbind (arg_above 0 X) (\<lambda>x. rbind (arg_above 0 Y) (\<lambda>y. rbind (arg_above 0 T) (\<lambda>t. Inr (
       case t of None \<Rightarrow> None
       | Some target \<Rightarrow>
           Some ((case x of None \<Rightarrow> [] | Some r \<Rightarrow> [(''x_size_offset'', new_size_offset target r (fst offsets))]) @
                 (case y of None \<Rightarrow> [] | Some r \<Rightarrow> [(''y_size_offset'', new_size_offset target r (snd offsets))]))))))"

end
