(* ===== verification/MotionOrder.thy ===== *)
theory MotionOrder
  imports ToolHead
begin

text \<open>
  Proofs about \<open>ToolHead\<close>: the order of the motion it records, the invariant of its state that every call from
  outside keeps, and the limits a work mode sets.
\<close>

section \<open>Order of the motion\<close>

text \<open>What is known after a trace: whether it was in order, the time up to which steps were asked for, and the ends of the last
  segment of the toolhead and of the last move of the extruder.\<close>

type_synonym trace_state = "bool \<times> real \<times> real \<times> real"

fun trace_step :: "motion \<Rightarrow> trace_state \<Rightarrow> trace_state" where
  "trace_step (Segment t m) (ok, g, e, x) = (ok \<and> is_kinematic_move m \<and> planned_ok m \<and> e \<le> t \<and> g + SDS_CHECK_TIME \<le> t, g, t + duration m, x)"
| "trace_step (Extrude t m) (ok, g, e, x) = (ok \<and> axes_d m ! 3 \<noteq> 0 \<and> planned_ok m \<and> x \<le> t \<and> g + SDS_CHECK_TIME \<le> t, g, e, t + duration m)"
| "trace_step (Steps v) (ok, g, e, x) = (ok \<and> g \<le> v, v, e, x)"
| "trace_step DropMoves (ok, g, e, x) = (ok, g, g, g)"
| "trace_step _ k = k"

definition in_order :: "motion list \<Rightarrow> bool" where
  "in_order tr \<longleftrightarrow> fst (fold trace_step tr (True, 0, 0, 0))"

definition known :: "th \<Rightarrow> trace_state" where
  "known s = fold trace_step (trace s) (True, 0, 0, 0)"

lemma known_emit [simp]: "known (emit es s) = fold trace_step es (known s)"
  by (simp add: known_def emit_def)

definition reached :: "th \<Rightarrow> real \<Rightarrow> bool" where
  "reached s g \<longleftrightarrow> g \<le> max (last_kin_flush_time s) (print_time s - kin_flush_delay s)"

text \<open>The trace is in order, nothing moves after \<open>b\<close> and steps are asked for no later than the print time allows.\<close>

definition synced :: "real \<Rightarrow> th \<Rightarrow> bool" where
  "synced b s \<longleftrightarrow> (\<exists>g e x. known s = (True, g, e, x) \<and> e \<le> b \<and> x \<le> b \<and> reached s g) \<and> SDS_CHECK_TIME \<le> kin_flush_delay s"

lemma synced_cong:
  assumes "trace s' = trace s" "last_kin_flush_time s' = last_kin_flush_time s" "print_time s' = print_time s"
    "kin_flush_delay s' = kin_flush_delay s"
  shows "synced b s' = synced b s"
  by (simp add: synced_def reached_def known_def assms)

lemma update_batch_synced:
  assumes "synced b s" "print_time s \<le> until"
  defines "s' \<equiv> update_batch (last_kin_flush_time s) until s"
  shows "synced b s'" "print_time s' \<le> until" "\<exists>es. s' = emit es (s\<lparr>print_time := print_time s'\<rparr>)"
proof -
  obtain g e x where k: "known s = (True, g, e, x)" "e \<le> b" "x \<le> b" "reached s g" and d: "SDS_CHECK_TIME \<le> kin_flush_delay s"
    using assms(1) by (auto simp: synced_def)
  have s': "s' = emit [Steps (max (last_kin_flush_time s) (print_time s' - kin_flush_delay s)),
      Finalize (max (last_kin_flush_time s) (max (last_kin_flush_time s) (print_time s' - kin_flush_delay s) - kin_flush_delay s)),
      SendMoves (max (last_kin_flush_time s) (max (last_kin_flush_time s) (print_time s' - kin_flush_delay s) - move_flush_time s))]
        (s\<lparr>print_time := print_time s'\<rparr>)"
    and pt: "print_time s' = min (print_time s + MOVE_BATCH_TIME) until"
    by (simp_all add: s'_def update_batch_def Let_def emit_def)
  show "\<exists>es. s' = emit es (s\<lparr>print_time := print_time s'\<rparr>)" using s' by blast
  show "print_time s' \<le> until" by (simp add: pt)
  have "print_time s \<le> print_time s'" using assms(2) by (simp add: pt MOVE_BATCH_TIME_def)
  then have "g \<le> max (last_kin_flush_time s) (print_time s' - kin_flush_delay s)"
    using k(4) by (auto simp: reached_def)
  then show "synced b s'"
    using k d by (subst s') (simp add: synced_def known_def emit_def reached_def)
qed

lemma update_move_time_synced:
  assumes "synced b s" "print_time s \<le> until"
  defines "s' \<equiv> update_move_time until s"
  shows "synced b s'" "print_time s' = until" "\<exists>es. s' = emit es (s\<lparr>print_time := until\<rparr>)"
proof -
  have "synced b (update_loop lkft until s) \<and> print_time (update_loop lkft until s) = until \<and>
        (\<exists>es. update_loop lkft until s = emit es (s\<lparr>print_time := until\<rparr>))"
    if "synced b s" "print_time s \<le> until" "lkft = last_kin_flush_time s" for lkft
    using that
  proof (induction lkft until s rule: update_loop.induct)
    case (1 lkft until s)
    define s1 where "s1 = update_batch lkft until s"
    have b: "synced b s1" "print_time s1 \<le> until" "\<exists>es. s1 = emit es (s\<lparr>print_time := print_time s1\<rparr>)"
      unfolding s1_def "1.prems"(3) by (rule update_batch_synced[OF "1.prems"(1,2)])+
    obtain es where es: "s1 = emit es (s\<lparr>print_time := print_time s1\<rparr>)" using b(3) by blast
    have unf: "update_loop lkft until s = (if until \<le> print_time s1 then s1 else update_loop lkft until s1)"
      by (subst update_loop.simps) (simp add: Let_def s1_def)
    show ?case
    proof (cases "until \<le> print_time s1")
      case True
      then have "print_time s1 = until" using b(2) by simp
      then show ?thesis using b(1,3) unf True by simp
    next
      case False
      have "last_kin_flush_time s1 = lkft" using "1.prems"(3) by (subst es) (simp add: emit_def)
      with "1.IH"[OF refl] False b obtain es' where i: "synced b (update_loop lkft until s1)"
        "print_time (update_loop lkft until s1) = until" "update_loop lkft until s1 = emit es' (s1\<lparr>print_time := until\<rparr>)"
        by (auto simp: s1_def)
      have "emit es' (s1\<lparr>print_time := until\<rparr>) = emit (es @ es') (s\<lparr>print_time := until\<rparr>)"
        by (subst es) (simp add: emit_def)
      then show ?thesis using i unf False by auto
    qed
  qed
  from this[OF assms(1,2) refl] show "synced b s'" "print_time s' = until" "\<exists>es. s' = emit es (s\<lparr>print_time := until\<rparr>)"
    by (simp_all add: s'_def update_move_time_def)
qed

lemma synced_later:
  assumes "synced b s" "print_time s \<le> p"
  shows "synced b (s\<lparr>print_time := p\<rparr>)"
proof -
  from assms(1) obtain g e x where "known s = (True, g, e, x)" "e \<le> b" "x \<le> b" "reached s g" "SDS_CHECK_TIME \<le> kin_flush_delay s"
    by (auto simp: synced_def)
  then show ?thesis using assms(2) by (auto simp: synced_def reached_def known_def)
qed

lemma synced_mono: "synced b s \<Longrightarrow> b \<le> b' \<Longrightarrow> synced b' s"
  by (force simp: synced_def)

text \<open>The next move may start now: no step has been asked for that late.\<close>

definition ready :: "th \<Rightarrow> bool" where
  "ready s \<longleftrightarrow> last_kin_flush_time s + kin_flush_delay s \<le> print_time s"

lemma calc_print_time_synced:
  fixes now est s
  defines "s' \<equiv> calc_print_time now est s"
  shows "ready s'" "print_time s \<le> print_time s'" "synced b s \<Longrightarrow> synced b s'" "\<exists>es. s' = emit es (s\<lparr>print_time := print_time s'\<rparr>)"
proof -
  define p where "p = max (est + buffer_time_start s) (max (est + MIN_KIN_TIME) (last_kin_flush_time s) + kin_flush_delay s)"
  have s': "s' = (if p > print_time s then emit [SyncPrintTime now est p] (s\<lparr>print_time := p\<rparr>) else s)"
    by (simp add: s'_def calc_print_time_def p_def Let_def)
  have p: "last_kin_flush_time s + kin_flush_delay s \<le> p" by (simp add: p_def max_def)
  show "ready s'" "print_time s \<le> print_time s'" using p by (auto simp: s' ready_def emit_def)
  show "\<exists>es. s' = emit es (s\<lparr>print_time := print_time s'\<rparr>)"
    by (cases "p > print_time s") (auto simp: s' emit_def intro: exI[of _ "[]"])
  show "synced b s'" if "synced b s"
    using that synced_later[OF that, of p] by (auto simp: s' synced_def reached_def emit_def known_def)
qed

lemma trace_step_False: "fst (fold trace_step tr (False, k)) = False"
proof (induction tr arbitrary: k)
  case (Cons e tr)
  obtain g s x where "k = (g, s, x)" by (cases k)
  then show ?case using Cons by (cases e) simp_all
qed simp

text \<open>A trace in order has planned moves only: segments of moves that move the head, and extrusion of moves that extrude.\<close>

lemma in_orderD:
  assumes "in_order tr"
  shows "Segment t m \<in> set tr \<Longrightarrow> is_kinematic_move m \<and> planned_ok m" "Extrude t m \<in> set tr \<Longrightarrow> axes_d m ! 3 \<noteq> 0 \<and> planned_ok m"
proof -
  have "(Segment t m \<in> set tr \<longrightarrow> is_kinematic_move m \<and> planned_ok m) \<and> (Extrude t m \<in> set tr \<longrightarrow> axes_d m ! 3 \<noteq> 0 \<and> planned_ok m)"
    if "fst (fold trace_step tr k)" for k
    using that
  proof (induction tr arbitrary: k)
    case (Cons e tr)
    obtain b k' where k: "trace_step e k = (b, k')" by (rule prod.exhaust)
    have b: "b" using Cons.prems k trace_step_False by (cases b) auto
    have "fst (fold trace_step tr (b, k'))" using Cons.prems k by simp
    moreover obtain b0 g s x where "k = (b0, g, s, x)" by (cases k)
    ultimately show ?case using Cons.IH[of "(b, k')"] k b by (cases e) auto
  qed simp
  then show "Segment t m \<in> set tr \<Longrightarrow> is_kinematic_move m \<and> planned_ok m" "Extrude t m \<in> set tr \<Longrightarrow> axes_d m ! 3 \<noteq> 0 \<and> planned_ok m"
    using assms unfolding in_order_def by blast+
qed

lemma duration_nonneg: "planned_ok m \<Longrightarrow> 0 \<le> duration m"
  by (auto simp: planned_ok_def duration_def trapezoid_def)

lemma callbacks_known [simp]: "fold trace_step (map (\<lambda>c. Callback c t) cs) k = k"
  by (induction cs) simp_all

lemma queue_moves_known:
  assumes "\<forall>m \<in> set ms. planned_ok m" "known s = (True, g, e, x)" "e \<le> t" "x \<le> t" "g + SDS_CHECK_TIME \<le> t"
  shows "\<exists>es e' x'. snd (queue_moves ms t s) = emit es s \<and> known (emit es s) = (True, g, e', x') \<and>
           e' \<le> fst (queue_moves ms t s) \<and> x' \<le> fst (queue_moves ms t s) \<and> t \<le> fst (queue_moves ms t s)"
  using assms
proof (induction ms t s arbitrary: e x rule: queue_moves.induct)
  case (1 t s)
  then show ?case by (intro exI[of _ "[]"]) (simp add: emit_def)
next
  case (2 m ms t s)
  have p: "planned_ok m" "0 \<le> duration m" using 2(2) duration_nonneg by auto
  obtain e1 x1 where k: "known (emit (move_events t m) s) = (True, g, e1, x1)" "e1 \<le> t + duration m" "x1 \<le> t + duration m"
    using p 2(3-6) by (cases "is_kinematic_move m"; cases "axes_d m ! 3 = 0") (simp_all add: move_events_def)
  from 2(1)[OF _ k] 2(2,6) p(2) obtain es e' x' where i:
    "snd (queue_moves ms (t + duration m) (emit (move_events t m) s)) = emit es (emit (move_events t m) s)"
    "known (emit es (emit (move_events t m) s)) = (True, g, e', x')"
    "e' \<le> fst (queue_moves (m # ms) t s)" "x' \<le> fst (queue_moves (m # ms) t s)" "t \<le> fst (queue_moves (m # ms) t s)"
    by fastforce
  have "emit es (emit (move_events t m) s) = emit (move_events t m @ es) s" by (simp add: emit_def)
  with i show ?case by (metis queue_moves.simps(2))
qed

section \<open>The invariant of the toolhead\<close>

text \<open>What the operations on time leave alone.\<close>

definition kept :: "th \<Rightarrow> th \<Rightarrow> bool" where
  "kept s s' \<longleftrightarrow> lim s' = lim s \<and> normal_max_velocity s' = normal_max_velocity s \<and> normal_max_accel s' = normal_max_accel s \<and>
     normal_accel_to_decel s' = normal_accel_to_decel s \<and> requested_accel_to_decel s' = requested_accel_to_decel s \<and> move_queue s' = move_queue s \<and>
     kin_flush_delay s' = kin_flush_delay s \<and> last_kin_flush_time s' = last_kin_flush_time s"

lemma kept_emit [simp]: "kept s (emit es s') \<longleftrightarrow> kept s s'"
  by (simp add: kept_def emit_def)

lemma kept_trans: "kept s s' \<Longrightarrow> kept s' s'' \<Longrightarrow> kept s s''"
  by (simp add: kept_def)

text \<open>The flag says whether the state may be that of a drip move.\<close>

definition core_inv :: "bool \<Rightarrow> th \<Rightarrow> bool" where
  "core_inv drip s \<longleftrightarrow> toolhead_ok (lim s) \<and> 0 < requested_accel_to_decel s \<and> 0 < normal_max_velocity s \<and> 0 < normal_max_accel s \<and>
     0 < normal_accel_to_decel s \<and> synced (print_time s) s \<and>
     (special_queuing_state s = Drip \<longrightarrow> drip) \<and> (special_queuing_state s = Active \<longrightarrow> ready s)"

definition th_inv :: "th \<Rightarrow> bool" where
  "th_inv s \<longleftrightarrow> core_inv False s \<and> queue_wf (move_queue s)"

lemma core_inv_cong:
  assumes "lim s' = lim s" "requested_accel_to_decel s' = requested_accel_to_decel s" "trace s' = trace s"
    "last_kin_flush_time s' = last_kin_flush_time s" "print_time s' = print_time s" "kin_flush_delay s' = kin_flush_delay s"
    "special_queuing_state s' = special_queuing_state s" "normal_max_velocity s' = normal_max_velocity s"
    "normal_max_accel s' = normal_max_accel s" "normal_accel_to_decel s' = normal_accel_to_decel s"
  shows "core_inv d s' = core_inv d s"
  using synced_cong[OF assms(3-6)] assms by (simp add: core_inv_def ready_def)

lemma update_move_time_facts:
  assumes "synced b s" "print_time s \<le> until"
  shows "synced b (update_move_time until s)" "print_time (update_move_time until s) = until" "kept s (update_move_time until s)"
    "special_queuing_state (update_move_time until s) = special_queuing_state s"
proof -
  note u = update_move_time_synced[OF assms]
  show "synced b (update_move_time until s)" "print_time (update_move_time until s) = until" using u by simp_all
  obtain es where "update_move_time until s = emit es (s\<lparr>print_time := until\<rparr>)" using u(3) by blast
  then show "kept s (update_move_time until s)" "special_queuing_state (update_move_time until s) = special_queuing_state s"
    by (simp_all add: kept_def emit_def)
qed

lemma update_move_time_core:
  assumes "core_inv d s" "print_time s \<le> until"
  shows "core_inv d (update_move_time until s)" "kept s (update_move_time until s)" "print_time (update_move_time until s) = until"
    "special_queuing_state (update_move_time until s) = special_queuing_state s"
proof -
  have "synced until s" using assms by (auto simp: core_inv_def intro: synced_mono)
  note u = update_move_time_facts[OF this assms(2)]
  from u(2-4) show "kept s (update_move_time until s)" "print_time (update_move_time until s) = until"
    "special_queuing_state (update_move_time until s) = special_queuing_state s" by blast+
  show "core_inv d (update_move_time until s)"
    using u assms by (auto simp: core_inv_def kept_def ready_def)
qed

lemma calc_print_time_facts:
  "kept s (calc_print_time now est s)" "special_queuing_state (calc_print_time now est s) = special_queuing_state s"
proof -
  obtain es p where e: "calc_print_time now est s = emit es (s\<lparr>print_time := p\<rparr>)"
    using calc_print_time_synced(4)[where s = s and now = now and est = est] by blast
  show "kept s (calc_print_time now est s)" "special_queuing_state (calc_print_time now est s) = special_queuing_state s"
    unfolding e by (simp_all add: kept_def emit_def)
qed

lemma calc_print_time_core:
  assumes "core_inv d s"
  shows "core_inv d (calc_print_time now est s)"
  using assms calc_print_time_synced[where s = s and now = now and est = est] calc_print_time_facts[where s = s and now = now and est = est]
  by (auto simp: core_inv_def kept_def intro: synced_mono)

lemma queue_moves_facts:
  assumes "\<forall>m \<in> set ms. planned_ok m" "synced (print_time s) s" "ready s"
  defines "r \<equiv> queue_moves ms (print_time s) s"
  shows "synced (fst r) (snd r)" "print_time (snd r) = print_time s" "print_time s \<le> fst r" "kept s (snd r)"
    "special_queuing_state (snd r) = special_queuing_state s"
proof -
  obtain g e x where k: "known s = (True, g, e, x)" "e \<le> print_time s" "x \<le> print_time s" "reached s g" "SDS_CHECK_TIME \<le> kin_flush_delay s"
    using assms(2) by (auto simp: synced_def)
  have "g + SDS_CHECK_TIME \<le> print_time s"
    using k(4,5) assms(3) by (auto simp: reached_def ready_def)
  from queue_moves_known[OF assms(1) k(1-3) this] obtain es e' x' where q: "snd r = emit es s"
    "known (emit es s) = (True, g, e', x')" "e' \<le> fst r" "x' \<le> fst r" "print_time s \<le> fst r"
    unfolding r_def by blast
  show "synced (fst r) (snd r)"
    using q k(4,5) by (auto simp: synced_def reached_def emit_def)
  show "print_time (snd r) = print_time s" "print_time s \<le> fst r" "kept s (snd r)" "special_queuing_state (snd r) = special_queuing_state s"
    using q(1,5) by (simp_all add: emit_def kept_def)
qed

lemma resync_facts:
  fixes now est :: real
  assumes "synced (print_time s) s" "special_queuing_state s = Active \<longrightarrow> ready s"
  defines "s' \<equiv> resync now est s"
  shows "synced (print_time s') s'" "ready s'" "kept s s'" "special_queuing_state s' = (if special_queuing_state s = Drip then Drip else Active)"
proof -
  define s1 where "s1 = (if special_queuing_state s \<noteq> Drip then s\<lparr>special_queuing_state := Active, need_check_stall := -1, flush_timer := WakeNow\<rparr> else s)"
  have 1: "synced (print_time s1) s1" "kept s s1" "special_queuing_state s1 = (if special_queuing_state s = Drip then Drip else Active)"
    using assms(1) by (simp_all add: s1_def kept_def synced_def reached_def known_def)
  have s': "s' = (if special_queuing_state s \<noteq> Active then calc_print_time now est s1 else s)"
    by (simp add: s'_def resync_def s1_def)
  note c = calc_print_time_synced[where s = s1 and now = now and est = est] and f = calc_print_time_facts[where s = s1 and now = now and est = est]
  show "ready s'" using s' c(1) assms(2) by simp
  show "kept s s'" using s' f(1) 1(2) kept_trans by (auto simp: kept_def)
  show "synced (print_time s') s'" using s' c(2,3) 1(1) assms(1) by (auto intro: synced_mono)
  show "special_queuing_state s' = (if special_queuing_state s = Drip then Drip else Active)" using s' f(2) 1(3) by auto
qed

lemma process_begin_facts:
  assumes "\<forall>m \<in> set ms. planned_ok m" "synced (print_time s) s" "special_queuing_state s = Active \<longrightarrow> ready s"
    "process_begin now est ms s = (until, s')"
  shows "synced until s'" "print_time s' \<le> until" "ready s'" "kept s s'"
    "special_queuing_state s' = (if special_queuing_state s = Drip then Drip else Active)"
proof -
  define s1 where "s1 = resync now est s"
  note r = resync_facts[OF assms(2,3), where now = now and est = est, folded s1_def]
  note q = queue_moves_facts[OF assms(1) r(1,2)]
  have "(until, s') = queue_moves ms (print_time s1) s1"
    using assms(4) by (simp add: process_begin_def s1_def Let_def)
  then have e: "until = fst (queue_moves ms (print_time s1) s1)" "s' = snd (queue_moves ms (print_time s1) s1)"
    by (metis fst_conv, metis snd_conv)
  show "synced until s'" "print_time s' \<le> until" "ready s'" "kept s s'"
    "special_queuing_state s' = (if special_queuing_state s = Drip then Drip else Active)"
    using q r kept_trans[OF r(3) q(4)] by (simp_all add: e) (simp_all add: ready_def kept_def)
qed

lemma process_end_facts:
  assumes "synced until s" "print_time s \<le> until" "ready s"
  defines "s' \<equiv> process_end until s"
  shows "synced (print_time s') s'" "ready s'" "kept s s'" "special_queuing_state s' = special_queuing_state s"
proof -
  note u = update_move_time_facts[OF assms(1,2)]
  show "synced (print_time s') s'" "ready s'" "kept s s'" "special_queuing_state s' = special_queuing_state s"
    using u assms(2,3) by (auto simp: s'_def process_end_def kept_def ready_def synced_def reached_def known_def)
qed

lemma hand_on_core:
  assumes "core_inv d s" "\<forall>m \<in> set (fst r). planned_ok m"
  shows "core_inv d (hand_on now est r s)"
proof (cases "fst r = []")
  case True
  then show ?thesis using assms(1) by (simp add: hand_on_def) (subst core_inv_cong; simp)
next
  case False
  obtain until s1 where p: "process_begin now est (fst r) s = (until, s1)" by force
  have c: "synced (print_time s) s" "special_queuing_state s = Active \<longrightarrow> ready s" "special_queuing_state s = Drip \<longrightarrow> d"
    using assms(1) by (auto simp: core_inv_def)
  note b = process_begin_facts[OF assms(2) c(1,2) p]
  note e = process_end_facts[OF b(1-3)]
  have "core_inv d (process_end until s1)"
    using assms(1) b e c(3) kept_trans[OF b(4) e(3)] by (auto simp: core_inv_def kept_def)
  then show ?thesis using False p by (simp add: hand_on_def process_moves_def) (subst core_inv_cong; simp)
qed

lemma hand_on_queue [simp]: "move_queue (hand_on now est r s) = snd r"
  by (simp add: hand_on_def Let_def)

lemma th_invI: "core_inv False s \<Longrightarrow> queue_wf (move_queue s) \<Longrightarrow> th_inv s"
  by (simp add: th_inv_def)

lemma flush_queue_core:
  assumes "core_inv d s" "queue_wf (move_queue s)"
  shows "core_inv d (flush_queue now est s)" "queue_wf (move_queue (flush_queue now est s))" "queue (move_queue (flush_queue now est s)) = []"
proof -
  obtain ms q where f: "flush False (move_queue s) = (ms, q)" by force
  note w = flush_wf[OF assms(2) f]
  show "core_inv d (flush_queue now est s)"
    using hand_on_core[OF assms(1)] w(2) by (simp add: flush_queue_def f)
  show "queue_wf (move_queue (flush_queue now est s))" "queue (move_queue (flush_queue now est s)) = []"
    using w(1,4) by (simp_all add: flush_queue_def f)
qed

lemma queue_wf_reset [simp]: "queue_wf (reset_queue q)" "queue_wf (set_flush_time t q) = queue_wf q"
  by (simp_all add: queue_wf_def reset_queue_def set_flush_time_def)

lemma flush_step_generation_inv:
  assumes "core_inv d s" "queue_wf (move_queue s)"
  shows "th_inv (flush_step_generation now est s)" "special_queuing_state (flush_step_generation now est s) = Flushed"
    "print_time (flush_step_generation now est s) - kin_flush_delay (flush_step_generation now est s) \<le>
       last_kin_flush_time (flush_step_generation now est s)"
proof -
  define s1 where "s1 = flush_queue now est s"
  note f = flush_queue_core[OF assms, of now est, folded s1_def]
  define ft where "ft = max (last_kin_move_time s1 + kin_flush_delay s1) (print_time s1 - kin_flush_delay s1)"
  define s3 where "s3 = s1\<lparr>special_queuing_state := Flushed, need_check_stall := -1, flush_timer := WakeNever,
     move_queue := set_flush_time (buffer_time_high s1) (move_queue s1), idle_flush_print_time := 0,
     last_kin_flush_time := max (last_kin_flush_time s1) ft\<rparr>"
  have g: "flush_step_generation now est s = update_move_time (max (print_time s3) (last_kin_flush_time s3)) s3"
    by (simp add: flush_step_generation_def s1_def[symmetric] ft_def s3_def Let_def)
  obtain g0 e x where k: "known s1 = (True, g0, e, x)" "e \<le> print_time s1" "x \<le> print_time s1" "reached s1 g0"
    "SDS_CHECK_TIME \<le> kin_flush_delay s1"
    using f(1) by (auto simp: core_inv_def synced_def)
  have "reached s3 g0" using k(4) by (auto simp: reached_def s3_def ft_def)
  then have "core_inv False s3"
    using f(1) k by (auto simp: core_inv_def synced_def known_def s3_def)
  note u = update_move_time_core[OF this, of "max (print_time s3) (last_kin_flush_time s3)"]
  show "th_inv (flush_step_generation now est s)"
    unfolding g using u f(2) by (intro th_invI) (simp_all add: kept_def s3_def)
  show "special_queuing_state (flush_step_generation now est s) = Flushed"
    unfolding g using u(4) by (simp add: s3_def)
  have "0 \<le> kin_flush_delay s1" using k(5) by (simp add: SDS_CHECK_TIME_def)
  then show "print_time (flush_step_generation now est s) - kin_flush_delay (flush_step_generation now est s) \<le>
       last_kin_flush_time (flush_step_generation now est s)"
    unfolding g using u(2,3) by (simp add: kept_def) (simp add: s3_def ft_def max_def)
qed

lemma flush_lookahead_inv:
  assumes "th_inv s"
  shows "th_inv (flush_lookahead now est s)"
  using assms flush_step_generation_inv[of False s] flush_queue_core[of False s]
  by (auto simp: flush_lookahead_def th_inv_def)

lemma get_last_move_time_inv:
  assumes "th_inv s" "get_last_move_time now est s = (t, s')"
  shows "th_inv s'" "print_time s' = t"
proof -
  define s1 where "s1 = flush_lookahead now est s"
  have 1: "th_inv s1" unfolding s1_def by (rule flush_lookahead_inv[OF assms(1)])
  have s': "s' = (if special_queuing_state s1 \<noteq> Active then calc_print_time now est s1 else s1)" "print_time s' = t"
    using assms(2) by (auto simp: get_last_move_time_def s1_def Let_def)
  show "print_time s' = t" by (rule s'(2))
  have "move_queue (calc_print_time now est s1) = move_queue s1"
    using calc_print_time_facts(1)[where s = s1] by (simp add: kept_def)
  then show "th_inv s'" using 1 s'(1) calc_print_time_core[of False s1] by (auto simp: th_inv_def)
qed

text \<open>What only moves between the states of the buffer.\<close>

lemma check_stall_core:
  assumes "core_inv d s"
  shows "core_inv d (snd (check_stall now est s))" "move_queue (snd (check_stall now est s)) = move_queue s"
proof -
  have t: "core_inv d (snd (stall_turn now est s)) \<and> move_queue (snd (stall_turn now est s)) = move_queue s" if "core_inv d s" for s
    using that by (auto simp: stall_turn_def Let_def core_inv_def synced_def reached_def known_def ready_def)
  define s1 where "s1 = (if special_queuing_state s \<noteq> Active then
          (if idle_flush_print_time s \<noteq> 0 then
             s\<lparr>print_stall := (if est < idle_flush_print_time s then print_stall s + 1 else print_stall s), idle_flush_print_time := 0\<rparr>
           else s)
            \<lparr>special_queuing_state := Priming, need_check_stall := -1, flush_timer := WakeAt (now + 1 / 10)\<rparr>
        else s)"
  have "core_inv d s1" "move_queue s1 = move_queue s"
    using assms by (auto simp: s1_def core_inv_def synced_def reached_def known_def ready_def)
  with t[of s1] show "core_inv d (snd (check_stall now est s))" "move_queue (snd (check_stall now est s)) = move_queue s"
    by (simp_all add: check_stall_def s1_def)
qed

lemma stall_turn_inv:
  assumes "th_inv s" shows "th_inv (snd (stall_turn now est s))"
  using assms by (auto simp: stall_turn_def Let_def th_inv_def core_inv_def synced_def reached_def known_def ready_def)

lemma check_stall_inv: "th_inv s \<Longrightarrow> th_inv (snd (check_stall now est s))"
  using check_stall_core[of False s now est] by (simp add: th_inv_def)

lemma flush_handler_inv:
  assumes "th_inv s" shows "th_inv (snd (flush_handler eventtime now est s))"
proof -
  have "th_inv (flush_step_generation now est s)" using assms flush_step_generation_inv[of False] by (simp add: th_inv_def)
  then show ?thesis
    using assms by (auto simp: flush_handler_def Let_def th_inv_def core_inv_def synced_def reached_def known_def ready_def)
qed

lemma set_position_inv:
  assumes "th_inv s" shows "th_inv (set_position now est p s)"
proof -
  have "th_inv (flush_step_generation now est s)" using assms flush_step_generation_inv[of False] by (simp add: th_inv_def)
  then show ?thesis
    by (auto simp: set_position_def Let_def th_inv_def core_inv_def synced_def reached_def known_def ready_def emit_def)
qed

definition check_ok :: "move_check \<Rightarrow> bool" where
  "check_ok chk \<longleftrightarrow> (\<forall>m ls. fresh m \<and> chk m = Inr ls \<longrightarrow> (\<forall>(v, a) \<in> set ls. 0 < v \<and> 0 < a))"

lemma run_check_fresh:
  assumes "check_ok chk" "fresh m" "run_check b chk m = Inr m'"
  shows "fresh m'"
  using assms limit_speeds_fresh[OF assms(2)] by (auto simp: run_check_def check_ok_def rbind_eq_Inr split: if_splits)

lemma th_move_core:
  fixes now est :: real and newpos :: "real list"
  assumes inv: "core_inv d s" "queue_wf (move_queue s)" and chk: "check_ok kin" "check_ok ext" "junction_ok ev2" and spd: "0 < spd"
  defines "s' \<equiv> snd (th_move kin ext ev2 now est newpos spd s)"
  shows "core_inv d s'" "queue_wf (move_queue s')"
proof -
  define m where "m = new_move (lim s) (commanded_pos s) newpos spd"
  define r where "r = rbind (run_check (is_kinematic_move m) kin m) (\<lambda>m1. run_check (axes_d m1 ! 3 \<noteq> 0) ext m1)"
  have "core_inv d s' \<and> queue_wf (move_queue s')"
  proof (cases "move_d m = 0 \<or> (\<exists>e. r = Inl e)")
    case True
    then have "s' = s" by (auto simp: s'_def th_move_def m_def r_def Let_def)
    then show ?thesis using inv by simp
  next
    case False
    then obtain m' where m': "r = Inr m'" by (cases r) auto
    have th: "toolhead_ok (lim s)" using inv(1) by (simp add: core_inv_def)
    have "fresh m" using False new_move_fresh[OF th spd] by (simp add: m_def)
    then have f: "fresh m'"
    proof -
      obtain m1 where "run_check (is_kinematic_move m) kin m = Inr m1" "run_check (axes_d m1 ! 3 \<noteq> 0) ext m1 = Inr m'"
        using m' unfolding r_def rbind_eq_Inr by blast
      with \<open>fresh m\<close> chk(1,2) show ?thesis by (blast intro: run_check_fresh)
    qed
    obtain ms q where a: "add_move (lim s) ev2 m' (move_queue s) = (ms, q)" by force
    have jd: "0 \<le> junction_deviation (lim s)" using th by (simp add: toolhead_ok_def)
    note w = add_move_wf[OF inv(2) f jd chk(3) a]
    define s1 where "s1 = hand_on now est (ms, q) (s\<lparr>commanded_pos := end_pos m'\<rparr>)"
    have "core_inv d (s\<lparr>commanded_pos := end_pos m'\<rparr>)" using inv(1) by (subst core_inv_cong[where s = s]) simp_all
    then have 1: "core_inv d s1" "move_queue s1 = q"
      unfolding s1_def using hand_on_core[of d _ "(ms, q)"] w(2) by simp_all
    have "s' = (if print_time s1 > need_check_stall s1 then snd (check_stall now est s1) else s1)"
      using False m' by (simp add: s'_def th_move_def m_def[symmetric] r_def[symmetric] a s1_def Let_def split: prod.split)
    then show ?thesis using 1 w(1) check_stall_core[OF 1(1)] by simp
  qed
  then show "core_inv d s'" "queue_wf (move_queue s')" by simp_all
qed

lemma dwell_inv:
  assumes "th_inv s" shows "th_inv (snd (dwell now est delay s))"
proof -
  obtain t s1 where g: "get_last_move_time now est s = (t, s1)" by force
  note i = get_last_move_time_inv[OF assms g]
  have "core_inv False s1" "print_time s1 \<le> t + max 0 delay" using i by (simp_all add: th_inv_def)
  note u = update_move_time_core[OF this]
  have "th_inv (update_move_time (t + max 0 delay) s1)"
    using u(1,2) i(1) by (simp add: th_inv_def kept_def)
  then show ?thesis by (simp add: dwell_def g check_stall_inv)
qed

lemma note_step_generation_scan_time_inv:
  assumes "th_inv s" shows "th_inv (snd (note_step_generation_scan_time now est delay old_delay s))"
proof -
  define s1 where "s1 = flush_step_generation now est s"
  have a: "core_inv False s" "queue_wf (move_queue s)" using assms by (simp_all add: th_inv_def)
  note f = flush_step_generation_inv[OF a, of now est, folded s1_def]
  have "core_inv False (s1\<lparr>kin_flush_times := ts, kin_flush_delay := D\<rparr>)" if "SDS_CHECK_TIME \<le> D" for ts D
    using f that by (auto simp: th_inv_def core_inv_def synced_def reached_def known_def)
  moreover have "SDS_CHECK_TIME \<le> Max (set (ts @ [SDS_CHECK_TIME]))" for ts
    by (intro Max_ge) auto
  ultimately show ?thesis
    using f(1) by (auto simp: note_step_generation_scan_time_def s1_def[symmetric] Let_def th_inv_def)
qed

text \<open>Callbacks make no difference to a queue.\<close>

definition uncalled :: "move \<Rightarrow> move" where
  "uncalled m = m\<lparr>timing_callbacks := []\<rparr>"

lemma uncalled_simps [simp]:
  "max_start_v2 (uncalled m) = max_start_v2 m" "max_smoothed_v2 (uncalled m) = max_smoothed_v2 m"
  "delta_v2 (uncalled m) = delta_v2 m" "smooth_delta_v2 (uncalled m) = smooth_delta_v2 m"
  "move_wf (uncalled m) = move_wf m" "times (uncalled m) = times m" "uncalled (m\<lparr>timing_callbacks := cs\<rparr>) = uncalled m"
  by (simp_all add: uncalled_def move_wf_def)

lemma smoothed_uncalled: "smoothed (map uncalled xs) = smoothed xs"
  by (induction xs) simp_all

lemma queue_wf_uncalled: "queue_wf (q\<lparr>queue := map uncalled (queue q)\<rparr>) = queue_wf q"
proof -
  have "chained (map uncalled xs) = chained xs" for xs by (induction xs rule: chained.induct) simp_all
  moreover have "head_free (map uncalled xs) = head_free xs" for xs by (cases xs) (simp_all add: smoothed_uncalled)
  ultimately show ?thesis by (simp add: queue_wf_def)
qed

lemma queue_wf_callbacks:
  assumes "queue_wf q" "map uncalled xs = map uncalled (queue q)"
  shows "queue_wf (q\<lparr>queue := xs\<rparr>)"
  using assms queue_wf_uncalled[of q] queue_wf_uncalled[of "q\<lparr>queue := xs\<rparr>"] by simp

lemma register_lookahead_callback_inv:
  assumes "th_inv s" shows "th_inv (register_lookahead_callback now est cb s)"
proof (cases "queue (move_queue s) = []")
  case True
  obtain t s' where g: "get_last_move_time now est s = (t, s')" by force
  show ?thesis
    using True get_last_move_time_inv(1)[OF assms g]
    by (auto simp: register_lookahead_callback_def g th_inv_def core_inv_def synced_def reached_def known_def ready_def emit_def)
next
  case False
  define q where "q = move_queue s"
  define xs where "xs = butlast (queue q) @ [(last (queue q))\<lparr>timing_callbacks := timing_callbacks (last (queue q)) @ [cb]\<rparr>]"
  have "map uncalled xs = map uncalled (butlast (queue q) @ [last (queue q)])"
    by (simp add: xs_def)
  then have "queue_wf (q\<lparr>queue := xs\<rparr>)"
    using False assms by (intro queue_wf_callbacks) (simp_all add: th_inv_def q_def)
  moreover have "register_lookahead_callback now est cb s = s\<lparr>move_queue := q\<lparr>queue := xs\<rparr>\<rparr>"
    using False by (simp add: register_lookahead_callback_def q_def xs_def Let_def)
  ultimately show ?thesis
    using assms by (simp add: th_inv_def) (subst core_inv_cong[where s = s]; simp)
qed

lemma drip_loop_facts:
  assumes "drip_loop obs until s = Some (r, s')" "synced until s" "print_time s \<le> until" "ready s"
  shows "synced until s'" "print_time s' \<le> until" "ready s'" "kept s s'" "special_queuing_state s' = special_queuing_state s"
proof -
  have "synced until s' \<and> print_time s' \<le> until \<and> ready s' \<and> kept s s' \<and> special_queuing_state s' = special_queuing_state s"
    using assms
  proof (induction obs until s rule: drip_loop.induct)
    case (1 until s)
    then show ?case by (auto simp: kept_def split: if_splits)
  next
    case (2 fired est obs until s)
    show ?case
    proof (cases "print_time s < until \<and> \<not> fired")
      case False
      then show ?thesis using 2(3-) by (auto simp: kept_def split: if_splits)
    next
      case c: True
      define w where "w \<longleftrightarrow> print_time s - est - (DRIP_TIME + move_flush_time s + kin_flush_delay s) > 0 \<and> can_pause s"
      define p where "p = min (print_time s + DRIP_SEGMENT_TIME) until"
      have p: "print_time s \<le> p" "p \<le> until" using c by (auto simp: p_def DRIP_SEGMENT_TIME_def)
      note u = update_move_time_facts[OF 2(4) p(1)]
      have r: "ready (update_move_time p s)" using u(2,3) p(1) 2(6) by (simp add: ready_def kept_def)
      show ?thesis
      proof (cases w)
        case True
        then show ?thesis using c 2(1)[OF _ _ refl] 2(3-) by (auto simp: w_def)
      next
        case False
        then have "drip_loop obs until (update_move_time p s) = Some (r, s')"
          using c 2(3) by (auto simp: w_def p_def)
        from 2(2)[OF _ _ refl _ _ _ _, folded p_def, OF _ _ _ this] c False u p r show ?thesis
          using kept_trans[OF u(3)] by (auto simp: w_def)
      qed
    qed
  qed
  then show "synced until s'" "print_time s' \<le> until" "ready s'" "kept s s'" "special_queuing_state s' = special_queuing_state s"
    by simp_all
qed

lemma drip_move_inv:
  assumes inv: "th_inv s" and chk: "check_ok kin" "check_ok ext" "junction_ok ev2" and spd: "0 < spd"
    and d: "drip_move kin ext ev2 c1 c2 c3 obs newpos spd s = Some (r, s')" and r: "\<forall>e. r = Inl e \<longrightarrow> (\<exists>msg. e = AppError msg)"
  shows "th_inv s'"
proof -
  define s1 where "s1 = flush_queue (fst c1) (snd c1) s"
  define s2 where "s2 = s1\<lparr>special_queuing_state := Drip, need_check_stall := NEVER_TIME, flush_timer := WakeNever,
                  move_queue := set_flush_time (buffer_time_high s1) (move_queue s1), idle_flush_print_time := 0\<rparr>"
  have i: "core_inv False s" "queue_wf (move_queue s)" using inv by (simp_all add: th_inv_def)
  note f = flush_queue_core[OF i, of "fst c1" "snd c1", folded s1_def]
  have 2: "core_inv True s2" "queue_wf (move_queue s2)"
    using f by (auto simp: s2_def core_inv_def synced_def reached_def known_def)
  obtain x s3 where m: "th_move kin ext ev2 (fst c2) (snd c2) newpos spd s2 = (x, s3)" by force
  have 3: "core_inv True s3" "queue_wf (move_queue s3)"
    using th_move_core[OF 2 chk spd, of "fst c2" "snd c2" newpos] m by simp_all
  have fin: "th_inv (flush_step_generation (fst c3) (snd c3) t)" if "core_inv True t" "queue_wf (move_queue t)" for t
    using flush_step_generation_inv(1)[OF that] by simp
  obtain ms q where fl: "flush False (move_queue s3) = (ms, q)" by force
  note w = flush_wf[OF 3(2) fl]
  show ?thesis
  proof (cases x)
    case (Inl e)
    show ?thesis
    proof (cases "\<exists>msg. e = AppError msg")
      case True
      then show ?thesis using d m Inl fin[OF 3] by (auto simp: drip_move_def s1_def s2_def Let_def)
    next
      case False
      then have "r = Inl e" using d m Inl by (auto simp: drip_move_def s1_def s2_def Let_def split: exc.splits)
      then show ?thesis using r False by blast
    qed
  next
    case (Inr y)
    obtain until s4 where p: "process_begin (fst c2) (snd c2) ms s3 = (until, s4)" by force
    show ?thesis
    proof (cases "ms = []")
      case True
      have "core_inv True (s3\<lparr>move_queue := q\<rparr>)" using 3(1) by (subst core_inv_cong[where s = s3]) simp_all
      then show ?thesis using d m Inr fl True w(1) fin by (auto simp: drip_move_def s1_def s2_def Let_def)
    next
      case False
      define dl where "dl = (if special_queuing_state s4 \<noteq> Active then drip_loop obs until s4 else Some (DripReached, s4))"
      have c: "synced (print_time s3) s3" "special_queuing_state s3 = Active \<longrightarrow> ready s3"
        using 3(1) by (auto simp: core_inv_def)
      note b = process_begin_facts[OF w(2) c p]
      have D: "Some (r, s') = (case dl of None \<Rightarrow> None
          | Some (DripReached, s5) \<Rightarrow> Some (Inr (), flush_step_generation (fst c3) (snd c3) ((process_end until s5)\<lparr>move_queue := q\<rparr>))
          | Some (DripEnd, s5) \<Rightarrow> Some (Inr (), flush_step_generation (fst c3) (snd c3)
              (emit [DropMoves] (s5\<lparr>move_queue := reset_queue (move_queue s5)\<rparr>))))"
        using d m Inr fl False p by (simp add: drip_move_def s1_def[symmetric] s2_def[symmetric] Let_def dl_def)
      then obtain o5 s5 where dl: "dl = Some (o5, s5)" by (auto split: option.splits)
      have l: "synced until s5" "print_time s5 \<le> until" "ready s5" "kept s4 s5"
        using dl drip_loop_facts[OF _ b(1-3), of obs o5 s5] b by (auto simp: dl_def kept_def split: if_splits)
      have k: "toolhead_ok (lim s5)" "0 < requested_accel_to_decel s5" "0 < normal_max_velocity s5" "0 < normal_max_accel s5"
        "0 < normal_accel_to_decel s5"
        using 3(1) kept_trans[OF b(4) l(4)] by (auto simp: kept_def core_inv_def)
      show ?thesis
      proof (cases o5)
        case DripReached
        note e = process_end_facts[OF l(1-3)]
        have "core_inv True ((process_end until s5)\<lparr>move_queue := q\<rparr>)"
          using e k by (auto simp: core_inv_def kept_def ready_def synced_def reached_def known_def)
        then show ?thesis using D dl DripReached fin w(1) by simp
      next
        case DripEnd
        obtain g e x where kn: "known s5 = (True, g, e, x)" "reached s5 g" "SDS_CHECK_TIME \<le> kin_flush_delay s5"
          using l(1) by (auto simp: synced_def)
        have "g \<le> print_time s5" using kn(2,3) l(3) by (auto simp: reached_def ready_def SDS_CHECK_TIME_def)
        then have "core_inv True (emit [DropMoves] (s5\<lparr>move_queue := reset_queue (move_queue s5)\<rparr>))"
          using kn k l(3) by (simp add: core_inv_def synced_def) (simp add: known_def reached_def ready_def emit_def)
        then show ?thesis using D dl DripEnd fin by (simp add: emit_def)
      qed
    qed
  qed
qed

lemma with_junction_inv:
  assumes "th_inv s" shows "th_inv (snd (with_junction s))"
proof -
  have "toolhead_ok ((lim s)\<lparr>junction_deviation := v\<^sup>2 * (sqrt 2 - 1) / max_accel (lim s),
      max_accel_to_decel := min (requested_accel_to_decel s) (max_accel (lim s))\<rparr>)" for v
    using assms by (auto simp: th_inv_def core_inv_def toolhead_ok_def)
  then show ?thesis
    using assms by (auto simp: with_junction_def calc_junction_deviation_def th_inv_def core_inv_def synced_def reached_def
        known_def ready_def split: option.split)
qed

text \<open>Setting limits to positive values keeps the invariant.\<close>

lemma th_inv_lim:
  assumes "th_inv s" "toolhead_ok (lim s')" "0 < requested_accel_to_decel s'" "move_queue s' = move_queue s" "trace s' = trace s"
    "last_kin_flush_time s' = last_kin_flush_time s" "print_time s' = print_time s" "kin_flush_delay s' = kin_flush_delay s"
    "special_queuing_state s' = special_queuing_state s"
    "0 < normal_max_velocity s'" "0 < normal_max_accel s'" "0 < normal_accel_to_decel s'"
  shows "th_inv s'"
  using assms synced_cong[OF assms(5-8)] by (auto simp: th_inv_def core_inv_def ready_def)

lemma arg_above_pos: "arg_above 0 x = Inr (Some v) \<Longrightarrow> 0 < v"
  by (cases x) (auto split: if_splits)

lemma set_velocity_limitx_inv:
  assumes "th_inv s" "0 < v" "0 < a" "0 < ad"
  shows "th_inv (snd (set_velocity_limitx v a sc ad s))"
  unfolding set_velocity_limitx_def Let_def
  using assms by (intro with_junction_inv th_inv_lim[OF assms(1)]) (auto simp: th_inv_def core_inv_def toolhead_ok_def)

lemma set_limits_inv:
  assumes "th_inv s" "v \<noteq> Some x \<or> 0 < x"
  shows "v = Some x \<Longrightarrow> th_inv (set_velocity v s)" "v = Some x \<Longrightarrow> th_inv (set_accel v s)"
    "v = Some x \<Longrightarrow> th_inv (set_accel_to_decel v s)"
  using assms by (auto simp: set_velocity_def set_accel_def set_accel_to_decel_def th_inv_def core_inv_def toolhead_ok_def
      synced_def reached_def known_def ready_def)

lemma set_corner_inv: "th_inv s \<Longrightarrow> th_inv (set_corner v s)"
  by (cases v) (auto simp: set_corner_def th_inv_def core_inv_def toolhead_ok_def synced_def reached_def known_def ready_def)

lemma cmd_SET_VELOCITY_LIMIT_inv:
  assumes "th_inv s" shows "th_inv (snd (cmd_SET_VELOCITY_LIMIT V A SC AD s))"
proof -
  have v: "th_inv (set_velocity x s)" "th_inv (set_accel x s)" "th_inv (set_accel_to_decel x s)"
    if "th_inv s" "arg_above 0 y = Inr x" for x y s
    using that arg_above_pos[of y] set_limits_inv[of s x]
    by (cases x; auto simp: set_velocity_def set_accel_def set_accel_to_decel_def)+
  show ?thesis
    unfolding cmd_SET_VELOCITY_LIMIT_def
    using assms
    by (auto split: sum.split prod.split simp: rbind_eq_Inr dest!: arg_cong[where f = snd]
        intro!: with_junction_inv v set_corner_inv
        elim!: subst[where P = "\<lambda>x. th_inv x"])
qed

lemma cmd_M204_inv:
  assumes "th_inv s" shows "th_inv (snd (cmd_M204 S P T s))"
proof -
  have "th_inv (snd (with_junction (s\<lparr>lim := (lim s)\<lparr>max_accel := v\<rparr>\<rparr>)))" if "0 < v" for v
    using assms that
    by (intro with_junction_inv th_inv_lim[OF assms]) (auto simp: th_inv_def core_inv_def toolhead_ok_def)
  then show ?thesis
    using assms by (cases S; cases P; cases T) (auto simp: cmd_M204_def split: sum.split)
qed

lemma cmd_M205_inv:
  assumes "th_inv s" shows "th_inv (snd (cmd_M205 X s))"
proof -
  have "th_inv (s\<lparr>square_corner_velocity := v\<rparr>)" for v
    using assms by (auto simp: th_inv_def core_inv_def synced_def reached_def known_def ready_def)
  then show ?thesis using assms by (auto simp: cmd_M205_def with_junction_inv split: sum.split)
qed

lemma small_ops_inv:
  assumes "th_inv s"
  shows "th_inv (th_handle_shutdown s)" "th_inv (note_kinematic_activity kt s)" "th_inv (set_extruder ep s)"
  using assms
  by (auto simp: th_handle_shutdown_def note_kinematic_activity_def set_extruder_def th_inv_def core_inv_def synced_def
      reached_def known_def ready_def)

lemma new_toolhead_inv:
  assumes "new_toolhead fo c = Inr s" shows "th_inv s"
  using assms
  by (auto simp: new_toolhead_def rbind_eq_Inr getfloat_above_def getfloat_min_def calc_junction_deviation_def th_inv_def core_inv_def
      toolhead_ok_def synced_def reached_def known_def ready_def queue_wf_def new_move_queue_def set_flush_time_def SDS_CHECK_TIME_def split: if_splits)

section \<open>Every state of the toolhead\<close>

text \<open>The states the printer can bring the toolhead to: each rule is a call from outside, with its readings of the clock. A drip
  move goes on until its loop ends; an exception in it that is not a command error shuts the printer down. The limits of the
  silent work mode, which \<open>printer_workmode.py\<close> reads without bounds, are taken to be positive, as speeds are.\<close>

inductive th_reach :: "th \<Rightarrow> bool" where
  created: "new_toolhead fo c = Inr s \<Longrightarrow> th_reach s"
| moved: "th_reach s \<Longrightarrow> check_ok kin \<Longrightarrow> check_ok ext \<Longrightarrow> junction_ok ev2 \<Longrightarrow> 0 < spd \<Longrightarrow>
    th_reach (snd (th_move kin ext ev2 now est newpos spd s))"
| dripped: "th_reach s \<Longrightarrow> check_ok kin \<Longrightarrow> check_ok ext \<Longrightarrow> junction_ok ev2 \<Longrightarrow> 0 < spd \<Longrightarrow>
    drip_move kin ext ev2 c1 c2 c3 obs newpos spd s = Some (r, s') \<Longrightarrow> \<forall>e. r = Inl e \<longrightarrow> (\<exists>msg. e = AppError msg) \<Longrightarrow> th_reach s'"
| dwelled: "th_reach s \<Longrightarrow> th_reach (snd (dwell now est delay s))"
| stalled: "th_reach s \<Longrightarrow> th_reach (snd (stall_turn now est s))"
| timer: "th_reach s \<Longrightarrow> th_reach (snd (flush_handler eventtime now est s))"
| waited: "th_reach s \<Longrightarrow> th_reach (snd (wait_moves now est s))"
| flushed: "th_reach s \<Longrightarrow> th_reach (flush_step_generation now est s)"
| asked: "th_reach s \<Longrightarrow> th_reach (snd (get_last_move_time now est s))"
| positioned: "th_reach s \<Longrightarrow> th_reach (set_position now est newpos s)"
| scanned: "th_reach s \<Longrightarrow> th_reach (snd (note_step_generation_scan_time now est delay old_delay s))"
| called: "th_reach s \<Longrightarrow> th_reach (register_lookahead_callback now est cb s)"
| acted: "th_reach s \<Longrightarrow> th_reach (note_kinematic_activity kin_time s)"
| extruder: "th_reach s \<Longrightarrow> th_reach (set_extruder extrude_pos s)"
| stopped: "th_reach s \<Longrightarrow> th_reach (th_handle_shutdown s)"
| work_mode: "th_reach s \<Longrightarrow> 0 < v \<Longrightarrow> 0 < a \<Longrightarrow> 0 < ad \<Longrightarrow> th_reach (snd (set_velocity_limitx v a sc ad s))"
| limited: "th_reach s \<Longrightarrow> th_reach (snd (cmd_SET_VELOCITY_LIMIT V A SC AD s))"
| accel: "th_reach s \<Longrightarrow> th_reach (snd (cmd_M204 S P T s))"
| jerk: "th_reach s \<Longrightarrow> th_reach (snd (cmd_M205 X s))"

lemma th_reach_inv: "th_reach s \<Longrightarrow> th_inv s"
proof (induction rule: th_reach.induct)
  case (moved s kin ext ev2 spd now est newpos)
  then show ?case
    using th_move_core[of False s kin ext ev2 spd now est newpos] by (simp add: th_inv_def)
next
  case (waited s now est)
  then show ?case by (simp add: wait_moves_def Let_def flush_lookahead_inv)
next
  case (flushed s now est)
  then show ?case using flush_step_generation_inv(1)[of False s] by (simp add: th_inv_def)
next
  case (asked s now est)
  then show ?case using get_last_move_time_inv(1) by (metis prod.collapse)
qed (simp_all add: new_toolhead_inv drip_move_inv dwell_inv stall_turn_inv flush_handler_inv set_position_inv
    note_step_generation_scan_time_inv register_lookahead_callback_inv small_ops_inv set_velocity_limitx_inv
    cmd_SET_VELOCITY_LIMIT_inv cmd_M204_inv cmd_M205_inv)

lemma th_inv_order: "th_inv s \<Longrightarrow> in_order (trace s)"
  by (auto simp: in_order_def th_inv_def core_inv_def synced_def known_def)

section \<open>Properties\<close>

text \<open>C2: Whatever the printer asks of the toolhead, its motion is in order: every segment of the toolhead and every move of the
  extruder is planned, starts no earlier than the one before it ends, and starts at least a millisecond after every time steps
  have been asked for; and steps are never asked for backwards in time. After a drip move that was ended, what was not yet
  stepped is dropped and motion goes on from there.\<close>

theorem motion_in_order:
  assumes "th_reach s"
  shows "in_order (trace s)"
  by (rule th_inv_order[OF th_reach_inv[OF assms]])

definition config1 :: th_config where
  "config1 = \<lparr>c_velocity = 300, c_accel = 3000, c_accel_to_decel = None, c_square_corner = None, c_low = None, c_high = None,
     c_start = None, c_flush_time = None\<rparr>"

definition start1 :: th where
  "start1 = (case new_toolhead False config1 of Inr s \<Rightarrow> s)"

lemma start1_eq: "new_toolhead False config1 = Inr start1"
  by (simp add: start1_def new_toolhead_def config1_def opt_def getfloat_above_def getfloat_min_def calc_junction_deviation_def)

definition queued1 :: th where
  "queued1 = snd (th_move (\<lambda>_. Inr []) (\<lambda>_. Inr []) (\<lambda>_ _. 0) 0 0 [3, 4, 0, 0] 100 start1)"

lemma queued1_reach: "th_reach queued1"
  unfolding queued1_def by (intro th_reach.moved th_reach.created[OF start1_eq]) (simp_all add: check_ok_def junction_ok_def)

lemma check_stall_queue: "move_queue (snd (check_stall now est s)) = move_queue s"
  by (simp add: check_stall_def stall_turn_def Let_def)

lemma queued1_queue: "\<exists>m. queue (move_queue queued1) = [m] \<and> is_kinematic_move m"
proof -
  define m where "m = new_move (lim start1) (commanded_pos start1) [3, 4, 0, 0] 100"
  have s: "commanded_pos start1 = [0, 0, 0, 0]" "queue (move_queue start1) = []"
    by (simp_all add: start1_def new_toolhead_def config1_def opt_def getfloat_above_def getfloat_min_def
        calc_junction_deviation_def new_move_queue_def set_flush_time_def)
  have "sqrt 25 = (5 :: real)" by (rule real_sqrt_unique) simp_all
  then have m: "move_d m = 5" "is_kinematic_move m" by (simp_all add: m_def s new_move_def Let_def)
  have r: "rbind (run_check (is_kinematic_move m) (\<lambda>_. Inr []) m) (\<lambda>m1. run_check (axes_d m1 ! 3 \<noteq> 0) (\<lambda>_. Inr []) m1) = Inr m"
    by (simp add: run_check_def)
  define s1 where "s1 = hand_on 0 0 (add_move (lim start1) (\<lambda>_ _. 0) m (move_queue start1)) (start1\<lparr>commanded_pos := end_pos m\<rparr>)"
  have "queued1 = (if print_time s1 > need_check_stall s1 then snd (check_stall 0 0 s1) else s1)"
    using m(1) by (simp add: queued1_def th_move_def m_def[symmetric] r[unfolded m_def] s1_def[symmetric] r Let_def split: prod.split)
  moreover have "move_queue (if b then snd (check_stall 0 0 s1) else s1) = move_queue s1" for b
    by (simp add: check_stall_queue)
  ultimately have "move_queue queued1 = move_queue s1" by metis
  then show ?thesis using m(2) by (simp add: s1_def add_move_def s(2))
qed

lemma kinematic_unplanned: "unplanned m = unplanned m' \<Longrightarrow> is_kinematic_move m = is_kinematic_move m'"
  by (drule arg_cong[where f = is_kinematic_move]) (simp add: unplanned_def)

lemma update_loop_trace: "set (trace s) \<subseteq> set (trace (update_loop lkft until s))"
proof (induction lkft until s rule: update_loop.induct)
  case (1 lkft until s)
  have "set (trace s) \<subseteq> set (trace (update_batch lkft until s))" by (auto simp: update_batch_def emit_def Let_def)
  then show ?case using 1 by (subst update_loop.simps) (auto simp: Let_def)
qed

lemma flush_step_generation_trace: "set (trace (flush_queue now est s)) \<subseteq> set (trace (flush_step_generation now est s))"
  unfolding flush_step_generation_def Let_def update_move_time_def by (rule order_trans[OF _ update_loop_trace]) simp

lemma queued_segment:
  assumes "th_inv s" "queue (move_queue s) = [m]" "is_kinematic_move m"
  shows "\<exists>t m'. Segment t m' \<in> set (trace (flush_queue now est s))"
proof -
  obtain ms q where f: "flush False (move_queue s) = (ms, q)" by force
  note w = flush_wf[OF _ f]
  have wf: "queue_wf (move_queue s)" and c: "core_inv False s" using assms(1) by (simp_all add: th_inv_def)
  have "same_moves ms [m]" using w(3,4)[OF wf] assms(2) by simp
  then obtain m' where m': "ms = [m']" "unplanned m' = unplanned m" by (auto simp: same_moves_def)
  have k: "is_kinematic_move m'" using kinematic_unplanned[OF m'(2)] assms(3) by simp
  obtain until s1 where p: "process_begin now est ms s = (until, s1)" by force
  have pl: "\<forall>m \<in> set ms. planned_ok m" using w(2)[OF wf] .
  have c': "synced (print_time s) s" "special_queuing_state s = Active \<longrightarrow> ready s" using c by (auto simp: core_inv_def)
  note b = process_begin_facts[OF pl c' p]
  have "Segment (print_time (resync now est s)) m' \<in> set (trace s1)"
    using p k by (auto simp: process_begin_def Let_def m'(1) emit_def move_events_def)
  moreover obtain es where "update_move_time until s1 = emit es (s1\<lparr>print_time := until\<rparr>)"
    using update_move_time_synced(3)[OF b(1,2)] by blast
  ultimately have "Segment (print_time (resync now est s)) m' \<in> set (trace (process_end until s1))"
    by (simp add: process_end_def emit_def)
  then show ?thesis
    using m'(1) p by (auto simp: flush_queue_def f hand_on_def process_moves_def Let_def)
qed

lemma queued1_segment: "\<exists>t m. Segment t m \<in> set (trace (flush_step_generation 0 0 queued1))"
  using queued1_queue queued_segment[OF th_reach_inv[OF queued1_reach]] flush_step_generation_trace[of 0 0 queued1] by fast

theorem motion_in_order_witness:
  "let tr = trace (flush_step_generation 0 0 queued1) in in_order tr \<and> (\<exists>t m. Segment t m \<in> set tr)"
  using motion_in_order[OF th_reach.flushed[OF queued1_reach, of 0 0]] queued1_segment by (simp add: Let_def)

text \<open>A work mode's limits of the speed, the acceleration and the corner speed hold from when they are set for as long as limits are
  only changed by \<open>SET_VELOCITY_LIMIT\<close>, whatever it asks for and whether or not it is refused.\<close>

theorem work_mode_limits_hold:
  "let t = fold (\<lambda>(V, A, SC, AD) t. snd (cmd_SET_VELOCITY_LIMIT V A SC AD t)) cmds (snd (set_velocity_limitx v a sc ad s)) in
     max_velocity (lim t) \<le> v \<and> max_accel (lim t) \<le> a \<and> (\<exists>c. square_corner_velocity t = Some c \<and> c \<le> sc)"
proof -
  define hold :: "th \<Rightarrow> bool" where "hold t \<longleftrightarrow> max_velocity (lim t) \<le> v \<and> max_accel (lim t) \<le> a \<and> limit_max_velocity t = v \<and>
    limit_max_accel t = a \<and> limit_square_corner t = sc \<and> (\<exists>c. square_corner_velocity t = Some c \<and> c \<le> sc)" for t
  have j: "hold (snd (with_junction t))" if "hold t" for t
    using that by (auto simp: hold_def with_junction_def calc_junction_deviation_def)
  have "hold (snd (set_velocity_limitx v a sc ad s))"
    unfolding set_velocity_limitx_def Let_def by (intro j) (simp add: hold_def)
  moreover have sets: "hold (set_accel_to_decel w (set_corner x (set_accel y (set_velocity z t))))" if "hold t" for w x y z t
    using that by (cases w; cases x; cases y; cases z)
      (auto simp: hold_def set_velocity_def set_accel_def set_corner_def set_accel_to_decel_def)
  have "hold (snd (cmd_SET_VELOCITY_LIMIT V A SC AD t))" if "hold t" for V A SC AD t
    using that j[OF sets] unfolding cmd_SET_VELOCITY_LIMIT_def by (auto split: sum.split prod.split dest!: arg_cong[where f = snd])
  then have "hold (fold (\<lambda>(V, A, SC, AD) t. snd (cmd_SET_VELOCITY_LIMIT V A SC AD t)) cmds t)" if "hold t" for t
    using that by (induction cmds arbitrary: t) auto
  ultimately show ?thesis by (simp add: hold_def Let_def)
qed

text \<open>The limit of the acceleration to deceleration has no effect: the junction is computed from the requested value.\<close>

lemma accel_to_decel_limit_ignored:
  "max_accel_to_decel (lim (snd (set_velocity_limitx v a sc ad s))) = min (requested_accel_to_decel s) (min a (normal_max_accel s))"
  by (simp add: set_velocity_limitx_def with_junction_def calc_junction_deviation_def Let_def min_def)

text \<open>\<open>M204\<close> does not look at the limit of the acceleration, and \<open>M205\<close> without \<open>X\<close> leaves no corner speed at all.\<close>

lemma M204_ignores_work_mode:
  assumes "0 < x" "square_corner_velocity s \<noteq> None"
  shows "max_accel (lim (snd (cmd_M204 (Some x) P T s))) = x"
  using assms by (auto simp: cmd_M204_def with_junction_def calc_junction_deviation_def)

lemma M205_without_X: "fst (cmd_M205 None s) = Inl TypeError" "square_corner_velocity (snd (cmd_M205 None s)) = None"
  by (simp_all add: cmd_M205_def with_junction_def calc_junction_deviation_def)

end
