(* ===== verification/MotionShape.thy ===== *)
theory MotionShape
  imports MotionOrder
begin

text \<open>
  Proofs about \<open>ToolHead\<close>: the moves in its motion and in its queue are the ones its commands added, but for what the planner
  decides. So a property of every move that passes the checks is one of all motion.
\<close>

section \<open>Moves without their plan\<close>

definition shape :: "move \<Rightarrow> move" where
  "shape m = m\<lparr>max_start_v2 := 0, max_smoothed_v2 := 0, times := None, timing_callbacks := []\<rparr>"

lemma shape_simps [simp]:
  "start_pos (shape m) = start_pos m" "end_pos (shape m) = end_pos m" "accel (shape m) = accel m" "axes_d (shape m) = axes_d m"
  "axes_r (shape m) = axes_r m" "move_d (shape m) = move_d m" "max_cruise_v2 (shape m) = max_cruise_v2 m"
  "is_kinematic_move (shape m) = is_kinematic_move m" "shape (shape m) = shape m"
  "shape (m\<lparr>timing_callbacks := cs\<rparr>) = shape m" "shape (m\<lparr>max_start_v2 := a, max_smoothed_v2 := b\<rparr>) = shape m"
  by (simp_all add: shape_def)

lemma shape_unplanned [simp]: "shape (unplanned m) = shape m"
  by (simp add: shape_def unplanned_def)

lemma same_shapes: "same_moves xs ys \<Longrightarrow> shape ` set xs = shape ` set ys"
proof -
  assume "same_moves xs ys"
  then have "map shape (map unplanned xs) = map shape (map unplanned ys)" by (simp only: same_moves_def)
  then show ?thesis by (simp add: comp_def) (metis image_set)
qed

lemma shape_calc_junction [simp]: "shape (calc_junction t ev2 p m) = shape m"
  by (simp only: calc_junction_def Let_def if_distrib[where f = shape] shape_simps if_cancel)

text \<open>A flush only plans.\<close>

lemma plan_same [simp]: "same_moves (moves (plan i s c e f)) ys \<longleftrightarrow> same_moves (moves f) ys"
  by (simp add: plan_def)

lemma plan_delayed_same [simp]: "same_moves (moves (plan_delayed ds mc f)) ys \<longleftrightarrow> same_moves (moves f) ys"
  by (induction ds mc f rule: plan_delayed.induct) (simp_all add: Let_def)

lemma flush_loop_same: "same_moves (moves (flush_loop n f)) ys \<longleftrightarrow> same_moves (moves f) ys"
proof (induction n f rule: flush_loop.induct)
  case (2 n f)
  have "same_moves (moves (flush_peak i m a b g)) ys \<longleftrightarrow> same_moves (moves g) ys" for i m a b g
    by (simp add: flush_peak_def Let_def)
  then have "same_moves (moves (flush_turn n f)) ys \<longleftrightarrow> same_moves (moves f) ys" by (simp add: flush_turn_def Let_def)
  then show ?case using 2 by simp
qed simp

lemma flush_shapes:
  assumes "flush lazy q = (ms, q')" shows "shape ` (set ms \<union> set (queue q')) = shape ` set (queue q)"
proof -
  define f where "f = flush_loop (length (queue q)) \<lparr>next_end_v2 = 0, next_smoothed_v2 = 0, peak_cruise_v2 = 0,
    flush_count = length (queue q), update_flush_count = lazy, delayed = [], moves = queue q\<rparr>"
  have "same_moves (moves f) (queue q)" by (simp add: f_def flush_loop_same)
  then have "shape ` set (moves f) = shape ` set (queue q)" by (rule same_shapes)
  moreover have "set ms \<union> set (queue q') = set (moves f)"
  proof -
    have "(ms, q') = (if update_flush_count f \<or> flush_count f = 0
        then ([], q\<lparr>junction_flush := LOOKAHEAD_FLUSH_TIME, queue := moves f\<rparr>)
        else (take (flush_count f) (moves f), q\<lparr>junction_flush := LOOKAHEAD_FLUSH_TIME, queue := drop (flush_count f) (moves f)\<rparr>))"
      using assms by (simp only: flush_def f_def[symmetric] Let_def)
    moreover have "set (take n xs) \<union> set (drop n xs) = set xs" for n and xs :: "move list"
      by (metis append_take_drop_id set_append)
    ultimately show ?thesis by (simp split: if_splits)
  qed
  ultimately show ?thesis by simp
qed

lemma add_move_shapes:
  assumes "add_move t ev2 m q = (ms, q')" shows "shape ` (set ms \<union> set (queue q')) \<subseteq> insert (shape m) (shape ` set (queue q))"
  using assms flush_shapes[of True _ ms q'] by (auto simp: add_move_def Let_def split: if_splits)

section \<open>The moves of a state\<close>

definition moves_of :: "motion list \<Rightarrow> move set" where
  "moves_of tr = {m. \<exists>t. Segment t m \<in> set tr \<or> Extrude t m \<in> set tr}"

definition carried :: "th \<Rightarrow> move set" where
  "carried s = shape ` (moves_of (trace s) \<union> set (queue (move_queue s)))"

lemma moves_of_append [simp]: "moves_of (xs @ ys) = moves_of xs \<union> moves_of ys"
  by (auto simp: moves_of_def)

lemma moves_of_events: "moves_of (move_events t m) \<subseteq> {m}"
  by (auto simp: moves_of_def move_events_def)

text \<open>Two states with the same trace and queue.\<close>

definition same_motion :: "th \<Rightarrow> th \<Rightarrow> bool" where
  "same_motion s s' \<longleftrightarrow> moves_of (trace s') = moves_of (trace s) \<and> move_queue s' = move_queue s"

lemma update_loop_motion: "same_motion s (update_loop lkft until s)"
proof (induction lkft until s rule: update_loop.induct)
  case (1 lkft until s)
  have "same_motion s (update_batch lkft until s)" by (simp add: same_motion_def update_batch_def emit_def Let_def moves_of_def)
  then show ?case using 1 by (subst update_loop.simps) (auto simp: Let_def same_motion_def)
qed

lemma update_move_time_motion [simp]:
  "moves_of (trace (update_move_time until s)) = moves_of (trace s)" "move_queue (update_move_time until s) = move_queue s"
  using update_loop_motion by (simp_all add: update_move_time_def same_motion_def)

lemma emit_moves [simp]: "moves_of (trace (emit es s)) = moves_of (trace s) \<union> moves_of es" "move_queue (emit es s) = move_queue s"
  by (simp_all add: emit_def)

lemma moves_of_other [simp]:
  "moves_of [] = {}" "moves_of (Callback c t # es) = moves_of es" "moves_of (SyncPrintTime a b d # es) = moves_of es"
  "moves_of (SetPosition t p # es) = moves_of es" "moves_of (DropMoves # es) = moves_of es"
  by (auto simp: moves_of_def)

lemma calc_print_time_motion [simp]:
  "moves_of (trace (calc_print_time now est s)) = moves_of (trace s)" "move_queue (calc_print_time now est s) = move_queue s"
  by (simp_all add: calc_print_time_def Let_def)

lemma resync_motion [simp]:
  "moves_of (trace (resync now est s)) = moves_of (trace s)" "move_queue (resync now est s) = move_queue s"
  by (simp_all add: resync_def)

lemma queue_moves_motion:
  "queue_moves ms t s = (u, s') \<Longrightarrow> moves_of (trace s') \<subseteq> moves_of (trace s) \<union> set ms \<and> move_queue s' = move_queue s"
proof (induction ms t s rule: queue_moves.induct)
  case (2 m ms t s)
  then show ?case using moves_of_events[of t m] by auto
qed simp

lemma process_begin_motion:
  "process_begin now est ms s = (u, s') \<Longrightarrow> moves_of (trace s') \<subseteq> moves_of (trace s) \<union> set ms \<and> move_queue s' = move_queue s"
  using queue_moves_motion[of ms _ "resync now est s" u s'] by (simp add: process_begin_def Let_def)

lemma process_end_motion [simp]:
  "moves_of (trace (process_end u s)) = moves_of (trace s)" "move_queue (process_end u s) = move_queue s"
  by (simp_all add: process_end_def)

lemma hand_on_carried:
  "carried (hand_on now est (ms, q) s) \<subseteq> shape ` (moves_of (trace s) \<union> set ms \<union> set (queue q))"
proof -
  obtain u s1 where p: "process_begin now est ms s = (u, s1)" by force
  have "moves_of (trace (hand_on now est (ms, q) s)) \<subseteq> moves_of (trace s) \<union> set ms"
    using process_begin_motion[OF p] by (simp add: hand_on_def Let_def process_moves_def p)
  then show ?thesis by (auto simp: carried_def)
qed

lemma flush_queue_carried: "carried (flush_queue now est s) \<subseteq> carried s"
proof -
  obtain ms q where f: "flush False (move_queue s) = (ms, q)" by force
  show ?thesis
    using hand_on_carried[of now est ms q s] flush_shapes[OF f] unfolding flush_queue_def f carried_def[of s] image_Un by blast
qed

lemma carried_cong: "trace s' = trace s \<Longrightarrow> queue (move_queue s') = queue (move_queue s) \<Longrightarrow> carried s' = carried s"
  by (simp add: carried_def)

lemma update_move_time_carried [simp]: "carried (update_move_time until s) = carried s"
  by (simp add: carried_def)

lemma calc_print_time_carried [simp]: "carried (calc_print_time now est s) = carried s"
  by (simp add: carried_def)

lemma flush_step_generation_carried: "carried (flush_step_generation now est s) \<subseteq> carried s"
proof -
  have "carried (flush_step_generation now est s) = carried (flush_queue now est s)"
    by (simp add: flush_step_generation_def Let_def) (rule carried_cong; simp add: set_flush_time_def)
  then show ?thesis using flush_queue_carried by simp
qed

lemma flush_lookahead_carried: "carried (flush_lookahead now est s) \<subseteq> carried s"
  by (simp add: flush_lookahead_def flush_queue_carried flush_step_generation_carried)

lemma get_last_move_time_carried: "carried (snd (get_last_move_time now est s)) \<subseteq> carried s"
  using flush_lookahead_carried by (simp add: get_last_move_time_def Let_def)

lemma check_stall_carried [simp]: "carried (snd (stall_turn now est s)) = carried s" "carried (snd (check_stall now est s)) = carried s"
  by (auto simp: carried_def stall_turn_def check_stall_def Let_def)

lemma flush_handler_carried: "carried (snd (flush_handler et now est s)) \<subseteq> carried s"
  using flush_step_generation_carried[of now est s] by (auto simp: flush_handler_def Let_def carried_def)

lemma dwell_carried: "carried (snd (dwell now est d s)) \<subseteq> carried s"
  using get_last_move_time_carried[of now est s] by (cases "get_last_move_time now est s") (simp add: dwell_def)

lemma wait_moves_carried: "carried (snd (wait_moves now est s)) \<subseteq> carried s"
  by (simp add: wait_moves_def Let_def flush_lookahead_carried)

lemma set_position_carried: "carried (set_position now est p s) \<subseteq> carried s"
  using flush_step_generation_carried[of now est s] by (simp add: set_position_def Let_def carried_def)

lemma note_scan_time_carried: "carried (snd (note_step_generation_scan_time now est d od s)) \<subseteq> carried s"
  using flush_step_generation_carried[of now est s] by (auto simp: note_step_generation_scan_time_def Let_def carried_def)

lemma register_lookahead_callback_carried: "carried (register_lookahead_callback now est cb s) \<subseteq> carried s"
proof (cases "queue (move_queue s) = []")
  case True
  obtain t s' where g: "get_last_move_time now est s = (t, s')" by force
  show ?thesis using True get_last_move_time_carried[of now est s] by (simp add: register_lookahead_callback_def g carried_def)
next
  case False
  have "shape ` set (butlast xs @ [(last xs)\<lparr>timing_callbacks := cs\<rparr>]) \<subseteq> shape ` set xs" if "xs \<noteq> []" for xs cs
  proof -
    have "shape ` set (butlast xs) \<subseteq> shape ` set xs" by (auto dest: in_set_butlastD)
    moreover have "shape (last xs) \<in> shape ` set xs" using that by simp
    ultimately show ?thesis by simp
  qed
  then show ?thesis using False by (auto simp: register_lookahead_callback_def Let_def carried_def)
qed

lemma small_carried [simp]: "carried (set_extruder e s) = carried s" "carried (note_kinematic_activity t s) = carried s"
  "carried (th_handle_shutdown s) \<subseteq> carried s"
  by (auto simp: carried_def set_extruder_def note_kinematic_activity_def th_handle_shutdown_def reset_queue_def)

lemma with_junction_carried [simp]: "carried (snd (with_junction s)) = carried s"
  by (auto simp: with_junction_def calc_junction_deviation_def carried_def split: option.splits)

lemma limits_carried [simp]:
  "carried (snd (set_velocity_limitx v a sc ad s)) = carried s" "carried (snd (cmd_M204 S P T s)) = carried s"
  "carried (snd (cmd_M205 X s)) = carried s" "carried (snd (cmd_SET_VELOCITY_LIMIT V A SC AD s)) = carried s"
proof -
  have c: "carried (s\<lparr>lim := l\<rparr>) = carried s" "carried (s\<lparr>square_corner_velocity := x\<rparr>) = carried s" for l x s by (simp_all add: carried_def)
  show "carried (snd (set_velocity_limitx v a sc ad s)) = carried s" by (simp add: set_velocity_limitx_def Let_def) (simp add: carried_def)
  show "carried (snd (cmd_M204 S P T s)) = carried s" by (auto simp: cmd_M204_def c split: sum.split option.split)
  show "carried (snd (cmd_M205 X s)) = carried s" by (auto simp: cmd_M205_def c split: sum.split)
  have "carried (set_accel_to_decel w (set_corner x (set_accel y (set_velocity z s)))) = carried s" for w x y z
    by (cases w; cases x; cases y; cases z) (simp_all add: set_velocity_def set_accel_def set_corner_def set_accel_to_decel_def carried_def)
  then show "carried (snd (cmd_SET_VELOCITY_LIMIT V A SC AD s)) = carried s"
    using with_junction_carried unfolding cmd_SET_VELOCITY_LIMIT_def by (auto split: sum.split prod.split dest!: arg_cong[where f = snd])
qed

lemma new_toolhead_carried: "new_toolhead fo c = Inr s \<Longrightarrow> carried s = {}"
  by (auto simp: new_toolhead_def rbind_eq_Inr calc_junction_deviation_def carried_def moves_of_def set_flush_time_def new_move_queue_def)

section \<open>Moves that are added\<close>

text \<open>The move a command adds, if its checks accept it.\<close>

definition accepted :: "move_check \<Rightarrow> move_check \<Rightarrow> real list \<Rightarrow> real \<Rightarrow> th \<Rightarrow> move res" where
  "accepted kin ext newpos spd s =
     (let m = new_move (lim s) (commanded_pos s) newpos spd
      in rbind (run_check (is_kinematic_move m) kin m) (\<lambda>m1. run_check (axes_d m1 ! 3 \<noteq> 0) ext m1))"

lemma th_move_carried:
  "carried (snd (th_move kin ext ev2 now est newpos spd s)) \<subseteq>
     carried s \<union> (case accepted kin ext newpos spd s of Inl e \<Rightarrow> {} | Inr m \<Rightarrow> {shape m})"
proof (cases "move_d (new_move (lim s) (commanded_pos s) newpos spd) = 0 \<or> (\<exists>e. accepted kin ext newpos spd s = Inl e)")
  case True
  then show ?thesis by (auto simp: th_move_def accepted_def Let_def)
next
  case False
  then obtain m where m: "accepted kin ext newpos spd s = Inr m" by (cases "accepted kin ext newpos spd s") auto
  obtain ms q where a: "add_move (lim s) ev2 m (move_queue s) = (ms, q)" by force
  define s1 where "s1 = hand_on now est (ms, q) (s\<lparr>commanded_pos := end_pos m\<rparr>)"
  have "snd (th_move kin ext ev2 now est newpos spd s) = s1 \<or> snd (th_move kin ext ev2 now est newpos spd s) = snd (check_stall now est s1)"
    using False m by (simp add: th_move_def accepted_def Let_def a s1_def split: prod.split)
  then have "carried (snd (th_move kin ext ev2 now est newpos spd s)) = carried s1" by auto
  also have "\<dots> \<subseteq> shape ` (moves_of (trace s) \<union> set ms \<union> set (queue q))"
    unfolding s1_def using hand_on_carried[of now est ms q "s\<lparr>commanded_pos := end_pos m\<rparr>"] by simp
  also have "\<dots> \<subseteq> insert (shape m) (carried s)"
    using add_move_shapes[OF a] unfolding carried_def image_Un by blast
  finally show ?thesis using m by simp
qed

lemma drip_loop_motion:
  "drip_loop obs until s = Some (r, s') \<Longrightarrow> moves_of (trace s') = moves_of (trace s) \<and> move_queue s' = move_queue s"
  by (induction obs until s rule: drip_loop.induct) (auto simp: Let_def split: if_splits)

section \<open>The commanded position\<close>

text \<open>Only moves and \<open>set_position\<close> change it; only the limit commands change the limits of a new move, and only
  \<open>note_step_generation_scan_time\<close> the delays of the step generation.\<close>

definition stays :: "th \<Rightarrow> th \<Rightarrow> bool" where
  "stays s s' \<longleftrightarrow> commanded_pos s' = commanded_pos s \<and> lim s' = lim s \<and> kin_flush_times s' = kin_flush_times s \<and>
     kin_flush_delay s' = kin_flush_delay s"

lemma stays_refl [simp]: "stays s s"
  by (simp add: stays_def)

lemma stays_trans: "stays s s' \<Longrightarrow> stays s' s'' \<Longrightarrow> stays s s''"
  by (simp add: stays_def)

lemma stays_emit [simp]: "stays s (emit es s') \<longleftrightarrow> stays s s'"
  by (simp add: stays_def emit_def)

lemma update_move_time_stays [simp]: "stays s (update_move_time until s') \<longleftrightarrow> stays s s'"
proof -
  have "stays s (update_loop lkft until s') \<longleftrightarrow> stays s s'" for lkft
  proof (induction lkft until s' rule: update_loop.induct)
    case (1 lkft until s')
    have "stays s (update_batch lkft until s') \<longleftrightarrow> stays s s'" by (simp add: update_batch_def Let_def stays_def emit_def)
    then show ?case using 1 by (subst update_loop.simps) (simp add: Let_def)
  qed
  then show ?thesis by (simp add: update_move_time_def)
qed

lemma stays_fields [simp]:
  "stays s (s'\<lparr>print_time := a\<rparr>) \<longleftrightarrow> stays s s'" "stays s (s'\<lparr>special_queuing_state := b, need_check_stall := c, flush_timer := d\<rparr>) \<longleftrightarrow> stays s s'"
  "stays s (s'\<lparr>last_kin_move_time := a\<rparr>) \<longleftrightarrow> stays s s'" "stays s (s'\<lparr>move_queue := q\<rparr>) \<longleftrightarrow> stays s s'"
  "stays s (s'\<lparr>last_kin_flush_time := a\<rparr>) \<longleftrightarrow> stays s s'" "stays s (s'\<lparr>need_check_stall := a\<rparr>) \<longleftrightarrow> stays s s'"
  "stays s (s'\<lparr>idle_flush_print_time := a\<rparr>) \<longleftrightarrow> stays s s'" "stays s (s'\<lparr>flush_timer := d\<rparr>) \<longleftrightarrow> stays s s'"
  "stays s (s'\<lparr>special_queuing_state := b\<rparr>) \<longleftrightarrow> stays s s'" "stays s (s'\<lparr>print_stall := n\<rparr>) \<longleftrightarrow> stays s s'"
  "stays s (s'\<lparr>can_pause := p\<rparr>) \<longleftrightarrow> stays s s'"
  by (simp_all add: stays_def)

lemma calc_print_time_stays [simp]: "stays s (calc_print_time now est s') \<longleftrightarrow> stays s s'"
  by (simp add: calc_print_time_def Let_def)

lemma resync_stays [simp]: "stays s (resync now est s') \<longleftrightarrow> stays s s'"
  by (simp add: resync_def)

lemma queue_moves_stays: "queue_moves ms t s' = (u, s'') \<Longrightarrow> stays s s'' \<longleftrightarrow> stays s s'"
  by (induction ms t s' rule: queue_moves.induct) auto

lemma process_begin_stays: "process_begin now est ms s' = (u, s'') \<Longrightarrow> stays s s'' \<longleftrightarrow> stays s s'"
  using queue_moves_stays[of ms _ "resync now est s'" u s''] by (simp add: process_begin_def Let_def)

lemma process_end_stays [simp]: "stays s (process_end u s') \<longleftrightarrow> stays s s'"
  by (simp add: process_end_def)

lemma hand_on_stays [simp]: "stays s (hand_on now est r s') \<longleftrightarrow> stays s s'"
proof -
  obtain u s1 where p: "process_begin now est (fst r) s' = (u, s1)" by force
  show ?thesis using process_begin_stays[OF p] by (simp add: hand_on_def Let_def process_moves_def p)
qed

lemma flush_stays [simp]:
  "stays s (flush_queue now est s') \<longleftrightarrow> stays s s'" "stays s (flush_step_generation now est s') \<longleftrightarrow> stays s s'"
  "stays s (flush_lookahead now est s') \<longleftrightarrow> stays s s'"
  by (simp_all add: flush_queue_def flush_step_generation_def flush_lookahead_def Let_def)

lemma calls_stay [simp]:
  "stays s (snd (get_last_move_time now est s)) " "stays s (snd (stall_turn now est s))" "stays s (snd (check_stall now est s))"
  "stays s (snd (flush_handler et now est s))" "stays s (snd (wait_moves now est s))" "stays s (note_kinematic_activity t s)"
  "stays s (th_handle_shutdown s)"
proof -
  show "stays s (snd (get_last_move_time now est s)) " "stays s (snd (stall_turn now est s))" "stays s (snd (check_stall now est s))"
    "stays s (snd (flush_handler et now est s))" "stays s (snd (wait_moves now est s))" "stays s (note_kinematic_activity t s)"
    "stays s (th_handle_shutdown s)"
    by (simp_all add: get_last_move_time_def stall_turn_def check_stall_def flush_handler_def wait_moves_def note_kinematic_activity_def
        th_handle_shutdown_def Let_def)
qed

lemma note_scan_time_commanded [simp]: "commanded_pos (snd (note_step_generation_scan_time now est d od s)) = commanded_pos s"
  using flush_stays(2)[of s now est s] by (simp add: note_step_generation_scan_time_def Let_def stays_def)

lemma dwell_stays [simp]: "stays s (snd (dwell now est d s))"
proof -
  obtain t s1 where g: "get_last_move_time now est s = (t, s1)" by force
  have "stays s s1" using calls_stay(1)[of s now est] by (simp add: g)
  then have "stays s (update_move_time u s1)" for u by simp
  then show ?thesis using stays_trans[OF _ calls_stay(3)] by (simp add: dwell_def g)
qed

lemma register_lookahead_callback_stays [simp]: "stays s (register_lookahead_callback now est cb s)"
  using calls_stay(1)[of s now est]
  by (cases "get_last_move_time now est s") (simp add: register_lookahead_callback_def Let_def)

lemma limits_commanded [simp]:
  "commanded_pos (snd (set_velocity_limitx v a sc ad s)) = commanded_pos s" "commanded_pos (snd (cmd_M204 S P T s)) = commanded_pos s"
  "commanded_pos (snd (cmd_M205 X s)) = commanded_pos s" "commanded_pos (snd (cmd_SET_VELOCITY_LIMIT V A SC AD s)) = commanded_pos s"
proof -
  have w: "commanded_pos (snd (with_junction s)) = commanded_pos s" for s
    by (auto simp: with_junction_def calc_junction_deviation_def split: option.splits)
  show "commanded_pos (snd (set_velocity_limitx v a sc ad s)) = commanded_pos s" by (simp add: set_velocity_limitx_def Let_def w)
  show "commanded_pos (snd (cmd_M204 S P T s)) = commanded_pos s" by (auto simp: cmd_M204_def w split: sum.split option.split)
  show "commanded_pos (snd (cmd_M205 X s)) = commanded_pos s" by (auto simp: cmd_M205_def w split: sum.split)
  have "commanded_pos (set_accel_to_decel u (set_corner x (set_accel y (set_velocity z s)))) = commanded_pos s" for u x y z
    by (cases u; cases x; cases y; cases z) (simp_all add: set_velocity_def set_accel_def set_corner_def set_accel_to_decel_def)
  then show "commanded_pos (snd (cmd_SET_VELOCITY_LIMIT V A SC AD s)) = commanded_pos s"
    using w unfolding cmd_SET_VELOCITY_LIMIT_def by (auto split: sum.split prod.split dest!: arg_cong[where f = snd])
qed

text \<open>A move command ends at the position of the move, if its checks accept it.\<close>

lemma th_move_commanded:
  assumes "move_d (new_move (lim s) (commanded_pos s) newpos spd) \<noteq> 0"
  shows "commanded_pos (snd (th_move kin ext ev2 now est newpos spd s)) =
    (case accepted kin ext newpos spd s of Inl e \<Rightarrow> commanded_pos s | Inr m \<Rightarrow> end_pos m)"
proof (cases "accepted kin ext newpos spd s")
  case (Inl e)
  then show ?thesis using assms by (simp add: th_move_def accepted_def Let_def)
next
  case (Inr m)
  define s0 where "s0 = s\<lparr>commanded_pos := end_pos m\<rparr>"
  define s1 where "s1 = hand_on now est (add_move (lim s) ev2 m (move_queue s)) s0"
  have "stays s0 s1" by (simp add: s1_def)
  then have "stays s0 (snd (check_stall now est s1))" using stays_trans calls_stay(3) by blast
  moreover have "snd (th_move kin ext ev2 now est newpos spd s) = s1 \<or> snd (th_move kin ext ev2 now est newpos spd s) = snd (check_stall now est s1)"
    using Inr assms by (simp add: th_move_def accepted_def Let_def s1_def s0_def split: prod.split)
  ultimately show ?thesis using \<open>stays s0 s1\<close> Inr by (auto simp: stays_def s0_def)
qed

lemma th_move_still: "move_d (new_move (lim s) (commanded_pos s) newpos spd) = 0 \<Longrightarrow> snd (th_move kin ext ev2 now est newpos spd s) = s"
  by (simp add: th_move_def)

text \<open>A drip move ends where its move ends, whether or not it was stopped before.\<close>

lemma drip_move_carried:
  assumes d: "drip_move kin ext ev2 c1 c2 c3 obs newpos spd s = Some (r, s')"
  obtains t where "stays s t" "carried t \<subseteq> carried s" "stays (snd (th_move kin ext ev2 (fst c2) (snd c2) newpos spd t)) s'"
    "carried s' \<subseteq> carried (snd (th_move kin ext ev2 (fst c2) (snd c2) newpos spd t))"
proof -
  define s1 where "s1 = flush_queue (fst c1) (snd c1) s"
  define s2 where "s2 = s1\<lparr>special_queuing_state := Drip, need_check_stall := NEVER_TIME, flush_timer := WakeNever,
                  move_queue := set_flush_time (buffer_time_high s1) (move_queue s1), idle_flush_print_time := 0\<rparr>"
  have 2: "stays s s2" "carried s2 \<subseteq> carried s"
    using flush_queue_carried[of "fst c1" "snd c1" s] by (auto simp: s2_def s1_def carried_def set_flush_time_def)
  obtain x s3 where m: "th_move kin ext ev2 (fst c2) (snd c2) newpos spd s2 = (x, s3)" by force
  have fin: "stays s3 (flush_step_generation (fst c3) (snd c3) t)" "carried (flush_step_generation (fst c3) (snd c3) t) \<subseteq> carried s3"
    if "stays s3 t" "carried t \<subseteq> carried s3" for t
    using that flush_step_generation_carried[of "fst c3" "snd c3" t] by auto
  obtain ms q where fl: "flush False (move_queue s3) = (ms, q)" by force
  have fs: "shape ` set ms \<subseteq> carried s3" "shape ` set (queue q) \<subseteq> carried s3"
    using flush_shapes[OF fl] by (auto simp: carried_def)
  obtain until s4 where p: "process_begin (fst c2) (snd c2) ms s3 = (until, s4)" by force
  have 4: "stays s3 s4" "shape ` moves_of (trace s4) \<subseteq> carried s3" "move_queue s4 = move_queue s3"
  proof -
    have "shape ` moves_of (trace s4) \<subseteq> shape ` moves_of (trace s3) \<union> shape ` set ms"
      unfolding image_Un[symmetric] using process_begin_motion[OF p] by (intro image_mono) simp
    then show "shape ` moves_of (trace s4) \<subseteq> carried s3" using fs(1) unfolding carried_def image_Un by blast
  qed (use process_begin_stays[OF p, of s3] process_begin_motion[OF p] in simp_all)
  have "stays s3 s' \<and> carried s' \<subseteq> carried s3"
  proof (cases x)
    case (Inl e)
    then show ?thesis
      using d m fin[of s3] by (auto simp: drip_move_def s1_def s2_def Let_def split: exc.splits)
  next
    case (Inr y)
    show ?thesis
    proof (cases "ms = []")
      case True
      have "stays s3 (s3\<lparr>move_queue := q\<rparr>)" "carried (s3\<lparr>move_queue := q\<rparr>) \<subseteq> carried s3" using fs by (auto simp: carried_def)
      from fin[OF this] show ?thesis using d m Inr fl True by (auto simp: drip_move_def s1_def s2_def Let_def)
    next
      case False
      define dl where "dl = (if special_queuing_state s4 \<noteq> Active then drip_loop obs until s4 else Some (DripReached, s4))"
      have D: "Some (r, s') = (case dl of None \<Rightarrow> None
          | Some (DripReached, s5) \<Rightarrow> Some (Inr (), flush_step_generation (fst c3) (snd c3) ((process_end until s5)\<lparr>move_queue := q\<rparr>))
          | Some (DripEnd, s5) \<Rightarrow> Some (Inr (), flush_step_generation (fst c3) (snd c3)
              (emit [DropMoves] (s5\<lparr>move_queue := reset_queue (move_queue s5)\<rparr>))))"
        using d m Inr fl False p by (simp add: drip_move_def s1_def[symmetric] s2_def[symmetric] Let_def dl_def)
      then obtain o5 s5 where dl: "dl = Some (o5, s5)" by (auto split: option.splits)
      have ds: "drip_loop obs u s4 = Some (o5, s5) \<Longrightarrow> stays s3 s5 \<longleftrightarrow> stays s3 s4" for u
        by (induction obs u s4 rule: drip_loop.induct) (auto simp: Let_def split: if_splits)
      have 5: "stays s3 s5" "shape ` moves_of (trace s5) \<subseteq> carried s3"
        using dl 4(1,2) drip_loop_motion[of obs until s4 o5 s5] ds[of until] by (auto simp: dl_def split: if_splits)
      have "stays s3 ((process_end until s5)\<lparr>move_queue := q\<rparr>)" "carried ((process_end until s5)\<lparr>move_queue := q\<rparr>) \<subseteq> carried s3"
        "stays s3 (emit [DropMoves] (s5\<lparr>move_queue := reset_queue (move_queue s5)\<rparr>))"
        "carried (emit [DropMoves] (s5\<lparr>move_queue := reset_queue (move_queue s5)\<rparr>)) \<subseteq> carried s3"
        using 5 fs by (auto simp: carried_def reset_queue_def)
      then show ?thesis using D dl fin by (cases o5) auto
    qed
  qed
  then show thesis using that[OF 2] m by simp
qed

end
