(* ===== verification/Extruder.thy ===== *)
theory Extruder
  imports MotionShape ConfigWrapper PyStrings "HOL-Library.Multiset"
begin

text \<open>
  \<open>klippy/kinematics/extruder.py\<close>: extruders, their steppers with pressure advance, and the commands that select and heat them.

  Whether the heater can extrude is an argument of the check of a move; the heaters themselves are in the theory \<open>Heaters\<close>. A
  stepper is what the source reads back of it; the trapezoidal motion queue it follows is named by its extruder. Registering commands,
  statistics and messages are left out.
\<close>

section \<open>State\<close>

record estepper =
  es_name :: string
  pressure_advance :: real
  pa_smooth_time :: real
  es_trapq :: "string option"
  es_position :: real
  rotation_dist :: real
  steps_per_rotation :: real
  invert_dir :: bool
  orig_invert_dir :: bool

record extruder =
  e_name :: string
  last_position :: real
  nozzle_diameter :: real
  filament_area :: real
  max_extrude_ratio :: real
  max_e_velocity :: real
  max_e_accel :: real
  max_e_dist :: real
  instant_corner_v :: real
  extruder_stepper :: "estepper option"

record extruder_config =
  c_nozzle :: "real option_value"
  c_filament :: "real option_value"
  c_cross_section :: "real option_value"
  c_e_velocity :: "real option_value"
  c_e_accel :: "real option_value"
  c_e_dist :: "real option_value"
  c_corner_v :: "real option_value"
  c_pressure_advance :: "real option_value"
  c_pa_smooth_time :: "real option_value"
  c_stepper :: "estepper option"

text \<open>The stepper that is read from the configuration starts without pressure advance.\<close>

definition new_estepper :: "string \<Rightarrow> real \<Rightarrow> real \<Rightarrow> bool \<Rightarrow> estepper" where
  "new_estepper n rd spr dir = \<lparr>es_name = n, pressure_advance = 0, pa_smooth_time = 0, es_trapq = None, es_position = 0,
     rotation_dist = rd, steps_per_rotation = spr, invert_dir = dir, orig_invert_dir = dir\<rparr>"

section \<open>Pressure advance\<close>

text \<open>The time before and after a step that its generation looks at.\<close>

definition smooth_in_use :: "real \<Rightarrow> real \<Rightarrow> real" where
  "smooth_in_use pa smooth = (if pa = 0 then 0 else smooth)"

text \<open>The two delays are those of \<open>note_step_generation_scan_time\<close>: the new and the old one.\<close>

definition set_pressure_advance :: "real \<Rightarrow> real \<Rightarrow> estepper \<Rightarrow> (real \<times> real) \<times> estepper" where
  "set_pressure_advance pa smooth es =
     ((smooth_in_use pa smooth * (1 / 2), smooth_in_use (pressure_advance es) (pa_smooth_time es) * (1 / 2)),
      es\<lparr>pressure_advance := pa, pa_smooth_time := smooth\<rparr>)"

text \<open>With the toolhead: when that raises, the stepper is unchanged.\<close>

definition apply_pressure_advance :: "real \<Rightarrow> real \<Rightarrow> real \<Rightarrow> real \<Rightarrow> estepper \<Rightarrow> th \<Rightarrow> unit res \<times> estepper \<times> th" where
  "apply_pressure_advance now est pa smooth es s =
     (let ((delay, old_delay), es') = set_pressure_advance pa smooth es
      in case note_step_generation_scan_time now est delay old_delay s of
           (Inl e, s') \<Rightarrow> (Inl e, es, s')
         | (Inr _, s') \<Rightarrow> (Inr (), es', s'))"

fun arg_range :: "real \<Rightarrow> real \<Rightarrow> real \<Rightarrow> real option \<Rightarrow> real res" where
  "arg_range lo hi d None = Inr d"
| "arg_range lo hi d (Some v) = (if v < lo then Inl (AppError ''must have minimum'')
     else if v > hi then Inl (AppError ''must have maximum'') else Inr v)"

definition cmd_SET_PRESSURE_ADVANCE ::
  "real \<Rightarrow> real \<Rightarrow> real option \<Rightarrow> real option \<Rightarrow> estepper \<Rightarrow> th \<Rightarrow> unit res \<times> estepper \<times> th" where
  "cmd_SET_PRESSURE_ADVANCE now est adv smooth es s =
     (case rbind (arg_min 0 adv) (\<lambda>a. rbind (arg_range 0 (1 / 5) (pa_smooth_time es) smooth) (\<lambda>st.
             Inr (opt a (pressure_advance es), st))) of
        Inl e \<Rightarrow> (Inl e, es, s)
      | Inr (pa, st) \<Rightarrow> apply_pressure_advance now est pa st es s)"

text \<open>Without a name the stepper of the active extruder is meant, if it follows its own extruder.\<close>

definition default_stepper :: "extruder \<Rightarrow> estepper res" where
  "default_stepper e =
     (case extruder_stepper e of None \<Rightarrow> Inl (AppError ''Active extruder does not have a stepper'')
      | Some es \<Rightarrow> if es_trapq es \<noteq> Some (e_name e) then Inl (AppError ''Unable to infer active extruder stepper'') else Inr es)"

section \<open>Rotation distance\<close>

definition set_rotation_distance :: "real \<Rightarrow> estepper \<Rightarrow> estepper" where
  "set_rotation_distance rd es = es\<lparr>rotation_dist := rd\<rparr>"

definition set_dir_inverted :: "bool \<Rightarrow> estepper \<Rightarrow> estepper" where
  "set_dir_inverted b es = es\<lparr>invert_dir := b\<rparr>"

definition step_dist_of :: "estepper \<Rightarrow> real" where
  "step_dist_of es = rotation_dist es / steps_per_rotation es"

text \<open>The distance a command reports, and the stepper after it.\<close>

definition cmd_SET_E_ROTATION_DISTANCE :: "real option \<Rightarrow> estepper \<Rightarrow> real res \<times> estepper" where
  "cmd_SET_E_ROTATION_DISTANCE D es =
     (case D of
        None \<Rightarrow> (Inr (if invert_dir es \<noteq> orig_invert_dir es then - rotation_dist es else rotation_dist es), es)
      | Some d \<Rightarrow>
          if d = 0 then (Inl (AppError ''Rotation distance can not be zero''), es)
          else
            let flip = (if d < 0 then \<not> orig_invert_dir es else orig_invert_dir es);
                rd = (if d < 0 then - d else d);
                es' = set_dir_inverted flip (set_rotation_distance rd es)
            in (Inr (if invert_dir es' \<noteq> orig_invert_dir es' then - rd else rd), es'))"

definition cmd_SET_E_STEP_DISTANCE :: "real option \<Rightarrow> estepper \<Rightarrow> real res \<times> estepper" where
  "cmd_SET_E_STEP_DISTANCE D es =
     (case arg_above 0 D of
        Inl e \<Rightarrow> (Inl e, es)
      | Inr None \<Rightarrow> (Inr (step_dist_of es), es)
      | Inr (Some d) \<Rightarrow> (Inr d, set_rotation_distance (d * steps_per_rotation es) es))"

section \<open>Extruders\<close>

text \<open>The options of a section; with a stepper also its pressure advance and smooth time.\<close>

definition read_extruder :: "string \<Rightarrow> real \<times> real \<Rightarrow> extruder_config \<Rightarrow> (extruder \<times> (real \<times> real) option) res" where
  "read_extruder n = (\<lambda>(max_v, max_a) c.
     rbind (get_wrapper (c_nozzle c) None [Above 0]) (\<lambda>nozzle.
     rbind (get_wrapper (c_filament c) None [Minval nozzle]) (\<lambda>filament.
     let area = pi * (filament * (1 / 2))\<^sup>2; def_cross = 4 * nozzle\<^sup>2; def_ratio = def_cross / area in
     rbind (get_wrapper (c_cross_section c) (Some def_cross) [Above 0]) (\<lambda>cross.
     rbind (get_wrapper (c_e_velocity c) (Some (max_v * def_ratio)) [Above 0]) (\<lambda>ev.
     rbind (get_wrapper (c_e_accel c) (Some (max_a * def_ratio)) [Above 0]) (\<lambda>ea.
     rbind (get_wrapper (c_e_dist c) (Some 50) [Minval 0]) (\<lambda>ed.
     rbind (get_wrapper (c_corner_v c) (Some 1) [Minval 0]) (\<lambda>cv.
     rbind (case c_stepper c of None \<Rightarrow> Inr (None, None)
            | Some es \<Rightarrow>
                rbind (get_wrapper (c_pressure_advance c) (Some 0) [Minval 0]) (\<lambda>pa.
                rbind (get_wrapper (c_pa_smooth_time c) (Some (1 / 25)) [Maxval (1 / 5), Above 0]) (\<lambda>st.
                Inr (Some (es\<lparr>es_trapq := Some n\<rparr>), Some (pa, st))))) (\<lambda>(es, adv).
     Inr (\<lparr>e_name = n, last_position = 0, nozzle_diameter = nozzle, filament_area = area, max_extrude_ratio = cross / area,
           max_e_velocity = ev, max_e_accel = ea, max_e_dist = ed, instant_corner_v = cv, extruder_stepper = es\<rparr>, adv))))))))))"

definition new_extruder :: "real \<Rightarrow> real \<Rightarrow> string \<Rightarrow> extruder_config \<Rightarrow> th \<Rightarrow> extruder res \<times> th" where
  "new_extruder now est n c s =
     (let first = (\<lambda>s. if n = ''extruder'' then set_extruder 0 s else s)
      in case read_extruder n (get_max_velocity s) c of
           Inl e \<Rightarrow> (Inl e, s)
         | Inr (e, adv) \<Rightarrow>
             (case (extruder_stepper e, adv) of
                (Some es, Some (pa, st)) \<Rightarrow>
                  (case apply_pressure_advance now est pa st es s of
                     (Inl x, _, s') \<Rightarrow> (Inl x, s')
                   | (Inr _, es', s') \<Rightarrow> (Inr (e\<lparr>extruder_stepper := Some es'\<rparr>), first s'))
              | _ \<Rightarrow> (Inr e, first s)))"

definition e_check_move :: "bool \<Rightarrow> extruder \<Rightarrow> move_check" where
  "e_check_move can e m =
     (let axis_r = axes_r m ! 3
      in if \<not> can then Inl (AppError ''Extrude below minimum temp'')
         else if (axes_d m ! 0 = 0 \<and> axes_d m ! 1 = 0) \<or> axis_r < 0 then
           if \<bar>axes_d m ! 3\<bar> > max_e_dist e then Inl (AppError ''Extrude only move too long'')
           else if \<bar>axis_r\<bar> = 0 then Inl ZeroDivisionError
           else let inv_extrude_r = 1 / \<bar>axis_r\<bar> in Inr [(max_e_velocity e * inv_extrude_r, max_e_accel e * inv_extrude_r)]
         else if axis_r > max_extrude_ratio e then
           if axes_d m ! 3 \<le> nozzle_diameter e * max_extrude_ratio e then Inr []
           else Inl (AppError ''Move exceeds maximum extrusion'')
         else Inr [])"

definition e_calc_junction :: "extruder \<Rightarrow> move \<Rightarrow> move \<Rightarrow> real" where
  "e_calc_junction e prev_move m =
     (let diff_r = axes_r m ! 3 - axes_r prev_move ! 3
      in if diff_r \<noteq> 0 then (instant_corner_v e / \<bar>diff_r\<bar>)\<^sup>2 else max_cruise_v2 m)"

text \<open>What \<open>move\<close> appends to the motion queue of the extruder: its start, whether pressure advance applies, and its speeds.\<close>

record e_motion =
  em_start :: real
  em_pressure_advance :: bool
  em_start_v :: real
  em_cruise_v :: real
  em_accel :: real

definition e_move :: "move \<Rightarrow> junction \<Rightarrow> extruder \<Rightarrow> e_motion \<times> extruder" where
  "e_move m j e =
     (let axis_r = axes_r m ! 3
      in (\<lparr>em_start = start_pos m ! 3, em_pressure_advance = (axis_r > 0 \<and> (axes_d m ! 0 \<noteq> 0 \<or> axes_d m ! 1 \<noteq> 0)),
           em_start_v = start_v j * axis_r, em_cruise_v = cruise_v j * axis_r, em_accel = accel m * axis_r\<rparr>,
          e\<lparr>last_position := end_pos m ! 3\<rparr>))"

text \<open>\<open>DummyExtruder\<close>, of a printer without extruders.\<close>

definition dummy_check_move :: move_check where
  "dummy_check_move m = Inl (AppError ''Extrude when no extruder present'')"

definition dummy_calc_junction :: "move \<Rightarrow> move \<Rightarrow> real" where
  "dummy_calc_junction prev_move m = max_cruise_v2 m"

definition dummy_get_heater :: "string res" where
  "dummy_get_heater = Inl (AppError ''Extruder not configured'')"

section \<open>Commands over all extruders\<close>

record extruders =
  pool :: "(string, extruder) dict"
  active :: string

definition extruder_section :: "nat \<Rightarrow> string" where
  "extruder_section i = (if i = 0 then ''extruder'' else ''extruder'' @ str_nat i)"

text \<open>The sections read at start: up to the first that is missing.\<close>

definition extruder_sections :: "(string \<Rightarrow> bool) \<Rightarrow> string list" where
  "extruder_sections has_section = takeWhile has_section (map extruder_section [0..<99])"

datatype heat_call = RunScript string | SetTemperature string real bool

text \<open>\<open>M104\<close> and, with \<open>wait\<close>, \<open>M109\<close>: what is called in order. The parameter \<open>T\<close> has been parsed.\<close>

definition cmd_M104 :: "real option \<Rightarrow> nat option \<Rightarrow> bool \<Rightarrow> extruders \<Rightarrow> unit res \<times> heat_call list" where
  "cmd_M104 S T wait x =
     (let temp = opt S 0; relay = (if temp > 1 / 2 then [RunScript ''relay_on''] else [])
      in case T of
           None \<Rightarrow> (Inr (), relay @ [SetTemperature (active x) temp wait])
         | Some i \<Rightarrow>
             if din (extruder_section i) (pool x) then (Inr (), relay @ [SetTemperature (extruder_section i) temp wait])
             else if temp \<le> 0 then (Inr (), relay) else (Inl (AppError ''Extruder not configured''), relay))"

definition cmd_ACTIVATE_EXTRUDER :: "real \<Rightarrow> real \<Rightarrow> string \<Rightarrow> extruders \<Rightarrow> th \<Rightarrow> extruders \<times> th" where
  "cmd_ACTIVATE_EXTRUDER now est n x s =
     (if active x = n then (x, s)
      else case dget (pool x) n of
        None \<Rightarrow> (x, s)
      | Some e \<Rightarrow> (x\<lparr>active := n\<rparr>, set_extruder (last_position e) (flush_step_generation now est s)))"

definition sync_to_extruder :: "real \<Rightarrow> real \<Rightarrow> string \<Rightarrow> extruders \<Rightarrow> estepper \<Rightarrow> th \<Rightarrow> unit res \<times> estepper \<times> th" where
  "sync_to_extruder now est n x es s =
     (let s' = flush_step_generation now est s
      in if n = '''' then (Inr (), es\<lparr>es_trapq := None\<rparr>, s')
         else case dget (pool x) n of
           None \<Rightarrow> (Inl (AppError ''is not a valid extruder''), es, s')
         | Some e \<Rightarrow> (Inr (), es\<lparr>es_position := last_position e, es_trapq := Some n\<rparr>, s'))"

section \<open>Well-formed extruders\<close>

definition extruder_wf :: "extruder \<Rightarrow> bool" where
  "extruder_wf e \<longleftrightarrow> 0 < nozzle_diameter e \<and> 0 < filament_area e \<and> 0 < max_extrude_ratio e \<and> 0 < max_e_velocity e \<and> 0 < max_e_accel e \<and>
     0 \<le> max_e_dist e \<and> 0 \<le> instant_corner_v e"

lemma extruder_read:
  assumes r: "read_extruder n (v, a) c = Inr (e, adv)" and va: "0 < v" "0 < a"
  shows "extruder_wf e"
proof -
  obtain nozzle filament cross ev ea ed cv where g: "get_wrapper (c_nozzle c) None [Above 0] = Inr nozzle"
      "get_wrapper (c_filament c) None [Minval nozzle] = Inr filament"
      "get_wrapper (c_cross_section c) (Some (4 * nozzle\<^sup>2)) [Above 0] = Inr cross"
      "get_wrapper (c_e_velocity c) (Some (v * (4 * nozzle\<^sup>2 / (pi * (filament * (1 / 2))\<^sup>2)))) [Above 0] = Inr ev"
      "get_wrapper (c_e_accel c) (Some (a * (4 * nozzle\<^sup>2 / (pi * (filament * (1 / 2))\<^sup>2)))) [Above 0] = Inr ea"
      "get_wrapper (c_e_dist c) (Some 50) [Minval 0] = Inr ed" "get_wrapper (c_corner_v c) (Some 1) [Minval 0] = Inr cv"
    and e: "nozzle_diameter e = nozzle" "filament_area e = pi * (filament * (1 / 2))\<^sup>2" "max_extrude_ratio e = cross / (pi * (filament * (1 / 2))\<^sup>2)"
      "max_e_velocity e = ev" "max_e_accel e = ea" "max_e_dist e = ed" "instant_corner_v e = cv"
    using r unfolding read_extruder_def prod.case Let_def rbind_eq_Inr by auto
  have n: "0 < nozzle" using get_wrapper_bounds[OF g(1)] by simp
  have f: "0 < filament" using get_wrapper_bounds[OF g(2)] n by simp
  then have ar: "0 < pi * (filament * (1 / 2))\<^sup>2" by simp
  have "0 < cross" using get_wrapper_bounds[OF g(3)] n by auto
  moreover have "0 < v * (4 * nozzle\<^sup>2 / (pi * (filament * (1 / 2))\<^sup>2))" "0 < a * (4 * nozzle\<^sup>2 / (pi * (filament * (1 / 2))\<^sup>2))"
  proof -
    have "0 < 4 * nozzle\<^sup>2 / (pi * (filament * (1 / 2))\<^sup>2)" using n ar by (intro divide_pos_pos) simp_all
    then show "0 < v * (4 * nozzle\<^sup>2 / (pi * (filament * (1 / 2))\<^sup>2))" "0 < a * (4 * nozzle\<^sup>2 / (pi * (filament * (1 / 2))\<^sup>2))"
      using va by (intro mult_pos_pos; simp)+
  qed
  then have "0 < ev" "0 < ea" using get_wrapper_bounds[OF g(4)] get_wrapper_bounds[OF g(5)] by auto
  moreover have "0 \<le> ed" "0 \<le> cv" using get_wrapper_bounds[OF g(6)] get_wrapper_bounds[OF g(7)] by auto
  ultimately show ?thesis using n ar by (simp add: extruder_wf_def e)
qed


definition extruder_config1 :: extruder_config where
  "extruder_config1 = \<lparr>c_nozzle = Parsed (2 / 5), c_filament = Parsed (7 / 4), c_cross_section = Absent, c_e_velocity = Absent,
     c_e_accel = Absent, c_e_dist = Absent, c_corner_v = Absent, c_pressure_advance = Parsed (1 / 20), c_pa_smooth_time = Absent,
     c_stepper = Some (new_estepper ''extruder'' 33 3200 False)\<rparr>"


section \<open>Accepted extrusion\<close>

definition extrude_only :: "move \<Rightarrow> bool" where
  "extrude_only m \<longleftrightarrow> (axes_d m ! 0 = 0 \<and> axes_d m ! 1 = 0) \<or> axes_r m ! 3 < 0"

text \<open>What the check promises of a move, before it is planned.\<close>

definition extrusion_allowed :: "extruder \<Rightarrow> move \<Rightarrow> bool" where
  "extrusion_allowed e m \<longleftrightarrow>
     (if extrude_only m then \<bar>axes_d m ! 3\<bar> \<le> max_e_dist e \<and> max_cruise_v2 m * (axes_r m ! 3)\<^sup>2 \<le> (max_e_velocity e)\<^sup>2 \<and>
        accel m * \<bar>axes_r m ! 3\<bar> \<le> max_e_accel e
      else axes_r m ! 3 \<le> max_extrude_ratio e \<or> axes_d m ! 3 \<le> nozzle_diameter e * max_extrude_ratio e)"

lemma limit_speed_facts [simp]:
  "axes_d (limit_speed v a m) = axes_d m" "axes_r (limit_speed v a m) = axes_r m" "end_pos (limit_speed v a m) = end_pos m"
  "start_pos (limit_speed v a m) = start_pos m" "is_kinematic_move (limit_speed v a m) = is_kinematic_move m"
  "accel (limit_speed v a m) = min (accel m) a" "max_cruise_v2 (limit_speed v a m) = min (max_cruise_v2 m) (v\<^sup>2)"
  by (simp_all add: limit_speed_def Let_def)

lemma limit_speeds_facts [simp]:
  "axes_d (fold (\<lambda>(v, a). limit_speed v a) ls m) = axes_d m" "axes_r (fold (\<lambda>(v, a). limit_speed v a) ls m) = axes_r m"
  "end_pos (fold (\<lambda>(v, a). limit_speed v a) ls m) = end_pos m" "start_pos (fold (\<lambda>(v, a). limit_speed v a) ls m) = start_pos m"
  "is_kinematic_move (fold (\<lambda>(v, a). limit_speed v a) ls m) = is_kinematic_move m"
  by (induction ls arbitrary: m) auto

lemma e_check_allowed:
  assumes "run_check True (e_check_move can e) m = Inr m'"
  shows "can" "extrusion_allowed e m'"
proof -
  obtain ls where c: "e_check_move can e m = Inr ls" and m': "m' = fold (\<lambda>(v, a). limit_speed v a) ls m"
    using assms by (auto simp: run_check_def rbind_eq_Inr)
  show "can" using c by (auto simp: e_check_move_def Let_def split: if_splits)
  have eo: "extrude_only m' = extrude_only m" by (simp add: extrude_only_def m')
  show "extrusion_allowed e m'"
  proof (cases "extrude_only m")
    case True
    define r where "r = \<bar>axes_r m ! 3\<bar>"
    have r: "0 < r" "\<bar>axes_d m ! 3\<bar> \<le> max_e_dist e" and ls: "ls = [(max_e_velocity e * (1 / r), max_e_accel e * (1 / r))]"
      using c True by (auto simp: e_check_move_def extrude_only_def r_def Let_def split: if_splits)
    have f: "max_cruise_v2 m' \<le> (max_e_velocity e * (1 / r))\<^sup>2" "accel m' \<le> max_e_accel e * (1 / r)" by (simp_all add: m' ls)
    have "max_cruise_v2 m' * r\<^sup>2 \<le> (max_e_velocity e * (1 / r))\<^sup>2 * r\<^sup>2" using f(1) by (rule mult_right_mono) simp
    then have "max_cruise_v2 m' * r\<^sup>2 \<le> (max_e_velocity e)\<^sup>2" using r(1) by (simp add: power_mult_distrib power_divide)
    moreover have "accel m' * r \<le> max_e_accel e * (1 / r) * r" using f(2) by (rule mult_right_mono) (use r in simp)
    then have "accel m' * r \<le> max_e_accel e" using r(1) by simp
    moreover have "r\<^sup>2 = (axes_r m ! 3)\<^sup>2" by (simp add: r_def)
    ultimately show ?thesis using True r(2) by (simp add: extrusion_allowed_def eo) (simp add: m' r_def)
  next
    case False
    then have "ls = []" and "axes_r m ! 3 \<le> max_extrude_ratio e \<or> axes_d m ! 3 \<le> nozzle_diameter e * max_extrude_ratio e"
      using c by (auto simp: e_check_move_def extrude_only_def Let_def split: if_splits)
    then show ?thesis using False by (simp add: extrusion_allowed_def m' eo)
  qed
qed

text \<open>The limits it asks for are positive, and its junction speed is one.\<close>

lemma e_check_ok: "extruder_wf e \<Longrightarrow> e_check_move can e m = Inr ls \<Longrightarrow> (v, a) \<in> set ls \<Longrightarrow> 0 < v \<and> 0 < a"
  by (auto simp: e_check_move_def extruder_wf_def Let_def divide_pos_neg split: if_splits)

lemma e_junction_ok: "junction_ok (e_calc_junction e)"
  by (auto simp: junction_ok_def e_calc_junction_def Let_def move_wf_def)

text \<open>What a planned move asks of the motor: its distance, speed and acceleration, or the cross section of what is extruded.\<close>

definition extrusion_ok :: "extruder \<Rightarrow> move \<Rightarrow> bool" where
  "extrusion_ok e m \<longleftrightarrow> (\<exists>j. times m = Some j \<and>
     (let x = fst (e_move m j e)
      in if extrude_only m then \<bar>axes_d m ! 3\<bar> \<le> max_e_dist e \<and> \<bar>em_cruise_v x\<bar> \<le> max_e_velocity e \<and> \<bar>em_accel x\<bar> \<le> max_e_accel e
         else axes_r m ! 3 * filament_area e \<le> max_extrude_ratio e * filament_area e \<or>
           axes_d m ! 3 \<le> nozzle_diameter e * max_extrude_ratio e))"

lemma planned_extrusion:
  assumes e: "extruder_wf e" and a: "extrusion_allowed e m" and p: "planned_ok m"
  shows "extrusion_ok e m"
proof -
  obtain j where j: "times m = Some j" "trapezoid m j" using p by (auto simp: planned_ok_def)
  then have m: "0 \<le> accel m" unfolding trapezoid_def by linarith
  show ?thesis
  proof (cases "extrude_only m")
    case True
    have "(cruise_v j)\<^sup>2 \<le> max_cruise_v2 m" using j(2) unfolding trapezoid_def by blast
    then have "(cruise_v j * axes_r m ! 3)\<^sup>2 \<le> max_cruise_v2 m * (axes_r m ! 3)\<^sup>2"
      unfolding power_mult_distrib by (rule mult_right_mono) simp
    also have "\<dots> \<le> (max_e_velocity e)\<^sup>2" using a True by (simp add: extrusion_allowed_def)
    finally have "\<bar>cruise_v j * axes_r m ! 3\<bar> \<le> max_e_velocity e"
      using e abs_le_square_iff[of "cruise_v j * axes_r m ! 3" "max_e_velocity e"] by (simp add: extruder_wf_def)
    moreover have "\<bar>accel m * axes_r m ! 3\<bar> \<le> max_e_accel e" using a True m by (simp add: extrusion_allowed_def abs_mult)
    ultimately show ?thesis using a True j(1) by (simp add: extrusion_ok_def extrusion_allowed_def e_move_def Let_def)
  next
    case False
    then show ?thesis using a e j(1) by (auto simp: extrusion_ok_def extrusion_allowed_def extruder_wf_def intro: mult_right_mono)
  qed
qed

section \<open>Pressure advance and the toolhead\<close>

text \<open>The delay a stepper has asked the toolhead for. The toolhead keeps one entry for every delay that is not zero.\<close>

definition delay_of :: "estepper \<Rightarrow> real" where
  "delay_of es = smooth_in_use (pressure_advance es) (pa_smooth_time es) * (1 / 2)"

definition delays :: "estepper list \<Rightarrow> real multiset" where
  "delays ess = filter_mset (\<lambda>d. d \<noteq> 0) (mset (map delay_of ess))"

definition delays_known :: "estepper list \<Rightarrow> th \<Rightarrow> bool" where
  "delays_known ess s \<longleftrightarrow> delays ess \<subseteq># mset (kin_flush_times s) \<and> kin_flush_delay s = Max (set (kin_flush_times s @ [SDS_CHECK_TIME]))"

lemma flush_keeps_delays:
  "kin_flush_times (flush_step_generation now est s) = kin_flush_times s"
  "kin_flush_delay (flush_step_generation now est s) = kin_flush_delay s"
  using flush_stays(2)[of s now est s] by (simp_all add: stays_def)

text \<open>A command for the stepper at an index.\<close>

definition pa_command :: "(real \<times> real \<times> nat \<times> real option \<times> real option) \<Rightarrow> estepper list \<times> th \<Rightarrow> unit res \<times> estepper list \<times> th" where
  "pa_command = (\<lambda>(now, est, i, adv, smooth) (ess, s).
     case cmd_SET_PRESSURE_ADVANCE now est adv smooth (ess ! i) s of (r, es, s') \<Rightarrow> (r, ess[i := es], s'))"

lemma delays_update:
  assumes "i < length ess"
  shows "delays (ess[i := es]) + {#d \<in># {#delay_of (ess ! i)#}. d \<noteq> 0#} = delays ess + {#d \<in># {#delay_of es#}. d \<noteq> 0#}"
proof -
  have "mset (map delay_of ess) = add_mset (delay_of (ess ! i)) (mset (map delay_of (take i ess)) + mset (map delay_of (drop (Suc i) ess)))"
    using assms by (subst id_take_nth_drop[of i ess]) simp_all
  moreover have "mset (map delay_of (ess[i := es])) = add_mset (delay_of es) (mset (map delay_of (take i ess)) + mset (map delay_of (drop (Suc i) ess)))"
    using assms by (subst upd_conv_take_nth_drop) simp_all
  ultimately show ?thesis by (simp add: delays_def)
qed

lemma note_scan_time_delays:
  assumes "note_step_generation_scan_time now est d od s = (Inr x, s')"
  shows "mset (kin_flush_times s') + {#y \<in># {#od#}. y \<noteq> 0#} = mset (kin_flush_times s) + {#y \<in># {#d#}. y \<noteq> 0#}"
    "kin_flush_delay s' = Max (set (kin_flush_times s' @ [SDS_CHECK_TIME]))"
  using assms by (auto simp: note_step_generation_scan_time_def Let_def flush_keeps_delays split: if_splits)

lemma pa_command_known:
  assumes i: "i < length ess" and k: "delays_known ess s" and c: "pa_command (now, est, i, adv, smooth) (ess, s) = (r, ess', s')"
  shows "delays_known ess' s'" "length ess' = length ess" "\<forall>e. r = Inl e \<longrightarrow> (\<exists>msg. e = AppError msg)"
proof -
  let ?args = "rbind (arg_min 0 adv) (\<lambda>a. rbind (arg_range 0 (1 / 5) (pa_smooth_time (ess ! i)) smooth) (\<lambda>st.
             Inr (opt a (pressure_advance (ess ! i)), st)))"
  have "delays_known ess' s' \<and> length ess' = length ess \<and> (\<forall>e. r = Inl e \<longrightarrow> (\<exists>msg. e = AppError msg))"
  proof (cases ?args)
    case (Inl e)
    have "\<exists>msg. e = AppError msg"
      using Inl by (cases adv; cases smooth) (auto simp: rbind_eq_Inl split: if_splits)
    then show ?thesis using c Inl k by (auto simp: pa_command_def cmd_SET_PRESSURE_ADVANCE_def)
  next
    case (Inr p)
    obtain pa st where p: "p = (pa, st)" by (cases p)
    define es where "es = (ess ! i)\<lparr>pressure_advance := pa, pa_smooth_time := st\<rparr>"
    obtain n s1 where n: "note_step_generation_scan_time now est (delay_of es) (delay_of (ess ! i)) s = (n, s1)" by force
    have od: "delay_of (ess ! i) = 0 \<or> delay_of (ess ! i) \<in> set (kin_flush_times s)"
    proof (cases "delay_of (ess ! i) = 0")
      case False
      then have "delay_of (ess ! i) \<in># delays ess" using i by (simp add: delays_def)
      from mset_subset_eqD[OF _ this, of "mset (kin_flush_times s)"] show ?thesis using k by (simp add: delays_known_def)
    qed simp
    then have nr: "n = Inr ()" using n by (auto simp: note_step_generation_scan_time_def Let_def flush_keeps_delays split: if_splits)
    have c': "(r, ess', s') = (Inr (), ess[i := es], s1)"
      using c Inr n nr by (simp add: pa_command_def cmd_SET_PRESSURE_ADVANCE_def p apply_pressure_advance_def set_pressure_advance_def
          es_def delay_of_def)
    note d = note_scan_time_delays[OF n[unfolded nr]]
    have "delays (ess[i := es]) + {#x \<in># {#delay_of (ess ! i)#}. x \<noteq> 0#} \<subseteq># mset (kin_flush_times s1) + {#x \<in># {#delay_of (ess ! i)#}. x \<noteq> 0#}"
      unfolding delays_update[OF i] d(1) using k by (simp only: delays_known_def subset_mset.add_right_mono)
    then have "delays (ess[i := es]) \<subseteq># mset (kin_flush_times s1)" by (simp only: mset_subset_eq_mono_add_right_cancel)
    then show ?thesis using c' d(2) by (simp add: delays_known_def)
  qed
  then show "delays_known ess' s'" "length ess' = length ess" "\<forall>e. r = Inl e \<longrightarrow> (\<exists>msg. e = AppError msg)" by simp_all
qed

fun pa_run :: "(real \<times> real \<times> nat \<times> real option \<times> real option) list \<Rightarrow> estepper list \<times> th \<Rightarrow> unit res list \<times> estepper list \<times> th" where
  "pa_run [] x = ([], x)"
| "pa_run (c # cs) x = (let (r, x') = pa_command c x; (rs, x'') = pa_run cs x' in (r # rs, x''))"

lemma new_toolhead_delays:
  assumes "new_toolhead fo c = Inr s" "\<forall>es \<in> set ess. pressure_advance es = 0"
  shows "delays_known ess s"
proof -
  have "delays ess = {#}" using assms(2) by (induction ess) (auto simp: delays_def delay_of_def smooth_in_use_def)
  then show ?thesis
    using assms(1) by (auto simp: delays_known_def new_toolhead_def rbind_eq_Inr calc_junction_deviation_def)
qed

text \<open>C27: Commands that set the pressure advance of steppers never fail but for their arguments: the toolhead always knows the delay a
  stepper had asked for. After any number of them the step generation looks far enough ahead for every stepper.\<close>

theorem pressure_advance_delays:
  assumes "\<forall>(now, est, i, adv, smooth) \<in> set cs. i < length ess" "delays_known ess s" "pa_run cs (ess, s) = (rs, ess', s')"
  shows "(\<forall>e. Inl e \<in> set rs \<longrightarrow> (\<exists>msg. e = AppError msg)) \<and> (\<forall>es \<in> set ess'. delay_of es \<le> kin_flush_delay s')"
proof -
  have "delays_known ess' s' \<and> (\<forall>e. Inl e \<in> set rs \<longrightarrow> (\<exists>msg. e = AppError msg))"
    using assms
  proof (induction cs arbitrary: ess s rs)
    case (Cons c cs)
    obtain now est i adv smooth where c: "c = (now, est, i, adv, smooth)" by (cases c)
    obtain r ess1 s1 where p: "pa_command c (ess, s) = (r, ess1, s1)" by (cases "pa_command c (ess, s)")
    obtain rs' where rs: "pa_run cs (ess1, s1) = (rs', ess', s')" "rs = r # rs'"
      using Cons.prems(3) p by (auto simp: Let_def split: prod.splits)
    have i: "i < length ess" using Cons.prems(1) by (simp add: c)
    note k = pa_command_known[OF i Cons.prems(2) p[unfolded c]]
    show ?case using Cons.IH[OF _ k(1) rs(1)] Cons.prems(1) k(2,3) rs(2) by auto
  qed simp
  moreover have "delay_of es \<le> kin_flush_delay s'" if "delays_known ess' s'" "es \<in> set ess'" for es
  proof (cases "delay_of es = 0")
    case True
    have "SDS_CHECK_TIME \<le> Max (set (kin_flush_times s' @ [SDS_CHECK_TIME]))" by (rule Max_ge) simp_all
    then show ?thesis using that(1) True by (simp add: delays_known_def SDS_CHECK_TIME_def)
  next
    case False
    then have "delay_of es \<in># delays ess'" using that(2) by (simp add: delays_def)
    from mset_subset_eqD[OF _ this, of "mset (kin_flush_times s')"] have "delay_of es \<in> set (kin_flush_times s' @ [SDS_CHECK_TIME])"
      using that(1) by (simp add: delays_known_def)
    then show ?thesis using that(1) Max_ge[of "set (kin_flush_times s' @ [SDS_CHECK_TIME])" "delay_of es"] by (simp add: delays_known_def)
  qed
  ultimately show ?thesis by blast
qed

theorem pressure_advance_delays_witness:
  "let es = new_estepper ''extruder'' 33 3200 False;
       (rs, ess', s') = pa_run [(0, 0, 0, Some (1 / 20), Some (1 / 25)), (1, 1, 0, Some 0, None), (2, 2, 0, Some (1 / 10), Some (1 / 2))]
         ([es], start1)
   in (\<forall>e. Inl e \<in> set rs \<longrightarrow> (\<exists>msg. e = AppError msg)) \<and> (\<forall>es \<in> set ess'. delay_of es \<le> kin_flush_delay s')"
proof -
  let ?es = "new_estepper ''extruder'' 33 3200 False"
  let ?cs = "[(0, 0, 0, Some (1 / 20), Some (1 / 25)), (1, 1, 0, Some 0, None), (2, 2, 0, Some (1 / 10), Some (1 / 2))]"
  obtain rs ess' s' where r: "pa_run ?cs ([?es], start1) = (rs, ess', s')" by (cases "pa_run ?cs ([?es], start1)")
  have "delays_known [?es] start1" by (rule new_toolhead_delays[OF start1_eq]) (simp add: new_estepper_def)
  from pressure_advance_delays[OF _ this r] show ?thesis unfolding Let_def r by simp
qed

end
