(* ===== verification/DeltaPrinter.thy ===== *)
theory DeltaPrinter
  imports DeltaCalibration Extruder
begin

text \<open>
  The printer's motion as a whole: the toolhead (\<open>toolhead.py\<close>) with the delta kinematics (\<open>kinematics/delta.py\<close>) and one extruder
  (\<open>kinematics/extruder.py\<close>), which its moves are checked by.

  The toolhead takes the checks as parameters; here they are the kinematics' and the extruder's own. The kinematics' check also
  changes its cached limit, whether or not the extruder then refuses the move. Whether the heater is hot enough to extrude may
  change at any time.
\<close>

section \<open>State and steps\<close>

record machine =
  mth :: th
  mk :: delta
  me :: extruder
  hot :: bool

definition kin_check :: "bool \<Rightarrow> delta \<Rightarrow> move_check" where
  "kin_check drip k m = fst (dk_check_move drip m k)"

definition checked_kin :: "bool \<Rightarrow> real list \<Rightarrow> real \<Rightarrow> th \<Rightarrow> delta \<Rightarrow> delta" where
  "checked_kin drip newpos spd t k =
     (let m = new_move (lim t) (commanded_pos t) newpos spd
      in if move_d m \<noteq> 0 \<and> is_kinematic_move m then snd (dk_check_move drip m k) else k)"

definition m_move :: "real \<Rightarrow> real \<Rightarrow> real list \<Rightarrow> real \<Rightarrow> machine \<Rightarrow> real option res \<times> machine" where
  "m_move now est newpos spd s =
     (let drip = (special_queuing_state (mth s) = Drip);
          (r, t) = th_move (kin_check drip (mk s)) (e_check_move (hot s) (me s)) (e_calc_junction (me s)) now est newpos spd (mth s)
      in (r, s\<lparr>mth := t, mk := checked_kin drip newpos spd (mth s) (mk s)\<rparr>))"

definition m_drip_move ::
  "real \<times> real \<Rightarrow> real \<times> real \<Rightarrow> real \<times> real \<Rightarrow> (bool \<times> real) list \<Rightarrow> real list \<Rightarrow> real \<Rightarrow> machine \<Rightarrow> (unit res \<times> machine) option" where
  "m_drip_move c1 c2 c3 obs newpos spd s =
     (case drip_move (kin_check True (mk s)) (e_check_move (hot s) (me s)) (e_calc_junction (me s)) c1 c2 c3 obs newpos spd (mth s) of
        None \<Rightarrow> None
      | Some (r, t) \<Rightarrow> Some (r, s\<lparr>mth := t, mk := checked_kin True newpos spd (mth s) (mk s)\<rparr>))"

definition m_set_position :: "real \<Rightarrow> real \<Rightarrow> real list \<Rightarrow> nat list \<Rightarrow> machine \<Rightarrow> machine" where
  "m_set_position now est newpos homing_axes s =
     s\<lparr>mth := set_position now est newpos (mth s), mk := dk_set_position homing_axes (mk s)\<rparr>"

definition m_motor_off :: "machine \<Rightarrow> machine" where
  "m_motor_off s = s\<lparr>mk := dk_motor_off (mk s)\<rparr>"

text \<open>The calls of the toolhead that neither add moves nor set its position; the limits of the silent work mode are positive.\<close>

inductive th_call :: "th \<Rightarrow> th \<Rightarrow> bool" where
  "th_call s (snd (dwell now est d s))"
| "th_call s (snd (stall_turn now est s))"
| "th_call s (snd (flush_handler et now est s))"
| "th_call s (snd (wait_moves now est s))"
| "th_call s (flush_step_generation now est s)"
| "th_call s (snd (get_last_move_time now est s))"
| "th_call s (snd (note_step_generation_scan_time now est d od s))"
| "th_call s (register_lookahead_callback now est cb s)"
| "th_call s (note_kinematic_activity kt s)"
| "th_call s (th_handle_shutdown s)"
| "0 < v \<Longrightarrow> 0 < a \<Longrightarrow> 0 < ad \<Longrightarrow> th_call s (snd (set_velocity_limitx v a sc ad s))"
| "th_call s (snd (cmd_SET_VELOCITY_LIMIT V A SC AD s))"
| "th_call s (snd (cmd_M204 S P T s))"
| "th_call s (snd (cmd_M205 X s))"

inductive m_reach :: "delta \<Rightarrow> extruder \<Rightarrow> machine \<Rightarrow> bool" for k0 e0 where
  started: "new_toolhead fo c = Inr t \<Longrightarrow> new_delta (get_max_velocity t) offs dc = Inr k0 \<Longrightarrow>
    read_extruder n (get_max_velocity t) ec = Inr (e0, adv) \<Longrightarrow> m_reach k0 e0 \<lparr>mth = t, mk = k0, me = e0, hot = b\<rparr>"
| moved: "m_reach k0 e0 s \<Longrightarrow> 0 < spd \<Longrightarrow> m_reach k0 e0 (snd (m_move now est newpos spd s))"
| dripped: "m_reach k0 e0 s \<Longrightarrow> 0 < spd \<Longrightarrow> m_drip_move c1 c2 c3 obs newpos spd s = Some (r, s') \<Longrightarrow>
    \<forall>e. r = Inl e \<longrightarrow> (\<exists>msg. e = AppError msg) \<Longrightarrow> m_reach k0 e0 s'"
| positioned: "m_reach k0 e0 s \<Longrightarrow> m_reach k0 e0 (m_set_position now est newpos axes s)"
| selected: "m_reach k0 e0 s \<Longrightarrow> m_reach k0 e0 (s\<lparr>mth := set_extruder ep (mth s)\<rparr>)"
| motors_off: "m_reach k0 e0 s \<Longrightarrow> m_reach k0 e0 (m_motor_off s)"
| heated: "m_reach k0 e0 s \<Longrightarrow> m_reach k0 e0 (s\<lparr>hot := b\<rparr>)"
| called: "m_reach k0 e0 s \<Longrightarrow> th_call (mth s) t \<Longrightarrow> m_reach k0 e0 (s\<lparr>mth := t\<rparr>)"

section \<open>Invariant\<close>

definition good_move :: "delta \<Rightarrow> extruder \<Rightarrow> move \<Rightarrow> bool" where
  "good_move k e m \<longleftrightarrow> (is_kinematic_move m \<longrightarrow> in_reach k (end_pos m)) \<and> (axes_d m ! 3 \<noteq> 0 \<longrightarrow> extrusion_allowed e m)"

definition m_inv :: "delta \<Rightarrow> extruder \<Rightarrow> machine \<Rightarrow> bool" where
  "m_inv k0 e0 s \<longleftrightarrow> th_reach (mth s) \<and> dk_ok k0 \<and> extruder_wf e0 \<and> me s = e0 \<and>
     (\<exists>l b. mk s = k0\<lparr>limit_xy2 := l, need_home := b\<rparr>) \<and> dk_inv (mk s) (commanded_pos (mth s) ! 2) \<and>
     (\<forall>m \<in> carried (mth s). good_move k0 e0 m)"

lemma good_move_shape [simp]: "good_move k e (shape m) = good_move k e m"
  by (simp add: good_move_def extrusion_allowed_def extrude_only_def)

lemma th_call_facts:
  assumes "th_call s t" shows "th_reach s \<Longrightarrow> th_reach t" "carried t \<subseteq> carried s" "commanded_pos t = commanded_pos s"
proof -
  show "th_reach s \<Longrightarrow> th_reach t" using assms by (cases rule: th_call.cases) (auto intro: th_reach.intros)
  show "carried t \<subseteq> carried s"
    using assms
    by (cases rule: th_call.cases)
       (simp_all add: dwell_carried flush_handler_carried wait_moves_carried flush_step_generation_carried get_last_move_time_carried
          note_scan_time_carried register_lookahead_callback_carried)
  have "stays s t \<or> commanded_pos t = commanded_pos s" using assms by (cases rule: th_call.cases) simp_all
  then show "commanded_pos t = commanded_pos s" by (auto simp: stays_def)
qed

lemma kin_check_ok: "dk_ok k \<Longrightarrow> check_ok (kin_check drip k)"
proof -
  assume k: "dk_ok k"
  have "\<forall>(v, a) \<in> set ls. 0 < v \<and> 0 < a" if "fresh m" "fst (dk_check_move drip m k) = Inr ls" for m ls
  proof -
    have "dk_check_move drip m k = (Inr ls, snd (dk_check_move drip m k))" using that(2) by (simp add: prod_eq_iff)
    then show ?thesis using dk_check_move_limits[OF k] that(1) unfolding fresh_def move_wf_def by blast
  qed
  then show "check_ok (kin_check drip k)" unfolding check_ok_def kin_check_def by blast
qed

lemma e_checks_ok: "extruder_wf e \<Longrightarrow> check_ok (e_check_move b e)"
  unfolding check_ok_def using e_check_ok by fast

lemma new_move_geometry:
  assumes "is_kinematic_move (new_move l p q v)"
  shows "axes_d (new_move l p q v) ! 2 = q ! 2 - p ! 2" "end_pos (new_move l p q v) = q" "start_pos (new_move l p q v) = p"
  using assms by (auto simp: new_move_def Let_def)

lemma new_move_extrude:
  assumes "\<not> is_kinematic_move (new_move l p q v)" shows "end_pos (new_move l p q v) ! 2 = p ! 2"
  using assms by (auto simp: new_move_def Let_def)

lemma run_check_same: "run_check b chk m = Inr m' \<Longrightarrow> end_pos m' = end_pos m \<and> axes_d m' = axes_d m \<and> is_kinematic_move m' = is_kinematic_move m"
  by (auto simp: run_check_def rbind_eq_Inr split: if_splits)

text \<open>A move both checks accept is good, and the kinematics know where it ends.\<close>

lemma accepted_good:
  assumes k: "dk_ok k" "dk_inv k (commanded_pos t ! 2)" and a: "accepted (kin_check drip k) (e_check_move b e) newpos spd t = Inr m"
  shows "good_move k e m" "end_pos m = end_pos (new_move (lim t) (commanded_pos t) newpos spd)"
    "is_kinematic_move m \<Longrightarrow> \<exists>ls. kin_check drip k (new_move (lim t) (commanded_pos t) newpos spd) = Inr ls"
proof -
  define n where "n = new_move (lim t) (commanded_pos t) newpos spd"
  obtain m1 where 1: "run_check (is_kinematic_move n) (kin_check drip k) n = Inr m1"
    and 2: "run_check (axes_d m1 ! 3 \<noteq> 0) (e_check_move b e) m1 = Inr m"
    using a by (auto simp: accepted_def Let_def n_def[symmetric] rbind_eq_Inr)
  note s1 = run_check_same[OF 1] note s2 = run_check_same[OF 2]
  show "end_pos m = end_pos (new_move (lim t) (commanded_pos t) newpos spd)" using s1 s2 by (simp add: n_def)
  have kk: "\<exists>ls. kin_check drip k n = Inr ls" if "is_kinematic_move m"
    using that 1 s1 s2 by (auto simp: run_check_def rbind_eq_Inr)
  then show "is_kinematic_move m \<Longrightarrow> \<exists>ls. kin_check drip k (new_move (lim t) (commanded_pos t) newpos spd) = Inr ls" by (simp add: n_def)
  have "in_reach k (end_pos m)" if km: "is_kinematic_move m"
  proof -
    obtain ls where ls: "dk_check_move drip n k = (Inr ls, snd (dk_check_move drip n k))"
      using kk[OF km] by (auto simp: kin_check_def prod_eq_iff)
    have "is_kinematic_move n" using km s1 s2 by simp
    note g = new_move_geometry[OF this[unfolded n_def], folded n_def]
    show ?thesis using dk_check_move_reach(2)[OF k(1) _ _ ls] k(2) s1 s2 by (simp add: g)
  qed
  moreover have "extrusion_allowed e m" if "axes_d m ! 3 \<noteq> 0" using e_check_allowed(2)[of b e m1 m] 2 that s2 by simp
  ultimately show "good_move k e m" by (simp add: good_move_def)
qed

lemma in_reach_limit: "in_reach (k\<lparr>limit_xy2 := l, need_home := b\<rparr>) p = in_reach k p"
  by (rule dk_limit_irrelevant)

text \<open>What the checks of a move leave of the kinematics.\<close>

lemma checked_kin_inv:
  fixes drip newpos spd
  assumes k: "dk_ok k" "dk_inv k (commanded_pos t ! 2)"
  defines "k' \<equiv> checked_kin drip newpos spd t k"
  shows "k' = k\<lparr>limit_xy2 := limit_xy2 k'\<rparr>" "dk_inv k' (commanded_pos t ! 2)"
    "accepted (kin_check drip k) ext newpos spd t = Inr m \<Longrightarrow> move_d (new_move (lim t) (commanded_pos t) newpos spd) \<noteq> 0 \<Longrightarrow>
       dk_inv k' (end_pos m ! 2)"
proof -
  define n where "n = new_move (lim t) (commanded_pos t) newpos spd"
  have "k' = k\<lparr>limit_xy2 := limit_xy2 k'\<rparr> \<and> dk_inv k' (commanded_pos t ! 2) \<and>
      (accepted (kin_check drip k) ext newpos spd t = Inr m \<longrightarrow> move_d n \<noteq> 0 \<longrightarrow> dk_inv k' (end_pos m ! 2))"
  proof (cases "move_d n \<noteq> 0 \<and> is_kinematic_move n")
    case True
    then have kin: "is_kinematic_move n" by simp
    note g = new_move_geometry[OF this[unfolded n_def], folded n_def]
    obtain r where c: "dk_check_move drip n k = (r, k')"
      using True by (cases "dk_check_move drip n k") (simp add: k'_def checked_kin_def n_def[symmetric])
    have ls: "dk_inv k' (end_pos m ! 2)" if a: "accepted (kin_check drip k) ext newpos spd t = Inr m"
    proof -
      obtain m1 where 1: "run_check True (kin_check drip k) n = Inr m1" and 2: "run_check (axes_d m1 ! 3 \<noteq> 0) ext m1 = Inr m"
        using a kin by (auto simp: accepted_def Let_def n_def[symmetric] rbind_eq_Inr)
      obtain ls where "r = Inr ls" using 1 c by (auto simp: run_check_def rbind_eq_Inr kin_check_def)
      then have "dk_inv k' (end_pos n ! 2)" using dk_check_move_inv(2)[OF k(1) _ _ c] k(2) by (simp add: g)
      then show ?thesis using run_check_same[OF 1] run_check_same[OF 2] by simp
    qed
    show ?thesis using dk_check_move_inv(1,3)[OF k(1) _ _ c] k(2) ls by (simp add: g)
  next
    case False
    then have kk: "k' = k" by (auto simp: k'_def checked_kin_def n_def[symmetric])
    have "end_pos m ! 2 = commanded_pos t ! 2" if a: "accepted (kin_check drip k) ext newpos spd t = Inr m" "move_d n \<noteq> 0"
    proof -
      obtain m1 where 1: "run_check (is_kinematic_move n) (kin_check drip k) n = Inr m1" and 2: "run_check (axes_d m1 ! 3 \<noteq> 0) ext m1 = Inr m"
        using a by (auto simp: accepted_def Let_def n_def[symmetric] rbind_eq_Inr)
      then show ?thesis
        using False a(2) new_move_extrude[of "lim t" "commanded_pos t" newpos spd] run_check_same[OF 1] run_check_same[OF 2]
        by (simp add: n_def)
    qed
    then show ?thesis using kk k(2) by auto
  qed
  then show "k' = k\<lparr>limit_xy2 := limit_xy2 k'\<rparr>" "dk_inv k' (commanded_pos t ! 2)"
    "accepted (kin_check drip k) ext newpos spd t = Inr m \<Longrightarrow> move_d (new_move (lim t) (commanded_pos t) newpos spd) \<noteq> 0 \<Longrightarrow>
       dk_inv k' (end_pos m ! 2)"
    by (simp_all add: n_def)
qed

lemma th_move_good:
  fixes drip b e now est newpos spd
  assumes k: "dk_ok k" "dk_inv k (commanded_pos t ! 2)"
  defines "t' \<equiv> snd (th_move (kin_check drip k) (e_check_move b e) (e_calc_junction e) now est newpos spd t)"
  shows "dk_inv (checked_kin drip newpos spd t k) (commanded_pos t' ! 2)"
    "(\<forall>m \<in> carried t. good_move k e m) \<Longrightarrow> \<forall>m \<in> carried t'. good_move k e m"
proof -
  let ?acc = "accepted (kin_check drip k) (e_check_move b e) newpos spd t"
  show "\<forall>m \<in> carried t'. good_move k e m" if "\<forall>m \<in> carried t. good_move k e m"
    using that th_move_carried[of "kin_check drip k" "e_check_move b e" "e_calc_junction e" now est newpos spd t] accepted_good(1)[OF k]
    by (cases ?acc) (auto simp: t'_def)
  note c = checked_kin_inv[OF k, where drip = drip and newpos = newpos and spd = spd]
  show "dk_inv (checked_kin drip newpos spd t k) (commanded_pos t' ! 2)"
  proof (cases "move_d (new_move (lim t) (commanded_pos t) newpos spd) = 0")
    case True
    then have "commanded_pos t' = commanded_pos t" by (simp add: t'_def th_move_still)
    then show ?thesis using c(2) by simp
  next
    case False
    note p = th_move_commanded[OF False, of "kin_check drip k" "e_check_move b e" "e_calc_junction e" now est, folded t'_def]
    show ?thesis
    proof (cases ?acc)
      case (Inl x)
      then show ?thesis using p c(2) by simp
    next
      case (Inr m)
      then show ?thesis using p c(3)[OF Inr False] by simp
    qed
  qed
qed

lemma in_sub: "carried t' \<subseteq> carried t \<Longrightarrow> \<forall>m \<in> carried t. P m \<Longrightarrow> \<forall>m \<in> carried t'. P m"
  by blast

lemma good_move_limit: "good_move (k\<lparr>limit_xy2 := l, need_home := b\<rparr>) e m = good_move k e m"
  by (simp add: good_move_def dk_limit_irrelevant)

lemma checked_kin_stays: "stays s t \<Longrightarrow> checked_kin drip newpos spd t k = checked_kin drip newpos spd s k"
  by (simp add: checked_kin_def stays_def)

lemma m_reach_inv: "m_reach k0 e0 s \<Longrightarrow> m_inv k0 e0 s"
proof (induction rule: m_reach.induct)
  case (started fo c t offs dc n ec adv b)
  have l: "get_max_velocity t = (max_velocity (lim t), max_accel (lim t))" by (simp add: get_max_velocity_def)
  have th: "th_reach t" using started(1) by (rule th_reach.created)
  then have v: "0 < max_velocity (lim t)" "0 < max_accel (lim t)"
    using th_reach_inv by (auto simp: th_inv_def core_inv_def toolhead_ok_def)
  obtain xo yo where o: "offs = (xo, yo)" by (cases offs)
  note k = started(2)[unfolded l o]
  have "limit_xy2 k0 = -1" using new_delta_facts[OF k] by simp
  moreover have "\<exists>l b. k0 = k0\<lparr>limit_xy2 := l, need_home := b\<rparr>" by (intro exI[of _ "limit_xy2 k0"] exI[of _ "need_home k0"]) simp
  ultimately show ?case
    using th new_delta_ok[OF k v] extruder_read[OF started(3)[unfolded l] v] new_toolhead_carried[OF started(1)]
    by (simp add: m_inv_def dk_inv_def)
next
  case (moved s spd now est newpos)
  then obtain l b where k: "mk s = k0\<lparr>limit_xy2 := l, need_home := b\<rparr>" and i: "th_reach (mth s)" "dk_ok k0" "extruder_wf e0" "me s = e0"
      "dk_inv (mk s) (commanded_pos (mth s) ! 2)" "\<forall>m \<in> carried (mth s). good_move k0 e0 m"
    by (auto simp: m_inv_def)
  have ok: "dk_ok (mk s)" using i(2) by (simp add: k dk_limit_irrelevant)
  define d where "d = (special_queuing_state (mth s) = Drip)"
  have th: "th_reach (snd (th_move (kin_check d (mk s)) (e_check_move (hot s) (me s)) (e_calc_junction (me s)) now est newpos spd (mth s)))"
    using th_reach.moved[OF i(1) kin_check_ok[OF ok] e_checks_ok e_junction_ok moved(2)] i(3,4) by simp
  note t = th_move_good[OF ok i(5), where drip = d and b = "hot s" and now = now and est = est and newpos = newpos and e = e0 and spd = spd]
  have g: "good_move (mk s) = good_move k0" by (rule ext)+ (simp add: k good_move_limit)
  have "checked_kin d newpos spd (mth s) (mk s) = k0\<lparr>limit_xy2 := limit_xy2 (checked_kin d newpos spd (mth s) (mk s)), need_home := b\<rparr>"
    by (subst checked_kin_inv(1)[OF ok i(5)]) (simp add: k)
  moreover have "snd (m_move now est newpos spd s) = s\<lparr>mth := snd (th_move (kin_check d (mk s)) (e_check_move (hot s) (me s))
      (e_calc_junction (me s)) now est newpos spd (mth s)), mk := checked_kin d newpos spd (mth s) (mk s)\<rparr>"
    by (simp add: m_move_def d_def[symmetric] Let_def split: prod.split)
  ultimately show ?case using th t i g by (simp add: m_inv_def) blast
next
  case (dripped s spd c1 c2 c3 obs newpos r s')
  then obtain l b where k: "mk s = k0\<lparr>limit_xy2 := l, need_home := b\<rparr>" and i: "th_reach (mth s)" "dk_ok k0" "extruder_wf e0" "me s = e0"
      "dk_inv (mk s) (commanded_pos (mth s) ! 2)" "\<forall>m \<in> carried (mth s). good_move k0 e0 m"
    by (auto simp: m_inv_def)
  have ok: "dk_ok (mk s)" using i(2) by (simp add: k dk_limit_irrelevant)
  obtain t' where d: "drip_move (kin_check True (mk s)) (e_check_move (hot s) (me s)) (e_calc_junction (me s)) c1 c2 c3 obs newpos spd (mth s) = Some (r, t')"
    and s': "s' = s\<lparr>mth := t', mk := checked_kin True newpos spd (mth s) (mk s)\<rparr>"
    using dripped(3) by (auto simp: m_drip_move_def split: option.splits)
  have th: "th_reach t'"
    using th_reach.dripped[OF i(1) kin_check_ok[OF ok] e_checks_ok e_junction_ok dripped(2) d dripped(4)] i(3,4) by simp
  obtain t where st: "stays (mth s) t" "carried t \<subseteq> carried (mth s)"
    and m: "stays (snd (th_move (kin_check True (mk s)) (e_check_move (hot s) (me s)) (e_calc_junction (me s)) (fst c2) (snd c2) newpos spd t)) t'"
      "carried t' \<subseteq> carried (snd (th_move (kin_check True (mk s)) (e_check_move (hot s) (me s)) (e_calc_junction (me s)) (fst c2) (snd c2) newpos spd t))"
    by (rule drip_move_carried[OF d])
  have c: "commanded_pos t = commanded_pos (mth s)" using st(1) by (simp add: stays_def)
  note g = th_move_good[OF ok, where t = t and drip = True and b = "hot s" and e = e0 and now = "fst c2" and est = "snd c2" and newpos = newpos
      and spd = spd]
  have "dk_inv (checked_kin True newpos spd (mth s) (mk s)) (commanded_pos t' ! 2)"
    using g(1) i(4,5) m(1) c checked_kin_stays[OF st(1)] by (simp add: stays_def)
  moreover have "\<forall>m \<in> carried t'. good_move k0 e0 m"
    using in_sub[OF m(2)] g(2) in_sub[OF st(2) i(6)] i(4,5) c by (simp add: k good_move_limit)
  moreover have "checked_kin True newpos spd (mth s) (mk s) =
      k0\<lparr>limit_xy2 := limit_xy2 (checked_kin True newpos spd (mth s) (mk s)), need_home := b\<rparr>"
    by (subst checked_kin_inv(1)[OF ok i(5)]) (simp add: k)
  ultimately show ?case using th i by (simp add: m_inv_def s') blast
next
  case (positioned s now est newpos axes)
  then show ?case
    using in_sub[OF set_position_carried[of now est newpos "mth s"]]
    by (auto simp: m_inv_def m_set_position_def dk_set_position_def dk_inv_def intro: th_reach.positioned) blast+
next
  case (selected s ep)
  have "commanded_pos (set_extruder ep t) ! 2 = commanded_pos t ! 2" for t by (simp add: set_extruder_def)
  then show ?case using selected.IH by (auto simp: m_inv_def intro: th_reach.extruder)
next
  case (motors_off s)
  then show ?case by (auto simp: m_inv_def m_motor_off_def dk_motor_off_def dk_inv_def) blast+
next
  case (heated s b)
  then show ?case by (simp add: m_inv_def)
next
  case (called s t)
  then show ?case using th_call_facts[OF called(2)] by (auto simp: m_inv_def)
qed

section \<open>The motion of the printer\<close>


definition delta_config1 :: delta_config where
  "delta_config1 = \<lparr>c_rails = (let r = \<lparr>position_endstop = 10, step_dist = 1 / 100\<rparr> in (r, r, r)), c_max_z_velocity = Absent, c_max_z_accel = Absent,
     c_x_offset = replicate 6 0, c_y_offset = replicate 6 0, c_radius = Parsed 3, c_print_radius = Absent,
     c_arms = (Parsed 5, Absent, Absent), c_angles = (Absent, Absent, Absent), c_min_z = Absent, c_normal_min_z = Absent\<rparr>"

lemma delta1: "\<exists>k. new_delta (300, 3000) (0, 0) delta_config1 = Inr k \<and> arms_clear k \<and> max_z k = 10 \<and> min_z k = 0 \<and> normal_min_z k = 0 \<and> limit_z k = 9 \<and>
    max_xy2 k \<le> (min_abc (arm_lengths k) - radius k)\<^sup>2"
proof -
  define w where "w = min 2 (12 * sqrt (199971 / 1160000) - 599 / 200 :: real)"
  have clear: "1 / 4 \<le> sqrt (199971 / 1160000 :: real)" by (rule real_le_rsqrt) (simp add: power2_eq_square)
  then have "\<bar>w\<bar> \<le> 2" unfolding w_def by linarith
  then have w: "w * w \<le> 4" using abs_le_square_iff[of w 2] by (simp add: power2_eq_square)
  have s: "sqrt 16 = (4 :: real)" by (rule real_sqrt_unique) simp_all
  have "actuator_to_cartesian (map_abc (tower 3) (210, 330, 90)) (25, 25, 25) (14, 14, 14) = Inr (0, 0, 10)"
    unfolding default_towers actuator_to_cartesian_def
    using below_carriages[of "- sqrt 3 / 2 * 3" "- 1 / 2 * 3" "sqrt 3 / 2 * 3" "- 1 / 2 * 3" 0 3 0 0 10 14 14 14]
    by simp (rule trilateration_finds; simp add: orient_def on_spheres_def on_sphere_def power2_eq_square)
  then show ?thesis using clear
    by (simp add: new_delta_def delta_config1_def Let_def py_sqrt_def s ratio_to_xy_def SLOW_RATIO_def power2_eq_square w[unfolded w_def] arms_clear_def)
qed

lemma th_move_queue:
  assumes "move_d (new_move (lim t) (commanded_pos t) newpos spd) \<noteq> 0" "queue (move_queue t) = []" "accepted kin ext newpos spd t = Inr m"
  shows "queue (move_queue (snd (th_move kin ext ev2 now est newpos spd t))) = [m]"
proof -
  define s1 where "s1 = hand_on now est (add_move (lim t) ev2 m (move_queue t)) (t\<lparr>commanded_pos := end_pos m\<rparr>)"
  have "snd (th_move kin ext ev2 now est newpos spd t) = s1 \<or> snd (th_move kin ext ev2 now est newpos spd t) = snd (check_stall now est s1)"
    using assms(1,3) by (simp add: th_move_def accepted_def Let_def s1_def split: prod.split)
  moreover have "queue (move_queue s1) = [m]" by (simp add: s1_def add_move_def assms(2))
  ultimately show ?thesis using check_stall_queue by auto
qed

text \<open>A printer that was homed and moves its head down by a millimetre.\<close>

lemma running1: "\<exists>k e s t m. m_reach k e s \<and> arms_clear k \<and> Segment t m \<in> set (trace (mth s))"
proof -
  obtain k where k: "new_delta (300, 3000) (0, 0) delta_config1 = Inr k" "max_z k = 10" "min_z k = 0" "normal_min_z k = 0" "limit_z k = 9" and clear: "arms_clear k"
    using delta1 by blast
  obtain e where e: "read_extruder ''extruder'' (300, 3000) extruder_config1 = Inr (e, Some (1 / 20, 1 / 25))"
    by (simp add: read_extruder_def extruder_config1_def Let_def)
  have l: "get_max_velocity start1 = (300, 3000)" "queue (move_queue start1) = []"
    by (simp_all add: get_max_velocity_def start1_def new_toolhead_def config1_def opt_def getfloat_above_def getfloat_min_def
        calc_junction_deviation_def new_move_queue_def set_flush_time_def)
  define s0 where "s0 = \<lparr>mth = start1, mk = k, me = e, hot = False\<rparr>"
  have 0: "m_reach k e s0" unfolding s0_def by (rule m_reach.started[OF start1_eq]) (unfold l(1), rule k(1), rule e)
  define s1 where "s1 = m_set_position 0 0 [0, 0, 5, 0] [0, 1, 2] s0"
  have 1: "m_reach k e s1" unfolding s1_def by (rule m_reach.positioned[OF 0])
  have p: "commanded_pos (mth s1) = [0, 0, 5, 0]" by (simp add: s1_def m_set_position_def set_position_def Let_def emit_def)
  have q: "queue (move_queue (mth s1)) = []"
  proof -
    have "queue_wf (move_queue start1)" using th_reach_inv[OF th_reach.created[OF start1_eq]] by (simp add: th_inv_def)
    then have "queue (move_queue (flush_step_generation 0 0 start1)) = []"
      using flush_wf(4)[of "move_queue start1" False "fst (flush False (move_queue start1))" "snd (flush False (move_queue start1))"]
      by (simp add: flush_step_generation_def Let_def flush_queue_def set_flush_time_def)
    then show ?thesis by (simp add: s1_def s0_def m_set_position_def set_position_def Let_def emit_def)
  qed
  define n where "n = new_move (lim (mth s1)) (commanded_pos (mth s1)) [0, 0, 4, 0] 100"
  have n: "move_d n = 1" "is_kinematic_move n" "axes_d n = [0, 0, -1, 0]" "end_pos n = [0, 0, 4, 0]" "start_pos n = [0, 0, 5, 0]"
    by (simp_all add: n_def p new_move_def Let_def)
  have kk: "mk s1 = k\<lparr>limit_xy2 := -1, need_home := False\<rparr>" by (simp add: s1_def s0_def m_set_position_def dk_set_position_def)
  have ok: "0 \<le> max_xy2 k" "0 \<le> slow_xy2 k" using new_delta_facts[OF k(1)] by simp_all
  define d where "d = (special_queuing_state (mth s1) = Drip)"
  have "\<exists>ls. kin_check d (mk s1) n = Inr ls"
    using ok by (simp add: kin_check_def dk_check_move_def kk n k end_xy2_def check_bounds_xy_def check_carriages_def z_limits_def
        extreme_limits_def Let_def)
  then obtain ls where ls: "kin_check d (mk s1) n = Inr ls" by blast
  define m where "m = fold (\<lambda>(v, a). limit_speed v a) ls n"
  have a: "accepted (kin_check d (mk s1)) (e_check_move (hot s1) (me s1)) [0, 0, 4, 0] 100 (mth s1) = Inr m"
    using ls n(2,3) by (simp add: accepted_def n_def[symmetric] run_check_def m_def Let_def)
  define s2 where "s2 = snd (m_move 0 0 [0, 0, 4, 0] 100 s1)"
  have 2: "m_reach k e s2" unfolding s2_def by (rule m_reach.moved[OF 1]) simp
  have t2: "mth s2 = snd (th_move (kin_check d (mk s1)) (e_check_move (hot s1) (me s1)) (e_calc_junction (me s1)) 0 0 [0, 0, 4, 0] 100 (mth s1))"
    by (simp add: s2_def m_move_def d_def[symmetric] Let_def split: prod.split)
  have "queue (move_queue (mth s2)) = [m]"
    unfolding t2 by (rule th_move_queue[OF _ q a]) (simp add: n_def[symmetric] n(1))
  moreover have "th_inv (mth s2)" using m_reach_inv[OF 2] th_reach_inv by (simp add: m_inv_def)
  moreover have "is_kinematic_move m" using n(2) by (simp add: m_def)
  ultimately obtain t m' where "Segment t m' \<in> set (trace (flush_queue 0 0 (mth s2)))" using queued_segment by blast
  then have "Segment t m' \<in> set (trace (flush_step_generation 0 0 (mth s2)))" using flush_step_generation_trace by blast
  moreover have "m_reach k e (s2\<lparr>mth := flush_step_generation 0 0 (mth s2)\<rparr>)" by (rule m_reach.called[OF 2 th_call.intros(5)])
  ultimately show ?thesis by (intro exI[of _ k] exI[of _ e] exI[of _ "s2\<lparr>mth := flush_step_generation 0 0 (mth s2)\<rparr>"]) (auto simp: clear)
qed


text \<open>C9: While the nozzle is not hot enough, and while the printer is not homed, a move that extrudes, or one that moves the head, is
  refused: it raises an error and the toolhead stays as it is.\<close>

theorem unready_moves_refused:
  fixes now est newpos spd
  assumes "m_reach k e s" "move_d (new_move (lim (mth s)) (commanded_pos (mth s)) newpos spd) \<noteq> 0"
    "(\<not> hot s \<and> axes_d (new_move (lim (mth s)) (commanded_pos (mth s)) newpos spd) ! 3 \<noteq> 0) \<or>
     (need_home (mk s) \<and> is_kinematic_move (new_move (lim (mth s)) (commanded_pos (mth s)) newpos spd))"
  shows "(\<exists>x. fst (m_move now est newpos spd s) = Inl x) \<and> mth (snd (m_move now est newpos spd s)) = mth s"
proof -
  define n where "n = new_move (lim (mth s)) (commanded_pos (mth s)) newpos spd"
  define d where "d = (special_queuing_state (mth s) = Drip)"
  have i: "m_inv k e s" using assms(1) by (rule m_reach_inv)
  have "\<exists>x. accepted (kin_check d (mk s)) (e_check_move (hot s) (me s)) newpos spd (mth s) = Inl x"
  proof (rule ccontr, simp only: not_ex)
    assume "\<forall>x. accepted (kin_check d (mk s)) (e_check_move (hot s) (me s)) newpos spd (mth s) \<noteq> Inl x"
    then obtain m where a: "accepted (kin_check d (mk s)) (e_check_move (hot s) (me s)) newpos spd (mth s) = Inr m" by (meson sumE)
    obtain m1 where 1: "run_check (is_kinematic_move n) (kin_check d (mk s)) n = Inr m1"
      and 2: "run_check (axes_d m1 ! 3 \<noteq> 0) (e_check_move (hot s) (me s)) m1 = Inr m"
      using a by (auto simp: accepted_def Let_def n_def[symmetric] rbind_eq_Inr)
    have h: "hot s" if "axes_d n ! 3 \<noteq> 0" using that 2 run_check_same[OF 1] e_check_allowed(1)[of "hot s" "me s" m1 m] by simp
    have "is_kinematic_move n \<Longrightarrow> \<not> need_home (mk s)"
    proof -
      assume kn: "is_kinematic_move n"
      then obtain ls where "kin_check d (mk s) n = Inr ls" using 1 by (auto simp: run_check_def rbind_eq_Inr)
      then have c: "dk_check_move d n (mk s) = (Inr ls, snd (dk_check_move d n (mk s)))" by (simp add: kin_check_def prod_eq_iff)
      have ok: "dk_ok (mk s)" using i by (auto simp: m_inv_def dk_limit_irrelevant)
      note gm = new_move_geometry[OF kn[unfolded n_def], folded n_def]
      show "\<not> need_home (mk s)" using dk_check_move_reach(1)[OF ok _ _ c] i by (simp add: m_inv_def gm)
    qed
    with h assms(3) show False by (auto simp: n_def)
  qed
  then obtain x where "accepted (kin_check d (mk s)) (e_check_move (hot s) (me s)) newpos spd (mth s) = Inl x" by blast
  then have "th_move (kin_check d (mk s)) (e_check_move (hot s) (me s)) (e_calc_junction (me s)) now est newpos spd (mth s) = (Inl x, mth s)"
    using assms(2) by (simp add: th_move_def accepted_def Let_def)
  then show ?thesis by (simp add: m_move_def d_def Let_def)
qed

theorem unready_moves_refused_witness:
  "\<exists>k e s. m_reach k e s \<and> need_home (mk s) \<and> (\<exists>x. fst (m_move 0 0 [0, 0, 4, 0] 100 s) = Inl x) \<and> mth (snd (m_move 0 0 [0, 0, 4, 0] 100 s)) = mth s"
proof -
  obtain k where k: "new_delta (300, 3000) (0, 0) delta_config1 = Inr k" using delta1 by blast
  obtain e where e: "read_extruder ''extruder'' (300, 3000) extruder_config1 = Inr (e, Some (1 / 20, 1 / 25))"
    by (simp add: read_extruder_def extruder_config1_def Let_def)
  have l: "get_max_velocity start1 = (300, 3000)" "commanded_pos start1 = [0, 0, 0, 0]"
    by (simp_all add: get_max_velocity_def start1_def new_toolhead_def config1_def opt_def getfloat_above_def getfloat_min_def
        calc_junction_deviation_def)
  define s where "s = \<lparr>mth = start1, mk = k, me = e, hot = False\<rparr>"
  have r: "m_reach k e s" unfolding s_def by (rule m_reach.started[OF start1_eq]) (unfold l(1), rule k, rule e)
  have h: "need_home (mk s)" using new_delta_facts(1)[OF k] by (simp add: s_def)
  have "sqrt 16 = (4 :: real)" by (rule real_sqrt_unique) simp_all
  then have n: "move_d (new_move (lim (mth s)) (commanded_pos (mth s)) [0, 0, 4, 0] 100) = 4"
    "is_kinematic_move (new_move (lim (mth s)) (commanded_pos (mth s)) [0, 0, 4, 0] 100)"
    by (simp_all add: s_def l new_move_def Let_def)
  show ?thesis using unready_moves_refused[OF r, of "[0, 0, 4, 0]" 100 0 0] n h r by auto
qed

text \<open>The check of a move only ever fails with a message of its own, never in the middle of its arithmetic: the square roots of the
  carriage heights exist for every move it gets to. The build radius is taken not to exceed what the arms reach, which its formula
  gives for arms that are not almost as short as the radius of the towers.\<close>

theorem delta_check_fails_in_words:
  assumes "new_delta (v, a) (xo, yo) c = Inr k" "0 < v" "0 < a" "max_xy2 k \<le> (min_abc (arm_lengths k) - radius k)\<^sup>2"
    "dk_check_move drip m (k\<lparr>limit_xy2 := l, need_home := b\<rparr>) = (Inl e, k')"
  shows "(\<exists>msg. e = AppError msg) \<and> k' = k\<lparr>limit_xy2 := l, need_home := b\<rparr>"
proof -
  have "dk_ok (k\<lparr>limit_xy2 := l, need_home := b\<rparr>)" using new_delta_ok[OF assms(1-3)] by (simp add: dk_limit_irrelevant)
  from check_fails_in_words[OF this _ assms(5)] assms(4) show ?thesis by simp
qed

theorem delta_check_fails_in_words_witness:
  "\<exists>k. new_delta (300, 3000) (0, 0) delta_config1 = Inr k \<and> (\<exists>msg. fst (dk_check_move False (new_move toolhead1 [0, 0, 0, 0] [0, 0, 5, 0] 100) k) = Inl (AppError msg))"
proof -
  obtain k where k: "new_delta (300, 3000) (0, 0) delta_config1 = Inr k" "max_xy2 k \<le> (min_abc (arm_lengths k) - radius k)\<^sup>2"
    using delta1 by blast
  define m where "m = new_move toolhead1 [0, 0, 0, 0] [0, 0, 5, 0] 100"
  have "need_home k" "limit_xy2 k = -1" using new_delta_facts[OF k(1)] by simp_all
  then have "dk_check_move False m k = (Inl (AppError ''Must home first''), k)"
    by (simp add: dk_check_move_def end_xy2_def Let_def not_le) (smt (verit) zero_le_power2)
  then have "dk_check_move False m (k\<lparr>limit_xy2 := limit_xy2 k, need_home := need_home k\<rparr>) = (Inl (AppError ''Must home first''), k)" by simp
  from delta_check_fails_in_words[OF k(1) _ _ k(2) this] this k(1) show ?thesis unfolding m_def by auto
qed

end
