(* ===== verification/IdleTimeout.thy ===== *)
theory IdleTimeout
  imports ToolHead
begin

text \<open>
  \<open>klippy/extras/idle_timeout.py\<close>: the class \<open>IdleTimeout\<close>, which turns the printer off when nothing has happened for a
  while. What \<open>toolhead.check_busy\<close> answers, whether the G-code mutex is held, whether the printer is shut down and how the
  idle script ends are arguments of the steps; the idle_events sent are part of the state.
\<close>

section \<open>State and operations\<close>

datatype activity = Idle | Ready | Printing

datatype idle_event = IdleEvent real | ReadyEvent real | PrintingEvent real | RunIdleScript

record idle =
  activity :: activity
  idle_timeout :: real
  last_print_start_systime :: real
  timeout_timer :: flush_wake
  idle_events :: "idle_event list"

definition PIN_MIN_TIME :: real where "PIN_MIN_TIME = 1 / 10"
definition READY_TIMEOUT :: real where "READY_TIMEOUT = 1 / 2"

definition new_idle :: "real option \<Rightarrow> idle res" where
  "new_idle timeout = rbind (getfloat_above 0 (opt timeout 600)) (\<lambda>t.
     Inr \<lparr>activity = Idle, idle_timeout = t, last_print_start_systime = 0, timeout_timer = WakeNever, idle_events = []\<rparr>)"

definition idle_status :: "real \<Rightarrow> idle \<Rightarrow> activity \<times> real" where
  "idle_status eventtime s = (activity s, if activity s = Printing then eventtime - last_print_start_systime s else 0)"

definition notify :: "idle_event \<Rightarrow> idle \<Rightarrow> idle" where
  "notify e s = s\<lparr>idle_events := idle_events s @ [e]\<rparr>"

text \<open>\<open>script\<close> is none if rendering or running the idle script raises, otherwise the last move time after it. The state is
  \<open>Printing\<close> while the script runs, so that motion it causes is not noticed. The result is the time of the next call.\<close>

definition transition_idle_state :: "real \<Rightarrow> real option \<Rightarrow> idle \<Rightarrow> flush_wake \<times> idle" where
  "transition_idle_state eventtime script s =
     (let s1 = notify RunIdleScript (s\<lparr>activity := Printing\<rparr>)
      in case script of None \<Rightarrow> (WakeAt (eventtime + 1), s1\<lparr>activity := Ready\<rparr>)
         | Some pt \<Rightarrow> (WakeNever, notify (IdleEvent pt) (s1\<lparr>activity := Idle\<rparr>)))"

definition check_idle_timeout :: "real \<Rightarrow> real \<times> real \<times> bool \<Rightarrow> bool \<Rightarrow> real option \<Rightarrow> idle \<Rightarrow> flush_wake \<times> idle" where
  "check_idle_timeout eventtime busy mutex_held script s =
     (case busy of (pt, est, lookahead_empty) \<Rightarrow>
        let idle_time = est - pt
        in if \<not> lookahead_empty \<or> idle_time < 1 then (WakeAt (eventtime + idle_timeout s), s)
           else if idle_time < idle_timeout s then (WakeAt (eventtime + idle_timeout s - idle_time), s)
           else if mutex_held then (WakeAt (eventtime + 1), s)
           else transition_idle_state eventtime script s)"

definition timeout_handler :: "real \<Rightarrow> bool \<Rightarrow> real \<times> real \<times> bool \<Rightarrow> bool \<Rightarrow> real option \<Rightarrow> idle \<Rightarrow> flush_wake \<times> idle" where
  "timeout_handler eventtime is_shutdown busy mutex_held script s =
     (if is_shutdown then (WakeNever, s)
      else if activity s = Ready then check_idle_timeout eventtime busy mutex_held script s
      else case busy of (pt, est, lookahead_empty) \<Rightarrow>
        let buffer_time = min 2 (pt - est)
        in if \<not> lookahead_empty then (WakeAt (eventtime + READY_TIMEOUT + max 0 buffer_time), s)
           else if buffer_time > - READY_TIMEOUT then (WakeAt (eventtime + READY_TIMEOUT + buffer_time), s)
           else if mutex_held then (WakeAt (eventtime + READY_TIMEOUT), s)
           else (WakeAt (eventtime + idle_timeout s), notify (ReadyEvent (est + PIN_MIN_TIME)) (s\<lparr>activity := Ready\<rparr>)))"

text \<open>A call of the timer: the reactor sets it to the time its handler gives.\<close>

definition timer_call :: "real \<Rightarrow> bool \<Rightarrow> real \<times> real \<times> bool \<Rightarrow> bool \<Rightarrow> real option \<Rightarrow> idle \<Rightarrow> idle" where
  "timer_call eventtime is_shutdown busy mutex_held script s =
     (let (w, s') = timeout_handler eventtime is_shutdown busy mutex_held script s in s'\<lparr>timeout_timer := w\<rparr>)"

text \<open>The parameters in the order of the source.\<close>

definition handle_sync_print_time :: "real \<Rightarrow> real \<Rightarrow> real \<Rightarrow> idle \<Rightarrow> idle" where
  "handle_sync_print_time curtime pt est_print_time s =
     (if activity s = Printing then s
      else
        let check_time = READY_TIMEOUT + pt - est_print_time
        in notify (PrintingEvent (est_print_time + PIN_MIN_TIME))
             (s\<lparr>activity := Printing, last_print_start_systime := curtime, timeout_timer := WakeAt (curtime + check_time)\<rparr>))"

definition cmd_SET_IDLE_TIMEOUT :: "real \<Rightarrow> real option \<Rightarrow> idle \<Rightarrow> unit res \<times> idle" where
  "cmd_SET_IDLE_TIMEOUT now timeout s =
     (case getfloat_above 0 (opt timeout (idle_timeout s)) of Inl e \<Rightarrow> (Inl e, s)
      | Inr t \<Rightarrow> (Inr (), if activity s = Ready then s\<lparr>idle_timeout := t, timeout_timer := WakeAt (now + t)\<rparr> else s\<lparr>idle_timeout := t\<rparr>))"

section \<open>The toolhead and the idle timeout together\<close>

text \<open>\<open>ToolHead\<close> sends \<open>toolhead:sync_print_time\<close> with the current time, the estimated print time and the print time, in this
  order; the handler is called with them as they come.\<close>

fun deliver :: "motion \<Rightarrow> idle \<Rightarrow> idle" where
  "deliver (SyncPrintTime a b c) s = handle_sync_print_time a b c s"
| "deliver _ s = s"

text \<open>So the two print times are exchanged: motion that starts at \<open>p\<close> has the first check half a second before the moment that is
  as far in the past as \<open>p\<close> is in the future.\<close>

lemma sync_arguments_exchanged:
  fixes now est :: real
  assumes "activity s \<noteq> Printing" "print_time h < print_time (calc_print_time now est h)"
  defines "p \<equiv> print_time (calc_print_time now est h)"
  shows "timeout_timer (deliver (last (trace (calc_print_time now est h))) s) = WakeAt (now + READY_TIMEOUT - (p - est))"
    "idle_events (deliver (last (trace (calc_print_time now est h))) s) = idle_events s @ [PrintingEvent (p + PIN_MIN_TIME)]"
proof -
  have "trace (calc_print_time now est h) = trace h @ [SyncPrintTime now est p]"
    using assms(2) by (auto simp: p_def calc_print_time_def emit_def Let_def split: if_splits)
  then show "timeout_timer (deliver (last (trace (calc_print_time now est h))) s) = WakeAt (now + READY_TIMEOUT - (p - est))"
    "idle_events (deliver (last (trace (calc_print_time now est h))) s) = idle_events s @ [PrintingEvent (p + PIN_MIN_TIME)]"
    using assms(1) by (simp_all add: handle_sync_print_time_def notify_def Let_def algebra_simps)
qed

section \<open>Steps\<close>

inductive idle_step :: "bool \<Rightarrow> idle \<Rightarrow> idle \<Rightarrow> bool" for shut where
  call: "timeout_timer s = WakeAt w \<Longrightarrow> w \<le> eventtime \<Longrightarrow>
    idle_step shut s (timer_call eventtime shut busy mutex_held script s)"
| sync: "idle_step shut s (handle_sync_print_time curtime pt est s)"
| set: "idle_step shut s (snd (cmd_SET_IDLE_TIMEOUT now timeout s))"

inductive idle_reach :: "idle \<Rightarrow> bool" where
  start: "new_idle timeout = Inr s \<Longrightarrow> idle_reach s"
| step: "idle_reach s \<Longrightarrow> idle_step False s s' \<Longrightarrow> idle_reach s'"

definition watched :: "idle \<Rightarrow> bool" where
  "watched s \<longleftrightarrow> 0 < idle_timeout s \<and> (activity s = Idle \<or> (\<exists>w. timeout_timer s = WakeAt w))"

lemma notify_simps [simp]:
  "activity (notify e s) = activity s" "idle_timeout (notify e s) = idle_timeout s" "timeout_timer (notify e s) = timeout_timer s"
  "idle_events (notify e s) = idle_events s @ [e]"
  by (simp_all add: notify_def)

lemmas idle_defs = timer_call_def timeout_handler_def check_idle_timeout_def transition_idle_state_def

lemma timer_call_watched:
  assumes "watched s" shows "watched (timer_call eventtime False busy mutex_held script s)"
proof -
  obtain p est l where b: "busy = (p, est, l)" by (cases busy)
  show ?thesis using assms by (cases script) (auto simp: watched_def idle_defs b Let_def)
qed

lemma idle_step_watched:
  assumes "idle_step False s s'" "watched s" shows "watched s'"
  using assms(1)
proof cases
  case call
  then show ?thesis using timer_call_watched[OF assms(2)] by simp
next
  case sync
  then show ?thesis using assms(2) by (auto simp: watched_def handle_sync_print_time_def Let_def)
next
  case set
  then show ?thesis
    using assms(2) by (auto simp: watched_def cmd_SET_IDLE_TIMEOUT_def getfloat_above_def split: sum.split)
qed

text \<open>As long as the printer is not shut down, an idle timeout that is not idle has a time at which it is checked again,
  after any sequence of checks, moves and changes of the timeout, failed idle scripts included.\<close>

theorem idle_check_scheduled:
  assumes "idle_reach s" "activity s \<noteq> Idle"
  shows "\<exists>w. timeout_timer s = WakeAt w"
proof -
  have "watched s" using assms(1)
  proof (induction rule: idle_reach.induct)
    case (start timeout s)
    then show ?case by (auto simp: new_idle_def rbind_eq_Inr getfloat_above_def watched_def split: if_splits)
  qed (rule idle_step_watched)
  then show ?thesis using assms(2) by (simp add: watched_def)
qed

definition idle1 :: idle where
  "idle1 = \<lparr>activity = Idle, idle_timeout = 600, last_print_start_systime = 0, timeout_timer = WakeNever, idle_events = []\<rparr>"

theorem idle_check_scheduled_witness:
  "\<exists>w. timeout_timer (handle_sync_print_time 5 4 5 idle1) = WakeAt w"
proof (rule idle_check_scheduled)
  have n: "new_idle None = Inr idle1" by (simp add: new_idle_def opt_def getfloat_above_def idle1_def)
  show "idle_reach (handle_sync_print_time 5 4 5 idle1)"
    by (rule idle_reach.step[OF idle_reach.start[OF n]]) (rule idle_step.sync)
  show "activity (handle_sync_print_time 5 4 5 idle1) \<noteq> Idle"
    by (simp add: handle_sync_print_time_def idle1_def notify_def Let_def)
qed

text \<open>The idle script runs only when the toolhead's queue is empty, its last motion ended at least the timeout ago (and at
  least a second), no G-code holds the mutex and the printer is not shut down; if it fails it is tried again.\<close>

theorem idle_script_only_when_quiet:
  assumes "timeout_handler eventtime shut (pt, est, quiet) mutex_held script s = (w, s')"
    "RunIdleScript \<in> set (drop (length (idle_events s)) (idle_events s'))"
  shows "activity s = Ready \<and> \<not> shut \<and> quiet \<and> est - pt \<ge> max 1 (idle_timeout s) \<and> \<not> mutex_held \<and>
    (script = None \<longrightarrow> activity s' = Ready \<and> w = WakeAt (eventtime + 1)) \<and> (script \<noteq> None \<longrightarrow> activity s' = Idle \<and> w = WakeNever)"
  using assms by (cases script) (auto simp: idle_defs Let_def split: if_splits)

theorem idle_script_only_when_quiet_witness:
  "let s = idle1\<lparr>activity := Ready\<rparr>; (w, s') = timeout_handler 700 False (10, 690, True) False None s in
     activity s' = Ready \<and> w = WakeAt 701"
  using idle_script_only_when_quiet[of 700 False 10 690 True False None "idle1\<lparr>activity := Ready\<rparr>"
      "WakeAt 701" "notify RunIdleScript (idle1\<lparr>activity := Ready\<rparr>)"]
  by (simp add: idle_defs idle1_def notify_def Let_def)

end
