(* ===== verification/Heaters.thy ===== *)
theory Heaters
  imports MathUtil PyStrings
begin

text \<open>
  \<open>klippy/extras/heaters.py\<close> and \<open>pid_calibrate.py\<close>: heaters, their three control algorithms, the registry of heaters and sensors,
  and the calibration that swaps the control.

  The temperatures come from a sensor as calls of \<open>temperature_callback\<close>; what is sent to the micro-controller is recorded in
  \<open>pwm_calls\<close>. The lock of the source protects single updates, which are one step here. Numbers are reals. The text of error
  messages is shortened to what does not depend on number formats.
\<close>

section \<open>Heaters\<close>

definition KELVIN_TO_CELSIUS :: real where "KELVIN_TO_CELSIUS = -27315 / 100"
definition MAX_HEAT_TIME :: real where "MAX_HEAT_TIME = 5"
definition AMBIENT_TEMP :: real where "AMBIENT_TEMP = 25"
definition PID_PARAM_BASE :: real where "PID_PARAM_BASE = 255"
definition PID_SETTLE_DELTA :: real where "PID_SETTLE_DELTA = 3"

record bang_bang =
  bb_max_power :: real
  max_delta :: real
  heating :: bool

record pid =
  pid_max_power :: real
  Kp :: real
  Ki :: real
  Kd :: real
  min_deriv_time :: real
  temp_integ_max :: real
  prev_temp :: real
  prev_temp_time :: real
  prev_temp_deriv :: real
  prev_temp_integ :: real

text \<open>\<open>ControlAutoTune\<close> of \<open>pid_calibrate.py\<close>.\<close>

definition TUNE_PID_DELTA :: real where "TUNE_PID_DELTA = 5"

record autotune =
  at_max_power :: real
  calibrate_temp :: real
  at_heating :: bool
  peak :: real
  peak_time :: real
  peaks :: "(real \<times> real) list"
  last_pwm :: real
  pwm_samples :: "(real \<times> real) list"
  temp_samples :: "(real \<times> real) list"

datatype control = BangBang bang_bang | PID pid | AutoTune autotune

record heater =
  heater_name :: string
  min_temp :: real
  max_temp :: real
  pwm_delay :: real
  min_extrude_temp :: real
  can_extrude :: bool
  max_power :: real
  smooth_time :: real
  last_temp :: real
  smoothed_temp :: real
  target_temp :: real
  last_temp_time :: real
  next_pwm_time :: real
  last_pwm_value :: real
  min_temp_warning :: bool
  max_temp_warning :: bool
  control :: control
  pwm_calls :: "(real \<times> real) list"

definition set_pwm :: "real \<Rightarrow> real \<Rightarrow> heater \<Rightarrow> heater" where
  "set_pwm read_time value h =
     (let v = (if target_temp h \<le> 0 then 0 else value)
      in if (read_time < next_pwm_time h \<or> last_pwm_value h = 0) \<and> \<bar>v - last_pwm_value h\<bar> < 1 / 20 then h
         else
           let pwm_time = read_time + pwm_delay h
           in h\<lparr>next_pwm_time := pwm_time + 3 / 4 * MAX_HEAT_TIME, last_pwm_value := v, pwm_calls := pwm_calls h @ [(pwm_time, v)]\<rparr>)"

subsection \<open>Control\<close>

definition new_bang_bang :: "real \<Rightarrow> real \<Rightarrow> bang_bang" where
  "new_bang_bang pw delta = \<lparr>bb_max_power = pw, max_delta = delta, heating = False\<rparr>"

text \<open>The new state of the algorithm and the pw it asks for.\<close>

definition bang_bang_update :: "real \<Rightarrow> real \<Rightarrow> bang_bang \<Rightarrow> bang_bang \<times> real" where
  "bang_bang_update temp target c =
     (let c' = (if heating c \<and> temp \<ge> target + max_delta c then c\<lparr>heating := False\<rparr>
                else if \<not> heating c \<and> temp \<le> target - max_delta c then c\<lparr>heating := True\<rparr>
                else c)
      in (c', if heating c' then bb_max_power c' else 0))"

definition bang_bang_busy :: "real \<Rightarrow> real \<Rightarrow> bang_bang \<Rightarrow> bool" where
  "bang_bang_busy smoothed target c \<longleftrightarrow> smoothed < target - max_delta c"

definition new_pid :: "real \<Rightarrow> real \<Rightarrow> real \<Rightarrow> real \<Rightarrow> real \<Rightarrow> pid" where
  "new_pid pw smooth kp ki kd =
     (let i = ki / PID_PARAM_BASE
      in \<lparr>pid_max_power = pw, Kp = kp / PID_PARAM_BASE, Ki = i, Kd = kd / PID_PARAM_BASE, min_deriv_time = smooth,
          temp_integ_max = (if i \<noteq> 0 then pw / i else 0), prev_temp = AMBIENT_TEMP, prev_temp_time = 0,
          prev_temp_deriv = 0, prev_temp_integ = 0\<rparr>)"

text \<open>The derivative and the integral of the temperature error, and the output before it is bounded.\<close>

definition pid_terms :: "real \<Rightarrow> real \<Rightarrow> real \<Rightarrow> pid \<Rightarrow> real \<times> real \<times> real" where
  "pid_terms read_time temp target c =
     (let time_diff = read_time - prev_temp_time c;
          temp_diff = temp - prev_temp c;
          temp_deriv = (if time_diff \<ge> min_deriv_time c then temp_diff / time_diff
                        else (prev_temp_deriv c * (min_deriv_time c - time_diff) + temp_diff) / min_deriv_time c);
          temp_err = target - temp;
          temp_integ = max 0 (min (temp_integ_max c) (prev_temp_integ c + temp_err * time_diff))
      in (temp_deriv, temp_integ, Kp c * temp_err + Ki c * temp_integ - Kd c * temp_deriv))"

definition pid_update :: "real \<Rightarrow> real \<Rightarrow> real \<Rightarrow> pid \<Rightarrow> pid \<times> real" where
  "pid_update read_time temp target c =
     (let (temp_deriv, temp_integ, co) = pid_terms read_time temp target c;
          bounded_co = max 0 (min (pid_max_power c) co)
      in (c\<lparr>prev_temp := temp, prev_temp_time := read_time, prev_temp_deriv := temp_deriv,
            prev_temp_integ := (if co = bounded_co then temp_integ else prev_temp_integ c)\<rparr>, bounded_co))"

definition pid_busy :: "real \<Rightarrow> real \<Rightarrow> bool" where
  "pid_busy smoothed target \<longleftrightarrow> \<bar>target - smoothed\<bar> > PID_SETTLE_DELTA"

text \<open>The parameters from the peaks up to a position.\<close>

definition calc_pid :: "nat \<Rightarrow> autotune \<Rightarrow> (real \<times> real \<times> real) res" where
  "calc_pid pos a =
     rbind (nth_res (peaks a) pos) (\<lambda>p0. rbind (nth_res (peaks a) (pos - 1)) (\<lambda>p1. rbind (nth_res (peaks a) (pos - 2)) (\<lambda>p2.
       let temp_diff = fst p0 - fst p1; time_diff = snd p0 - snd p2; amplitude = 1 / 2 * \<bar>temp_diff\<bar> in
       rbind (py_div (4 * at_max_power a) (pi * amplitude)) (\<lambda>Ku.
         let Tu = time_diff; Ti = 1 / 2 * Tu; Td = 1 / 8 * Tu; kp = 6 / 10 * Ku * PID_PARAM_BASE in
         rbind (py_div kp Ti) (\<lambda>ki. Inr (kp, ki, kp * Td))))))"

definition check_peaks :: "autotune \<Rightarrow> unit res \<times> autotune" where
  "check_peaks a =
     (let a1 = a\<lparr>peaks := peaks a @ [(peak a, peak_time a)], peak := (if at_heating a then 9999999 else - 9999999)\<rparr>
      in (if length (peaks a1) < 4 then Inr () else rbind (calc_pid (length (peaks a1) - 1) a1) (\<lambda>_. Inr ()), a1))"

definition calc_final_pid :: "autotune \<Rightarrow> (real \<times> real \<times> real) res" where
  "calc_final_pid a =
     (let cycle_times = map (\<lambda>pos. (snd (peaks a ! pos) - snd (peaks a ! (pos - 2)), pos)) [4..<length (peaks a)]
      in rbind (nth_res (sort_by (\<lambda>(s, p) (t, q). s < t \<or> s = t \<and> p \<le> q) cycle_times) (length cycle_times div 2)) (\<lambda>(_, midpoint_pos).
           calc_pid midpoint_pos a))"

definition at_set_pwm :: "real \<Rightarrow> real \<Rightarrow> autotune \<Rightarrow> heater \<Rightarrow> heater" where
  "at_set_pwm read_time value a h =
     (let a1 = (if value \<noteq> last_pwm a
                then a\<lparr>pwm_samples := pwm_samples a @ [(read_time + pwm_delay h, value)], last_pwm := value\<rparr> else a)
      in set_pwm read_time value (h\<lparr>control := AutoTune a1\<rparr>))"

definition at_record :: "bool \<Rightarrow> real \<Rightarrow> real \<Rightarrow> autotune \<Rightarrow> autotune" where
  "at_record up read_time temp a =
     (if (up \<and> temp < peak a) \<or> (\<not> up \<and> temp > peak a) then a\<lparr>peak := temp, peak_time := read_time\<rparr> else a)"

definition at_busy :: "autotune \<Rightarrow> bool" where
  "at_busy a \<longleftrightarrow> at_heating a \<or> length (peaks a) < 12"

definition new_autotune :: "real \<Rightarrow> real \<Rightarrow> autotune" where
  "new_autotune pw target =
     \<lparr>at_max_power = pw, calibrate_temp = target, at_heating = False, peak = 0, peak_time = 0, peaks = [], last_pwm = 0,
      pwm_samples = [], temp_samples = []\<rparr>"

definition alter_target :: "real \<Rightarrow> heater \<Rightarrow> heater" where
  "alter_target t h = h\<lparr>target_temp := (if t \<noteq> 0 then max (min_temp h) (min (max_temp h) t) else t)\<rparr>"

text \<open>A reading while the calibration runs: at a crossing of the target it turns and moves the target of the heater itself. The new
  state is stored before the power is set, as the algorithm is one object.\<close>

definition autotune_update :: "real \<Rightarrow> real \<Rightarrow> autotune \<Rightarrow> heater \<Rightarrow> unit res \<times> heater" where
  "autotune_update read_time temp a0 h =
     (let a = a0\<lparr>temp_samples := temp_samples a0 @ [(read_time, temp)]\<rparr>;
          target = target_temp h;
          (r, a2, h2) =
            (if at_heating a \<and> temp \<ge> target then
               let (r, a1) = check_peaks (a\<lparr>at_heating := False\<rparr>) in
               (r, a1, case r of Inl e \<Rightarrow> h | Inr _ \<Rightarrow> alter_target (calibrate_temp a1 - TUNE_PID_DELTA) h)
             else if \<not> at_heating a \<and> temp \<le> target then
               let (r, a1) = check_peaks (a\<lparr>at_heating := True\<rparr>) in
               (r, a1, case r of Inl e \<Rightarrow> h | Inr _ \<Rightarrow> alter_target (calibrate_temp a1) h)
             else (Inr (), a, h))
      in case r of
        Inl e \<Rightarrow> (Inl e, h2\<lparr>control := AutoTune a2\<rparr>)
      | Inr _ \<Rightarrow> (Inr (), at_set_pwm read_time (if at_heating a2 then at_max_power a2 else 0) (at_record (at_heating a2) read_time temp a2) h2))"

text \<open>\<open>control.temperature_update\<close>, which sets the power of the heater.\<close>

definition ctl_update :: "real \<Rightarrow> real \<Rightarrow> heater \<Rightarrow> unit res \<times> heater" where
  "ctl_update read_time temp h =
     (case control h of
        BangBang c \<Rightarrow> let (c', v) = bang_bang_update temp (target_temp h) c in (Inr (), set_pwm read_time v (h\<lparr>control := BangBang c'\<rparr>))
      | PID c \<Rightarrow> let (c', v) = pid_update read_time temp (target_temp h) c in (Inr (), set_pwm read_time v (h\<lparr>control := PID c'\<rparr>))
      | AutoTune a \<Rightarrow> autotune_update read_time temp a h)"

fun control_busy :: "real \<Rightarrow> real \<Rightarrow> control \<Rightarrow> bool" where
  "control_busy smoothed target (BangBang c) = bang_bang_busy smoothed target c"
| "control_busy smoothed target (PID c) = pid_busy smoothed target"
| "control_busy smoothed target (AutoTune a) = at_busy a"

subsection \<open>Operations\<close>

text \<open>After an exception of the algorithm the smoothed temperature is not brought up to date.\<close>

definition temperature_callback :: "real \<Rightarrow> real \<Rightarrow> heater \<Rightarrow> unit res \<times> heater" where
  "temperature_callback read_time temp h =
     (let time_diff = read_time - last_temp_time h in
      case ctl_update read_time temp (h\<lparr>last_temp := temp, last_temp_time := read_time\<rparr>) of
        (Inl e, h2) \<Rightarrow> (Inl e, h2)
      | (Inr _, h2) \<Rightarrow>
          let adj_time = min (time_diff * (1 / smooth_time h2)) 1;
              s = smoothed_temp h2 + (temp - smoothed_temp h2) * adj_time
          in (Inr (), h2\<lparr>smoothed_temp := s, can_extrude := (s \<ge> min_extrude_temp h2)\<rparr>))"

definition set_temp :: "real \<Rightarrow> heater \<Rightarrow> unit res \<times> heater" where
  "set_temp degrees h =
     (if degrees \<noteq> 0 \<and> (degrees < min_temp h \<or> degrees > max_temp h)
      then (Inl (AppError ''Requested temperature out of range''), h)
      else (Inr (), h\<lparr>target_temp := degrees\<rparr>))"

definition get_temp :: "real \<Rightarrow> heater \<Rightarrow> real \<times> real" where
  "get_temp est_print_time h =
     (if last_temp_time h < est_print_time - 5 then (0, target_temp h) else (smoothed_temp h, target_temp h))"

definition heater_busy :: "heater \<Rightarrow> bool" where
  "heater_busy h = control_busy (smoothed_temp h) (target_temp h) (control h)"

definition set_control :: "control \<Rightarrow> heater \<Rightarrow> control \<times> heater" where
  "set_control c h = (control h, h\<lparr>control := c, target_temp := 0\<rparr>)"

text \<open>\<open>PID_CALIBRATE\<close>: the calibration becomes the control until the heater is no longer busy; the old control is put back also when
  the target is refused.\<close>

definition start_calibration :: "real \<Rightarrow> heater \<Rightarrow> control \<times> unit res \<times> heater" where
  "start_calibration target h =
     (let (old, h1) = set_control (AutoTune (new_autotune (max_power h) target)) h in
      case set_temp target h1 of
        (Inl e, h2) \<Rightarrow> (old, Inl e, snd (set_control old h2))
      | (Inr _, h2) \<Rightarrow> (old, Inr (), h2))"

definition finish_calibration :: "control \<Rightarrow> heater \<Rightarrow> (real \<times> real \<times> real) res \<times> heater" where
  "finish_calibration old h =
     (let (calibrate, h1) = set_control old h in
      (case calibrate of
         AutoTune a \<Rightarrow> if at_busy a then Inl (AppError ''pid_calibrate interrupted'') else calc_final_pid a
       | _ \<Rightarrow> Inl AttributeError, h1))"

text \<open>What \<open>stats\<close> does besides its line: whether the heater is active, a message for the log and a reason to shut down.\<close>

definition heater_stats :: "heater \<Rightarrow> bool \<times> string option \<times> string option \<times> heater" where
  "heater_stats h =
     (let h1 = (if last_temp h > min_temp h \<and> last_temp h < max_temp h then h\<lparr>min_temp_warning := True, max_temp_warning := True\<rparr> else h);
          low = (last_temp h1 < min_temp h1 \<and> min_temp_warning h1);
          h2 = (if low then h1\<lparr>min_temp_warning := False\<rparr> else h1);
          high = (last_temp h2 > max_temp h2 \<and> max_temp_warning h2);
          h3 = (if high then h2\<lparr>max_temp_warning := False\<rparr> else h2)
      in (target_temp h \<noteq> 0 \<or> last_temp h > 50,
          if low then Some (heater_name h @ '' min temp warning'') else None,
          if high then Some (heater_name h @ ''  MAX TEMP'') else None, h3))"

subsection \<open>Creation\<close>

datatype control_options = Watermark "real option" | PidGains real real real

record heater_config =
  hc_name :: string
  hc_min_temp :: real
  hc_max_temp :: real
  hc_min_extrude_temp :: "real option"
  hc_max_power :: "real option"
  hc_smooth_time :: "real option"
  hc_control :: control_options
  hc_pwm_cycle_time :: "real option"

definition check_float :: "bool \<Rightarrow> real \<Rightarrow> real res" where
  "check_float ok v = (if ok then Inr v else Inl (AppError ''Option out of range''))"

text \<open>An option that is given is checked, a default is not.\<close>

definition checked_option :: "(real \<Rightarrow> bool) \<Rightarrow> real option \<Rightarrow> real \<Rightarrow> real res" where
  "checked_option ok x d = (case x of None \<Rightarrow> Inr d | Some v \<Rightarrow> check_float (ok v) v)"

definition given :: "real option \<Rightarrow> real \<Rightarrow> real" where
  "given x d = (case x of None \<Rightarrow> d | Some v \<Rightarrow> v)"

fun new_control :: "control_options \<Rightarrow> real \<Rightarrow> real \<Rightarrow> control res" where
  "new_control (Watermark d) pw smooth = rbind (checked_option (\<lambda>v. 0 < v) d 2) (\<lambda>d. Inr (BangBang (new_bang_bang pw d)))"
| "new_control (PidGains kp ki kd) pw smooth = Inr (PID (new_pid pw smooth kp ki kd))"

text \<open>\<open>report_time\<close> is the sensor's \<open>get_report_time_delta()\<close> and \<open>fileoutput\<close> says whether the output goes to a file. The result
  has the cycle time the pin is set up with.\<close>

definition new_heater :: "real \<Rightarrow> bool \<Rightarrow> heater_config \<Rightarrow> (heater \<times> real) res" where
  "new_heater report_time fileoutput c =
     rbind (check_float (hc_min_temp c \<ge> KELVIN_TO_CELSIUS) (hc_min_temp c)) (\<lambda>lo.
     rbind (check_float (hc_max_temp c > lo) (hc_max_temp c)) (\<lambda>hi.
     rbind (checked_option (\<lambda>v. lo \<le> v \<and> v \<le> hi) (hc_min_extrude_temp c) 160) (\<lambda>me.
     rbind (checked_option (\<lambda>v. 0 < v \<and> v \<le> 1) (hc_max_power c) 1) (\<lambda>pw.
     rbind (checked_option (\<lambda>v. 0 < v) (hc_smooth_time c) 1) (\<lambda>smooth.
     rbind (new_control (hc_control c) pw smooth) (\<lambda>ctl.
     rbind (checked_option (\<lambda>v. 0 < v \<and> v \<le> report_time) (hc_pwm_cycle_time c) (1 / 10)) (\<lambda>cycle.
       Inr (\<lparr>heater_name = hc_name c, min_temp = lo, max_temp = hi, pwm_delay = report_time, min_extrude_temp = me,
             can_extrude = (me \<le> 0 \<or> fileoutput), max_power = pw, smooth_time = smooth, last_temp = 0, smoothed_temp = 0,
             target_temp = 0, last_temp_time = 0, next_pwm_time = 0, last_pwm_value = 0, min_temp_warning = True,
             max_temp_warning = True, control = ctl, pwm_calls = []\<rparr>, cycle))))))))"

section \<open>The registry\<close>

record pheaters =
  heaters :: "(string, heater) dict"
  gcode_id_to_sensor :: "(string, string) dict"
  available_heaters :: "string list"
  available_sensors :: "string list"
  has_started :: bool
  heat_break :: bool

definition new_pheaters :: pheaters where
  "new_pheaters = \<lparr>heaters = [], gcode_id_to_sensor = [], available_heaters = [], available_sensors = [], has_started = False,
     heat_break = False\<rparr>"

text \<open>Sensors are kept by the name of their section; \<open>gcode_id\<close> is the argument or, without one, the option.\<close>

definition register_sensor :: "string \<Rightarrow> string option \<Rightarrow> pheaters \<Rightarrow> unit res \<times> pheaters" where
  "register_sensor section_name gcode_id s =
     (let s1 = s\<lparr>available_sensors := available_sensors s @ [section_name]\<rparr>
      in case gcode_id of None \<Rightarrow> (Inr (), s1)
         | Some i \<Rightarrow>
             if din i (gcode_id_to_sensor s1)
             then (Inl (AppError (''G-Code sensor id '' @ i @ '' already registered'')), s1)
             else (Inr (), s1\<lparr>gcode_id_to_sensor := dset i section_name (gcode_id_to_sensor s1)\<rparr>))"

definition setup_heater :: "(heater \<times> real) res \<Rightarrow> string \<Rightarrow> string \<Rightarrow> string option \<Rightarrow> pheaters \<Rightarrow> unit res \<times> pheaters" where
  "setup_heater made section_name name gcode_id s =
     (if din name (heaters s) then (Inl (AppError (''Heater '' @ name @ '' already registered'')), s)
      else case made of Inl e \<Rightarrow> (Inl e, s)
      | Inr (h, _) \<Rightarrow>
          case register_sensor section_name gcode_id (s\<lparr>heaters := dset name h (heaters s)\<rparr>) of
            (Inl e, s1) \<Rightarrow> (Inl e, s1)
          | (Inr _, s1) \<Rightarrow> (Inr (), s1\<lparr>available_heaters := available_heaters s1 @ [section_name]\<rparr>))"

definition lookup_heater :: "string \<Rightarrow> pheaters \<Rightarrow> heater res" where
  "lookup_heater name s = res_of (AppError (''Unknown heater '' @ name)) (dget (heaters s) name)"

definition turn_off_all_heaters :: "pheaters \<Rightarrow> pheaters" where
  "turn_off_all_heaters s = s\<lparr>heaters := map (\<lambda>(n, h). (n, snd (set_temp 0 h))) (heaters s)\<rparr>"

definition ph_handle_ready :: "pheaters \<Rightarrow> pheaters" where
  "ph_handle_ready s = s\<lparr>has_started := True\<rparr>"

text \<open>The readings of the line that answers \<open>M105\<close>, in the order of the ids; \<open>temp_of\<close> reads a sensor. No reading is \<open>T:0\<close>.\<close>

definition report_temps :: "(string \<Rightarrow> real \<times> real) \<Rightarrow> pheaters \<Rightarrow> (string \<times> real \<times> real) list" where
  "report_temps temp_of s =
     (if has_started s then map (\<lambda>(i, n). (i, temp_of n)) (sort_by (\<lambda>a b. str_le (fst a) (fst b)) (gcode_id_to_sensor s)) else [])"

text \<open>\<open>M105\<close> reports, and with a parameter \<open>S\<close>, which has to be above zero, it ends an interruption of heating.\<close>

definition cmd_M105 :: "(string \<Rightarrow> real \<times> real) \<Rightarrow> real option \<Rightarrow> pheaters \<Rightarrow> (string \<times> real \<times> real) list \<times> unit res \<times> pheaters" where
  "cmd_M105 temp_of S s =
     (report_temps temp_of s,
      case S of None \<Rightarrow> (Inr (), s)
      | Some v \<Rightarrow> if v \<le> 0 then (Inl (AppError ''Error on M105: S must be above 0''), s) else (Inr (), s\<lparr>heat_break := False\<rparr>))"

text \<open>A turn of the loop that waits for a heater: the time it pauses until, or none when it is done.\<close>

definition heat_wait_turn :: "bool \<Rightarrow> real \<Rightarrow> heater \<Rightarrow> pheaters \<Rightarrow> real option" where
  "heat_wait_turn is_shutdown eventtime h s =
     (if \<not> is_shutdown \<and> heater_busy h \<and> \<not> heat_break s then Some (eventtime + 1) else None)"

definition set_temperature :: "bool \<Rightarrow> bool \<Rightarrow> real \<Rightarrow> string \<Rightarrow> real \<Rightarrow> bool \<Rightarrow> pheaters \<Rightarrow> real option res \<times> pheaters" where
  "set_temperature debugoutput is_shutdown eventtime name temp wait s =
     (case dget (heaters s) name of None \<Rightarrow> (Inl (AppError (''Unknown heater '' @ name)), s)
      | Some h \<Rightarrow>
          case set_temp temp h of (Inl e, _) \<Rightarrow> (Inl e, s)
          | (Inr _, h1) \<Rightarrow>
              let s1 = s\<lparr>heaters := dset name h1 (heaters s)\<rparr>
              in (Inr (if wait \<and> temp \<noteq> 0 \<and> \<not> debugoutput then heat_wait_turn is_shutdown eventtime h1 s1 else None), s1))"

text \<open>\<open>SET_HEATER_TEMPERATURE\<close> runs \<open>relay_on\<close> first when an extruder is to be heated.\<close>

definition relay_needed :: "string \<Rightarrow> real \<Rightarrow> bool" where
  "relay_needed name temp \<longleftrightarrow> contains_str name ''extruder'' \<and> temp > 1 / 2"

definition cmd_SET_HEATER_TEMPERATURE where
  "cmd_SET_HEATER_TEMPERATURE debugoutput is_shutdown eventtime name target wait s =
     set_temperature debugoutput is_shutdown eventtime name (given target 0) (given wait 0 = 1) s"

text \<open>\<open>TEMPERATURE_WAIT\<close>: an absent bound is no bound. A turn reads the sensor.\<close>

definition temp_wait_check :: "string \<Rightarrow> real option \<Rightarrow> real option \<Rightarrow> pheaters \<Rightarrow> unit res" where
  "temp_wait_check sensor lo hi s =
     (if sensor \<notin> set (available_sensors s) then Inl (AppError (''Unknown sensor '' @ sensor))
      else case (lo, hi) of
        (Some l, Some u) \<Rightarrow> if u \<le> l then Inl (AppError ''MAXIMUM must be above MINIMUM'') else Inr ()
      | (None, None) \<Rightarrow> Inl (AppError ''Error on 'TEMPERATURE_WAIT': missing MINIMUM or MAXIMUM.'')
      | _ \<Rightarrow> Inr ())"

definition temp_wait_turn :: "bool \<Rightarrow> real \<Rightarrow> real \<Rightarrow> real option \<Rightarrow> real option \<Rightarrow> real option" where
  "temp_wait_turn is_shutdown eventtime temp lo hi =
     (if is_shutdown \<or> ((case lo of None \<Rightarrow> True | Some l \<Rightarrow> l \<le> temp) \<and> (case hi of None \<Rightarrow> True | Some u \<Rightarrow> temp \<le> u))
      then None else Some (eventtime + 1))"

section \<open>Power\<close>

fun control_ok :: "real \<Rightarrow> control \<Rightarrow> bool" where
  "control_ok p (BangBang c) \<longleftrightarrow> 0 \<le> bb_max_power c \<and> bb_max_power c \<le> p"
| "control_ok p (PID c) \<longleftrightarrow> 0 \<le> pid_max_power c \<and> pid_max_power c \<le> p"
| "control_ok p (AutoTune a) \<longleftrightarrow> 0 \<le> at_max_power a \<and> at_max_power a \<le> p"

definition heater_inv :: "heater \<Rightarrow> bool" where
  "heater_inv h \<longleftrightarrow> control_ok (max_power h) (control h) \<and> (\<forall>(t, v) \<in> set (pwm_calls h). 0 \<le> v \<and> v \<le> max_power h) \<and>
     last_pwm_value h = (if pwm_calls h = [] then 0 else snd (last (pwm_calls h))) \<and>
     next_pwm_time h \<le> last_temp_time h + pwm_delay h + 15 / 4 \<and> 0 \<le> pwm_delay h \<and> 0 < max_power h"

text \<open>The states of a heater: readings come in the order of their times, and the delay a sensor reports is not negative. A calibration
  puts back the control the heater had at some time before.\<close>

inductive heater_reach :: "heater \<Rightarrow> bool" where
  made: "new_heater report_time fileoutput c = Inr (h, cycle) \<Longrightarrow> 0 \<le> report_time \<Longrightarrow> heater_reach h"
| reading: "heater_reach h \<Longrightarrow> last_temp_time h \<le> t \<Longrightarrow> heater_reach (snd (temperature_callback t temp h))"
| target: "heater_reach h \<Longrightarrow> heater_reach (snd (set_temp degrees h))"
| altered: "heater_reach h \<Longrightarrow> heater_reach (alter_target degrees h)"
| calibrating: "heater_reach h \<Longrightarrow> heater_reach (snd (snd (start_calibration degrees h)))"
| calibrated: "heater_reach h \<Longrightarrow> heater_reach g \<Longrightarrow> max_power g = max_power h \<Longrightarrow> heater_reach (snd (finish_calibration (control g) h))"
| stats: "heater_reach h \<Longrightarrow> heater_reach (snd (snd (snd (heater_stats h))))"

lemma set_pwm_inv:
  assumes "heater_inv h" "0 \<le> v" "v \<le> max_power h" "last_temp_time h = t"
  shows "heater_inv (set_pwm t v h)"
  using assms by (auto simp: heater_inv_def set_pwm_def Let_def MAX_HEAT_TIME_def)

lemma set_pwm_keeps [simp]:
  "target_temp (set_pwm t v h) = target_temp h" "max_power (set_pwm t v h) = max_power h" "pwm_delay (set_pwm t v h) = pwm_delay h"
  "last_temp_time (set_pwm t v h) = last_temp_time h" "control (set_pwm t v h) = control h"
  by (simp_all add: set_pwm_def Let_def)

lemma pid_power: "pid_max_power (fst (pid_update t temp target c)) = pid_max_power c"
  "0 \<le> pid_max_power c \<Longrightarrow> 0 \<le> snd (pid_update t temp target c) \<and> snd (pid_update t temp target c) \<le> pid_max_power c"
  by (simp_all add: pid_update_def Let_def split: prod.split)

lemma bang_bang_power: "bb_max_power (fst (bang_bang_update temp target c)) = bb_max_power c"
  "snd (bang_bang_update temp target c) \<in> {0, bb_max_power c}"
  by (simp_all add: bang_bang_update_def Let_def)

lemma control_replaced: "heater_inv h \<Longrightarrow> control_ok (max_power h) c \<Longrightarrow> heater_inv (h\<lparr>control := c, target_temp := d\<rparr>)"
  by (simp add: heater_inv_def)

lemma control_only: "heater_inv h \<Longrightarrow> control_ok (max_power h) c \<Longrightarrow> heater_inv (h\<lparr>control := c\<rparr>)"
  by (simp add: heater_inv_def)

lemma alter_target_inv [simp]: "heater_inv (alter_target d h) = heater_inv h"
  and alter_target_keeps [simp]: "last_temp_time (alter_target d h) = last_temp_time h" "max_power (alter_target d h) = max_power h"
  by (simp_all add: alter_target_def heater_inv_def)

lemma check_peaks_power: "check_peaks a = (r, a') \<Longrightarrow> at_max_power a' = at_max_power a \<and> at_heating a' = at_heating a"
  by (auto simp: check_peaks_def Let_def)

lemma at_record_power [simp]: "at_max_power (at_record b t temp a) = at_max_power a"
  by (simp add: at_record_def)

lemma at_set_pwm_inv:
  assumes "heater_inv h" "control_ok (max_power h) (AutoTune a)" "v \<in> {0, at_max_power a}" "last_temp_time h = t"
  shows "heater_inv (at_set_pwm t v a h)"
  using assms unfolding at_set_pwm_def Let_def by (intro set_pwm_inv control_only) auto

lemma autotune_update_inv:
  assumes "heater_inv h" "control_ok (max_power h) (AutoTune a)" "last_temp_time h = t"
  shows "heater_inv (snd (autotune_update t temp a h))"
proof -
  obtain r :: "unit res" and a2 h2 where x: "autotune_update t temp a h = (case r of
        Inl e \<Rightarrow> (Inl e, h2\<lparr>control := AutoTune a2\<rparr>)
      | Inr _ \<Rightarrow> (Inr (), at_set_pwm t (if at_heating a2 then at_max_power a2 else 0) (at_record (at_heating a2) t temp a2) h2))"
    and k: "at_max_power a2 = at_max_power a" "heater_inv h2" "max_power h2 = max_power h" "last_temp_time h2 = last_temp_time h"
  proof -
    define b where "b = a\<lparr>temp_samples := temp_samples a @ [(t, temp)]\<rparr>"
    obtain r1 a1 where 1: "check_peaks (b\<lparr>at_heating := False\<rparr>) = (r1, a1)" by force
    obtain r2 a3 where 2: "check_peaks (b\<lparr>at_heating := True\<rparr>) = (r2, a3)" by force
    have "at_max_power a1 = at_max_power a" "at_max_power a3 = at_max_power a" "at_max_power b = at_max_power a"
      using check_peaks_power[OF 1] check_peaks_power[OF 2] by (simp_all add: b_def)
    note same = this
    note upd = autotune_update_def[of t temp a h, unfolded b_def[symmetric] Let_def 1 2 prod.case]
    consider "at_heating b \<and> target_temp h \<le> temp" | "\<not> (at_heating b \<and> target_temp h \<le> temp)" "\<not> at_heating b \<and> temp \<le> target_temp h"
      | "\<not> (at_heating b \<and> target_temp h \<le> temp)" "\<not> (\<not> at_heating b \<and> temp \<le> target_temp h)" by blast
    then show thesis
    proof cases
      case 1
      show thesis
        by (rule that[OF upd[unfolded if_P[OF 1] prod.case]]) (use same assms(1) in \<open>cases r1; simp\<close>)+
    next
      case 2
      show thesis
        by (rule that[OF upd[unfolded if_not_P[OF 2(1)] if_P[OF 2(2)] prod.case]]) (use same assms(1) in \<open>cases r2; simp\<close>)+
    next
      case 3
      show thesis
        by (rule that[OF upd[unfolded if_not_P[OF 3(1)] if_not_P[OF 3(2)] prod.case]]) (use same assms(1) in simp_all)
    qed
  qed
  have c: "control_ok (max_power h2) (AutoTune a2)" using assms(2) k by simp
  show ?thesis
  proof (cases r)
    case (Inl e)
    then show ?thesis using control_only[OF k(2) c] x by simp
  next
    case (Inr u)
    have "heater_inv (at_set_pwm t (if at_heating a2 then at_max_power a2 else 0) (at_record (at_heating a2) t temp a2) h2)"
      by (rule at_set_pwm_inv) (use k c assms(3) in auto)
    then show ?thesis using x Inr by simp
  qed
qed

lemma ctl_update_inv:
  assumes "heater_inv h" "last_temp_time h = t"
  shows "heater_inv (snd (ctl_update t temp h))"
proof (cases "control h")
  case (BangBang c)
  have "heater_inv (set_pwm t (snd (bang_bang_update temp (target_temp h) c)) (h\<lparr>control := BangBang (fst (bang_bang_update temp (target_temp h) c))\<rparr>))"
    by (rule set_pwm_inv; (rule control_only)?)
      (use assms BangBang bang_bang_power(2)[of temp "target_temp h" c] in \<open>auto simp: bang_bang_power(1) heater_inv_def\<close>)
  then show ?thesis by (simp add: ctl_update_def BangBang case_prod_beta)
next
  case (PID c)
  have "heater_inv (set_pwm t (snd (pid_update t temp (target_temp h) c)) (h\<lparr>control := PID (fst (pid_update t temp (target_temp h) c))\<rparr>))"
    by (rule set_pwm_inv; (rule control_only)?)
      (use assms PID pid_power(2)[of c t temp "target_temp h"] in \<open>auto simp: pid_power(1) heater_inv_def\<close>)
  then show ?thesis by (simp add: ctl_update_def PID case_prod_beta)
next
  case (AutoTune a)
  then show ?thesis using autotune_update_inv[of h a t temp] assms by (simp add: ctl_update_def heater_inv_def)
qed

lemma temperature_callback_inv:
  assumes "heater_inv h" "last_temp_time h \<le> t"
  shows "heater_inv (snd (temperature_callback t temp h))"
proof -
  let ?h = "h\<lparr>last_temp := temp, last_temp_time := t\<rparr>"
  obtain r h2 where u: "ctl_update t temp ?h = (r, h2)" by force
  have "heater_inv ?h" using assms by (simp add: heater_inv_def)
  then have "heater_inv h2" using ctl_update_inv[of ?h t temp] u by simp
  then show ?thesis by (cases r) (simp_all add: temperature_callback_def u Let_def heater_inv_def)
qed

lemma check_float_eq: "check_float ok v = Inr w \<longleftrightarrow> ok \<and> w = v"
  by (auto simp: check_float_def)

lemma checked_option_eq: "checked_option ok x d = Inr w \<longleftrightarrow> (case x of None \<Rightarrow> w = d | Some v \<Rightarrow> ok v \<and> w = v)"
  by (auto simp: checked_option_def check_float_eq split: option.splits)

lemma new_control_ok: "new_control c p smooth = Inr ctl \<Longrightarrow> 0 \<le> p \<Longrightarrow> control_ok p ctl"
  by (cases c) (auto simp: rbind_eq_Inr new_bang_bang_def new_pid_def Let_def)

lemma new_heater_inv:
  assumes "new_heater r f c = Inr (h, cy)" "0 \<le> r" shows "heater_inv h"
proof -
  obtain lo hi me p smooth ctl where p: "0 < p" "new_control (hc_control c) p smooth = Inr ctl"
    "h = \<lparr>heater_name = hc_name c, min_temp = lo, max_temp = hi, pwm_delay = r, min_extrude_temp = me,
             can_extrude = (me \<le> 0 \<or> f), max_power = p, smooth_time = smooth, last_temp = 0, smoothed_temp = 0,
             target_temp = 0, last_temp_time = 0, next_pwm_time = 0, last_pwm_value = 0, min_temp_warning = True,
             max_temp_warning = True, control = ctl, pwm_calls = []\<rparr>"
    using assms(1) by (auto simp: new_heater_def rbind_eq_Inr checked_option_eq split: option.splits)
  show ?thesis using new_control_ok[OF p(2)] p(1) assms(2) unfolding p(3) by (simp add: heater_inv_def)
qed

lemma heater_reach_inv: "heater_reach h \<Longrightarrow> heater_inv h"
proof (induction rule: heater_reach.induct)
  case (made report_time fileoutput c h cycle)
  then show ?case by (rule new_heater_inv)
next
  case (reading h t temp)
  then show ?case by (simp add: temperature_callback_inv)
qed (auto simp: heater_inv_def set_temp_def alter_target_def set_control_def start_calibration_def finish_calibration_def
    new_autotune_def heater_stats_def Let_def)

text \<open>C30: Whatever readings, targets and calibrations a heater sees, every power it sends to its pin is between zero and the
  configured maximum.\<close>

theorem heater_power_bounded:
  assumes "heater_reach h" "(t, v) \<in> set (pwm_calls h)"
  shows "0 \<le> v \<and> v \<le> max_power h"
  using heater_reach_inv[OF assms(1)] assms(2) by (auto simp: heater_inv_def)

definition heater1 :: heater where
  "heater1 = \<lparr>heater_name = ''extruder'', min_temp = 0, max_temp = 300, pwm_delay = 3 / 10, min_extrude_temp = 160,
     can_extrude = False, max_power = 1, smooth_time = 1, last_temp = 0, smoothed_temp = 0, target_temp = 0, last_temp_time = 0,
     next_pwm_time = 0, last_pwm_value = 0, min_temp_warning = True, max_temp_warning = True,
     control = BangBang \<lparr>bb_max_power = 1, max_delta = 2, heating = False\<rparr>, pwm_calls = []\<rparr>"

definition heated1 :: heater where
  "heated1 = snd (temperature_callback 1 20 (snd (set_temp 200 heater1)))"

lemma heated1_reach: "heater_reach heated1"
proof -
  have "new_heater (3 / 10) False \<lparr>hc_name = ''extruder'', hc_min_temp = 0, hc_max_temp = 300, hc_min_extrude_temp = None,
      hc_max_power = None, hc_smooth_time = None, hc_control = Watermark None, hc_pwm_cycle_time = None\<rparr> = Inr (heater1, 1 / 10)"
    by (simp add: new_heater_def check_float_def checked_option_def KELVIN_TO_CELSIUS_def new_bang_bang_def heater1_def)
  then have "heater_reach heater1" by (rule heater_reach.made) simp
  then show ?thesis
    unfolding heated1_def by (intro heater_reach.reading heater_reach.target) (simp_all add: set_temp_def heater1_def)
qed

lemma heated1_eq:
  "heated1 = heater1\<lparr>target_temp := 200, last_temp := 20, last_temp_time := 1, next_pwm_time := 101 / 20, last_pwm_value := 1,
     pwm_calls := [(13 / 10, 1)], smoothed_temp := 20, can_extrude := False,
     control := BangBang \<lparr>bb_max_power = 1, max_delta = 2, heating = True\<rparr>\<rparr>"
  by (simp add: heated1_def heater1_def temperature_callback_def ctl_update_def set_temp_def bang_bang_update_def set_pwm_def MAX_HEAT_TIME_def)

theorem heater_power_bounded_witness:
  "(13 / 10, 1) \<in> set (pwm_calls heated1) \<and> (0 :: real) \<le> 1 \<and> 1 \<le> max_power heated1"
  using heater_power_bounded[OF heated1_reach, of "13 / 10" 1] by (simp add: heated1_eq)

section \<open>Turning off\<close>

definition readings :: "(real \<times> real) list \<Rightarrow> heater \<Rightarrow> heater" where
  "readings rs h = foldl (\<lambda>h (t, temp). snd (temperature_callback t temp h)) h rs"

definition tuning :: "heater \<Rightarrow> bool" where
  "tuning h \<longleftrightarrow> (case control h of AutoTune a \<Rightarrow> True | _ \<Rightarrow> False)"

text \<open>One reading of a heater without a target: it is at zero, or nothing has changed and the time for a repeated call has not come.\<close>

lemma off_reading:
  assumes off: "target_temp h \<le> 0" "\<not> tuning h"
  obtains h' where "temperature_callback t temp h = (Inr (), h')" "target_temp h' = target_temp h" "\<not> tuning h'" "pwm_delay h' = pwm_delay h"
    "(last_pwm_value h' = 0 \<and> (\<exists>zs. pwm_calls h' = pwm_calls h @ zs \<and> (\<forall>z \<in> set zs. snd z = 0))) \<or>
     (last_pwm_value h' = last_pwm_value h \<and> next_pwm_time h' = next_pwm_time h \<and> pwm_calls h' = pwm_calls h \<and>
      t < next_pwm_time h \<and> \<bar>last_pwm_value h\<bar> < 1 / 20)"
proof -
  let ?h = "h\<lparr>last_temp := temp, last_temp_time := t\<rparr>"
  obtain c v where u: "ctl_update t temp ?h = (Inr (), set_pwm t v (?h\<lparr>control := c\<rparr>))" and c: "\<not> tuning (h\<lparr>control := c\<rparr>)"
  proof (cases "control h")
    case (BangBang b)
    obtain b' w where "bang_bang_update temp (target_temp h) b = (b', w)" by force
    then show thesis using that[of w "BangBang b'"] BangBang by (simp add: ctl_update_def tuning_def)
  next
    case (PID b)
    obtain b' w where "pid_update t temp (target_temp h) b = (b', w)" by force
    then show thesis using that[of w "PID b'"] PID by (simp add: ctl_update_def tuning_def)
  qed (use off(2) in \<open>simp add: tuning_def\<close>)
  have p: "(last_pwm_value (set_pwm t v g) = 0 \<and> (\<exists>zs. pwm_calls (set_pwm t v g) = pwm_calls g @ zs \<and> (\<forall>z \<in> set zs. snd z = 0))) \<or>
     (last_pwm_value (set_pwm t v g) = last_pwm_value g \<and> next_pwm_time (set_pwm t v g) = next_pwm_time g \<and>
      pwm_calls (set_pwm t v g) = pwm_calls g \<and> t < next_pwm_time g \<and> \<bar>last_pwm_value g\<bar> < 1 / 20)"
    if "target_temp g \<le> 0" for g
    using that by (auto simp: set_pwm_def Let_def)
  have tc: "temperature_callback t temp h = (Inr (), let g = set_pwm t v (?h\<lparr>control := c\<rparr>);
      s = smoothed_temp g + (temp - smoothed_temp g) * min ((t - last_temp_time h) * (1 / smooth_time g)) 1
    in g\<lparr>smoothed_temp := s, can_extrude := (s \<ge> min_extrude_temp g)\<rparr>)"
    by (simp add: temperature_callback_def u Let_def)
  show thesis
    by (rule that[OF tc[unfolded Let_def]]) (use off(1) c p[of "?h\<lparr>control := c\<rparr>"] in \<open>simp_all add: tuning_def\<close>)
qed

lemma off_keeps: "target_temp h \<le> 0 \<Longrightarrow> \<not> tuning h \<Longrightarrow> target_temp (readings rs h) = target_temp h \<and> \<not> tuning (readings rs h)"
proof (induction rs rule: rev_induct)
  case (snoc y ys)
  then have off: "target_temp (readings ys h) \<le> 0" "\<not> tuning (readings ys h)" by simp_all
  obtain h' where "temperature_callback (fst y) (snd y) (readings ys h) = (Inr (), h')" "target_temp h' = target_temp (readings ys h)" "\<not> tuning h'"
    by (rule off_reading[OF off])
  then show ?case using snoc by (simp add: readings_def case_prod_beta)
qed (simp add: readings_def)

lemma off_readings:
  assumes "target_temp h \<le> 0" "\<not> tuning h" "rs \<noteq> []"
  shows "(\<exists>zs. pwm_calls (readings rs h) = pwm_calls h @ zs \<and> (\<forall>z \<in> set zs. snd z = 0)) \<and>
    (last_pwm_value (readings rs h) = 0 \<or>
     (last_pwm_value (readings rs h) = last_pwm_value h \<and> next_pwm_time (readings rs h) = next_pwm_time h \<and>
      fst (last rs) < next_pwm_time h \<and> \<bar>last_pwm_value h\<bar> < 1 / 20))"
  using assms(3,1,2)
proof (induction rs rule: rev_nonempty_induct)
  case (single x)
  show ?case by (rule off_reading[OF single(1,2), of "fst x" "snd x"]) (auto simp: readings_def case_prod_beta)
next
  case (snoc x rs)
  have off: "target_temp (readings rs h) \<le> 0" "\<not> tuning (readings rs h)" using off_keeps[OF snoc.prems, of rs] snoc.prems(1) by simp_all
  have step: "readings (rs @ [x]) h = snd (temperature_callback (fst x) (snd x) (readings rs h))"
    by (simp add: readings_def case_prod_beta)
  obtain zs0 where ih: "pwm_calls (readings rs h) = pwm_calls h @ zs0" "\<forall>z \<in> set zs0. snd z = 0"
    "last_pwm_value (readings rs h) = 0 \<or> (last_pwm_value (readings rs h) = last_pwm_value h \<and>
      next_pwm_time (readings rs h) = next_pwm_time h \<and> \<bar>last_pwm_value h\<bar> < 1 / 20)"
    using snoc.IH[OF snoc.prems] by blast
  obtain h' where h': "temperature_callback (fst x) (snd x) (readings rs h) = (Inr (), h')"
    "(last_pwm_value h' = 0 \<and> (\<exists>zs. pwm_calls h' = pwm_calls (readings rs h) @ zs \<and> (\<forall>z \<in> set zs. snd z = 0))) \<or>
     (last_pwm_value h' = last_pwm_value (readings rs h) \<and> next_pwm_time h' = next_pwm_time (readings rs h) \<and>
      pwm_calls h' = pwm_calls (readings rs h) \<and> fst x < next_pwm_time (readings rs h))"
    by (rule off_reading[OF off, of "fst x" "snd x"]) blast
  from h'(2) have "\<exists>zs. pwm_calls h' = pwm_calls h @ zs \<and> (\<forall>z \<in> set zs. snd z = 0)"
  proof (elim disjE conjE exE)
    fix zs assume "pwm_calls h' = pwm_calls (readings rs h) @ zs" "\<forall>z \<in> set zs. snd z = 0"
    then show ?thesis using ih(1,2) by (intro exI[of _ "zs0 @ zs"]) auto
  qed (use ih(1,2) in simp)
  moreover have "last_pwm_value h' = 0 \<or> (last_pwm_value h' = last_pwm_value h \<and> next_pwm_time h' = next_pwm_time h \<and>
      fst x < next_pwm_time h \<and> \<bar>last_pwm_value h\<bar> < 1 / 20)"
    using h'(2) ih(3) by (elim disjE conjE) simp_all
  ultimately show ?case by (simp add: step h'(1))
qed



text \<open>While it is calibrated a heater cannot be turned off: the next reading above zero sets the target again.\<close>

lemma calibration_undoes_turn_off:
  assumes "control h = AutoTune a" "at_heating a" "length (peaks a) < 3" "0 \<le> temp"
    and "min_temp h \<le> calibrate_temp a - TUNE_PID_DELTA" "calibrate_temp a - TUNE_PID_DELTA \<le> max_temp h" "calibrate_temp a \<noteq> TUNE_PID_DELTA"
  shows "target_temp (snd (temperature_callback t temp (snd (set_temp 0 h)))) = calibrate_temp a - TUNE_PID_DELTA"
  using assms
  by (simp add: temperature_callback_def ctl_update_def autotune_update_def check_peaks_def set_temp_def at_set_pwm_def Let_def)
    (simp add: alter_target_def)

end
