(* ===== verification/VerifyHeater.thy ===== *)
theory VerifyHeater
  imports Heaters
begin

text \<open>
  \<open>klippy/extras/verify_heater.py\<close>: the check that a heater warms at the expected rate and keeps its target. A check reads the
  temperature and the target of the heater; a fault shuts the printer down.
\<close>

section \<open>The check\<close>

record heater_check =
  hysteresis :: real
  max_error :: real
  heating_gain :: real
  check_gain_time :: real
  approaching_target :: bool
  starting_approach :: bool
  last_target :: real
  goal_temp :: real
  heat_error :: real
  goal_systime :: real

record check_config =
  cc_hysteresis :: "real option"
  cc_max_error :: "real option"
  cc_heating_gain :: "real option"
  cc_check_gain_time :: "real option"

text \<open>The options are read, and checked, before the values of the extruder replace two of them.\<close>

definition new_heater_check :: "real \<Rightarrow> string \<Rightarrow> check_config \<Rightarrow> heater_check res" where
  "new_heater_check never name c =
     rbind (let v = given (cc_hysteresis c) 5 in check_float (0 \<le> v) v) (\<lambda>hy.
     rbind (let v = given (cc_max_error c) 120 in check_float (0 \<le> v) v) (\<lambda>me.
     rbind (let v = given (cc_heating_gain c) 2 in check_float (0 < v) v) (\<lambda>hg.
     rbind (let v = given (cc_check_gain_time c) (if name = ''heater_bed'' then 60 else 20) in check_float (1 \<le> v) v) (\<lambda>gt.
       Inr \<lparr>hysteresis = (if name = ''extruder'' then 6 else hy), max_error = (if name = ''extruder'' then 150 else me),
            heating_gain = hg, check_gain_time = gt, approaching_target = False, starting_approach = False, last_target = 0,
            goal_temp = 0, heat_error = 0, goal_systime = never\<rparr>))))"

text \<open>One call of the timer at time \<open>t\<close>: None is a fault, otherwise it is called again a second later.\<close>

definition check_event :: "real \<Rightarrow> real \<Rightarrow> real \<Rightarrow> heater_check \<Rightarrow> (real \<times> heater_check) option" where
  "check_event t temp target s =
     (if temp \<ge> target - hysteresis s \<or> target \<le> 0 then
        Some (t + 1, s\<lparr>approaching_target := False, starting_approach := False,
                       heat_error := (if temp \<le> target + hysteresis s then 0 else heat_error s), last_target := target\<rparr>)
      else
        let s1 = s\<lparr>heat_error := heat_error s + ((target - hysteresis s) - temp)\<rparr>
        in if \<not> approaching_target s1 then
             (if target \<noteq> last_target s1 then
                Some (t + 1, s1\<lparr>approaching_target := True, starting_approach := True, goal_temp := temp + heating_gain s1,
                                goal_systime := t + check_gain_time s1, last_target := target\<rparr>)
              else if heat_error s1 \<ge> max_error s1 then None
              else Some (t + 1, s1\<lparr>last_target := target\<rparr>))
           else if temp \<ge> goal_temp s1 then
             Some (t + 1, s1\<lparr>starting_approach := False, heat_error := 0, goal_temp := temp + heating_gain s1,
                             goal_systime := t + check_gain_time s1, last_target := target\<rparr>)
           else if t \<ge> goal_systime s1 then Some (t + 1, s1\<lparr>approaching_target := False, last_target := target\<rparr>)
           else if starting_approach s1 then
             Some (t + 1, s1\<lparr>goal_temp := min (goal_temp s1) (temp + heating_gain s1), last_target := target\<rparr>)
           else Some (t + 1, s1\<lparr>last_target := target\<rparr>))"

text \<open>A series of calls with the times and temperatures they see, while the target stays: None if one of them is a fault.\<close>

fun check_events :: "real \<Rightarrow> (real \<times> real) list \<Rightarrow> heater_check \<Rightarrow> heater_check option" where
  "check_events target [] s = Some s"
| "check_events target ((t, temp) # rs) s =
     (case check_event t temp target s of None \<Rightarrow> None | Some (_, s') \<Rightarrow> check_events target rs s')"

text \<open>The messages of a fault.\<close>

definition heater_fault :: "string \<Rightarrow> string" where
  "heater_fault name = ''Heater '' @ name @ '' not heating at expected rate''"

section \<open>A heater that does not warm is found\<close>

text \<open>Readings that stay in a range narrower than the expected gain, at least \<open>d\<close> below what is tolerated, with a second between
  calls.\<close>

fun cold :: "real \<Rightarrow> real \<Rightarrow> real \<Rightarrow> heater_check \<Rightarrow> (real \<times> real) list \<Rightarrow> bool" where
  "cold target low d s [] \<longleftrightarrow> True"
| "cold target low d s ((t, temp) # rs) \<longleftrightarrow> low \<le> temp \<and> temp < low + heating_gain s \<and> temp \<le> target - hysteresis s - d \<and>
     (case rs of [] \<Rightarrow> True | (t', _) # _ \<Rightarrow> t + 1 \<le> t') \<and> cold target low d s rs"

lemma cold_same:
  "hysteresis s' = hysteresis s \<Longrightarrow> heating_gain s' = heating_gain s \<Longrightarrow> cold target low d s' rs = cold target low d s rs"
  by (induction target low d s rs rule: cold.induct) auto

lemma check_event_config:
  assumes "check_event t temp target s = Some (w, s')"
  shows "hysteresis s' = hysteresis s" "heating_gain s' = heating_gain s" "max_error s' = max_error s"
    "check_gain_time s' = check_gain_time s" "last_target s' = target"
  using assms by (auto simp: check_event_def Let_def split: if_splits)

text \<open>Once it no longer approaches the target: every call adds at least \<open>d\<close> to the error.\<close>

lemma cold_error:
  assumes "\<not> approaching_target s" "last_target s = target" "0 < target" "0 < d" "cold target low d s rs"
    "max_error s \<le> heat_error s + real (length rs) * d" "rs \<noteq> []"
  shows "check_events target rs s = None"
  using assms
proof (induction target rs s rule: check_events.induct)
  case (2 target t temp rs s)
  define s1 where "s1 = s\<lparr>heat_error := heat_error s + ((target - hysteresis s) - temp), last_target := target\<rparr>"
  have lt: "\<not> temp \<ge> target - hysteresis s" and err: "heat_error s + d \<le> heat_error s1"
    using "2.prems"(4,5) by (auto simp: s1_def)
  show ?case
  proof (cases "heat_error s1 \<ge> max_error s")
    case True
    then show ?thesis using "2.prems"(1-3) lt by (simp add: check_event_def s1_def Let_def)
  next
    case False
    then have e: "check_event t temp target s = Some (t + 1, s1)"
      using "2.prems"(1-3) lt by (simp add: check_event_def s1_def Let_def)
    have ne: "rs \<noteq> []" using False err "2.prems"(6) by auto
    have "cold target low d s1 rs" using "2.prems"(5) cold_same[of s1 s] by (simp add: s1_def)
    moreover have "max_error s1 \<le> heat_error s1 + real (length rs) * d"
      using "2.prems"(6) err by (simp add: s1_def algebra_simps)
    ultimately have "check_events target rs s1 = None"
      using 2(1)[OF e refl] "2.prems"(1-4) ne by (simp add: s1_def)
    then show ?thesis using e by simp
  qed
qed simp

text \<open>While it approaches the target: the goal stays out of reach until its time is over.\<close>

lemma cold_over:
  assumes "approaching_target s" "0 < target" "0 < d" "cold target low d s ((t, temp) # rs)" "low + heating_gain s \<le> goal_temp s"
    "0 \<le> heat_error s" "goal_systime s \<le> t" "n \<le> length rs" "0 < n" "max_error s \<le> real n * d"
  shows "check_events target ((t, temp) # rs) s = None"
proof -
  define s1 where "s1 = s\<lparr>heat_error := heat_error s + ((target - hysteresis s) - temp), approaching_target := False, last_target := target\<rparr>"
  have e: "check_event t temp target s = Some (t + 1, s1)"
    using assms(1-7) by (simp add: check_event_def s1_def Let_def)
  have c: "cold target low d s1 rs" using assms(4) cold_same[of s1 s] by (simp add: s1_def)
  have "0 \<le> heat_error s1" using assms(3,4,6) by (simp add: s1_def)
  moreover have "real n * d \<le> real (length rs) * d" using assms(3,8) by (intro mult_right_mono) simp_all
  ultimately have "max_error s1 \<le> heat_error s1 + real (length rs) * d" using assms(10) by (simp add: s1_def)
  then have "check_events target rs s1 = None"
    using assms(2,3,8,9) c by (intro cold_error[where d = d and low = low]) (auto simp: s1_def)
  then show ?thesis using e by simp
qed

lemma cold_approach:
  assumes "approaching_target s" "0 < target" "0 < d" "cold target low d s rs" "low + heating_gain s \<le> goal_temp s"
    "0 \<le> heat_error s" "goal_systime s \<le> fst (hd rs) + real k" "k + 1 + n \<le> length rs" "0 < n" "max_error s \<le> real n * d"
  shows "check_events target rs s = None"
  using assms
proof (induction k arbitrary: rs s)
  case 0
  then obtain t temp rs' where rs: "rs = (t, temp) # rs'" by (cases rs) auto
  show ?case unfolding rs by (rule cold_over[where n = n]) (use 0 in \<open>simp_all add: rs\<close>)
next
  case (Suc k)
  then obtain t temp rs' where rs: "rs = (t, temp) # rs'" by (cases rs) auto
  show ?case
  proof (cases "goal_systime s \<le> t")
    case True
    show ?thesis unfolding rs by (rule cold_over[where n = n]) (use Suc True in \<open>simp_all add: rs\<close>)
  next
    case False
    define s1 where "s1 = s\<lparr>heat_error := heat_error s + ((target - hysteresis s) - temp), last_target := target,
      goal_temp := (if starting_approach s then min (goal_temp s) (temp + heating_gain s) else goal_temp s)\<rparr>"
    have e: "check_event t temp target s = Some (t + 1, s1)"
      using Suc.prems(1-7) False by (simp add: check_event_def s1_def Let_def rs)
    obtain t' temp' rs'' where rs': "rs' = (t', temp') # rs''"
      using Suc.prems(8) rs by (cases rs') auto
    have "check_events target rs' s1 = None"
    proof (rule Suc.IH)
      show "approaching_target s1" "low + heating_gain s1 \<le> goal_temp s1" "0 \<le> heat_error s1" "max_error s1 \<le> real n * d"
        using Suc.prems rs by (auto simp: s1_def)
      show "cold target low d s1 rs'" using Suc.prems(4) cold_same[of s1 s] by (simp add: rs s1_def)
      show "goal_systime s1 \<le> fst (hd rs') + real k" using Suc.prems(4,7) by (simp add: rs rs' s1_def)
      show "k + 1 + n \<le> length rs'" using Suc.prems(8) by (simp add: rs)
    qed (use Suc.prems in auto)
    then show ?thesis using e by (simp add: rs)
  qed
qed

text \<open>C20: A heater that is given a target and stays cold is found: if the readings stay within less than the expected gain of
  each other and at least \<open>d\<close> below what is tolerated, the check shuts the printer down, after no more calls than the seconds
  allowed for a gain, the tolerated error over \<open>d\<close>, and three.\<close>

theorem cold_heater_found:
  assumes "\<not> approaching_target s" "0 \<le> heat_error s" "0 < target" "0 < d" "cold target low d s rs"
    "nat \<lceil>check_gain_time s\<rceil> + nat \<lceil>max_error s / d\<rceil> + 3 \<le> length rs"
  shows "check_events target rs s = None"
proof -
  define n where "n = nat \<lceil>max_error s / d\<rceil> + 1"
  define k where "k = nat \<lceil>check_gain_time s\<rceil>"
  have "max_error s / d \<le> real n" by (simp add: n_def) linarith
  then have n: "0 < n" "max_error s \<le> real n * d" using assms(4) by (simp_all add: n_def pos_divide_le_eq)
  have gt: "check_gain_time s \<le> real k" by (simp add: k_def real_nat_ceiling_ge)
  obtain t temp rs' where rs: "rs = (t, temp) # rs'" using assms(6) by (cases rs) auto
  show ?thesis
  proof (cases "target = last_target s")
    case True
    have "n \<le> length rs" using assms(6) by (simp add: n_def)
    then have "real n * d \<le> real (length rs) * d" using assms(4) by (intro mult_right_mono) simp_all
    then have "max_error s \<le> heat_error s + real (length rs) * d" using n(2) assms(2) by linarith
    then show ?thesis
      using assms(1-5) rs True by (intro cold_error[where d = d and low = low]) auto
  next
    case False
    define s1 where "s1 = s\<lparr>heat_error := heat_error s + ((target - hysteresis s) - temp), approaching_target := True,
      starting_approach := True, goal_temp := temp + heating_gain s, goal_systime := t + check_gain_time s, last_target := target\<rparr>"
    have e: "check_event t temp target s = Some (t + 1, s1)"
      using assms(1-5) False by (simp add: check_event_def s1_def Let_def rs)
    obtain t' temp' rs'' where rs': "rs' = (t', temp') # rs''" using assms(6) rs by (cases rs') auto
    have "check_events target rs' s1 = None"
    proof (rule cold_approach[where k = k and n = n and d = d and low = low])
      show "cold target low d s1 rs'" using assms(5) cold_same[of s1 s] by (simp add: rs s1_def)
      show "goal_systime s1 \<le> fst (hd rs') + real k" using assms(5) gt by (simp add: rs rs' s1_def)
      show "k + 1 + n \<le> length rs'" using assms(6) by (simp add: rs n_def k_def)
    qed (use assms n in \<open>auto simp: s1_def rs\<close>)
    then show ?thesis using e by (simp add: rs)
  qed
qed

text \<open>With the default options, for a heater at 20 degrees and a target of 200: 25 calls are enough.\<close>

definition check1 :: heater_check where
  "check1 = \<lparr>hysteresis = 5, max_error = 120, heating_gain = 2, check_gain_time = 20, approaching_target = False,
     starting_approach = False, last_target = 0, goal_temp = 0, heat_error = 0, goal_systime = 0\<rparr>"

lemma cold_map:
  assumes "low \<le> temp" "temp < low + heating_gain s" "temp \<le> target - hysteresis s - d"
  shows "cold target low d s (map (\<lambda>i. (real i, temp)) [a..<b])"
proof (induction "b - a" arbitrary: a)
  case 0
  then show ?case by simp
next
  case (Suc x)
  then have "[a..<b] = a # [Suc a..<b]" "x = b - Suc a" by (simp_all add: upt_conv_Cons)
  then show ?case using Suc(1)[of "Suc a"] assms by (cases "Suc a < b") (auto simp: upt_conv_Cons)
qed

theorem cold_heater_found_witness:
  "check_events 200 (map (\<lambda>i. (real i, 20)) [0..<25]) check1 = None"
  by (rule cold_heater_found[where d = 100 and low = 20, OF _ _ _ _ cold_map])
    (simp_all add: check1_def)

end
