(* ===== verification/SaveVariables.thy ===== *)
theory SaveVariables
  imports GCode
begin

text \<open>
  \<open>klippy/extras/save_variables.py\<close>: values that survive a restart. A command changes the table in memory and hands a copy
  of the whole table to a thread through a bounded queue; the thread writes each copy to the file.

  \<open>literal_eval\<close> and \<open>repr\<close> of Python are the parameters \<open>evl\<close> and \<open>shw\<close>. The file is what \<open>configparser\<close> makes of it:
  \<open>None\<close> without a section \<open>Variables\<close>, else the texts of its options, whose names \<open>configparser\<close> puts in lower case.
\<close>

section \<open>State and operations\<close>

record 'v save_variables =
  all_variables :: "(string, 'v) dict"
  vars_queue :: "(string, 'v) dict list"
  thread_stop :: bool
  var_file :: "(string, string) dict option"
  sv_output :: "string list"

definition queue_max :: nat where "queue_max = 100"

definition load_variables :: "(string \<Rightarrow> 'v res) \<Rightarrow> (string, string) dict option \<Rightarrow> (string, 'v) dict res" where
  "load_variables evl file =
     (case file of
        None \<Rightarrow> Inr []
      | Some items \<Rightarrow>
          (case rmap (\<lambda>(name, val). rbind (evl val) (\<lambda>v. Inr (name, v))) items of
             Inl _ \<Rightarrow> Inl (AppError ''Unable to parse existing variable file'')
           | Inr kvs \<Rightarrow> Inr (dict_of kvs)))"

definition new_save_variables ::
  "(string \<Rightarrow> 'v res) \<Rightarrow> (string, string) dict option \<Rightarrow> 'v save_variables res" where
  "new_save_variables evl file =
     rbind (load_variables evl file) (\<lambda>vars.
       Inr \<lparr>all_variables = vars, vars_queue = [], thread_stop = False, var_file = file, sv_output = []\<rparr>)"

definition sv_disconnect :: "'v save_variables \<Rightarrow> 'v save_variables" where
  "sv_disconnect s = s\<lparr>thread_stop := True\<rparr>"

text \<open>\<open>put_nowait\<close>, whose \<open>queue.Full\<close> is caught and logged, and the assignment that follows.\<close>

definition put_variables :: "(string, 'v) dict \<Rightarrow> 'v save_variables \<Rightarrow> 'v save_variables" where
  "put_variables vars s =
     s\<lparr>vars_queue := (if length (vars_queue s) < queue_max then vars_queue s @ [vars] else vars_queue s),
       all_variables := vars\<rparr>"

definition cmd_SAVE_VARIABLE ::
  "(string \<Rightarrow> 'v res) \<Rightarrow> gcmd \<Rightarrow> 'v save_variables \<Rightarrow> unit res \<times> 'v save_variables" where
  "cmd_SAVE_VARIABLE evl g s =
     (case gc_get_str ''VARIABLE'' Required g of Inl e \<Rightarrow> (Inl e, s) | Inr varname \<Rightarrow>
      case gc_get_str ''VALUE'' Required g of Inl e \<Rightarrow> (Inl e, s) | Inr val \<Rightarrow>
      case evl (the val) of
        Inl ValueError \<Rightarrow> (Inl (gc_error g (''Unable to parse '' @ quoted (the val) @ '' as a literal'')), s)
      | Inl e \<Rightarrow> (Inl e, s)
      | Inr v \<Rightarrow>
          (Inr (), (put_variables (dset (the varname) v (all_variables s)) s)\<lparr>sv_output := sv_output s @ [''Variable Saved'']\<rparr>))"

definition set_variables :: "(string, 'v) dict \<Rightarrow> bool \<Rightarrow> 'v save_variables \<Rightarrow> 'v save_variables" where
  "set_variables vars display s =
     (let newvars = dset_all (sort_by (\<lambda>a b. str_le (fst a) (fst b)) vars) (all_variables s);
          s1 = put_variables newvars s
      in if display then s1\<lparr>sv_output := sv_output s @ [''Variable Saved'']\<rparr> else s1)"

text \<open>What a copy of the table becomes in the file.\<close>

definition file_of :: "('v \<Rightarrow> string) \<Rightarrow> (string, 'v) dict \<Rightarrow> (string, string) dict" where
  "file_of shw vars = dict_of (map (\<lambda>(name, v). (lower name, shw v)) (sort_by (\<lambda>a b. str_le (fst a) (fst b)) vars))"

text \<open>One turn of the thread; \<open>ok\<close> says whether the file system takes the file.\<close>

definition save_vars_thread :: "('v \<Rightarrow> string) \<Rightarrow> bool \<Rightarrow> 'v save_variables \<Rightarrow> 'v save_variables" where
  "save_vars_thread shw ok s =
     (if thread_stop s then s
      else case vars_queue s of
        [] \<Rightarrow> s
      | vars # q \<Rightarrow> s\<lparr>vars_queue := q, var_file := (if ok then Some (file_of shw vars) else var_file s)\<rparr>)"

section \<open>Runs\<close>

datatype 'v sv_op = Save gcmd | SetVars "(string, 'v) dict" bool | Turn bool | Disconnect

fun sv_step :: "(string \<Rightarrow> 'v res) \<Rightarrow> ('v \<Rightarrow> string) \<Rightarrow> 'v sv_op \<Rightarrow> 'v save_variables \<Rightarrow> 'v save_variables" where
  "sv_step evl shw (Save g) s = snd (cmd_SAVE_VARIABLE evl g s)"
| "sv_step evl shw (SetVars vars d) s = set_variables vars d s"
| "sv_step evl shw (Turn ok) s = save_vars_thread shw ok s"
| "sv_step evl shw Disconnect s = sv_disconnect s"

text \<open>Names as the file keeps them, a queue with room, a file system that takes the file, and no disconnect.\<close>

definition plain_names :: "string list \<Rightarrow> bool" where
  "plain_names names \<longleftrightarrow> (\<forall>n \<in> set names. lower n = n)"

fun sv_fine :: "'v sv_op \<Rightarrow> 'v save_variables \<Rightarrow> bool" where
  "sv_fine (Save g) s \<longleftrightarrow> length (vars_queue s) < queue_max \<and>
     (case dget (gc_params g) ''VARIABLE'' of None \<Rightarrow> True | Some n \<Rightarrow> lower n = n)"
| "sv_fine (SetVars vars d) s \<longleftrightarrow> length (vars_queue s) < queue_max \<and> plain_names (dkeys vars)"
| "sv_fine (Turn ok) s \<longleftrightarrow> ok"
| "sv_fine Disconnect s \<longleftrightarrow> False"

fun sv_run :: "(string \<Rightarrow> 'v res) \<Rightarrow> ('v \<Rightarrow> string) \<Rightarrow> 'v sv_op list \<Rightarrow> 'v save_variables \<Rightarrow> 'v save_variables option" where
  "sv_run evl shw [] s = Some s"
| "sv_run evl shw (e # es) s = (if sv_fine e s then sv_run evl shw es (sv_step evl shw e s) else None)"

section \<open>The file gives the table back\<close>

definition good_vars :: "(string, 'v) dict \<Rightarrow> bool" where
  "good_vars vars \<longleftrightarrow> dwf vars \<and> plain_names (dkeys vars)"

lemma file_of_good:
  assumes "good_vars vars"
  shows "file_of shw vars = map (\<lambda>(n, v). (n, shw v)) (sort_by (\<lambda>a b. str_le (fst a) (fst b)) vars)"
proof -
  let ?s = "sort_by (\<lambda>a b. str_le (fst a) (fst b)) vars"
  have l: "map (\<lambda>(n, v). (lower n, shw v)) ?s = map (\<lambda>(n, v). (n, shw v)) ?s"
    using assms by (auto simp: good_vars_def plain_names_def)
  have m: "map fst (map (\<lambda>(n, v). (n, shw v)) ?s) = map fst ?s" by auto
  have "distinct (map fst (map (\<lambda>(n, v). (n, shw v)) ?s))"
    unfolding m using assms unfolding good_vars_def by simp
  then show ?thesis unfolding file_of_def l by (rule dict_of_distinct)
qed

lemma rmap_shown:
  "(\<And>v. evl (shw v) = Inr v) \<Longrightarrow>
    rmap (\<lambda>(n, val). rbind (evl val) (\<lambda>v. Inr (n, v))) (map (\<lambda>(n, v). (n, shw v)) xs) = Inr xs"
  by (induction xs) auto

lemma load_file_of:
  assumes "good_vars vars" "\<And>v. evl (shw v) = Inr v"
  shows "\<exists>t. load_variables evl (Some (file_of shw vars)) = Inr t \<and> dget t = dget vars"
proof -
  let ?s = "sort_by (\<lambda>a b. str_le (fst a) (fst b)) vars"
  have d: "distinct (map fst ?s)" "distinct (map fst vars)" using assms(1) by (simp_all add: good_vars_def)
  have "rmap (\<lambda>(name, val). rbind (evl val) (\<lambda>v. Inr (name, v))) (map (\<lambda>(n, v). (n, shw v)) ?s) = Inr ?s"
    by (rule rmap_shown) (rule assms(2))
  then have "load_variables evl (Some (file_of shw vars)) = Inr ?s"
    by (simp add: load_variables_def file_of_good [OF assms(1)] dict_of_distinct [OF d(1)])
  moreover have "dget ?s = dget vars" using d by (simp add: map_of_inject_set)
  ultimately show ?thesis by blast
qed

section \<open>Nothing that was saved is lost\<close>

definition loads_to :: "(string \<Rightarrow> 'v res) \<Rightarrow> 'v save_variables \<Rightarrow> (string, 'v) dict \<Rightarrow> bool" where
  "loads_to evl s vars \<longleftrightarrow> (\<exists>t. load_variables evl (var_file s) = Inr t \<and> dget t = dget vars)"

definition sv_inv :: "(string \<Rightarrow> 'v res) \<Rightarrow> 'v save_variables \<Rightarrow> bool" where
  "sv_inv evl s \<longleftrightarrow> good_vars (all_variables s) \<and> (\<forall>q \<in> set (vars_queue s). good_vars q) \<and> \<not> thread_stop s \<and>
     (if vars_queue s = [] then loads_to evl s (all_variables s) else last (vars_queue s) = all_variables s)"

lemma good_vars_dset [intro]: "good_vars vars \<Longrightarrow> lower n = n \<Longrightarrow> good_vars (dset n v vars)"
  by (auto simp: good_vars_def plain_names_def dkeys_dset din_iff image_iff split: if_splits)

lemma good_vars_dset_all:
  "good_vars vars \<Longrightarrow> plain_names (dkeys kvs) \<Longrightarrow> good_vars (dset_all kvs vars)"
proof (induction kvs arbitrary: vars)
  case (Cons kv kvs)
  then show ?case by (cases kv) (auto simp: plain_names_def)
qed simp

lemma sv_inv_put:
  "sv_inv evl s \<Longrightarrow> good_vars vars \<Longrightarrow> length (vars_queue s) < queue_max \<Longrightarrow> sv_inv evl (put_variables vars s)"
  by (auto simp: sv_inv_def put_variables_def)

lemma sv_inv_output [simp]: "sv_inv evl (s\<lparr>sv_output := o'\<rparr>) = sv_inv evl s"
  by (simp add: sv_inv_def loads_to_def)

lemma sv_inv_turn:
  assumes "sv_inv evl s" "\<And>v. evl (shw v) = Inr v"
  shows "sv_inv evl (save_vars_thread shw True s)"
proof (cases "vars_queue s")
  case Nil
  then show ?thesis using assms(1) by (simp add: save_vars_thread_def)
next
  case (Cons vars q)
  then have "good_vars vars" using assms(1) by (simp add: sv_inv_def)
  then have "\<exists>t. load_variables evl (Some (file_of shw vars)) = Inr t \<and> dget t = dget vars"
    using assms(2) by (rule load_file_of)
  with Cons assms(1) show ?thesis by (auto simp: sv_inv_def save_vars_thread_def loads_to_def)
qed

lemma sv_inv_step:
  assumes "sv_inv evl s" "sv_fine e s" "\<And>v. evl (shw v) = Inr v"
  shows "sv_inv evl (sv_step evl shw e s)"
proof (cases e)
  case (Save g)
  note [simp] = assms(1)
  show ?thesis
  proof (cases "\<exists>n t v. dget (gc_params g) ''VARIABLE'' = Some n \<and> dget (gc_params g) ''VALUE'' = Some t \<and> evl t = Inr v")
    case True
    then obtain n t v where g: "dget (gc_params g) ''VARIABLE'' = Some n" "dget (gc_params g) ''VALUE'' = Some t" "evl t = Inr v"
      by blast
    have "good_vars (dset n v (all_variables s))" using assms(1,2) g Save by (auto simp: sv_inv_def)
    then show ?thesis using sv_inv_put [OF assms(1)] assms(2) g Save by (simp add: cmd_SAVE_VARIABLE_def gc_get_str_def)
  next
    case False
    then have "snd (cmd_SAVE_VARIABLE evl g s) = s"
      by (auto simp: cmd_SAVE_VARIABLE_def gc_get_str_def split: option.split sum.split exc.split)
    then show ?thesis using Save by simp
  qed
next
  case (SetVars vars d)
  have "plain_names (dkeys (sort_by (\<lambda>a b. str_le (fst a) (fst b)) vars))"
    using assms(2) SetVars by (simp add: plain_names_def)
  then have "good_vars (dset_all (sort_by (\<lambda>a b. str_le (fst a) (fst b)) vars) (all_variables s))"
    using assms(1) by (auto intro: good_vars_dset_all simp: sv_inv_def)
  from sv_inv_put [OF assms(1) this] assms(2) SetVars show ?thesis by (simp add: set_variables_def Let_def)
next
  case (Turn ok)
  then show ?thesis using sv_inv_turn [OF assms(1,3)] assms(2) by simp
qed (use assms in simp)

lemma sv_inv_run: "sv_inv evl s \<Longrightarrow> sv_run evl shw es s = Some t \<Longrightarrow> (\<And>v. evl (shw v) = Inr v) \<Longrightarrow> sv_inv evl t"
  by (induction es arbitrary: s) (auto split: if_splits intro: sv_inv_step)

lemma turn_shortens:
  "\<not> thread_stop s \<Longrightarrow> vars_queue (save_vars_thread shw ok s) = tl (vars_queue s) \<and>
    all_variables (save_vars_thread shw ok s) = all_variables s \<and> \<not> thread_stop (save_vars_thread shw ok s)"
  by (auto simp: save_vars_thread_def split: list.split)

lemma drained:
  "\<not> thread_stop s \<Longrightarrow> length (vars_queue s) \<le> n \<Longrightarrow>
    vars_queue ((save_vars_thread shw True ^^ n) s) = [] \<and> all_variables ((save_vars_thread shw True ^^ n) s) = all_variables s"
proof (induction n arbitrary: s)
  case (Suc n)
  with turn_shortens [of s shw True] show ?case by (simp del: funpow.simps add: funpow_Suc_right)
qed simp

lemma sv_inv_turns:
  "sv_inv evl s \<Longrightarrow> (\<And>v. evl (shw v) = Inr v) \<Longrightarrow> sv_inv evl ((save_vars_thread shw True ^^ n) s)"
  by (induction n) (simp_all add: sv_inv_turn)

lemma sv_inv_new:
  assumes "new_save_variables evl stored = Inr s" "\<And>f. stored = Some f \<Longrightarrow> plain_names (dkeys f)"
  shows "sv_inv evl s"
proof -
  obtain vars where v: "load_variables evl stored = Inr vars"
    "s = \<lparr>all_variables = vars, vars_queue = [], thread_stop = False, var_file = stored, sv_output = []\<rparr>"
    using assms(1) by (auto simp: new_save_variables_def rbind_eq_Inr)
  have "good_vars vars"
  proof (cases stored)
    case (Some f)
    then obtain kvs where k: "rmap (\<lambda>(name, val). rbind (evl val) (\<lambda>v. Inr (name, v))) f = Inr kvs" "vars = dict_of kvs"
      using v(1) by (auto simp: load_variables_def split: sum.splits)
    from k(1) have "map fst kvs = map fst f"
      by (induction f arbitrary: kvs) (auto simp: rbind_eq_Inr)
    then have "good_vars (dset_all kvs [])"
      using assms(2) [OF Some] by (intro good_vars_dset_all) (auto simp: good_vars_def plain_names_def)
    then show ?thesis by (simp add: k(2) dict_of_def)
  qed (use v(1) in \<open>simp add: load_variables_def good_vars_def plain_names_def\<close>)
  then show ?thesis using v by (auto simp: sv_inv_def loads_to_def)
qed


text \<open>A literal here is a text in quotes: two saves of the same name, one turn before the second.\<close>

definition save_example :: "string \<Rightarrow> gcmd" where
  "save_example v =
     \<lparr>gc_command = ''SAVE_VARIABLE'', gc_commandline = [], gc_params = [(''VARIABLE'', ''a''), (''VALUE'', quoted v)], gc_need_ack = False\<rparr>"

definition unquote :: "string \<Rightarrow> string res" where
  "unquote s = (case s of [] \<Rightarrow> Inl ValueError | c # r \<Rightarrow> Inr (butlast r))"


section \<open>Three ways to lose a value\<close>

text \<open>The error of a full queue is only logged: the table in memory changes, but the new value never reaches the file.\<close>

lemma full_queue_drops_update:
  "queue_max \<le> length (vars_queue s) \<Longrightarrow>
    vars_queue (put_variables vars s) = vars_queue s \<and> all_variables (put_variables vars s) = vars"
  by (simp add: put_variables_def)

text \<open>A disconnect stops the thread before what is queued.\<close>

lemma disconnect_drops_queue: "var_file ((save_vars_thread shw True ^^ n) (sv_disconnect s)) = var_file s"
proof -
  have "(save_vars_thread shw True ^^ n) (sv_disconnect s) = sv_disconnect s"
    by (induction n) (simp_all add: save_vars_thread_def sv_disconnect_def)
  then show ?thesis by (simp add: sv_disconnect_def)
qed

text \<open>The file has its names in lower case: a value saved under \<open>Ab\<close> is one of \<open>ab\<close> after a restart.\<close>

lemma name_changes_case: "file_of shw [(''Ab'', v)] = [(''ab'', shw v)]"
proof -
  have "lower ''Ab'' = ''ab''" by code_simp
  then show ?thesis by (simp add: file_of_def sort_by_def dict_of_def)
qed

end
