(* ===== verification/ExcludeObject.thy ===== *)
theory ExcludeObject
  imports GCodeMove SaveVariables
begin

text \<open>
  \<open>klippy/extras/exclude_object.py\<close>: the objects of a print, the objects that are excluded from it, and the move transform that
  drops the moves of an excluded object and joins what comes after it to what was printed before.

  The transform is itself one of the transforms \<open>GCodeMove\<close> sends moves to: \<open>ee_self\<close> is its name there, \<open>next_transform\<close> the one
  behind it. \<open>json.loads\<close> and \<open>json.dumps\<close>, the state of the tuning tower, the name of the active extruder and the
  pause of the event loop are parameters. The tuning tower is an object of every printer.
\<close>

section \<open>State\<close>

record 'j object_def =
  ob_name :: string
  ob_params :: "(string, string) dict"
  ob_center :: "'j option"

datatype 'o saved_value = Names "string list" | Flag bool | Other 'o

text \<open>The attributes that exist once the transform has been registered.\<close>

record tracking =
  extrusion_offsets :: "(string, rat list) dict"
  max_position_extruded :: rat
  max_position_excluded :: rat
  extruder_adj :: rat
  initial_extrusion_moves :: nat
  eo_last_position :: "rat list"

record ('f, 'w, 'j, 'o) exclude =
  next_transform :: "'f option"
  eo_tracking :: "tracking option"
  last_position_extruded :: "rat list"
  last_position_excluded :: "rat list"
  objects :: "'j object_def list"
  excluded_objects :: "string list"
  current_object :: "string option"
  in_excluded_region :: bool
  object_end_count :: "(string, nat) dict"
  exclude_enabled :: bool
  is_excluded_object :: bool
  was_excluded_at_start :: "bool option"
  last_speed :: "rat option"
  eo_saved :: "'o saved_value save_variables option"
  eo_gmove :: "('f, 'w) gmove"
  eo_output :: "string list"

record ('f, 'w, 'j) eenv =
  ee_moves :: "('f, 'w) genv"
  ee_self :: 'f
  extruder_name :: "'w \<Rightarrow> string"
  tuning_active :: "'w \<Rightarrow> bool"
  breathe_20ms :: "'w \<Rightarrow> 'w"
  json_loads :: "string \<Rightarrow> 'j res"
  json_dumps :: "'j object_def list \<Rightarrow> string"

definition object_start_diff :: nat where "object_start_diff = 3"

definition max_objects_num :: nat where "max_objects_num = 64"

definition eo_reset_state :: "('f, 'w, 'j, 'o) exclude \<Rightarrow> ('f, 'w, 'j, 'o) exclude" where
  "eo_reset_state s =
     s\<lparr>objects := [], excluded_objects := [], current_object := None, in_excluded_region := False, object_end_count := [],
       exclude_enabled := True, is_excluded_object := False\<rparr>"

definition new_exclude :: "'o saved_value save_variables option \<Rightarrow> ('f, 'w) gmove \<Rightarrow> ('f, 'w, 'j, 'o) exclude" where
  "new_exclude sv g =
     \<lparr>next_transform = None, eo_tracking = None, last_position_extruded = [0, 0, 0, 0], last_position_excluded = [0, 0, 0, 0],
      objects = [], excluded_objects = [], current_object = None, in_excluded_region = False, object_end_count = [],
      exclude_enabled = True, is_excluded_object = False, was_excluded_at_start = None, last_speed = None, eo_saved = sv,
      eo_gmove = g, eo_output = []\<rparr>"

definition eo_respond :: "string \<Rightarrow> ('f, 'w, 'j, 'o) exclude \<Rightarrow> ('f, 'w, 'j, 'o) exclude" where
  "eo_respond msg s = s\<lparr>eo_output := eo_output s @ [msg]\<rparr>"

definition eo_machine :: "('f, 'w, 'j, 'o) exclude \<Rightarrow> 'w" where
  "eo_machine s = machine (eo_gmove s)"

section \<open>The filter of moves\<close>

definition get_extrusion_offsets :: "string \<Rightarrow> tracking \<Rightarrow> rat list \<times> tracking" where
  "get_extrusion_offsets n t =
     (case dget (extrusion_offsets t) n of
        Some off \<Rightarrow> (off, t)
      | None \<Rightarrow> ([0, 0, 0, 0], t\<lparr>extrusion_offsets := dset n [0, 0, 0, 0] (extrusion_offsets t)\<rparr>))"

definition eo_get_position :: "('f, 'w, 'j) eenv \<Rightarrow> ('f, 'w, 'j, 'o) exclude \<Rightarrow> rat list res \<times> ('f, 'w, 'j, 'o) exclude" where
  "eo_get_position v s =
     (case eo_tracking s of
        None \<Rightarrow> (Inl AttributeError, s)
      | Some t \<Rightarrow>
          let (off, t1) = get_extrusion_offsets (extruder_name v (eo_machine s)) t in
          (case next_transform s of
             None \<Rightarrow> (Inl AttributeError, s\<lparr>eo_tracking := Some t1\<rparr>)
           | Some f \<Rightarrow>
               let p = map2 (+) (tposition (ee_moves v) f (eo_machine s)) off
               in (Inr p, s\<lparr>eo_tracking := Some (t1\<lparr>eo_last_position := p\<rparr>)\<rparr>)))"

text \<open>The corrections after an excluded object, at the first move that changes a coordinate.\<close>

definition adjust_offsets :: "rat list \<Rightarrow> rat list \<Rightarrow> rat list \<times> rat \<Rightarrow> rat list \<times> rat" where
  "adjust_offsets newpos excl oa =
     (let (o0, a0) = oa;
          (o1, a1) = (if (o0 ! 0 \<noteq> 0 \<or> o0 ! 1 \<noteq> 0) \<and> (newpos ! 0 \<noteq> excl ! 0 \<or> newpos ! 1 \<noteq> excl ! 1)
                      then (o0[0 := 0, 1 := 0, 2 := 0, 3 := o0 ! 3 + a0], 0) else (o0, a0));
          o2 = (if o1 ! 2 \<noteq> 0 \<and> newpos ! 2 \<noteq> excl ! 2 then o1[2 := 0] else o1)
      in if a1 \<noteq> 0 \<and> newpos ! 3 \<noteq> excl ! 3 then (o2[3 := o2 ! 3 + a1], 0) else (o2, a1))"

definition next_move :: "('f, 'w, 'j) eenv \<Rightarrow> rat list \<Rightarrow> rat \<Rightarrow> ('f, 'w, 'j, 'o) exclude stm" where
  "next_move v p sp s =
     (case next_transform s of
        None \<Rightarrow> (Inl AttributeError, s)
      | Some f \<Rightarrow> (case tmove (ee_moves v) f p sp (eo_machine s) of (r, w) \<Rightarrow> (r, s\<lparr>eo_gmove := (eo_gmove s)\<lparr>machine := w\<rparr>\<rparr>)))"

definition normal_move :: "('f, 'w, 'j) eenv \<Rightarrow> rat list \<Rightarrow> rat \<Rightarrow> ('f, 'w, 'j, 'o) exclude stm" where
  "normal_move v newpos sp s =
     (case eo_tracking s of
        None \<Rightarrow> (Inl AttributeError, s)
      | Some t \<Rightarrow>
          let n = extruder_name v (eo_machine s);
              (off, t1) = get_extrusion_offsets n t;
              t2 = (if initial_extrusion_moves t1 > 0 \<and> eo_last_position t1 ! 3 \<noteq> newpos ! 3
                    then t1\<lparr>initial_extrusion_moves := initial_extrusion_moves t1 - 1\<rparr> else t1);
              (off', adj) = adjust_offsets newpos (last_position_excluded s) (off, extruder_adj t2);
              t3 = t2\<lparr>eo_last_position := newpos, max_position_extruded := max (max_position_extruded t2) (newpos ! 3),
                      extrusion_offsets := dset n off' (extrusion_offsets t2), extruder_adj := adj\<rparr>
          in next_move v (map2 (-) newpos off') sp (s\<lparr>eo_tracking := Some t3, last_position_extruded := newpos\<rparr>))"

definition ignore_move :: "('f, 'w, 'j) eenv \<Rightarrow> rat list \<Rightarrow> ('f, 'w, 'j, 'o) exclude stm" where
  "ignore_move v newpos s =
     (case eo_tracking s of
        None \<Rightarrow> (Inl AttributeError, s)
      | Some t \<Rightarrow>
          let n = extruder_name v (eo_machine s);
              (off, t1) = get_extrusion_offsets n t;
              off' = [newpos ! 0 - last_position_extruded s ! 0, newpos ! 1 - last_position_extruded s ! 1,
                      newpos ! 2 - last_position_extruded s ! 2, off ! 3 + newpos ! 3 - eo_last_position t1 ! 3];
              t2 = t1\<lparr>extrusion_offsets := dset n off' (extrusion_offsets t1), eo_last_position := newpos,
                      max_position_excluded := max (max_position_excluded t1) (newpos ! 3)\<rparr>
          in (Inr (), s\<lparr>eo_tracking := Some t2, last_position_excluded := newpos\<rparr>))"

definition move_into_excluded_region :: "('f, 'w, 'j) eenv \<Rightarrow> rat list \<Rightarrow> ('f, 'w, 'j, 'o) exclude stm" where
  "move_into_excluded_region v newpos s = ignore_move v newpos (s\<lparr>in_excluded_region := True\<rparr>)"

definition move_from_excluded_region :: "('f, 'w, 'j) eenv \<Rightarrow> rat list \<Rightarrow> rat \<Rightarrow> ('f, 'w, 'j, 'o) exclude stm" where
  "move_from_excluded_region v newpos sp s =
     (let s1 = s\<lparr>in_excluded_region := False\<rparr> in
      case eo_tracking s of
        None \<Rightarrow> (Inl AttributeError, s1)
      | Some t \<Rightarrow> normal_move v newpos sp (s1\<lparr>eo_tracking := Some (t\<lparr>extruder_adj :=
          max_position_excluded t - last_position_excluded s ! 3 - (max_position_extruded t - last_position_extruded s ! 3)\<rparr>)\<rparr>))"

definition test_in_excluded_region_for_move :: "('f, 'w, 'j, 'o) exclude \<Rightarrow> bool res" where
  "test_in_excluded_region_for_move s =
     (if \<not> is_excluded_object s then Inr False
      else case eo_tracking s of None \<Rightarrow> Inl AttributeError | Some t \<Rightarrow> Inr (initial_extrusion_moves t = 0))"

definition eo_move :: "('f, 'w, 'j) eenv \<Rightarrow> rat list \<Rightarrow> rat \<Rightarrow> ('f, 'w, 'j, 'o) exclude stm" where
  "eo_move v newpos sp s =
     with_value (test_in_excluded_region_for_move s) (\<lambda>inside s.
       let s1 = s\<lparr>last_speed := Some sp\<rparr> in
       if inside then
         (if in_excluded_region s1 then ignore_move v newpos s1 else move_into_excluded_region v newpos s1)
       else
         (if in_excluded_region s1 then move_from_excluded_region v newpos sp s1 else normal_move v newpos sp s1)) s"

section \<open>Registering the filter\<close>

definition new_tracking :: tracking where
  "new_tracking =
     \<lparr>extrusion_offsets = [], max_position_extruded = 0, max_position_excluded = 0, extruder_adj = 0, initial_extrusion_moves = 5,
      eo_last_position = [0, 0, 0, 0]\<rparr>"

definition register_transform :: "('f, 'w, 'j) eenv \<Rightarrow> ('f, 'w, 'j, 'o) exclude stm" where
  "register_transform v s =
     (if next_transform s \<noteq> None \<or> tuning_active v (eo_machine s) then (Inr (), s)
      else case set_move_transform (ee_moves v) (ee_self v) True (eo_gmove s) of
        Inl e \<Rightarrow> (Inl e, s)
      | Inr (old, g) \<Rightarrow>
          (case eo_get_position v (s\<lparr>next_transform := old, eo_gmove := g, eo_tracking := Some new_tracking\<rparr>) of
             (Inl e, s1) \<Rightarrow> (Inl e, s1)
           | (Inr p, s1) \<Rightarrow> (Inr (), s1\<lparr>last_position_extruded := p, last_position_excluded := p\<rparr>)))"

definition unregister_transform :: "('f, 'w, 'j) eenv \<Rightarrow> ('f, 'w, 'j, 'o) exclude stm" where
  "unregister_transform v s =
     (case next_transform s of
        None \<Rightarrow> (Inr (), s)
      | Some f \<Rightarrow>
          if tuning_active v (eo_machine s) then (Inr (), s)
          else case set_move_transform (ee_moves v) f True (eo_gmove s) of
            Inl e \<Rightarrow> (Inl e, s)
          | Inr (old, g) \<Rightarrow> (Inr (), s\<lparr>next_transform := None, eo_gmove := reset_last_position (ee_moves v) g\<rparr>))"

definition eo_reset_file :: "('f, 'w, 'j) eenv \<Rightarrow> ('f, 'w, 'j, 'o) exclude stm" where
  "eo_reset_file v s = unregister_transform v (eo_reset_state s)"

section \<open>Objects\<close>

definition save_exclude_objects :: "string \<Rightarrow> 'o saved_value \<Rightarrow> ('f, 'w, 'j, 'o) exclude stm" where
  "save_exclude_objects key val s =
     (case eo_saved s of
        None \<Rightarrow> (Inl (AppError ''Unknown config object 'save_variables' ''), s)
      | Some sv \<Rightarrow> (Inr (), s\<lparr>eo_saved := Some (set_variables [(key, val)] False sv)\<rparr>))"

definition add_object_definition :: "'j object_def \<Rightarrow> ('f, 'w, 'j, 'o) exclude \<Rightarrow> ('f, 'w, 'j, 'o) exclude" where
  "add_object_definition ob s =
     s\<lparr>objects := sort_by (\<lambda>a b. str_le (ob_name a) (ob_name b)) (objects s @ [ob]),
       object_end_count := dset (ob_name ob) 0 (object_end_count s)\<rparr>"

definition exclude_object :: "('f, 'w, 'j) eenv \<Rightarrow> string \<Rightarrow> ('f, 'w, 'j, 'o) exclude stm" where
  "exclude_object v name =
     seqs [register_transform v, pure_stm (eo_respond (''Excluding object '' @ upper name)),
       \<lambda>s. if name \<in> set (excluded_objects s) then (Inr (), s)
           else let ex = sort_by str_le (excluded_objects s @ [name])
             in save_exclude_objects ''excluded_objects'' (Names ex) (s\<lparr>excluded_objects := ex\<rparr>)]"

definition unexclude_object :: "string \<Rightarrow> ('f, 'w, 'j, 'o) exclude stm" where
  "unexclude_object name =
     seqs [pure_stm (eo_respond (''Unexcluding object '' @ upper name)),
       \<lambda>s. if name \<notin> set (excluded_objects s) then (Inr (), s)
           else let ex = sort_by str_le (remove1 name (excluded_objects s))
             in save_exclude_objects ''excluded_objects'' (Names ex) (s\<lparr>excluded_objects := ex\<rparr>)]"

definition list_objects :: "('f, 'w, 'j) eenv \<Rightarrow> gcmd \<Rightarrow> ('f, 'w, 'j, 'o) exclude \<Rightarrow> ('f, 'w, 'j, 'o) exclude" where
  "list_objects v g s =
     eo_respond (''Known objects: '' @
       (if din ''JSON'' (gc_params g) then json_dumps v (objects s) else join '' '' (map ob_name (objects s)))) s"

definition list_excluded_objects :: "('f, 'w, 'j, 'o) exclude \<Rightarrow> ('f, 'w, 'j, 'o) exclude" where
  "list_excluded_objects s = eo_respond (''Excluded objects: '' @ join '' '' (excluded_objects s)) s"

definition test_in_excluded_region :: "('f, 'w, 'j, 'o) exclude \<Rightarrow> bool res \<times> ('f, 'w, 'j, 'o) exclude" where
  "test_in_excluded_region s =
     (let s1 = s\<lparr>is_excluded_object := (case current_object s of None \<Rightarrow> False | Some n \<Rightarrow> n \<in> set (excluded_objects s))\<rparr>
      in (test_in_excluded_region_for_move s1, s1))"

section \<open>Commands\<close>

definition ensure_object :: "string \<Rightarrow> ('f, 'w, 'j, 'o) exclude \<Rightarrow> ('f, 'w, 'j, 'o) exclude" where
  "ensure_object name s =
     (if \<exists>ob \<in> set (objects s). ob_name ob = name then s
      else add_object_definition \<lparr>ob_name = name, ob_params = [], ob_center = None\<rparr> s)"

definition cmd_EXCLUDE_OBJECT_START :: "('f, 'w, 'j) eenv \<Rightarrow> gcmd \<Rightarrow> ('f, 'w, 'j, 'o) exclude stm" where
  "cmd_EXCLUDE_OBJECT_START v g s =
     with_value (gc_get_str ''NAME'' Required g) (\<lambda>nm s.
       let name = upper (the nm);
           (r, s2) = test_in_excluded_region ((ensure_object name s)\<lparr>current_object := Some name\<rparr>)
       in with_value r (\<lambda>inside s.
            let s3 = s\<lparr>was_excluded_at_start := Some inside\<rparr>
            in (Inr (), if inside then s3\<lparr>eo_gmove := (eo_gmove s3)\<lparr>machine := breathe_20ms v (eo_machine s3)\<rparr>\<rparr> else s3)) s2) s"

definition end_counted :: "string option \<Rightarrow> ('f, 'w, 'j, 'o) exclude stm" where
  "end_counted nm s =
     (case nm of
        None \<Rightarrow> (Inl AttributeError, s)
      | Some n \<Rightarrow>
          let name = upper n;
              c = dset name (dget_or (object_end_count s) name 0 + 1) (object_end_count s);
              s1 = s\<lparr>object_end_count := c\<rparr>
          in if foldl max 0 (dvals c) > object_start_diff then (Inl (AppError ''exclude_object over''), s1) else (Inr (), s1))"

definition note_mismatch :: "string option \<Rightarrow> ('f, 'w, 'j, 'o) exclude \<Rightarrow> ('f, 'w, 'j, 'o) exclude" where
  "note_mismatch nm s =
     (if nm \<noteq> None \<and> Some (upper (the nm)) \<noteq> current_object s then
        eo_respond (''EXCLUDE_OBJECT_END NAME='' @ upper (the nm) @ '' does not match the current object NAME='' @
          (case current_object s of None \<Rightarrow> ''None'' | Some c \<Rightarrow> c)) s
      else s)"

definition end_region :: "string option \<Rightarrow> ('f, 'w, 'j, 'o) exclude stm" where
  "end_region nm s =
     with_value (test_in_excluded_region_for_move s) (\<lambda>inside s.
       if \<not> inside then (Inr (), s\<lparr>object_end_count := map (\<lambda>(k, c). (k, 0)) (object_end_count s)\<rparr>)
       else end_counted nm s) s"

definition cmd_EXCLUDE_OBJECT_END :: "gcmd \<Rightarrow> ('f, 'w, 'j, 'o) exclude stm" where
  "cmd_EXCLUDE_OBJECT_END g s =
     (if current_object s = None \<and> next_transform s \<noteq> None then
        (Inr (), eo_respond ''EXCLUDE_OBJECT_END called, but no object is currently active'' s)
      else with_value (gc_get_str ''NAME'' (Default None) g)
        (\<lambda>nm s. end_region nm ((note_mismatch nm s)\<lparr>current_object := None\<rparr>)) s)"

definition cmd_EXCLUDE_OBJECT :: "('f, 'w, 'j) eenv \<Rightarrow> gcmd \<Rightarrow> ('f, 'w, 'j, 'o) exclude stm" where
  "cmd_EXCLUDE_OBJECT v g s =
     (let truthy = (\<lambda>k. case dget (gc_params g) k of None \<Rightarrow> False | Some t \<Rightarrow> t \<noteq> []);
          name = upper (dget_or (gc_params g) ''NAME'' [])
      in if truthy ''RESET'' then
           (if name \<noteq> [] then unexclude_object name s else (Inr (), s\<lparr>excluded_objects := []\<rparr>))
         else if name \<noteq> [] then
           (if upper name \<notin> set (excluded_objects s) then exclude_object v (upper name) s else (Inr (), s))
         else if truthy ''CURRENT'' then
           (case current_object s of
              Some (c # r) \<Rightarrow> exclude_object v (c # r) s
            | _ \<Rightarrow> (Inl (AppError ''There is no current object to cancel''), s))
         else (Inr (), list_excluded_objects s))"

definition cmd_EXCLUDE_OBJECT_DEFINE :: "('f, 'w, 'j) eenv \<Rightarrow> gcmd \<Rightarrow> ('f, 'w, 'j, 'o) exclude stm" where
  "cmd_EXCLUDE_OBJECT_DEFINE v g s =
     (if \<not> exclude_enabled s then (Inr (), s)
      else if (case dget (gc_params g) ''RESET'' of None \<Rightarrow> False | Some t \<Rightarrow> t \<noteq> []) then eo_reset_file v s
      else let name = upper (dget_or (gc_params g) ''NAME'' []) in
        if name \<noteq> [] then
          with_value (case dget (gc_params g) ''CENTER'' of
              None \<Rightarrow> Inr None
            | Some c \<Rightarrow> rbind (json_loads v (''['' @ c @ '']'')) (\<lambda>j. Inr (Some j)))
            (\<lambda>center s.
              let ob = \<lparr>ob_name = upper name,
                        ob_params = ddel ''POLYGON'' (ddel ''CENTER'' (ddel ''NAME'' (gc_params g))), ob_center = center\<rparr>
              in if length (objects s) \<ge> max_objects_num
                 then save_exclude_objects ''objects_enabled'' (Flag False) (s\<lparr>exclude_enabled := False\<rparr>)
                 else (Inr (), add_object_definition ob s)) s
        else (Inr (), list_objects v g s))"

definition cmd_SET_EXCLUDE_ENABLE :: "gcmd \<Rightarrow> ('f, 'w, 'j, 'o) exclude stm" where
  "cmd_SET_EXCLUDE_ENABLE g =
     (\<lambda>s. with_value (gc_get_int ''ENABLE'' (Default (Some 1)) None None g) (\<lambda>en.
       let on = (the en \<noteq> 0) in
       seqs [pure_stm (\<lambda>s. s\<lparr>exclude_enabled := on\<rparr>), save_exclude_objects ''objects_enabled'' (Flag on),
         pure_stm (eo_respond ''Exclude_object set success'')]) s)"

text \<open>The fields of \<open>get_status\<close>, in its order.\<close>

definition exclude_status :: "('f, 'w, 'j, 'o) exclude \<Rightarrow> 'j object_def list \<times> string list \<times> string option \<times> bool" where
  "exclude_status s = (objects s, excluded_objects s, current_object s, exclude_enabled s)"

section \<open>The registry and the chain of transforms\<close>

datatype eo_op = EoMove "rat list" rat | EoStart gcmd | EoEnd gcmd | EoExclude gcmd | EoDefine gcmd | EoEnable gcmd |
  EoResetFile | EoPosition

fun eo_step :: "('f, 'w, 'j) eenv \<Rightarrow> eo_op \<Rightarrow> ('f, 'w, 'j, 'o) exclude stm" where
  "eo_step v (EoMove p sp) = eo_move v p sp"
| "eo_step v (EoStart g) = cmd_EXCLUDE_OBJECT_START v g"
| "eo_step v (EoEnd g) = cmd_EXCLUDE_OBJECT_END g"
| "eo_step v (EoExclude g) = cmd_EXCLUDE_OBJECT v g"
| "eo_step v (EoDefine g) = cmd_EXCLUDE_OBJECT_DEFINE v g"
| "eo_step v (EoEnable g) = cmd_SET_EXCLUDE_ENABLE g"
| "eo_step v EoResetFile = eo_reset_file v"
| "eo_step v EoPosition = (\<lambda>s. case eo_get_position v s of (Inl e, s1) \<Rightarrow> (Inl e, s1) | (Inr p, s1) \<Rightarrow> (Inr (), s1))"

text \<open>The operations one after the other, whether they fail or not.\<close>

definition eo_run :: "('f, 'w, 'j) eenv \<Rightarrow> eo_op list \<Rightarrow> ('f, 'w, 'j, 'o) exclude \<Rightarrow> ('f, 'w, 'j, 'o) exclude" where
  "eo_run v es s = foldl (\<lambda>s e. snd (eo_step v e s)) s es"

lemma eo_run_simps [simp]: "eo_run v [] s = s" "eo_run v (e # es) s = eo_run v es (snd (eo_step v e s))"
  by (simp_all add: eo_run_def)

definition registry_ok :: "('f, 'w, 'j, 'o) exclude \<Rightarrow> bool" where
  "registry_ok s \<longleftrightarrow> sorted_wrt str_le (map ob_name (objects s)) \<and> sorted_wrt str_le (excluded_objects s) \<and>
     distinct (excluded_objects s) \<and> ob_name ` set (objects s) \<subseteq> set (dkeys (object_end_count s))"

definition chain_ok :: "('f, 'w, 'j) eenv \<Rightarrow> 'f \<Rightarrow> ('f, 'w, 'j, 'o) exclude \<Rightarrow> bool" where
  "chain_ok v orig s \<longleftrightarrow>
     move_with (eo_gmove s) = position_with (eo_gmove s) \<and>
     (case next_transform s of
        None \<Rightarrow> move_with (eo_gmove s) = Some orig \<and>
          (if move_transform (eo_gmove s) = None then toolhead (ee_moves v) else move_transform (eo_gmove s)) = Some orig
      | Some f \<Rightarrow> f = orig \<and> move_with (eo_gmove s) = Some (ee_self v) \<and> move_transform (eo_gmove s) = Some (ee_self v) \<and>
          eo_tracking s \<noteq> None)"

definition eo_ok :: "('f, 'w, 'j) eenv \<Rightarrow> 'f \<Rightarrow> ('f, 'w, 'j, 'o) exclude \<Rightarrow> bool" where
  "eo_ok v orig s \<longleftrightarrow> registry_ok s \<and> chain_ok v orig s"

lemma sorted_names: "sorted_wrt str_le (sort_by str_le xs)"
  by (rule sorted_sort_by) (use str_le_total str_le_trans in blast)+

lemma sorted_objects: "sorted_wrt str_le (map ob_name (sort_by (\<lambda>a b. str_le (ob_name a) (ob_name b)) xs))"
proof -
  have "sorted_wrt (\<lambda>a b. str_le (ob_name a) (ob_name b)) (sort_by (\<lambda>a b. str_le (ob_name a) (ob_name b)) xs)"
    by (rule sorted_sort_by) (use str_le_total str_le_trans in blast)+
  then show ?thesis by (simp add: sorted_wrt_map)
qed

lemma eo_ok_updates [simp]:
  "eo_ok v orig (s\<lparr>eo_output := o'\<rparr>) = eo_ok v orig s"
  "eo_ok v orig (s\<lparr>current_object := c\<rparr>) = eo_ok v orig s"
  "eo_ok v orig (s\<lparr>is_excluded_object := b\<rparr>) = eo_ok v orig s"
  "eo_ok v orig (s\<lparr>in_excluded_region := b\<rparr>) = eo_ok v orig s"
  "eo_ok v orig (s\<lparr>exclude_enabled := b\<rparr>) = eo_ok v orig s"
  "eo_ok v orig (s\<lparr>was_excluded_at_start := w\<rparr>) = eo_ok v orig s"
  "eo_ok v orig (s\<lparr>last_speed := sp\<rparr>) = eo_ok v orig s"
  "eo_ok v orig (s\<lparr>eo_saved := sv\<rparr>) = eo_ok v orig s"
  "eo_ok v orig (s\<lparr>last_position_extruded := p\<rparr>) = eo_ok v orig s"
  "eo_ok v orig (s\<lparr>last_position_excluded := p\<rparr>) = eo_ok v orig s"
  "eo_ok v orig (s\<lparr>eo_gmove := (eo_gmove s)\<lparr>machine := m\<rparr>\<rparr>) = eo_ok v orig s"
  "eo_ok v orig s \<Longrightarrow> eo_ok v orig (s\<lparr>eo_tracking := Some t\<rparr>)"
  by (auto simp: eo_ok_def registry_ok_def chain_ok_def split: option.splits)

lemma eo_respond_ok [simp]: "eo_ok v orig (eo_respond m s) = eo_ok v orig s"
  by (simp add: eo_respond_def)

lemma keeps_save_objects [inv_intros]: "keeps (eo_ok v orig) (save_exclude_objects k x)"
  by (rule keepsI) (simp add: save_exclude_objects_def split: option.split)

lemma add_object_ok: "eo_ok v orig s \<Longrightarrow> eo_ok v orig (add_object_definition ob s)"
  by (auto simp: eo_ok_def registry_ok_def chain_ok_def add_object_definition_def sorted_objects dkeys_dset din_iff image_iff
      split: option.splits)

lemma excluded_ok:
  "eo_ok v orig s \<Longrightarrow> sorted_wrt str_le ex \<Longrightarrow> distinct ex \<Longrightarrow> eo_ok v orig (s\<lparr>excluded_objects := ex\<rparr>)"
  by (auto simp: eo_ok_def registry_ok_def chain_ok_def split: option.splits)

lemma keeps_get_position: "eo_ok v orig s \<Longrightarrow> eo_ok v orig (snd (eo_get_position v s))"
  by (auto simp: eo_get_position_def Let_def split: option.split prod.split)

lemma keeps_register [inv_intros]: "keeps (eo_ok v orig) (register_transform v)"
proof (rule keepsI)
  fix s :: "('a, 'b, 'c, 'd) exclude" assume ok: "eo_ok v orig s"
  show "eo_ok v orig (snd (register_transform v s))"
  proof (cases "next_transform s = None \<and> \<not> tuning_active v (eo_machine s)")
    case True
    define g where "g = (eo_gmove s)\<lparr>move_transform := Some (ee_self v), move_with := Some (ee_self v), position_with := Some (ee_self v)\<rparr>"
    have st: "set_move_transform (ee_moves v) (ee_self v) True (eo_gmove s) = Inr (Some orig, g)"
      using ok True by (auto simp: set_move_transform_def eo_ok_def chain_ok_def g_def)
    have "eo_ok v orig (s\<lparr>next_transform := Some orig, eo_gmove := g, eo_tracking := Some new_tracking\<rparr>)"
      using ok by (auto simp: eo_ok_def registry_ok_def chain_ok_def g_def)
    from keeps_get_position [OF this] True st show ?thesis
      by (auto simp: register_transform_def split: prod.split sum.split)
  qed (use ok in \<open>auto simp: register_transform_def\<close>)
qed

lemma keeps_unregister [inv_intros]: "keeps (eo_ok v orig) (unregister_transform v)"
proof (rule keepsI)
  fix s :: "('a, 'b, 'c, 'd) exclude" assume ok: "eo_ok v orig s"
  show "eo_ok v orig (snd (unregister_transform v s))"
  proof (cases "next_transform s")
    case (Some f)
    with ok show ?thesis
      by (auto simp: unregister_transform_def set_move_transform_def eo_ok_def registry_ok_def chain_ok_def reset_last_position_def)
  qed (use ok in \<open>simp add: unregister_transform_def\<close>)
qed

lemma keeps_next_move: "keeps (eo_ok v orig) (next_move v p sp)"
  by (rule keepsI) (simp add: next_move_def split: option.split prod.split)

lemma keeps_normal: "eo_ok v orig s \<Longrightarrow> eo_ok v orig (snd (normal_move v p sp s))"
  by (auto simp: normal_move_def Let_def intro!: keepsD [OF keeps_next_move] split: option.split prod.split)

lemma keeps_ignore: "eo_ok v orig s \<Longrightarrow> eo_ok v orig (snd (ignore_move v p s))"
  by (auto simp: ignore_move_def Let_def split: option.split prod.split)

lemma keeps_move [inv_intros]: "keeps (eo_ok v orig) (eo_move v p sp)"
proof (rule keepsI)
  fix s :: "('a, 'b, 'c, 'd) exclude" assume ok: "eo_ok v orig s"
  then have "eo_ok v orig (s\<lparr>last_speed := Some sp\<rparr>)" by simp
  then show "eo_ok v orig (snd (eo_move v p sp s))"
    using ok by (auto simp: eo_move_def with_value_def Let_def move_into_excluded_region_def move_from_excluded_region_def
        intro!: keeps_normal keeps_ignore split: sum.split option.split)
qed

lemma eo_ok_distinct: "eo_ok v orig s \<Longrightarrow> distinct (excluded_objects s)"
  by (simp add: eo_ok_def registry_ok_def)

lemma store_excluded_ok:
  "eo_ok v orig s \<Longrightarrow> distinct ex \<Longrightarrow>
    eo_ok v orig (snd (save_exclude_objects k x (s\<lparr>excluded_objects := sort_by str_le ex\<rparr>)))"
  by (intro keepsD [OF keeps_save_objects] excluded_ok sorted_names) simp_all

lemma keeps_exclude [inv_intros]: "keeps (eo_ok v orig) (exclude_object v name)"
proof -
  have e: "keeps (eo_ok v orig) (\<lambda>s. if name \<in> set (excluded_objects s) then (Inr (), s)
      else let ex = sort_by str_le (excluded_objects s @ [name])
        in save_exclude_objects ''excluded_objects'' (Names ex) (s\<lparr>excluded_objects := ex\<rparr>))"
    by (rule keepsI) (auto simp: Let_def dest: eo_ok_distinct intro!: store_excluded_ok)
  show ?thesis unfolding exclude_object_def by (intro keeps_seqs_Nil keeps_seqs_Cons keeps_register keeps_pure e) simp_all
qed

lemma keeps_unexclude [inv_intros]: "keeps (eo_ok v orig) (unexclude_object name)"
proof -
  have e: "keeps (eo_ok v orig) (\<lambda>s. if name \<notin> set (excluded_objects s) then (Inr (), s)
      else let ex = sort_by str_le (remove1 name (excluded_objects s))
        in save_exclude_objects ''excluded_objects'' (Names ex) (s\<lparr>excluded_objects := ex\<rparr>))"
    by (rule keepsI) (auto simp: Let_def dest: eo_ok_distinct intro!: store_excluded_ok)
  show ?thesis unfolding unexclude_object_def by (intro keeps_seqs_Nil keeps_seqs_Cons keeps_pure e) simp_all
qed

lemma test_region_ok [simp]: "eo_ok v orig (snd (test_in_excluded_region s)) = eo_ok v orig s"
  by (simp add: test_in_excluded_region_def Let_def)

lemma keeps_START [inv_intros]: "keeps (eo_ok v orig) (cmd_EXCLUDE_OBJECT_START v g)"
proof (rule keepsI)
  fix s :: "('a, 'b, 'c, 'd) exclude" assume ok: "eo_ok v orig s"
  show "eo_ok v orig (snd (cmd_EXCLUDE_OBJECT_START v g s))"
  proof (cases "gc_get_str ''NAME'' Required g")
    case (Inr nm)
    let ?s1 = "(ensure_object (upper (the nm)) s)\<lparr>current_object := Some (upper (the nm))\<rparr>"
    obtain r s2 where t: "test_in_excluded_region ?s1 = (r, s2)" by (cases "test_in_excluded_region ?s1")
    have "eo_ok v orig ?s1" using ok by (simp add: ensure_object_def add_object_ok)
    then have "eo_ok v orig s2" using t test_region_ok [of v orig ?s1] by simp
    then show ?thesis
      using Inr t eo_ok_updates(11) [where v = v and orig = orig and s = "s2\<lparr>was_excluded_at_start := Some True\<rparr>"]
      by (simp add: cmd_EXCLUDE_OBJECT_START_def with_value_def Let_def split: sum.split)
  qed (use ok in \<open>simp add: cmd_EXCLUDE_OBJECT_START_def with_value_def\<close>)
qed

lemma with_value_simps: "with_value (Inl e) f s = (Inl e, s)" "with_value (Inr x) f s = f x s"
  by (simp_all add: with_value_def)

lemma end_count_ok:
  assumes "eo_ok v orig s" "set (dkeys (object_end_count s)) \<subseteq> set (dkeys c)"
  shows "eo_ok v orig (s\<lparr>object_end_count := c\<rparr>)"
proof -
  have "ob_name ` set (objects s) \<subseteq> set (dkeys (object_end_count s))" using assms(1) by (simp add: eo_ok_def registry_ok_def)
  then have "ob_name ` set (objects s) \<subseteq> set (dkeys c)" using assms(2) by (rule subset_trans)
  with assms(1) show ?thesis unfolding eo_ok_def registry_ok_def chain_ok_def by (cases "next_transform s") (auto split: if_splits)
qed

lemma keeps_counted: "eo_ok v orig s \<Longrightarrow> eo_ok v orig (snd (end_counted nm s))"
  by (auto simp: end_counted_def Let_def dkeys_dset intro!: end_count_ok split: option.split)

lemma keeps_end_region: "eo_ok v orig s \<Longrightarrow> eo_ok v orig (snd (end_region nm s))"
  by (auto simp: end_region_def with_value_def keeps_counted case_prod_unfold intro!: end_count_ok split: sum.split)

lemma keeps_END [inv_intros]: "keeps (eo_ok v orig) (cmd_EXCLUDE_OBJECT_END g)"
proof (rule keepsI)
  fix s :: "('a, 'b, 'c, 'd) exclude" assume ok: "eo_ok v orig s"
  then have "eo_ok v orig ((note_mismatch nm s)\<lparr>current_object := None\<rparr>)" for nm by (simp add: note_mismatch_def)
  with ok show "eo_ok v orig (snd (cmd_EXCLUDE_OBJECT_END g s))"
    by (cases "gc_get_str ''NAME'' (Default None) g")
      (simp_all add: cmd_EXCLUDE_OBJECT_END_def with_value_simps keeps_end_region del: eo_ok_updates)
qed

lemma keeps_EXCLUDE [inv_intros]: "keeps (eo_ok v orig) (cmd_EXCLUDE_OBJECT v g)"
proof (rule keepsI)
  fix s :: "('a, 'b, 'c, 'd) exclude" assume ok: "eo_ok v orig s"
  then have "eo_ok v orig (s\<lparr>excluded_objects := []\<rparr>)" by (simp add: excluded_ok)
  with ok show "eo_ok v orig (snd (cmd_EXCLUDE_OBJECT v g s))"
    by (auto simp: cmd_EXCLUDE_OBJECT_def Let_def list_excluded_objects_def
        intro: keepsD [OF keeps_exclude] keepsD [OF keeps_unexclude] split: option.split list.split)
qed

lemma keeps_reset_file [inv_intros]: "keeps (eo_ok v orig) (eo_reset_file v)"
proof (rule keepsI)
  fix s :: "('a, 'b, 'c, 'd) exclude" assume "eo_ok v orig s"
  then have "eo_ok v orig (eo_reset_state s)"
    by (auto simp: eo_ok_def registry_ok_def chain_ok_def eo_reset_state_def split: option.splits)
  from keepsD [OF keeps_unregister this] show "eo_ok v orig (snd (eo_reset_file v s))" by (simp add: eo_reset_file_def)
qed

lemma keeps_DEFINE [inv_intros]: "keeps (eo_ok v orig) (cmd_EXCLUDE_OBJECT_DEFINE v g)"
proof (rule keepsI)
  fix s :: "('a, 'b, 'c, 'd) exclude" assume ok: "eo_ok v orig s"
  then have "eo_ok v orig (s\<lparr>exclude_enabled := False\<rparr>)" by simp
  with ok show "eo_ok v orig (snd (cmd_EXCLUDE_OBJECT_DEFINE v g s))"
    by (auto simp: cmd_EXCLUDE_OBJECT_DEFINE_def Let_def list_objects_def with_value_def add_object_ok
        intro: keepsD [OF keeps_reset_file] keepsD [OF keeps_save_objects] split: option.split sum.split)
qed

lemma keeps_ENABLE [inv_intros]: "keeps (eo_ok v orig) (cmd_SET_EXCLUDE_ENABLE g)"
  unfolding cmd_SET_EXCLUDE_ENABLE_def Let_def by (intro keeps_with_value keeps_rules inv_intros) simp_all

lemma keeps_eo_step: "keeps (eo_ok v orig) (eo_step v e)"
proof (cases e)
  case EoPosition
  have "eo_ok v orig s \<Longrightarrow> eo_ok v orig (snd (eo_step v EoPosition s))" for s :: "('a, 'b, 'c, 'd) exclude"
    using keeps_get_position [of v orig s] by (auto split: prod.split sum.split)
  with EoPosition show ?thesis by (simp only: keepsI)
qed (auto intro: inv_intros)

lemma eo_run_ok: "eo_ok v orig s \<Longrightarrow> eo_ok v orig (eo_run v es s)"
  by (induction es arbitrary: s) (simp_all add: keepsD [OF keeps_eo_step])


section \<open>Skipping an excluded object\<close>

text \<open>
  \<open>joined\<close>: the last move was printed, to \<open>p\<close>, with no correction of X, Y and Z pending and the extruder behind by \<open>off\<close>; \<open>mx\<close> and \<open>me\<close> are
  the furthest extruder positions of printed and of excluded moves. \<open>skipping\<close>: the moves since then, the last one to \<open>q\<close>, were dropped.
\<close>

definition joined ::
  "('f, 'w, 'j) eenv \<Rightarrow> 'f \<Rightarrow> rat list \<Rightarrow> rat \<Rightarrow> rat \<Rightarrow> rat \<Rightarrow> ('f, 'w, 'j, 'o) exclude \<Rightarrow> bool" where
  "joined v f p off mx me s \<longleftrightarrow>
     next_transform s = Some f \<and> \<not> in_excluded_region s \<and> last_position_extruded s = p \<and>
     (case eo_tracking s of None \<Rightarrow> False | Some t \<Rightarrow>
        initial_extrusion_moves t = 0 \<and> extruder_adj t = 0 \<and> eo_last_position t = p \<and> max_position_extruded t = mx \<and>
        max_position_excluded t = me \<and> dget (extrusion_offsets t) (extruder_name v (eo_machine s)) = Some [0, 0, 0, off])"

definition skipping ::
  "('f, 'w, 'j) eenv \<Rightarrow> 'f \<Rightarrow> rat list \<Rightarrow> rat \<Rightarrow> rat \<Rightarrow> rat list \<Rightarrow> rat \<Rightarrow> ('f, 'w, 'j, 'o) exclude \<Rightarrow> bool" where
  "skipping v f p off mx q me s \<longleftrightarrow>
     next_transform s = Some f \<and> in_excluded_region s \<and> last_position_extruded s = p \<and> last_position_excluded s = q \<and>
     (case eo_tracking s of None \<Rightarrow> False | Some t \<Rightarrow>
        initial_extrusion_moves t = 0 \<and> eo_last_position t = q \<and> max_position_extruded t = mx \<and>
        max_position_excluded t = me \<and> dget (extrusion_offsets t) (extruder_name v (eo_machine s)) =
          Some [q ! 0 - p ! 0, q ! 1 - p ! 1, q ! 2 - p ! 2, off + (q ! 3 - p ! 3)])"

lemma eo_machine_simps [simp]:
  "eo_machine (s\<lparr>last_speed := x1\<rparr>) = eo_machine s" "eo_machine (s\<lparr>in_excluded_region := x2\<rparr>) = eo_machine s"
  "eo_machine (s\<lparr>eo_tracking := x3\<rparr>) = eo_machine s" "eo_machine (s\<lparr>last_position_excluded := x4\<rparr>) = eo_machine s"
  "eo_machine (s\<lparr>last_position_extruded := x4\<rparr>) = eo_machine s" "eo_machine (s\<lparr>current_object := x5\<rparr>) = eo_machine s"
  "eo_machine (s\<lparr>is_excluded_object := x2\<rparr>) = eo_machine s" "eo_machine (s\<lparr>was_excluded_at_start := x6\<rparr>) = eo_machine s"
  by (simp_all add: eo_machine_def)

lemma enter_region:
  assumes "joined v f p off mx me s" "is_excluded_object s" "eo_move v q sp s = (r, s')"
  shows "r = Inr () \<and> eo_gmove s' = eo_gmove s \<and> excluded_objects s' = excluded_objects s \<and> is_excluded_object s' \<and>
    skipping v f p off mx q (max me (q ! 3)) s'"
proof -
  obtain t where t: "eo_tracking s = Some t" "initial_extrusion_moves t = 0" "eo_last_position t = p" "max_position_extruded t = mx"
    "max_position_excluded t = me" "dget (extrusion_offsets t) (extruder_name v (eo_machine s)) = Some [0, 0, 0, off]"
    using assms(1) by (auto simp: joined_def split: option.splits)
  show ?thesis
    using assms t by (auto simp: joined_def skipping_def eo_move_def with_value_simps test_in_excluded_region_for_move_def Let_def
        move_into_excluded_region_def ignore_move_def get_extrusion_offsets_def)
qed

lemma stay_in_region:
  assumes "skipping v f p off mx q me s" "is_excluded_object s" "eo_move v q' sp s = (r, s')"
  shows "r = Inr () \<and> eo_gmove s' = eo_gmove s \<and> excluded_objects s' = excluded_objects s \<and> is_excluded_object s' \<and>
    skipping v f p off mx q' (max me (q' ! 3)) s'"
proof -
  obtain t where t: "eo_tracking s = Some t" "initial_extrusion_moves t = 0" "eo_last_position t = q" "max_position_extruded t = mx"
    "max_position_excluded t = me" "dget (extrusion_offsets t) (extruder_name v (eo_machine s)) =
      Some [q ! 0 - p ! 0, q ! 1 - p ! 1, q ! 2 - p ! 2, off + (q ! 3 - p ! 3)]"
    using assms(1) by (auto simp: skipping_def split: option.splits)
  show ?thesis
    using assms t by (auto simp: skipping_def eo_move_def with_value_simps test_in_excluded_region_for_move_def Let_def
        ignore_move_def get_extrusion_offsets_def)
qed

definition furthest :: "rat \<Rightarrow> (rat list \<times> rat) list \<Rightarrow> rat" where
  "furthest me ms = foldl max me (map (\<lambda>m. fst m ! 3) ms)"

definition eo_moves :: "(rat list \<times> rat) list \<Rightarrow> eo_op list" where
  "eo_moves ms = map (\<lambda>m. EoMove (fst m) (snd m)) ms"

lemma moves_skipped:
  assumes "skipping v f p off mx q me s" "is_excluded_object s" "s' = eo_run v (eo_moves ms) s"
  shows "eo_gmove s' = eo_gmove s \<and> excluded_objects s' = excluded_objects s \<and> is_excluded_object s' \<and>
    skipping v f p off mx (if ms = [] then q else fst (last ms)) (furthest me ms) s'"
  using assms
proof (induction ms arbitrary: q me s)
  case (Cons m ms)
  obtain r s1 where m: "eo_move v (fst m) (snd m) s = (r, s1)" by (cases "eo_move v (fst m) (snd m) s")
  note i = stay_in_region [OF Cons.prems(1,2) m]
  then have "skipping v f p off mx (fst m) (max me (fst m ! 3)) s1" "is_excluded_object s1" by simp_all
  from Cons.IH [OF this] Cons.prems(3) m i show ?case by (simp add: eo_moves_def furthest_def split: if_splits)
qed (simp add: eo_moves_def furthest_def)

lemma object_skipped:
  assumes "joined v f p off mx me s" "is_excluded_object s" "ms \<noteq> []" "s' = eo_run v (eo_moves ms) s"
  shows "eo_gmove s' = eo_gmove s \<and> excluded_objects s' = excluded_objects s \<and>
    skipping v f p off mx (fst (last ms)) (furthest me ms) s'"
proof -
  obtain m ms' where ms: "ms = m # ms'" using assms(3) by (cases ms) auto
  obtain r s1 where m: "eo_move v (fst m) (snd m) s = (r, s1)" by (cases "eo_move v (fst m) (snd m) s")
  note i = enter_region [OF assms(1,2) m]
  then have "skipping v f p off mx (fst m) (max me (fst m ! 3)) s1" "is_excluded_object s1" by simp_all
  from moves_skipped [OF this, of _ ms'] assms(4) m i show ?thesis by (auto simp: ms eo_moves_def furthest_def)
qed

text \<open>The start of an object that is not excluded.\<close>

lemma start_of_printed:
  assumes "skipping v f p off mx q me s" "dget (gc_params g) ''NAME'' = Some nm" "upper nm \<notin> set (excluded_objects s)"
    and "cmd_EXCLUDE_OBJECT_START v g s = (r, s')"
  shows "r = Inr () \<and> eo_gmove s' = eo_gmove s \<and> skipping v f p off mx q me s' \<and> \<not> is_excluded_object s'"
proof -
  let ?s1 = "ensure_object (upper nm) s"
  have 1: "skipping v f p off mx q me ?s1" "eo_gmove ?s1 = eo_gmove s" "excluded_objects ?s1 = excluded_objects s"
    using assms(1) by (simp_all add: ensure_object_def skipping_def add_object_definition_def eo_machine_def cong: option.case_cong)
  have "(r, s') = (Inr (), ?s1\<lparr>current_object := Some (upper nm), is_excluded_object := False, was_excluded_at_start := Some False\<rparr>)"
    using assms(2,3,4) 1(3) by (simp add: cmd_EXCLUDE_OBJECT_START_def gc_get_str_def with_value_simps
        test_in_excluded_region_def test_in_excluded_region_for_move_def Let_def)
  with 1 show ?thesis by (simp add: skipping_def cong: option.case_cong)
qed

text \<open>The first move after it.\<close>

lemma rejoin:
  assumes "skipping v f p off mx q me s" "\<not> is_excluded_object s" "length p = 4" "length r = 4"
    and "q ! 0 \<noteq> p ! 0 \<or> q ! 1 \<noteq> p ! 1" "r ! 0 \<noteq> q ! 0 \<or> r ! 1 \<noteq> q ! 1"
    and "tmove (ee_moves v) f [r ! 0, r ! 1, r ! 2, (mx - off) + (r ! 3 - me)] sp (eo_machine s) = (res, w)"
    and "eo_move v r sp s = (res', s')"
  shows "res' = res \<and> eo_machine s' = w \<and>
    (extruder_name v w = extruder_name v (eo_machine s) \<longrightarrow> joined v f r (off + me - mx) (max mx (r ! 3)) me s')"
proof -
  obtain t where t: "eo_tracking s = Some t" "initial_extrusion_moves t = 0" "eo_last_position t = q" "max_position_extruded t = mx"
    "max_position_excluded t = me" "dget (extrusion_offsets t) (extruder_name v (eo_machine s)) =
      Some [q ! 0 - p ! 0, q ! 1 - p ! 1, q ! 2 - p ! 2, off + (q ! 3 - p ! 3)]"
    using assms(1) by (auto simp: skipping_def split: option.splits)
  let ?n = "extruder_name v (eo_machine s)" and ?adj = "me - q ! 3 - (mx - p ! 3)" and ?o' = "off + me - mx"
  have a: "adjust_offsets r q ([q ! 0 - p ! 0, q ! 1 - p ! 1, q ! 2 - p ! 2, off + (q ! 3 - p ! 3)], ?adj) = ([0, 0, 0, ?o'], 0)"
    using assms(5,6) by (auto simp: adjust_offsets_def)
  obtain r0 r1 r2 r3 where r: "r = [r0, r1, r2, r3]"
    using assms(4) by (auto simp: numeral_eq_Suc length_Suc_conv)
  have m: "map2 (-) r [0, 0, 0, ?o'] = [r ! 0, r ! 1, r ! 2, (mx - off) + (r ! 3 - me)]" by (simp add: r)
  have s: "next_transform s = Some f" "in_excluded_region s" "last_position_extruded s = p" "last_position_excluded s = q"
    using assms(1) by (simp_all add: skipping_def)
  note w = assms(7) [unfolded m [symmetric]]
  have "eo_move v r sp s = (res, s\<lparr>last_speed := Some sp, in_excluded_region := False, eo_tracking := Some (t\<lparr>extruder_adj := 0,
      eo_last_position := r, max_position_extruded := max mx (r ! 3), extrusion_offsets := dset ?n [0, 0, 0, ?o'] (extrusion_offsets t)\<rparr>),
      last_position_extruded := r, eo_gmove := (eo_gmove s)\<lparr>machine := w\<rparr>\<rparr>)"
    by (simp add: eo_move_def with_value_simps test_in_excluded_region_for_move_def Let_def move_from_excluded_region_def normal_move_def
        get_extrusion_offsets_def s t assms(2) a w next_move_def del: One_nat_def)
  with assms(8) s(1) t show ?thesis by (auto simp: joined_def eo_machine_def)
qed


section \<open>An example\<close>

text \<open>\<open>True\<close> is a machine that keeps the moves it gets, \<open>False\<close> the filter.\<close>

definition demo_env :: "(bool, (rat list \<times> rat) list, unit) eenv" where
  "demo_env =
     \<lparr>ee_moves = \<lparr>tmove = \<lambda>f p sp w. (Inr (), w @ [(p, sp)]), tposition = \<lambda>f w. if w = [] then [0, 0, 0, 0] else fst (last w),
        toolhead = Some True, is_printing = \<lambda>w. True, is_paused = \<lambda>w. False, workmode = \<lambda>w. 0, pace_speed = \<lambda>w. 1,
        size_offset = \<lambda>a b c d e. (0, 0), axes_max_z = \<lambda>w. 300, gfmt = \<lambda>q. [], script = \<lambda>c s. (Inr (), s)\<rparr>,
      ee_self = False, extruder_name = \<lambda>w. ''extruder'', tuning_active = \<lambda>w. False, breathe_20ms = \<lambda>w. w,
      json_loads = \<lambda>t. Inl ValueError, json_dumps = \<lambda>obs. []\<rparr>"

definition demo_name :: "string \<Rightarrow> gcmd" where
  "demo_name n = \<lparr>gc_command = [], gc_commandline = [], gc_params = [(''NAME'', n)], gc_need_ack = False\<rparr>"

definition demo_gmove :: "(bool, (rat list \<times> rat) list) gmove" where
  "demo_gmove = (new_gmove 0 0 [] [] [] [])\<lparr>gm_ready := True, move_with := Some True, position_with := Some True\<rparr>"

definition demo_saved :: "unit saved_value save_variables" where
  "demo_saved = \<lparr>all_variables = [], vars_queue = [], thread_stop = False, var_file = None, sv_output = []\<rparr>"

text \<open>\<open>B\<close> and \<open>D\<close> are excluded, \<open>A\<close> is printed, \<open>B\<close> begins.\<close>

definition demo_start :: "(bool, (rat list \<times> rat) list, unit, unit) exclude" where
  "demo_start = eo_run demo_env
     [EoExclude (demo_name ''B''), EoExclude (demo_name ''D''), EoStart (demo_name ''A''), EoMove [1, 0, 0, 1] 50, EoMove [1, 1, 0, 2] 50,
      EoMove [0, 1, 0, 3] 50, EoMove [0, 0, 0, 4] 50, EoMove [0, 0, 0, 5] 50, EoStart (demo_name ''B'')] (new_exclude (Some demo_saved) demo_gmove)"

lemma demo_start_joined:
  "joined demo_env True [0, 0, 0, 5] 0 5 0 demo_start" "is_excluded_object demo_start"
  "excluded_objects demo_start = [''B'', ''D'']" "length (eo_machine demo_start) = 5"
  by code_simp+

lemma demo_upper: "upper ''C'' = ''C''"
  by code_simp



section \<open>Behaviours worth knowing\<close>

text \<open>
  Between two excluded objects a move of Z alone keeps the pending correction of X and Y, but counts as printed: the next excluded
  move measures its correction from there. The next Z move then also travels in X and Y, here from (0, 0) to (10, 10).
\<close>

lemma z_move_between_excluded_objects_travels:
  "eo_machine (eo_run demo_env
     [EoMove [10, 10, 0, 6] 50, EoStart (demo_name ''C''), EoMove [10, 10, 1, 6] 50, EoStart (demo_name ''D''), EoMove [20, 20, 1, 7] 50,
      EoStart (demo_name ''C''), EoMove [20, 20, 2, 7] 50] demo_start) =
   eo_machine demo_start @ [([0, 0, 1, 5], 50), ([10, 10, 2, 5], 50)]"
  by code_simp

text \<open>An object's end without a name while it is skipped is an \<open>AttributeError\<close>: \<open>None\<close> has no \<open>upper\<close>.\<close>

lemma end_without_name_fails:
  assumes "current_object s \<noteq> None" "is_excluded_object s" "eo_tracking s = Some t" "initial_extrusion_moves t = 0"
    and "dget (gc_params g) ''NAME'' = None"
  shows "fst (cmd_EXCLUDE_OBJECT_END g s) = Inl AttributeError"
  using assms by (simp add: cmd_EXCLUDE_OBJECT_END_def gc_get_str_def with_value_simps note_mismatch_def end_region_def
      test_in_excluded_region_for_move_def end_counted_def)

text \<open>Excluding an object while the tuning tower is active leaves no filter: the start of the object is an \<open>AttributeError\<close>.\<close>

lemma exclude_during_tuning_fails:
  assumes "eo_tracking s = None" "upper nm \<in> set (excluded_objects s)" "dget (gc_params g) ''NAME'' = Some nm"
  shows "fst (cmd_EXCLUDE_OBJECT_START v g s) = Inl AttributeError"
  using assms by (simp add: cmd_EXCLUDE_OBJECT_START_def gc_get_str_def with_value_simps test_in_excluded_region_def
      test_in_excluded_region_for_move_def ensure_object_def add_object_definition_def Let_def)

text \<open>\<open>RESET\<close> empties the list of excluded objects, but what is saved for a recovery after a power loss keeps it.\<close>

lemma reset_is_not_saved:
  assumes "dget (gc_params g) ''RESET'' = Some (c # r)" "dget (gc_params g) ''NAME'' = None"
  shows "cmd_EXCLUDE_OBJECT v g s = (Inr (), s\<lparr>excluded_objects := []\<rparr>)"
  using assms by (simp add: cmd_EXCLUDE_OBJECT_def Let_def dget_or_def upper_def)

end
