(* ===== verification/Versions.thy ===== *)
theory Versions
  imports PyRegex "HOL-Library.List_Lexorder" "HOL-Library.Product_Lexorder"
begin

text \<open>
  \<open>moonraker/utils/versions.py\<close>: Python and git version strings and their comparisons, which decide whether an update is offered.
  Tuples of numbers are lists in their lexicographic order, which is Python's order of tuples. A set of flags is a set.
\<close>

section \<open>The patterns\<close>

definition digits_r :: regex where
  "digits_r = Plus Digit"

definition sep_r :: regex where
  "sep_r = Opt (one_of ''-_.'')"

definition release_r :: regex where
  "release_r = Grp ''release'' (Seq digits_r (Star (Seq (Lit ''.'') digits_r)))"

definition pre_label_r :: regex where
  "pre_label_r = AltL (map LitI [''a'', ''b'', ''c'', ''rc'', ''alpha'', ''beta'', ''pre'', ''preview''])"

definition pre_r :: regex where
  "pre_r = Opt (Grp ''pre'' (SeqL [sep_r, Grp ''pre_l'' pre_label_r, sep_r, Opt (Grp ''pre_n'' digits_r)]))"

definition alnum_r :: regex where
  "alnum_r = Plus (Cls (\<lambda>c. is_lower (lower_char c) \<or> is_digit c))"

definition version_pattern :: regex where
  "version_pattern = SeqL
     [Opt (LitI ''v''),
      Opt (Seq (Grp ''epoch'' digits_r) (Lit ''!'')),
      release_r, pre_r,
      Opt (Grp ''post'' (Alt (Seq (Lit ''-'') (Grp ''post_n1'' digits_r))
        (SeqL [sep_r, Grp ''post_l'' (AltL (map LitI [''post'', ''rev'', ''r''])), sep_r, Opt (Grp ''post_n2'' digits_r)]))),
      Opt (Grp ''dev'' (SeqL [sep_r, Grp ''dev_l'' (LitI ''dev''), sep_r, Opt (Grp ''dev_n'' digits_r)])),
      Opt (Seq (Lit ''+'') (Grp ''local'' (Seq alnum_r (Star (Seq (one_of ''-_.'') alnum_r)))))]"

definition hash_r :: regex where
  "hash_r = Grp ''hash'' (Plus (Cls (\<lambda>c. is_digit c \<or> lower_char c \<in> set ''abcdef'')))"

definition git_version_pattern :: regex where
  "git_version_pattern = SeqL
     [Grp ''tag'' (SeqL [Opt (LitI ''v''), release_r, pre_r]),
      Opt (SeqL [Lit ''-'', Grp ''dev_n'' digits_r, Opt (Seq (LitI ''-g'') hash_r)]),
      Opt (Grp ''dirty'' (LitI ''-dirty'')),
      Opt (Grp ''inferred'' (Alt (LitI ''-inferred'') (LitI ''-shallow'')))]"

definition whole :: "regex \<Rightarrow> regex" where
  "whole r = SeqL [Spaces, r, Spaces, EndAnchor]"

section \<open>Versions\<close>

datatype release_flag = FINAL | ALPHA | BETA | RELEASE_CANDIDATE | POST | DEV

record version =
  ver_release :: string
  release_type :: "release_flag set"
  ver_tag :: string
  ver_orig :: string
  release_tup :: "nat list"
  extra_tup :: "nat list"
  has_dev_part :: bool
  dev_count :: nat
  valid_version :: bool

definition base_version :: "string \<Rightarrow> version" where
  "base_version v =
     \<lparr>ver_release = ''?'', release_type = {}, ver_tag = ''?'', ver_orig = strip v, release_tup = [], extra_tup = [],
      has_dev_part = False, dev_count = 0, valid_version = False\<rparr>"

definition is_pre_release :: "'a version_scheme \<Rightarrow> bool" where
  "is_pre_release v \<longleftrightarrow> ALPHA \<in> release_type v \<or> BETA \<in> release_type v \<or> RELEASE_CANDIDATE \<in> release_type v"

definition is_alpha_release :: "'a version_scheme \<Rightarrow> bool" where
  "is_alpha_release v \<longleftrightarrow> ALPHA \<in> release_type v"

definition is_final_release :: "'a version_scheme \<Rightarrow> bool" where
  "is_final_release v \<longleftrightarrow> FINAL \<in> release_type v"

definition digits_value :: "string \<Rightarrow> nat" where
  "digits_value s = foldl (\<lambda>n c. n * 10 + (ccode c - 48)) 0 s"

definition release_tuple :: "string \<Rightarrow> nat list" where
  "release_tuple r = map digits_value (split_on (CHR ''.'') r)"

text \<open>\<open>int(x or 0)\<close> for a group of digits that may be missing.\<close>

definition group_number :: "caps \<Rightarrow> string \<Rightarrow> nat" where
  "group_number c n = (case dget c n of None \<Rightarrow> 0 | Some d \<Rightarrow> digits_value d)"

text \<open>\<open>pre_conv\<close>, whose other labels start with no letter the pattern allows.\<close>

definition pre_conv :: "char \<Rightarrow> nat option" where
  "pre_conv c = map_of [(CHR ''a'', 1), (CHR ''b'', 2), (CHR ''c'', 3), (CHR ''r'', 3), (CHR ''p'', 3)] c"

definition pre_number :: "string \<Rightarrow> nat \<Rightarrow> nat" where
  "pre_number lbl d = (case pre_conv (lower_char (hd lbl)) of None \<Rightarrow> d | Some n \<Rightarrow> n)"

definition pre_flag :: "string \<Rightarrow> release_flag" where
  "pre_flag lbl = (case pre_number lbl 1 of 0 \<Rightarrow> FINAL | Suc 0 \<Rightarrow> ALPHA | Suc (Suc 0) \<Rightarrow> BETA | _ \<Rightarrow> RELEASE_CANDIDATE)"

text \<open>\<open>post_n1 or post_n2\<close>.\<close>

definition post_number :: "caps \<Rightarrow> nat" where
  "post_number c = (if din ''post_n1'' c then group_number c ''post_n1'' else group_number c ''post_n2'')"

definition py_extra :: "caps \<Rightarrow> nat list" where
  "py_extra c =
     (case dget c ''pre'' of
        Some _ \<Rightarrow> [0, pre_number (the (dget c ''pre_l'')) 0, group_number c ''pre_n''] @ (if din ''post'' c then [post_number c] else [])
      | None \<Rightarrow> if din ''post'' c then [2, post_number c, 0] else [1, 0, 0])"

definition py_flags :: "caps \<Rightarrow> release_flag set" where
  "py_flags c =
     (let f = (if din ''pre'' c then {pre_flag (the (dget c ''pre_l''))} else {}) \<union> (if din ''post'' c then {POST} else {})
      in if din ''dev'' c then f \<union> {DEV} else if f = {} then {FINAL} else if f = {POST} then {POST, FINAL} else f)"

record py_version = version + py_local :: "string option"

definition new_py_version :: "string \<Rightarrow> py_version" where
  "new_py_version v =
     (case rx_groups (whole version_pattern) v of
        None \<Rightarrow> version.extend (base_version v) (py_version.fields None)
      | Some c \<Rightarrow>
          let release = the (dget c ''release''); orig = strip v
          in \<lparr>ver_release = release, release_type = py_flags c,
              ver_tag = (if lower_char (hd orig) = CHR ''v'' then CHR ''v'' # release else release) @
                dget_or c ''pre'' [] @ dget_or c ''post'' [],
              ver_orig = orig, release_tup = release_tuple release, extra_tup = py_extra c, has_dev_part = din ''dev'' c,
              dev_count = group_number c ''dev_n'', valid_version = True, py_local = dget c ''local''\<rparr>)"

record git_version = version +
  is_dirty :: bool
  is_inferred :: bool

definition fallback_r :: regex where
  "fallback_r = Seq hash_r (Opt (Grp ''dirty'' (Lit ''-dirty'')))"

definition git_extra :: "caps \<Rightarrow> nat list" where
  "git_extra c = (case dget c ''pre'' of
     Some _ \<Rightarrow> [0, pre_number (the (dget c ''pre_l'')) 0, group_number c ''pre_n''] | None \<Rightarrow> [1, 0, 0])"

definition git_flags :: "caps \<Rightarrow> release_flag set" where
  "git_flags c =
     (let f = (if din ''pre'' c then {pre_flag (the (dget c ''pre_l''))} else {}) \<union>
              (if group_number c ''dev_n'' > 0 then {DEV} else {})
      in if f = {} then {FINAL} else f)"

definition new_git_version :: "string \<Rightarrow> git_version" where
  "new_git_version v =
     (case rx_groups (whole git_version_pattern) v of
        None \<Rightarrow>
          (case rx_groups fallback_r (strip v) of
             None \<Rightarrow> version.extend (base_version v) (git_version.fields False False)
           | Some c \<Rightarrow> version.extend ((base_version v)\<lparr>ver_tag := [], ver_release := the (dget c ''hash'')\<rparr>)
               (git_version.fields (din ''dirty'' c) True))
      | Some c \<Rightarrow>
          let release = the (dget c ''release'')
          in \<lparr>ver_release = release, release_type = git_flags c, ver_tag = dget_or c ''tag'' [], ver_orig = strip v,
              release_tup = release_tuple release, extra_tup = git_extra c, has_dev_part = True,
              dev_count = group_number c ''dev_n'', valid_version = True,
              is_dirty = din ''dirty'' c, is_inferred = din ''inferred'' c\<rparr>)"

section \<open>Comparisons\<close>

text \<open>Both operands are of one class; \<open>_validate\<close> raises \<open>ValueError\<close>.\<close>

definition v_compare :: "('a version_scheme \<Rightarrow> 'a version_scheme \<Rightarrow> bool) \<Rightarrow> 'a version_scheme \<Rightarrow> 'a version_scheme \<Rightarrow> bool res" where
  "v_compare f a b = (if valid_version a \<and> valid_version b then Inr (f a b) else Inl ValueError)"

definition v_eq :: "'a version_scheme \<Rightarrow> 'a version_scheme \<Rightarrow> bool res" where
  "v_eq = v_compare (\<lambda>a b.
     if release_tup a \<noteq> release_tup b then False
     else if extra_tup a \<noteq> extra_tup b then False
     else if has_dev_part a \<noteq> has_dev_part b then False
     else if dev_count a \<noteq> dev_count b then False else True)"

definition v_lt :: "'a version_scheme \<Rightarrow> 'a version_scheme \<Rightarrow> bool res" where
  "v_lt = v_compare (\<lambda>a b.
     if release_tup a \<noteq> release_tup b then release_tup a < release_tup b
     else if extra_tup a \<noteq> extra_tup b then extra_tup a < extra_tup b
     else if has_dev_part a \<noteq> has_dev_part b then has_dev_part a
     else dev_count a < dev_count b)"

definition v_le :: "'a version_scheme \<Rightarrow> 'a version_scheme \<Rightarrow> bool res" where
  "v_le = v_compare (\<lambda>a b.
     if release_tup a > release_tup b then False
     else if extra_tup a > extra_tup b then False
     else if has_dev_part a \<noteq> has_dev_part b then has_dev_part a
     else dev_count a \<le> dev_count b)"

definition v_ne :: "'a version_scheme \<Rightarrow> 'a version_scheme \<Rightarrow> bool res" where
  "v_ne = v_compare (\<lambda>a b.
     if release_tup a \<noteq> release_tup b then True
     else if extra_tup a \<noteq> extra_tup b then True
     else if has_dev_part a \<noteq> has_dev_part b then True
     else if dev_count a \<noteq> dev_count b then True else False)"

definition v_gt :: "'a version_scheme \<Rightarrow> 'a version_scheme \<Rightarrow> bool res" where
  "v_gt = v_compare (\<lambda>a b.
     if release_tup a \<noteq> release_tup b then release_tup a > release_tup b
     else if extra_tup a \<noteq> extra_tup b then extra_tup a > extra_tup b
     else if has_dev_part a \<noteq> has_dev_part b then has_dev_part b
     else dev_count a > dev_count b)"

definition v_ge :: "'a version_scheme \<Rightarrow> 'a version_scheme \<Rightarrow> bool res" where
  "v_ge = v_compare (\<lambda>a b.
     if release_tup a < release_tup b then False
     else if extra_tup a < extra_tup b then False
     else if has_dev_part a \<noteq> has_dev_part b then has_dev_part b
     else dev_count a \<ge> dev_count b)"

section \<open>Derived versions\<close>

definition short_version :: "git_version \<Rightarrow> string" where
  "short_version v = (if valid_version v then ver_tag v @ ''-'' @ str_nat (dev_count v) else ''?'')"

definition is_fallback :: "git_version \<Rightarrow> bool" where
  "is_fallback v \<longleftrightarrow> is_inferred v \<and> \<not> valid_version v"

definition pre_text :: "nat \<Rightarrow> string" where
  "pre_text i = (case map_of [(1, ''a''), (2, ''b''), (3, ''rc'')] i of None \<Rightarrow> ''rc'' | Some s \<Rightarrow> s)"

text \<open>The last part above zero goes down by one; the list is the reversed release.\<close>

fun decrement_first :: "nat list \<Rightarrow> nat list" where
  "decrement_first [] = []"
| "decrement_first (n # ns) = (if n > 0 then (n - 1) # ns else n # decrement_first ns)"

definition infer_last_tag :: "git_version \<Rightarrow> string" where
  "infer_last_tag v =
     (if valid_version v then
        (if is_inferred v then ver_tag v
         else if is_pre_release v \<and> extra_tup v > [0, 1, 0] then
           let i = extra_tup v ! 1; n = extra_tup v ! 2;
               (i', n') = (if n = 0 then (i - 1, n) else (i, n - 1))
           in ver_release v @ ''.'' @ pre_text i' @ str_nat n'
         else ''v'' @ join ''.'' (map str_nat (rev (decrement_first (rev (release_tuple (ver_release v)))))))
      else ''v0.0.0'')"

text \<open>\<open>rpartition(".")\<close>: what is before the last dot and what is after it.\<close>

definition rpartition_dot :: "string \<Rightarrow> string \<times> string" where
  "rpartition_dot s = (case rfind_char (CHR ''.'') s of None \<Rightarrow> ([], s) | Some i \<Rightarrow> (take i s, drop (Suc i) s))"

definition convert_to_git :: "caps \<Rightarrow> git_version res" where
  "convert_to_git c =
     (case dget c ''release'' of
        None \<Rightarrow> Inl ValueError
      | Some r \<Rightarrow>
          let local = dget_or c ''local'' [];
              (major, minor) = rpartition_dot r;
              g1 = (if din ''dev_n'' c \<and> major \<noteq> [] then ''v'' @ major @ ''.'' @ str_nat (digits_value minor - 1) else r);
              g2 = g1 @ dget_or c ''pre'' [];
              g3 = g2 @ ''-'' @ (case dget c ''dev_n'' of None \<Rightarrow> ''0'' | Some d \<Rightarrow> d);
              part = hd (split_once (CHR ''.'') local)
          in case part of
               [] \<Rightarrow> Inl IndexError
             | x # rest \<Rightarrow> Inr (new_git_version (g3 @ ''-'' @ [x] @ (if rest \<noteq> [] then ''-dirty'' else []))))"

section \<open>The order of versions\<close>

text \<open>What the comparisons order by: of two equal releases the one with a development part comes first.\<close>

definition version_key :: "'a version_scheme \<Rightarrow> nat list \<times> nat list \<times> bool \<times> nat" where
  "version_key v = (release_tup v, extra_tup v, \<not> has_dev_part v, dev_count v)"

lemma comparisons_by_key:
  assumes "valid_version a" "valid_version b"
  shows "v_lt a b = Inr (version_key a < version_key b)" "v_gt a b = Inr (version_key b < version_key a)"
    and "v_eq a b = Inr (version_key a = version_key b)" "v_ne a b = Inr (version_key a \<noteq> version_key b)"
  using assms by (auto simp: v_lt_def v_gt_def v_eq_def v_ne_def v_compare_def version_key_def less_prod_def' not_less order.strict_iff_order)

text \<open>
  \<open>__le__\<close> and \<open>__ge__\<close> go on to the later parts when the earlier ones are already less. They agree with the order only when the
  later parts are in order as well.
\<close>

lemma le_sound:
  assumes "v_le a b = Inr True"
  shows "version_key a \<le> version_key b"
  using assms by (auto simp: v_le_def v_compare_def version_key_def not_less split: if_splits)

lemma le_complete:
  assumes "valid_version a" "valid_version b" "extra_tup a = extra_tup b" "has_dev_part a = has_dev_part b" "dev_count a = 0"
    and "version_key a \<le> version_key b"
  shows "v_le a b = Inr True"
  using assms by (auto simp: v_le_def v_compare_def version_key_def not_less split: if_splits)

section \<open>What \<open>git describe\<close> prints\<close>

text \<open>A release, the number of commits since it and the abbreviated hash.\<close>

definition release_text :: "nat list \<Rightarrow> string" where
  "release_text ns = join ''.'' (map str_nat ns)"

definition describe_text :: "bool \<Rightarrow> nat list \<Rightarrow> nat \<Rightarrow> string \<Rightarrow> string" where
  "describe_text v ns n h = (if v then ''v'' else []) @ release_text ns @ ''-'' @ str_nat n @ ''-g'' @ h"

definition is_hash :: "string \<Rightarrow> bool" where
  "is_hash h \<longleftrightarrow> h \<noteq> [] \<and> list_all (\<lambda>c. is_digit c \<or> lower_char c \<in> set ''abcdef'') h"

lemma str_nat_digits: "list_all is_digit (str_nat n)"
  by (simp add: list_all_iff str_nat_digit)

lemma digits_value_str_nat: "digits_value (str_nat n) = n"
proof -
  have "digits_value (digits_of 10 n) = n"
  proof (induction "10::nat" n rule: digits_of.induct)
    case (1 n)
    have d: "ccode (digit_char k) = 48 + k" if "k < 10" for k using that by (simp add: ccode_digit_char)
    show ?case
    proof (cases "n < 10")
      case True
      then show ?thesis by (subst digits_of.simps) (simp add: digits_value_def d)
    next
      case False
      with 1 have "digits_value (digits_of 10 (n div 10)) = n div 10" by simp
      with False show ?thesis by (subst digits_of.simps) (simp add: digits_value_def d)
    qed
  qed
  then show ?thesis by (simp add: str_nat_def)
qed

lemma split_on_aux_run: "d \<notin> set u \<Longrightarrow> split_on_aux d acc (u @ s) = split_on_aux d (acc @ u) s"
  by (induction u arbitrary: acc) auto

lemma dot_no_digit: "CHR ''.'' \<notin> set (str_nat n)"
  using str_nat_digit [of "CHR ''.''" n] by (auto simp: is_digit_def)

lemma release_text_Cons: "ns \<noteq> [] \<Longrightarrow> release_text (n # ns) = str_nat n @ CHR ''.'' # release_text ns"
  by (cases ns) (simp_all add: release_text_def)

lemma release_tuple_text: "ns \<noteq> [] \<Longrightarrow> release_tuple (release_text ns) = ns"
proof (induction ns)
  case (Cons n ns)
  have s: "split_on (CHR ''.'') (str_nat n @ t) = split_on_aux (CHR ''.'') (str_nat n) t" for t
    using split_on_aux_run [OF dot_no_digit, where acc = "[]"] by (simp add: split_on_def)
  show ?case
  proof (cases "ns = []")
    case True
    with s [of "[]"] show ?thesis by (simp add: release_text_def release_tuple_def digits_value_str_nat)
  next
    case False
    have "release_tuple (release_text (n # ns)) = n # release_tuple (release_text ns)"
      unfolding release_text_Cons [OF False] release_tuple_def s by (simp add: digits_value_str_nat split_on_def)
    with Cons False show ?thesis by simp
  qed
qed simp

text \<open>No letter of the pre-release labels, and no dash, is a digit.\<close>

lemma digit_facts:
  assumes "is_digit c"
  shows "lower_char c = c" "\<not> is_space c" "c \<noteq> CHR ''v''" "c \<noteq> CHR ''a''" "c \<noteq> CHR ''b''" "c \<noteq> CHR ''c''" "c \<noteq> CHR ''r''"
    "c \<noteq> CHR ''p''" "c \<noteq> CHR ''-''" "c \<noteq> CHR ''.''"
  using assms by (auto simp: is_digit_def lower_char_def is_upper_def is_space_def)

lemma lower_letters:
  "lower_char (CHR ''a'') = CHR ''a''" "lower_char (CHR ''b'') = CHR ''b''" "lower_char (CHR ''c'') = CHR ''c''"
  "lower_char (CHR ''r'') = CHR ''r''" "lower_char (CHR ''p'') = CHR ''p''" "lower_char (CHR ''v'') = CHR ''v''"
  "lower_char (CHR ''-'') = CHR ''-''" "lower_char (CHR ''g'') = CHR ''g''" "lower_char (CHR ''d'') = CHR ''d''"
  by (simp_all add: lower_char_def is_upper_def)

lemma LitI_Cons: "LitI (x # w) = Seq (Cls (\<lambda>y. lower_char y = lower_char x)) (LitI w)"
  by (simp add: LitI_def)

lemma LitI_none: "w \<noteq> [] \<Longrightarrow> s = [] \<or> lower_char (hd s) \<noteq> lower_char (hd w) \<Longrightarrow> rx (LitI w) s c = []"
  by (cases w; cases s) (simp_all add: LitI_Cons)

lemma no_pre_label: "lower_char x \<notin> set ''abcrp'' \<Longrightarrow> rx pre_label_r (x # s) c = []"
  by (simp add: pre_label_r_def AltL_def LitI_none lower_letters)

lemma no_pre:
  assumes "is_digit x"
  shows "rx_first pre_r (CHR ''-'' # x # s) c = Some (CHR ''-'' # x # s, c)"
proof -
  have "rx pre_label_r (CHR ''-'' # x # s) c = []" "rx pre_label_r (x # s) c = []" for c
    by (rule no_pre_label, simp add: lower_letters digit_facts [OF assms])+
  then show ?thesis unfolding pre_r_def by (intro first_Opt_none) (simp add: SeqL_def sep_r_def one_of_def)
qed

text \<open>The parts of the pattern on the parts of the text.\<close>

lemma first_digits: "t = [] \<or> \<not> is_digit (hd t) \<Longrightarrow> rx_first digits_r (str_nat n @ t) c = Some (t, c)"
  unfolding digits_r_def Digit_def by (rule first_Plus_Cls) (simp_all add: str_nat_digits)

lemma first_dotted:
  assumes "t = [] \<or> hd t \<noteq> CHR ''.'' \<and> \<not> is_digit (hd t)"
  shows "rx_first (Star (Seq (Lit ''.'') digits_r)) (concat (map (\<lambda>n. CHR ''.'' # str_nat n) ns) @ t) c = Some (t, c)"
proof (induction ns)
  case Nil
  have "rx (Seq (Lit ''.'') digits_r) t c = []" using assms by (cases t) (auto simp: startswith_def)
  then show ?case by (simp add: first_Star_stop)
next
  case (Cons n ns)
  let ?u = "concat (map (\<lambda>n. CHR ''.'' # str_nat n) ns) @ t"
  have u: "?u = [] \<or> \<not> is_digit (hd ?u)" using assms by (cases ns) (auto simp: is_digit_def)
  have "rx_first (Lit ''.'') (''.'' @ str_nat n @ ?u) c = Some (str_nat n @ ?u, c)" by (rule first_Lit)
  from first_Seq [OF this first_digits [OF u]]
  have "rx_first (Seq (Lit ''.'') digits_r) (CHR ''.'' # str_nat n @ ?u) c = Some (?u, c)" by simp
  from first_Star_step [OF this _ Cons] show ?case by simp
qed

lemma release_text_dotted: "release_text (n # ns) = str_nat n @ concat (map (\<lambda>n. CHR ''.'' # str_nat n) ns)"
proof (induction ns arbitrary: n)
  case (Cons m ns)
  then show ?case by (simp add: release_text_Cons)
qed (simp add: release_text_def)

lemma first_release:
  assumes "ns \<noteq> []" "t = [] \<or> hd t \<noteq> CHR ''.'' \<and> \<not> is_digit (hd t)"
  shows "rx_first release_r (release_text ns @ t) c = Some (t, dset ''release'' (release_text ns) c)"
proof -
  obtain m ms where ms: "ns = m # ms" using assms(1) by (cases ns) auto
  let ?u = "concat (map (\<lambda>n. CHR ''.'' # str_nat n) ms) @ t"
  have u: "?u = [] \<or> \<not> is_digit (hd ?u)" using assms(2) by (cases ms) (auto simp: is_digit_def)
  have "rx_first (Seq digits_r (Star (Seq (Lit ''.'') digits_r))) (release_text ns @ t) c = Some (t, c)"
    using first_Seq [OF first_digits [OF u] first_dotted [OF assms(2)]] by (simp add: ms release_text_dotted)
  then show ?thesis unfolding release_r_def by (rule first_Grp)
qed

lemma release_text_start: "ns \<noteq> [] \<Longrightarrow> \<exists>y w. release_text ns = y # w \<and> is_digit y"
proof -
  assume "ns \<noteq> []"
  then obtain m ms where "ns = m # ms" by (cases ns) auto
  moreover obtain y w where "str_nat m = y # w" by (cases "str_nat m") auto
  ultimately show ?thesis using str_nat_digit [of y m] by (simp add: release_text_dotted)
qed

lemma describe_start: "ns \<noteq> [] \<Longrightarrow> dropWhile is_space (describe_text v ns n h) = describe_text v ns n h"
  using release_text_start [of ns] by (auto simp: describe_text_def digit_facts) (simp add: is_space_def)

lemma first_tag:
  assumes "ns \<noteq> []" "is_digit x"
  shows "rx_first (Grp ''tag'' (SeqL [Opt (LitI ''v''), release_r, pre_r])) ((if v then ''v'' else []) @ release_text ns @ CHR ''-'' # x # s) c =
    Some (CHR ''-'' # x # s, dset ''tag'' ((if v then ''v'' else []) @ release_text ns) (dset ''release'' (release_text ns) c))"
proof -
  let ?t = "CHR ''-'' # x # s"
  have r: "rx_first (Seq release_r (Seq pre_r Eps)) (release_text ns @ ?t) c = Some (?t, dset ''release'' (release_text ns) c)"
    by (intro first_Seq [OF first_release] first_Seq [OF no_pre] first_Eps assms) (simp add: is_digit_def)
  note d = release_text_start [OF assms(1)]
  have "rx_first (Opt (LitI ''v'')) ((if v then ''v'' else []) @ release_text ns @ ?t) c = Some (release_text ns @ ?t, c)"
  proof (cases v)
    case True
    have "rx_first (LitI ''v'') (CHR ''v'' # release_text ns @ ?t) c = Some (release_text ns @ ?t, c)"
      by (simp add: rx_first_def LitI_def)
    with True show ?thesis by (simp add: first_Opt)
  next
    case False
    obtain y w where y: "release_text ns = y # w" "is_digit y" using d by auto
    then have "rx (LitI ''v'') (release_text ns @ ?t) c = []" by (intro LitI_none) (simp_all add: lower_letters digit_facts)
    with False show ?thesis by (simp add: first_Opt_none)
  qed
  from first_Seq [OF this r] have "rx_first (SeqL [Opt (LitI ''v''), release_r, pre_r]) (((if v then ''v'' else []) @ release_text ns) @ ?t) c =
      Some (?t, dset ''release'' (release_text ns) c)"
    by (simp only: SeqL_def foldr.simps o_apply id_apply append_assoc)
  from first_Grp [OF this] show ?thesis by simp
qed

lemma first_hash:
  assumes "is_hash h"
  shows "rx_first (Opt (Seq (LitI ''-g'') hash_r)) (''-g'' @ h) c = Some ([], dset ''hash'' h c)"
proof -
  have "rx_first (LitI ''-g'') (''-g'' @ h) c = Some (h, c)" by (simp add: rx_first_def LitI_def)
  moreover have "rx_first hash_r (h @ []) c = Some ([], dset ''hash'' h c)"
    unfolding hash_r_def by (rule first_Grp, rule first_Plus_Cls) (use assms in \<open>simp_all add: is_hash_def\<close>)
  ultimately show ?thesis by (intro first_Opt first_Seq) simp_all
qed

definition describe_caps :: "bool \<Rightarrow> nat list \<Rightarrow> nat \<Rightarrow> string \<Rightarrow> caps" where
  "describe_caps v ns n h = dset ''hash'' h (dset ''dev_n'' (str_nat n)
     (dset ''tag'' ((if v then ''v'' else []) @ release_text ns) (dset ''release'' (release_text ns) [])))"

lemma describe_matches:
  assumes "ns \<noteq> []" "is_hash h"
  shows "rx_groups (whole git_version_pattern) (describe_text v ns n h) = Some (describe_caps v ns n h)"
proof -
  obtain x w where x: "str_nat n = x # w" by (cases "str_nat n") auto
  then have xd: "is_digit x" using str_nat_digit [of x n] by simp
  let ?s = "describe_text v ns n h"
  let ?c1 = "dset ''tag'' ((if v then ''v'' else []) @ release_text ns) (dset ''release'' (release_text ns) [])"
  let ?c2 = "dset ''dev_n'' (str_nat n) ?c1"
  have tag: "rx_first (Grp ''tag'' (SeqL [Opt (LitI ''v''), release_r, pre_r])) ?s [] = Some (''-'' @ str_nat n @ ''-g'' @ h, ?c1)"
    using first_tag [OF assms(1) xd, of v "w @ ''-g'' @ h" "[]"] by (simp add: describe_text_def x)
  have n: "rx_first (Grp ''dev_n'' digits_r) (str_nat n @ ''-g'' @ h) ?c1 = Some (''-g'' @ h, ?c2)"
    by (rule first_Grp, rule first_digits) (simp add: is_digit_def)
  have dev: "rx_first (Opt (SeqL [Lit ''-'', Grp ''dev_n'' digits_r, Opt (Seq (LitI ''-g'') hash_r)])) (''-'' @ str_nat n @ ''-g'' @ h) ?c1 =
      Some ([], describe_caps v ns n h)"
    using first_Opt [OF first_Seq [OF first_Lit first_Seq [OF n first_Seq [OF first_hash [OF assms(2)] first_Eps]]]]
    by (simp only: SeqL_def foldr.simps o_apply id_apply describe_caps_def)
  have opt: "rx_first (Opt (Grp ''dirty'' (LitI ''-dirty''))) [] c = Some ([], c)"
      "rx_first (Opt (Grp ''inferred'' (Alt (LitI ''-inferred'') (LitI ''-shallow'')))) [] c = Some ([], c)" for c
    by (rule first_Opt_none, simp add: LitI_none)+
  have git: "rx_first git_version_pattern ?s [] = Some ([], describe_caps v ns n h)"
    using first_Seq [OF tag first_Seq [OF dev first_Seq [OF opt(1) first_Seq [OF opt(2) first_Eps]]]]
    by (simp only: git_version_pattern_def SeqL_def foldr.simps o_apply id_apply)
  have sp: "rx_first Spaces [] c = Some ([], c)" for c
    by (simp add: Spaces_def first_Star_Cls)
  have start: "rx_first Spaces ?s [] = Some (?s, [])"
    using describe_start [OF assms(1), of v n h] by (simp add: Spaces_def first_Star_Cls)
  have "rx_first (whole git_version_pattern) ?s [] = Some ([], describe_caps v ns n h)"
    using first_Seq [OF start first_Seq [OF git first_Seq [OF sp first_Seq [OF first_EndAnchor first_Eps]]]]
    by (simp only: whole_def SeqL_def foldr.simps o_apply id_apply)
  then show ?thesis by (simp add: rx_groups_def rx_match_first)
qed

lemma describe_version:
  assumes "ns \<noteq> []" "is_hash h"
  shows "new_git_version (describe_text v ns n h) =
    \<lparr>ver_release = release_text ns, release_type = (if n > 0 then {DEV} else {FINAL}),
     ver_tag = (if v then ''v'' else []) @ release_text ns, ver_orig = strip (describe_text v ns n h), release_tup = ns,
     extra_tup = [1, 0, 0], has_dev_part = True, dev_count = n, valid_version = True, is_dirty = False, is_inferred = False\<rparr>"
proof -
  have g: "group_number (describe_caps v ns n h) ''dev_n'' = n" by (simp add: group_number_def describe_caps_def digits_value_str_nat)
  show ?thesis
    unfolding new_git_version_def describe_matches [OF assms] option.case g Let_def git_flags_def git_extra_def
    by (simp add: describe_caps_def din_def dget_or_def release_tuple_text [OF assms(1)])
qed

text \<open>C23: What \<open>git describe\<close> prints, parsed and compared, is ordered by the numbers of the release and then by the commits since
  it; neither the \<open>v\<close> nor the hash matters. Exactly one of less, equal and greater holds.\<close>

theorem describe_order:
  assumes "ns \<noteq> []" "ms \<noteq> []" "is_hash h" "is_hash k"
    and "a = new_git_version (describe_text v ns n h)" "b = new_git_version (describe_text u ms m k)"
  shows "v_lt a b = Inr (ns < ms \<or> ns = ms \<and> n < m) \<and> v_gt a b = Inr (ms < ns \<or> ns = ms \<and> m < n) \<and>
    v_eq a b = Inr (ns = ms \<and> n = m) \<and> v_ne a b = Inr (\<not> (ns = ms \<and> n = m))"
proof -
  have v: "valid_version a" "valid_version b" "version_key a = (ns, [1, 0, 0], False, n)" "version_key b = (ms, [1, 0, 0], False, m)"
    by (simp_all add: assms(5,6) describe_version [OF assms(1,3)] describe_version [OF assms(2,4)] version_key_def)
  show ?thesis unfolding comparisons_by_key [OF v(1,2)] v(3,4) by (auto simp: order_le_less)
qed

theorem describe_order_witness:
  "v_lt (new_git_version ''v0.8.0-12-gab12cd34'') (new_git_version ''0.10.0-3-g0123abcd'') = Inr True"
proof -
  have h: "is_hash ''ab12cd34''" "is_hash ''0123abcd''" by code_simp+
  have d: "describe_text True [0, 8, 0] 12 ''ab12cd34'' = ''v0.8.0-12-gab12cd34''"
    "describe_text False [0, 10, 0] 3 ''0123abcd'' = ''0.10.0-3-g0123abcd''" by code_simp+
  have l: "[0, 8, 0] < [0, 10, 0 :: nat]" by simp
  have "v_lt (new_git_version (describe_text True [0, 8, 0] 12 ''ab12cd34'')) (new_git_version (describe_text False [0, 10, 0] 3 ''0123abcd'')) = Inr True"
    using describe_order [OF _ _ h refl refl, of "[0, 8, 0]" "[0, 10, 0]" True 12 False 3] l by simp
  then show ?thesis by (simp only: d)
qed

section \<open>Where the comparisons and conversions go wrong\<close>

text \<open>\<open>__le__\<close> denies that an older version is at most a newer one when a later part is greater: \<open>0.8.0\<close> and \<open>0.9.0.beta1\<close>.\<close>

lemma le_denies_older_release:
  assumes "valid_version a" "valid_version b" "release_tup a < release_tup b" "extra_tup b < extra_tup a"
  shows "v_lt a b = Inr True \<and> v_le a b = Inr False"
  using assms by (auto simp: v_lt_def v_le_def v_compare_def)

text \<open>PEP 440 puts development releases before the pre-releases of the same release; here they come after them.\<close>

lemma development_after_alpha:
  assumes "valid_version a" "valid_version b" "release_tup a = release_tup b" "extra_tup a = py_extra c" "extra_tup b = py_extra d"
    and "din ''pre'' c" "\<not> din ''pre'' d" "\<not> din ''post'' d" "has_dev_part b"
  shows "v_lt a b = Inr True"
proof -
  obtain p where "dget c ''pre'' = Some p" "dget d ''pre'' = None" using assms(6,7) by (auto simp: din_def)
  then have "extra_tup a < extra_tup b" using assms(4,5,8) by (simp add: py_extra_def)
  then show ?thesis using assms(1-3) by (simp add: comparisons_by_key version_key_def)
qed

text \<open>A version without a local part cannot be converted: the first character of its empty text is taken.\<close>

lemma convert_without_local_fails:
  "dget c ''release'' = Some r \<Longrightarrow> dget c ''local'' = None \<Longrightarrow> convert_to_git c = Inl IndexError"
  by (simp add: convert_to_git_def Let_def dget_or_def split_once_def split: prod.split)

end
