(* ===== verification/PyAct.thy ===== *)
theory PyAct
  imports PyPrelude
begin

text \<open>
  Actions: methods of an object that may raise, as functions from the state to a result or an exception and the new state. What
  was changed before an exception stays changed. \<open>act_simps\<close> evaluates them, \<open>holds\<close> is a total triple with a post-condition
  for returns and one for exceptions, and \<open>act_rules\<close> has a rule per combinator.
\<close>

named_theorems act_simps and act_rules

type_synonym ('s, 'e, 'a) act = "'s \<Rightarrow> ('e + 'a) \<times> 's"

definition ret :: "'a \<Rightarrow> ('s, 'e, 'a) act" where
  "ret x s = (Inr x, s)"

definition throw :: "'e \<Rightarrow> ('s, 'e, 'a) act" where
  "throw e s = (Inl e, s)"

definition abind :: "('s, 'e, 'a) act \<Rightarrow> ('a \<Rightarrow> ('s, 'e, 'b) act) \<Rightarrow> ('s, 'e, 'b) act" where
  "abind m f s = (case m s of (Inl e, s1) \<Rightarrow> (Inl e, s1) | (Inr x, s1) \<Rightarrow> f x s1)"

text \<open>\<open>try\<close> with one \<open>except\<close>.\<close>

definition catch :: "('s, 'e, 'a) act \<Rightarrow> ('e \<Rightarrow> ('s, 'e, 'a) act) \<Rightarrow> ('s, 'e, 'a) act" where
  "catch m h s = (case m s of (Inl e, s1) \<Rightarrow> h e s1 | (Inr x, s1) \<Rightarrow> (Inr x, s1))"

definition modify :: "('s \<Rightarrow> 's) \<Rightarrow> ('s, 'e, unit) act" where
  "modify f s = (Inr (), f s)"

definition gets :: "('s \<Rightarrow> 'a) \<Rightarrow> ('s, 'e, 'a) act" where
  "gets f s = (Inr (f s), s)"

text \<open>What depends on the state at this point.\<close>

definition look :: "('s \<Rightarrow> ('s, 'e, 'a) act) \<Rightarrow> ('s, 'e, 'a) act" where
  "look f s = f s s"

definition guard :: "bool \<Rightarrow> 'e \<Rightarrow> ('s, 'e, unit) act" where
  "guard b e = (if b then ret () else throw e)"

lemma act_evals [act_simps]:
  "ret x s = (Inr x, s)" "throw e s = (Inl e, s)" "modify f s = (Inr (), f s)" "gets g s = (Inr (g s), s)" "look k s = k s s"
  by (simp_all add: ret_def throw_def modify_def gets_def look_def)

lemma guard_evals [act_simps]: "guard True e s = (Inr (), s)" "guard False e s = (Inl e, s)"
  by (simp_all add: guard_def act_evals)

lemma abind_evals [act_simps]:
  "m s = (Inr x, s1) \<Longrightarrow> abind m f s = f x s1" "m s = (Inl e, s1) \<Longrightarrow> abind m f s = (Inl e, s1)"
  by (simp_all add: abind_def)

lemma catch_evals [act_simps]:
  "m s = (Inr x, s1) \<Longrightarrow> catch m h s = (Inr x, s1)" "m s = (Inl e, s1) \<Longrightarrow> catch m h s = h e s1"
  by (simp_all add: catch_def)

lemma abind_eq_Inr: "abind m f s = (Inr y, t) \<longleftrightarrow> (\<exists>x u. m s = (Inr x, u) \<and> f x u = (Inr y, t))"
  by (auto simp: abind_def split: prod.splits sum.splits)

lemma abind_assoc: "abind (abind m f) g = abind m (\<lambda>x. abind (f x) g)"
  by (rule ext) (auto simp: abind_def split: prod.split sum.split)

section \<open>Triples\<close>

definition holds :: "('s \<Rightarrow> bool) \<Rightarrow> ('s, 'e, 'a) act \<Rightarrow> ('a \<Rightarrow> 's \<Rightarrow> bool) \<Rightarrow> ('e \<Rightarrow> 's \<Rightarrow> bool) \<Rightarrow> bool" where
  "holds P m Q R \<longleftrightarrow> (\<forall>s. P s \<longrightarrow> (case m s of (Inr x, t) \<Rightarrow> Q x t | (Inl e, t) \<Rightarrow> R e t))"

lemma holdsI: "(\<And>s. P s \<Longrightarrow> case m s of (Inr x, t) \<Rightarrow> Q x t | (Inl e, t) \<Rightarrow> R e t) \<Longrightarrow> holds P m Q R"
  by (simp add: holds_def)

lemma holdsD: "holds P m Q R \<Longrightarrow> P s \<Longrightarrow> m s = (Inr x, t) \<Longrightarrow> Q x t"
  by (auto simp: holds_def split: prod.splits)

lemma holdsD_exc: "holds P m Q R \<Longrightarrow> P s \<Longrightarrow> m s = (Inl e, t) \<Longrightarrow> R e t"
  by (auto simp: holds_def split: prod.splits)

lemma holds_weaken:
  assumes "holds P m Q R" "\<And>s. P' s \<Longrightarrow> P s" "\<And>x t. Q x t \<Longrightarrow> Q' x t" "\<And>e t. R e t \<Longrightarrow> R' e t"
  shows "holds P' m Q' R'"
proof (rule holdsI)
  fix s assume "P' s"
  then have "P s" by (rule assms(2))
  with assms(1) have "case m s of (Inr x, t) \<Rightarrow> Q x t | (Inl e, t) \<Rightarrow> R e t" by (simp add: holds_def)
  then show "case m s of (Inr x, t) \<Rightarrow> Q' x t | (Inl e, t) \<Rightarrow> R' e t"
    using assms(3,4) by (cases "m s"; cases "fst (m s)") auto
qed

text \<open>An invariant is kept, whether the action returns or raises.\<close>

abbreviation maintains :: "('s \<Rightarrow> bool) \<Rightarrow> ('s, 'e, 'a) act \<Rightarrow> bool" where
  "maintains P m \<equiv> holds P m (\<lambda>_. P) (\<lambda>_. P)"

lemma maintainsI: "(\<And>s. P s \<Longrightarrow> P (snd (m s))) \<Longrightarrow> maintains P m"
  by (force simp: holds_def split: prod.split sum.split)

lemma maintainsD: "maintains P m \<Longrightarrow> P s \<Longrightarrow> m s = (r, t) \<Longrightarrow> P t"
  by (cases r) (auto simp: holds_def split: prod.splits)

lemma maintains_ret [act_rules]: "maintains P (ret x)"
  and maintains_throw [act_rules]: "maintains P (throw e)"
  and maintains_gets [act_rules]: "maintains P (gets g)"
  and maintains_guard [act_rules]: "maintains P (guard b e)"
  by (simp_all add: holds_def guard_def act_simps)

lemma maintains_modify [act_rules]: "(\<And>s. P s \<Longrightarrow> P (f s)) \<Longrightarrow> maintains P (modify f)"
  by (simp add: holds_def act_simps)

lemma maintains_snd: "maintains P m \<longleftrightarrow> (\<forall>s. P s \<longrightarrow> P (snd (m s)))"
proof
  assume m: "maintains P m"
  show "\<forall>s. P s \<longrightarrow> P (snd (m s))"
  proof (intro allI impI)
    fix s assume "P s"
    from maintainsD [OF m this, of "fst (m s)" "snd (m s)"] show "P (snd (m s))" by simp
  qed
qed (blast intro: maintainsI)

lemma maintains_abind [act_rules]:
  assumes "maintains P m" "\<And>x. maintains P (f x)"
  shows "maintains P (abind m f)"
proof (rule maintainsI)
  fix s assume "P s"
  with assms(1) have "P (snd (m s))" by (simp only: maintains_snd)
  with assms(2) show "P (snd (abind m f s))" unfolding maintains_snd by (cases "m s"; cases "fst (m s)") (auto simp: abind_def)
qed

lemma maintains_catch [act_rules]:
  assumes "maintains P m" "\<And>e. maintains P (h e)"
  shows "maintains P (catch m h)"
proof (rule maintainsI)
  fix s assume "P s"
  with assms(1) have "P (snd (m s))" by (simp only: maintains_snd)
  with assms(2) show "P (snd (catch m h s))" unfolding maintains_snd by (cases "m s"; cases "fst (m s)") (auto simp: catch_def)
qed

lemma maintains_look [act_rules]: "(\<And>s. maintains P (k s)) \<Longrightarrow> maintains P (look k)"
  by (simp add: maintains_snd act_simps)

lemma maintains_if [act_rules]: "maintains P m \<Longrightarrow> maintains P n \<Longrightarrow> maintains P (if b then m else n)"
  by simp

lemma maintains_option [act_rules]:
  "maintains P m \<Longrightarrow> (\<And>x. maintains P (f x)) \<Longrightarrow> maintains P (case z of None \<Rightarrow> m | Some x \<Rightarrow> f x)"
  by (cases z) simp_all

lemma maintains_sum [act_rules]:
  "(\<And>x. maintains P (f x)) \<Longrightarrow> (\<And>x. maintains P (g x)) \<Longrightarrow> maintains P (case z of Inl x \<Rightarrow> f x | Inr x \<Rightarrow> g x)"
  by (cases z) simp_all

lemma holds_abind:
  assumes "holds P m Q R" "\<And>x. holds (Q x) (f x) Q' R"
  shows "holds P (abind m f) Q' R"
proof (rule holdsI)
  fix s assume s: "P s"
  obtain r t where m: "m s = (r, t)" by (cases "m s")
  show "case abind m f s of (Inr x, t) \<Rightarrow> Q' x t | (Inl e, t) \<Rightarrow> R e t"
  proof (cases r)
    case (Inl e)
    with holdsD_exc [OF assms(1) s] m show ?thesis by (simp add: act_simps)
  next
    case (Inr x)
    with holdsD [OF assms(1) s] m have "Q x t" by simp
    with assms(2) [of x] m Inr show ?thesis by (auto simp: act_simps holds_def)
  qed
qed

text \<open>What a frame leaves alone keeps every property of it.\<close>

lemma frame_keeps:
  assumes "\<And>c. maintains (\<lambda>s. f s = c) m" "\<And>s t. f s = f t \<Longrightarrow> P s \<Longrightarrow> P t"
  shows "maintains P m"
proof (rule maintainsI)
  fix s assume s: "P s"
  from assms(1) [of "f s"] have "f (snd (m s)) = f s" by (simp add: maintains_snd)
  with s show "P (snd (m s))" using assms(2) [of s "snd (m s)"] by simp
qed

section \<open>What holds when an action returns\<close>

abbreviation returns :: "('s \<Rightarrow> bool) \<Rightarrow> ('s, 'e, 'a) act \<Rightarrow> ('a \<Rightarrow> 's \<Rightarrow> bool) \<Rightarrow> bool" where
  "returns P m Q \<equiv> holds P m Q (\<lambda>_ _. True)"

lemma returns_maintains: "maintains P m \<Longrightarrow> returns P m (\<lambda>_. P)"
  by (erule holds_weaken) simp_all

lemma returns_ret: "(\<And>s. P s \<Longrightarrow> Q x s) \<Longrightarrow> returns P (ret x) Q"
  by (simp add: holds_def act_simps)

lemma returns_modify: "(\<And>s. P s \<Longrightarrow> Q () (f s)) \<Longrightarrow> returns P (modify f) Q"
  by (simp add: holds_def act_simps)

lemma returns_look: "(\<And>s. P s \<Longrightarrow> returns P (k s) Q) \<Longrightarrow> returns P (look k) Q"
  by (simp add: holds_def act_simps)

text \<open>A result with a property that does not depend on the state.\<close>

lemma returns_abind:
  assumes "returns P m (\<lambda>x s. P s \<and> K x)" "\<And>x. K x \<Longrightarrow> returns P (f x) Q"
  shows "returns P (abind m f) Q"
proof (rule holds_abind [OF assms(1)])
  show "returns (\<lambda>s. P s \<and> K x) (f x) Q" for x using assms(2) [of x] by (simp add: holds_def)
qed

lemma returns_step: "maintains P m \<Longrightarrow> (\<And>x. returns P (f x) Q) \<Longrightarrow> returns P (abind m f) Q"
  by (rule returns_abind [where K = "\<lambda>_. True"]) (auto intro: holds_weaken)

lemma returns_if: "(b \<Longrightarrow> returns P m Q) \<Longrightarrow> (\<not> b \<Longrightarrow> returns P n Q) \<Longrightarrow> returns P (if b then m else n) Q"
  by simp

end
