(* ===== verification/GitDeploy.thy ===== *)
theory GitDeploy
  imports Versions PyAct
begin

text \<open>
  \<open>moonraker/components/update_manager/git_deploy.py\<close>: the state Moonraker keeps of a git repository, the commands it runs on it, and the
  update, rollback and recovery of an application that is one.

  The git program acts on a working tree of any type, through the parameters \<open>git\<close> (a command with its own retries, which gives
  its answer or fails) and \<open>git_process\<close> (a command whose outputs are read as they come, with its return code). Lock files, the
  search for the \<open>.git\<close> directory, the answer of a web server and the installation of dependencies are parameters, too. Each
  method runs under the lock of the repository, so methods do not interleave. Lines end in a newline only. Logging
  and the warning about a configured origin that moved elsewhere are left out.
\<close>

section \<open>State\<close>

datatype channel = Stable | Beta | Dev

record git_failure =
  return_code :: "int option"
  fail_out :: string
  fail_err :: string

text \<open>\<open>ShellCommandError\<close>, and every other exception.\<close>

datatype git_exc = Shell git_failure | Fault exc

type_synonym commit = "(string, string option) dict"

record 'w git_repo =
  gr_alias :: string
  origin_url :: string
  primary_branch :: string
  gr_channel :: channel
  valid_git_repo :: bool
  gr_initialized :: bool
  git_owner :: string
  git_repo_name :: string
  git_remote :: string
  git_branch :: string
  current_version :: git_version
  upstream_version :: git_version
  current_commit :: string
  upstream_commit :: string
  upstream_url :: string
  recovery_url :: string
  branches :: "string list"
  head_detached :: bool
  git_messages :: "string list"
  commits_behind :: "commit list"
  commits_behind_count :: int
  diverged :: bool
  repo_corrupt :: bool
  modified_files :: "string list"
  untracked_files :: "string list"
  rollback_commit :: string
  rollback_branch :: string
  rollback_version :: git_version
  repo_warnings :: "string list"
  repo_anomalies :: "string list"
  managing_instances :: "string list"
  notices :: "string list"
  tree :: 'w

record 'w git_env =
  git :: "string \<Rightarrow> 'w \<Rightarrow> (git_failure + string) \<times> 'w"
  git_process :: "string \<Rightarrow> 'w \<Rightarrow> (string list \<times> int) \<times> 'w"
  remove_empty_objects :: "'w \<Rightarrow> (git_failure + string) \<times> 'w"
  lock_file :: "'w \<Rightarrow> bool"
  remove_lock :: "'w \<Rightarrow> 'w"
  wait_second :: "'w \<Rightarrow> 'w"
  detect_git_dir :: "'w \<Rightarrow> bool"
  final_url :: "string \<Rightarrow> string option"
  debug_enabled :: bool
  instance_id :: string
  linked_repo :: "'w \<Rightarrow> bool"
  repo_type :: "'w \<Rightarrow> string"
  backup_path :: string
  drop_backup :: "'w \<Rightarrow> (git_exc + unit) \<times> 'w"
  install_backup :: "'w \<Rightarrow> (git_exc + unit) \<times> 'w"
  list_text :: "string list \<Rightarrow> string"

type_synonym ('w, 'a) git_act = "('w git_repo, git_exc, 'a) act"

definition server_error :: "string \<Rightarrow> git_exc" where
  "server_error m = Fault (AppError m)"

section \<open>Running git\<close>

text \<open>\<open>_run_git_cmd\<close>. The lines of the error output are taken from the standard output, as in the source.\<close>

definition run_git_cmd :: "'w git_env \<Rightarrow> string \<Rightarrow> string \<Rightarrow> ('w, string) git_act" where
  "run_git_cmd v corrupt_msg args s =
     (case git v args (tree s) of
        (Inr resp, w) \<Rightarrow> (Inr resp, s\<lparr>tree := w\<rparr>)
      | (Inl f, w) \<Rightarrow>
          let out = strip (fail_out f); err = strip (fail_err f);
              lns = (if out \<noteq> [] then split_on newline_char out else []) @ (if err \<noteq> [] then split_on newline_char out else []);
              msgs = (if out \<noteq> [] then [out] else []) @ (if err \<noteq> [] then [err] else []);
              bad = (\<exists>l \<in> set lns. startswith (lower (strip l)) corrupt_msg)
          in (Inl (Shell f), s\<lparr>tree := w, git_messages := git_messages s @ msgs, repo_corrupt := repo_corrupt s \<or> bad\<rparr>))"

abbreviation fatal :: string where
  "fatal \<equiv> ''fatal: ''"

definition handle_process_output :: "string \<Rightarrow> 'w git_repo \<Rightarrow> 'w git_repo" where
  "handle_process_output output s =
     (let out = strip output in
      if out = [] then s
      else s\<lparr>repo_corrupt := repo_corrupt s \<or> startswith out fatal, git_messages := git_messages s @ [out],
             notices := notices s @ [out]\<rparr>)"

definition notify :: "string \<Rightarrow> ('w, unit) git_act" where
  "notify m = modify (\<lambda>s. s\<lparr>notices := notices s @ [m]\<rparr>)"

definition check_lock_file_exists :: "'w git_env \<Rightarrow> bool \<Rightarrow> ('w, bool) git_act" where
  "check_lock_file_exists v remove s =
     (if lock_file v (tree s) then (Inr True, if remove then s\<lparr>tree := remove_lock v (tree s)\<rparr> else s) else (Inr False, s))"

fun wait_for_lock_release :: "'w git_env \<Rightarrow> nat \<Rightarrow> ('w, unit) git_act" where
  "wait_for_lock_release v 0 = abind (check_lock_file_exists v True) (\<lambda>_. ret ())"
| "wait_for_lock_release v (Suc n) =
     abind (check_lock_file_exists v False) (\<lambda>locked.
       if locked then abind (modify (\<lambda>s. s\<lparr>tree := wait_second v (tree s)\<rparr>)) (\<lambda>_. wait_for_lock_release v n) else ret ())"

text \<open>One run of the command, with the messages of this run only.\<close>

definition git_attempt :: "'w git_env \<Rightarrow> string \<Rightarrow> ('w, int) git_act" where
  "git_attempt v cmd s =
     (case git_process v cmd (tree s) of
        ((outs, code), w) \<Rightarrow> (Inr code, fold handle_process_output outs (s\<lparr>git_messages := [], tree := w\<rparr>)))"

definition git_failed :: "string \<Rightarrow> git_exc" where
  "git_failed cmd = server_error (''Git Command '' @ quoted cmd @ '' failed'')"

text \<open>The loop of \<open>_run_git_cmd_async\<close> once nothing is to be repaired any more.\<close>

fun git_retry :: "'w git_env \<Rightarrow> string \<Rightarrow> nat \<Rightarrow> ('w, unit) git_act" where
  "git_retry v cmd 0 = throw (git_failed cmd)"
| "git_retry v cmd (Suc n) =
     abind (git_attempt v cmd) (\<lambda>code.
       if code = 0 then modify (\<lambda>s. s\<lparr>git_messages := []\<rparr>)
       else abind (check_lock_file_exists v True) (\<lambda>_. git_retry v cmd n))"

definition remove_empty :: "'w git_env \<Rightarrow> ('w, unit) git_act" where
  "remove_empty v s = (case remove_empty_objects v (tree s) of
     (Inr _, w) \<Rightarrow> (Inr (), s\<lparr>tree := w\<rparr>) | (Inl f, w) \<Rightarrow> (Inl (Shell f), s\<lparr>tree := w\<rparr>))"

definition repair_loose_objects :: "'w git_env \<Rightarrow> bool \<Rightarrow> ('w, bool) git_act" where
  "repair_loose_objects v note =
     abind (if note then notify ''Attempting to repair loose objects...'' else ret ()) (\<lambda>_.
     catch
       (abind (remove_empty v) (\<lambda>_. abind (wait_for_lock_release v 60) (\<lambda>_. abind (git_retry v ''fetch --all -p'' 1) (\<lambda>_.
        abind (run_git_cmd v fatal ''fsck --full'') (\<lambda>_.
        abind (if note then notify ''Loose objects repaired'' else ret ()) (\<lambda>_.
        abind (modify (\<lambda>s. s\<lparr>repo_corrupt := False\<rparr>)) (\<lambda>_. ret True)))))))
       (\<lambda>e. abind (if note then notify ''Attempt to repair loose objects failed, hard recovery is required'' else ret ()) (\<lambda>_. ret False)))"

text \<open>The loop while loose objects may still be repaired, once, with one more run after it.\<close>

fun git_retry_repair :: "'w git_env \<Rightarrow> string \<Rightarrow> nat \<Rightarrow> ('w, unit) git_act" where
  "git_retry_repair v cmd 0 = throw (git_failed cmd)"
| "git_retry_repair v cmd (Suc n) =
     abind (git_attempt v cmd) (\<lambda>code.
       if code = 0 then modify (\<lambda>s. s\<lparr>git_messages := []\<rparr>)
       else look (\<lambda>s.
         if repo_corrupt s then
           abind (repair_loose_objects v True) (\<lambda>ok.
             if ok then abind (check_lock_file_exists v True) (\<lambda>_. git_retry v cmd 1)
             else throw (server_error ''Unable to repair loose objects, use hard recovery''))
         else abind (check_lock_file_exists v True) (\<lambda>_. git_retry_repair v cmd n)))"

definition run_git_cmd_async :: "'w git_env \<Rightarrow> string \<Rightarrow> ('w, unit) git_act" where
  "run_git_cmd_async v cmd = abind (wait_for_lock_release v 60) (\<lambda>_. git_retry_repair v cmd 5)"

definition verify_repo :: "bool \<Rightarrow> ('w, unit) git_act" where
  "verify_repo check_remote = look (\<lambda>s.
     abind (guard (valid_git_repo s) (server_error (''Git Repo '' @ gr_alias s @ '': repo not initialized''))) (\<lambda>_.
     guard (\<not> (check_remote \<and> git_remote s = ''?'')) (server_error (''Git Repo '' @ gr_alias s @ '': No valid git remote detected''))))"

section \<open>Queries\<close>

text \<open>A verified command whose answer is stripped.\<close>

definition ask :: "'w git_env \<Rightarrow> string \<Rightarrow> ('w, string) git_act" where
  "ask v cmd = abind (verify_repo False) (\<lambda>_. abind (run_git_cmd v fatal (strip cmd)) (\<lambda>r. ret (strip r)))"

definition describe :: "'w git_env \<Rightarrow> string \<Rightarrow> ('w, string) git_act" where
  "describe v args = ask v (''describe '' @ args)"

definition rev_parse :: "'w git_env \<Rightarrow> string \<Rightarrow> ('w, string) git_act" where
  "rev_parse v args = ask v (''rev-parse '' @ args)"

definition rev_list :: "'w git_env \<Rightarrow> string \<Rightarrow> ('w, string) git_act" where
  "rev_list v args = ask v (''rev-list '' @ args)"

definition list_branches :: "'w git_env \<Rightarrow> ('w, string list) git_act" where
  "list_branches v = abind (verify_repo False) (\<lambda>_. abind (run_git_cmd v fatal ''branch --list --no-color'') (\<lambda>r.
     ret (split_on newline_char (strip r))))"

definition git_remote_cmd :: "'w git_env \<Rightarrow> string \<Rightarrow> bool \<Rightarrow> ('w, string) git_act" where
  "git_remote_cmd v command validate = abind (verify_repo validate) (\<lambda>_. abind (run_git_cmd v fatal (''remote '' @ command)) (\<lambda>r.
     ret (strip r)))"

text \<open>\<open>(e.return_code or 10)\<close> between 1 and 6, or the last attempt.\<close>

definition config_error :: "git_failure \<Rightarrow> bool" where
  "config_error f \<longleftrightarrow> (case return_code f of None \<Rightarrow> False | Some c \<Rightarrow> 1 \<le> c \<and> c \<le> 6)"

fun config_attempts :: "'w git_env \<Rightarrow> string \<Rightarrow> nat \<Rightarrow> ('w, string) git_act" where
  "config_attempts v args 0 = throw (server_error ''Failed to run git-config'')"
| "config_attempts v args (Suc n) =
     catch (run_git_cmd v fatal (''config '' @ args)) (\<lambda>e.
       case e of
         Shell f \<Rightarrow> if config_error f \<or> n = 0 then throw e else config_attempts v args n
       | Fault x \<Rightarrow> throw e)"

definition config_cmd :: "'w git_env \<Rightarrow> string \<Rightarrow> ('w, string) git_act" where
  "config_cmd v args = abind (verify_repo False) (\<lambda>_. config_attempts v args 3)"

definition config_get :: "'w git_env \<Rightarrow> bool \<Rightarrow> bool \<Rightarrow> string \<Rightarrow> ('w, string option) git_act" where
  "config_get v get_all local_only key =
     catch (abind (config_cmd v ((if local_only then ''--local '' else []) @ (if get_all then ''--get-all '' else ''--get '') @ key))
         (\<lambda>r. ret (Some r)))
       (\<lambda>e. case e of Shell f \<Rightarrow> if return_code f = Some 1 then ret None else throw e | Fault x \<Rightarrow> throw e)"

text \<open>Up to three attempts; only a return code of 1 says no.\<close>

fun ancestor_attempts :: "'w git_env \<Rightarrow> string \<Rightarrow> nat \<Rightarrow> ('w, bool) git_act" where
  "ancestor_attempts v cmd 0 = ret True"
| "ancestor_attempts v cmd (Suc n) =
     catch (abind (run_git_cmd v ''error: '' cmd) (\<lambda>_. ret True)) (\<lambda>e.
       case e of
         Shell f \<Rightarrow> if return_code f = Some 1 then ret False
                    else look (\<lambda>s. if repo_corrupt s then throw e else ancestor_attempts v cmd n)
       | Fault x \<Rightarrow> throw e)"

definition is_ancestor :: "'w git_env \<Rightarrow> string \<Rightarrow> string \<Rightarrow> ('w, bool) git_act" where
  "is_ancestor v a d = abind (verify_repo False) (\<lambda>_. ancestor_attempts v (''merge-base --is-ancestor '' @ a @ '' '' @ d) 3)"

definition check_diverged :: "'w git_env \<Rightarrow> ('w, bool) git_act" where
  "check_diverged v = abind (verify_repo True) (\<lambda>_. look (\<lambda>s.
     if head_detached s then ret False
     else abind (is_ancestor v ''HEAD'' (git_remote s @ ''/'' @ git_branch s)) (\<lambda>b. ret (\<not> b))))"

section \<open>Finding the state of the repository\<close>

text \<open>The lines of \<open>branch --list\<close>: the current one is returned, the others, but for a detached head, are noted.\<close>

fun scan_branches :: "string list \<Rightarrow> string \<Rightarrow> ('w, string) git_act" where
  "scan_branches [] cur = ret cur"
| "scan_branches (l # ls) cur =
     (case strip l of
        [] \<Rightarrow> scan_branches ls cur
      | c # r \<Rightarrow>
          let star = (c = CHR ''*''); name = (if star then strip (drop 1 r) else c # r); cur' = (if star then name else cur)
          in case name of
               [] \<Rightarrow> throw (Fault IndexError)
             | x # y \<Rightarrow>
                 abind (if x = CHR ''('' then ret () else modify (\<lambda>s. s\<lparr>branches := branches s @ [name]\<rparr>)) (\<lambda>_. scan_branches ls cur'))"

definition lift_res :: "'a res \<Rightarrow> ('w, 'a) git_act" where
  "lift_res r = (case r of Inl e \<Rightarrow> throw (Fault e) | Inr x \<Rightarrow> ret x)"

text \<open>The first remote that is a prefix of the reference.\<close>

definition tracked_remote :: "string \<Rightarrow> string list \<Rightarrow> string option" where
  "tracked_remote ref_name remotes = find (\<lambda>r. r \<noteq> [] \<and> startswith ref_name r) (map strip remotes)"

definition find_current_branch :: "'w git_env \<Rightarrow> ('w, unit) git_act" where
  "find_current_branch v =
     abind (list_branches v) (\<lambda>blist.
     abind (modify (\<lambda>s. s\<lparr>branches := []\<rparr>)) (\<lambda>_.
     abind (scan_branches blist []) (\<lambda>cur.
     if startswith cur ''(HEAD detached'' then
       abind (modify (\<lambda>s. s\<lparr>head_detached := True\<rparr>)) (\<lambda>_.
       abind (git_remote_cmd v [] False) (\<lambda>remotes.
         let ref_name = butlast (last (split_ws cur)) in
         case tracked_remote ref_name (split_on newline_char remotes) of
           Some r \<Rightarrow> modify (\<lambda>s. s\<lparr>git_branch := drop (length r + 1) ref_name, git_remote := r\<rparr>)
         | None \<Rightarrow> ret ()))
     else
       abind (modify (\<lambda>s. s\<lparr>head_detached := False, git_branch := cur\<rparr>)) (\<lambda>_.
       abind (config_get v False False (''branch.'' @ cur @ ''.remote'')) (\<lambda>r.
         modify (\<lambda>s. s\<lparr>git_remote := (case r of None \<Rightarrow> ''?'' | Some x \<Rightarrow> if x = [] then ''?'' else x)\<rparr>))))))"

definition set_current_instance :: "'w git_env \<Rightarrow> ('w, unit) git_act" where
  "set_current_instance v =
     abind (modify (\<lambda>s. s\<lparr>managing_instances := []\<rparr>)) (\<lambda>_.
     catch
       (abind (config_get v True True ''moonraker.instance'') (\<lambda>r.
          case r of
            None \<Rightarrow> abind (config_cmd v (''moonraker.instance '' @ quoted (instance_id v))) (\<lambda>_.
              modify (\<lambda>s. s\<lparr>managing_instances := [instance_id v]\<rparr>))
          | Some t \<Rightarrow>
              let ins = filter (\<lambda>x. x \<noteq> []) (map strip (split_on newline_char t)) in
              if instance_id v \<in> set ins then modify (\<lambda>s. s\<lparr>managing_instances := ins\<rparr>)
              else abind (config_cmd v (''--add moonraker.instance '' @ quoted (instance_id v))) (\<lambda>_.
                modify (\<lambda>s. s\<lparr>managing_instances := ins @ [instance_id v]\<rparr>))))
       (\<lambda>e. ret ()))"

text \<open>\<open>pathlib.Path(name).suffix\<close>.\<close>

definition path_suffix :: "string \<Rightarrow> string" where
  "path_suffix p =
     (let parts = filter (\<lambda>c. c \<noteq> [] \<and> c \<noteq> ''.'') (split_on (CHR ''/'') p); n = (if parts = [] then [] else last parts) in
      case rfind_char (CHR ''.'') n of None \<Rightarrow> [] | Some i \<Rightarrow> if 0 < i \<and> i < length n - 1 then drop i n else [])"

text \<open>A line of \<open>status --porcelain\<close>: its first word and the rest.\<close>

definition status_line :: "string \<Rightarrow> (string \<times> string) option" where
  "status_line l =
     (let s = strip l; w = takeWhile (\<lambda>c. \<not> is_space c) s; r = strip (drop (length w) s)
      in if r = [] then None else Some (w, r))"

definition note_status :: "string \<Rightarrow> 'w git_repo \<Rightarrow> 'w git_repo" where
  "note_status l s =
     (case status_line l of
        None \<Rightarrow> s
      | Some (p, f) \<Rightarrow>
          if p = ''M'' then s\<lparr>modified_files := modified_files s @ [f]\<rparr>
          else if p = ''??'' \<and> path_suffix f \<in> {''.py'', ''.c'', ''.cpp''} then s\<lparr>untracked_files := untracked_files s @ [f]\<rparr>
          else s)"

fun status_attempts :: "'w git_env \<Rightarrow> nat \<Rightarrow> ('w, string option) git_act" where
  "status_attempts v 0 = ret None"
| "status_attempts v (Suc n) =
     abind (modify (\<lambda>s. s\<lparr>git_messages := []\<rparr>)) (\<lambda>_.
     abind (catch (abind (run_git_cmd v fatal ''status --porcelain -b'') (\<lambda>r. ret (Some r))) (\<lambda>e. ret None)) (\<lambda>resp.
       case resp of
         Some r \<Rightarrow> ret (Some r)
       | None \<Rightarrow> look (\<lambda>s.
           if n > 0 \<and> repo_corrupt s then
             abind (repair_loose_objects v False) (\<lambda>ok. if ok then status_attempts v n else ret None)
           else status_attempts v n)))"

definition check_repo_status :: "'w git_env \<Rightarrow> ('w, bool) git_act" where
  "check_repo_status v =
     abind (modify (\<lambda>s. s\<lparr>valid_git_repo := False\<rparr>)) (\<lambda>_.
     abind (gets (\<lambda>s. detect_git_dir v (tree s))) (\<lambda>found.
       if \<not> found then ret False
       else abind (wait_for_lock_release v 60) (\<lambda>_. abind (status_attempts v 3) (\<lambda>resp.
         case resp of
           None \<Rightarrow> ret False
         | Some r \<Rightarrow>
             abind (modify (\<lambda>s. (fold note_status (split_on newline_char r) (s\<lparr>modified_files := [], untracked_files := []\<rparr>))
               \<lparr>valid_git_repo := True\<rparr>)) (\<lambda>_.
             abind (set_current_instance v) (\<lambda>_. ret True))))))"

definition add_git :: "string \<Rightarrow> string" where
  "add_git u = (if endswith u ''.git'' then u else u @ ''.git'')"

definition check_moved_origin :: "'w git_env \<Rightarrow> ('w, bool) git_act" where
  "check_moved_origin v = look (\<lambda>s.
     let detected = add_git (strip (lower (upstream_url s))) in
     if debug_enabled v \<or> \<not> startswith detected ''http'' \<or> detected = lower (origin_url s) then ret False
     else case final_url v (take (length detected - 4) detected) of
       None \<Rightarrow> ret False
     | Some u \<Rightarrow>
         if add_git (lower u) = lower (origin_url s) then
           abind (git_remote_cmd v (''set-url '' @ git_remote s @ '' '' @ origin_url s) True) (\<lambda>_.
           abind (modify (\<lambda>s. s\<lparr>upstream_url := origin_url s\<rparr>)) (\<lambda>_. ret True))
         else ret False)"

section \<open>Versions\<close>

text \<open>The tags of \<open>for-each-ref\<close>, as commits with their tags.\<close>

definition tag_line :: "string \<Rightarrow> (string \<times> string) list" where
  "tag_line l = (case split_ws (strip l) of
     [kind, sha, ref] \<Rightarrow> if kind = ''commit'' then [(sha, last (split_on (CHR ''/'') ref))] else [] | _ \<Rightarrow> [])"

definition git_ref_fmt :: string where
  "git_ref_fmt = quoted (''%(if)%(*objecttype)%(then)%(*objecttype) %(*objectname)'' @ ''%(else)%(objecttype) %(objectname)%(end) %(refname)'')"

definition get_tagged_commits :: "'w git_env \<Rightarrow> ('w, (string, string) dict) git_act" where
  "get_tagged_commits v = abind (verify_repo True) (\<lambda>_. look (\<lambda>s.
     abind (run_git_cmd v fatal (''for-each-ref --count=100 --sort='' @ quoted ''-creatordate'' @ '' --contains=HEAD --merged='' @
         git_remote s @ ''/'' @ git_branch s @ '' --format='' @ git_ref_fmt @ '' '' @ quoted ''refs/tags'')) (\<lambda>resp.
       ret (dict_of (concat (map tag_line (split_on newline_char resp)))))))"

definition channel_allows :: "channel \<Rightarrow> git_version \<Rightarrow> bool" where
  "channel_allows ch ver \<longleftrightarrow> valid_version ver \<and>
     (ch = Stable \<and> is_final_release ver \<or> ch = Beta \<and> \<not> is_alpha_release ver)"

definition get_upstream_version :: "'w git_env \<Rightarrow> ('w, git_version) git_act" where
  "get_upstream_version v =
     abind (modify (\<lambda>s. s\<lparr>commits_behind_count := 0\<rparr>)) (\<lambda>_. look (\<lambda>s.
     abind
       (if gr_channel s = Dev then
          abind (rev_parse v (git_remote s @ ''/'' @ git_branch s)) (\<lambda>sha.
          abind (modify (\<lambda>s. s\<lparr>upstream_commit := sha\<rparr>)) (\<lambda>_.
            describe v (git_remote s @ ''/'' @ git_branch s @ '' --always --tags --long --abbrev=8'')))
        else
          abind (get_tagged_commits v) (\<lambda>tags.
            let (sha, tag) = (case find (\<lambda>(sha, tag). channel_allows (gr_channel s) (new_git_version tag)) tags of
                                Some p \<Rightarrow> p | None \<Rightarrow> (''?'', ''?''))
            in abind (modify (\<lambda>s. s\<lparr>upstream_commit := sha\<rparr>)) (\<lambda>_. ret tag)))
       (\<lambda>text. look (\<lambda>s.
          if upstream_commit s \<noteq> ''?'' then
            abind (rev_list v (''HEAD..'' @ upstream_commit s @ '' --count'')) (\<lambda>c.
            abind (lift_res (res_of ValueError (parse_int 10 c))) (\<lambda>n.
            abind (modify (\<lambda>s. s\<lparr>commits_behind_count := n\<rparr>)) (\<lambda>_. ret (new_git_version text))))
          else ret (new_git_version text)))))"

text \<open>The version of the head when git gives no usable one.\<close>

definition infer_current :: "'w git_env \<Rightarrow> git_version \<Rightarrow> git_version \<Rightarrow> ('w, git_version) git_act" where
  "infer_current v cur up =
     (if valid_version cur then ret cur
      else abind (rev_list v ''HEAD --count'') (\<lambda>count. look (\<lambda>s.
        let sha_part = (if is_fallback cur then ''-g'' @ ver_orig cur
                        else if current_commit s \<notin> {''?'', []} then ''-g'' @ take 8 (current_commit s) else [])
        in ret (new_git_version (infer_last_tag up @ ''-'' @ count @ sha_part @ ''-inferred'')))))"

definition infer_upstream :: "'w git_env \<Rightarrow> git_version \<Rightarrow> git_version \<Rightarrow> ('w, git_version) git_act" where
  "infer_upstream v cur up =
     (if valid_version up then ret up
      else look (\<lambda>s.
        abind (if is_inferred cur then rev_list v (upstream_commit s @ '' --count'')
               else ret (str_int (commits_behind_count s + int (dev_count cur)))) (\<lambda>count.
          ret (new_git_version (ver_tag cur @ ''-'' @ count @ ''-inferred'')))))"

definition no_update :: "'w git_repo \<Rightarrow> 'w git_repo" where
  "no_update s = s\<lparr>upstream_commit := current_commit s\<rparr>"

definition set_versions :: "'w git_env \<Rightarrow> git_version \<Rightarrow> git_version \<Rightarrow> ('w, unit) git_act" where
  "set_versions v cur0 up0 =
     abind (infer_current v cur0 up0) (\<lambda>cur. look (\<lambda>s.
     abind
       (if gr_channel s = Dev then infer_upstream v cur up0
        else if \<not> valid_version up0 then abind (modify no_update) (\<lambda>_. ret cur)
        else abind (lift_res (v_le up0 cur)) (\<lambda>le. abind (if le then modify no_update else ret ()) (\<lambda>_. ret up0)))
       (\<lambda>up. modify (\<lambda>s. s\<lparr>current_version := cur, upstream_version := up\<rparr>))))"

section \<open>Warnings and what the repository allows\<close>

definition is_dirty_repo :: "'w git_repo \<Rightarrow> bool" where
  "is_dirty_repo s \<longleftrightarrow> is_dirty (current_version s)"

definition is_current :: "'w git_repo \<Rightarrow> bool" where
  "is_current s \<longleftrightarrow> current_commit s = upstream_commit s"

definition is_damaged :: "'w git_repo \<Rightarrow> bool" where
  "is_damaged s \<longleftrightarrow> \<not> valid_git_repo s \<or> repo_corrupt s"

definition has_recoverable_errors :: "'w git_env \<Rightarrow> 'w git_repo \<Rightarrow> bool" where
  "has_recoverable_errors v s \<longleftrightarrow> diverged s \<or> is_dirty_repo s \<or> (\<not> debug_enabled v \<and> head_detached s)"

definition repo_is_valid :: "'w git_env \<Rightarrow> 'w git_repo \<Rightarrow> bool" where
  "repo_is_valid v s \<longleftrightarrow> \<not> is_damaged s \<and> \<not> has_recoverable_errors v s"

definition url_anomaly :: "'w git_repo \<Rightarrow> string list" where
  "url_anomaly s = (if add_git (lower (upstream_url s)) \<noteq> lower (origin_url s) then [''Unofficial remote url: '' @ upstream_url s] else [])"

definition branch_anomaly :: "'w git_repo \<Rightarrow> string list" where
  "branch_anomaly s = (if git_branch s \<noteq> primary_branch s \<or> git_remote s \<noteq> ''origin''
     then [''Repo not on offical remote/branch, expected: origin/'' @ primary_branch s @ '', detected: '' @ git_remote s @ ''/'' @ git_branch s]
     else [])"

definition check_warnings :: "'w git_env \<Rightarrow> 'w git_repo \<Rightarrow> 'w git_repo" where
  "check_warnings v s =
     (let corrupt = (if repo_corrupt s then [''Repo is corrupt''] else []);
          detached = (if head_detached s then [''Detached HEAD detected''] else []) in
      if upstream_url s = ''?'' then s\<lparr>repo_warnings := corrupt @ [''Failed to detect repo url''], repo_anomalies := []\<rparr>
      else s\<lparr>
        repo_warnings := corrupt @ (if debug_enabled v then [] else detached) @
          (if is_dirty_repo s then [''Repo is dirty.  Detected the following modifed files: '' @ list_text v (modified_files s)] else []),
        repo_anomalies := url_anomaly s @ branch_anomaly s @
          (if untracked_files s \<noteq> [] then [''Repo has untracked source files: '' @ list_text v (untracked_files s)] else []) @
          (if diverged s then [''Repo has diverged from remote''] else []) @
          (if debug_enabled v then detached else []) @
          (if length (managing_instances s) > 1
           then [''Multiple instances of Moonraker managing this repo:'' @ newline_char # join [newline_char] (map (\<lambda>i. ''  '' @ i) (managing_instances s))]
           else [])\<rparr>)"

definition capture_state_for_rollback :: "'w git_repo \<Rightarrow> string \<times> string \<times> git_version" where
  "capture_state_for_rollback s =
     (current_commit s,
      if head_detached s then (if git_remote s \<noteq> ''?'' \<and> git_branch s \<noteq> ''?'' then git_remote s @ ''/'' @ git_branch s else ''?'')
      else git_branch s,
      current_version s)"

definition set_rollback_state :: "(string \<times> string \<times> git_version) option \<Rightarrow> 'w git_repo \<Rightarrow> 'w git_repo" where
  "set_rollback_state rb s =
     (let (c, b, ver) = (case rb of Some r \<Rightarrow> r | None \<Rightarrow> capture_state_for_rollback s)
      in s\<lparr>rollback_commit := c, rollback_branch := b, rollback_version := ver\<rparr>)"

section \<open>Changing the working tree\<close>

definition reset_tree :: "'w git_env \<Rightarrow> string option \<Rightarrow> ('w, unit) git_act" where
  "reset_tree v ref = look (\<lambda>s.
     abind
       (case ref of
          Some r \<Rightarrow> ret r
        | None \<Rightarrow>
            if gr_channel s \<noteq> Dev then ret (upstream_commit s)
            else if git_remote s = ''?'' \<or> git_branch s = ''?'' then throw (server_error ''Cannot reset, unknown remote/branch'')
            else ret (git_remote s @ ''/'' @ git_branch s))
       (\<lambda>r. abind (run_git_cmd v fatal (''reset --hard '' @ r)) (\<lambda>_. modify (\<lambda>s. s\<lparr>repo_corrupt := False\<rparr>))))"

definition fetch :: "'w git_env \<Rightarrow> ('w, unit) git_act" where
  "fetch v = abind (verify_repo True) (\<lambda>_. look (\<lambda>s. run_git_cmd_async v (''fetch '' @ git_remote s @ '' --prune --progress'')))"

definition clean_tree :: "'w git_env \<Rightarrow> ('w, unit) git_act" where
  "clean_tree v = abind (verify_repo False) (\<lambda>_. abind (run_git_cmd v fatal ''clean -d -f'') (\<lambda>_. ret ()))"

definition pull_command :: "'w git_env \<Rightarrow> 'w git_repo \<Rightarrow> string" where
  "pull_command v s =
     ''pull --progress'' @ (if debug_enabled v then '' --rebase'' else []) @
     (if gr_channel s \<noteq> Dev then '' '' @ git_remote s @ '' '' @ upstream_commit s else [])"

definition pull :: "'w git_env \<Rightarrow> ('w, unit) git_act" where
  "pull v = abind (verify_repo False) (\<lambda>_. look (\<lambda>s.
     abind (guard (\<not> head_detached s) (server_error (''Git Repo '' @ gr_alias s @ '': Cannot perform pull on a detached HEAD''))) (\<lambda>_.
       run_git_cmd_async v (pull_command v s))))"

definition checkout :: "'w git_env \<Rightarrow> string option \<Rightarrow> ('w, unit) git_act" where
  "checkout v branch = abind (verify_repo False) (\<lambda>_. look (\<lambda>s.
     let reset_commit = (if branch = None \<and> gr_channel s \<noteq> Dev then Some (upstream_commit s) else None);
         b = (case branch of Some x \<Rightarrow> x | None \<Rightarrow> git_remote s @ ''/'' @ git_branch s)
     in abind (run_git_cmd v fatal (''checkout -q '' @ b)) (\<lambda>_.
          case reset_commit of None \<Rightarrow> ret () | Some c \<Rightarrow> reset_tree v (Some c))))"

definition rollback :: "'w git_env \<Rightarrow> ('w, bool) git_act" where
  "rollback v = look (\<lambda>s.
     if rollback_commit s = ''?'' \<or> rollback_branch s = ''?''
     then throw (server_error ''Incomplete rollback data stored, cannot rollback'')
     else if rollback_branch s \<noteq> git_branch s then
       abind (checkout v (Some (rollback_branch s))) (\<lambda>_. look (\<lambda>s.
       abind (reset_tree v (Some (rollback_commit s))) (\<lambda>_. ret True)))
     else if rollback_commit s = current_commit s then ret False
     else abind (reset_tree v (Some (rollback_commit s))) (\<lambda>_. ret True))"

definition on_tree :: "('w \<Rightarrow> (git_exc + 'a) \<times> 'w) \<Rightarrow> ('w, 'a) git_act" where
  "on_tree f s = (case f (tree s) of (r, w) \<Rightarrow> (r, s\<lparr>tree := w\<rparr>))"

text \<open>A new clone moves back to the commit the repository was at, when it is one of its ancestors.\<close>

definition is_server_error :: "git_exc \<Rightarrow> bool" where
  "is_server_error e = (case e of Shell f \<Rightarrow> True | Fault (AppError m) \<Rightarrow> True | Fault x \<Rightarrow> False)"

definition git_note :: "string \<Rightarrow> ('w, unit) git_act" where
  "git_note m = look (\<lambda>s. notify (''Git Repo '' @ gr_alias s @ '': '' @ m))"

definition clone_command :: "'w git_env \<Rightarrow> 'w git_repo \<Rightarrow> string" where
  "clone_command v s = ''clone --filter=blob:none '' @ recovery_url s @ '' '' @ backup_path v"

definition clone_back :: "'w git_env \<Rightarrow> ('w, unit) git_act" where
  "clone_back v = look (\<lambda>s.
     if current_commit s = ''?'' then ret ()
     else abind (catch (is_ancestor v (current_commit s) ''HEAD'') (\<lambda>e. if is_server_error e then ret False else throw e)) (\<lambda>b.
       if b then abind (git_note (''Moving HEAD to previous commit '' @ current_commit s)) (\<lambda>_. reset_tree v (Some (current_commit s)))
       else ret ()))"

definition clone_repo :: "'w git_env \<Rightarrow> ('w, unit) git_act" where
  "clone_repo v = look (\<lambda>s.
     if linked_repo v (tree s)
     then throw (server_error (''Cannot clone git repo '' @ gr_alias s @ '', it is a '' @ repo_type v (tree s) @ '' of another git repo.''))
     else if recovery_url s = ''?'' then throw (server_error ''Recovery url has not been detected, clone aborted'')
     else
       abind (git_note ''Starting Clone Recovery...'') (\<lambda>_. abind (on_tree (drop_backup v)) (\<lambda>_.
       abind (check_lock_file_exists v True) (\<lambda>_.
       abind (catch (abind (wait_for_lock_release v 60) (\<lambda>_. git_retry v (clone_command v s) 1)) (\<lambda>e.
         abind (git_note ''Git Clone Failed'') (\<lambda>_. throw (server_error ''Git Clone Error'')))) (\<lambda>_.
       abind (on_tree (install_backup v)) (\<lambda>_.
       abind (modify (\<lambda>s. s\<lparr>repo_corrupt := False, valid_git_repo := True\<rparr>)) (\<lambda>_.
       abind (git_note ''Git Clone Complete'') (\<lambda>_. clone_back v))))))))"

definition get_recovery_ref :: "'w git_env \<Rightarrow> ('w, string) git_act" where
  "get_recovery_ref v = look (\<lambda>s.
     abind (config_get v False False (''branch.'' @ primary_branch s @ ''.remote'')) (\<lambda>r.
       case r of
         None \<Rightarrow> throw (server_error (''Failed to find remote for primary branch '' @ quoted (primary_branch s)))
       | Some remote \<Rightarrow>
           let up = remote @ ''/'' @ primary_branch s in
           if current_commit s = ''?'' then ret up
           else abind (is_ancestor v (current_commit s) up) (\<lambda>b. ret (if b then current_commit s else up))))"

text \<open>The separators of the log format are the characters 0x1D and 0x1E.\<close>

definition log_entry :: "string \<Rightarrow> commit res" where
  "log_entry e =
     rbind (rmap (\<lambda>li. case split_once (CHR '':'') li of [k, x] \<Rightarrow> Inr (k, Some x) | _ \<Rightarrow> Inl ValueError)
              (filter (\<lambda>li. li \<noteq> []) (map strip (split_on (CHR 0x1D) e))))
       (\<lambda>kvs. Inr (dict_of kvs))"

definition git_log_fmt :: string where
  "git_log_fmt = CHR 0x22 # ''sha:%H%x1Dauthor:%an%x1Ddate:%ct%x1Dsubject:%s%x1Dmessage:%b%x1E'' @ [CHR 0x22]"

definition get_commits_behind :: "'w git_env \<Rightarrow> ('w, commit list) git_act" where
  "get_commits_behind v = abind (verify_repo False) (\<lambda>_. look (\<lambda>s.
     if is_current s then ret []
     else
       let ref = (if gr_channel s \<noteq> Dev then upstream_commit s else git_remote s @ ''/'' @ git_branch s) in
       abind (run_git_cmd v fatal (''log '' @ current_commit s @ ''..'' @ ref @ '' --format='' @ git_log_fmt @ '' --max-count=100'')) (\<lambda>resp.
         lift_res (rmap log_entry (filter (\<lambda>e. e \<noteq> []) (map strip (split_on (CHR 0x1E) resp)))))))"

section \<open>Refreshing the state\<close>

text \<open>The first group of a match.\<close>

definition owner_r :: regex where
  "owner_r = SeqL [Lit ''http'', Opt (Lit ''s''), Lit ''://'', Plus (Cls (\<lambda>c. c \<noteq> CHR ''/'')), Lit ''/'', Grp ''1'' (Plus (Cls (\<lambda>c. c \<noteq> CHR ''/'')))]"

definition repo_name_r :: regex where
  "repo_name_r = SeqL [Star (Cls (\<lambda>c. c \<noteq> newline_char)), Lit ''/'', Grp ''1'' (Star (Cls (\<lambda>c. c \<noteq> CHR ''.''))),
     Star (Cls (\<lambda>c. c \<noteq> newline_char))]"

definition group_1 :: "regex \<Rightarrow> string \<Rightarrow> string" where
  "group_1 r s = (case rx_groups r s of None \<Rightarrow> ''?'' | Some c \<Rightarrow> dget_or c ''1'' [])"

text \<open>The first thirty commits and every tagged one, with their tags.\<close>

fun tag_commits :: "(string, string) dict \<Rightarrow> nat \<Rightarrow> commit list \<Rightarrow> ('w, unit) git_act" where
  "tag_commits tags i [] = ret ()"
| "tag_commits tags i (c # cs) =
     (case dget c ''sha'' of
        None \<Rightarrow> throw (Fault KeyError)
      | Some sha \<Rightarrow>
          let tag = dget tags (case_option [] (\<lambda>x. x) sha)
          in abind (if i < 30 \<or> tag \<noteq> None then modify (\<lambda>s. s\<lparr>commits_behind := commits_behind s @ [dset ''tag'' tag c]\<rparr>) else ret ())
               (\<lambda>_. tag_commits tags (Suc i) cs))"

definition refresh_recovery_url :: "'w git_env \<Rightarrow> ('w, unit) git_act" where
  "refresh_recovery_url v = look (\<lambda>s.
     if git_remote s = ''origin'' then modify (\<lambda>s. s\<lparr>recovery_url := upstream_url s\<rparr>)
     else abind (git_remote_cmd v [] False) (\<lambda>l.
       if ''origin'' \<in> set (split_on newline_char l)
       then abind (git_remote_cmd v ''get-url origin'' False) (\<lambda>u. modify (\<lambda>s. s\<lparr>recovery_url := u\<rparr>))
       else modify (\<lambda>s. s\<lparr>recovery_url := ''?''\<rparr>)))"

definition refresh_versions :: "'w git_env \<Rightarrow> ('w, unit) git_act" where
  "refresh_versions v =
     abind (rev_parse v ''HEAD'') (\<lambda>sha.
     abind (modify (\<lambda>s. s\<lparr>current_commit := sha\<rparr>)) (\<lambda>_.
     abind (describe v ''--always --tags --long --dirty --abbrev=8'') (\<lambda>d.
     abind (get_upstream_version v) (\<lambda>up.
       set_versions v (new_git_version (strip d)) up))))"

definition refresh_commits :: "'w git_env \<Rightarrow> ('w, unit) git_act" where
  "refresh_commits v =
     abind (modify (\<lambda>s. s\<lparr>commits_behind := []\<rparr>)) (\<lambda>_. look (\<lambda>s.
     if commits_behind_count s > 0 then
       abind (get_commits_behind v) (\<lambda>cbh. abind (get_tagged_commits v) (\<lambda>tags. tag_commits tags 0 cbh))
     else ret ()))"

definition refresh_body :: "'w git_env \<Rightarrow> bool \<Rightarrow> ('w, unit) git_act" where
  "refresh_body v need_fetch =
     abind (check_repo_status v) (\<lambda>_. abind (verify_repo False) (\<lambda>_. abind (find_current_branch v) (\<lambda>_. look (\<lambda>s.
     abind (git_remote_cmd v (''get-url '' @ git_remote s) True) (\<lambda>u.
     abind (modify (\<lambda>s. s\<lparr>upstream_url := u\<rparr>)) (\<lambda>_.
     abind (check_moved_origin v) (\<lambda>moved.
     abind (refresh_recovery_url v) (\<lambda>_.
     abind (if need_fetch \<or> moved then fetch v else ret ()) (\<lambda>_.
     abind (check_diverged v) (\<lambda>d.
     abind (modify (\<lambda>s. s\<lparr>diverged := d, git_owner := group_1 owner_r (upstream_url s), git_repo_name := group_1 repo_name_r (upstream_url s)\<rparr>)) (\<lambda>_.
     abind (refresh_versions v) (\<lambda>_.
     abind (refresh_commits v) (\<lambda>_.
       modify (check_warnings v))))))))))))))"

text \<open>An exception leaves the repository uninitialized; a success clears the mark of corruption.\<close>

definition refresh_repo_state :: "'w git_env \<Rightarrow> bool \<Rightarrow> ('w, unit) git_act" where
  "refresh_repo_state v need_fetch =
     abind (modify (\<lambda>s. s\<lparr>gr_initialized := False, git_messages := []\<rparr>)) (\<lambda>_.
     abind (refresh_body v need_fetch) (\<lambda>_.
       modify (\<lambda>s.
         let s1 = s\<lparr>gr_initialized := True, repo_corrupt := False\<rparr>
         in if rollback_commit s1 = ''?'' \<or> rollback_branch s1 = ''?'' then set_rollback_state None s1 else s1)))"

section \<open>The application\<close>

record 'w deploy =
  dp_repo :: "'w git_repo"
  dp_valid :: bool

record ('w, 'd) deploy_env =
  de_git :: "'w git_env"
  de_prefix :: string
  de_name :: string
  collect_dependencies :: "'w \<Rightarrow> (git_exc + 'd) \<times> 'w"
  update_dependencies :: "bool \<Rightarrow> 'd \<Rightarrow> 'w \<Rightarrow> (git_exc + unit) \<times> 'w"
  restart_service :: "'w \<Rightarrow> (git_exc + unit) \<times> 'w"
  exc_text :: "git_exc \<Rightarrow> string"

type_synonym ('w, 'a) deploy_act = "('w deploy, git_exc, 'a) act"

definition on_repo :: "('w, 'a) git_act \<Rightarrow> ('w, 'a) deploy_act" where
  "on_repo m d = (case m (dp_repo d) of (r, s) \<Rightarrow> (r, d\<lparr>dp_repo := s\<rparr>))"

definition new_deploy :: "('w, 'd) deploy_env \<Rightarrow> 'w git_repo \<Rightarrow> 'w deploy" where
  "new_deploy e s = \<lparr>dp_repo = s, dp_valid = repo_is_valid (de_git e) s\<rparr>"

definition notify_status :: "('w, 'd) deploy_env \<Rightarrow> string \<Rightarrow> ('w, unit) deploy_act" where
  "notify_status e m = on_repo (notify (de_prefix e @ m))"

definition update_repo_state :: "('w, 'd) deploy_env \<Rightarrow> bool \<Rightarrow> ('w, unit) deploy_act" where
  "update_repo_state e need_fetch =
     abind (modify (\<lambda>d. d\<lparr>dp_valid := False\<rparr>)) (\<lambda>_.
     abind (on_repo (refresh_repo_state (de_git e) need_fetch)) (\<lambda>_.
       modify (\<lambda>d. d\<lparr>dp_valid := repo_is_valid (de_git e) (dp_repo d)\<rparr>)))"

text \<open>\<open>refresh\<close> logs an exception and goes on.\<close>

definition deploy_refresh :: "('w, 'd) deploy_env \<Rightarrow> ('w, unit) deploy_act" where
  "deploy_refresh e = catch (update_repo_state e True) (\<lambda>_. ret ())"

definition pull_steps :: "('w, 'd) deploy_env \<Rightarrow> ('w, unit) deploy_act" where
  "pull_steps e =
     (let v = de_git e in
      abind (on_repo (fetch v)) (\<lambda>_. look (\<lambda>d.
        if head_detached (dp_repo d) then on_repo (checkout v None)
        else abind (on_repo (check_diverged v)) (\<lambda>dv.
          if dv then abind (notify_status e ''Repo has diverged, attempting git reset'') (\<lambda>_. on_repo (reset_tree v None))
          else on_repo (pull v)))))"

definition mark_corrupt :: "'w deploy \<Rightarrow> 'w deploy" where
  "mark_corrupt d = (if repo_corrupt (dp_repo d) then d\<lparr>dp_valid := False\<rparr> else d)"

definition pull_repo :: "('w, 'd) deploy_env \<Rightarrow> ('w, unit) deploy_act" where
  "pull_repo e =
     abind (notify_status e ''Updating Repo...'') (\<lambda>_. look (\<lambda>d.
     let rb = capture_state_for_rollback (dp_repo d) in
     abind
       (catch (pull_steps e) (\<lambda>x.
          abind (modify mark_corrupt) (\<lambda>_.
            throw (server_error (exc_text e x)))))
       (\<lambda>_. on_repo (modify (set_rollback_state (Some rb))))))"

definition deploy_update :: "('w, 'd) deploy_env \<Rightarrow> ('w, bool) deploy_act" where
  "deploy_update e = look (\<lambda>d.
     if \<not> dp_valid d then throw (server_error ''Update aborted, repo not valid'')
     else if is_dirty_repo (dp_repo d) then throw (server_error ''Update aborted, repo has been modified'')
     else if is_current (dp_repo d) then ret False
     else
       abind (on_repo (notify (''Updating Application '' @ de_name e @ ''...''))) (\<lambda>_.
       abind (on_repo (on_tree (collect_dependencies e))) (\<lambda>deps.
       abind (pull_repo e) (\<lambda>_.
       abind (on_repo (on_tree (update_dependencies e False deps))) (\<lambda>_.
       abind (update_repo_state e False) (\<lambda>_.
       abind (on_repo (on_tree (restart_service e))) (\<lambda>_.
       abind (notify_status e ''Update Finished...'') (\<lambda>_. ret True))))))))"

definition deploy_rollback :: "('w, 'd) deploy_env \<Rightarrow> ('w, bool) deploy_act" where
  "deploy_rollback e =
     abind (on_repo (on_tree (collect_dependencies e))) (\<lambda>deps.
     abind (on_repo (rollback (de_git e))) (\<lambda>done.
     abind
       (if done then
          abind (on_repo (on_tree (update_dependencies e False deps))) (\<lambda>_.
          abind (update_repo_state e False) (\<lambda>_.
          abind (on_repo (on_tree (restart_service e))) (\<lambda>_. ret ''Rollback Complete'')))
        else ret ''Rollback not performed'')
       (\<lambda>msg. abind (notify_status e msg) (\<lambda>_. ret done))))"

text \<open>\<open>recover\<close>: a new clone, or a reset to the current commit or the upstream branch.\<close>

definition soft_recovery :: "('w, 'd) deploy_env \<Rightarrow> ('w, unit) deploy_act" where
  "soft_recovery e =
     (let v = de_git e in
      abind (notify_status e ''Resetting Git Repo...'') (\<lambda>_.
      abind (on_repo (get_recovery_ref v)) (\<lambda>ref. look (\<lambda>d.
      abind
        (if is_dirty_repo (dp_repo d)
         then catch (on_repo (checkout v (Some ''-- .''))) (\<lambda>x. if is_server_error x then ret () else throw x)
         else ret ())
        (\<lambda>_. look (\<lambda>d.
      abind (on_repo (checkout v (Some (primary_branch (dp_repo d))))) (\<lambda>_. on_repo (reset_tree v (Some ref)))))))))"

definition deploy_recover :: "('w, 'd) deploy_env \<Rightarrow> bool \<Rightarrow> bool \<Rightarrow> ('w, unit) deploy_act" where
  "deploy_recover e hard force =
     abind (notify_status e ''Attempting Repo Recovery...'') (\<lambda>_.
     abind (on_repo (on_tree (collect_dependencies e))) (\<lambda>deps.
     abind (if hard then on_repo (clone_repo (de_git e)) else soft_recovery e) (\<lambda>_.
     abind (update_repo_state e True) (\<lambda>_.
     abind (on_repo (modify (set_rollback_state None))) (\<lambda>_. look (\<lambda>d.
     if is_dirty_repo (dp_repo d) \<or> \<not> dp_valid d then throw (server_error ''Recovery attempt failed, repo state not pristine'')
     else
       abind (on_repo (on_tree (update_dependencies e force deps))) (\<lambda>_.
       abind (on_repo (on_tree (restart_service e))) (\<lambda>_.
         notify_status e ''Reinstall Complete''))))))))"

section \<open>What the commands leave alone\<close>

text \<open>The fields that running git commands does not change.\<close>

definition held :: "'w git_repo \<Rightarrow> (bool \<times> bool \<times> bool) \<times> (git_version \<times> git_version) \<times> (string \<times> string) \<times> (string \<times> string) \<times> (string \<times> string \<times> git_version) \<times> channel" where
  "held s = ((valid_git_repo s, head_detached s, diverged s), (current_version s, upstream_version s), (current_commit s, upstream_commit s),
     (git_remote s, git_branch s), (rollback_commit s, rollback_branch s, rollback_version s), gr_channel s)"

lemma held_updates [simp]:
  "held (s\<lparr>tree := w\<rparr>) = held s" "held (s\<lparr>git_messages := l\<rparr>) = held s" "held (s\<lparr>repo_corrupt := b\<rparr>) = held s"
  "held (s\<lparr>notices := l\<rparr>) = held s" "held (s\<lparr>branches := l\<rparr>) = held s" "held (s\<lparr>managing_instances := l\<rparr>) = held s"
  "held (s\<lparr>modified_files := l\<rparr>) = held s" "held (s\<lparr>untracked_files := l\<rparr>) = held s" "held (s\<lparr>upstream_url := u\<rparr>) = held s"
  "held (s\<lparr>recovery_url := u\<rparr>) = held s" "held (s\<lparr>commits_behind_count := i\<rparr>) = held s" "held (s\<lparr>commits_behind := cs\<rparr>) = held s"
  "held (s\<lparr>gr_initialized := b\<rparr>) = held s" "held (s\<lparr>git_owner := u\<rparr>) = held s" "held (s\<lparr>git_repo_name := u\<rparr>) = held s"
  "held (s\<lparr>repo_warnings := l\<rparr>) = held s" "held (s\<lparr>repo_anomalies := l\<rparr>) = held s"
  by (simp_all add: held_def)

named_theorems git_rules

lemma git_run [git_rules]: "maintains (\<lambda>s. held s = c) (run_git_cmd v m args)"
  by (rule maintainsI) (simp add: run_git_cmd_def Let_def split: prod.split sum.split)

lemma git_lock_check [git_rules]: "maintains (\<lambda>s. held s = c) (check_lock_file_exists v b)"
  by (rule maintainsI) (simp add: check_lock_file_exists_def)

lemma git_lock [git_rules]: "maintains (\<lambda>s. held s = c) (wait_for_lock_release v n)"
  by (induction n) (auto intro!: act_rules git_rules)

lemma held_outputs: "held (fold handle_process_output outs s) = held s"
  by (induction outs arbitrary: s) (simp_all add: handle_process_output_def Let_def)

lemma git_attempt_held [git_rules]: "maintains (\<lambda>s. held s = c) (git_attempt v cmd)"
  by (rule maintainsI) (simp add: git_attempt_def held_outputs split: prod.split)

lemma git_retry_held [git_rules]: "maintains (\<lambda>s. held s = c) (git_retry v cmd n)"
  by (induction n) (auto intro!: act_rules git_rules)

lemma notify_held [git_rules]: "maintains (\<lambda>s. held s = c) (notify m)"
  by (auto simp: notify_def intro!: act_rules)

lemma remove_empty_held [git_rules]: "maintains (\<lambda>s. held s = c) (remove_empty v)"
  by (rule maintainsI) (simp add: remove_empty_def split: prod.split sum.split)

lemma repair_held [git_rules]: "maintains (\<lambda>s. held s = c) (repair_loose_objects v b)"
  unfolding repair_loose_objects_def by (intro act_rules git_rules; simp)+

lemma git_retry_repair_held [git_rules]: "maintains (\<lambda>s. held s = c) (git_retry_repair v cmd n)"
  by (induction n) (auto intro!: act_rules git_rules)

lemma git_async_held [git_rules]: "maintains (\<lambda>s. held s = c) (run_git_cmd_async v cmd)"
  unfolding run_git_cmd_async_def by (intro act_rules git_rules; simp)+

lemma verify_held [git_rules]: "maintains (\<lambda>s. held s = c) (verify_repo b)"
  unfolding verify_repo_def by (auto intro!: act_rules)

lemma lift_held [git_rules]: "maintains P (lift_res r)"
  by (cases r) (auto simp: lift_res_def intro: act_rules)

lemma maintains_prod [act_rules]: "(\<And>x y. maintains P (f x y)) \<Longrightarrow> maintains P (case z of (x, y) \<Rightarrow> f x y)"
  by (cases z) simp

lemma maintains_git_exc [act_rules]:
  "(\<And>x. maintains P (f x)) \<Longrightarrow> (\<And>x. maintains P (g x)) \<Longrightarrow> maintains P (case z of Shell x \<Rightarrow> f x | Fault x \<Rightarrow> g x)"
  by (cases z) simp_all

lemma queries_held [git_rules]:
  "maintains (\<lambda>s. held s = c) (describe v a)" "maintains (\<lambda>s. held s = c) (rev_parse v a)" "maintains (\<lambda>s. held s = c) (rev_list v a)"
  "maintains (\<lambda>s. held s = c) (list_branches v)" "maintains (\<lambda>s. held s = c) (git_remote_cmd v a b)"
  unfolding describe_def rev_parse_def rev_list_def ask_def list_branches_def git_remote_cmd_def by (intro act_rules git_rules; simp)+

lemma config_attempts_held [git_rules]: "maintains (\<lambda>s. held s = c) (config_attempts v a n)"
  by (induction n) (auto intro!: act_rules git_rules)

lemma config_held [git_rules]:
  "maintains (\<lambda>s. held s = c) (config_cmd v a)" "maintains (\<lambda>s. held s = c) (config_get v ga lo key)"
  unfolding config_get_def config_cmd_def by (intro act_rules git_rules; simp)+

lemma ancestor_attempts_held [git_rules]: "maintains (\<lambda>s. held s = c) (ancestor_attempts v a n)"
  by (induction n) (auto intro!: act_rules git_rules)

lemma ancestor_held [git_rules]:
  "maintains (\<lambda>s. held s = c) (is_ancestor v a b)" "maintains (\<lambda>s. held s = c) (check_diverged v)"
  unfolding check_diverged_def is_ancestor_def by (intro act_rules git_rules; simp)+

lemma tags_held [git_rules]:
  "maintains (\<lambda>s. held s = c) (get_tagged_commits v)" "maintains (\<lambda>s. held s = c) (get_commits_behind v)"
  unfolding get_tagged_commits_def get_commits_behind_def Let_def by (intro act_rules git_rules; simp)+

lemma tree_commands_held [git_rules]:
  "maintains (\<lambda>s. held s = c) (reset_tree v ref)" "maintains (\<lambda>s. held s = c) (fetch v)" "maintains (\<lambda>s. held s = c) (pull v)"
  "maintains (\<lambda>s. held s = c) (clean_tree v)"
  unfolding reset_tree_def fetch_def pull_def clean_tree_def by (intro act_rules git_rules; simp)+

lemma checkout_held [git_rules]: "maintains (\<lambda>s. held s = c) (checkout v b)"
  unfolding checkout_def Let_def by (intro act_rules git_rules; simp)+

lemma rollback_held [git_rules]: "maintains (\<lambda>s. held s = c) (rollback v)"
  unfolding rollback_def by (intro act_rules git_rules; simp)+

lemma instance_held [git_rules]: "maintains (\<lambda>s. held s = c) (set_current_instance v)"
  unfolding set_current_instance_def Let_def by (intro act_rules git_rules; simp)+

lemma on_tree_held [git_rules]: "maintains (\<lambda>s. held s = c) (on_tree f)"
  by (rule maintainsI) (simp add: on_tree_def split: prod.split)

lemma status_held [git_rules]: "maintains (\<lambda>s. held s = c) (status_attempts v n)"
  by (induction n) (auto intro!: act_rules git_rules)

lemma url_held [git_rules]:
  "maintains (\<lambda>s. held s = c) (check_moved_origin v)" "maintains (\<lambda>s. held s = c) (refresh_recovery_url v)"
  unfolding check_moved_origin_def refresh_recovery_url_def Let_def by (intro act_rules git_rules; simp)+

lemma maintains_list [act_rules]:
  "maintains P m \<Longrightarrow> (\<And>x xs. maintains P (f x xs)) \<Longrightarrow> maintains P (case l of [] \<Rightarrow> m | x # xs \<Rightarrow> f x xs)"
  by (cases l) simp_all

lemma scan_branches_held [git_rules]: "maintains (\<lambda>s. held s = c) (scan_branches ls cur)"
  by (induction ls arbitrary: cur) (auto simp: Let_def intro!: act_rules)

lemma tag_commits_held [git_rules]: "maintains (\<lambda>s. held s = c) (tag_commits tags i cs)"
  by (induction cs arbitrary: i) (auto simp: Let_def intro!: act_rules)

lemma recovery_ref_held [git_rules]: "maintains (\<lambda>s. held s = c) (get_recovery_ref v)"
  unfolding get_recovery_ref_def Let_def by (intro act_rules git_rules; simp)+

lemma git_note_held [git_rules]: "maintains (\<lambda>s. held s = c) (git_note m)"
  unfolding git_note_def by (intro act_rules git_rules)

lemma clone_back_held [git_rules]: "maintains (\<lambda>s. held s = c) (clone_back v)"
  unfolding clone_back_def by (intro act_rules git_rules)

lemma refresh_commits_held [git_rules]: "maintains (\<lambda>s. held s = c) (refresh_commits v)"
  unfolding refresh_commits_def by (intro act_rules git_rules; simp)+

text \<open>So they keep every property of those fields.\<close>

lemma held_keeps: "(\<And>c. maintains (\<lambda>s. held s = c) m) \<Longrightarrow> (\<And>s t. held s = held t \<Longrightarrow> P s \<Longrightarrow> P t) \<Longrightarrow> maintains P m"
  by (rule frame_keeps [of held])

section \<open>Only a pristine repository is updated\<close>

definition pristine :: "'w git_env \<Rightarrow> 'w git_repo \<Rightarrow> bool" where
  "pristine v s \<longleftrightarrow> valid_git_repo s \<and> \<not> diverged s \<and> \<not> is_dirty_repo s \<and> (debug_enabled v \<or> \<not> head_detached s)"

definition deploy_inv :: "('w, 'd) deploy_env \<Rightarrow> 'w deploy \<Rightarrow> bool" where
  "deploy_inv e d \<longleftrightarrow> (dp_valid d \<longrightarrow> pristine (de_git e) (dp_repo d))"

lemma pristine_held: "held s = held t \<Longrightarrow> pristine v s = pristine v t"
  by (simp add: held_def pristine_def is_dirty_repo_def)

lemma on_repo_snd: "snd (on_repo m d) = d\<lparr>dp_repo := snd (m (dp_repo d))\<rparr>"
  by (simp add: on_repo_def split: prod.split)

lemma on_repo_inv:
  fixes m :: "('w, 'a) git_act"
  assumes "\<And>c. maintains (\<lambda>s. held s = c) m"
  shows "maintains (deploy_inv e) (on_repo m)"
proof (rule maintainsI)
  fix d :: "'w deploy" assume d: "deploy_inv e d"
  from assms [of "held (dp_repo d)"] have "held (snd (m (dp_repo d))) = held (dp_repo d)" by (simp add: maintains_snd)
  from pristine_held [OF this, of "de_git e"] d show "deploy_inv e (snd (on_repo m d))" by (simp add: deploy_inv_def on_repo_snd)
qed

lemma update_repo_state_inv:
  fixes e :: "('w, 'd) deploy_env"
  shows "maintains (deploy_inv e) (update_repo_state e b)"
proof (rule maintainsI)
  fix d :: "'w deploy"
  obtain r s where m: "refresh_repo_state (de_git e) b (dp_repo d) = (r, s)" by (cases "refresh_repo_state (de_git e) b (dp_repo d)")
  show "deploy_inv e (snd (update_repo_state e b d))"
    using m by (cases r) (auto simp: update_repo_state_def abind_def modify_def on_repo_def deploy_inv_def repo_is_valid_def
        is_damaged_def has_recoverable_errors_def pristine_def)
qed

named_theorems deploy_rules

lemma notify_status_inv [deploy_rules]: "maintains (deploy_inv e) (notify_status f m)"
  unfolding notify_status_def by (rule on_repo_inv) (rule git_rules)

lemma pull_steps_inv [deploy_rules]: "maintains (deploy_inv e) (pull_steps e)"
  unfolding pull_steps_def Let_def by (intro act_rules deploy_rules on_repo_inv git_rules)

lemma set_rollback_inv: "maintains (deploy_inv e) (on_repo (modify (set_rollback_state rb)))"
  by (rule maintainsI)
    (simp add: on_repo_snd act_simps deploy_inv_def pristine_def is_dirty_repo_def set_rollback_state_def Let_def split: prod.split option.split)

lemma mark_corrupt_inv [deploy_rules]: "maintains (deploy_inv e) (modify mark_corrupt)"
  by (rule maintains_modify) (simp add: deploy_inv_def mark_corrupt_def)

lemma pull_repo_inv [deploy_rules]: "maintains (deploy_inv e) (pull_repo e)"
  unfolding pull_repo_def Let_def
  by (intro deploy_rules set_rollback_inv maintains_abind maintains_catch maintains_look maintains_throw)

lemma deploy_update_inv: "maintains (deploy_inv e) (deploy_update e)"
  unfolding deploy_update_def by (intro act_rules deploy_rules on_repo_inv git_rules update_repo_state_inv)

lemma deploy_rollback_inv: "maintains (deploy_inv e) (deploy_rollback e)"
  unfolding deploy_rollback_def by (intro act_rules deploy_rules on_repo_inv git_rules update_repo_state_inv)

lemma pristine_keeps: "(\<And>c. maintains (\<lambda>s. held s = c) m) \<Longrightarrow> maintains (pristine v) m"
  by (erule held_keeps) (simp add: held_def pristine_def is_dirty_repo_def)

lemma clone_pristine: "maintains (pristine v) (clone_repo w)"
  unfolding clone_repo_def
  by (intro act_rules pristine_keeps git_rules) (simp_all add: pristine_def is_dirty_repo_def held_def)

lemma on_repo_pristine: "maintains (pristine (de_git e)) m \<Longrightarrow> maintains (deploy_inv e) (on_repo m)"
  unfolding maintains_snd by (simp add: deploy_inv_def on_repo_snd)

lemma soft_recovery_inv: "maintains (deploy_inv e) (soft_recovery e)"
  unfolding soft_recovery_def Let_def by (intro act_rules deploy_rules on_repo_inv git_rules)

lemma deploy_recover_inv: "maintains (deploy_inv e) (deploy_recover e hard force)"
  unfolding deploy_recover_def
  by (intro maintains_abind maintains_look maintains_if maintains_throw set_rollback_inv deploy_rules soft_recovery_inv update_repo_state_inv
      on_repo_pristine [OF clone_pristine] on_repo_inv git_rules)

lemma deploy_refresh_inv: "maintains (deploy_inv e) (deploy_refresh e)"
  unfolding deploy_refresh_def by (intro act_rules update_repo_state_inv)

datatype deploy_op = Refresh | Update | Rollback | Recover bool bool

fun deploy_step :: "('w, 'd) deploy_env \<Rightarrow> deploy_op \<Rightarrow> 'w deploy \<Rightarrow> 'w deploy" where
  "deploy_step e Refresh d = snd (deploy_refresh e d)"
| "deploy_step e Update d = snd (deploy_update e d)"
| "deploy_step e Rollback d = snd (deploy_rollback e d)"
| "deploy_step e (Recover hard force) d = snd (deploy_recover e hard force d)"

lemma deploy_steps_inv: "deploy_inv e d \<Longrightarrow> deploy_inv e (fold (deploy_step e) ops d)"
proof (induction ops arbitrary: d)
  case (Cons op ops)
  have "deploy_inv e (deploy_step e op d)"
    using deploy_update_inv [of e] deploy_rollback_inv [of e] deploy_refresh_inv [of e] deploy_recover_inv [of e] Cons.prems
    unfolding maintains_snd by (cases op) simp_all
  with Cons.IH show ?case by simp
qed simp


section \<open>A recovery ends well or raises\<close>

lemma on_repo_Inr: "on_repo m d = (Inr x, d') \<longleftrightarrow> (\<exists>s. m (dp_repo d) = (Inr x, s) \<and> d' = d\<lparr>dp_repo := s\<rparr>)"
  by (auto simp: on_repo_def split: prod.splits)

lemma held_result: "(\<And>c. maintains (\<lambda>s. held s = c) m) \<Longrightarrow> m s = (r, t) \<Longrightarrow> held t = held s"
  using maintainsD [of "\<lambda>s'. held s' = held s" m s r t] by simp

lemma deploy_refreshed:
  assumes "update_repo_state e b d = (Inr (), d')"
  shows "dp_valid d' = repo_is_valid (de_git e) (dp_repo d')"
  using assms by (auto simp: update_repo_state_def abind_eq_Inr modify_def)

lemma on_repo_deploy:
  assumes "on_repo m d = (Inr x, d')" "\<And>c. maintains (\<lambda>s. held s = c) m"
  shows "dp_valid d' = dp_valid d \<and> held (dp_repo d') = held (dp_repo d)"
  using assms held_result [OF assms(2)] by (auto simp: on_repo_Inr)

text \<open>C24: A recovery that returns leaves a repository that is valid for updates, not dirty, and its rollback point is the commit and the
  version recovered; any other outcome is an exception.\<close>

theorem recovery_ends_pristine:
  assumes "deploy_recover e hard force d = (Inr (), d')"
  shows "dp_valid d' \<and> pristine (de_git e) (dp_repo d') \<and>
    rollback_commit (dp_repo d') = current_commit (dp_repo d') \<and> rollback_version (dp_repo d') = current_version (dp_repo d')"
proof -
  obtain d1 d2 d3 d4 d5 deps where s:
    "update_repo_state e True d1 = (Inr (), d2)" "on_repo (modify (set_rollback_state None)) d2 = (Inr (), d3)"
    "dp_valid d3" "on_repo (on_tree (update_dependencies e force deps)) d3 = (Inr (), d4)"
    "on_repo (on_tree (restart_service e)) d4 = (Inr (), d5)" "on_repo (notify (de_prefix e @ ''Reinstall Complete'')) d5 = (Inr (), d')"
    using assms by (auto simp: deploy_recover_def notify_status_def look_def abind_eq_Inr throw_def split: if_splits)
  have "dp_valid d2 \<and> dp_repo d3 = set_rollback_state None (dp_repo d2)" using s(2,3) by (auto simp: on_repo_Inr modify_def)
  with deploy_refreshed [OF s(1)] have d3: "pristine (de_git e) (dp_repo d3)"
    "rollback_commit (dp_repo d3) = current_commit (dp_repo d3)" "rollback_version (dp_repo d3) = current_version (dp_repo d3)"
    by (auto simp: set_rollback_state_def capture_state_for_rollback_def pristine_def repo_is_valid_def is_damaged_def
        has_recoverable_errors_def is_dirty_repo_def)
  have h: "dp_valid d' = dp_valid d3" "held (dp_repo d') = held (dp_repo d3)"
    using on_repo_deploy [OF s(4) on_tree_held] on_repo_deploy [OF s(5) on_tree_held] on_repo_deploy [OF s(6) notify_held] by simp_all
  then have "pristine (de_git e) (dp_repo d')" using d3(1) pristine_held by blast
  moreover have "rollback_commit (dp_repo d') = current_commit (dp_repo d')" "rollback_version (dp_repo d') = current_version (dp_repo d')"
    using h(2) d3(2,3) by (simp_all add: held_def)
  ultimately show ?thesis using h(1) s(3) by simp
qed

section \<open>Back to the commit before an update\<close>

definition rb :: "'w git_repo \<Rightarrow> string \<times> string \<times> git_version" where
  "rb s = (rollback_commit s, rollback_branch s, rollback_version s)"

lemma rb_held: "held s = held t \<Longrightarrow> rb s = rb t"
  by (simp add: held_def rb_def)

text \<open>What a refresh leaves alone, but for an incomplete rollback point.\<close>

definition fixed :: "'w git_repo \<Rightarrow> (string \<times> string \<times> git_version) \<times> channel" where
  "fixed s = (rb s, gr_channel s)"

lemma fixed_held: "held s = held t \<Longrightarrow> fixed s = fixed t"
  by (simp add: held_def fixed_def rb_def)

lemma fixed_keeps: "(\<And>c. maintains (\<lambda>s. held s = c) m) \<Longrightarrow> maintains (\<lambda>s. fixed s = c) m"
  by (rule held_keeps) (auto dest: fixed_held)

lemma note_status_fixed: "fixed (fold note_status ls s) = fixed s"
proof (induction ls arbitrary: s)
  case (Cons l ls)
  have "fixed (note_status l s) = fixed s" by (simp add: note_status_def fixed_def rb_def split: option.split)
  with Cons show ?case by simp
qed simp

lemma fixed_updates [simp]:
  "fixed (s\<lparr>valid_git_repo := b\<rparr>) = fixed s" "fixed (s\<lparr>head_detached := b\<rparr>) = fixed s" "fixed (s\<lparr>diverged := b\<rparr>) = fixed s"
  "fixed (s\<lparr>current_version := ver\<rparr>) = fixed s" "fixed (s\<lparr>upstream_version := ver\<rparr>) = fixed s" "fixed (s\<lparr>current_commit := u\<rparr>) = fixed s"
  "fixed (s\<lparr>upstream_commit := u\<rparr>) = fixed s" "fixed (s\<lparr>git_remote := u\<rparr>) = fixed s" "fixed (s\<lparr>git_branch := u\<rparr>) = fixed s"
  "fixed (s\<lparr>modified_files := l\<rparr>) = fixed s" "fixed (s\<lparr>untracked_files := l\<rparr>) = fixed s" "fixed (s\<lparr>branches := l\<rparr>) = fixed s"
  "fixed (s\<lparr>git_owner := u\<rparr>) = fixed s" "fixed (s\<lparr>git_repo_name := u\<rparr>) = fixed s" "fixed (s\<lparr>upstream_url := u\<rparr>) = fixed s"
  "fixed (s\<lparr>commits_behind_count := i\<rparr>) = fixed s" "fixed (s\<lparr>gr_initialized := b\<rparr>) = fixed s" "fixed (s\<lparr>git_messages := l\<rparr>) = fixed s"
  "fixed (s\<lparr>repo_corrupt := b\<rparr>) = fixed s" "fixed (no_update s) = fixed s" "fixed (check_warnings v s) = fixed s"
  by (simp_all add: fixed_def rb_def no_update_def check_warnings_def Let_def)

lemma refresh_parts_fixed:
  "maintains (\<lambda>s. fixed s = c) (check_repo_status v)" "maintains (\<lambda>s. fixed s = c) (find_current_branch v)"
  "maintains (\<lambda>s. fixed s = c) (get_upstream_version v)" "maintains (\<lambda>s. fixed s = c) (set_versions v cur up)"
  unfolding check_repo_status_def find_current_branch_def get_upstream_version_def set_versions_def infer_current_def
    infer_upstream_def Let_def
  by (intro act_rules fixed_keeps git_rules; simp add: note_status_fixed)+

lemma refresh_versions_fixed: "maintains (\<lambda>s. fixed s = c) (refresh_versions v)"
  unfolding refresh_versions_def by (intro act_rules refresh_parts_fixed fixed_keeps git_rules; simp)

lemma refresh_body_fixed: "maintains (\<lambda>s. fixed s = c) (refresh_body v b)"
  unfolding refresh_body_def by (intro act_rules refresh_parts_fixed refresh_versions_fixed fixed_keeps git_rules; simp)

lemma set_rollback_None_rb: "rollback_commit s \<noteq> ''?'' \<Longrightarrow> rollback_branch s \<noteq> ''?'' \<Longrightarrow> refresh_repo_state v b s = (Inr (), t) \<Longrightarrow> rb t = rb s"
proof -
  assume a: "rollback_commit s \<noteq> ''?''" "rollback_branch s \<noteq> ''?''" "refresh_repo_state v b s = (Inr (), t)"
  obtain u where u: "refresh_body v b (s\<lparr>gr_initialized := False, git_messages := []\<rparr>) = (Inr (), u)"
    "t = (let s1 = u\<lparr>gr_initialized := True, repo_corrupt := False\<rparr>
          in if rollback_commit s1 = ''?'' \<or> rollback_branch s1 = ''?'' then set_rollback_state None s1 else s1)"
    using a(3) by (auto simp: refresh_repo_state_def abind_eq_Inr modify_def)
  have "fixed u = fixed s" using maintainsD [OF refresh_body_fixed _ u(1), of "fixed s"] by simp
  then have "rb u = rb s" by (simp add: fixed_def)
  moreover from this have "rollback_commit u \<noteq> ''?''" "rollback_branch u \<noteq> ''?''" using a(1,2) by (simp_all add: rb_def)
  ultimately show ?thesis using u(2) by (simp add: Let_def) (simp add: rb_def)
qed

lemma capture_held: "held s = held t \<Longrightarrow> capture_state_for_rollback s = capture_state_for_rollback t"
  by (simp add: held_def capture_state_for_rollback_def)

lemma pull_repo_rb:
  assumes "pull_repo e d = (Inr (), d')"
  shows "rb (dp_repo d') = capture_state_for_rollback (dp_repo d)"
proof -
  obtain d1 d2 where d: "notify_status e ''Updating Repo...'' d = (Inr (), d1)"
    "on_repo (modify (set_rollback_state (Some (capture_state_for_rollback (dp_repo d1))))) d2 = (Inr (), d')"
    using assms by (auto simp: pull_repo_def abind_eq_Inr look_def Let_def)
  have "held (dp_repo d1) = held (dp_repo d)"
    using d(1) held_result [OF git_rules(6)] by (auto simp: notify_status_def on_repo_Inr notify_def modify_def)
  then have c: "capture_state_for_rollback (dp_repo d1) = capture_state_for_rollback (dp_repo d)" by (rule capture_held)
  from d(2) show ?thesis
    unfolding c by (auto simp: on_repo_Inr modify_def set_rollback_state_def rb_def split: prod.split)
qed

definition hard_reset :: "'w git_env \<Rightarrow> string \<Rightarrow> 'w \<Rightarrow> bool" where
  "hard_reset v c w' \<longleftrightarrow> (\<exists>w resp. git v (''reset --hard '' @ c) w = (Inr resp, w'))"

lemma reset_result:
  assumes "reset_tree v (Some c) s = (Inr (), t)"
  shows "hard_reset v c (tree t)"
proof -
  obtain resp u where "run_git_cmd v fatal (''reset --hard '' @ c) s = (Inr resp, u)" "tree t = tree u"
    using assms by (auto simp: reset_tree_def look_def abind_eq_Inr ret_def modify_def)
  moreover from this have "git v (''reset --hard '' @ c) (tree s) = (Inr resp, tree u)"
    by (auto simp: run_git_cmd_def Let_def split: prod.splits sum.splits)
  ultimately show ?thesis unfolding hard_reset_def by metis
qed

lemma rollback_result:
  assumes "rollback v s = (Inr done, t)"
  shows "if done then hard_reset v (rollback_commit s) (tree t) else rollback_commit s = current_commit s"
proof -
  have c: "rollback_commit u = rollback_commit s" if "checkout v b s = (r, u)" for b r u
    using held_result [OF checkout_held that] by (simp add: held_def)
  show ?thesis
    using assms by (auto simp: rollback_def look_def abind_eq_Inr ret_def throw_def dest!: reset_result c split: if_splits)
qed

text \<open>C19: After an update that succeeded, the stored rollback point is the commit, branch and version from before it; a rollback then
  ends with a hard reset to that commit (or does nothing when the update left the commit as it was).\<close>

theorem rollback_undoes_update:
  assumes "deploy_update e d = (Inr True, d1)" "capture_state_for_rollback (dp_repo d) = (c, b, ver)" "c \<noteq> ''?''" "b \<noteq> ''?''"
    and "rollback (de_git e) (dp_repo d1) = (Inr done, s2)"
  shows "(rollback_commit (dp_repo d1), rollback_branch (dp_repo d1), rollback_version (dp_repo d1)) = (c, b, ver) \<and>
    (if done then hard_reset (de_git e) c (tree s2) else current_commit (dp_repo d1) = c)"
proof -
  obtain da db dc dd de df deps where s:
    "on_repo (notify (''Updating Application '' @ de_name e @ ''...'')) d = (Inr (), da)"
    "on_repo (on_tree (collect_dependencies e)) da = (Inr deps, db)" "pull_repo e db = (Inr (), dc)"
    "on_repo (on_tree (update_dependencies e False deps)) dc = (Inr (), dd)" "update_repo_state e False dd = (Inr (), de)"
    "on_repo (on_tree (restart_service e)) de = (Inr (), df)" "notify_status e ''Update Finished...'' df = (Inr (), d1)"
    using assms(1) by (auto simp: deploy_update_def look_def abind_eq_Inr ret_def throw_def split: if_splits)
  have h: "held (dp_repo y) = held (dp_repo x)" if "on_repo m x = (Inr z, y)" "\<And>c. maintains (\<lambda>s. held s = c) m" for x y z and m :: "('a, 'z) git_act"
    using that held_result [OF that(2)] by (auto simp: on_repo_Inr)
  have "held (dp_repo db) = held (dp_repo d)" using h [OF s(1) notify_held] h [OF s(2) on_tree_held] by simp
  then have "capture_state_for_rollback (dp_repo db) = (c, b, ver)" using assms(2) capture_held by metis
  then have "rb (dp_repo dc) = (c, b, ver)" using pull_repo_rb [OF s(3)] by simp
  moreover have "rb (dp_repo dd) = rb (dp_repo dc)" by (rule rb_held) (rule h [OF s(4) on_tree_held])
  ultimately have dd: "rb (dp_repo dd) = (c, b, ver)" by simp
  from s(5) obtain t where "refresh_repo_state (de_git e) False (dp_repo dd) = (Inr (), t)" "dp_repo de = t"
    by (auto simp: update_repo_state_def abind_eq_Inr modify_def on_repo_Inr)
  then have "rb (dp_repo de) = (c, b, ver)" using set_rollback_None_rb [of "dp_repo dd"] dd assms(3,4) by (auto simp: rb_def)
  moreover have "rb (dp_repo d1) = rb (dp_repo de)"
    using rb_held [OF h [OF s(6) on_tree_held]] rb_held [OF h [OF s(7) [unfolded notify_status_def] notify_held]] by simp
  ultimately have r: "rb (dp_repo d1) = (c, b, ver)" by simp
  with rollback_result [OF assms(5)] show ?thesis by (auto simp: rb_def split: if_splits)
qed

section \<open>What the stable channel offers\<close>

lemma pre_flag_range: "pre_flag l = ALPHA \<or> pre_flag l = BETA \<or> pre_flag l = RELEASE_CANDIDATE"
proof -
  have "pre_number l 1 \<noteq> 0" by (simp add: pre_number_def pre_conv_def)
  then show ?thesis by (auto simp: pre_flag_def split: nat.split)
qed

lemma pre_flag_not_final: "FINAL \<noteq> pre_flag l" "pre_flag l \<noteq> FINAL"
  using pre_flag_range [of l] by auto

lemma pre_flag_pre: "ALPHA \<noteq> pre_flag l \<Longrightarrow> BETA \<noteq> pre_flag l \<Longrightarrow> RELEASE_CANDIDATE \<noteq> pre_flag l \<Longrightarrow> False"
  using pre_flag_range [of l] by auto

lemmas git_version_defs = new_git_version_def base_version_def version.defs git_version.defs git_flags_def git_extra_def din_def Let_def

lemma stable_candidate:
  assumes "valid_version (new_git_version v)" "is_final_release (new_git_version v)"
  shows "extra_tup (new_git_version v) = [1, 0, 0] \<and> has_dev_part (new_git_version v) \<and> dev_count (new_git_version v) = 0"
  using assms by (auto simp: git_version_defs is_final_release_def pre_flag_not_final split: option.splits if_splits)

lemma released_version:
  assumes "valid_version (new_git_version v)" "\<not> is_pre_release (new_git_version v)"
  shows "extra_tup (new_git_version v) = [1, 0, 0] \<and> has_dev_part (new_git_version v)"
  using assms by (auto simp: git_version_defs is_pre_release_def dest: pre_flag_pre split: option.splits if_splits)

text \<open>What a version offered on the stable channel looks like.\<close>

definition final_candidate :: "git_version \<Rightarrow> bool" where
  "final_candidate u \<longleftrightarrow> (valid_version u \<longrightarrow> extra_tup u = [1, 0, 0] \<and> has_dev_part u \<and> dev_count u = 0)"

definition stable :: "'w git_repo \<Rightarrow> bool" where
  "stable s \<longleftrightarrow> gr_channel s = Stable"

definition newer_offered :: "'w git_repo \<Rightarrow> bool" where
  "newer_offered s \<longleftrightarrow>
     (is_pre_release (current_version s) \<or> is_current s \<or> v_lt (current_version s) (upstream_version s) = Inr True)"

lemma stable_keeps: "(\<And>c. maintains (\<lambda>s. fixed s = c) m) \<Longrightarrow> maintains stable m"
  by (rule frame_keeps [of fixed]) (auto simp: fixed_def stable_def)

lemma newer_keeps: "(\<And>c. maintains (\<lambda>s. held s = c) m) \<Longrightarrow> maintains newer_offered m"
  by (rule held_keeps) (auto simp: held_def newer_offered_def is_current_def)

lemma unknown_invalid: "\<not> valid_version (new_git_version ''?'')"
  by code_simp

lemma unknown_candidate: "final_candidate (new_git_version ''?'')"
  by (simp add: final_candidate_def unknown_invalid)

lemma tag_candidate:
  "final_candidate (new_git_version (snd (case find (\<lambda>(sha, tag). channel_allows Stable (new_git_version tag)) tags of
     Some p \<Rightarrow> p | None \<Rightarrow> (''?'', ''?''))))"
proof (cases "find (\<lambda>(sha, tag). channel_allows Stable (new_git_version tag)) tags")
  case None
  then show ?thesis by (simp add: unknown_candidate)
next
  case (Some p)
  then have "channel_allows Stable (new_git_version (snd p))" by (auto simp: find_Some_iff)
  then have "is_final_release (new_git_version (snd p))" by (simp add: channel_allows_def)
  with Some stable_candidate [of "snd p"] show ?thesis by (simp add: final_candidate_def)
qed

lemma upstream_candidate: "returns stable (get_upstream_version v) (\<lambda>up s. stable s \<and> final_candidate up)"
  unfolding get_upstream_version_def
proof (rule returns_step, goal_cases)
  case 2
  show ?case
  proof (rule returns_look, rule returns_abind [where K = "\<lambda>text. final_candidate (new_git_version text)"], goal_cases)
    case (1 s)
    then have c: "gr_channel s = Stable" by (simp add: stable_def)
    show ?case
    proof (simp only: c channel.distinct if_False, rule returns_step, goal_cases)
      case (2 tags)
      obtain sha tag where p: "(case find (\<lambda>(sha, tag). channel_allows Stable (new_git_version tag)) tags of
        Some p \<Rightarrow> p | None \<Rightarrow> (''?'', ''?'')) = (sha, tag)"
        by (cases "case find (\<lambda>(sha, tag). channel_allows Stable (new_git_version tag)) tags of Some p \<Rightarrow> p | None \<Rightarrow> (''?'', ''?'')") auto
      with tag_candidate [of tags] have "final_candidate (new_git_version tag)" by simp
      then show ?case by (simp add: p holds_def act_simps abind_def stable_def)
    qed (rule stable_keeps [OF fixed_keeps], rule git_rules)
  next
    case (2 s d)
    show ?case
      by (rule returns_look, rule returns_if; intro returns_step returns_ret returns_modify stable_keeps fixed_keeps git_rules act_rules)
        (simp_all add: 2(2))
  qed
qed (rule maintains_modify, simp add: stable_def)

lemma refused_means_newer:
  assumes "final_candidate up" "v_le up cur = Inr False" "cur = new_git_version x" "\<not> is_pre_release cur"
  shows "v_lt cur up = Inr True"
proof -
  have v: "valid_version up" "valid_version cur" using assms(2) by (auto simp: v_le_def v_compare_def split: if_splits)
  then have "extra_tup up = extra_tup cur" "has_dev_part up = has_dev_part cur" "dev_count up = 0"
    using assms(1,3,4) released_version [of x] by (simp_all add: final_candidate_def)
  then have "\<not> version_key up \<le> version_key cur" using le_complete [OF v] assms(2) by auto
  with comparisons_by_key(1) [OF v(2,1)] show ?thesis by (simp add: not_le)
qed

lemma infer_current_text:
  "returns stable (infer_current v (new_git_version x) up) (\<lambda>cur s. stable s \<and> (\<exists>y. cur = new_git_version y))"
  unfolding infer_current_def
proof (rule returns_if, goal_cases)
  case 2
  show ?case
    by (rule returns_step [OF stable_keeps [OF fixed_keeps]], rule git_rules) (auto simp: holds_def act_simps Let_def)
qed (auto intro: returns_ret)

lemma set_versions_newer:
  assumes "final_candidate up"
  shows "returns stable (set_versions v (new_git_version x) up) (\<lambda>_. newer_offered)"
  unfolding set_versions_def
proof (rule returns_abind [OF infer_current_text], rule returns_look)
  fix cur s assume c: "\<exists>y. cur = new_git_version y" and "stable (s :: 'a git_repo)"
  then have s: "gr_channel s = Stable" by (simp add: stable_def)
  from c obtain y where y: "cur = new_git_version y" ..
  have "v_lt cur up = Inr True" if "v_le up cur = Inr False" "\<not> is_pre_release cur"
    using refused_means_newer [OF assms that(1) y that(2)] .
  then show "returns stable
       (abind (if gr_channel s = Dev then infer_upstream v cur up
               else if \<not> valid_version up then abind (modify no_update) (\<lambda>_. ret cur)
               else abind (lift_res (v_le up cur)) (\<lambda>le. abind (if le then modify no_update else ret ()) (\<lambda>_. ret up)))
         (\<lambda>up. modify (\<lambda>s. s\<lparr>current_version := cur, upstream_version := up\<rparr>)))
       (\<lambda>_. newer_offered)"
    by (auto simp: s holds_def act_simps abind_def lift_res_def newer_offered_def no_update_def is_current_def
        split: sum.split if_split)
qed

lemma refresh_versions_newer: "returns stable (refresh_versions v) (\<lambda>_. newer_offered)"
  unfolding refresh_versions_def
  by (intro returns_step returns_abind [OF upstream_candidate] stable_keeps fixed_keeps git_rules act_rules set_versions_newer)
    (simp_all add: stable_def)

lemma refresh_body_newer: "returns stable (refresh_body v b) (\<lambda>_. newer_offered)"
proof -
  have 1: "maintains newer_offered (abind (refresh_commits v) (\<lambda>_. modify (check_warnings v)))"
    by (intro act_rules newer_keeps git_rules) (simp_all add: check_warnings_def Let_def held_def)
  obtain m where m: "abind (refresh_versions v) (\<lambda>_. abind (refresh_commits v) (\<lambda>_. modify (check_warnings v))) = m" by simp
  have "returns stable m (\<lambda>_. newer_offered)"
    unfolding m [symmetric] by (rule holds_abind [OF refresh_versions_newer]) (rule returns_maintains [OF 1])
  then show ?thesis
    unfolding refresh_body_def m
    by (intro returns_step returns_look stable_keeps act_rules refresh_parts_fixed fixed_keeps git_rules) simp_all
qed


section \<open>What the error output does\<close>

text \<open>
  A command that fails and writes only to its error output, which is where git reports errors, never marks the repository as
  corrupt, since the standard output is searched in its place.
\<close>

lemma error_output_not_searched:
  assumes "git v args (tree s) = (Inl f, w)" "strip (fail_out f) = []" "m \<noteq> []"
  shows "fst (run_git_cmd v m args s) = Inl (Shell f)" "repo_corrupt (snd (run_git_cmd v m args s)) = repo_corrupt s"
    and "tree (snd (run_git_cmd v m args s)) = w"
proof -
  have "strip [] = []" "lower [] = []" "\<not> startswith [] m" using assms(3) by (simp_all add: strip_def rstrip_def lstrip_def lower_def startswith_def)
  with assms show "fst (run_git_cmd v m args s) = Inl (Shell f)" "repo_corrupt (snd (run_git_cmd v m args s)) = repo_corrupt s"
    "tree (snd (run_git_cmd v m args s)) = w"
    by (auto simp: run_git_cmd_def Let_def split_on_def)
qed

text \<open>A check for an ancestor that fails each time, with any return code but 1, answers yes.\<close>

lemma failed_ancestor_check:
  assumes "\<And>w. \<exists>f w'. git v cmd w = (Inl f, w') \<and> return_code f \<noteq> Some 1 \<and> strip (fail_out f) = []" "\<not> repo_corrupt s"
  shows "fst (ancestor_attempts v cmd n s) = Inr True"
  using assms(2)
proof (induction n arbitrary: s)
  case (Suc n)
  obtain f w where f: "git v cmd (tree s) = (Inl f, w)" "return_code f \<noteq> Some 1" "strip (fail_out f) = []" using assms(1) by blast
  obtain t where "run_git_cmd v ''error: '' cmd s = (Inl (Shell f), t)" "\<not> repo_corrupt t"
    using error_output_not_searched(1,2) [OF f(1,3), of "''error: ''"] Suc.prems
    by (cases "run_git_cmd v ''error: '' cmd s") simp
  with f(2) Suc.IH [of t] show ?case by (simp add: act_simps catch_def abind_def)
qed (simp add: ret_def)

section \<open>A repository with one update\<close>

text \<open>A working tree is the commit of its head: \<open>a\<close>, the release 1, or \<open>b\<close>, the release 2.\<close>

definition toy_answer :: "string \<Rightarrow> string \<Rightarrow> string" where
  "toy_answer cmd w =
     (if startswith cmd ''st'' then ''## m''
      else if startswith cmd ''br'' then ''* m''
      else if startswith cmd ''config --l'' then ''i''
      else if startswith cmd ''config'' then ''origin''
      else if startswith cmd ''remote'' then ''x''
      else if startswith cmd ''rev-p'' then w
      else if startswith cmd ''rev-l'' then (if w = ''a'' then ''1'' else ''0'')
      else if startswith cmd ''de'' then (if w = ''a'' then ''1'' else ''2'')
      else if startswith cmd ''for'' then ''commit b refs/tags/2''
      else if startswith cmd ''log'' then ''sha:b''
      else [])"

definition toy_git :: "string \<Rightarrow> string \<Rightarrow> (git_failure + string) \<times> string" where
  "toy_git cmd w = (if startswith cmd ''reset'' then (Inr [], drop 13 cmd) else (Inr (toy_answer cmd w), w))"

definition toy_process :: "string \<Rightarrow> string \<Rightarrow> (string list \<times> int) \<times> string" where
  "toy_process cmd w = (([], 0), if startswith cmd ''pull'' then ''b'' else w)"

definition toy_env :: "string git_env" where
  "toy_env = \<lparr>git = toy_git, git_process = toy_process, remove_empty_objects = (\<lambda>w. (Inr [], w)), lock_file = (\<lambda>w. False),
     remove_lock = (\<lambda>w. w), wait_second = (\<lambda>w. w), detect_git_dir = (\<lambda>w. True), final_url = (\<lambda>u. None),
     debug_enabled = False, instance_id = ''i'', linked_repo = (\<lambda>w. False), repo_type = (\<lambda>w. ''repo''), backup_path = ''y'',
     drop_backup = (\<lambda>w. (Inr (), w)), install_backup = (\<lambda>w. (Inr (), w)), list_text = (\<lambda>l. [])\<rparr>"

definition toy_repo :: "string git_repo" where
  "toy_repo =
     (let u = new_git_version ''?'' in
      \<lparr>gr_alias = ''k'', origin_url = ''x.git'', primary_branch = ''m'', gr_channel = Stable, valid_git_repo = False, gr_initialized = False,
       git_owner = ''?'', git_repo_name = ''?'', git_remote = ''?'', git_branch = ''?'', current_version = u, upstream_version = u,
       current_commit = ''?'', upstream_commit = ''?'', upstream_url = ''?'', recovery_url = ''?'', branches = [], head_detached = False,
       git_messages = [], commits_behind = [], commits_behind_count = 0, diverged = False, repo_corrupt = False, modified_files = [],
       untracked_files = [], rollback_commit = ''?'', rollback_branch = ''?'', rollback_version = u, repo_warnings = [],
       repo_anomalies = [], managing_instances = [], notices = [], tree = ''a''\<rparr>)"

definition toy_deploy_env :: "(string, unit) deploy_env" where
  "toy_deploy_env = \<lparr>de_git = toy_env, de_prefix = [], de_name = [], collect_dependencies = (\<lambda>w. (Inr (), w)),
     update_dependencies = (\<lambda>_ _ w. (Inr (), w)), restart_service = (\<lambda>w. (Inr (), w)), exc_text = (\<lambda>_. [])\<rparr>"

definition view :: "string git_repo \<Rightarrow> string list" where
  "view s = [tree s, current_commit s, upstream_commit s, rollback_commit s, git_branch s]"

definition toy_deploy :: "string deploy" where
  "toy_deploy = new_deploy toy_deploy_env (toy_repo\<lparr>valid_git_repo := True, git_remote := ''origin'', git_branch := ''m'',
     current_version := new_git_version ''1'', upstream_version := new_git_version ''2'', current_commit := ''a'',
     upstream_commit := ''b'', upstream_url := ''x''\<rparr>)"

lemma toy_update:
  "case deploy_update toy_deploy_env toy_deploy of (r, d) \<Rightarrow> r = Inr True \<and> view (dp_repo d) = [''b'', ''b'', ''b'', ''a'', ''m''] \<and>
     (case rollback toy_env (dp_repo d) of (q, s) \<Rightarrow> q = Inr True \<and> tree s = ''a'')"
  by code_simp

lemma toy_start: "view (dp_repo toy_deploy) = [''a'', ''a'', ''b'', ''?'', ''m'']" "\<not> head_detached (dp_repo toy_deploy)"
  by (simp_all add: toy_deploy_def toy_repo_def new_deploy_def view_def Let_def)


lemma rollback_undoes_update_witness:
  "\<exists>d s. deploy_update toy_deploy_env toy_deploy = (Inr True, d) \<and> rollback toy_env (dp_repo d) = (Inr True, s) \<and>
     rollback_commit (dp_repo d) = ''a'' \<and> hard_reset toy_env ''a'' (tree s)"
proof -
  obtain d s where d: "deploy_update toy_deploy_env toy_deploy = (Inr True, d)" "rollback toy_env (dp_repo d) = (Inr True, s)"
    using toy_update by (auto split: prod.splits)
  obtain ver where "capture_state_for_rollback (dp_repo toy_deploy) = (''a'', ''m'', ver)"
    using toy_start by (simp add: capture_state_for_rollback_def view_def)
  moreover have "de_git toy_deploy_env = toy_env" by (simp add: toy_deploy_env_def)
  ultimately show ?thesis using rollback_undoes_update [OF d(1)] d by fastforce
qed

lemma toy_refresh:
  "case refresh_repo_state toy_env True toy_repo of (r, s) \<Rightarrow> r = Inr () \<and> \<not> is_pre_release (current_version s) \<and> \<not> is_current s"
  by code_simp


lemma toy_recovery:
  "case deploy_recover toy_deploy_env False False toy_deploy of (r, d) \<Rightarrow> r = Inr () \<and> tree (dp_repo d) = ''a''"
  by code_simp

lemma recovery_ends_pristine_witness:
  "\<exists>d. deploy_recover toy_deploy_env False False toy_deploy = (Inr (), d) \<and> tree (dp_repo d) = ''a'' \<and> pristine toy_env (dp_repo d)"
proof -
  obtain d where d: "deploy_recover toy_deploy_env False False toy_deploy = (Inr (), d)" "tree (dp_repo d) = ''a''"
    using toy_recovery by (auto split: prod.splits)
  moreover have "de_git toy_deploy_env = toy_env" by (simp add: toy_deploy_env_def)
  ultimately show ?thesis using recovery_ends_pristine [OF d(1)] by auto
qed

end
