(* ===== verification/ConfigFile.thy ===== *)
theory ConfigFile
  imports ConfigWrapper PyStrings
begin

text \<open>
  \<open>klippy/configfile.py\<close>: the configuration file, the block of values that \<open>SAVE_CONFIG\<close> keeps at its end, and what it uses of
  \<open>configparser\<close> (a \<open>RawConfigParser\<close> that is not strict, up to Python 3.10: a section name ends at the first bracket).

  Files are a dictionary from absolute paths to contents. The functions of \<open>os.path\<close> and \<open>glob\<close> and the date are parameters.
\<close>

section \<open>What is used of \<open>configparser\<close>\<close>

text \<open>The value of an option is a list of lines while it is read.\<close>

datatype cfg_value = Joined string | Reading "string list"

type_synonym cfg_options = "(string, cfg_value) dict"

record fileconfig =
  fc_defaults :: cfg_options
  fc_sections :: "(string, cfg_options) dict"

definition no_config :: fileconfig where
  "no_config = \<lparr>fc_defaults = [], fc_sections = []\<rparr>"

definition default_section :: string where
  "default_section = ''DEFAULT''"

definition has_section :: "fileconfig \<Rightarrow> string \<Rightarrow> bool" where
  "has_section c sec \<longleftrightarrow> din sec (fc_sections c)"

text \<open>A section of \<open>None\<close> means the defaults.\<close>

definition has_option :: "fileconfig \<Rightarrow> string option \<Rightarrow> string \<Rightarrow> bool" where
  "has_option c sec opt =
     (let name = lower opt in
      case sec of
        None \<Rightarrow> din name (fc_defaults c)
      | Some sn \<Rightarrow>
          if sn = [] \<or> sn = default_section then din name (fc_defaults c)
          else (case dget (fc_sections c) sn of None \<Rightarrow> False | Some os \<Rightarrow> din name os \<or> din name (fc_defaults c)))"

definition options_of :: "fileconfig \<Rightarrow> string \<Rightarrow> string list" where
  "options_of c sec = dkeys (dset_all (fc_defaults c) (case dget (fc_sections c) sec of None \<Rightarrow> [] | Some os \<Rightarrow> os))"

definition add_section :: "string \<Rightarrow> fileconfig \<Rightarrow> fileconfig res" where
  "add_section sec c =
     (if sec = default_section then Inl ValueError
      else if has_section c sec then Inl (AppError (''Section '' @ quoted sec @ '' already exists''))
      else Inr (c\<lparr>fc_sections := dset sec [] (fc_sections c)\<rparr>))"

definition set_option :: "string \<Rightarrow> string \<Rightarrow> string \<Rightarrow> fileconfig \<Rightarrow> fileconfig res" where
  "set_option sec opt val c =
     (if sec = [] \<or> sec = default_section then Inr (c\<lparr>fc_defaults := dset (lower opt) (Joined val) (fc_defaults c)\<rparr>)
      else case dget (fc_sections c) sec of
        None \<Rightarrow> Inl (AppError (''No section: '' @ quoted sec))
      | Some os \<Rightarrow> Inr (c\<lparr>fc_sections := dset sec (dset (lower opt) (Joined val) os) (fc_sections c)\<rparr>))"

definition del_section :: "string \<Rightarrow> fileconfig \<Rightarrow> fileconfig" where
  "del_section sec c = c\<lparr>fc_sections := ddel sec (fc_sections c)\<rparr>"

subsection \<open>Reading\<close>

datatype place = Nowhere | Defaults | Inside string

record reader =
  rd_config :: fileconfig
  rd_place :: place
  rd_option :: string
  rd_indent :: nat
  rd_bad :: bool

definition options_at :: "reader \<Rightarrow> cfg_options" where
  "options_at r = (case rd_place r of
     Nowhere \<Rightarrow> [] | Defaults \<Rightarrow> fc_defaults (rd_config r)
   | Inside sec \<Rightarrow> (case dget (fc_sections (rd_config r)) sec of None \<Rightarrow> [] | Some os \<Rightarrow> os))"

definition put_options :: "cfg_options \<Rightarrow> reader \<Rightarrow> reader" where
  "put_options os r = (case rd_place r of
     Nowhere \<Rightarrow> r
   | Defaults \<Rightarrow> r\<lparr>rd_config := (rd_config r)\<lparr>fc_defaults := os\<rparr>\<rparr>
   | Inside sec \<Rightarrow> r\<lparr>rd_config := (rd_config r)\<lparr>fc_sections := dset sec os (fc_sections (rd_config r))\<rparr>\<rparr>)"

definition add_line :: "string \<Rightarrow> reader \<Rightarrow> reader" where
  "add_line l r = (case dget (options_at r) (rd_option r) of
     Some (Reading ls) \<Rightarrow> put_options (dset (rd_option r) (Reading (ls @ [l])) (options_at r)) r
   | _ \<Rightarrow> r)"

text \<open>Where a comment starts: a semicolon at the start or after white space, or a line that is a comment as a whole. The other
  comment character, \<open>#\<close>, is never seen here, since what follows it has been removed.\<close>

fun inline_comment :: "bool \<Rightarrow> string \<Rightarrow> nat option" where
  "inline_comment b [] = None"
| "inline_comment b (c # s) = (if c = CHR '';'' \<and> b then Some 0 else map_option Suc (inline_comment (is_space c) s))"

definition comment_start :: "string \<Rightarrow> nat option" where
  "comment_start l = (if startswith (strip l) ''#'' \<or> startswith (strip l) '';'' then Some 0 else inline_comment True l)"

definition section_header :: "string \<Rightarrow> string option" where
  "section_header l = (case l of
     [] \<Rightarrow> None
   | c # s \<Rightarrow> let h = takeWhile (\<lambda>c. c \<noteq> CHR '']'') s in if c = CHR ''['' \<and> h \<noteq> [] \<and> length h < length s then Some h else None)"

text \<open>An option and its value, at the first of the two delimiters.\<close>

definition split_option :: "string \<Rightarrow> (string \<times> string) option" where
  "split_option l =
     (let o_part = takeWhile (\<lambda>c. c \<noteq> CHR ''='' \<and> c \<noteq> CHR '':'') l; rest = drop (length o_part) l
      in if rest = [] then None else Some (rstrip o_part, strip (tl rest)))"

definition open_section :: "string \<Rightarrow> reader \<Rightarrow> reader" where
  "open_section h r =
     (let c = rd_config r;
          r1 = (if has_section c h then r\<lparr>rd_place := Inside h\<rparr>
                else if h = default_section then r\<lparr>rd_place := Defaults\<rparr>
                else r\<lparr>rd_place := Inside h, rd_config := c\<lparr>fc_sections := dset h [] (fc_sections c)\<rparr>\<rparr>)
      in r1\<lparr>rd_option := []\<rparr>)"

definition read_option :: "string \<Rightarrow> reader \<Rightarrow> reader" where
  "read_option val r = (case split_option val of
     None \<Rightarrow> r\<lparr>rd_bad := True\<rparr>
   | Some (opt, v) \<Rightarrow>
       let name = lower opt
       in put_options (dset name (Reading [v]) (options_at r)) (r\<lparr>rd_option := name, rd_bad := rd_bad r \<or> opt = []\<rparr>))"

definition read_line :: "string \<Rightarrow> reader \<Rightarrow> reader res" where
  "read_line l r =
     (let c = comment_start l; val = strip (case c of None \<Rightarrow> l | Some i \<Rightarrow> take i l); within_value = (rd_place r \<noteq> Nowhere \<and> rd_option r \<noteq> []) in
      if val = [] then Inr (if c = None \<and> within_value then add_line [] r else r)
      else
        let ind = length (takeWhile is_space l) in
        if within_value \<and> rd_indent r < ind then Inr (add_line val r)
        else
          let r1 = r\<lparr>rd_indent := ind\<rparr> in
          case section_header val of
            Some h \<Rightarrow> Inr (open_section h r1)
          | None \<Rightarrow>
              if rd_place r1 = Nowhere then Inl (AppError ''File contains no section headers.'')
              else Inr (read_option val r1))"

fun join_value :: "cfg_value \<Rightarrow> cfg_value" where
  "join_value (Reading ls) = Joined (rstrip (join [newline_char] ls))"
| "join_value (Joined s) = Joined s"

definition join_values :: "cfg_options \<Rightarrow> cfg_options" where
  "join_values os = map (\<lambda>(k, v). (k, join_value v)) os"

definition joined :: "fileconfig \<Rightarrow> fileconfig" where
  "joined c = \<lparr>fc_defaults = join_values (fc_defaults c), fc_sections = map (\<lambda>(sec, os). (sec, join_values os)) (fc_sections c)\<rparr>"

text \<open>\<open>readfp\<close> on a text.\<close>

definition readfp :: "string \<Rightarrow> fileconfig \<Rightarrow> fileconfig res" where
  "readfp data c =
     rbind (rfold (\<lambda>r l. read_line l r) \<lparr>rd_config = c, rd_place = Nowhere, rd_option = [], rd_indent = 0, rd_bad = False\<rparr>
        (split_on newline_char data)) (\<lambda>r.
     if rd_bad r then Inl (AppError ''Source contains parsing errors'') else Inr (joined (rd_config r)))"

subsection \<open>Writing\<close>

fun value_text :: "cfg_value \<Rightarrow> string" where
  "value_text (Joined s) = s"
| "value_text (Reading ls) = join [newline_char] ls"

definition option_text :: "string \<times> cfg_value \<Rightarrow> string" where
  "option_text kv = fst kv @ '' = '' @ replace_str [newline_char] [newline_char, CHR 0x09] (value_text (snd kv)) @ [newline_char]"

definition section_text :: "string \<times> cfg_options \<Rightarrow> string" where
  "section_text so = CHR ''['' # fst so @ '']'' @ [newline_char] @ concat (map option_text (snd so)) @ [newline_char]"

definition config_text :: "fileconfig \<Rightarrow> string" where
  "config_text c =
     (if fc_defaults c = [] then [] else section_text (default_section, fc_defaults c)) @ concat (map section_text (fc_sections c))"

section \<open>The file and its saved block\<close>

type_synonym files = "(string, string) dict"

record cfg_env =
  abspath :: "string \<Rightarrow> string"
  include_path :: "string \<Rightarrow> string \<Rightarrow> string"
  glob_names :: "files \<Rightarrow> string \<Rightarrow> string list"
  has_magic :: "string \<Rightarrow> bool"
  cfg_name :: string
  date_text :: string

definition autosave_header :: string where
  "autosave_header =
     newline_char # ''#*# <---------------------- SAVE_CONFIG ---------------------->'' @
     newline_char # ''#*# DO NOT EDIT THIS BLOCK OR BELOW. The contents are auto-generated.'' @ newline_char # ''#*#'' @ [newline_char]"

definition block_mark :: string where
  "block_mark = newline_char # ''#*# ''"

definition read_config_file :: "cfg_env \<Rightarrow> files \<Rightarrow> string \<Rightarrow> string res" where
  "read_config_file v fs name =
     (case dget fs (abspath v name) of
        None \<Rightarrow> Inl (AppError (''Unable to open config file '' @ name))
      | Some d \<Rightarrow> Inr (replace_str [CHR 0x0D, newline_char] [newline_char] d))"

definition block_line :: "string \<Rightarrow> bool" where
  "block_line l \<longleftrightarrow> startswith l ''#*#'' \<and> \<not> (4 \<le> length l \<and> \<not> startswith l ''#*# '')"

definition find_autosave_data :: "string \<Rightarrow> string \<times> string" where
  "find_autosave_data data =
     (let (regular, block) = (case find_str autosave_header data of
            None \<Rightarrow> (data, []) | Some p \<Rightarrow> (take p data, strip (drop (p + length autosave_header) data)))
      in if contains_str regular block_mark then (data, [])
         else if block \<noteq> [] \<and> \<not> list_all block_line (split_on newline_char block) then (data, [])
         else (regular, join [newline_char] ([] # map (drop 4) (split_on newline_char block) @ [[]])))"

definition before_comment :: "string \<Rightarrow> string" where
  "before_comment l = takeWhile (\<lambda>c. c \<noteq> CHR ''#'' \<and> c \<noteq> CHR '';'') l"

definition field_char :: "char \<Rightarrow> bool" where
  "field_char c \<longleftrightarrow> is_lower (lower_char c) \<or> is_digit c \<or> c = CHR ''_''"

text \<open>The lines of \<open>_strip_duplicates\<close>, from a section and a field that is a duplicate or not.\<close>

fun strip_lines :: "fileconfig \<Rightarrow> string option \<Rightarrow> bool \<Rightarrow> string list \<Rightarrow> string list" where
  "strip_lines c sec dup [] = []"
| "strip_lines c sec dup (l # ls) =
     (let pruned = rstrip (before_comment l) in
      case pruned of
        [] \<Rightarrow> l # strip_lines c sec dup ls
      | x # rest \<Rightarrow>
          if is_space x then (if dup then CHR ''#'' # l else l) # strip_lines c sec dup ls
          else if x = CHR ''['' then l # strip_lines c (Some (strip (butlast rest))) False ls
          else
            let d = has_option c sec (takeWhile field_char pruned)
            in (if d then CHR ''#'' # l else l) # strip_lines c sec d ls)"

definition strip_duplicates :: "string \<Rightarrow> fileconfig \<Rightarrow> string" where
  "strip_duplicates data c = join [newline_char] (strip_lines c None False (split_on newline_char data))"

section \<open>Includes\<close>

definition parse_config_buffer :: "string list \<Rightarrow> fileconfig \<Rightarrow> fileconfig res" where
  "parse_config_buffer buffer c = (if buffer = [] then Inr c else readfp (join [newline_char] buffer) c)"

definition include_spec :: "string \<Rightarrow> string option" where
  "include_spec l = (case section_header l of
     None \<Rightarrow> None | Some h \<Rightarrow> if startswith h ''include '' then Some (strip (drop 8 h)) else None)"

text \<open>The lines of a file, with a function for its includes.\<close>

fun parse_lines :: "(string \<Rightarrow> fileconfig \<Rightarrow> fileconfig res) \<Rightarrow> string list \<Rightarrow> string list \<Rightarrow> fileconfig \<Rightarrow> fileconfig res" where
  "parse_lines inc buffer [] c = parse_config_buffer buffer c"
| "parse_lines inc buffer (l # ls) c =
     (let line = takeWhile (\<lambda>c. c \<noteq> CHR ''#'') l in
      case include_spec line of
        Some spec \<Rightarrow> rbind (parse_config_buffer buffer c) (\<lambda>c1. rbind (inc spec c1) (\<lambda>c2. parse_lines inc [] ls c2))
      | None \<Rightarrow> parse_lines inc (buffer @ [line]) ls c)"

definition resolve_include ::
  "cfg_env \<Rightarrow> files \<Rightarrow> (string \<Rightarrow> string \<Rightarrow> fileconfig \<Rightarrow> fileconfig res) \<Rightarrow> string \<Rightarrow> string \<Rightarrow> fileconfig \<Rightarrow> fileconfig res" where
  "resolve_include v fs parse source spec c =
     (let pattern = include_path v source (strip spec); names = glob_names v fs pattern in
      if names = [] \<and> \<not> has_magic v pattern then Inl (AppError (''Include file '' @ quoted pattern @ '' does not exist''))
      else rfold (\<lambda>c name. rbind (read_config_file v fs name) (\<lambda>data. parse data name c)) c (sort_by str_le names))"

text \<open>Includes nest no deeper than there are files, since a file that includes itself is an error.\<close>

fun parse_config :: "cfg_env \<Rightarrow> files \<Rightarrow> nat \<Rightarrow> string list \<Rightarrow> string \<Rightarrow> string \<Rightarrow> fileconfig \<Rightarrow> fileconfig res" where
  "parse_config v fs 0 visited data name c = Inl (AppError ''Includes nest too deep'')"
| "parse_config v fs (Suc n) visited data name c =
     (if abspath v name \<in> set visited then Inl (AppError (''Recursive include of config file '' @ quoted name))
      else parse_lines (resolve_include v fs (parse_config v fs n (abspath v name # visited)) name) [] (split_on newline_char data) c)"

definition build_config_wrapper :: "cfg_env \<Rightarrow> files \<Rightarrow> string \<Rightarrow> string \<Rightarrow> fileconfig res" where
  "build_config_wrapper v fs data name = parse_config v fs (length fs + 2) [] data name no_config"

definition build_config_string :: "fileconfig \<Rightarrow> string" where
  "build_config_string c = strip (config_text c)"

section \<open>The printer's configuration\<close>

record printer_config =
  autosave :: "fileconfig option"
  save_config_pending :: bool
  cfg_files :: files
  restart_requests :: "string list"

definition new_printer_config :: "files \<Rightarrow> printer_config" where
  "new_printer_config fs = \<lparr>autosave = None, save_config_pending = False, cfg_files = fs, restart_requests = []\<rparr>"

definition read_config :: "cfg_env \<Rightarrow> printer_config \<Rightarrow> string \<Rightarrow> fileconfig res" where
  "read_config v s name = rbind (read_config_file v (cfg_files s) name) (\<lambda>d. build_config_wrapper v (cfg_files s) d name)"

definition read_main_config :: "cfg_env \<Rightarrow> printer_config \<Rightarrow> fileconfig res \<times> printer_config" where
  "read_main_config v s =
     (let fs = cfg_files s; name = cfg_name v in
      case read_config_file v fs name of Inl e \<Rightarrow> (Inl e, s) | Inr data \<Rightarrow>
      let (regular, block) = find_autosave_data data in
      case build_config_wrapper v fs regular name of Inl e \<Rightarrow> (Inl e, s) | Inr rc \<Rightarrow>
      let saved = strip_duplicates block rc in
      case build_config_wrapper v fs saved name of Inl e \<Rightarrow> (Inl e, s) | Inr a \<Rightarrow>
      (build_config_wrapper v fs (regular @ saved) name, s\<lparr>autosave := Some a\<rparr>))"

text \<open>Every section and option of the file must be used by some object, or be saved.\<close>

definition used_fields :: "printer_config \<Rightarrow> (string \<times> string) list \<Rightarrow> (string \<times> string) list res" where
  "used_fields s acc = (case autosave s of
     None \<Rightarrow> Inl AttributeError
   | Some a \<Rightarrow> Inr (acc @ concat (map (\<lambda>sec. map (\<lambda>opt. (lower sec, lower opt)) (options_of a sec)) (dkeys (fc_sections a)))))"

definition check_section :: "(string \<times> string) list \<Rightarrow> string list \<Rightarrow> fileconfig \<Rightarrow> string \<Rightarrow> unit res" where
  "check_section used objects c name =
     (let sec = lower name in
      if sec \<notin> fst ` set used \<and> sec \<notin> set objects then Inl (AppError (''Section '' @ quoted sec @ '' is not a valid config section''))
      else case find (\<lambda>opt. (sec, lower opt) \<notin> set used) (options_of c name) of
             Some opt \<Rightarrow> Inl (AppError (''Option '' @ quoted (lower opt) @ '' is not valid in section '' @ quoted sec))
           | None \<Rightarrow> Inr ())"

definition check_unused_options :: "(string \<times> string) list \<Rightarrow> string list \<Rightarrow> fileconfig \<Rightarrow> printer_config \<Rightarrow> unit res" where
  "check_unused_options acc objects c s =
     rbind (used_fields s acc) (\<lambda>used. rfold (\<lambda>_ name. check_section used objects c name) () (dkeys (fc_sections c)))"

definition pc_set :: "string \<Rightarrow> string \<Rightarrow> string \<Rightarrow> printer_config \<Rightarrow> unit res \<times> printer_config" where
  "pc_set sec opt val s =
     (case autosave s of
        None \<Rightarrow> (Inl AttributeError, s)
      | Some c \<Rightarrow>
          (case (if has_section c sec then Inr c else add_section sec c) of
             Inl e \<Rightarrow> (Inl e, s)
           | Inr c1 \<Rightarrow>
               (case set_option sec opt val c1 of
                  Inl e \<Rightarrow> (Inl e, s\<lparr>autosave := Some c1\<rparr>)
                | Inr c2 \<Rightarrow> (Inr (), s\<lparr>autosave := Some c2, save_config_pending := True\<rparr>))))"

definition pc_remove_section :: "string \<Rightarrow> printer_config \<Rightarrow> unit res \<times> printer_config" where
  "pc_remove_section sec s = (case autosave s of
     None \<Rightarrow> (Inl AttributeError, s) | Some c \<Rightarrow> (Inr (), s\<lparr>autosave := Some (del_section sec c), save_config_pending := True\<rparr>))"

section \<open>\<open>SAVE_CONFIG\<close>\<close>

definition disallow_include_conflicts :: "cfg_env \<Rightarrow> files \<Rightarrow> fileconfig \<Rightarrow> string \<Rightarrow> string \<Rightarrow> unit res" where
  "disallow_include_conflicts v fs a regular name =
     rbind (build_config_wrapper v fs regular name) (\<lambda>c.
       rfold (\<lambda>_ (sec, opt). if has_option c (Some sec) opt
           then Inl (AppError (''SAVE_CONFIG section '' @ quoted sec @ '' option '' @ quoted opt @ '' conflicts with included value''))
           else Inr ()) ()
         (concat (map (\<lambda>sec. map (\<lambda>opt. (sec, opt)) (options_of a sec)) (dkeys (fc_sections a)))))"

definition autosave_block :: "string \<Rightarrow> string" where
  "autosave_block text =
     join [newline_char] ((newline_char # rstrip autosave_header) #
       map (\<lambda>l. strip (''#*# '' @ l)) (split_on newline_char text) @ [[]])"

definition suffixed :: "string \<Rightarrow> string \<Rightarrow> string" where
  "suffixed name suffix = (if endswith name ''.cfg'' then take (length name - 4) name @ suffix @ ''.cfg'' else name @ suffix)"

text \<open>Where the file system fails, if it does: writing the new file (which may leave a part of it), or either renaming.\<close>

datatype write_outcome = Written | Temp_fails string | Backup_fails | Swap_fails

definition rename_file :: "string \<Rightarrow> string \<Rightarrow> files \<Rightarrow> files" where
  "rename_file a b fs = (case dget fs a of None \<Rightarrow> fs | Some d \<Rightarrow> dset b d (ddel a fs))"

definition swap_files :: "cfg_env \<Rightarrow> write_outcome \<Rightarrow> string \<Rightarrow> files \<Rightarrow> files" where
  "swap_files v w data fs =
     (let name = abspath v (cfg_name v); backup = abspath v (suffixed (cfg_name v) (date_text v));
          temp = abspath v (suffixed (cfg_name v) ''_autosave'')
      in case w of
           Temp_fails part \<Rightarrow> dset temp part fs
         | Backup_fails \<Rightarrow> dset temp data fs
         | Swap_fails \<Rightarrow> rename_file name backup (dset temp data fs)
         | Written \<Rightarrow> rename_file temp name (rename_file name backup (dset temp data fs)))"

definition existing_regular :: "cfg_env \<Rightarrow> files \<Rightarrow> string res" where
  "existing_regular v fs =
     rbind (read_config_file v fs (cfg_name v)) (\<lambda>data.
       let regular = fst (find_autosave_data data) in
       rbind (build_config_wrapper v fs regular (cfg_name v)) (\<lambda>_. Inr regular))"

definition cmd_SAVE_CONFIG :: "cfg_env \<Rightarrow> write_outcome \<Rightarrow> printer_config \<Rightarrow> unit res \<times> printer_config" where
  "cmd_SAVE_CONFIG v w s =
     (case autosave s of
        None \<Rightarrow> (Inl AttributeError, s)
      | Some a \<Rightarrow>
          if fc_sections a = [] then (Inr (), s)
          else case existing_regular v (cfg_files s) of
            Inl _ \<Rightarrow> (Inl (AppError ''Unable to parse existing config on SAVE_CONFIG''), s)
          | Inr regular0 \<Rightarrow>
              let regular = strip_duplicates regular0 a in
              case disallow_include_conflicts v (cfg_files s) a regular (cfg_name v) of
                Inl e \<Rightarrow> (Inl e, s)
              | Inr _ \<Rightarrow>
                  let data = rstrip regular @ autosave_block (build_config_string a);
                      s1 = s\<lparr>cfg_files := swap_files v w data (cfg_files s)\<rparr>
                  in if w = Written then (Inr (), s1\<lparr>restart_requests := restart_requests s1 @ [''restart'']\<rparr>)
                     else (Inl (AppError ''Unable to write config file during SAVE_CONFIG''), s1))"

section \<open>Lines and blanks\<close>

lemma rstrip_append: "rstrip (a @ b) = (if rstrip b = [] then rstrip a else a @ rstrip b)"
proof (cases "dropWhile is_space (rev b) = []")
  case True
  then show ?thesis by (simp add: rstrip_def dropWhile_append)
next
  case False
  then have "\<exists>x \<in> set (rev b). \<not> is_space x" by (simp add: dropWhile_eq_Nil_conv)
  then show ?thesis using False by (auto simp: rstrip_def dropWhile_append)
qed

lemma rstrip_snoc: "rstrip (s @ [c]) = (if is_space c then rstrip s else s @ [c])"
  by (simp add: rstrip_def)

lemma rstrip_Nil [simp]: "rstrip [] = []"
  by (simp add: rstrip_def)

lemma rstrip_prefix: "\<exists>w. s = rstrip s @ w \<and> list_all is_space w"
proof (induction s rule: rev_induct)
  case (snoc c s)
  then obtain w where "s = rstrip s @ w" "list_all is_space w" by blast
  then have "s @ [c] = rstrip s @ (w @ [c])" by (metis append.assoc)
  with \<open>list_all is_space w\<close> show ?case by (cases "is_space c") (auto simp: rstrip_snoc intro!: exI [of _ "w @ [c]"])
qed simp

lemma set_rstrip: "set (rstrip s) \<subseteq> set s"
  using rstrip_prefix [of s] by (metis Un_upper1 set_append)

lemma strip_front: "s \<noteq> [] \<Longrightarrow> \<not> is_space (hd s) \<Longrightarrow> strip s = rstrip s"
  by (cases s) (simp_all add: strip_def lstrip_def)

lemma newline_space [simp]: "is_space newline_char"
  by (simp add: is_space_def)

lemma split_on_snoc:
  "split_on newline_char (s @ [c]) =
     (if c = newline_char then split_on newline_char s @ [[]]
      else butlast (split_on newline_char s) @ [last (split_on newline_char s) @ [c]])"
proof -
  have ne: "split_on_aux newline_char acc s \<noteq> []" for acc s by (induction s arbitrary: acc) auto
  have "split_on_aux newline_char acc (s @ [c]) =
     (if c = newline_char then split_on_aux newline_char acc s @ [[]]
      else butlast (split_on_aux newline_char acc s) @ [last (split_on_aux newline_char acc s) @ [c]])" for acc
    by (induction s arbitrary: acc) (auto simp: ne)
  then show ?thesis by (simp add: split_on_def)
qed

text \<open>Blanks at the end of a text are blank lines at its end, once every line is stripped.\<close>

lemma stripped_lines:
  "\<exists>n. map rstrip (split_on newline_char s) = map rstrip (split_on newline_char (rstrip s)) @ replicate n []"
proof (induction s rule: rev_induct)
  case (snoc c s)
  then obtain n where n: "map rstrip (split_on newline_char s) = map rstrip (split_on newline_char (rstrip s)) @ replicate n []" by blast
  show ?case
  proof (cases "is_space c")
    case False
    then show ?thesis by (intro exI [of _ 0]) (simp add: rstrip_snoc)
  next
    case True
    show ?thesis
    proof (cases "c = newline_char")
      case nl: True
      then show ?thesis using n by (intro exI [of _ "Suc n"]) (simp add: rstrip_snoc split_on_snoc replicate_append_same)
    next
      case False
      have "map rstrip (butlast L @ [last L @ [c]]) = map rstrip L" if "L \<noteq> []" for L
      proof -
        have "map rstrip (butlast L @ [last L @ [c]]) = map rstrip (butlast L @ [last L])" using True by (simp add: rstrip_snoc)
        with that show ?thesis by simp
      qed
      then have "map rstrip (split_on newline_char (s @ [c])) = map rstrip (split_on newline_char s)"
        using False by (simp add: split_on_snoc)
      with n True show ?thesis by (simp add: rstrip_snoc)
    qed
  qed
qed (simp add: exI [of _ 0])

lemma find_str_None: "t \<noteq> [] \<Longrightarrow> find_str t s = None \<longleftrightarrow> (\<forall>i. \<not> startswith (drop i s) t)"
proof (induction s)
  case (Cons c s)
  have "(\<forall>i. \<not> startswith (drop i (c # s)) t) \<longleftrightarrow> \<not> startswith (c # s) t \<and> (\<forall>i. \<not> startswith (drop i s) t)"
    by (metis drop0 drop_Suc_Cons not0_implies_Suc)
  with Cons show ?case by auto
qed (auto simp: startswith_def)

lemma contains_iff: "t \<noteq> [] \<Longrightarrow> contains_str s t \<longleftrightarrow> (\<exists>u w. s = u @ t @ w)"
proof
  assume "t \<noteq> []" "contains_str s t"
  then obtain i where "startswith (drop i s) t" by (auto simp: contains_str_def find_str_None)
  then obtain w where "drop i s = t @ w" by (auto simp: startswith_iff)
  then show "\<exists>u w. s = u @ t @ w" by (metis append_take_drop_id)
next
  assume "t \<noteq> []" "\<exists>u w. s = u @ t @ w"
  then obtain u w where "s = u @ t @ w" by blast
  then have "startswith (drop (length u) s) t" by simp
  with \<open>t \<noteq> []\<close> show "contains_str s t" unfolding contains_str_def by (metis find_str_None)
qed

lemma find_str_first:
  "t \<noteq> [] \<Longrightarrow> (\<And>i. i < length u \<Longrightarrow> \<not> startswith (drop i (u @ t @ s)) t) \<Longrightarrow> find_str t (u @ t @ s) = Some (length u)"
proof (induction u)
  case Nil
  then show ?case by (cases t) (simp_all add: startswith_def)
next
  case (Cons c u)
  have "\<not> startswith (drop i (u @ t @ s)) t" if "i < length u" for i using Cons.prems(2) [of "Suc i"] that by simp
  with Cons.IH Cons.prems(1) Cons.prems(2) [of 0] show ?case by simp
qed

section \<open>The block is found again\<close>

definition header_rest :: string where
  "header_rest = drop 5 autosave_header"

lemma header_mark: "autosave_header = block_mark @ header_rest"
  by (simp add: header_rest_def autosave_header_def block_mark_def)

lemma contains_Cons: "t \<noteq> [] \<Longrightarrow> contains_str (c # s) t \<longleftrightarrow> startswith (c # s) t \<or> contains_str s t"
  by (simp add: contains_str_def)

lemma startswith_line: "newline_char \<notin> set p \<Longrightarrow> startswith (l @ newline_char # s) p \<longleftrightarrow> startswith l p"
proof (induction l arbitrary: p)
  case Nil
  then show ?case by (cases p) (auto simp: startswith_def)
next
  case (Cons c l)
  then show ?case by (cases p) (auto simp: startswith_def)
qed

lemma startswith_mark: "startswith (c # s) block_mark \<longleftrightarrow> c = newline_char \<and> startswith s ''#*# ''"
  by (auto simp: block_mark_def startswith_def)

lemma mark_in_lines:
  "newline_char \<notin> set l \<Longrightarrow> \<not> contains_str l block_mark"
  "newline_char \<notin> set l \<Longrightarrow> contains_str (l @ newline_char # s) block_mark \<longleftrightarrow> startswith s ''#*# '' \<or> contains_str s block_mark"
proof -
  have ne: "block_mark \<noteq> []" by (simp add: block_mark_def)
  show "newline_char \<notin> set l \<Longrightarrow> \<not> contains_str l block_mark"
    by (induction l) (auto simp: contains_Cons [OF ne] startswith_mark, simp add: contains_str_def block_mark_def)
  show "newline_char \<notin> set l \<Longrightarrow> contains_str (l @ newline_char # s) block_mark \<longleftrightarrow> startswith s ''#*# '' \<or> contains_str s block_mark"
    by (induction l) (auto simp: contains_Cons [OF ne] startswith_mark)
qed

lemma mark_lines:
  "(\<And>l. l \<in> set ls \<Longrightarrow> newline_char \<notin> set l) \<Longrightarrow>
     contains_str (join [newline_char] ls) block_mark \<longleftrightarrow> (\<exists>l \<in> set (tl ls). startswith l ''#*# '')"
proof (induction ls)
  case (Cons l ls)
  show ?case
  proof (cases ls)
    case Nil
    then show ?thesis using Cons.prems mark_in_lines(1) [of l] by simp
  next
    case (Cons m ms)
    have "startswith (join [newline_char] ls) ''#*# '' \<longleftrightarrow> startswith m ''#*# ''"
      using startswith_line [of "''#*# ''" m] by (cases ms) (simp_all add: Cons)
    moreover have "contains_str (join [newline_char] (l # ls)) block_mark \<longleftrightarrow>
        startswith (join [newline_char] ls) ''#*# '' \<or> contains_str (join [newline_char] ls) block_mark"
      using mark_in_lines(2) [of l "join [newline_char] ls"] Cons.prems Cons by simp
    ultimately show ?thesis using Cons.IH Cons.prems Cons by auto
  qed
qed (simp add: contains_str_def block_mark_def)

lemma mark_overlap: "x @ newline_char # block_mark @ a = block_mark @ b \<Longrightarrow> \<exists>y. x = block_mark @ y"
  unfolding block_mark_def
  by (cases x; cases "tl x"; cases "tl (tl x)"; cases "tl (tl (tl x))"; cases "tl (tl (tl (tl x)))") auto

lemma header_position:
  assumes "\<not> contains_str r block_mark"
  shows "find_str autosave_header (r @ newline_char # autosave_header @ s) = Some (length r + 1)"
proof -
  have ne: "block_mark \<noteq> []" "autosave_header \<noteq> []" by (simp_all add: block_mark_def autosave_header_def)
  have "find_str autosave_header ((r @ [newline_char]) @ autosave_header @ s) = Some (length (r @ [newline_char]))"
  proof (rule find_str_first [OF ne(2)])
    fix i assume i: "i < length (r @ [newline_char])"
    show "\<not> startswith (drop i ((r @ [newline_char]) @ autosave_header @ s)) autosave_header"
    proof
      assume "startswith (drop i ((r @ [newline_char]) @ autosave_header @ s)) autosave_header"
      then obtain w where "drop i ((r @ [newline_char]) @ autosave_header @ s) = block_mark @ header_rest @ w"
        by (auto simp: startswith_iff header_mark)
      then have "drop i r @ newline_char # block_mark @ header_rest @ s = block_mark @ header_rest @ w" using i by (simp add: header_mark)
      from mark_overlap [OF this] obtain y where "drop i r = block_mark @ y" by blast
      then have "r = take i r @ block_mark @ y" by (metis append_take_drop_id)
      with assms contains_iff [OF ne(1), of r] show False by blast
    qed
  qed
  then show ?thesis by simp
qed

text \<open>What is kept of the regular part has no mark of the block, with the newline that follows.\<close>

lemma unmarked_prefix: "\<not> contains_str (r @ s) block_mark \<Longrightarrow> \<not> contains_str (r @ [newline_char]) block_mark"
proof
  have ne: "block_mark \<noteq> []" by (simp add: block_mark_def)
  assume n: "\<not> contains_str (r @ s) block_mark" and "contains_str (r @ [newline_char]) block_mark"
  then obtain u w where u: "r @ [newline_char] = u @ block_mark @ w" using contains_iff [OF ne] by blast
  show False
  proof (cases w rule: rev_cases)
    case Nil
    then have "last (r @ [newline_char]) = last (u @ block_mark)" using u by simp
    then show False by (simp add: block_mark_def)
  next
    case (snoc w' c)
    then have "r = u @ block_mark @ w'" using u by (metis append.assoc butlast_snoc)
    then show False using n contains_iff [OF ne, of "r @ s"] by auto
  qed
qed

definition block_text :: "string \<Rightarrow> string" where
  "block_text l = strip (''#*# '' @ l)"

lemma block_text: "block_text l = (if rstrip l = [] then ''#*#'' else ''#*# '' @ rstrip l)"
proof -
  have "rstrip ''#*# '' = ''#*#''" by code_simp
  then show ?thesis using strip_front [of "''#*# '' @ l"] rstrip_append [of "''#*# ''" l] by (simp add: block_text_def is_space_def)
qed

lemma block_text_line: "block_line (block_text l)" "drop 4 (block_text l) = rstrip l"
  "newline_char \<notin> set l \<Longrightarrow> newline_char \<notin> set (block_text l)"
  using set_rstrip [of l] by (auto simp: block_text block_line_def startswith_def)

lemma rstrip_last: "rstrip s = s \<longleftrightarrow> s = [] \<or> \<not> is_space (last s)"
proof (cases s rule: rev_cases)
  case (snoc t c)
  have "length (rstrip t) \<le> length t" using rstrip_prefix [of t] by (metis length_append le_add1)
  with snoc show ?thesis by (auto simp: rstrip_snoc)
qed simp

lemma block_text_last: "block_text l \<noteq> []" "hd (block_text l) = CHR ''#''" "\<not> is_space (last (block_text l))"
proof -
  have "\<not> is_space (last (rstrip l))" if "rstrip l \<noteq> []"
  proof -
    have "rstrip (rstrip l) = rstrip l" by (simp add: rstrip_def)
    with that show ?thesis by (simp add: rstrip_last)
  qed
  then show "block_text l \<noteq> []" "hd (block_text l) = CHR ''#''" "\<not> is_space (last (block_text l))"
    by (auto simp: block_text is_space_def)
qed

lemma join_last: "ls \<noteq> [] \<Longrightarrow> last ls \<noteq> [] \<Longrightarrow> last (join d ls) = last (last ls) \<and> join d ls \<noteq> []"
  by (induction d ls rule: join.induct) auto

lemma join_hd: "ls \<noteq> [] \<Longrightarrow> hd ls \<noteq> [] \<Longrightarrow> hd (join d ls) = hd (hd ls)"
  by (induction d ls rule: join.induct) auto

lemma join_snoc_Nil: "ls \<noteq> [] \<Longrightarrow> join [d] (ls @ [[]]) = join [d] ls @ [d]"
  by (induction "[d]" ls rule: join.induct) auto

lemma block_shape:
  "autosave_block s = newline_char # autosave_header @ join [newline_char] (map block_text (split_on newline_char s)) @ [newline_char]"
proof -
  have h: "rstrip autosave_header @ [newline_char] = autosave_header" by code_simp
  obtain x xs where x: "map block_text (split_on newline_char s) = x # xs" by (cases "map block_text (split_on newline_char s)") auto
  have "autosave_block s = join [newline_char] ((newline_char # rstrip autosave_header) # (x # xs) @ [[]])"
    unfolding autosave_block_def block_text_def [symmetric] x ..
  also have "\<dots> = newline_char # (rstrip autosave_header @ [newline_char]) @ join [newline_char] ((x # xs) @ [[]])" by simp
  finally show ?thesis unfolding h join_snoc_Nil [OF list.distinct(2)] x .
qed

lemma split_on_parts: "x \<in> set (split_on d s) \<Longrightarrow> d \<notin> set x"
proof -
  have "x \<in> set (split_on_aux d acc s) \<Longrightarrow> d \<notin> set acc \<Longrightarrow> d \<notin> set x" for acc
    by (induction s arbitrary: acc) (fastforce split: if_splits)+
  then show "x \<in> set (split_on d s) \<Longrightarrow> d \<notin> set x" by (simp add: split_on_def)
qed

theorem find_saved_block:
  assumes "\<not> contains_str r block_mark"
  shows "find_autosave_data (rstrip r @ autosave_block s) =
    (rstrip r @ [newline_char], newline_char # join [newline_char] (map rstrip (split_on newline_char s)) @ [newline_char])"
proof -
  let ?ls = "map block_text (split_on newline_char s)" and ?r = "rstrip r"
  obtain w where w: "r = ?r @ w" using rstrip_prefix by blast
  have r: "\<not> contains_str (?r @ [newline_char]) block_mark" using unmarked_prefix [of ?r w] assms w by simp
  have "\<not> contains_str ?r block_mark" using assms w contains_iff [of block_mark] by (metis append.assoc block_mark_def list.distinct(1))
  from header_position [OF this] have p: "find_str autosave_header (?r @ autosave_block s) = Some (length ?r + 1)"
    by (simp add: block_shape)
  have ls: "?ls \<noteq> []" "hd ?ls \<noteq> []" "last ?ls \<noteq> []"
    using block_text_last(1) by (simp_all add: hd_map last_map)
  have nl: "newline_char \<notin> set l" if "l \<in> set ?ls" for l
    using that block_text_line(3) split_on_parts by auto
  have "strip (join [newline_char] ?ls @ [newline_char]) = join [newline_char] ?ls"
  proof -
    have j: "join [newline_char] ?ls \<noteq> []" "hd (join [newline_char] ?ls) = CHR ''#''" "\<not> is_space (last (join [newline_char] ?ls))"
      using join_last [OF ls(1,3)] join_hd [OF ls(1,2)] block_text_last by (simp_all add: hd_map last_map)
    then have "strip (join [newline_char] ?ls @ [newline_char]) = rstrip (join [newline_char] ?ls)"
      using strip_front [of "join [newline_char] ?ls @ [newline_char]"] by (simp add: rstrip_snoc is_space_def)
    with j show ?thesis by (simp add: rstrip_last)
  qed
  moreover have "drop (length ?r + 1 + length autosave_header) (?r @ autosave_block s) = join [newline_char] ?ls @ [newline_char]"
    by (simp add: block_shape)
  moreover have "take (length ?r + 1) (?r @ autosave_block s) = ?r @ [newline_char]" by (simp add: block_shape)
  moreover have "split_on newline_char (join [newline_char] ?ls) = ?ls" by (rule split_on_join [OF ls(1)]) (rule nl)
  moreover have "list_all block_line ?ls" using block_text_line(1) by (simp add: list_all_iff)
  moreover have "map (drop 4) ?ls = map rstrip (split_on newline_char s)" using block_text_line(2) by simp
  ultimately show ?thesis using p r join_snoc_Nil [of "map rstrip (split_on newline_char s)" newline_char]
    by (cases "map rstrip (split_on newline_char s)") (simp_all add: find_autosave_data_def Let_def)
qed

section \<open>Duplicates are commented out\<close>

text \<open>The fields that \<open>_strip_duplicates\<close> sees in the lines of a text, each with its section.\<close>

fun fields_of :: "string option \<Rightarrow> string list \<Rightarrow> (string option \<times> string) list" where
  "fields_of sec [] = []"
| "fields_of sec (l # ls) =
     (let pruned = rstrip (before_comment l) in
      case pruned of
        [] \<Rightarrow> fields_of sec ls
      | x # rest \<Rightarrow>
          if is_space x then fields_of sec ls
          else if x = CHR ''['' then fields_of (Some (strip (butlast rest))) ls
          else (sec, takeWhile field_char pruned) # fields_of sec ls)"

lemma before_hash [simp]: "before_comment (CHR ''#'' # l) = []"
  by (simp add: before_comment_def)

lemma fields_stripped:
  "fields_of sec (strip_lines c sec dup ls) = filter (\<lambda>(sc, f). \<not> has_option c sc f) (fields_of sec ls)"
proof (induction ls arbitrary: sec dup)
  case (Cons l ls)
  show ?case
  proof (cases "rstrip (before_comment l)")
    case Nil
    then show ?thesis using Cons.IH by simp
  next
    case (Cons x rest)
    then show ?thesis using Cons.IH by (auto simp: Let_def)
  qed
qed simp

lemma fields_blank: "fields_of sec (ls @ replicate n []) = fields_of sec ls"
proof (induction ls arbitrary: sec)
  case Nil
  show ?case by (induction n) (simp_all add: before_comment_def)
next
  case (Cons l ls)
  then show ?case by (simp add: Let_def split: list.split)
qed

lemma before_comment_rstrip: "rstrip (before_comment (rstrip l)) = rstrip (before_comment l)"
proof -
  obtain w where w: "l = rstrip l @ w" "list_all is_space w" using rstrip_prefix by blast
  show ?thesis
  proof (cases "\<forall>c \<in> set (rstrip l). c \<noteq> CHR ''#'' \<and> c \<noteq> CHR '';''")
    case True
    have "\<forall>c \<in> set w. c \<noteq> CHR ''#'' \<and> c \<noteq> CHR '';''" using w(2) by (auto simp: list_all_iff is_space_def)
    with True w(1) have "\<forall>c \<in> set l. c \<noteq> CHR ''#'' \<and> c \<noteq> CHR '';''" by (metis Un_iff set_append)
    then have "before_comment l = l" "before_comment (rstrip l) = rstrip l" using True by (simp_all add: before_comment_def takeWhile_eq_all_conv)
    then show ?thesis by (simp add: rstrip_def)
  next
    case False
    then have "before_comment (rstrip l @ w) = before_comment (rstrip l)" unfolding before_comment_def by (auto intro: takeWhile_append1)
    with w(1) show ?thesis by simp
  qed
qed

lemma fields_rstrip: "fields_of sec (map rstrip ls) = fields_of sec ls"
  by (induction ls arbitrary: sec) (auto simp: before_comment_rstrip Let_def split: list.split)

lemma fields_trimmed: "fields_of sec (split_on newline_char (rstrip s @ [newline_char])) = fields_of sec (split_on newline_char s)"
proof -
  obtain n where n: "map rstrip (split_on newline_char s) = map rstrip (split_on newline_char (rstrip s)) @ replicate n []"
    using stripped_lines by blast
  have "fields_of sec (split_on newline_char s) = fields_of sec (map rstrip (split_on newline_char (rstrip s)) @ replicate n [])"
    by (metis n fields_rstrip)
  also have "\<dots> = fields_of sec (split_on newline_char (rstrip s) @ replicate 1 [])" by (simp only: fields_blank fields_rstrip)
  finally show ?thesis by (simp add: split_on_snoc)
qed

lemma strip_lines_line: "m \<in> set (strip_lines c sec dup ls) \<Longrightarrow> \<exists>l \<in> set ls. m = l \<or> m = CHR ''#'' # l"
  by (induction ls arbitrary: sec dup) (auto simp: Let_def split: list.splits if_splits)

lemma split_stripped: "split_on newline_char (strip_duplicates data c) = strip_lines c None False (split_on newline_char data)"
proof -
  have "strip_lines c sec dup ls \<noteq> []" if "ls \<noteq> []" for sec dup ls
    using that by (cases ls) (auto simp: Let_def split: list.split)
  moreover have "newline_char \<notin> set m" if "m \<in> set (strip_lines c None False (split_on newline_char data))" for m
    using strip_lines_line [OF that] split_on_parts by auto
  ultimately show ?thesis unfolding strip_duplicates_def by (intro split_on_join) simp_all
qed

text \<open>Options with names.\<close>

definition named :: "fileconfig \<Rightarrow> bool" where
  "named c \<longleftrightarrow> \<not> din [] (fc_defaults c) \<and> (\<forall>(sec, os) \<in> set (fc_sections c). \<not> din [] os)"

lemma named_option: "named c \<Longrightarrow> \<not> has_option c sec []"
  by (auto simp: named_def has_option_def lower_def dest: map_of_SomeD split: option.split)

lemma strip_lines_mark:
  assumes "named c"
  shows "m \<in> set (strip_lines c sec dup ls) \<Longrightarrow> startswith m ''#*# '' \<Longrightarrow> m \<in> set ls"
proof (induction ls arbitrary: sec dup)
  case (Cons l ls)
  have star: "rstrip (before_comment l) = ''*''" if "startswith (CHR ''#'' # l) ''#*# ''"
  proof -
    from that obtain y where "l = ''*# '' @ y" by (auto simp: startswith_iff)
    then show ?thesis by (simp add: before_comment_def rstrip_def is_space_def)
  qed
  have "takeWhile field_char ''*'' = []" by code_simp
  with star Cons assms show ?case
    by (cases "rstrip (before_comment l)") (auto simp: Let_def is_space_def named_option split: if_splits)
qed simp

lemma strip_lines_tl: "\<exists>sec' dup'. strip_lines c sec dup (l # ls) = hd (strip_lines c sec dup (l # ls)) # strip_lines c sec' dup' ls"
  by (cases "rstrip (before_comment l)") (auto simp: Let_def)

lemma unmarked_stripped:
  assumes "named c" "\<not> contains_str data block_mark"
  shows "\<not> contains_str (strip_duplicates data c) block_mark"
proof
  assume "contains_str (strip_duplicates data c) block_mark"
  then obtain m where m: "m \<in> set (tl (strip_lines c None False (split_on newline_char data)))" "startswith m ''#*# ''"
    using mark_lines [of "strip_lines c None False (split_on newline_char data)"] split_stripped [of data c] split_on_parts
    by (metis join_split_on)
  obtain l ls where l: "split_on newline_char data = l # ls" by (cases "split_on newline_char data") auto
  obtain sec dup where "m \<in> set (strip_lines c sec dup ls)" using m(1) strip_lines_tl [of c None False l ls] unfolding l by (metis list.sel(3))
  then have "m \<in> set (tl (split_on newline_char data))" using strip_lines_mark [OF assms(1)] m(2) l by auto
  with m(2) have "contains_str data block_mark"
    using mark_lines [of "split_on newline_char data"] split_on_parts by (metis join_split_on)
  with assms(2) show False ..
qed

section \<open>What \<open>SAVE_CONFIG\<close> leaves\<close>

definition main_path :: "cfg_env \<Rightarrow> string" where
  "main_path v = abspath v (cfg_name v)"

definition paths_apart :: "cfg_env \<Rightarrow> bool" where
  "paths_apart v \<longleftrightarrow>
     distinct [main_path v, abspath v (suffixed (cfg_name v) (date_text v)), abspath v (suffixed (cfg_name v) ''_autosave'')]"

lemma swap_main:
  assumes "paths_apart v" "dget fs (main_path v) \<noteq> None"
  shows "dget (swap_files v Written data fs) (main_path v) = Some data"
  using assms by (auto simp: swap_files_def rename_file_def paths_apart_def main_path_def Let_def split: option.split)

lemma save_result:
  assumes "cmd_SAVE_CONFIG v Written s = (Inr (), t)" "autosave s = Some a" "fc_sections a \<noteq> []"
  obtains d where "read_config_file v (cfg_files s) (cfg_name v) = Inr d"
    "cfg_files t = swap_files v Written
       (rstrip (strip_duplicates (fst (find_autosave_data d)) a) @ autosave_block (build_config_string a)) (cfg_files s)"
  using assms by (auto simp: cmd_SAVE_CONFIG_def existing_regular_def Let_def rbind_def split: sum.splits if_splits)


section \<open>What is written is read back\<close>

text \<open>
  Names and values that the parser reads as they are: one-line names, options in lower case, values of lines without comments,
  without blanks at their ends and, after the first, not empty.
\<close>

definition plain_line :: "string \<Rightarrow> bool" where
  "plain_line l \<longleftrightarrow> strip l = l \<and> CHR ''#'' \<notin> set l \<and> CHR '';'' \<notin> set l"

definition plain_value :: "string \<Rightarrow> bool" where
  "plain_value v \<longleftrightarrow> list_all plain_line (split_on newline_char v) \<and> list_all (\<lambda>l. l \<noteq> []) (tl (split_on newline_char v))"

definition plain_option :: "string \<Rightarrow> bool" where
  "plain_option opt \<longleftrightarrow> opt \<noteq> [] \<and> list_all field_char opt \<and> lower opt = opt"

definition plain_section :: "string \<Rightarrow> bool" where
  "plain_section sec \<longleftrightarrow> sec \<noteq> [] \<and> sec \<noteq> default_section \<and> plain_line sec \<and> newline_char \<notin> set sec \<and> CHR '']'' \<notin> set sec \<and>
     \<not> startswith sec ''include ''"

definition plain_config :: "fileconfig \<Rightarrow> bool" where
  "plain_config c \<longleftrightarrow> fc_defaults c = [] \<and> dwf (fc_sections c) \<and>
     list_all (\<lambda>(sec, os). plain_section sec \<and> dwf os \<and>
       list_all (\<lambda>(opt, v). plain_option opt \<and> (case v of Joined s \<Rightarrow> plain_value s | Reading ls \<Rightarrow> False)) os) (fc_sections c)"

lemma strip_ends: "strip l = l \<Longrightarrow> l \<noteq> [] \<Longrightarrow> \<not> is_space (hd l) \<and> \<not> is_space (last l)"
proof -
  assume s: "strip l = l" "l \<noteq> []"
  have r: "rstrip (lstrip l) = l" using s(1) by (simp add: strip_def)
  have "rstrip (rstrip (lstrip l)) = rstrip (lstrip l)" by (simp add: rstrip_def)
  then have "rstrip l = l" unfolding r .
  with s(2) have 1: "\<not> is_space (last l)" by (simp add: rstrip_last)
  have "length (rstrip (lstrip l)) \<le> length (lstrip l)" using rstrip_prefix [of "lstrip l"] by (metis length_append le_add1)
  then have "length l \<le> length (dropWhile is_space l)" using r by (simp add: lstrip_def)
  then have "\<not> is_space (hd l)" using s(2) length_dropWhile_le [of is_space "tl l"] by (cases l) (auto split: if_splits)
  with 1 show ?thesis by simp
qed

lemma field_char_plain:
  assumes "field_char c"
  shows "\<not> is_space c \<and> c \<notin> set ''#;=:[]'' \<and> c \<noteq> newline_char"
proof -
  have "CHR ''_'' = c \<or> 48 \<le> ccode c \<and> ccode c \<le> 57 \<or> 65 \<le> ccode c \<and> ccode c \<le> 90 \<or> 97 \<le> ccode c \<and> ccode c \<le> 122"
    using assms by (auto simp: field_char_def is_lower_def is_digit_def lower_char_def is_upper_def split: if_splits)
  then show ?thesis by (auto simp: is_space_def)
qed

lemma inline_none: "CHR '';'' \<notin> set l \<Longrightarrow> inline_comment b l = None"
  by (induction l arbitrary: b) auto

lemma plain_no_comment: "plain_line l \<Longrightarrow> comment_start l = None"
  by (cases l) (auto simp: plain_line_def comment_start_def inline_none startswith_def)

definition section_state :: "(string, cfg_options) dict \<Rightarrow> string \<Rightarrow> cfg_options \<Rightarrow> string \<Rightarrow> reader" where
  "section_state secs sec os opt =
     \<lparr>rd_config = \<lparr>fc_defaults = [], fc_sections = secs @ [(sec, os)]\<rparr>, rd_place = Inside sec, rd_option = opt, rd_indent = 0, rd_bad = False\<rparr>"

lemma dset_last: "\<not> din k d \<Longrightarrow> dset k v (d @ [(k, w)]) = d @ [(k, v)]"
  by (induction d) (auto simp: din_iff)

lemma section_state_parts [simp]:
  "rd_place (section_state secs sec os p) = Inside sec" "rd_option (section_state secs sec os p) = p"
  "rd_indent (section_state secs sec os p) = 0" "rd_bad (section_state secs sec os p) = False"
  "rd_config (section_state secs sec os p) = \<lparr>fc_defaults = [], fc_sections = secs @ [(sec, os)]\<rparr>"
  "(section_state secs sec os p)\<lparr>rd_indent := 0\<rparr> = section_state secs sec os p"
  "(section_state secs sec os p)\<lparr>rd_option := q, rd_bad := False\<rparr> = section_state secs sec os q"
  by (simp_all add: section_state_def)

lemma section_state_options:
  assumes "\<not> din sec secs"
  shows "options_at (section_state secs sec os p) = os" "put_options os' (section_state secs sec os p) = section_state secs sec os' p"
  using assms by (auto simp: options_at_def put_options_def section_state_def dset_last din_def map_add_def)

lemma section_state_add:
  assumes "\<not> din sec secs" "\<not> din opt os"
  shows "add_line l (section_state secs sec (os @ [(opt, Reading ls)]) opt) = section_state secs sec (os @ [(opt, Reading (ls @ [l]))]) opt"
proof -
  have "dget (os @ [(opt, Reading ls)]) opt = Some (Reading ls)" using assms(2) by (auto simp: din_def map_add_def)
  then show ?thesis using assms by (simp add: add_line_def section_state_options dset_last del: map_of_append)
qed

lemma read_header:
  assumes "plain_section sec" "\<not> din sec secs" "fc_defaults (rd_config r) = []" "fc_sections (rd_config r) = secs" "\<not> rd_bad r"
  shows "read_line (CHR ''['' # sec @ '']'') r = Inr (section_state secs sec [] [])"
proof -
  let ?l = "CHR ''['' # sec @ '']''"
  have p: "plain_line ?l" using assms(1) by (auto simp: plain_section_def plain_line_def is_space_def intro!: strip_id)
  then have "strip ?l = ?l" by (simp add: plain_line_def)
  moreover have "takeWhile is_space ?l = []" by (simp add: is_space_def)
  moreover have "takeWhile (\<lambda>c. c \<noteq> CHR '']'') (sec @ '']'') = sec"
    using assms(1) by (subst takeWhile_append2) (auto simp: plain_section_def)
  then have "section_header ?l = Some sec" using assms(1) by (simp add: section_header_def plain_section_def)
  moreover have "rd_config r = \<lparr>fc_defaults = [], fc_sections = secs\<rparr>" using assms(3,4) by (cases "rd_config r") simp
  ultimately show ?thesis
    using plain_no_comment [OF p] assms by (cases r)
      (auto simp: read_line_def open_section_def has_section_def plain_section_def section_state_def dset_absent Let_def)
qed

lemma read_option_line:
  assumes "plain_option opt" "plain_line v" "\<not> din sec secs" "\<not> din opt os"
  shows "read_line (rstrip (opt @ '' = '' @ v)) (section_state secs sec os p) = Inr (section_state secs sec (os @ [(opt, Reading [v])]) opt)"
proof -
  obtain l where l: "l = opt @ CHR '' '' # CHR ''='' # (if v = [] then [] else CHR '' '' # v)" by simp
  have v: "rstrip v = v" using assms(2) strip_ends [of v] by (auto simp: plain_line_def rstrip_last)
  have "rstrip '' = '' = '' =''" by code_simp
  then have m: "rstrip (opt @ '' = '' @ v) = l"
    using rstrip_append [of "opt @ '' = ''" v] rstrip_append [of opt "'' = ''"] by (simp add: l v)
  obtain x xs where x: "opt = x # xs" "field_char x" using assms(1) by (cases opt) (auto simp: plain_option_def)
  have f: "c \<in> set opt \<Longrightarrow> \<not> is_space c \<and> c \<notin> set ''#;=:[]''" for c
    using assms(1) field_char_plain by (auto simp: plain_option_def list_all_iff)
  have "strip l = l"
    using x f [of x] assms(2) strip_ends [of v] by (intro strip_id) (auto simp: l is_space_def plain_line_def)
  then have p: "plain_line l" using f assms(2) by (auto simp: plain_line_def l)
  have "takeWhile is_space l = []" "section_header l = None" using x f [of x] by (auto simp: l section_header_def)
  moreover have "split_option l = Some (opt, v)"
  proof -
    have t: "takeWhile (\<lambda>c. c \<noteq> CHR ''='' \<and> c \<noteq> CHR '':'') l = opt @ '' ''" unfolding l using f by (subst takeWhile_append2) auto
    have "last opt \<in> set opt" using x(1) by simp
    then have "rstrip opt = opt" using f [of "last opt"] rstrip_last [of opt] by blast
    then have "rstrip (opt @ '' '') = opt" by (simp add: rstrip_snoc is_space_def)
    moreover have "strip (CHR '' '' # v) = v" if "v \<noteq> []"
      using assms(2) that by (simp add: plain_line_def strip_def lstrip_def is_space_def)
    ultimately show ?thesis by (auto simp: split_option_def t) (auto simp: l strip_def lstrip_def)
  qed
  ultimately show ?thesis
    unfolding m using plain_no_comment [OF p] p assms(1,3,4) l
    by (auto simp: read_line_def read_option_def section_state_options plain_line_def plain_option_def dset_absent Let_def)
qed

lemma read_continued:
  assumes "plain_line l" "l \<noteq> []" "\<not> din sec secs" "\<not> din opt os" "opt \<noteq> []"
  shows "read_line (CHR 0x09 # l) (section_state secs sec (os @ [(opt, Reading ls)]) opt) =
    Inr (section_state secs sec (os @ [(opt, Reading (ls @ [l]))]) opt)"
proof -
  have s: "strip (CHR 0x09 # l) = l" using assms(1) by (simp add: plain_line_def strip_def lstrip_def is_space_def)
  then have "comment_start (CHR 0x09 # l) = None"
    using assms(1,2) by (cases l) (auto simp: plain_line_def comment_start_def inline_none startswith_def)
  with s assms show ?thesis
    by (simp add: read_line_def section_state_add is_space_def)
qed

abbreviation read_lines :: "reader \<Rightarrow> string list \<Rightarrow> reader res" where
  "read_lines \<equiv> rfold (\<lambda>r l. read_line l r)"

lemma rfold_append: "rfold f s (xs @ ys) = rbind (rfold f s xs) (\<lambda>u. rfold f u ys)"
  by (induction xs arbitrary: s) (auto simp: rbind_assoc)

text \<open>The lines of the text of an option and of a section.\<close>

definition option_lines :: "string \<times> cfg_value \<Rightarrow> string list" where
  "option_lines kv = (let ls = split_on newline_char (value_text (snd kv)) in (fst kv @ '' = '' @ hd ls) # map (Cons (CHR 0x09)) (tl ls))"

definition section_lines :: "string \<times> cfg_options \<Rightarrow> string list" where
  "section_lines so = (CHR ''['' # fst so @ '']'') # concat (map option_lines (snd so)) @ [[]]"

definition as_read :: "string \<times> cfg_value \<Rightarrow> string \<times> cfg_value" where
  "as_read kv = (fst kv, Reading (split_on newline_char (value_text (snd kv))))"

lemma plain_values:
  assumes "plain_value v"
  shows "plain_line (hd (split_on newline_char v))" "l \<in> set (tl (split_on newline_char v)) \<Longrightarrow> plain_line l \<and> l \<noteq> []" "rstrip v = v"
proof -
  obtain x xs where x: "split_on newline_char v = x # xs" by (cases "split_on newline_char v") auto
  show "plain_line (hd (split_on newline_char v))" using assms x by (simp add: plain_value_def)
  show "l \<in> set (tl (split_on newline_char v)) \<Longrightarrow> plain_line l \<and> l \<noteq> []"
    using assms x by (auto simp: plain_value_def list_all_iff)
  have j: "v = join [newline_char] (x # xs)" using x by (metis join_split_on)
  show "rstrip v = v"
  proof (cases "last (x # xs) = []")
    case True
    then have "xs = []" using assms x by (cases xs rule: rev_cases) (auto simp: plain_value_def)
    with True j show ?thesis by simp
  next
    case False
    have "last (x # xs) \<in> set (x # xs)" by simp
    then have "plain_line (last (x # xs))" using assms x by (simp add: plain_value_def list_all_iff)
    then have "\<not> is_space (last (last (x # xs)))" using strip_ends False by (simp add: plain_line_def)
    with join_last [of "x # xs" "[newline_char]"] False j show ?thesis by (simp add: rstrip_last)
  qed
qed

lemma read_option_lines:
  assumes "plain_option opt" "plain_value v" "\<not> din sec secs" "\<not> din opt os"
  shows "read_lines (section_state secs sec os p) (map rstrip (option_lines (opt, Joined v))) =
    Inr (section_state secs sec (os @ [as_read (opt, Joined v)]) opt)"
proof -
  obtain x xs where x: "split_on newline_char v = x # xs" by (cases "split_on newline_char v") auto
  have xs: "plain_line l \<and> l \<noteq> []" if "l \<in> set xs" for l using plain_values(2) [OF assms(2)] x that by simp
  have "rstrip (CHR 0x09 # l) = CHR 0x09 # l" if "l \<in> set xs" for l
    using xs [OF that] strip_ends [of l] by (simp add: plain_line_def rstrip_last)
  then have m: "map (\<lambda>l. rstrip (CHR 0x09 # l)) xs = map (Cons (CHR 0x09)) xs" by simp
  have "read_lines (section_state secs sec (os @ [(opt, Reading ls)]) opt) (map (Cons (CHR 0x09)) ys) =
      Inr (section_state secs sec (os @ [(opt, Reading (ls @ ys))]) opt)" if "set ys \<subseteq> set xs" for ls ys
    using that
  proof (induction ys arbitrary: ls)
    case (Cons y ys)
    have "opt \<noteq> []" using assms(1) by (simp add: plain_option_def)
    with Cons xs [of y] read_continued [of y sec secs opt os ls] assms(3,4) show ?case by simp
  qed simp
  moreover have "plain_line x" using plain_values(1) [OF assms(2)] x by simp
  ultimately show ?thesis
    using read_option_line [OF assms(1) _ assms(3,4), of x p] by (simp add: option_lines_def as_read_def x comp_def m)
qed

lemma read_options:
  assumes "list_all (\<lambda>(opt, v). plain_option opt \<and> (case v of Joined s \<Rightarrow> plain_value s | Reading ls \<Rightarrow> False)) os"
    and "\<not> din sec secs" "distinct (map fst (ys @ os))"
  shows "\<exists>q. read_lines (section_state secs sec ys p) (map rstrip (concat (map option_lines os))) =
    Inr (section_state secs sec (ys @ map as_read os) q)"
  using assms(1,3)
proof (induction os arbitrary: ys p)
  case (Cons kv os)
  obtain opt v where kv: "kv = (opt, Joined v)" "plain_option opt" "plain_value v"
    using Cons.prems(1) by (cases kv; cases "snd kv") auto
  have "\<not> din opt ys" using Cons.prems(2) kv(1) by (auto simp: din_iff)
  note r = read_option_lines [OF kv(2,3) assms(2) this, of p]
  have "\<exists>q. read_lines (section_state secs sec (ys @ [as_read kv]) opt) (map rstrip (concat (map option_lines os))) =
      Inr (section_state secs sec ((ys @ [as_read kv]) @ map as_read os) q)"
    using Cons.prems by (intro Cons.IH) (auto simp: as_read_def)
  with r kv(1) show ?case by (simp add: rfold_append)
qed auto

lemma dset_same: "dget d k = Some v \<Longrightarrow> dset k v d = d"
  by (induction d) (auto split: if_splits)

lemma map_dset: "map (\<lambda>(k, v). (k, f v)) (dset k v d) = dset k (f v) (map (\<lambda>(k, v). (k, f v)) d)"
  by (induction d) auto

lemma dget_map: "dget (map (\<lambda>(k, v). (k, f v)) d) k = map_option f (dget d k)"
  by (induction d) auto

lemma joined_add_blank: "joined (rd_config (add_line [] r)) = joined (rd_config r)"
proof (cases "dget (options_at r) (rd_option r)")
  case None
  then show ?thesis by (simp add: add_line_def)
next
  case (Some v)
  show ?thesis
  proof (cases v)
    case (Reading ls)
    have "join_value (Reading (ls @ [[]])) = join_value (Reading ls)"
      using join_snoc_Nil [of ls newline_char] by (cases "ls = []") (simp_all add: rstrip_snoc)
    then have j: "join_values (dset (rd_option r) (Reading (ls @ [[]])) (options_at r)) = join_values (options_at r)"
      unfolding join_values_def map_dset using Some Reading by (intro dset_same) (simp add: dget_map)
    have c: "add_line [] r = put_options (dset (rd_option r) (Reading (ls @ [[]])) (options_at r)) r" using Some Reading by (simp add: add_line_def)
    show ?thesis
    proof (cases "rd_place r")
      case Nowhere
      then show ?thesis by (simp add: c put_options_def)
    next
      case Defaults
      then show ?thesis using j by (simp add: c put_options_def options_at_def joined_def)
    next
      case (Inside sec)
      then obtain os where os: "dget (fc_sections (rd_config r)) sec = Some os" "options_at r = os"
        using Some by (auto simp: options_at_def split: option.splits)
      then show ?thesis using j Inside
        by (simp add: c put_options_def joined_def map_dset [of join_values]) (intro dset_same, simp add: dget_map)
    qed
  qed (use Some in \<open>simp add: add_line_def\<close>)
qed

lemma read_blank:
  obtains r' where "read_line [] r = Inr r'" "joined (rd_config r') = joined (rd_config r)" "rd_bad r' = rd_bad r"
proof -
  have b: "rd_bad (add_line [] r) = rd_bad r" by (auto simp: add_line_def put_options_def split: option.split cfg_value.split place.split)
  have "read_line [] r = Inr (if rd_place r \<noteq> Nowhere \<and> rd_option r \<noteq> [] then add_line [] r else r)"
    by (simp add: read_line_def comment_start_def startswith_def strip_def lstrip_def)
  with that b joined_add_blank [of r] show ?thesis by (auto split: if_splits)
qed

lemma read_blanks:
  obtains r' where "read_lines r (replicate n []) = Inr r'" "joined (rd_config r') = joined (rd_config r)" "rd_bad r' = rd_bad r"
proof -
  have "\<exists>r'. read_lines r (replicate n []) = Inr r' \<and> joined (rd_config r') = joined (rd_config r) \<and> rd_bad r' = rd_bad r"
  proof (induction n arbitrary: r)
    case (Suc n)
    obtain u where u: "read_line [] r = Inr u" "joined (rd_config u) = joined (rd_config r)" "rd_bad u = rd_bad r" by (rule read_blank)
    with Suc [of u] show ?case by simp
  qed simp
  with that show ?thesis by blast
qed

definition clean :: "reader \<Rightarrow> (string, cfg_options) dict \<Rightarrow> bool" where
  "clean r secs \<longleftrightarrow> joined (rd_config r) = \<lparr>fc_defaults = [], fc_sections = secs\<rparr> \<and> \<not> rd_bad r"

lemma as_read_joined:
  assumes "list_all (\<lambda>(opt, v). plain_option opt \<and> (case v of Joined s \<Rightarrow> plain_value s | Reading ls \<Rightarrow> False)) os"
  shows "join_values (map as_read os) = os"
proof -
  have "(case as_read kv of (k, v) \<Rightarrow> (k, join_value v)) = kv" if k: "kv \<in> set os" for kv
  proof -
    obtain opt v where kv: "kv = (opt, Joined v)" "plain_value v"
      using assms k by (cases kv; cases "snd kv") (auto simp: list_all_iff)
    with plain_values(3) show ?thesis by (simp add: as_read_def)
  qed
  then show ?thesis unfolding join_values_def by (simp add: map_idI)
qed

lemma read_section:
  assumes "plain_section sec" "dwf os"
    and os: "list_all (\<lambda>(opt, v). plain_option opt \<and> (case v of Joined s \<Rightarrow> plain_value s | Reading ls \<Rightarrow> False)) os"
    and "clean r secs" "\<not> din sec secs"
  shows "\<exists>r'. read_lines r (map rstrip (section_lines (sec, os))) = Inr r' \<and> clean r' (secs @ [(sec, os)])"
proof -
  let ?s = "fc_sections (rd_config r)"
  have j: "map (\<lambda>(sec, os). (sec, join_values os)) ?s = secs" "fc_defaults (rd_config r) = []" "\<not> rd_bad r"
    using assms(4) by (auto simp: clean_def joined_def join_values_def)
  then have n: "\<not> din sec ?s" using assms(5) by (force simp: din_iff)
  obtain q where q: "read_lines (section_state ?s sec [] []) (map rstrip (concat (map option_lines os))) = Inr (section_state ?s sec (map as_read os) q)"
    using read_options [OF os n, of "[]"] assms(2) by auto
  have l: "rstrip (CHR ''['' # sec @ '']'') = CHR ''['' # sec @ '']''" by (simp add: rstrip_last is_space_def)
  obtain r' where r': "read_line [] (section_state ?s sec (map as_read os) q) = Inr r'"
    "joined (rd_config r') = joined (rd_config (section_state ?s sec (map as_read os) q))" "\<not> rd_bad r'"
    using read_blank [of "section_state ?s sec (map as_read os) q"] by auto
  have "read_lines r (map rstrip (section_lines (sec, os))) = Inr r'"
    using read_header [OF assms(1) n j(2) _ j(3)] q r'(1) by (simp add: section_lines_def rfold_append l)
  moreover have "clean r' (secs @ [(sec, os)])"
    using r'(2,3) j(1) as_read_joined [OF os] by (simp add: clean_def joined_def join_values_def)
  ultimately show ?thesis by blast
qed

lemma read_sections:
  assumes "plain_config \<lparr>fc_defaults = [], fc_sections = ss\<rparr>" "clean r secs" "distinct (map fst (secs @ ss))"
  shows "\<exists>r'. read_lines r (map rstrip (concat (map section_lines ss))) = Inr r' \<and> clean r' (secs @ ss)"
  using assms
proof (induction ss arbitrary: r secs)
  case (Cons so ss)
  obtain sec os where so: "so = (sec, os)" by (cases so)
  have "\<exists>r'. read_lines r (map rstrip (section_lines (sec, os))) = Inr r' \<and> clean r' (secs @ [(sec, os)])"
    using Cons.prems by (intro read_section) (auto simp: plain_config_def so din_iff)
  then obtain u where u: "read_lines r (map rstrip (section_lines (sec, os))) = Inr u" "clean u (secs @ [(sec, os)])" by blast
  have "\<exists>r'. read_lines u (map rstrip (concat (map section_lines ss))) = Inr r' \<and> clean r' ((secs @ [(sec, os)]) @ ss)"
    using Cons.prems u(2) by (intro Cons.IH) (auto simp: plain_config_def so)
  with u(1) show ?case by (simp add: so rfold_append)
qed auto

text \<open>The text of a configuration, in lines.\<close>

lemma replace_newlines:
  "replace_str [newline_char] [newline_char, CHR 0x09] v =
     join [newline_char] (hd (split_on newline_char v) # map (Cons (CHR 0x09)) (tl (split_on newline_char v)))"
proof -
  have none: "newline_char \<notin> set l \<Longrightarrow> replace_str [newline_char] [newline_char, CHR 0x09] l = l" for l
    by (induction l) (auto simp: startswith_def)
  have sep: "newline_char \<notin> set l \<Longrightarrow> replace_str [newline_char] [newline_char, CHR 0x09] (l @ newline_char # s) =
      l @ newline_char # CHR 0x09 # replace_str [newline_char] [newline_char, CHR 0x09] s" for l s
    by (induction l) (auto simp: startswith_def)
  have "list_all (\<lambda>l. newline_char \<notin> set l) ls \<Longrightarrow> ls \<noteq> [] \<Longrightarrow>
      replace_str [newline_char] [newline_char, CHR 0x09] (join [newline_char] ls) = join [newline_char] (hd ls # map (Cons (CHR 0x09)) (tl ls))" for ls
  proof (induction ls)
    case (Cons l ls)
    show ?case
    proof (cases ls)
      case Nil
      then show ?thesis using Cons.prems none by simp
    next
      case (Cons m ms)
      then show ?thesis using Cons.IH Cons.prems sep [of l "join [newline_char] ls"] by (cases ms) simp_all
    qed
  qed simp
  from this [of "split_on newline_char v"] show ?thesis using split_on_parts [of _ newline_char v] by (auto simp: list_all_iff)
qed

abbreviation with_ends :: "string list \<Rightarrow> string" where
  "with_ends ls \<equiv> concat (map (\<lambda>l. l @ [newline_char]) ls)"

lemma with_ends: "ls \<noteq> [] \<Longrightarrow> join [newline_char] ls @ [newline_char] = with_ends ls"
  by (induction "[newline_char]" ls rule: join.induct) auto

lemma option_text_lines: "option_text kv = with_ends (option_lines kv)"
  unfolding option_text_def replace_newlines
  using with_ends [of "option_lines kv"] by (cases "tl (split_on newline_char (value_text (snd kv)))") (simp_all add: option_lines_def Let_def)

lemma section_text_lines: "section_text so = with_ends (section_lines so)"
proof -
  have "concat (map option_text os) = with_ends (concat (map option_lines os))" for os
    by (induction os) (simp_all add: option_text_lines)
  then show ?thesis by (simp add: section_text_def section_lines_def)
qed

lemma config_text_lines: "fc_defaults c = [] \<Longrightarrow> config_text c = with_ends (concat (map section_lines (fc_sections c)))"
proof -
  have "concat (map section_text ss) = with_ends (concat (map section_lines ss))" for ss
    by (induction ss) (simp_all add: section_text_lines)
  then show "fc_defaults c = [] \<Longrightarrow> ?thesis" by (simp add: config_text_def)
qed

lemma split_with_ends: "list_all (\<lambda>l. newline_char \<notin> set l) ls \<Longrightarrow> split_on newline_char (with_ends ls) = ls @ [[]]"
  by (induction ls) (auto simp: split_on_sep split_on_absent)

lemma plain_config_option:
  assumes "plain_config a" "(sec, os) \<in> set (fc_sections a)" "kv \<in> set os"
  obtains opt v where "kv = (opt, Joined v)" "plain_option opt" "plain_value v"
  using assms by (cases kv; cases "snd kv") (force simp: plain_config_def list_all_iff)+

lemma plain_config_section: "plain_config a \<Longrightarrow> (sec, os) \<in> set (fc_sections a) \<Longrightarrow> plain_section sec"
  by (auto simp: plain_config_def list_all_iff)

text \<open>Lines that are taken as they are: no comment and no include.\<close>

definition plain_text :: "string \<Rightarrow> bool" where
  "plain_text l \<longleftrightarrow> newline_char \<notin> set l \<and> CHR ''#'' \<notin> set l \<and> CHR '';'' \<notin> set l \<and> include_spec l = None"

lemma plain_value_line: "plain_value v \<Longrightarrow> l \<in> set (split_on newline_char v) \<Longrightarrow> plain_line l \<and> newline_char \<notin> set l"
  using split_on_parts [of l newline_char v] by (auto simp: plain_value_def list_all_iff)

lemma option_lines_text:
  assumes "plain_option opt" "plain_value v" "l \<in> set (option_lines (opt, Joined v))"
  shows "plain_text l \<and> plain_text (rstrip l)"
proof -
  obtain x xs where x: "split_on newline_char v = x # xs" by (cases "split_on newline_char v") auto
  obtain o1 os where o1: "opt = o1 # os" "field_char o1" using assms(1) by (cases opt) (auto simp: plain_option_def)
  have f: "c \<in> set opt \<Longrightarrow> c \<notin> set ''#;=:[]'' \<and> c \<noteq> newline_char" for c
    using assms(1) field_char_plain by (auto simp: plain_option_def list_all_iff)
  have none: "newline_char \<notin> set opt" "CHR ''#'' \<notin> set opt" "CHR '';'' \<notin> set opt" using f by auto
  have l: "l = opt @ '' = '' @ x \<or> (\<exists>y \<in> set xs. l = CHR 0x09 # y)" using assms(3) by (auto simp: option_lines_def x)
  then have hd: "\<exists>m. l = o1 # m \<or> l = CHR 0x09 # m" using o1(1) by auto
  have "newline_char \<notin> set y \<and> CHR ''#'' \<notin> set y \<and> CHR '';'' \<notin> set y" if "y = x \<or> y \<in> set xs" for y
    using plain_value_line [OF assms(2), of y] that by (auto simp: x plain_line_def)
  with l none have chars: "newline_char \<notin> set l" "CHR ''#'' \<notin> set l" "CHR '';'' \<notin> set l" by auto
  have "include_spec m = None" if "m = [] \<or> hd m = hd l" for m
    using that hd f [of o1] o1(1) by (cases m) (auto simp: include_spec_def section_header_def)
  moreover have "rstrip l = [] \<or> hd (rstrip l) = hd l" using rstrip_prefix [of l] by (metis hd_append2)
  ultimately show ?thesis using chars set_rstrip [of l] by (auto simp: plain_text_def)
qed

lemma section_lines_text:
  assumes "plain_config a" "(sec, os) \<in> set (fc_sections a)" "l \<in> set (section_lines (sec, os))"
  shows "plain_text l \<and> plain_text (rstrip l)"
proof -
  have sec: "plain_section sec" using plain_config_section assms(1,2) .
  have "section_header (CHR ''['' # sec @ '']'') = Some sec"
  proof -
    have "takeWhile (\<lambda>c. c \<noteq> CHR '']'') (sec @ '']'') = sec" using sec by (subst takeWhile_append2) (auto simp: plain_section_def)
    then show ?thesis using sec by (simp add: section_header_def plain_section_def)
  qed
  then have "plain_text (CHR ''['' # sec @ '']'')" using sec by (auto simp: plain_text_def plain_section_def plain_line_def include_spec_def)
  moreover have "rstrip (CHR ''['' # sec @ '']'') = CHR ''['' # sec @ '']''" by (simp add: rstrip_last is_space_def)
  moreover have "plain_text []" by (simp add: plain_text_def include_spec_def section_header_def)
  moreover have "plain_text l \<and> plain_text (rstrip l)" if "kv \<in> set os" "l \<in> set (option_lines kv)" for kv
    using plain_config_option [OF assms(1,2) that(1)] option_lines_text that(2) by metis
  ultimately show ?thesis using assms(3) by (auto simp: section_lines_def)
qed

definition config_lines :: "fileconfig \<Rightarrow> string list" where
  "config_lines a = concat (map section_lines (fc_sections a))"

definition saved_lines :: "fileconfig \<Rightarrow> string list" where
  "saved_lines a = [] # map rstrip (split_on newline_char (build_config_string a)) @ [[]]"

lemma saved_lines_blank:
  assumes "plain_config a" "fc_sections a \<noteq> []"
  obtains n where "map rstrip (config_lines a) @ [[]] = map rstrip (split_on newline_char (build_config_string a)) @ replicate n []"
proof -
  have t: "config_text a = with_ends (config_lines a)" using config_text_lines assms(1) by (simp add: plain_config_def config_lines_def)
  have "list_all (\<lambda>l. newline_char \<notin> set l) (config_lines a)"
    using section_lines_text [OF assms(1)] by (fastforce simp: config_lines_def list_all_iff plain_text_def)
  then have s: "split_on newline_char (config_text a) = config_lines a @ [[]]" unfolding t by (rule split_with_ends)
  obtain so ss where "fc_sections a = so # ss" using assms(2) by (cases "fc_sections a") auto
  then have "config_text a \<noteq> []" "hd (config_text a) = CHR ''[''" by (simp_all add: t config_lines_def section_lines_def)
  then have "build_config_string a = rstrip (config_text a)" using strip_front by (simp add: build_config_string_def is_space_def)
  with that stripped_lines [of "config_text a"] s show ?thesis by auto
qed

lemma saved_lines_text:
  assumes "plain_config a" "fc_sections a \<noteq> []" "l \<in> set (saved_lines a)"
  shows "plain_text l"
proof -
  have e: "plain_text []" by (simp add: plain_text_def include_spec_def section_header_def)
  obtain n where n: "map rstrip (config_lines a) @ [[]] = map rstrip (split_on newline_char (build_config_string a)) @ replicate n []"
    by (rule saved_lines_blank [OF assms(1,2)])
  have "set (map rstrip (split_on newline_char (build_config_string a))) \<subseteq> set (map rstrip (config_lines a) @ [[]])" unfolding n by simp
  with assms(3) have "l \<in> rstrip ` set (config_lines a) \<or> l = []" unfolding saved_lines_def by auto
  with e show ?thesis using section_lines_text [OF assms(1)] by (auto simp: config_lines_def)
qed

lemma parse_plain:
  "list_all plain_text ls \<Longrightarrow> parse_lines inc buffer ls c = parse_config_buffer (buffer @ ls) c"
proof (induction ls arbitrary: buffer)
  case (Cons l ls)
  then have "\<forall>c \<in> set l. c \<noteq> CHR ''#''" by (auto simp: plain_text_def)
  then have e: "takeWhile (\<lambda>c. c \<noteq> CHR ''#'') l = l" by (simp only: takeWhile_eq_all_conv)
  have "include_spec l = None" "list_all plain_text ls" using Cons.prems by (simp add: plain_text_def, simp)
  then show ?case using Cons.IH by (simp add: Let_def e)
qed simp

text \<open>Reading the saved lines gives the configuration.\<close>

lemma saved_lines_read:
  assumes "plain_config a" "fc_sections a \<noteq> []"
  shows "build_config_wrapper v fs (join [newline_char] (saved_lines a)) name = Inr a"
proof -
  let ?r = "\<lparr>rd_config = no_config, rd_place = Nowhere, rd_option = [], rd_indent = 0, rd_bad = False\<rparr>"
  let ?M = "map rstrip (split_on newline_char (build_config_string a))"
  have d: "fc_defaults a = []" "dwf (fc_sections a)" using assms(1) by (simp_all add: plain_config_def)
  then have a: "a = \<lparr>fc_defaults = [], fc_sections = fc_sections a\<rparr>" by (cases a) simp
  obtain n where n: "map rstrip (config_lines a) @ [[]] = ?M @ replicate n []" by (rule saved_lines_blank [OF assms])
  have "plain_config \<lparr>fc_defaults = [], fc_sections = fc_sections a\<rparr>" using assms(1) a by simp
  then obtain w where w: "read_lines ?r (map rstrip (config_lines a)) = Inr w" "clean w (fc_sections a)"
    using read_sections [of "fc_sections a" ?r "[]"] d(2) unfolding config_lines_def
    by (auto simp: clean_def joined_def join_values_def no_config_def)
  obtain w' where w': "read_lines w (replicate 1 []) = Inr w'" "joined (rd_config w') = joined (rd_config w)" "rd_bad w' = rd_bad w"
    by (rule read_blanks)
  have "read_lines ?r (?M @ replicate n []) = Inr w'" unfolding n [symmetric] rfold_append using w(1) w'(1) by simp
  then obtain u where u: "read_lines ?r ?M = Inr u" "read_lines u (replicate n []) = Inr w'" by (auto simp: rfold_append rbind_eq_Inr)
  have "joined (rd_config u) = joined (rd_config w)" "rd_bad u = rd_bad w" using read_blanks [of u n] u(2) w'(2,3) by (metis sum.inject(2))+
  with w(2) have cu: "clean u (fc_sections a)" by (simp add: clean_def)
  obtain x where x: "read_lines u (replicate 1 []) = Inr x" "joined (rd_config x) = joined (rd_config u)" "rd_bad x = rd_bad u"
    by (rule read_blanks)
  have e: "read_line [] ?r = Inr ?r" by (simp add: read_line_def strip_def lstrip_def comment_start_def startswith_def)
  have "read_lines ?r (saved_lines a) = Inr x" using u(1) x(1) e by (simp add: saved_lines_def rfold_append)
  moreover have "split_on newline_char (join [newline_char] (saved_lines a)) = saved_lines a"
    using saved_lines_text [OF assms] by (intro split_on_join) (simp_all add: saved_lines_def plain_text_def)
  ultimately have r: "readfp (join [newline_char] (saved_lines a)) no_config = Inr a"
    using x(2,3) cu a by (simp add: readfp_def clean_def)
  have "list_all plain_text (saved_lines a)" using saved_lines_text [OF assms] by (simp add: list_all_iff)
  then show ?thesis
    using r \<open>split_on newline_char (join [newline_char] (saved_lines a)) = saved_lines a\<close>
    by (simp add: build_config_wrapper_def parse_plain parse_config_buffer_def) (simp add: saved_lines_def)
qed

text \<open>No saved line is a duplicate unless its option is in the rest of the configuration.\<close>

lemma strip_lines_same: "list_all (\<lambda>(sc, f). \<not> has_option c sc f) (fields_of sec ls) \<Longrightarrow> strip_lines c sec False ls = ls"
  by (induction c sec False ls rule: strip_lines.induct) (auto simp: Let_def split: list.splits if_splits)

lemma fields_of_option:
  assumes "plain_option opt" "plain_value v"
  shows "fields_of sec (option_lines (opt, Joined v) @ ls) = (sec, opt) # fields_of sec ls"
proof -
  obtain x xs where x: "split_on newline_char v = x # xs" by (cases "split_on newline_char v") auto
  obtain o1 os where o1: "opt = o1 # os" "field_char o1" using assms(1) by (cases opt) (auto simp: plain_option_def)
  let ?l = "opt @ '' = '' @ x"
  have "plain_text ?l" using option_lines_text [OF assms, of ?l] by (simp add: option_lines_def x)
  then have c: "\<forall>c \<in> set ?l. c \<noteq> CHR ''#'' \<and> c \<noteq> CHR '';''" by (auto simp: plain_text_def)
  have b: "before_comment ?l = ?l" using c unfolding before_comment_def by (simp only: takeWhile_eq_all_conv)
  have "rstrip '' ='' = '' =''" by code_simp
  then obtain m where m: "rstrip ?l = opt @ CHR '' '' # m"
  proof -
    have "\<exists>m. rstrip (CHR '' '' # CHR ''='' # CHR '' '' # x) = CHR '' '' # m"
      using rstrip_append [of "'' = ''" x] by (cases "rstrip x = []") (simp_all add: rstrip_def is_space_def)
    then show ?thesis using that rstrip_append [of opt "CHR '' '' # CHR ''='' # CHR '' '' # x"] by auto
  qed
  have f: "takeWhile field_char (opt @ CHR '' '' # m) = opt"
    using assms(1) by (subst takeWhile_append2) (auto simp: plain_option_def list_all_iff field_char_def is_digit_def lower_char_def is_lower_def is_upper_def)
  have tabs: "fields_of sec (map (Cons (CHR 0x09)) ys @ ls) = fields_of sec ls" if "set ys \<subseteq> set xs" for ys
    using that
  proof (induction ys)
    case (Cons y ys)
    have "plain_text (CHR 0x09 # y)" using option_lines_text [OF assms, of "CHR 0x09 # y"] Cons.prems by (simp add: option_lines_def x)
    then have "\<forall>c \<in> set (CHR 0x09 # y). c \<noteq> CHR ''#'' \<and> c \<noteq> CHR '';''" by (auto simp: plain_text_def)
    then have "before_comment (CHR 0x09 # y) = CHR 0x09 # y" unfolding before_comment_def by (simp only: takeWhile_eq_all_conv)
    moreover have "rstrip (CHR 0x09 # y) = [] \<or> (\<exists>m. rstrip (CHR 0x09 # y) = CHR 0x09 # m)"
      using rstrip_append [of "[CHR 0x09]" y] by (auto simp: rstrip_def is_space_def)
    ultimately show ?case using Cons by (auto simp: is_space_def)
  qed simp
  show ?thesis
    using b m f o1 field_char_plain [OF o1(2)] tabs [of xs] by (simp add: option_lines_def x Let_def)
qed

lemma fields_of_section:
  assumes "plain_config a" "(sec, os) \<in> set (fc_sections a)"
  shows "fields_of s (section_lines (sec, os) @ ls) = map (\<lambda>kv. (Some sec, fst kv)) os @ fields_of (Some sec) ls"
proof -
  have sec: "plain_section sec" by (rule plain_config_section [OF assms])
  have c: "\<forall>c \<in> set (CHR ''['' # sec @ '']''). c \<noteq> CHR ''#'' \<and> c \<noteq> CHR '';''" using sec by (auto simp: plain_section_def plain_line_def)
  have b: "before_comment (CHR ''['' # sec @ '']'') = CHR ''['' # sec @ '']''" using c unfolding before_comment_def
    by (simp only: takeWhile_eq_all_conv)
  have r: "rstrip (CHR ''['' # sec @ '']'') = CHR ''['' # sec @ '']''" by (simp add: rstrip_last is_space_def)
  have h: "fields_of s ((CHR ''['' # sec @ '']'') # ms) = fields_of (Some sec) ms" for ms
    using sec by (simp add: b r is_space_def plain_section_def plain_line_def)
  have "fields_of (Some sec) (concat (map option_lines xs) @ ms) = map (\<lambda>kv. (Some sec, fst kv)) xs @ fields_of (Some sec) ms"
    if "set xs \<subseteq> set os" for xs ms
    using that
  proof (induction xs)
    case (Cons kv xs)
    obtain opt v where kv: "kv = (opt, Joined v)" "plain_option opt" "plain_value v"
      using plain_config_option [OF assms, of kv] Cons.prems by auto
    with Cons fields_of_option [OF kv(2,3)] show ?case by simp
  qed simp
  from this [of os "[] # ls"] h show ?thesis by (simp add: section_lines_def before_comment_def)
qed

lemma fields_of_saved:
  assumes "plain_config a" "fc_sections a \<noteq> []"
  shows "fields_of s (saved_lines a) = concat (map (\<lambda>(sec, os). map (\<lambda>kv. (Some sec, fst kv)) os) (fc_sections a))"
proof -
  obtain n where n: "map rstrip (config_lines a) @ [[]] = map rstrip (split_on newline_char (build_config_string a)) @ replicate n []"
    by (rule saved_lines_blank [OF assms])
  have "fields_of s (saved_lines a) = fields_of s (map rstrip (split_on newline_char (build_config_string a)) @ replicate 1 [])"
    by (simp add: saved_lines_def before_comment_def)
  also have "\<dots> = fields_of s (map rstrip (split_on newline_char (build_config_string a)) @ replicate n [])" by (simp only: fields_blank)
  also have "\<dots> = fields_of s (map rstrip (config_lines a) @ replicate 1 [])" using n by simp
  also have "\<dots> = fields_of s (config_lines a)" by (simp only: fields_blank fields_rstrip)
  also have "\<dots> = concat (map (\<lambda>(sec, os). map (\<lambda>kv. (Some sec, fst kv)) os) (fc_sections a))"
  proof -
    have "fields_of s (concat (map section_lines ss)) = concat (map (\<lambda>(sec, os). map (\<lambda>kv. (Some sec, fst kv)) os) ss)"
      if "set ss \<subseteq> set (fc_sections a)" for ss s
      using that
    proof (induction ss arbitrary: s)
      case (Cons so ss)
      then show ?case using fields_of_section [OF assms(1), of "fst so" "snd so"] by (cases so) simp
    qed simp
    then show ?thesis by (simp add: config_lines_def)
  qed
  finally show ?thesis .
qed

text \<open>The saved options are nowhere else.\<close>

definition not_elsewhere :: "fileconfig \<Rightarrow> fileconfig \<Rightarrow> bool" where
  "not_elsewhere a rc \<longleftrightarrow> list_all (\<lambda>(sec, os). list_all (\<lambda>kv. \<not> has_option rc (Some sec) (fst kv)) os) (fc_sections a)"

lemma saved_not_stripped:
  assumes "plain_config a" "fc_sections a \<noteq> []" "not_elsewhere a rc"
  shows "strip_duplicates (join [newline_char] (saved_lines a)) rc = join [newline_char] (saved_lines a)"
proof -
  have "split_on newline_char (join [newline_char] (saved_lines a)) = saved_lines a"
    using saved_lines_text [OF assms(1,2)] by (intro split_on_join) (simp_all add: saved_lines_def plain_text_def)
  moreover have "strip_lines rc None False (saved_lines a) = saved_lines a"
    using assms(3) by (intro strip_lines_same) (auto simp: fields_of_saved [OF assms(1,2)] not_elsewhere_def list_all_iff)
  ultimately show ?thesis by (simp add: strip_duplicates_def)
qed

lemma plain_named: "plain_config a \<Longrightarrow> named a"
  by (fastforce simp: plain_config_def named_def din_iff list_all_iff plain_option_def)

definition saved_regular :: "fileconfig \<Rightarrow> string \<Rightarrow> string" where
  "saved_regular a r = rstrip (strip_duplicates r a) @ [newline_char]"

lemma no_return_replaced: "CHR 0x0D \<notin> set s \<Longrightarrow> replace_str [CHR 0x0D, newline_char] [newline_char] s = s"
  by (induction s) (auto simp: startswith_def)


section \<open>Includes\<close>

lemma resolve_same:
  assumes "\<And>data name c. dget fs (abspath v name) \<noteq> None \<Longrightarrow> f data name c = g data name c"
  shows "resolve_include v fs f source spec c = resolve_include v fs g source spec c"
proof -
  have "rbind (read_config_file v fs name) (\<lambda>data. f data name c) = rbind (read_config_file v fs name) (\<lambda>data. g data name c)" for name c
    using assms [of name] by (cases "dget fs (abspath v name)") (simp_all add: read_config_file_def)
  then show ?thesis by (simp add: resolve_include_def Let_def)
qed

lemma parse_deeper:
  assumes "card (set (dkeys fs) - set visited) < n" "n \<le> m" "dget fs (abspath v name) \<noteq> None"
  shows "parse_config v fs n visited data name c = parse_config v fs m visited data name c"
  using assms
proof (induction n arbitrary: m visited data name c)
  case (Suc n)
  then obtain m' where m: "m = Suc m'" "n \<le> m'" by (cases m) auto
  let ?p = "abspath v name"
  have "?p \<in> set (dkeys fs)" using Suc.prems(3) by (force dest: map_of_SomeD)
  then have "card (set (dkeys fs) - set (?p # visited)) < card (set (dkeys fs) - set visited)" if "?p \<notin> set visited"
    using that by (intro psubset_card_mono) auto
  then have "parse_config v fs n (?p # visited) d nm c = parse_config v fs m' (?p # visited) d nm c"
    if "?p \<notin> set visited" "dget fs (abspath v nm) \<noteq> None" for d nm c
    using Suc.prems(1) that m(2) by (intro Suc.IH) auto
  then have "?p \<notin> set visited \<Longrightarrow>
      resolve_include v fs (parse_config v fs n (?p # visited)) name = resolve_include v fs (parse_config v fs m' (?p # visited)) name"
    by (intro ext resolve_same) auto
  then show ?case unfolding m(1) by simp
qed simp

text \<open>A greater depth than the one given to the includes makes no difference.\<close>

theorem depth_is_enough: "parse_config v fs (length fs + 2 + k) [] data name c = parse_config v fs (length fs + 2) [] data name c"
proof -
  let ?p = "abspath v name"
  have "card (set (dkeys fs) - set [?p]) \<le> length fs" by (metis Diff_subset List.finite_set card_length card_mono length_map le_trans)
  then have "parse_config v fs (length fs + 1 + k) [?p] d nm c = parse_config v fs (length fs + 1) [?p] d nm c"
    if "dget fs (abspath v nm) \<noteq> None" for d nm c
    using that by (intro parse_deeper [symmetric]) auto
  then have "resolve_include v fs (parse_config v fs (length fs + 1 + k) [?p]) name = resolve_include v fs (parse_config v fs (length fs + 1) [?p]) name"
    by (intro ext resolve_same) auto
  then show ?thesis by simp
qed

section \<open>Saving and restarting, in an example\<close>

definition demo_env :: cfg_env where
  "demo_env = \<lparr>abspath = (\<lambda>p. p), include_path = (\<lambda>s p. p), glob_names = (\<lambda>fs p. []), has_magic = (\<lambda>p. False), cfg_name = ''p'', date_text = ''-d''\<rparr>"

definition demo_saved :: fileconfig where
  "demo_saved = \<lparr>fc_defaults = [], fc_sections = [(''s'', [(''k'', Joined ''1'')])]\<rparr>"

definition demo_config :: "string \<Rightarrow> printer_config" where
  "demo_config d = (new_printer_config [(''p'', d)])\<lparr>autosave := Some demo_saved\<rparr>"

definition demo_text :: string where
  "demo_text = ''[s]'' @ newline_char # ''k:2''"

lemma demo_find: "find_autosave_data demo_text = (demo_text, [newline_char, newline_char])" "\<not> contains_str demo_text block_mark"
  by code_simp+

lemma demo_save:
  "case cmd_SAVE_CONFIG demo_env Written (demo_config demo_text) of (r, t) \<Rightarrow>
     r = Inr () \<and> CHR 0x0D \<notin> set (the (dget (cfg_files t) ''p'')) \<and>
     (case build_config_wrapper demo_env (cfg_files t) (saved_regular demo_saved demo_text) ''p'' of
        Inr rc \<Rightarrow> not_elsewhere demo_saved rc | Inl e \<Rightarrow> False)"
  by code_simp

text \<open>A section written after the block makes the block unreadable, and so is the one that every later \<open>SAVE_CONFIG\<close> adds.\<close>

lemma appended_section_disables_saving:
  "case cmd_SAVE_CONFIG demo_env Written (demo_config (autosave_header @ ''[z]'')) of (r, t) \<Rightarrow>
     r = Inr () \<and> snd (find_autosave_data (the (dget (cfg_files t) ''p''))) = []"
  by code_simp

text \<open>A value is cut at a comment character, though it is written whole.\<close>

lemma saved_comment_is_cut:
  "build_config_wrapper demo_env [] (config_text \<lparr>fc_defaults = [], fc_sections = [(''s'', [(''k'', Joined ''a#b'')])]\<rparr>) ''p'' =
    Inr \<lparr>fc_defaults = [], fc_sections = [(''s'', [(''k'', Joined ''a'')])]\<rparr>"
  by code_simp

lemma demo_state:
  "autosave (demo_config d) = Some demo_saved" "fc_sections demo_saved \<noteq> []" "named demo_saved" "plain_config demo_saved" "paths_apart demo_env"
  "read_config_file demo_env (cfg_files (demo_config demo_text)) (cfg_name demo_env) = Inr demo_text" "main_path demo_env = ''p''"
  by (simp add: demo_config_def, code_simp+)



end
