(* ===== verification/Spec2Isabelle.thy ===== *)
theory Spec2Isabelle
  imports MsgParser TmcUart TmcFields Pins GCode Reactor PauseResume JobQueue DeltaPrinter IdleTimeout VerifyHeater
    ExcludeObject GitDeploy ConfigFile
begin

text \<open>
  A model of the programs of the repository, the FLSUN T1 variants of Klipper (\<open>t1-pro/klipper\<close>) and Moonraker
  (\<open>t1-pro/moonraker\<close>), with the theorems that make its components correct. Paths below are under \<open>src/\<close>;
  \<open>klippy\<close> is \<open>t1-pro/klipper/klippy\<close>.

  \<^bold>\<open>The program.\<close> Klippy turns a stream of G-code into timed motion and into messages for micro-controllers. Lines come from the
  terminal or from a file (\<open>extras/virtual_sdcard.py\<close>), are parsed and dispatched (\<open>gcode.py\<close>), become moves in
  coordinates with offsets and overrides (\<open>extras/gcode_move.py\<close>), pass through the look-ahead queue and get a place in time
  (\<open>toolhead.py\<close>). Everything runs in greenlets of one event loop (\<open>reactor.py\<close>); the printer object (\<open>klippy.py\<close>) holds
  the state of the whole. Messages to micro-controllers are framed and encoded by \<open>msgproto.py\<close>. Moonraker drives Klippy
  from outside, queues jobs and updates the software; of it the job queue, the versions and the updates from git are modelled.

  \<^bold>\<open>Shared theories.\<close>
  \<^item> \<open>PyPrelude\<close>: results that may raise, insertion-ordered dictionaries, bounded deques, and the locales \<open>table\<close> and
    \<open>bounded_queue\<close>, interpreted on them, and \<open>supplier\<close>, the contract of a component that hands things out. \<open>PyAct\<close>: methods as actions that may raise, with triples for what they keep. \<open>PyStrings\<close>, \<open>PyRegex\<close>, \<open>PyBits\<close>: Python's string methods, the regular expressions the
    sources use with leftmost-first alternatives, and bits of integers.

  \<^bold>\<open>Messages\<close> (\<open>klippy/msgproto.py\<close>).
  \<^item> \<open>MsgWire\<close>: CRC-16, variable-length integers, framing and \<open>check_packet\<close>. A changed byte is detected, a framed
    command is accepted.
  \<^item> \<open>MsgProto\<close>: the parameter types and the message formats; the locale \<open>codec\<close> is the law that what is encoded
    decodes, for a parameter, named arguments and positional arguments.
  \<^item> \<open>MsgParser\<close>: the dictionary of messages, from identification to the text of commands; an invariant of reachable
    dictionaries, and round trips through a whole packet.

  \<^bold>\<open>Drivers.\<close>
  \<^item> \<open>TmcUart\<close> (\<open>extras/tmc_uart.py\<close>): the serial framing of the stepper drivers and its retries on a line that may lose
    messages. \<open>TmcFields\<close> (\<open>extras/tmc.py\<close>): register fields and the periodic error check.
  \<^item> \<open>Pins\<close> (\<open>pins.py\<close>): pin names, aliases and who may use a pin.

  \<^bold>\<open>Core.\<close>
  \<^item> \<open>Printer\<close> (\<open>klippy.py\<close>): the printer's state and its registries; connecting refines an abstract state machine, a
    shutdown is final.
  \<^item> \<open>Reactor\<close> (\<open>reactor.py\<close>): timers, completions, greenlets and mutexes; no timer is forgotten, a mutex is
    exclusive and fair.
  \<^item> \<open>GCode\<close> (\<open>gcode.py\<close>): the parser of traditional and extended commands, the registry and dispatch of handlers, and
    the reading of lines, in every interleaving of reading and processing.

  \<^bold>\<open>Motion.\<close>
  \<^item> \<open>GCodeMove\<close> (\<open>extras/gcode_move.py\<close>): coordinates, offsets, overrides, saved states. \<open>stm\<close>, \<open>seqs\<close> and \<open>keeps\<close> sequence
    handlers that raise and carry an invariant through them.
  \<^item> \<open>LookAhead\<close> (\<open>toolhead.py\<close>: \<open>Move\<close>, \<open>MoveQueue\<close>): junction speeds and the backward pass of \<open>flush\<close>. \<open>visited\<close> is
    the invariant of the pass, \<open>queue_wf\<close> that of the queue; every move handed on has a feasible trapezoid of its own length.
  \<^item> \<open>ToolHead\<close> (\<open>toolhead.py\<close>: \<open>ToolHead\<close>): print time, the states of the buffer, drip moves, velocity limits; what
    it asks of the C library is a trace. \<open>MotionOrder\<close>: the trace is in order in every reachable state (\<open>th_reach\<close>).
    \<open>MotionShape\<close>: the moves in the trace are those the commands added, but for what the planner decides.
  \<^item> \<open>MathUtil\<close> (\<open>mathutil.py\<close>): vectors, trilateration and coordinate descent. \<open>Delta\<close> (\<open>kinematics/delta.py\<close>): the geometry
    of the delta robot from its configuration and the check of a move with its cached limit. \<open>DeltaCalibration\<close>
    (\<open>kinematics/delta.py\<close>, \<open>extras/delta_calibrate.py\<close>): stable positions and the fit of the parameters.
  \<^item> \<open>Extruder\<close> (\<open>kinematics/extruder.py\<close>): limits of extrusion, pressure advance and the commands of extruders.
  \<^item> \<open>DeltaPrinter\<close> puts these together: the toolhead's checks are the delta kinematics' and an extruder's. In every state it
    can reach (\<open>m_reach\<close>) the motion is in order, within reach and within the limits of extrusion.
  \<^item> \<open>IdleTimeout\<close> (\<open>extras/idle_timeout.py\<close>): the timer that turns the printer off, and its use of the toolhead's event.

  \<^bold>\<open>Heat.\<close>
  \<^item> \<open>Heaters\<close> (\<open>extras/heaters.py\<close>): heaters with their two control algorithms, and the registry of heaters and sensors;
    power stays within its bounds and goes to zero with the target. \<open>VerifyHeater\<close> (\<open>extras/verify_heater.py\<close>): the check
    that a heater warms; a heater that stays cold is found within a bounded number of calls.

  \<^bold>\<open>Prints.\<close>
  \<^item> \<open>PrintStats\<close>, \<open>VirtualSd\<close>, \<open>PauseResume\<close> (\<open>extras/print_stats.py\<close>, \<open>virtual_sdcard.py\<close>, \<open>pause_resume.py\<close>): printing a
    file line by line, pausing at any point, resuming, and finding the place to go on after a loss of power.
  \<^item> \<open>SaveVariables\<close> (\<open>extras/save_variables.py\<close>): the table of saved variables, its queue and the thread that writes it; what was
    saved is read back after a restart once the queue has been written, and the lemmas after it show where a value is lost.
  \<^item> \<open>ExcludeObject\<close> (\<open>extras/exclude_object.py\<close>): the objects of a print and the filter of moves that leaves some of them out, on
    the chain of transforms of \<open>GCodeMove\<close>; no move of an excluded object reaches the machine, and the extruder is where the G-code has it after.
  \<^item> \<open>JobQueue\<close> (\<open>moonraker/components/job_queue.py\<close>): coroutines cut at their awaits, as a step relation whose
    interleavings the theorems range over.

  \<^bold>\<open>Configuration.\<close>
  \<^item> \<open>ConfigWrapper\<close> (\<open>configfile.py\<close>): how an option with a default and bounds is read.
  \<^item> \<open>ConfigFile\<close> (\<open>configfile.py\<close>: \<open>PrinterConfig\<close>): the file with its includes, what is used of \<open>configparser\<close>, and \<open>SAVE_CONFIG\<close>.
    The block of saved values is found again whatever is before it, duplicates are commented out and nothing else is, and a restart
    reads back what was saved (\<open>plain_config\<close>). The lemmas at its close show where a value or the whole block is lost.

  \<^bold>\<open>Updates\<close> (\<open>moonraker/utils/versions.py\<close>, \<open>components/update_manager/git_deploy.py\<close>).
  \<^item> \<open>Versions\<close>: the two kinds of version strings, parsed by their patterns, and their comparisons; the texts of git describe are in
    the order of releases and commits. The lemmas on \<open>__le__\<close> and \<open>convert_to_git\<close> show where they fail.
  \<^item> \<open>GitDeploy\<close>: the state kept of a git repository (\<open>git_repo\<close>, \<open>GitRepo\<close>), every command run on it, and the application that is
    one (\<open>deploy\<close>, \<open>GitDeploy\<close>). \<open>held\<close> is what running git leaves alone, \<open>deploy_inv\<close> the invariant of all operations. For every
    behaviour of git (the functions \<open>git\<close> and \<open>git_process\<close> of \<open>git_env\<close>) only a pristine repository is updated, a rollback goes back, a
    recovery that returns is pristine and the stable channel offers nothing older than the current release.

  \<^bold>\<open>Conventions.\<close> Exceptions are values (\<open>exc\<close>), with the state left behind where a handler changes it before it raises. A method
  that pauses or awaits is cut there, so that other steps come in between. The clock, the terminal, micro-controllers,
  handlers, the file system and components that are not modelled are parameters or arguments. Numbers with a fraction are
  rationals, or reals where the code takes square roots: rounding of floating-point numbers is not modelled, and neither are infinities outside the parser.

  \<^bold>\<open>Bounds and loops.\<close> The loops of the sources end and are total functions here: \<open>update_loop\<close> advances the print time by at
  least half a second a turn, \<open>flush_loop\<close> visits each move once, the scan for a resume position goes down block by block,
  coordinate descent has its 10000 rounds as the argument of its recursion.
  Includes of configuration files nest at most as deep as there are files (\<open>depth_is_enough\<close>).
  Regular expressions are run by recursion on their structure with the length of the input as the bound of a star. git commands are
  retried a fixed number of times, five or fewer, and a lock is waited for sixty times, as in the source. A loop
  over readings of the outside world (\<open>drip_loop\<close>, the worker of the virtual SD card) takes the readings as a list and gives
  none while they do not yet end it.

  \<^bold>\<open>Not modelled.\<close> Other geometry and fitting code (the other kinematics, bed mesh, probing, input shaping), device drivers and displays,
  the layer over serial ports and C code (\<open>mcu.py\<close>, \<open>stepper.py\<close>, \<open>serialhdl.py\<close>, \<open>clocksync.py\<close>), scripts, and Moonraker's network,
  database and system services: they rest on floating-point analysis, on devices or on packages outside the repository.
  Moonraker's history, data store and job state, and the deployments that are not git
  repositories have logic of their own that could be modelled in the same way.
\<close>

end
